(* ===== verification/Prelude.thy ===== *)
theory Prelude
  imports Main "HOL-Library.Word" "HOL-Library.Monad_Syntax"
begin

text \<open>
  What the components share: the machine integer types of the C code, checked access to a
  block of memory (an access outside the block is undefined behaviour in C and is the value
  \<open>None\<close> here), and the facts on bits, bytes and lists that carry the component proofs.
\<close>

unbundle bit_operations_syntax

section \<open>Machine integers\<close>

type_synonym u8 = "8 word"
type_synonym u16 = "16 word"
type_synonym u32 = "32 word"
type_synonym u64 = "64 word"

named_theorems bitlit \<open>which bits the literals of the code have\<close>
named_theorems mem_simps \<open>reads and writes of memory blocks\<close>

subsection \<open>Bits of literals and of bounded words\<close>

lemma unat_pow2:
  assumes "k < LENGTH('a)"
  shows "unat ((2::'a::len word) ^ k) = 2 ^ k"
proof -
  have "(2::nat) ^ k < 2 ^ LENGTH('a)" using assms by simp
  moreover have "unat ((2::'a word) ^ k) = unat (of_nat (2 ^ k) :: 'a word)" by simp
  ultimately show ?thesis by (simp only: unat_of_nat mod_less)
qed

lemma word_lt_bit:
  assumes "v < 2 ^ k" and "bit (v::'a::len word) n"
  shows "n < k"
proof (rule ccontr)
  assume "\<not> n < k"
  moreover have "n < LENGTH('a)"
    using assms(2) by (simp add: bit_imp_le_length)
  ultimately have "k < LENGTH('a)" by simp
  then have "unat v < 2 ^ k"
    using assms(1) by (simp add: word_less_nat_alt unat_pow2)
  then have "\<not> bit (unat v) n"
    using \<open>\<not> n < k\<close> by (metis bit_take_bit_iff take_bit_nat_eq_self)
  with assms(2) show False by (simp add: bit_unsigned_iff)
qed

lemma bit_pow2_word: "bit ((2::'a::len word) ^ k) n \<longleftrightarrow> n = k \<and> k < LENGTH('a)"
  by (auto simp: bit_exp_iff)

lemma bit_80_8 [bitlit]: "bit (0x80::u8) n \<longleftrightarrow> n = 7"
  using bit_pow2_word [of 7 n, where 'a=8] by simp

lemma bit_80_64 [bitlit]: "bit (0x80::u64) n \<longleftrightarrow> n = 7"
  using bit_pow2_word [of 7 n, where 'a=64] by simp

lemma bit_C0_8 [bitlit]: "bit (0xC0::u8) n \<longleftrightarrow> n = 7 \<or> n = 6"
proof -
  have "(0xC0::u8) = 2 ^ 7 OR 2 ^ 6" by simp
  then show ?thesis by (simp only: bit_or_iff bit_pow2_word) simp
qed

lemma bit_C0_64 [bitlit]: "bit (0xC0::u64) n \<longleftrightarrow> n = 7 \<or> n = 6"
proof -
  have "(0xC0::u64) = 2 ^ 7 OR 2 ^ 6" by simp
  then show ?thesis by (simp only: bit_or_iff bit_pow2_word) simp
qed

lemma bit_E0_8 [bitlit]: "bit (0xE0::u8) n \<longleftrightarrow> n = 7 \<or> n = 6 \<or> n = 5"
proof -
  have "(0xE0::u8) = 2 ^ 7 OR (2 ^ 6 OR 2 ^ 5)" by simp
  then show ?thesis by (simp only: bit_or_iff bit_pow2_word) simp
qed

lemma bit_E0_64 [bitlit]: "bit (0xE0::u64) n \<longleftrightarrow> n = 7 \<or> n = 6 \<or> n = 5"
proof -
  have "(0xE0::u64) = 2 ^ 7 OR (2 ^ 6 OR 2 ^ 5)" by simp
  then show ?thesis by (simp only: bit_or_iff bit_pow2_word) simp
qed

lemma bit_F0_8 [bitlit]: "bit (0xF0::u8) n \<longleftrightarrow> n = 7 \<or> n = 6 \<or> n = 5 \<or> n = 4"
proof -
  have "(0xF0::u8) = 2 ^ 7 OR (2 ^ 6 OR (2 ^ 5 OR 2 ^ 4))" by simp
  then show ?thesis by (simp only: bit_or_iff bit_pow2_word) simp
qed

lemma bit_FC_8 [bitlit]:
  "bit (0xFC::u8) n \<longleftrightarrow> n = 7 \<or> n = 6 \<or> n = 5 \<or> n = 4 \<or> n = 3 \<or> n = 2"
proof -
  have "(0xFC::u8) = 2 ^ 7 OR (2 ^ 6 OR (2 ^ 5 OR (2 ^ 4 OR (2 ^ 3 OR 2 ^ 2))))" by simp
  then show ?thesis by (simp only: bit_or_iff bit_pow2_word) simp
qed

lemma bit_FC_64 [bitlit]:
  "bit (0xFC::u64) n \<longleftrightarrow> n = 7 \<or> n = 6 \<or> n = 5 \<or> n = 4 \<or> n = 3 \<or> n = 2"
proof -
  have "(0xFC::u64) = 2 ^ 7 OR (2 ^ 6 OR (2 ^ 5 OR (2 ^ 4 OR (2 ^ 3 OR 2 ^ 2))))" by simp
  then show ?thesis by (simp only: bit_or_iff bit_pow2_word) simp
qed

text \<open>
  The simplifier's bit rules turn a literal of a word into the literal of an integer, so the
  same facts are needed there.
\<close>

lemma bit_pow2_int: "bit ((2::int) ^ k) n \<longleftrightarrow> n = k"
  by (auto simp: bit_exp_iff)

lemma bit_80_int [bitlit]: "bit (0x80::int) n \<longleftrightarrow> n = 7"
  using bit_pow2_int [of 7 n] by simp

lemma bit_C0_int [bitlit]: "bit (0xC0::int) n \<longleftrightarrow> n = 7 \<or> n = 6"
proof -
  have "(0xC0::int) = 2 ^ 7 OR 2 ^ 6" by simp
  then show ?thesis by (simp only: bit_or_iff bit_pow2_int)
qed

lemma bit_E0_int [bitlit]: "bit (0xE0::int) n \<longleftrightarrow> n = 7 \<or> n = 6 \<or> n = 5"
proof -
  have "(0xE0::int) = 2 ^ 7 OR (2 ^ 6 OR 2 ^ 5)" by simp
  then show ?thesis by (simp only: bit_or_iff bit_pow2_int)
qed

lemma bit_F0_int [bitlit]: "bit (0xF0::int) n \<longleftrightarrow> n = 7 \<or> n = 6 \<or> n = 5 \<or> n = 4"
proof -
  have "(0xF0::int) = 2 ^ 7 OR (2 ^ 6 OR (2 ^ 5 OR 2 ^ 4))" by simp
  then show ?thesis by (simp only: bit_or_iff bit_pow2_int)
qed

lemma bit_FC_int [bitlit]:
  "bit (0xFC::int) n \<longleftrightarrow> n = 7 \<or> n = 6 \<or> n = 5 \<or> n = 4 \<or> n = 3 \<or> n = 2"
proof -
  have "(0xFC::int) = 2 ^ 7 OR (2 ^ 6 OR (2 ^ 5 OR (2 ^ 4 OR (2 ^ 3 OR 2 ^ 2))))" by simp
  then show ?thesis by (simp only: bit_or_iff bit_pow2_int)
qed

lemma mask_lits:
  "(0x03::u8) = mask 2" "(0x0F::u8) = mask 4" "(0x1F::u8) = mask 5"
  "(0x3F::u8) = mask 6" "(0x7F::u8) = mask 7" "(0xFF::u64) = mask 8"
  by (simp_all add: mask_eq_exp_minus_1)

text \<open>Cutting a word into runs of bits and joining them again.\<close>

lemma join_bits:
  "push_bit k (take_bit m (drop_bit k v)) OR take_bit k v = take_bit (k + m) (v::'a::len word)"
  by (rule bit_word_eqI) (auto simp: bit_simps)

lemma take_bit_all64: "take_bit 64 (v::u64) = v"
  by (rule bit_word_eqI) (simp add: bit_simps)

lemma byte_of: "ucast (ucast ((v::u64) AND 0xFF) :: u8) = take_bit 8 v"
  unfolding mask_lits by (rule bit_word_eqI) (auto simp: bit_simps)

section \<open>Memory blocks\<close>

text \<open>
  A block of memory is the list of its cells. \<open>peek\<close> reads one cell, \<open>slice\<close> a run of cells
  (\<open>memcpy\<close> out of the block), \<open>poke\<close> overwrites a run of cells (\<open>memcpy\<close> into it).
  Each is \<open>None\<close> when it leaves the block.
\<close>

definition peek :: "'a list \<Rightarrow> nat \<Rightarrow> 'a option" where
  "peek b i = (if i < length b then Some (b ! i) else None)"

definition slice :: "'a list \<Rightarrow> nat \<Rightarrow> nat \<Rightarrow> 'a list option" where
  "slice b i n = (if i + n \<le> length b then Some (take n (drop i b)) else None)"

definition poke :: "'a list \<Rightarrow> nat \<Rightarrow> 'a list \<Rightarrow> 'a list option" where
  "poke b i xs =
     (if i + length xs \<le> length b
      then Some (take i b @ xs @ drop (i + length xs) b) else None)"

lemma peek_in [mem_simps]: "i < length b \<Longrightarrow> peek b i = Some (b ! i)"
  by (simp add: peek_def)

lemma peek_SomeD: "peek b i = Some x \<Longrightarrow> i < length b \<and> x = b ! i"
  by (simp add: peek_def split: if_splits)

lemma slice_in [mem_simps]: "i + n \<le> length b \<Longrightarrow> slice b i n = Some (take n (drop i b))"
  by (simp add: slice_def)

lemma poke_in [mem_simps]:
  "i + length xs \<le> length b \<Longrightarrow> poke b i xs = Some (take i b @ xs @ drop (i + length xs) b)"
  by (simp add: poke_def)

lemma poke_length: "poke b i xs = Some b' \<Longrightarrow> length b' = length b"
  by (auto simp: poke_def split: if_splits)

lemma poke_None_iff: "poke b i xs = None \<longleftrightarrow> length b < i + length xs"
  by (auto simp: poke_def)

lemma slice_poke: "poke b i xs = Some b' \<Longrightarrow> slice b' i (length xs) = Some xs"
  by (auto simp: poke_def slice_def split: if_splits)

lemma poke_before: "poke b i xs = Some b' \<Longrightarrow> take i b' = take i b"
  by (auto simp: poke_def split: if_splits)

lemma peek_append_hd [mem_simps]: "peek (x # xs) 0 = Some x"
  by (simp add: peek_def)

lemma peek_append_tl [mem_simps]: "peek (x # xs) (Suc n) = peek xs n"
  by (simp add: peek_def)

lemma peek_append_numeral [mem_simps]: "peek (x # xs) (numeral k) = peek xs (pred_numeral k)"
  by (simp add: peek_def numeral_eq_Suc)

lemma take_drop_shift: "take n (drop i xs) = ys \<Longrightarrow> i + n \<le> length xs \<Longrightarrow> length ys = n"
  by auto

section \<open>Little endian encodings\<close>

fun le_bytes :: "nat \<Rightarrow> 'a::len word \<Rightarrow> u8 list" where
  "le_bytes 0 v = []"
| "le_bytes (Suc n) v = ucast v # le_bytes n (drop_bit 8 v)"

fun from_le :: "u8 list \<Rightarrow> 'a::len word" where
  "from_le [] = 0"
| "from_le (b # bs) = ucast b OR push_bit 8 (from_le bs)"

lemma length_le_bytes [simp]: "length (le_bytes n v) = n"
  by (induction n arbitrary: v) auto

lemma from_le_le_bytes: "from_le (le_bytes n v) = take_bit (8 * n) v"
proof (induction n arbitrary: v)
  case (Suc n)
  have "ucast (ucast v :: u8) OR push_bit 8 (take_bit (8 * n) (drop_bit 8 v)) = take_bit (8 * Suc n) v"
    by (rule bit_word_eqI) (auto simp: bit_simps)
  with Suc show ?case by simp
qed simp

lemma bit_from_le: "bit (from_le cs :: 'a::len word) n \<Longrightarrow> n < 8 * length cs"
proof (induction cs arbitrary: n)
  case (Cons c cs)
  have "n < 8 \<or> bit (from_le cs :: 'a word) (n - 8)"
    using Cons.prems by (auto simp: bit_simps dest: bit_imp_le_length)
  then have "n < 8 \<or> n - 8 < 8 * length cs" using Cons.IH by blast
  then show ?case by auto
qed simp

lemma le_bytes_from_le:
  "8 * length bs \<le> LENGTH('a) \<Longrightarrow> le_bytes (length bs) (from_le bs :: 'a::len word) = bs"
proof (induction bs)
  case (Cons b bs)
  have l: "8 * length bs + 8 \<le> LENGTH('a)" using Cons.prems by simp
  have "ucast (from_le (b # bs) :: 'a word) = b"
    using l by (intro bit_word_eqI) (auto simp: bit_simps)
  moreover have "\<And>n. bit (from_le bs :: 'a word) n \<Longrightarrow> 8 + n < LENGTH('a)"
    using l bit_from_le [of bs] by fastforce
  then have "drop_bit 8 (from_le (b # bs) :: 'a word) = from_le bs"
    by (intro bit_word_eqI) (auto simp: bit_simps dest: bit_imp_le_length)
  ultimately show ?case using Cons by simp
qed simp

section \<open>What a fallible operation returns\<close>

text \<open>
  \<open>all_some P m\<close>: if \<open>m\<close> returns, its result has \<open>P\<close>. The rules follow the structure of an
  operation, so that an invariant is proved by walking through its definition.
\<close>

definition all_some :: "('a \<Rightarrow> bool) \<Rightarrow> 'a option \<Rightarrow> bool" where
  "all_some P m \<longleftrightarrow> (\<forall>x. m = Some x \<longrightarrow> P x)"

named_theorems wp \<open>rules for \<open>all_some\<close>\<close>

lemma all_someD: "all_some P m \<Longrightarrow> m = Some x \<Longrightarrow> P x"
  by (simp add: all_some_def)

lemma all_some_mono: "all_some Q m \<Longrightarrow> (\<And>x. m = Some x \<Longrightarrow> Q x \<Longrightarrow> P x) \<Longrightarrow> all_some P m"
  by (simp add: all_some_def)

lemma all_some_None [wp]: "all_some P None"
  by (simp add: all_some_def)

lemma all_some_Some [wp]: "P x \<Longrightarrow> all_some P (Some x)"
  by (simp add: all_some_def)

lemma all_some_bind: "all_some (\<lambda>x. all_some P (f x)) m \<Longrightarrow> all_some P (Option.bind m f)"
  by (cases m) (simp_all add: all_some_def)

lemma all_some_bind_any [wp]: "(\<And>x. m = Some x \<Longrightarrow> all_some P (f x)) \<Longrightarrow> all_some P (Option.bind m f)"
  by (cases m) (simp_all add: all_some_def)

lemma all_some_if [wp]:
  "(b \<Longrightarrow> all_some P m) \<Longrightarrow> (\<not> b \<Longrightarrow> all_some P n) \<Longrightarrow> all_some P (if b then m else n)"
  by simp

lemma all_some_let [wp]: "all_some P (f t) \<Longrightarrow> all_some P (Let t f)"
  by simp

lemma all_some_prod [wp]:
  "(\<And>a b. x = (a, b) \<Longrightarrow> all_some P (f a b)) \<Longrightarrow> all_some P (case x of (a, b) \<Rightarrow> f a b)"
  by (cases x) simp

lemma all_some_option [wp]:
  "(x = None \<Longrightarrow> all_some P m) \<Longrightarrow> (\<And>y. x = Some y \<Longrightarrow> all_some P (f y)) \<Longrightarrow>
   all_some P (case x of None \<Rightarrow> m | Some y \<Rightarrow> f y)"
  by (cases x) simp_all

lemma all_some_list [wp]:
  "(x = [] \<Longrightarrow> all_some P m) \<Longrightarrow> (\<And>y ys. x = y # ys \<Longrightarrow> all_some P (f y ys)) \<Longrightarrow>
   all_some P (case x of [] \<Rightarrow> m | y # ys \<Rightarrow> f y ys)"
  by (cases x) simp_all

end
