(* ===== verification/Varint.thy ===== *)
theory Varint
  imports Prelude
begin

text \<open>
  Mumble's variable length integers as the legacy voice path writes and reads them
  (\<open>util_set_varint\<close> and \<open>util_get_varint\<close> of \<open>mumble/audio.c\<close>). The buffer argument is the
  block of memory the pointer points into, from the pointer on; a store or load past its end is
  \<open>None\<close>. \<open>varint_bytes\<close> is the specification both encoders of the program are compared with.
\<close>

section \<open>The encoder\<close>

definition put_bytes :: "u8 list \<Rightarrow> u8 list \<Rightarrow> u8 \<Rightarrow> (u8 list \<times> u8) option" where
  "put_bytes buffer bs n = map_option (\<lambda>b. (b, n)) (poke buffer 0 bs)"

definition util_set_varint :: "u8 list \<Rightarrow> u64 \<Rightarrow> (u8 list \<times> u8) option" where
  "util_set_varint buffer value =
     (if value < 0x80 then put_bytes buffer [ucast value] 1
      else if value < 0x4000 then
        put_bytes buffer [ucast (drop_bit 8 value OR 0x80), ucast (value AND 0xFF)] 2
      else if value < 0x200000 then
        put_bytes buffer [ucast (drop_bit 16 value OR 0xC0), ucast (drop_bit 8 value AND 0xFF),
          ucast (value AND 0xFF)] 3
      else if value < 0x10000000 then
        put_bytes buffer [ucast (drop_bit 24 value OR 0xE0), ucast (drop_bit 16 value AND 0xFF),
          ucast (drop_bit 8 value AND 0xFF), ucast (value AND 0xFF)] 4
      else if value < 0x100000000 then
        put_bytes buffer [0xF0, ucast (drop_bit 24 value AND 0xFF),
          ucast (drop_bit 16 value AND 0xFF), ucast (drop_bit 8 value AND 0xFF),
          ucast (value AND 0xFF)] 5
      else
        put_bytes buffer [0xF4, ucast (drop_bit 56 value AND 0xFF),
          ucast (drop_bit 48 value AND 0xFF), ucast (drop_bit 40 value AND 0xFF),
          ucast (drop_bit 32 value AND 0xFF), ucast (drop_bit 24 value AND 0xFF),
          ucast (drop_bit 16 value AND 0xFF), ucast (drop_bit 8 value AND 0xFF),
          ucast (value AND 0xFF)] 9)"

section \<open>The decoder\<close>

text \<open>The second argument and result are \<open>*len\<close>, which the code only ever increments.\<close>

definition util_get_varint :: "u8 list \<Rightarrow> nat \<Rightarrow> (u64 \<times> nat) option" where
  "util_get_varint buffer len = do {
     v \<leftarrow> peek buffer 0;
     if v AND 0x80 = 0x00 then Some (ucast (v AND 0x7F), len + 1)
     else if v AND 0xC0 = 0x80 then do {
       byte1 \<leftarrow> peek buffer 1;
       Some (push_bit 8 (ucast (v AND 0x3F)) OR ucast byte1, len + 2)
     }
     else if v AND 0xF0 = 0xF0 then
       (if v AND 0xFC = 0xF0 then do {
          byte1 \<leftarrow> peek buffer 1; byte2 \<leftarrow> peek buffer 2;
          byte3 \<leftarrow> peek buffer 3; byte4 \<leftarrow> peek buffer 4;
          Some (push_bit 24 (ucast byte1) OR push_bit 16 (ucast byte2) OR
                push_bit 8 (ucast byte3) OR ucast byte4, len + 5)
        }
        else if v AND 0xFC = 0xF4 then do {
          byte1 \<leftarrow> peek buffer 1; byte2 \<leftarrow> peek buffer 2;
          byte3 \<leftarrow> peek buffer 3; byte4 \<leftarrow> peek buffer 4;
          byte5 \<leftarrow> peek buffer 5; byte6 \<leftarrow> peek buffer 6;
          byte7 \<leftarrow> peek buffer 7; byte8 \<leftarrow> peek buffer 8;
          Some (push_bit 56 (ucast byte1) OR push_bit 48 (ucast byte2) OR
                push_bit 40 (ucast byte3) OR push_bit 32 (ucast byte4) OR
                push_bit 24 (ucast byte5) OR push_bit 16 (ucast byte6) OR
                push_bit 8 (ucast byte7) OR ucast byte8, len + 9)
        }
        else if v AND 0xFC = 0xF8 then Some (NOT 0, len + 1)
        else if v AND 0xFC = 0xFC then Some (NOT (ucast (v AND 0x03)), len + 1)
        else Some (0, len + 1))
     else if v AND 0xF0 = 0xE0 then do {
       byte1 \<leftarrow> peek buffer 1; byte2 \<leftarrow> peek buffer 2; byte3 \<leftarrow> peek buffer 3;
       Some (push_bit 24 (ucast (v AND 0x0F)) OR push_bit 16 (ucast byte1) OR
             push_bit 8 (ucast byte2) OR ucast byte3, len + 4)
     }
     else if v AND 0xE0 = 0xC0 then do {
       byte1 \<leftarrow> peek buffer 1; byte2 \<leftarrow> peek buffer 2;
       Some (push_bit 16 (ucast (v AND 0x1F)) OR push_bit 8 (ucast byte1) OR ucast byte2, len + 3)
     }
     else Some (0, len)
   }"

section \<open>The bytes of a varint\<close>

definition varint_bytes :: "u64 \<Rightarrow> u8 list" where
  "varint_bytes value =
     (if value < 0x80 then [ucast value]
      else if value < 0x4000 then [ucast (drop_bit 8 value OR 0x80), ucast (value AND 0xFF)]
      else if value < 0x200000 then
        [ucast (drop_bit 16 value OR 0xC0), ucast (drop_bit 8 value AND 0xFF),
         ucast (value AND 0xFF)]
      else if value < 0x10000000 then
        [ucast (drop_bit 24 value OR 0xE0), ucast (drop_bit 16 value AND 0xFF),
         ucast (drop_bit 8 value AND 0xFF), ucast (value AND 0xFF)]
      else if value < 0x100000000 then
        [0xF0, ucast (drop_bit 24 value AND 0xFF),
         ucast (drop_bit 16 value AND 0xFF), ucast (drop_bit 8 value AND 0xFF),
         ucast (value AND 0xFF)]
      else
        [0xF4, ucast (drop_bit 56 value AND 0xFF), ucast (drop_bit 48 value AND 0xFF),
         ucast (drop_bit 40 value AND 0xFF), ucast (drop_bit 32 value AND 0xFF),
         ucast (drop_bit 24 value AND 0xFF), ucast (drop_bit 16 value AND 0xFF),
         ucast (drop_bit 8 value AND 0xFF), ucast (value AND 0xFF)])"

lemma length_varint_bytes:
  "length (varint_bytes v) =
     (if v < 0x80 then 1 else if v < 0x4000 then 2 else if v < 0x200000 then 3
      else if v < 0x10000000 then 4 else if v < 0x100000000 then 5 else 9)"
  by (simp add: varint_bytes_def)

lemma varint_bytes_nonempty [simp]: "varint_bytes v \<noteq> []"
  using length_varint_bytes [of v] by (auto split: if_splits)

lemma length_varint_bytes_bounds: "1 \<le> length (varint_bytes v)" "length (varint_bytes v) \<le> 9"
  by (simp_all add: length_varint_bytes)

lemma util_set_varint_eq:
  "util_set_varint buffer v =
     put_bytes buffer (varint_bytes v) (of_nat (length (varint_bytes v)))"
  by (simp add: util_set_varint_def varint_bytes_def)

section \<open>Decoding what was encoded\<close>

text \<open>One lemma per length class: the bytes of the class decode to the value.\<close>

lemmas varint_bits = mask_lits bitlit

lemmas join_bytes =
  join_bits [of 8 8] join_bits [of 16 8] join_bits [of 24 8] join_bits [of 32 8]
  join_bits [of 40 8] join_bits [of 48 8] join_bits [of 56 8]

lemma take_bit_small: "v < 2 ^ k \<Longrightarrow> take_bit k v = (v::'a::len word)"
  by (rule bit_word_eqI) (auto simp: bit_simps dest: word_lt_bit)

lemma dec1:
  assumes "(v::u64) < 0x80"
  shows "(ucast v :: u8) AND 0x80 = 0" "ucast ((ucast v :: u8) AND 0x7F) = v"
proof -
  have B: "bit v n \<Longrightarrow> n < 7" for n using word_lt_bit [of v 7 n] assms by simp
  show "(ucast v :: u8) AND 0x80 = 0"
    by (rule bit_word_eqI) (auto simp: bit_simps bitlit dest: B)
  show "ucast ((ucast v :: u8) AND 0x7F) = v"
    unfolding mask_lits by (rule bit_word_eqI) (auto simp: bit_simps dest: B)
qed

lemma dec2:
  assumes "(v::u64) < 0x4000"
  defines "b \<equiv> ucast (drop_bit 8 v OR 0x80) :: u8"
  shows "b AND 0x80 \<noteq> 0" "b AND 0xC0 = 0x80"
    "push_bit 8 (ucast (b AND 0x3F)) OR ucast (ucast (v AND 0xFF) :: u8) = v"
proof -
  have B: "bit v n \<Longrightarrow> n < 14" for n using word_lt_bit [of v 14 n] assms by simp
  have "bit (b AND 0x80) 7" by (simp add: b_def bit_simps bitlit)
  then show "b AND 0x80 \<noteq> 0" by auto
  show "b AND 0xC0 = 0x80"
    unfolding b_def by (rule bit_word_eqI) (auto simp: bit_simps bitlit dest: B)
  have "ucast (b AND 0x3F) = take_bit 6 (drop_bit 8 v)"
    unfolding b_def mask_lits by (rule bit_word_eqI) (auto simp: bit_simps bitlit)
  then show "push_bit 8 (ucast (b AND 0x3F)) OR ucast (ucast (v AND 0xFF) :: u8) = v"
    using assms by (simp add: byte_of join_bits take_bit_small)
qed

lemma dec3:
  assumes "(v::u64) < 0x200000"
  defines "b \<equiv> ucast (drop_bit 16 v OR 0xC0) :: u8"
  shows "b AND 0x80 \<noteq> 0" "b AND 0xC0 \<noteq> 0x80" "b AND 0xF0 \<noteq> 0xF0" "b AND 0xF0 \<noteq> 0xE0"
    "b AND 0xE0 = 0xC0"
    "push_bit 16 (ucast (b AND 0x1F)) OR push_bit 8 (ucast (ucast (drop_bit 8 v AND 0xFF) :: u8))
       OR ucast (ucast (v AND 0xFF) :: u8) = v"
proof -
  have B: "bit v n \<Longrightarrow> n < 21" for n using word_lt_bit [of v 21 n] assms by simp
  have "bit (b AND 0x80) 7" by (simp add: b_def bit_simps bitlit)
  then show "b AND 0x80 \<noteq> 0" by auto
  have "bit (b AND 0xC0) 6" by (simp add: b_def bit_simps bitlit)
  then show "b AND 0xC0 \<noteq> 0x80" by (auto simp: bit_80_8)
  have "\<not> bit (b AND 0xF0) 5" using B [of 21] by (auto simp: b_def bit_simps bitlit)
  then show "b AND 0xF0 \<noteq> 0xF0" "b AND 0xF0 \<noteq> 0xE0" by (auto simp: bit_F0_8 bit_E0_8)
  show "b AND 0xE0 = 0xC0"
    unfolding b_def by (rule bit_word_eqI) (auto simp: bit_simps bitlit dest: B)
  have "ucast (b AND 0x1F) = take_bit 5 (drop_bit 16 v)"
    unfolding b_def mask_lits by (rule bit_word_eqI) (auto simp: bit_simps bitlit)
  then show "push_bit 16 (ucast (b AND 0x1F))
       OR push_bit 8 (ucast (ucast (drop_bit 8 v AND 0xFF) :: u8))
       OR ucast (ucast (v AND 0xFF) :: u8) = v"
    using assms by (simp add: byte_of join_bits take_bit_small)
qed

lemma dec4:
  assumes "(v::u64) < 0x10000000"
  defines "b \<equiv> ucast (drop_bit 24 v OR 0xE0) :: u8"
  shows "b AND 0x80 \<noteq> 0" "b AND 0xC0 \<noteq> 0x80" "b AND 0xF0 \<noteq> 0xF0" "b AND 0xF0 = 0xE0"
    "push_bit 24 (ucast (b AND 0x0F)) OR push_bit 16 (ucast (ucast (drop_bit 16 v AND 0xFF) :: u8))
       OR push_bit 8 (ucast (ucast (drop_bit 8 v AND 0xFF) :: u8))
       OR ucast (ucast (v AND 0xFF) :: u8) = v"
proof -
  have B: "bit v n \<Longrightarrow> n < 28" for n using word_lt_bit [of v 28 n] assms by simp
  have "bit (b AND 0x80) 7" by (simp add: b_def bit_simps bitlit)
  then show "b AND 0x80 \<noteq> 0" by auto
  have "bit (b AND 0xC0) 6" by (simp add: b_def bit_simps bitlit)
  then show "b AND 0xC0 \<noteq> 0x80" by (auto simp: bit_80_8)
  have "\<not> bit (b AND 0xF0) 4" using B [of 28] by (auto simp: b_def bit_simps bitlit)
  then show "b AND 0xF0 \<noteq> 0xF0" by (auto simp: bit_F0_8)
  show "b AND 0xF0 = 0xE0"
    unfolding b_def by (rule bit_word_eqI) (auto simp: bit_simps bitlit dest: B)
  have "ucast (b AND 0x0F) = take_bit 4 (drop_bit 24 v)"
    unfolding b_def mask_lits by (rule bit_word_eqI) (auto simp: bit_simps bitlit)
  then show "push_bit 24 (ucast (b AND 0x0F))
       OR push_bit 16 (ucast (ucast (drop_bit 16 v AND 0xFF) :: u8))
       OR push_bit 8 (ucast (ucast (drop_bit 8 v AND 0xFF) :: u8))
       OR ucast (ucast (v AND 0xFF) :: u8) = v"
    using assms by (simp add: byte_of join_bits take_bit_small)
qed

lemma dec5:
  assumes "(v::u64) < 0x100000000"
  shows "push_bit 24 (ucast (ucast (drop_bit 24 v AND 0xFF) :: u8))
       OR push_bit 16 (ucast (ucast (drop_bit 16 v AND 0xFF) :: u8))
       OR push_bit 8 (ucast (ucast (drop_bit 8 v AND 0xFF) :: u8))
       OR ucast (ucast (v AND 0xFF) :: u8) = v"
  using assms by (simp add: byte_of join_bits take_bit_small)

lemma dec9:
  "push_bit 56 (ucast (ucast (drop_bit 56 (v::u64) AND 0xFF) :: u8))
     OR push_bit 48 (ucast (ucast (drop_bit 48 v AND 0xFF) :: u8))
     OR push_bit 40 (ucast (ucast (drop_bit 40 v AND 0xFF) :: u8))
     OR push_bit 32 (ucast (ucast (drop_bit 32 v AND 0xFF) :: u8))
     OR push_bit 24 (ucast (ucast (drop_bit 24 v AND 0xFF) :: u8))
     OR push_bit 16 (ucast (ucast (drop_bit 16 v AND 0xFF) :: u8))
     OR push_bit 8 (ucast (ucast (drop_bit 8 v AND 0xFF) :: u8))
     OR ucast (ucast (v AND 0xFF) :: u8) = v"
  by (simp add: byte_of join_bits take_bit_all64)

text \<open>The decoder on a block whose first byte is of each class.\<close>

lemma get_varint1:
  "v AND 0x80 = 0 \<Longrightarrow> util_get_varint (v # rest) len = Some (ucast (v AND 0x7F), len + 1)"
  by (simp add: util_get_varint_def mem_simps)

lemma get_varint2:
  "v AND 0x80 \<noteq> 0 \<Longrightarrow> v AND 0xC0 = 0x80 \<Longrightarrow>
   util_get_varint (v # b1 # rest) len = Some (push_bit 8 (ucast (v AND 0x3F)) OR ucast b1, len + 2)"
  by (simp add: util_get_varint_def mem_simps)

lemma get_varint3:
  "v AND 0x80 \<noteq> 0 \<Longrightarrow> v AND 0xC0 \<noteq> 0x80 \<Longrightarrow> v AND 0xF0 \<noteq> 0xF0 \<Longrightarrow> v AND 0xF0 \<noteq> 0xE0 \<Longrightarrow>
   v AND 0xE0 = 0xC0 \<Longrightarrow>
   util_get_varint (v # b1 # b2 # rest) len =
     Some (push_bit 16 (ucast (v AND 0x1F)) OR push_bit 8 (ucast b1) OR ucast b2, len + 3)"
  by (simp add: util_get_varint_def mem_simps)

lemma get_varint4:
  "v AND 0x80 \<noteq> 0 \<Longrightarrow> v AND 0xC0 \<noteq> 0x80 \<Longrightarrow> v AND 0xF0 \<noteq> 0xF0 \<Longrightarrow> v AND 0xF0 = 0xE0 \<Longrightarrow>
   util_get_varint (v # b1 # b2 # b3 # rest) len =
     Some (push_bit 24 (ucast (v AND 0x0F)) OR push_bit 16 (ucast b1) OR push_bit 8 (ucast b2)
       OR ucast b3, len + 4)"
  by (simp add: util_get_varint_def mem_simps)

lemma get_varint5:
  "util_get_varint (0xF0 # b1 # b2 # b3 # b4 # rest) len =
     Some (push_bit 24 (ucast b1) OR push_bit 16 (ucast b2) OR push_bit 8 (ucast b3)
       OR ucast b4, len + 5)"
  by (simp add: util_get_varint_def mem_simps)

lemma get_varint9:
  "util_get_varint (0xF4 # b1 # b2 # b3 # b4 # b5 # b6 # b7 # b8 # rest) len =
     Some (push_bit 56 (ucast b1) OR push_bit 48 (ucast b2) OR push_bit 40 (ucast b3)
       OR push_bit 32 (ucast b4) OR push_bit 24 (ucast b5) OR push_bit 16 (ucast b6)
       OR push_bit 8 (ucast b7) OR ucast b8, len + 9)"
  by (simp add: util_get_varint_def mem_simps)

lemma varint_decode:
  "util_get_varint (varint_bytes v @ rest) len = Some (v, len + length (varint_bytes v))"
proof -
  consider "v < 0x80" | "\<not> v < 0x80" "v < 0x4000" | "\<not> v < 0x4000" "v < 0x200000"
    | "\<not> v < 0x200000" "v < 0x10000000" | "\<not> v < 0x10000000" "v < 0x100000000"
    | "\<not> v < 0x100000000" by blast
  then show ?thesis
  proof cases
    case 1
    then show ?thesis
      by (simp only: varint_bytes_def if_True append.simps get_varint1 dec1) simp
  next
    case 2
    then show ?thesis
      using get_varint2 [OF dec2(1,2) [OF 2(2)]]
      by (simp only: varint_bytes_def if_True if_False append.simps dec2 refl) simp
  next
    case 3
    then have "\<not> v < 0x80" by (auto simp: word_less_nat_alt)
    with 3 show ?thesis
      using get_varint3 [OF dec3(1-5) [OF 3(2)]]
      by (simp only: varint_bytes_def if_True if_False append.simps dec3 refl) simp
  next
    case 4
    then have "\<not> v < 0x80" "\<not> v < 0x4000" by (auto simp: word_less_nat_alt)
    with 4 show ?thesis
      using get_varint4 [OF dec4(1-4) [OF 4(2)]]
      by (simp only: varint_bytes_def if_True if_False append.simps dec4 refl) simp
  next
    case 5
    then have "\<not> v < 0x80" "\<not> v < 0x4000" "\<not> v < 0x200000" by (auto simp: word_less_nat_alt)
    with 5 show ?thesis
      by (simp only: varint_bytes_def if_True if_False append.simps get_varint5 dec5 refl) simp
  next
    case 6
    then have "\<not> v < 0x80" "\<not> v < 0x4000" "\<not> v < 0x200000" "\<not> v < 0x10000000"
      by (auto simp: word_less_nat_alt)
    with 6 show ?thesis
      by (simp only: varint_bytes_def if_True if_False append.simps get_varint9 dec9 refl) simp
  qed
qed

section \<open>Properties\<close>

text \<open>
  C32. Every 64-bit value survives the varint coding of the voice packets: with nine bytes of room
  \<open>util_set_varint\<close> stores the value at the front of the block, touches only the bytes it
  reports, and \<open>util_get_varint\<close> on the result returns the value and advances by that count.
\<close>

theorem varint_roundtrip:
  assumes "9 \<le> length buffer"
  shows "\<exists>buffer' n. util_set_varint buffer v = Some (buffer', n) \<and> unat n \<in> {1, 2, 3, 4, 5, 9} \<and>
    length buffer' = length buffer \<and> drop (unat n) buffer' = drop (unat n) buffer \<and>
    util_get_varint buffer' len = Some (v, len + unat n)"
proof -
  let ?k = "length (varint_bytes v)"
  have k: "?k \<in> {1, 2, 3, 4, 5, 9}" "?k \<le> length buffer"
    using assms length_varint_bytes_bounds(2) [of v] by (auto simp: length_varint_bytes)
  then have n: "unat (of_nat ?k :: u8) = ?k" by auto
  have "util_set_varint buffer v = Some (varint_bytes v @ drop ?k buffer, of_nat ?k)"
    using k by (simp add: util_set_varint_eq put_bytes_def poke_in)
  then show ?thesis
    using k n varint_decode [of v "drop ?k buffer" len] by auto
qed

lemma varint_roundtrip_witness:
  "\<exists>buffer' n. util_set_varint (replicate 9 0) 0x1234 = Some (buffer', n) \<and>
    unat n \<in> {1, 2, 3, 4, 5, 9} \<and> length buffer' = 9 \<and>
    drop (unat n) buffer' = drop (unat n) (replicate 9 0) \<and>
    util_get_varint buffer' 0 = Some (0x1234, unat n)"
  using varint_roundtrip [of "replicate 9 0" "0x1234" 0] by simp

end
