(* ===== verification/Interfaces.thy ===== *)
theory Interfaces
  imports Prelude
begin

text \<open>
  The contracts the components share, as locales. \<open>stream_codec\<close>: values written one after
  another into a byte sequence are read back in order. \<open>fifo\<close>: a queue with an abstraction to
  lists. \<open>keyed_store\<close>: a table of entries found by their key. The client programs of the contracts
  (\<open>put_all\<close>, \<open>get_all\<close>, \<open>run_queue\<close>) are plain functions of the operations they call.
\<close>

section \<open>Reading back what was written\<close>

fun put_all :: "('a \<Rightarrow> 's \<Rightarrow> 's option) \<Rightarrow> 'a list \<Rightarrow> 's \<Rightarrow> 's option" where
  "put_all put [] s = Some s"
| "put_all put (x # xs) s = do { s \<leftarrow> put x s; put_all put xs s }"

fun get_all :: "('s \<Rightarrow> ('a \<times> 's) option) \<Rightarrow> nat \<Rightarrow> 's \<Rightarrow> ('a list \<times> 's) option" where
  "get_all get 0 s = Some ([], s)"
| "get_all get (Suc n) s =
     do { (x, s) \<leftarrow> get s; (xs, s) \<leftarrow> get_all get n s; Some (x # xs, s) }"

locale stream_codec =
  fixes enc :: "'a \<Rightarrow> 'b list"
    and valid :: "'a \<Rightarrow> bool"
    and room :: "'s \<Rightarrow> nat \<Rightarrow> bool"
    and good :: "'s \<Rightarrow> bool"
    and contents :: "'s \<Rightarrow> 'b list"
    and put :: "'a \<Rightarrow> 's \<Rightarrow> 's option"
    and get :: "'s \<Rightarrow> ('a \<times> 's) option"
  assumes room_good: "room s n \<Longrightarrow> good s"
    and put_appends: "valid x \<Longrightarrow> room s (length (enc x) + n) \<Longrightarrow>
      \<exists>s'. put x s = Some s' \<and> room s' n \<and> contents s' = contents s @ enc x"
    and get_takes: "valid x \<Longrightarrow> good s \<Longrightarrow> contents s = enc x @ rest \<Longrightarrow>
      \<exists>s'. get s = Some (x, s') \<and> good s' \<and> contents s' = rest"
begin

lemma put_all_appends:
  "\<forall>x\<in>set xs. valid x \<Longrightarrow> room s (length (concat (map enc xs)) + n) \<Longrightarrow>
   \<exists>s'. put_all put xs s = Some s' \<and> room s' n \<and> contents s' = contents s @ concat (map enc xs)"
proof (induction xs arbitrary: s)
  case (Cons x xs)
  then have r: "room s (length (enc x) + (length (concat (map enc xs)) + n))"
    by (simp add: add.assoc)
  obtain s1 where s1: "put x s = Some s1" "room s1 (length (concat (map enc xs)) + n)"
      "contents s1 = contents s @ enc x"
    using put_appends [OF _ r] Cons.prems(1) by auto
  with Cons show ?case by fastforce
qed simp

lemma get_all_takes:
  "\<forall>x\<in>set xs. valid x \<Longrightarrow> good s \<Longrightarrow> contents s = concat (map enc xs) @ rest \<Longrightarrow>
   \<exists>s'. get_all get (length xs) s = Some (xs, s') \<and> good s' \<and> contents s' = rest"
proof (induction xs arbitrary: s)
  case (Cons x xs)
  obtain s1 where s1: "get s = Some (x, s1)" "good s1"
      "contents s1 = concat (map enc xs) @ rest"
    using get_takes [of x s "concat (map enc xs) @ rest"] Cons.prems by auto
  with Cons.IH [of s1] Cons.prems(1) show ?case by auto
qed simp

lemma put_all_get_all:
  assumes "\<forall>x\<in>set xs. valid x" "room s (length (concat (map enc xs)))" "contents s = []"
  shows "\<exists>s' s''. put_all put xs s = Some s' \<and> get_all get (length xs) s' = Some (xs, s'') \<and>
    contents s'' = []"
proof -
  obtain s' where "put_all put xs s = Some s'" "room s' 0" "contents s' = concat (map enc xs)"
    using put_all_appends [OF assms(1), of s 0] assms(2,3) by auto
  with get_all_takes [OF assms(1) room_good, of s' 0 "[]"] show ?thesis by auto
qed

end

section \<open>Queues\<close>

datatype 'a queue_op = Enq 'a | Deq

fun run_queue ::
  "('a \<Rightarrow> 's \<Rightarrow> 's option) \<Rightarrow> ('s \<Rightarrow> ('a option \<times> 's) option) \<Rightarrow> 'a queue_op list \<Rightarrow> 's \<Rightarrow>
   ('a option list \<times> 's) option" where
  "run_queue enq deq [] s = Some ([], s)"
| "run_queue enq deq (Enq x # ops) s = do { s \<leftarrow> enq x s; run_queue enq deq ops s }"
| "run_queue enq deq (Deq # ops) s =
     do { (r, s) \<leftarrow> deq s; (rs, s) \<leftarrow> run_queue enq deq ops s; Some (r # rs, s) }"

text \<open>The same program on the abstract queue, a list.\<close>

fun spec_queue :: "'a queue_op list \<Rightarrow> 'a list \<Rightarrow> 'a option list \<times> 'a list" where
  "spec_queue [] q = ([], q)"
| "spec_queue (Enq x # ops) q = spec_queue ops (q @ [x])"
| "spec_queue (Deq # ops) [] = (let (rs, q) = spec_queue ops [] in (None # rs, q))"
| "spec_queue (Deq # ops) (x # q) = (let (rs, q) = spec_queue ops q in (Some x # rs, q))"

locale fifo =
  fixes ok :: "'s \<Rightarrow> bool"
    and abs :: "'s \<Rightarrow> 'a list"
    and enq :: "'a \<Rightarrow> 's \<Rightarrow> 's option"
    and deq :: "'s \<Rightarrow> ('a option \<times> 's) option"
  assumes enq_law: "ok s \<Longrightarrow> \<exists>s'. enq x s = Some s' \<and> ok s' \<and> abs s' = abs s @ [x]"
    and deq_empty: "ok s \<Longrightarrow> abs s = [] \<Longrightarrow> \<exists>s'. deq s = Some (None, s') \<and> ok s' \<and> abs s' = []"
    and deq_front: "ok s \<Longrightarrow> abs s = x # q \<Longrightarrow>
      \<exists>s'. deq s = Some (Some x, s') \<and> ok s' \<and> abs s' = q"
begin

lemma run_queue_refines:
  "ok s \<Longrightarrow> \<exists>s'. run_queue enq deq ops s = Some (fst (spec_queue ops (abs s)), s') \<and> ok s' \<and>
     abs s' = snd (spec_queue ops (abs s))"
proof (induction ops arbitrary: s)
  case Nil
  then show ?case by simp
next
  case (Cons op ops)
  note IH = Cons.IH
  show ?case
  proof (cases op)
    case (Enq x)
    obtain s1 where "enq x s = Some s1" "ok s1" "abs s1 = abs s @ [x]"
      using enq_law [OF Cons.prems] by blast
    with IH [of s1] Enq show ?thesis by simp
  next
    case Deq
    show ?thesis
    proof (cases "abs s")
      case Nil
      obtain s1 where "deq s = Some (None, s1)" "ok s1" "abs s1 = []"
        using deq_empty [OF Cons.prems Nil] by blast
      with IH [of s1] Deq Nil show ?thesis by (auto simp: split_beta)
    next
      case (Cons x q)
      obtain s1 where "deq s = Some (Some x, s1)" "ok s1" "abs s1 = q"
        using deq_front [OF \<open>ok s\<close> Cons] by blast
      with IH [of s1] Deq Cons show ?thesis by (auto simp: split_beta)
    qed
  qed
qed

end

section \<open>Tables of entries created on demand\<close>

text \<open>
  A table with a list of its keys: \<open>get\<close> creates the entry that is missing, \<open>remove\<close> drops an
  entry. The clearing loop of the clients walks the list while it removes.
\<close>

fun remove_all :: "('k \<Rightarrow> 's \<Rightarrow> 's) \<Rightarrow> 'k list \<Rightarrow> 's \<Rightarrow> 's" where
  "remove_all remove [] s = s"
| "remove_all remove (k # ks) s = remove_all remove ks (remove k s)"

locale keyed_store =
  fixes entries :: "'s \<Rightarrow> 'k \<Rightarrow> 'v option"
    and keys_of :: "'s \<Rightarrow> 'k list"
    and get :: "'k \<Rightarrow> 's \<Rightarrow> 'v \<times> 's"
    and remove :: "'k \<Rightarrow> 's \<Rightarrow> 's"
    and fresh :: "'k \<Rightarrow> 'v"
  assumes get_found: "entries s k = Some v \<Longrightarrow> get k s = (v, s)"
    and get_creates: "entries s k = None \<Longrightarrow>
      fst (get k s) = fresh k \<and> entries (snd (get k s)) = (entries s)(k \<mapsto> fresh k) \<and>
      keys_of (snd (get k s)) = k # keys_of s"
    and remove_drops: "entries (remove k s) = (entries s)(k := None) \<and>
      keys_of (remove k s) = remove1 k (keys_of s)"
begin

definition ok :: "'s \<Rightarrow> bool" where
  "ok s \<longleftrightarrow> distinct (keys_of s) \<and> set (keys_of s) = dom (entries s)"

lemma get_entry: "entries (snd (get k s)) k = Some (fst (get k s))"
  using get_found [of s k] get_creates [of s k] by (cases "entries s k") auto

lemma get_twice: "get k (snd (get k s)) = (fst (get k s), snd (get k s))"
  using get_found [OF get_entry] by auto

lemma get_other: "j \<noteq> k \<Longrightarrow> entries (snd (get k s)) j = entries s j"
  using get_found [of s k] get_creates [of s k] by (cases "entries s k") auto

lemma get_dom: "dom (entries (snd (get k s))) = insert k (dom (entries s))"
  using get_found [of s k] get_creates [of s k] by (cases "entries s k") auto

lemma ok_get: "ok s \<Longrightarrow> ok (snd (get k s))"
  using get_found [of s k] get_creates [of s k] by (cases "entries s k") (auto simp: ok_def)

lemma ok_remove: "ok s \<Longrightarrow> ok (remove k s)"
  using remove_drops [of k s] by (auto simp: ok_def)

lemma remove_all_drops:
  "entries (remove_all remove ks s) = (\<lambda>k. if k \<in> set ks then None else entries s k) \<and>
   (distinct ks \<and> keys_of s = ks @ rest \<longrightarrow> keys_of (remove_all remove ks s) = rest)"
proof (induction ks arbitrary: s)
  case (Cons k ks)
  have "keys_of s = (k # ks) @ rest \<longrightarrow> keys_of (remove k s) = ks @ rest"
    using remove_drops [of k s] by auto
  with Cons [of "remove k s"] remove_drops [of k s] show ?case by auto
qed auto

lemma remove_all_empties:
  assumes "ok s"
  shows "entries (remove_all remove (keys_of s) s) = Map.empty \<and>
    keys_of (remove_all remove (keys_of s) s) = []"
proof
  show "entries (remove_all remove (keys_of s) s) = Map.empty"
    using remove_all_drops [of "keys_of s" s] assms by (auto simp: ok_def fun_eq_iff)
  show "keys_of (remove_all remove (keys_of s) s) = []"
    using remove_all_drops [of "keys_of s" s "[]"] assms by (auto simp: ok_def)
qed

end

end
