(* ===== verification/Buffer.thy ===== *)
theory Buffer
  imports Varint Interfaces
begin

text \<open>
  The growable byte buffer of \<open>mumble/buffer.c\<close>: allocation, growth, the two heads, raw and typed
  reads and writes, and the variable length integers of the buffer. A result \<open>None\<close> is undefined
  behaviour of the C code (a load or store outside the allocation, a NULL block, \<open>realloc\<close> to
  size 0). What \<open>malloc\<close> grants and what fresh memory holds is the environment \<open>mem_env\<close>.
  \<open>unread\<close> is the abstraction: the bytes between the heads.
\<close>

section \<open>The allocator\<close>

record mem_env =
  can_alloc :: "u64 \<Rightarrow> bool"
  junk :: "nat \<Rightarrow> u8"

definition malloc :: "mem_env \<Rightarrow> u64 \<Rightarrow> u8 list option" where
  "malloc env n = (if can_alloc env n then Some (map (junk env) [0..<unat n]) else None)"

text \<open>The block after \<open>realloc\<close> keeps the common prefix of the old one; a NULL block is \<open>None\<close>.\<close>

definition realloc :: "mem_env \<Rightarrow> u8 list option \<Rightarrow> u64 \<Rightarrow> u8 list option" where
  "realloc env old n =
     (case old of
        None \<Rightarrow> malloc env n
      | Some xs \<Rightarrow>
          if can_alloc env n
          then Some (take (unat n) xs @ map (junk env) [length xs..<unat n]) else None)"

section \<open>The buffer\<close>

record ByteBuffer =
  original_capacity :: u64
  capacity :: u64
  read_head :: u64
  write_head :: u64
  buf_data :: "u8 list option"

definition buffer_init :: "mem_env \<Rightarrow> u64 \<Rightarrow> bool \<times> ByteBuffer" where
  "buffer_init env sz =
     (let data = malloc env sz
      in (data \<noteq> None,
          \<lparr> original_capacity = sz, capacity = sz, read_head = 0, write_head = 0,
            buf_data = data \<rparr>))"

definition buffer_new :: "mem_env \<Rightarrow> u64 \<Rightarrow> ByteBuffer option" where
  "buffer_new env sz =
     (if can_alloc env 48 then Some (snd (buffer_init env sz)) else None)"

definition buffer_resize :: "mem_env \<Rightarrow> u64 \<Rightarrow> ByteBuffer \<Rightarrow> (bool \<times> ByteBuffer) option" where
  "buffer_resize env new_capacity b =
     (if new_capacity = 0 \<and> buf_data b \<noteq> None then None
      else case realloc env (buf_data b) new_capacity of
             Some new_data \<Rightarrow> Some (True, b \<lparr> buf_data := Some new_data, capacity := new_capacity \<rparr>)
           | None \<Rightarrow> Some (False, b))"

definition grown_capacity :: "u64 \<Rightarrow> u64 \<Rightarrow> u64" where
  "grown_capacity cap new_head =
     (let grow_1_5x = cap + drop_bit 1 cap;
          grow_2x = cap * 2;
          grow_headroom = new_head + drop_bit 1 new_head;
          new_capacity = grow_1_5x;
          new_capacity = (if new_capacity < new_head then grow_2x else new_capacity);
          new_capacity = (if new_capacity < new_head then grow_headroom else new_capacity)
      in new_capacity)"

definition buffer_adjust :: "mem_env \<Rightarrow> u64 \<Rightarrow> ByteBuffer \<Rightarrow> (bool \<times> ByteBuffer) option" where
  "buffer_adjust env sz b =
     (let new_head = write_head b + sz in
      if new_head > capacity b
      then buffer_resize env (grown_capacity (capacity b) new_head) b
      else Some (False, b))"

definition buffer_shrink :: "mem_env \<Rightarrow> ByteBuffer \<Rightarrow> (bool \<times> ByteBuffer) option" where
  "buffer_shrink env b =
     (if capacity b > original_capacity b then buffer_resize env (original_capacity b) b
      else Some (False, b))"

definition buffer_reset :: "ByteBuffer \<Rightarrow> ByteBuffer" where
  "buffer_reset b = b \<lparr> read_head := 0, write_head := 0 \<rparr>"

definition buffer_flip :: "ByteBuffer \<Rightarrow> ByteBuffer" where
  "buffer_flip b = b \<lparr> read_head := 0 \<rparr>"

definition buffer_length :: "ByteBuffer \<Rightarrow> u64" where
  "buffer_length b = write_head b - read_head b"

definition buffer_isEmpty :: "ByteBuffer \<Rightarrow> bool" where
  "buffer_isEmpty b \<longleftrightarrow> write_head b = read_head b"

definition buffer_pack :: "ByteBuffer \<Rightarrow> ByteBuffer option" where
  "buffer_pack b =
     (if read_head b = write_head b then Some (buffer_reset b)
      else if read_head b > 0 then do {
        data \<leftarrow> buf_data b;
        let remaining = write_head b - read_head b;
        bytes \<leftarrow> slice data (unat (read_head b)) (unat remaining);
        data' \<leftarrow> poke data 0 bytes;
        Some (b \<lparr> buf_data := Some data', write_head := remaining, read_head := 0 \<rparr>)
      }
      else Some b)"

subsection \<open>Raw reads and writes\<close>

text \<open>
  The source of a write is the block the pointer points into. Reads and writes of single cells
  go through \<open>buf_next\<close> and \<open>buf_put\<close>, the \<open>data[read_head++]\<close> and \<open>data[write_head++] = x\<close> of
  the code; no object of C is larger than \<open>PTRDIFF_MAX\<close> bytes.
\<close>

definition buffer_write ::
  "mem_env \<Rightarrow> u8 list \<Rightarrow> u64 \<Rightarrow> ByteBuffer \<Rightarrow> (u64 \<times> ByteBuffer) option" where
  "buffer_write env src sz b = do {
     (_, b) \<leftarrow> buffer_adjust env sz b;
     data \<leftarrow> buf_data b;
     bytes \<leftarrow> slice src 0 (unat sz);
     data' \<leftarrow> poke data (unat (write_head b)) bytes;
     Some (sz, b \<lparr> buf_data := Some data', write_head := write_head b + sz \<rparr>)
   }"

definition buffer_available :: "ByteBuffer \<Rightarrow> u64 \<Rightarrow> bool" where
  "buffer_available b sz \<longleftrightarrow> \<not> read_head b + sz > write_head b"

definition buffer_read :: "u64 \<Rightarrow> ByteBuffer \<Rightarrow> (u64 \<times> u8 list \<times> ByteBuffer) option" where
  "buffer_read sz b =
     (if \<not> buffer_available b sz then Some (0, [], b)
      else do {
        data \<leftarrow> buf_data b;
        bytes \<leftarrow> slice data (unat (read_head b)) (unat sz);
        Some (sz, bytes, b \<lparr> read_head := read_head b + sz \<rparr>)
      })"

definition buf_next :: "ByteBuffer \<Rightarrow> (u8 \<times> ByteBuffer) option" where
  "buf_next b = do {
     data \<leftarrow> buf_data b;
     x \<leftarrow> (if length data \<le> 2 ^ 63 then peek data (unat (read_head b)) else None);
     Some (x, b \<lparr> read_head := read_head b + 1 \<rparr>)
   }"

definition buf_put :: "u8 \<Rightarrow> ByteBuffer \<Rightarrow> ByteBuffer option" where
  "buf_put x b = do {
     data \<leftarrow> buf_data b;
     data' \<leftarrow> poke data (unat (write_head b)) [x];
     Some (b \<lparr> buf_data := Some data', write_head := write_head b + 1 \<rparr>)
   }"

fun buf_puts :: "u8 list \<Rightarrow> ByteBuffer \<Rightarrow> ByteBuffer option" where
  "buf_puts [] b = Some b"
| "buf_puts (x # xs) b = do { b \<leftarrow> buf_put x b; buf_puts xs b }"

definition buffer_init_data ::
  "mem_env \<Rightarrow> u8 list \<Rightarrow> u64 \<Rightarrow> (bool \<times> ByteBuffer) option" where
  "buffer_init_data env data sz =
     (case buffer_init env sz of
        (False, b) \<Rightarrow> Some (False, b)
      | (True, b) \<Rightarrow> do { (_, b) \<leftarrow> buffer_write env data sz b; Some (True, buffer_flip b) })"

definition buffer_writeByte :: "mem_env \<Rightarrow> u8 \<Rightarrow> ByteBuffer \<Rightarrow> (u8 \<times> ByteBuffer) option" where
  "buffer_writeByte env value b = do {
     (_, b) \<leftarrow> buffer_adjust env 1 b;
     b \<leftarrow> buf_put value b;
     Some (1, b)
   }"

definition buffer_readByte :: "ByteBuffer \<Rightarrow> (u8 \<times> u8 option \<times> ByteBuffer) option" where
  "buffer_readByte b =
     (if \<not> buffer_available b 1 then Some (0, None, b)
      else do { (x, b) \<leftarrow> buf_next b; Some (1, Some x, b) })"

subsection \<open>Typed reads and writes\<close>

text \<open>
  The macro \<open>buffer_rw\<close> of \<open>buffer.h\<close>, at the types it is used with. Its writer takes the value as
  a \<open>double\<close>; the integer types get its integral part, and the conversion of a double out of the
  range of the type is undefined. The machine is little endian. For \<open>Float\<close> and \<open>Double\<close>
  the values are bit patterns, and \<open>to_float\<close> is the processor's conversion of a double.
\<close>

datatype int_type = UINT8 | INT16 | UINT16 | INT32 | UINT32 | INT64

fun size_of :: "int_type \<Rightarrow> nat" where
  "size_of UINT8 = 1"
| "size_of INT16 = 2"
| "size_of UINT16 = 2"
| "size_of INT32 = 4"
| "size_of UINT32 = 4"
| "size_of INT64 = 8"

fun signed_type :: "int_type \<Rightarrow> bool" where
  "signed_type ty \<longleftrightarrow> ty \<in> {INT16, INT32, INT64}"

definition in_range :: "int_type \<Rightarrow> int \<Rightarrow> bool" where
  "in_range ty value \<longleftrightarrow>
     (if signed_type ty
      then - (2 ^ (8 * size_of ty - 1)) \<le> value \<and> value < 2 ^ (8 * size_of ty - 1)
      else 0 \<le> value \<and> value < 2 ^ (8 * size_of ty))"

definition decode_int :: "int_type \<Rightarrow> u8 list \<Rightarrow> int" where
  "decode_int ty bytes =
     (let w = uint (from_le bytes :: u64)
      in if signed_type ty then signed_take_bit (8 * size_of ty - 1) w else w)"

definition buffer_writeNum ::
  "mem_env \<Rightarrow> int_type \<Rightarrow> int \<Rightarrow> ByteBuffer \<Rightarrow> (u8 \<times> ByteBuffer) option" where
  "buffer_writeNum env ty value b =
     (if in_range ty value then do {
        (_, b) \<leftarrow> buffer_write env (le_bytes (size_of ty) (of_int value :: u64))
                   (of_nat (size_of ty)) b;
        Some (of_nat (size_of ty), b)
      }
      else None)"

definition buffer_readNum :: "int_type \<Rightarrow> ByteBuffer \<Rightarrow> (u8 \<times> int option \<times> ByteBuffer) option" where
  "buffer_readNum ty b = do {
     (n, bytes, b) \<leftarrow> buffer_read (of_nat (size_of ty)) b;
     Some (ucast n, if n = 0 then None else Some (decode_int ty bytes), b)
   }"

definition buffer_writeFloat ::
  "mem_env \<Rightarrow> (u64 \<Rightarrow> u32) \<Rightarrow> u64 \<Rightarrow> ByteBuffer \<Rightarrow> (u8 \<times> ByteBuffer) option" where
  "buffer_writeFloat env to_float value b = do {
     (_, b) \<leftarrow> buffer_write env (le_bytes 4 (to_float value)) 4 b;
     Some (4, b)
   }"

definition buffer_readFloat :: "ByteBuffer \<Rightarrow> (u8 \<times> u32 option \<times> ByteBuffer) option" where
  "buffer_readFloat b = do {
     (n, bytes, b) \<leftarrow> buffer_read 4 b;
     Some (ucast n, if n = 0 then None else Some (from_le bytes), b)
   }"

definition buffer_writeDouble :: "mem_env \<Rightarrow> u64 \<Rightarrow> ByteBuffer \<Rightarrow> (u8 \<times> ByteBuffer) option" where
  "buffer_writeDouble env value b = do {
     (_, b) \<leftarrow> buffer_write env (le_bytes 8 value) 8 b;
     Some (8, b)
   }"

definition buffer_readDouble :: "ByteBuffer \<Rightarrow> (u8 \<times> u64 option \<times> ByteBuffer) option" where
  "buffer_readDouble b = do {
     (n, bytes, b) \<leftarrow> buffer_read 8 b;
     Some (ucast n, if n = 0 then None else Some (from_le bytes), b)
   }"

subsection \<open>Variable length integers\<close>

definition buffer_put_adjusted ::
  "mem_env \<Rightarrow> u8 list \<Rightarrow> ByteBuffer \<Rightarrow> ByteBuffer option" where
  "buffer_put_adjusted env bytes b = do {
     (_, b) \<leftarrow> buffer_adjust env (of_nat (length bytes)) b;
     buf_puts bytes b
   }"

definition buffer_writeVarInt :: "mem_env \<Rightarrow> u64 \<Rightarrow> ByteBuffer \<Rightarrow> (u8 \<times> ByteBuffer) option" where
  "buffer_writeVarInt env val b =
     (let negative = (val AND 0x8000000000000000 \<noteq> 0 \<and> NOT val < 0x100000000);
          value = (if negative then NOT val else val)
      in if negative \<and> value \<le> 0x3 then do {
           b \<leftarrow> buffer_put_adjusted env [ucast (0xFC OR value)] b;
           Some (1, b)
         }
         else do {
           (flag, b) \<leftarrow>
             (if negative then map_option (Pair 1) (buffer_put_adjusted env [0xF8] b)
              else Some (0, b));
           if value < 0x80 then do {
             b \<leftarrow> buffer_put_adjusted env [ucast value] b;
             Some (1 + flag, b)
           }
           else if value < 0x4000 then do {
             b \<leftarrow> buffer_put_adjusted env
                   [ucast (drop_bit 8 value OR 0x80), ucast (value AND 0xFF)] b;
             Some (2 + flag, b)
           }
           else if value < 0x200000 then do {
             b \<leftarrow> buffer_put_adjusted env
                   [ucast (drop_bit 16 value OR 0xC0), ucast (drop_bit 8 value AND 0xFF),
                    ucast (value AND 0xFF)] b;
             Some (3 + flag, b)
           }
           else if value < 0x10000000 then do {
             b \<leftarrow> buffer_put_adjusted env
                   [ucast (drop_bit 24 value OR 0xE0), ucast (drop_bit 16 value AND 0xFF),
                    ucast (drop_bit 8 value AND 0xFF), ucast (value AND 0xFF)] b;
             Some (4 + flag, b)
           }
           else if value < 0x100000000 then do {
             b \<leftarrow> buffer_put_adjusted env
                   [0xF0, ucast (drop_bit 24 value AND 0xFF), ucast (drop_bit 16 value AND 0xFF),
                    ucast (drop_bit 8 value AND 0xFF), ucast (value AND 0xFF)] b;
             Some (5 + flag, b)
           }
           else do {
             b \<leftarrow> buffer_put_adjusted env
                   [0xF4, ucast (drop_bit 56 value AND 0xFF), ucast (drop_bit 48 value AND 0xFF),
                    ucast (drop_bit 40 value AND 0xFF), ucast (drop_bit 32 value AND 0xFF),
                    ucast (drop_bit 24 value AND 0xFF), ucast (drop_bit 16 value AND 0xFF),
                    ucast (drop_bit 8 value AND 0xFF), ucast (value AND 0xFF)] b;
             Some (9 + flag, b)
           }
         })"

text \<open>
  The reader returns the size, \<open>*output\<close> and the buffer. It calls itself after a 0xF8 byte; each
  call has read one cell of the allocation, which bounds the recursion.
\<close>

lemma buf_next_decreases:
  "buf_next b = Some (x, b') \<Longrightarrow>
   length (the (buf_data b')) - unat (read_head b') < length (the (buf_data b)) - unat (read_head b)"
proof -
  assume "buf_next b = Some (x, b')"
  then obtain data where D: "buf_data b = Some data" "length data \<le> 2 ^ 63"
      "unat (read_head b) < length data" "b' = b \<lparr> read_head := read_head b + 1 \<rparr>"
    by (auto simp: buf_next_def bind_eq_Some_conv peek_def split: if_splits)
  then have "unat (read_head b + 1) = Suc (unat (read_head b))"
    by (simp add: unat_plus_if')
  with D show ?thesis by simp
qed

function (sequential) buffer_readVarInt :: "ByteBuffer \<Rightarrow> (u8 \<times> u64 \<times> ByteBuffer) option" where
  "buffer_readVarInt b =
     (if \<not> buffer_available b 1 then Some (0, 0, b)
      else case buf_next b of None \<Rightarrow> None | Some (v, b) \<Rightarrow>
        if v AND 0x80 = 0x00 then Some (1, ucast (v AND 0x7F), b)
        else if v AND 0xC0 = 0x80 then
          if \<not> buffer_available b 1 then Some (0, 0, b)
          else do {
            (byte1, b) \<leftarrow> buf_next b;
            Some (2, push_bit 8 (ucast (v AND 0x3F)) OR ucast byte1, b)
          }
        else if v AND 0xF0 = 0xF0 then
          if v AND 0xFC = 0xF0 then
            if \<not> buffer_available b 4 then Some (0, 0, b)
            else do {
              (byte1, b) \<leftarrow> buf_next b; (byte2, b) \<leftarrow> buf_next b;
              (byte3, b) \<leftarrow> buf_next b; (byte4, b) \<leftarrow> buf_next b;
              Some (5, push_bit 24 (ucast byte1) OR push_bit 16 (ucast byte2) OR
                       push_bit 8 (ucast byte3) OR ucast byte4, b)
            }
          else if v AND 0xFC = 0xF4 then
            if \<not> buffer_available b 8 then Some (0, 0, b)
            else do {
              (byte1, b) \<leftarrow> buf_next b; (byte2, b) \<leftarrow> buf_next b;
              (byte3, b) \<leftarrow> buf_next b; (byte4, b) \<leftarrow> buf_next b;
              (byte5, b) \<leftarrow> buf_next b; (byte6, b) \<leftarrow> buf_next b;
              (byte7, b) \<leftarrow> buf_next b; (byte8, b) \<leftarrow> buf_next b;
              Some (9, push_bit 56 (ucast byte1) OR push_bit 48 (ucast byte2) OR
                       push_bit 40 (ucast byte3) OR push_bit 32 (ucast byte4) OR
                       push_bit 24 (ucast byte5) OR push_bit 16 (ucast byte6) OR
                       push_bit 8 (ucast byte7) OR ucast byte8, b)
            }
          else if v AND 0xFC = 0xF8 then
            if \<not> buffer_available b 1 then Some (0, 0, b)
            else case buffer_readVarInt b of None \<Rightarrow> None
                 | Some (n, output, b) \<Rightarrow> Some (n, NOT output, b)
          else if v AND 0xFC = 0xFC then Some (1, NOT (ucast (v AND 0x03)), b)
          else Some (1, 0, b)
        else if v AND 0xF0 = 0xE0 then
          if \<not> buffer_available b 3 then Some (0, 0, b)
          else do {
            (byte1, b) \<leftarrow> buf_next b; (byte2, b) \<leftarrow> buf_next b; (byte3, b) \<leftarrow> buf_next b;
            Some (4, push_bit 24 (ucast (v AND 0x0F)) OR push_bit 16 (ucast byte1) OR
                     push_bit 8 (ucast byte2) OR ucast byte3, b)
          }
        else if v AND 0xE0 = 0xC0 then
          if \<not> buffer_available b 2 then Some (0, 0, b)
          else do {
            (byte1, b) \<leftarrow> buf_next b; (byte2, b) \<leftarrow> buf_next b;
            Some (3, push_bit 16 (ucast (v AND 0x1F)) OR push_bit 8 (ucast byte1) OR
                     ucast byte2, b)
          }
        else Some (0, 0, b))"
  by pat_completeness auto
termination
  by (relation "measure (\<lambda>b. length (the (buf_data b)) - unat (read_head b))")
    (auto dest: buf_next_decreases)

declare buffer_readVarInt.simps [simp del]

section \<open>Invariant and abstraction\<close>

definition buf_ok :: "ByteBuffer \<Rightarrow> bool" where
  "buf_ok b \<longleftrightarrow>
     (case buf_data b of None \<Rightarrow> False
      | Some data \<Rightarrow> length data = unat (capacity b) \<and> length data \<le> 2 ^ 62) \<and>
     read_head b \<le> write_head b \<and> write_head b \<le> capacity b"

definition unread :: "ByteBuffer \<Rightarrow> u8 list" where
  "unread b =
     take (unat (write_head b) - unat (read_head b)) (drop (unat (read_head b)) (the (buf_data b)))"

text \<open>The heads and the block of a good buffer, as natural numbers.\<close>

lemma buf_okE:
  assumes "buf_ok b"
  obtains data where "buf_data b = Some data" "length data = unat (capacity b)"
    "length data \<le> 2 ^ 62" "unat (read_head b) \<le> unat (write_head b)"
    "unat (write_head b) \<le> length data"
    "unread b = take (unat (write_head b) - unat (read_head b)) (drop (unat (read_head b)) data)"
  using assms
  by (auto simp: buf_ok_def unread_def word_le_nat_alt split: option.splits)

lemma length_unread:
  "buf_ok b \<Longrightarrow> length (unread b) = unat (write_head b) - unat (read_head b)"
  by (erule buf_okE) simp

lemma buffer_length_unread: "buf_ok b \<Longrightarrow> unat (buffer_length b) = length (unread b)"
  by (simp add: buffer_length_def length_unread unat_sub buf_ok_def)

lemma buffer_isEmpty_unread: "buf_ok b \<Longrightarrow> buffer_isEmpty b \<longleftrightarrow> unread b = []"
proof -
  assume ok: "buf_ok b"
  then have "unread b = [] \<longleftrightarrow> unat (write_head b) \<le> unat (read_head b)"
    using length_unread [OF ok] by (metis diff_is_0_eq length_0_conv)
  with ok show ?thesis
    by (auto simp: buffer_isEmpty_def buf_ok_def word_le_nat_alt word_unat_eq_iff)
qed

lemma unat_add_small: "unat a + unat b < 2 ^ 64 \<Longrightarrow> unat ((a::u64) + b) = unat a + unat b"
  by (simp add: unat_plus_if')

lemma buffer_available_iff:
  assumes "buf_ok b" "unat n < 2 ^ 63"
  shows "buffer_available b n \<longleftrightarrow> unat n \<le> length (unread b)"
  using assms
  by (auto simp: buffer_available_def length_unread word_less_nat_alt unat_add_small not_less
      elim!: buf_okE)

subsection \<open>Reading\<close>

text \<open>Moving the read head forward over unread bytes.\<close>

lemma unread_advance:
  assumes "buf_ok b" "unat n \<le> length (unread b)"
  defines "b' \<equiv> b \<lparr> read_head := read_head b + n \<rparr>"
  shows "buf_ok b'" "unread b' = drop (unat n) (unread b)"
    "slice (the (buf_data b)) (unat (read_head b)) (unat n) = Some (take (unat n) (unread b))"
proof -
  obtain data where D: "buf_data b = Some data" "length data = unat (capacity b)"
    "length data \<le> 2 ^ 62" "unat (read_head b) \<le> unat (write_head b)"
    "unat (write_head b) \<le> length data"
    "unread b = take (unat (write_head b) - unat (read_head b)) (drop (unat (read_head b)) data)"
    using assms(1) by (rule buf_okE)
  have n: "unat (read_head b) + unat n \<le> unat (write_head b)"
    using assms D length_unread [OF assms(1)] by simp
  then have R: "unat (read_head b + n) = unat (read_head b) + unat n"
    using D by (intro unat_add_small) simp
  show "buf_ok b'"
    using D R n by (simp add: b'_def buf_ok_def word_le_nat_alt)
  show "unread b' = drop (unat n) (unread b)"
    using D R by (simp add: b'_def unread_def drop_take add.commute)
  show "slice (the (buf_data b)) (unat (read_head b)) (unat n) = Some (take (unat n) (unread b))"
    using D n by (simp add: slice_def min_def)
qed

lemma buf_next_unread:
  assumes "buf_ok b" "unread b = x # xs"
  shows "\<exists>b'. buf_next b = Some (x, b') \<and> buf_ok b' \<and> unread b' = xs \<and>
    b' = b \<lparr> read_head := read_head b + 1 \<rparr>"
proof -
  note A = unread_advance [OF assms(1), of 1]
  have "slice (the (buf_data b)) (unat (read_head b)) 1 = Some [x]" using A assms by simp
  then have "peek (the (buf_data b)) (unat (read_head b)) = Some x"
    by (auto simp: slice_def peek_def hd_drop_conv_nth split: if_splits dest: arg_cong [where f=hd])
  with assms A show ?thesis
    by (auto simp: buf_next_def elim!: buf_okE)
qed

lemma buf_next_Nil: "buf_ok b \<Longrightarrow> unread b = [] \<Longrightarrow> \<not> buffer_available b 1"
  by (simp add: buffer_available_iff)

lemma buffer_read_enough:
  assumes "buf_ok b" "unat n \<le> length (unread b)"
  shows "buffer_read n b =
     Some (n, take (unat n) (unread b), b \<lparr> read_head := read_head b + n \<rparr>)"
proof -
  have "length (unread b) \<le> 2 ^ 62"
    using assms(1) by (auto simp: length_unread elim!: buf_okE)
  then have "buffer_available b n"
    using assms by (subst buffer_available_iff) auto
  then show ?thesis
    using unread_advance(3) [OF assms] assms(1) by (auto simp: buffer_read_def elim!: buf_okE)
qed

lemma buffer_read_short:
  assumes "buf_ok b" "unat n < 2 ^ 63" "length (unread b) < unat n"
  shows "buffer_read n b = Some (0, [], b)"
  using assms by (simp add: buffer_read_def buffer_available_iff)

subsection \<open>Growing and writing\<close>

lemma unat_half: "unat (drop_bit 1 (w::u64)) = unat w div 2"
  unfolding unat_drop_bit_eq by (simp add: drop_bit_eq_div)

lemma grown_capacity_enough:
  assumes "unat new_head \<le> 2 ^ 61"
  shows "new_head \<le> grown_capacity cap new_head"
    and "unat cap < unat new_head \<Longrightarrow> unat (grown_capacity cap new_head) \<le> 2 ^ 62"
proof -
  have H: "unat (new_head + drop_bit 1 new_head) = unat new_head + unat new_head div 2"
    using assms by (subst unat_add_small) (simp_all add: unat_half [simplified])
  show "new_head \<le> grown_capacity cap new_head"
    using H by (auto simp: grown_capacity_def Let_def word_le_nat_alt not_less)
  assume c0: "unat cap < unat new_head"
  with assms have c: "unat cap \<le> 2 ^ 61" by simp
  have "unat (cap + drop_bit 1 cap) = unat cap + unat cap div 2"
    using c by (subst unat_add_small) (simp_all add: unat_half [simplified])
  moreover have "unat (cap * 2) = unat cap * 2"
    using c by (simp add: unat_mult_lem [THEN iffD1])
  ultimately show "unat (grown_capacity cap new_head) \<le> 2 ^ 62"
    using H c assms div_le_dividend [of "unat cap" 2] div_le_dividend [of "unat new_head" 2]
    by (auto simp: grown_capacity_def Let_def)
qed

text \<open>
  Making room: with memory available the block afterwards has the room, and the old bytes are
  still there. A buffer never asked to hold more than \<open>2 ^ 61\<close> bytes does not wrap.
\<close>

definition roomy :: "mem_env \<Rightarrow> bool" where
  "roomy env \<longleftrightarrow> (\<forall>n \<le> 2 ^ 62. can_alloc env n)"

definition same_bytes :: "ByteBuffer \<Rightarrow> ByteBuffer \<Rightarrow> bool" where
  "same_bytes b b' \<longleftrightarrow>
     buf_ok b' \<and> unread b' = unread b \<and> read_head b' = read_head b \<and>
     write_head b' = write_head b \<and> original_capacity b' = original_capacity b"

lemma buffer_adjust_room:
  assumes "buf_ok b" "unat (write_head b) + unat n \<le> 2 ^ 61" "roomy env"
  shows "\<exists>r b'. buffer_adjust env n b = Some (r, b') \<and> same_bytes b b' \<and>
    unat (write_head b) + unat n \<le> unat (capacity b')"
proof -
  let ?h = "write_head b + n"
  let ?c = "grown_capacity (capacity b) ?h"
  obtain data where D: "buf_data b = Some data" "length data = unat (capacity b)"
    "length data \<le> 2 ^ 62" "unat (read_head b) \<le> unat (write_head b)"
    "unat (write_head b) \<le> length data"
    "unread b = take (unat (write_head b) - unat (read_head b)) (drop (unat (read_head b)) data)"
    using assms(1) by (rule buf_okE)
  have H: "unat ?h = unat (write_head b) + unat n"
    using assms(2) by (intro unat_add_small) simp
  show ?thesis
  proof (cases "capacity b < ?h")
    case False
    then have "buffer_adjust env n b = Some (False, b)"
      by (simp add: buffer_adjust_def Let_def)
    moreover have "unat ?h \<le> unat (capacity b)"
      using False by (simp add: word_le_nat_alt not_less)
    ultimately show ?thesis using assms(1) H by (auto simp: same_bytes_def)
  next
    case True
    then have lt: "unat (capacity b) < unat ?h" by (simp add: word_less_nat_alt)
    have G: "unat ?h \<le> unat ?c" "unat ?c \<le> 2 ^ 62"
      using grown_capacity_enough [of ?h "capacity b"] H assms(2) lt
      by (auto simp: word_le_nat_alt)
    then have c: "can_alloc env ?c" "?c \<noteq> 0"
      using assms(3) lt by (auto simp: roomy_def word_le_nat_alt)
    let ?d = "data @ map (junk env) [length data..<unat ?c]"
    have "length data \<le> unat ?c" using D lt G by simp
    then have "buffer_adjust env n b =
        Some (True, b \<lparr> buf_data := Some ?d, capacity := ?c \<rparr>)"
      using True c D by (simp add: buffer_adjust_def buffer_resize_def realloc_def Let_def)
    moreover have "same_bytes b (b \<lparr> buf_data := Some ?d, capacity := ?c \<rparr>)"
      using D G H lt by (auto simp: same_bytes_def buf_ok_def unread_def word_le_nat_alt)
    ultimately show ?thesis using G H by auto
  qed
qed

text \<open>Storing behind the write head.\<close>

lemma take_drop_store:
  assumes "r \<le> w" "w \<le> length d"
  shows "take (w + length xs - r) (drop r (take w d @ xs @ ys)) = take (w - r) (drop r d) @ xs"
proof -
  have "drop r (take w d @ xs @ ys) = take (w - r) (drop r d) @ xs @ ys"
    using assms by (simp add: drop_take)
  moreover have "length (take (w - r) (drop r d) @ xs) = w + length xs - r"
    using assms by simp
  ultimately show ?thesis by (metis append_assoc append_eq_conv_conj)
qed

lemma unread_extend:
  assumes "buf_ok b" "unat (write_head b) + length xs \<le> unat (capacity b)"
  shows "\<exists>data'. poke (the (buf_data b)) (unat (write_head b)) xs = Some data' \<and>
    (let b' = b \<lparr> buf_data := Some data', write_head := write_head b + of_nat (length xs) \<rparr>
     in buf_ok b' \<and> unread b' = unread b @ xs)"
proof -
  obtain data where D: "buf_data b = Some data" "length data = unat (capacity b)"
    "length data \<le> 2 ^ 62" "unat (read_head b) \<le> unat (write_head b)"
    "unat (write_head b) \<le> length data"
    "unread b = take (unat (write_head b) - unat (read_head b)) (drop (unat (read_head b)) data)"
    using assms(1) by (rule buf_okE)
  have l: "length xs < 2 ^ 64" using assms(2) D by simp
  then have W: "unat (write_head b + of_nat (length xs)) = unat (write_head b) + length xs"
    using assms(2) D by (subst unat_add_small) (simp_all add: unat_of_nat)
  let ?w = "unat (write_head b)" and ?r = "unat (read_head b)"
  let ?d = "take ?w data @ xs @ drop (?w + length xs) data"
  have "poke (the (buf_data b)) ?w xs = Some ?d"
    using D assms(2) by (simp add: poke_in)
  moreover have "buf_ok (b \<lparr> buf_data := Some ?d, write_head := write_head b + of_nat (length xs) \<rparr>)"
    using D W assms(2) by (simp add: buf_ok_def word_le_nat_alt)
  moreover have
    "unread (b \<lparr> buf_data := Some ?d, write_head := write_head b + of_nat (length xs) \<rparr>)
       = unread b @ xs"
    using D(1,2,4,5,6) W take_drop_store [of ?r ?w data xs] by (simp add: unread_def)
  ultimately show ?thesis by (simp add: Let_def)
qed

text \<open>The precondition of every write: enough memory, and no head beyond \<open>2 ^ 61\<close>.\<close>

definition can_write :: "mem_env \<Rightarrow> ByteBuffer \<Rightarrow> nat \<Rightarrow> bool" where
  "can_write env b n \<longleftrightarrow> buf_ok b \<and> roomy env \<and> unat (write_head b) + n \<le> 2 ^ 61"

lemma buffer_write_appends:
  assumes "can_write env b (unat n)" "unat n \<le> length src"
  shows "\<exists>b'. buffer_write env src n b = Some (n, b') \<and> buf_ok b' \<and>
    unread b' = unread b @ take (unat n) src \<and> write_head b' = write_head b + n"
proof -
  obtain r b1 where B: "buffer_adjust env n b = Some (r, b1)" "same_bytes b b1"
      "unat (write_head b) + unat n \<le> unat (capacity b1)"
    using buffer_adjust_room [of b n env] assms by (auto simp: can_write_def)
  let ?xs = "take (unat n) src"
  have l: "length ?xs = unat n" using assms(2) by simp
  from B obtain data' where
    "poke (the (buf_data b1)) (unat (write_head b1)) ?xs = Some data'"
    "buf_ok (b1 \<lparr> buf_data := Some data', write_head := write_head b1 + of_nat (length ?xs) \<rparr>)"
    "unread (b1 \<lparr> buf_data := Some data', write_head := write_head b1 + of_nat (length ?xs) \<rparr>)
       = unread b1 @ ?xs"
    using unread_extend [of b1 ?xs] unfolding l
    by (auto simp: same_bytes_def Let_def)
  moreover obtain data where "buf_data b1 = Some data"
    using B(2) by (auto simp: same_bytes_def elim: buf_okE)
  ultimately show ?thesis
    using B assms(2) unfolding l by (simp add: buffer_write_def slice_def same_bytes_def)
qed

lemma buf_puts_extend:
  assumes "buf_ok b" "unat (write_head b) + length xs \<le> unat (capacity b)"
  shows "\<exists>b'. buf_puts xs b = Some b' \<and> buf_ok b' \<and> unread b' = unread b @ xs \<and>
    write_head b' = write_head b + of_nat (length xs) \<and> capacity b' = capacity b"
  using assms
proof (induction xs arbitrary: b)
  case Nil
  then show ?case by simp
next
  case (Cons x xs)
  then obtain data' where P: "poke (the (buf_data b)) (unat (write_head b)) [x] = Some data'"
    and O: "buf_ok (b \<lparr> buf_data := Some data', write_head := write_head b + 1 \<rparr>)"
    and U: "unread (b \<lparr> buf_data := Some data', write_head := write_head b + 1 \<rparr>) = unread b @ [x]"
    using unread_extend [of b "[x]"] by (auto simp: Let_def)
  let ?b = "b \<lparr> buf_data := Some data', write_head := write_head b + 1 \<rparr>"
  obtain data where data: "buf_data b = Some data" "length data \<le> 2 ^ 62"
      "length data = unat (capacity b)"
    using Cons.prems(1) by (auto elim: buf_okE)
  have "unat (write_head b + 1) = unat (write_head b) + 1"
    using Cons.prems(2) data by (subst unat_add_small) simp_all
  then obtain b' where "buf_puts xs ?b = Some b' \<and> buf_ok b' \<and> unread b' = unread ?b @ xs \<and>
      write_head b' = write_head ?b + of_nat (length xs) \<and> capacity b' = capacity ?b"
    using Cons.IH [OF O] Cons.prems(2) by auto
  with P U data show ?case by (simp add: buf_put_def)
qed

lemma buffer_put_adjusted_appends:
  assumes "can_write env b (length xs)"
  shows "\<exists>b'. buffer_put_adjusted env xs b = Some b' \<and> buf_ok b' \<and>
    unread b' = unread b @ xs \<and> write_head b' = write_head b + of_nat (length xs)"
proof -
  have l: "unat (of_nat (length xs) :: u64) = length xs"
    using assms by (simp add: can_write_def unat_of_nat)
  obtain r b1 where B: "buffer_adjust env (of_nat (length xs)) b = Some (r, b1)" "same_bytes b b1"
      "unat (write_head b) + length xs \<le> unat (capacity b1)"
    using buffer_adjust_room [of b "of_nat (length xs)" env] assms l by (auto simp: can_write_def)
  then show ?thesis
    using buf_puts_extend [of b1 xs] by (auto simp: buffer_put_adjusted_def same_bytes_def)
qed

section \<open>Variable length integers of the buffer\<close>

definition buf_varint_bytes :: "u64 \<Rightarrow> u8 list" where
  "buf_varint_bytes v =
     (if v AND 0x8000000000000000 \<noteq> 0 \<and> NOT v < 0x100000000
      then if NOT v \<le> 0x3 then [ucast (0xFC OR NOT v)] else 0xF8 # varint_bytes (NOT v)
      else varint_bytes v)"

definition advance :: "ByteBuffer \<Rightarrow> nat \<Rightarrow> ByteBuffer" where
  "advance b k = b \<lparr> read_head := read_head b + of_nat k \<rparr>"

lemma advance_0 [simp]: "advance b 0 = b"
  by (simp add: advance_def)

lemma unat_of_nat_unread: "buf_ok b \<Longrightarrow> k \<le> length (unread b) \<Longrightarrow> unat (of_nat k :: u64) = k"
  by (auto simp: length_unread unat_of_nat elim!: buf_okE)

lemma advance_unread:
  assumes "buf_ok b" "k \<le> length (unread b)"
  shows "buf_ok (advance b k)" "unread (advance b k) = drop k (unread b)"
  using unread_advance [of b "of_nat k"] unat_of_nat_unread [OF assms] assms
  by (simp_all add: advance_def)

lemma advance_advance: "advance (advance b j) k = advance b (j + k)"
  by (simp add: advance_def)

lemma buf_next_advance:
  assumes "buf_ok b" "k < length (unread b)"
  shows "buf_next (advance b k) = Some (unread b ! k, advance b (Suc k))"
proof -
  note le = less_imp_le [OF assms(2)]
  have "unread (advance b k) = unread b ! k # drop (Suc k) (unread b)"
    using advance_unread(2) [OF assms(1) le] Cons_nth_drop_Suc [OF assms(2)] by simp
  then have "buf_next (advance b k) =
      Some (unread b ! k, advance b k \<lparr> read_head := read_head (advance b k) + 1 \<rparr>)"
    using buf_next_unread [OF advance_unread(1) [OF assms(1) le]] by blast
  then show ?thesis by (simp add: advance_def add.assoc add.commute [of 1])
qed

lemma buffer_available_advance:
  assumes "buf_ok b" "k \<le> length (unread b)" "unat n < 2 ^ 63"
  shows "buffer_available (advance b k) n \<longleftrightarrow> k + unat n \<le> length (unread b)"
  using assms by (auto simp: buffer_available_iff advance_unread)

text \<open>Runs of checked loads, as one condition on the length.\<close>

lemma peeks:
  "(do { x \<leftarrow> peek u 1; Some (f1 x) }) = (if 1 < length u then Some (f1 (u ! 1)) else None)"
  "(do { x \<leftarrow> peek u 1; y \<leftarrow> peek u 2; Some (f2 x y) }) =
     (if 2 < length u then Some (f2 (u ! 1) (u ! 2)) else None)"
  "(do { x \<leftarrow> peek u 1; y \<leftarrow> peek u 2; z \<leftarrow> peek u 3; Some (f3 x y z) }) =
     (if 3 < length u then Some (f3 (u ! 1) (u ! 2) (u ! 3)) else None)"
  "(do { x \<leftarrow> peek u 1; y \<leftarrow> peek u 2; z \<leftarrow> peek u 3; w \<leftarrow> peek u 4; Some (f4 x y z w) }) =
     (if 4 < length u then Some (f4 (u ! 1) (u ! 2) (u ! 3) (u ! 4)) else None)"
  "(do { x \<leftarrow> peek u 1; y \<leftarrow> peek u 2; z \<leftarrow> peek u 3; w \<leftarrow> peek u 4;
         x' \<leftarrow> peek u 5; y' \<leftarrow> peek u 6; z' \<leftarrow> peek u 7; w' \<leftarrow> peek u 8;
         Some (f8 x y z w x' y' z' w') }) =
     (if 8 < length u
      then Some (f8 (u ! 1) (u ! 2) (u ! 3) (u ! 4) (u ! 5) (u ! 6) (u ! 7) (u ! 8)) else None)"
  by (simp_all add: peek_def)

lemma nexts:
  assumes "buf_ok b"
  shows
  "1 < length (unread b) \<Longrightarrow>
     (do { (x, b) \<leftarrow> buf_next (advance b 1); Some (f1 x b) }) =
     Some (f1 (unread b ! 1) (advance b 2))"
  "2 < length (unread b) \<Longrightarrow>
     (do { (x, b) \<leftarrow> buf_next (advance b 1); (y, b) \<leftarrow> buf_next b; Some (f2 x y b) }) =
     Some (f2 (unread b ! 1) (unread b ! 2) (advance b 3))"
  "3 < length (unread b) \<Longrightarrow>
     (do { (x, b) \<leftarrow> buf_next (advance b 1); (y, b) \<leftarrow> buf_next b; (z, b) \<leftarrow> buf_next b;
           Some (f3 x y z b) }) =
     Some (f3 (unread b ! 1) (unread b ! 2) (unread b ! 3) (advance b 4))"
  "4 < length (unread b) \<Longrightarrow>
     (do { (x, b) \<leftarrow> buf_next (advance b 1); (y, b) \<leftarrow> buf_next b; (z, b) \<leftarrow> buf_next b;
           (w, b) \<leftarrow> buf_next b; Some (f4 x y z w b) }) =
     Some (f4 (unread b ! 1) (unread b ! 2) (unread b ! 3) (unread b ! 4) (advance b 5))"
  "8 < length (unread b) \<Longrightarrow>
     (do { (x, b) \<leftarrow> buf_next (advance b 1); (y, b) \<leftarrow> buf_next b; (z, b) \<leftarrow> buf_next b;
           (w, b) \<leftarrow> buf_next b; (x', b) \<leftarrow> buf_next b; (y', b) \<leftarrow> buf_next b;
           (z', b) \<leftarrow> buf_next b; (w', b) \<leftarrow> buf_next b; Some (f8 x y z w x' y' z' w' b) }) =
     Some (f8 (unread b ! 1) (unread b ! 2) (unread b ! 3) (unread b ! 4) (unread b ! 5)
       (unread b ! 6) (unread b ! 7) (unread b ! 8) (advance b 9))"
  using buf_next_advance [OF assms] by (simp_all add: eval_nat_numeral)

text \<open>
  The two readers of the program agree on every block, except when the first byte is the flag
  0xF8 of a negative number.
\<close>

definition varint_outcome ::
  "ByteBuffer \<Rightarrow> (u64 \<times> nat) option \<Rightarrow> (u8 \<times> u64 \<times> ByteBuffer) option" where
  "varint_outcome b r =
     (case r of Some (v, n) \<Rightarrow> Some (of_nat n, v, advance b n)
      | None \<Rightarrow> Some (0, 0, advance b (min 1 (length (unread b)))))"

lemma varint_outcome_if:
  assumes "unread b \<noteq> []"
  shows "varint_outcome b None = Some (0, 0, advance b 1)"
    "varint_outcome b (Some (v, n)) = Some (of_nat n, v, advance b n)"
  using assms
  by (simp_all add: varint_outcome_def min_absorb1 Suc_le_eq)

lemma varint_first_byte:
  assumes "(x::u8) AND 0x80 \<noteq> 0" "x AND 0xC0 \<noteq> 0x80" "x AND 0xF0 \<noteq> 0xF0" "x AND 0xF0 \<noteq> 0xE0"
  shows "x AND 0xE0 = 0xC0"
proof -
  have "x AND 0x80 = 0" if "\<not> bit x 7"
    using that by (intro bit_word_eqI) (auto simp: bit_and_iff bitlit)
  with assms(1) have 7: "bit x 7" by blast
  then have "x AND 0xC0 = 0x80" if "\<not> bit x 6"
    using that by (intro bit_word_eqI) (auto simp: bit_and_iff bitlit)
  with assms(2) have 6: "bit x 6" by blast
  have "x AND 0xF0 = 0xF0" if "bit x 5" "bit x 4"
    using that 6 7 by (intro bit_word_eqI) (auto simp: bit_and_iff bitlit)
  moreover have "x AND 0xF0 = 0xE0" if "bit x 5" "\<not> bit x 4"
    using that 6 7 by (intro bit_word_eqI) (auto simp: bit_and_iff bitlit)
  ultimately have "\<not> bit x 5" using assms(3,4) by blast
  with 6 7 show ?thesis by (intro bit_word_eqI) (auto simp: bit_and_iff bitlit)
qed

lemma buffer_readVarInt_util:
  assumes ok: "buf_ok b" and x: "\<And>x xs. unread b = x # xs \<Longrightarrow> x AND 0xFC \<noteq> 0xF8"
  shows "buffer_readVarInt b = varint_outcome b (util_get_varint (unread b) 0)"
proof (cases "unread b")
  case Nil
  then show ?thesis
    using buf_next_Nil [OF ok Nil]
    by (subst buffer_readVarInt.simps)
      (simp add: util_get_varint_def peek_def varint_outcome_def)
next
  case (Cons x xs)
  let ?u = "unread b"
  have l: "0 < length ?u" and ne: "?u \<noteq> []" using Cons by simp_all
  have x0: "peek ?u 0 = Some x" using Cons by (simp add: peek_def)
  have n0: "buf_next b = Some (x, advance b 1)"
    using buf_next_advance [OF ok l] Cons by simp
  have a0: "buffer_available b 1" using buffer_available_iff [OF ok, of 1] l by simp
  have av: "buffer_available (advance b 1) 1 \<longleftrightarrow> 1 < length ?u"
    "buffer_available (advance b 1) 2 \<longleftrightarrow> 2 < length ?u"
    "buffer_available (advance b 1) 3 \<longleftrightarrow> 3 < length ?u"
    "buffer_available (advance b 1) 4 \<longleftrightarrow> 4 < length ?u"
    "buffer_available (advance b 1) 8 \<longleftrightarrow> 8 < length ?u"
    using buffer_available_advance [OF ok, of 1] l by auto
  have fc: "(x AND 0xFC = 0xF8) = False" using x Cons by simp
  have lit: "((0xFC::u8) = 0xF8) = False" by simp
  note start = buffer_readVarInt.simps [of b] util_get_varint_def a0 n0 av x0 fc lit peeks
    not_True_eq_False not_False_eq_True if_True if_False option.case prod.case
    Option.bind.simps varint_outcome_if [OF ne] refl add_0 of_nat_1 of_nat_numeral
  show ?thesis
  proof (cases "x AND 0x80 = 0")
    case True
    then show ?thesis by (simp only: start)
  next
    case n80: False
    show ?thesis
    proof (cases "x AND 0xC0 = 0x80")
      case True
      with n80 show ?thesis
        by (cases "1 < length ?u") (simp_all only: start nexts [OF ok])
    next
      case nC0: False
      show ?thesis
      proof (cases "x AND 0xF0 = 0xF0")
        case True
        with n80 nC0 show ?thesis
          by (cases "x AND 0xFC = 0xF0"; cases "x AND 0xFC = 0xF4"; cases "x AND 0xFC = 0xFC";
              cases "4 < length ?u"; cases "8 < length ?u") (simp_all only: start nexts [OF ok])
      next
        case nF0: False
        show ?thesis
        proof (cases "x AND 0xF0 = 0xE0")
          case True
          with n80 nC0 nF0 show ?thesis
            by (cases "3 < length ?u") (simp_all only: start nexts [OF ok])
        next
          case False
          with n80 nC0 nF0 have "x AND 0xE0 = 0xC0" by (rule varint_first_byte)
          with n80 nC0 nF0 False show ?thesis
            by (cases "2 < length ?u") (simp_all only: start nexts [OF ok])
        qed
      qed
    qed
  qed
qed

text \<open>The first byte of a plain varint is never the flag of a negative number.\<close>

lemma hd_varint_bytes: "varint_bytes v = x # xs \<Longrightarrow> x AND 0xFC \<noteq> 0xF8"
proof
  assume v: "varint_bytes v = x # xs" and x: "x AND 0xFC = 0xF8"
  have "bit (0xF8::u8) n" if "n \<in> {3, 4, 5, 6, 7}" for n
    using that by auto
  then have X: "bit x 4" "bit x 5" "bit x 6" "bit x 7"
    using x by (metis bit_and_iff insertCI)+
  consider "v < 0x80" | "\<not> v < 0x80" "v < 0x4000" | "\<not> v < 0x80" "\<not> v < 0x4000" "v < 0x200000"
    | "\<not> v < 0x80" "\<not> v < 0x4000" "\<not> v < 0x200000" "v < 0x10000000"
    | "\<not> v < 0x80" "\<not> v < 0x4000" "\<not> v < 0x200000" "\<not> v < 0x10000000" by blast
  then show False
  proof cases
    case 1
    then have "x = ucast v" using v by (simp add: varint_bytes_def)
    then show False using X(4) 1 word_lt_bit [of v 7 7] by (auto simp: bit_simps)
  next
    case 2
    then have "x = ucast (drop_bit 8 v OR 0x80)" using v by (simp add: varint_bytes_def)
    then show False using X(3) 2 word_lt_bit [of v 14 14] by (auto simp: bit_simps bitlit)
  next
    case 3
    then have "x = ucast (drop_bit 16 v OR 0xC0)" using v by (simp add: varint_bytes_def)
    then show False using X(2) 3 word_lt_bit [of v 21 21] by (auto simp: bit_simps bitlit)
  next
    case 4
    then have "x = ucast (drop_bit 24 v OR 0xE0)" using v by (simp add: varint_bytes_def)
    then show False using X(1) 4 word_lt_bit [of v 28 28] by (auto simp: bit_simps bitlit)
  next
    case 5
    then have "x = 0xF0 \<or> x = 0xF4" using v by (auto simp: varint_bytes_def split: if_splits)
    with x show False by auto
  qed
qed

lemma buffer_readVarInt_plain:
  assumes "buf_ok b" "unread b = varint_bytes v @ rest"
  shows "buffer_readVarInt b =
     Some (of_nat (length (varint_bytes v)), v, advance b (length (varint_bytes v)))"
proof -
  have "x AND 0xFC \<noteq> 0xF8" if "unread b = x # xs" for x xs
  proof -
    obtain y ys where "varint_bytes v = y # ys" by (cases "varint_bytes v") auto
    with hd_varint_bytes [OF this] that assms(2) show ?thesis by simp
  qed
  then have "buffer_readVarInt b = varint_outcome b (util_get_varint (unread b) 0)"
    by (rule buffer_readVarInt_util [OF assms(1)])
  then show ?thesis using varint_decode [of v rest 0] assms(2)
    by (simp add: varint_outcome_def)
qed

text \<open>After the flag 0xF8 the code reads a plain varint and complements it.\<close>

lemma buffer_readVarInt_flag:
  assumes "buf_ok b" "unread b = 0xF8 # xs" "xs \<noteq> []"
  shows "buffer_readVarInt b =
     map_option (\<lambda>(n, output, b'). (n, NOT output, b')) (buffer_readVarInt (advance b 1))"
proof -
  have l: "0 < length (unread b)" using assms by simp
  have n: "buf_next b = Some (0xF8, advance b 1)"
    using buf_next_advance [OF assms(1) l] assms(2) by simp
  have a: "buffer_available b 1" "buffer_available (advance b 1) 1"
    using buffer_available_advance [OF assms(1), of 0 1]
      buffer_available_advance [OF assms(1), of 1 1] assms(2,3)
    by (auto simp: Suc_le_eq)
  have lit: "((0xF8::u8) AND 0x80 = 0) = False" "((0xF8::u8) AND 0xC0 = 0x80) = False"
    "((0xF8::u8) AND 0xF0 = 0xF0) = True" "((0xF8::u8) AND 0xFC = 0xF0) = False"
    "((0xF8::u8) AND 0xFC = 0xF4) = False" "((0xF8::u8) AND 0xFC = 0xF8) = True"
    by simp_all
  show ?thesis
    by (subst buffer_readVarInt.simps [of b])
      (simp only: n a lit not_True_eq_False if_False if_True option.case prod.case
        map_option_case, auto split: option.split)
qed

lemma buf_varint_small:
  assumes "NOT v \<le> (0x3::u64)"
  shows "NOT (ucast ((ucast (0xFC OR NOT v) :: u8) AND 0x03)) = v"
proof -
  have B: "\<not> bit v n \<Longrightarrow> n < 64 \<Longrightarrow> n < 2" for n
    using word_lt_bit [of "NOT v" 2 n] assms
    by (simp add: word_le_nat_alt word_less_nat_alt bit_not_iff)
  have "ucast ((ucast (0xFC OR NOT v) :: u8) AND 0x03) = NOT v"
    unfolding mask_lits by (rule bit_word_eqI) (auto simp: bit_simps bitlit dest: B)
  then show ?thesis by simp
qed

lemma buf_varint_small_byte: "(ucast (0xFC OR NOT (v::u64)) :: u8) AND 0xFC = 0xFC"
  by (rule bit_word_eqI) (auto simp: bit_simps bitlit)

definition varint_reported :: "u64 \<Rightarrow> nat" where
  "varint_reported v =
     length (buf_varint_bytes v) - (if hd (buf_varint_bytes v) = 0xF8 then 1 else 0)"

lemma buffer_readVarInt_decodes:
  assumes "buf_ok b" "unread b = buf_varint_bytes v @ rest"
  shows "buffer_readVarInt b =
     Some (of_nat (varint_reported v), v, advance b (length (buf_varint_bytes v)))"
proof -
  have nF8: "hd (varint_bytes w) \<noteq> 0xF8" for w
  proof (cases "varint_bytes w")
    case (Cons x xs)
    from hd_varint_bytes [OF this] have "x \<noteq> 0xF8" by auto
    with Cons show ?thesis by simp
  qed simp
  consider (pos) "\<not> (v AND 0x8000000000000000 \<noteq> 0 \<and> NOT v < 0x100000000)"
    | (small) "v AND 0x8000000000000000 \<noteq> 0" "NOT v < 0x100000000" "NOT v \<le> 3"
    | (neg) "v AND 0x8000000000000000 \<noteq> 0" "NOT v < 0x100000000" "\<not> NOT v \<le> 3" by blast
  then show ?thesis
  proof cases
    case pos
    then have "buf_varint_bytes v = varint_bytes v" by (simp only: buf_varint_bytes_def if_False)
    then show ?thesis
      using buffer_readVarInt_plain [OF assms(1)] assms(2) nF8 [of v]
      by (simp add: varint_reported_def)
  next
    case small
    then have e: "buf_varint_bytes v = [ucast (0xFC OR NOT v)]" by (simp add: buf_varint_bytes_def)
    have fc: "(ucast (0xFC OR NOT v) :: u8) AND 0xFC = 0xFC" by (rule buf_varint_small_byte)
    then have "(ucast (0xFC OR NOT v) :: u8) \<noteq> 0xF8" by auto
    then have r: "varint_reported v = 1" by (simp add: varint_reported_def e)
    obtain w where w: "w = (ucast (0xFC OR NOT v) :: u8)" by simp
    have n8: "w AND 0xFC \<noteq> 0xF8" "w AND 0xFC \<noteq> 0xF0" "w AND 0xFC \<noteq> 0xF4" using fc w by simp_all
    have wb: "bit w 7" "bit w 6" "bit w 5" "bit w 4"
      using fc w by (metis bit_FC_8 bit_and_iff)+
    have "bit (w AND 0x80) 7" using wb by (simp add: bit_and_iff bitlit)
    moreover have "bit (w AND 0xC0) 6" using wb by (simp add: bit_and_iff bitlit)
    moreover have "w AND 0xF0 = 0xF0"
      using wb by (intro bit_word_eqI) (auto simp: bit_and_iff bitlit)
    ultimately have c: "w AND 0x80 \<noteq> 0" "w AND 0xC0 \<noteq> 0x80" "w AND 0xF0 = 0xF0"
      by (auto simp: bit_80_8)
    have u: "unread b = w # rest" using assms(2) e w by simp
    have "util_get_varint (unread b) 0 = Some (NOT (ucast (w AND 0x03)), 1)"
      using c n8 fc w u
      by (simp only: util_get_varint_def peek_append_hd Option.bind.simps if_True if_False add_0 refl)
    moreover have "buffer_readVarInt b = varint_outcome b (util_get_varint (unread b) 0)"
      using n8(1) u by (intro buffer_readVarInt_util [OF assms(1)]) auto
    ultimately show ?thesis
      using buf_varint_small [OF small(3)] w by (simp add: varint_outcome_def r e)
  next
    case neg
    then have e: "buf_varint_bytes v = 0xF8 # varint_bytes (NOT v)" by (simp add: buf_varint_bytes_def)
    have u: "unread b = 0xF8 # varint_bytes (NOT v) @ rest" using assms(2) e by simp
    have "buf_ok (advance b 1)" "unread (advance b 1) = varint_bytes (NOT v) @ rest"
      using advance_unread [OF assms(1), of 1] u by simp_all
    then have "buffer_readVarInt (advance b 1) =
       Some (of_nat (length (varint_bytes (NOT v))), NOT v,
         advance (advance b 1) (length (varint_bytes (NOT v))))"
      by (rule buffer_readVarInt_plain)
    then show ?thesis
      using buffer_readVarInt_flag [OF assms(1) u]
      by (simp add: e varint_reported_def advance_advance)
  qed
qed

lemma length_buf_varint_bytes: "length (buf_varint_bytes v) \<le> 10"
  using length_varint_bytes_bounds(2) [of v] length_varint_bytes_bounds(2) [of "NOT v"]
  by (simp add: buf_varint_bytes_def)

text \<open>The writer is the flag byte, when there is one, and then a plain varint.\<close>

lemma buffer_writeVarInt_eq:
  "buffer_writeVarInt env v b =
     (let negative = (v AND 0x8000000000000000 \<noteq> 0 \<and> NOT v < 0x100000000);
          value = (if negative then NOT v else v)
      in if negative \<and> value \<le> 0x3
         then do { b \<leftarrow> buffer_put_adjusted env [ucast (0xFC OR value)] b; Some (1, b) }
         else do {
           (flag, b) \<leftarrow>
             (if negative then map_option (Pair 1) (buffer_put_adjusted env [0xF8] b)
              else Some (0, b));
           b \<leftarrow> buffer_put_adjusted env (varint_bytes value) b;
           Some (of_nat (length (varint_bytes value)) + flag, b)
         })"
proof -
  have t: "(if x < 0x80 then do { b \<leftarrow> buffer_put_adjusted env [ucast x] b; Some (1 + flag, b) }
     else if x < 0x4000 then do {
       b \<leftarrow> buffer_put_adjusted env [ucast (drop_bit 8 x OR 0x80), ucast (x AND 0xFF)] b; Some (2 + flag, b) }
     else if x < 0x200000 then do {
       b \<leftarrow> buffer_put_adjusted env [ucast (drop_bit 16 x OR 0xC0), ucast (drop_bit 8 x AND 0xFF), ucast (x AND 0xFF)] b;
       Some (3 + flag, b) }
     else if x < 0x10000000 then do {
       b \<leftarrow> buffer_put_adjusted env [ucast (drop_bit 24 x OR 0xE0), ucast (drop_bit 16 x AND 0xFF),
               ucast (drop_bit 8 x AND 0xFF), ucast (x AND 0xFF)] b;
       Some (4 + flag, b) }
     else if x < 0x100000000 then do {
       b \<leftarrow> buffer_put_adjusted env [0xF0, ucast (drop_bit 24 x AND 0xFF), ucast (drop_bit 16 x AND 0xFF),
               ucast (drop_bit 8 x AND 0xFF), ucast (x AND 0xFF)] b;
       Some (5 + flag, b) }
     else do {
       b \<leftarrow> buffer_put_adjusted env [0xF4, ucast (drop_bit 56 x AND 0xFF), ucast (drop_bit 48 x AND 0xFF),
               ucast (drop_bit 40 x AND 0xFF), ucast (drop_bit 32 x AND 0xFF),
               ucast (drop_bit 24 x AND 0xFF), ucast (drop_bit 16 x AND 0xFF),
               ucast (drop_bit 8 x AND 0xFF), ucast (x AND 0xFF)] b;
       Some (9 + flag, b) })
     = do { b \<leftarrow> buffer_put_adjusted env (varint_bytes x) b; Some (of_nat (length (varint_bytes x)) + flag, b) }"
    for b :: ByteBuffer and x :: u64 and flag :: u8
    by (simp add: varint_bytes_def)
  show ?thesis
    unfolding buffer_writeVarInt_def Let_def t ..
qed

lemma buffer_writeVarInt_appends:
  assumes "can_write env b (length (buf_varint_bytes v))"
  shows "\<exists>b'. buffer_writeVarInt env v b = Some (of_nat (length (buf_varint_bytes v)), b') \<and>
    buf_ok b' \<and> unread b' = unread b @ buf_varint_bytes v \<and>
    write_head b' = write_head b + of_nat (length (buf_varint_bytes v))"
proof (cases "v AND 0x8000000000000000 \<noteq> 0 \<and> NOT v < 0x100000000")
  case True
  show ?thesis
  proof (cases "NOT v \<le> 3")
    case small: True
    have e: "buf_varint_bytes v = [ucast (0xFC OR NOT v)]"
      using True small by (simp only: buf_varint_bytes_def if_True simp_thms)
    have w: "buffer_writeVarInt env v b =
        do { b \<leftarrow> buffer_put_adjusted env [ucast (0xFC OR NOT v)] b; Some (1, b) }"
      using True small by (simp only: buffer_writeVarInt_eq Let_def if_True simp_thms)
    show ?thesis
      using buffer_put_adjusted_appends [of env b "[ucast (0xFC OR NOT v)]"] assms
      unfolding w e by auto
  next
    case False
    have e: "buf_varint_bytes v = [0xF8] @ varint_bytes (NOT v)"
      using True False by (simp only: buf_varint_bytes_def if_True if_False simp_thms append.simps)
    obtain b1 where b1: "buffer_put_adjusted env [0xF8] b = Some b1" "buf_ok b1"
        "unread b1 = unread b @ [0xF8]" "write_head b1 = write_head b + 1"
      using buffer_put_adjusted_appends [of env b "[0xF8]"] assms e
      by (auto simp: can_write_def)
    have "unat (write_head b1) = unat (write_head b) + 1"
      using assms b1(4) e by (subst b1(4), subst unat_add_small) (auto simp: can_write_def)
    then have "can_write env b1 (length (varint_bytes (NOT v)))"
      using assms b1 e by (simp add: can_write_def)
    then obtain b2 where b2: "buffer_put_adjusted env (varint_bytes (NOT v)) b1 = Some b2" "buf_ok b2"
        "unread b2 = unread b1 @ varint_bytes (NOT v)"
        "write_head b2 = write_head b1 + of_nat (length (varint_bytes (NOT v)))"
      using buffer_put_adjusted_appends by blast
    have "buffer_writeVarInt env v b = Some (of_nat (length (varint_bytes (NOT v))) + 1, b2)"
      using True False b1(1) b2(1)
      by (simp only: buffer_writeVarInt_eq Let_def if_True if_False simp_thms Option.bind.simps
          prod.case option.map)
    with b1 b2 e show ?thesis by simp
  qed
next
  case False
  have e: "buf_varint_bytes v = varint_bytes v"
    using False by (simp only: buf_varint_bytes_def if_False)
  have w: "buffer_writeVarInt env v b =
      do { b \<leftarrow> buffer_put_adjusted env (varint_bytes v) b;
           Some (of_nat (length (varint_bytes v)), b) }"
    using False
    by (simp only: buffer_writeVarInt_eq Let_def if_False simp_thms Option.bind.simps prod.case
        add_0_right)
  show ?thesis
    using buffer_put_adjusted_appends [of env b "varint_bytes v"] assms unfolding w e by auto
qed

section \<open>Typed values\<close>

lemma size_of_pos: "0 < size_of ty" "size_of ty \<le> 8"
  by (cases ty; simp)+

lemma decode_int_le_bytes:
  assumes "in_range ty value"
  shows "decode_int ty (le_bytes (size_of ty) (of_int value :: u64)) = value"
proof -
  have l: "8 * size_of ty \<le> 64" "0 < 8 * size_of ty" using size_of_pos [of ty] by simp_all
  have u: "uint (from_le (le_bytes (size_of ty) (of_int value :: u64)) :: u64) =
      take_bit (8 * size_of ty) value"
    using l by (simp add: from_le_le_bytes unsigned_take_bit_eq unsigned_of_int min_def)
  show ?thesis
  proof (cases "signed_type ty")
    case True
    have "signed_take_bit (8 * size_of ty - 1) (take_bit (8 * size_of ty) value) =
        signed_take_bit (8 * size_of ty - 1) value"
      using l by (subst signed_take_bit_take_bit) auto
    also have "\<dots> = value"
      using assms True by (intro signed_take_bit_int_eq_self) (auto simp: in_range_def)
    finally show ?thesis using u True by (simp add: decode_int_def Let_def)
  next
    case False
    with u assms show ?thesis
      by (simp add: decode_int_def in_range_def Let_def take_bit_int_eq_self)
  qed
qed

lemma buffer_writeNum_appends:
  assumes "can_write env b (size_of ty)" "in_range ty value"
  shows "\<exists>b'. buffer_writeNum env ty value b = Some (of_nat (size_of ty), b') \<and> buf_ok b' \<and>
    unread b' = unread b @ le_bytes (size_of ty) (of_int value :: u64) \<and>
    write_head b' = write_head b + of_nat (size_of ty)"
proof -
  have "unat (of_nat (size_of ty) :: u64) = size_of ty" by (cases ty) simp_all
  then show ?thesis
    using buffer_write_appends [of env b "of_nat (size_of ty)" "le_bytes (size_of ty) (of_int value :: u64)"]
      assms
    by (auto simp: buffer_writeNum_def)
qed

lemma buffer_readNum_takes:
  assumes "buf_ok b" "unread b = le_bytes (size_of ty) (of_int value :: u64) @ rest"
    "in_range ty value"
  shows "buffer_readNum ty b = Some (of_nat (size_of ty), Some value, advance b (size_of ty))"
proof -
  have u: "unat (of_nat (size_of ty) :: u64) = size_of ty" "(of_nat (size_of ty) :: u64) \<noteq> 0"
      "ucast (of_nat (size_of ty) :: u64) = (of_nat (size_of ty) :: u8)"
    by (cases ty; simp)+
  have "buffer_read (of_nat (size_of ty)) b =
      Some (of_nat (size_of ty), le_bytes (size_of ty) (of_int value :: u64), advance b (size_of ty))"
    using buffer_read_enough [OF assms(1), of "of_nat (size_of ty)"] assms(2) u
    by (simp add: advance_def)
  then show ?thesis using u decode_int_le_bytes [OF assms(3)] by (simp add: buffer_readNum_def)
qed

section \<open>The buffer as a stream of values\<close>

text \<open>What a later write needs is kept by an earlier one.\<close>

lemma can_write_after:
  assumes "can_write env b (k + n)" "buf_ok b'" "write_head b' = write_head b + of_nat k"
  shows "can_write env b' n"
proof -
  have "unat (of_nat k :: u64) \<le> k" by (simp add: unat_of_nat)
  moreover have "unat (write_head b + of_nat k) \<le> unat (write_head b) + unat (of_nat k :: u64)"
    by (simp add: unat_word_ariths)
  ultimately show ?thesis using assms by (simp add: can_write_def)
qed

definition varint_put :: "mem_env \<Rightarrow> u64 \<Rightarrow> ByteBuffer \<Rightarrow> ByteBuffer option" where
  "varint_put env v b = map_option snd (buffer_writeVarInt env v b)"

definition varint_get :: "ByteBuffer \<Rightarrow> (u64 \<times> ByteBuffer) option" where
  "varint_get b = map_option snd (buffer_readVarInt b)"

definition num_put :: "mem_env \<Rightarrow> int_type \<Rightarrow> int \<Rightarrow> ByteBuffer \<Rightarrow> ByteBuffer option" where
  "num_put env ty value b = map_option snd (buffer_writeNum env ty value b)"

definition num_get :: "int_type \<Rightarrow> ByteBuffer \<Rightarrow> (int \<times> ByteBuffer) option" where
  "num_get ty b =
     do { (_, r, b) \<leftarrow> buffer_readNum ty b; value \<leftarrow> r; Some (value, b) }"

interpretation varints:
  stream_codec buf_varint_bytes "\<lambda>_. True" "can_write env" buf_ok unread "varint_put env" varint_get
  for env
proof (unfold_locales, goal_cases)
  case (1 s n)
  then show ?case by (simp add: can_write_def)
next
  case (2 x s n)
  then have "can_write env s (length (buf_varint_bytes x))" by (simp add: can_write_def)
  from buffer_writeVarInt_appends [OF this] can_write_after [OF 2(2)]
  show ?case by (auto simp: varint_put_def)
next
  case (3 x s rest)
  from buffer_readVarInt_decodes [OF 3(2,3)] 3 show ?case
    by (auto simp: varint_get_def advance_unread)
qed

interpretation nums:
  stream_codec "\<lambda>value. le_bytes (size_of ty) (of_int value :: u64)" "in_range ty" "can_write env"
    buf_ok unread "num_put env ty" "num_get ty"
  for env ty
proof (unfold_locales, goal_cases)
  case (1 s n)
  then show ?case by (simp add: can_write_def)
next
  case (2 x s n)
  then have "can_write env s (size_of ty)" "can_write env s (size_of ty + n)"
    by (simp_all add: can_write_def)
  with buffer_writeNum_appends [OF this(1) 2(1)] can_write_after
  show ?case by (fastforce simp: num_put_def)
next
  case (3 x s rest)
  from buffer_readNum_takes [OF 3(2,3,1)] 3 show ?case
    by (auto simp: num_get_def advance_unread)
qed

section \<open>Properties\<close>

subsection \<open>A concrete buffer\<close>

definition mem0 :: mem_env where
  "mem0 = \<lparr> can_alloc = (\<lambda>_. True), junk = (\<lambda>_. 0xAA) \<rparr>"

definition buf0 :: ByteBuffer where
  "buf0 = \<lparr> original_capacity = 2, capacity = 2, read_head = 0, write_head = 0,
             buf_data = Some [0xAA, 0xAA] \<rparr>"

lemma buf0_ok: "buf_ok buf0" "unread buf0 = []" "roomy mem0" "write_head buf0 = 0"
  by (simp_all add: buf0_def buf_ok_def unread_def roomy_def mem0_def)

lemma can_write0: "n \<le> 2 ^ 61 \<Longrightarrow> can_write mem0 buf0 n"
  using buf0_ok by (simp add: can_write_def)

text \<open>
  Any list of 64-bit values written with \<open>buffer_writeVarInt\<close> into a buffer with nothing
  unread, growing the block as needed, is read back by \<open>buffer_readVarInt\<close>, in order and with
  nothing left over. This includes the values that stand for negative numbers.
\<close>

theorem buffer_varints_roundtrip:
  assumes "can_write env b (length (concat (map buf_varint_bytes vs)))" "unread b = []"
  shows "\<exists>b' b''. put_all (varint_put env) vs b = Some b' \<and>
    get_all varint_get (length vs) b' = Some (vs, b'') \<and> unread b'' = []"
  using varints.put_all_get_all [of vs env b] assms by simp

lemma buffer_varints_roundtrip_witness:
  "\<exists>b' b''. put_all (varint_put mem0) [5, 300, -1, -1000] buf0 = Some b' \<and>
    get_all varint_get (length [5, 300, -1, -1000 :: u64]) b' = Some ([5, 300, -1, -1000], b'') \<and>
    unread b'' = []"
proof -
  have "length (concat (map buf_varint_bytes vs)) \<le> 10 * length vs" for vs
    by (induction vs) (use length_buf_varint_bytes in \<open>auto intro: add_mono\<close>)
  from this [of "[5, 300, -1, -1000]"]
  have "can_write mem0 buf0 (length (concat (map buf_varint_bytes [5, 300, -1, -1000])))"
    by (intro can_write0) simp
  then show ?thesis by (rule buffer_varints_roundtrip [OF _ buf0_ok(2)])
qed

text \<open>
  C21. A buffer is a byte queue: \<open>buffer_write\<close> appends the given bytes to the unread ones and
  keeps the invariant (heads in order, inside the block), whatever the growth of the block, as
  long as the allocator grants it; \<open>buffer_read\<close> then takes any prefix off the front, and a
  read of more than is there returns 0 and changes nothing.
\<close>

theorem buffer_write_read:
  assumes "can_write env b (length src)" "unat n < 2 ^ 63"
  shows "\<exists>b'. buffer_write env src (of_nat (length src)) b = Some (of_nat (length src), b') \<and>
    buf_ok b' \<and> unread b' = unread b @ src \<and>
    (if unat n \<le> length (unread b @ src)
     then \<exists>b''. buffer_read n b' = Some (n, take (unat n) (unread b @ src), b'') \<and>
            buf_ok b'' \<and> unread b'' = drop (unat n) (unread b @ src)
     else buffer_read n b' = Some (0, [], b'))"
proof -
  have l: "unat (of_nat (length src) :: u64) = length src"
    using assms(1) by (simp add: can_write_def unat_of_nat)
  then obtain b' where b': "buffer_write env src (of_nat (length src)) b = Some (of_nat (length src), b')"
      "buf_ok b'" "unread b' = unread b @ src"
    using buffer_write_appends [of env b "of_nat (length src)" src] assms(1) by auto
  show ?thesis
  proof (cases "unat n \<le> length (unread b @ src)")
    case True
    then show ?thesis
      using b' buffer_read_enough [of b' n] unread_advance [of b' n] by auto
  next
    case False
    then show ?thesis using b' buffer_read_short [of b' n] assms(2) by auto
  qed
qed

lemma buffer_write_read_witness:
  "\<exists>b'. buffer_write mem0 [1, 2, 3] 3 buf0 = Some (3, b') \<and> buf_ok b' \<and> unread b' = [1, 2, 3] \<and>
    (\<exists>b''. buffer_read 2 b' = Some (2, [1, 2], b'') \<and> buf_ok b'' \<and> unread b'' = [3])"
  using buffer_write_read [of mem0 buf0 "[1, 2, 3]" 2] can_write0 [of "length [1, 2, 3 :: u8]"] buf0_ok
  by simp

text \<open>
  \<open>buffer_pack\<close> moves the unread bytes to the front of the block: they are the same bytes, the
  read head is 0, the capacity is unchanged, so the room behind the write head is all of the
  capacity that unread bytes do not take.
\<close>

theorem buffer_pack_keeps:
  assumes "buf_ok b"
  shows "\<exists>b'. buffer_pack b = Some b' \<and> buf_ok b' \<and> unread b' = unread b \<and> read_head b' = 0 \<and>
    capacity b' = capacity b \<and> unat (write_head b') = length (unread b)"
proof -
  obtain data where D: "buf_data b = Some data" "length data = unat (capacity b)"
    "length data \<le> 2 ^ 62" "unat (read_head b) \<le> unat (write_head b)"
    "unat (write_head b) \<le> length data"
    "unread b = take (unat (write_head b) - unat (read_head b)) (drop (unat (read_head b)) data)"
    using assms by (rule buf_okE)
  consider (empty) "read_head b = write_head b" | (front) "read_head b \<noteq> write_head b" "read_head b = 0"
    | (move) "read_head b \<noteq> write_head b" "read_head b > 0"
    by (metis word_neq_0_conv)
  then show ?thesis
  proof cases
    case empty
    then show ?thesis
      using D by (simp add: buffer_pack_def buffer_reset_def buf_ok_def unread_def)
  next
    case front
    then show ?thesis using assms D length_unread [OF assms] by (simp add: buffer_pack_def)
  next
    case move
    let ?n = "unat (write_head b) - unat (read_head b)"
    have r: "unat (write_head b - read_head b) = ?n"
      using D by (simp add: unat_sub word_le_nat_alt)
    let ?b = "b \<lparr> buf_data := Some (unread b @ drop ?n data),
      write_head := write_head b - read_head b, read_head := 0 \<rparr>"
    have l: "length (unread b) = ?n" by (rule length_unread [OF assms])
    have "buffer_pack b = Some ?b"
      using move D l r by (simp add: buffer_pack_def slice_in poke_in)
    moreover have "buf_ok ?b" "unread ?b = unread b"
      using D l r by (simp_all add: buf_ok_def unread_def word_le_nat_alt)
    ultimately show ?thesis using l r by simp
  qed
qed

lemma buffer_pack_keeps_witness:
  "\<exists>b'. buffer_pack (buf0 \<lparr> write_head := 2, read_head := 1 \<rparr>) = Some b' \<and> buf_ok b' \<and>
    unread b' = [0xAA] \<and> read_head b' = 0 \<and> capacity b' = 2 \<and> unat (write_head b') = 1"
  using buffer_pack_keeps [of "buf0 \<lparr> write_head := 2, read_head := 1 \<rparr>"]
  by (simp add: buf0_def buf_ok_def unread_def)

text \<open>
  \<open>buffer_write\<close> ignores the result of \<open>buffer_adjust\<close>: when the allocator refuses to grow the
  block and the bytes do not fit into it, the copy runs past its end (undefined behaviour).
\<close>

theorem buffer_write_overflows:
  assumes "buf_ok b" "unat (write_head b) + length src < 2 ^ 61" "src \<noteq> []"
    and "unat (capacity b) < unat (write_head b) + length src" "\<forall>n. \<not> can_alloc env n"
  shows "buffer_write env src (of_nat (length src)) b = None"
proof -
  have l: "unat (of_nat (length src) :: u64) = length src" using assms(2) by (simp add: unat_of_nat)
  have h: "unat (write_head b + of_nat (length src)) = unat (write_head b) + length src"
    using assms(2) l by (subst unat_add_small) simp_all
  obtain data where D: "buf_data b = Some data" "length data = unat (capacity b)"
    using assms(1) by (auto elim: buf_okE)
  have "buffer_adjust env (of_nat (length src)) b \<in> {None, Some (False, b)}"
    using assms(5) D by (auto simp: buffer_adjust_def buffer_resize_def realloc_def Let_def)
  moreover have "poke data (unat (write_head b)) src = None"
    using assms(4) D by (simp add: poke_None_iff)
  ultimately show ?thesis using D l by (auto simp: buffer_write_def slice_def)
qed

lemma buffer_write_overflows_witness:
  "buffer_write (mem0 \<lparr> can_alloc := (\<lambda>_. False) \<rparr>) [1, 2, 3] 3 buf0 = None"
  using buffer_write_overflows [of buf0 "[1, 2, 3]" "mem0 \<lparr> can_alloc := (\<lambda>_. False) \<rparr>"] buf0_ok
  by (simp add: buf0_def)

text \<open>
  A value in the range of its C type, written by the typed writer into a buffer with nothing
  unread, is read back by the typed reader of the same type, sign included.
\<close>

theorem buffer_nums_roundtrip:
  assumes "can_write env b (size_of ty * length vals)" "unread b = []"
    "\<forall>value\<in>set vals. in_range ty value"
  shows "\<exists>b' b''. put_all (num_put env ty) vals b = Some b' \<and>
    get_all (num_get ty) (length vals) b' = Some (vals, b'') \<and> unread b'' = []"
proof -
  have "length (concat (map (\<lambda>value. le_bytes (size_of ty) (of_int value :: u64)) vs)) =
      size_of ty * length vs" for vs
    by (induction vs) auto
  then show ?thesis using nums.put_all_get_all [of vals ty env b] assms by simp
qed

lemma buffer_nums_roundtrip_witness:
  "\<exists>b' b''. put_all (num_put mem0 INT16) [-2, 32767] buf0 = Some b' \<and>
    get_all (num_get INT16) (length [-2, 32767 :: int]) b' = Some ([-2, 32767], b'') \<and> unread b'' = []"
  by (rule buffer_nums_roundtrip) (use can_write0 [of 4] buf0_ok in \<open>simp_all add: in_range_def\<close>)

text \<open>
  On a buffer whose first unread byte is not the flag of a negative number (0xF8 to 0xFB), the
  two decoders of the program agree: \<open>buffer_readVarInt\<close> returns the value and the length that
  \<open>util_get_varint\<close> finds in the unread bytes, and where that decoder would read past the end it
  returns size 0.
\<close>

theorem varint_readers_agree:
  assumes "buf_ok b" "unread b = x # xs" "x AND 0xFC \<noteq> 0xF8"
  shows "buffer_readVarInt b =
    (case util_get_varint (x # xs) 0 of
       Some (v, n) \<Rightarrow> Some (of_nat n, v, b \<lparr> read_head := read_head b + of_nat n \<rparr>)
     | None \<Rightarrow> Some (0, 0, b \<lparr> read_head := read_head b + 1 \<rparr>))"
  using buffer_readVarInt_util [of b] assms
  by (auto simp: varint_outcome_def advance_def min_def split: option.split)

lemma varint_readers_agree_witness:
  "buffer_readVarInt (buf0 \<lparr> buf_data := Some [0x81, 0x02], write_head := 2 \<rparr>) =
     Some (2, 0x102, buf0 \<lparr> buf_data := Some [0x81, 0x02], write_head := 2, read_head := 2 \<rparr>)"
  using varint_readers_agree [of "buf0 \<lparr> buf_data := Some [0x81, 0x02], write_head := 2 \<rparr>" "0x81" "[0x02]"]
  by (simp add: buf0_def buf_ok_def unread_def util_get_varint_def mem_simps)

end
