(* ===== verification/Links.thy ===== *)
theory Links
  imports Interfaces
begin

text \<open>
  The linked structures of \<open>mumble/util.c\<close> and \<open>mumble/audio.c\<close> on an explicit heap: the lists
  \<open>LinkNode\<close> (users, channels, streams, audio pipes are kept in them), the message queue
  \<open>LinkQueue\<close> of the threads and the work queue \<open>audio_queue_t\<close>. An address is a natural number and
  0 is NULL. Loading from or freeing an address that is not allocated is \<open>None\<close>, so a result
  \<open>Some\<close> means that no freed or NULL node was touched; a loop that never ends is \<open>None\<close> too.
  \<open>lists_at\<close> relates a head pointer to the abstract list of contents.
\<close>

section \<open>The heap\<close>

record 'v cell =
  content :: 'v
  link :: nat

record 'v heap =
  cells :: "nat \<Rightarrow> 'v cell option"
  brk :: nat

text \<open>\<open>malloc\<close> hands out an address that was not handed out before; no code compares addresses.\<close>

definition alloc :: "'v cell \<Rightarrow> 'v heap \<Rightarrow> nat \<times> 'v heap" where
  "alloc c h = (brk h, h \<lparr> cells := (cells h)(brk h \<mapsto> c), brk := Suc (brk h) \<rparr>)"

definition load :: "'v heap \<Rightarrow> nat \<Rightarrow> 'v cell option" where
  "load h p = cells h p"

definition set_link :: "nat \<Rightarrow> nat \<Rightarrow> 'v heap \<Rightarrow> 'v heap option" where
  "set_link p q h =
     (case cells h p of None \<Rightarrow> None
      | Some c \<Rightarrow> Some (h \<lparr> cells := (cells h)(p \<mapsto> c \<lparr> link := q \<rparr>) \<rparr>))"

definition release :: "nat \<Rightarrow> 'v heap \<Rightarrow> 'v heap option" where
  "release p h =
     (case cells h p of None \<Rightarrow> None | Some c \<Rightarrow> Some (h \<lparr> cells := (cells h)(p := None) \<rparr>))"

definition heap_ok :: "'v heap \<Rightarrow> bool" where
  "heap_ok h \<longleftrightarrow> 0 < brk h \<and> (\<forall>p c. cells h p = Some c \<longrightarrow> 0 < p \<and> p < brk h)"

section \<open>Lists: \<open>list_add\<close>, \<open>list_remove\<close>, \<open>list_clear\<close>, \<open>list_count\<close>, \<open>list_get\<close>\<close>

type_synonym 'd link_node = "u32 \<times> 'd"

definition list_add :: "u32 \<Rightarrow> 'd \<Rightarrow> 'd link_node heap \<Rightarrow> nat \<Rightarrow> 'd link_node heap \<times> nat" where
  "list_add idx data h head_ref =
     (let (new_node, h) = alloc \<lparr> content = (idx, data), link = head_ref \<rparr> h in (h, new_node))"

text \<open>The search loop: \<open>prev\<close> and \<open>temp\<close> walk the list until \<open>temp\<close> is NULL or the node sought.\<close>

partial_function (option) list_search ::
  "('v \<Rightarrow> bool) \<Rightarrow> 'v heap \<Rightarrow> nat \<Rightarrow> nat \<Rightarrow> (nat \<times> nat) option" where
  "list_search P h prev temp =
     (if temp = 0 then Some (prev, temp)
      else case load h temp of
             None \<Rightarrow> None
           | Some c \<Rightarrow> if P (content c) then Some (prev, temp) else list_search P h temp (link c))"

definition list_unlink :: "('v \<Rightarrow> bool) \<Rightarrow> 'v heap \<Rightarrow> nat \<Rightarrow> ('v heap \<times> nat) option" where
  "list_unlink P h head_ref = do {
     first \<leftarrow> (if head_ref = 0 then Some None else map_option Some (load h head_ref));
     case first of
       Some c \<Rightarrow>
         if P (content c) then do { h' \<leftarrow> release head_ref h; Some (h', link c) }
         else do {
           (prev, temp) \<leftarrow> list_search P h 0 head_ref;
           if temp = 0 then Some (h, head_ref)
           else do {
             t \<leftarrow> load h temp;
             h \<leftarrow> set_link prev (link t) h;
             h \<leftarrow> release temp h;
             Some (h, head_ref)
           }
         }
     | None \<Rightarrow> Some (h, head_ref)
   }"

definition list_remove :: "u32 \<Rightarrow> 'd link_node heap \<Rightarrow> nat \<Rightarrow> ('d link_node heap \<times> nat) option" where
  "list_remove idx = list_unlink (\<lambda>(i, _). i = idx)"

definition list_remove_data :: "'d \<Rightarrow> 'd link_node heap \<Rightarrow> nat \<Rightarrow> ('d link_node heap \<times> nat) option" where
  "list_remove_data data = list_unlink (\<lambda>(_, d). d = data)"

partial_function (option) free_nodes :: "'v heap \<Rightarrow> nat \<Rightarrow> 'v heap option" where
  "free_nodes h current =
     (if current = 0 then Some h
      else case load h current of
             None \<Rightarrow> None
           | Some c \<Rightarrow> (case release current h of None \<Rightarrow> None | Some h' \<Rightarrow> free_nodes h' (link c)))"

definition list_clear :: "'d link_node heap \<Rightarrow> nat \<Rightarrow> ('d link_node heap \<times> nat) option" where
  "list_clear h head_ref = map_option (\<lambda>h'. (h', 0)) (free_nodes h head_ref)"

partial_function (option) count_from :: "'v heap \<Rightarrow> nat \<Rightarrow> u64 \<Rightarrow> u64 option" where
  "count_from h current count =
     (if current = 0 then Some count
      else case load h current of None \<Rightarrow> None | Some c \<Rightarrow> count_from h (link c) (count + 1))"

definition list_count :: "'d link_node heap \<Rightarrow> nat \<Rightarrow> u64 option" where
  "list_count h head_ref = count_from h head_ref 0"

text \<open>The result of \<open>list_get\<close> is \<open>Some None\<close> for the NULL it returns when the index is absent.\<close>

partial_function (option) list_get :: "'d link_node heap \<Rightarrow> nat \<Rightarrow> u32 \<Rightarrow> 'd option option" where
  "list_get h current idx =
     (if current = 0 then Some None
      else case load h current of
             None \<Rightarrow> None
           | Some c \<Rightarrow> if fst (content c) = idx then Some (Some (snd (content c)))
                       else list_get h (link c) idx)"

section \<open>Queues: \<open>LinkQueue\<close> and \<open>audio_queue_t\<close>\<close>

record LinkQueue =
  front :: nat
  rear :: nat

definition queue_new :: LinkQueue where
  "queue_new = \<lparr> front = 0, rear = 0 \<rparr>"

definition queue_push ::
  "'v \<Rightarrow> 'v heap \<times> LinkQueue \<Rightarrow> ('v heap \<times> LinkQueue) option" where
  "queue_push v hq = (case hq of (h, q) \<Rightarrow>
     let (node, h) = alloc \<lparr> content = v, link = 0 \<rparr> h
     in if rear q = 0 then Some (h, \<lparr> front = node, rear = node \<rparr>)
        else do { h \<leftarrow> set_link (rear q) node h; Some (h, q \<lparr> rear := node \<rparr>) })"

text \<open>\<open>queue_pop\<close> returns the node, which its callers read and free.\<close>

definition queue_pop :: "'v heap \<times> LinkQueue \<Rightarrow> (nat \<times> 'v heap \<times> LinkQueue) option" where
  "queue_pop hq = (case hq of (h, q) \<Rightarrow>
     if front q = 0 then Some (0, h, q)
     else do {
       c \<leftarrow> load h (front q);
       let node = front q;
       let q = q \<lparr> front := link c \<rparr>;
       Some (node, h, if front q = 0 then q \<lparr> rear := 0 \<rparr> else q)
     })"

definition queue_take :: "'v heap \<times> LinkQueue \<Rightarrow> ('v option \<times> 'v heap \<times> LinkQueue) option" where
  "queue_take hq = do {
     (node, h, q) \<leftarrow> queue_pop hq;
     if node = 0 then Some (None, h, q)
     else do {
       c \<leftarrow> load h node;
       h \<leftarrow> release node h;
       Some (Some (content c), h, q)
     }
   }"

definition queue_free :: "'v heap \<times> LinkQueue \<Rightarrow> 'v heap option" where
  "queue_free hq = (case hq of (h, q) \<Rightarrow> free_nodes h (front q))"

text \<open>
  The work queue of the audio threads. A push that finds no memory drops the work. The blocking
  pop waits while the queue is empty and its thread is to run: then it has no step to make, which
  is the result \<open>Wait\<close>.
\<close>

definition audio_queue_push ::
  "bool \<Rightarrow> 'v \<Rightarrow> 'v heap \<times> LinkQueue \<Rightarrow> ('v heap \<times> LinkQueue) option" where
  "audio_queue_push memory work hq =
     (if \<not> memory then Some hq
      else case hq of (h, q) \<Rightarrow>
        let (node, h) = alloc \<lparr> content = work, link = 0 \<rparr> h
        in if rear q = 0 then Some (h, \<lparr> front = node, rear = node \<rparr>)
           else do { h \<leftarrow> set_link (rear q) node h; Some (h, q \<lparr> rear := node \<rparr>) })"

datatype 'v popped = Wait | Shutdown | Work 'v

definition audio_queue_pop_nonblocking ::
  "'v heap \<times> LinkQueue \<Rightarrow> ('v option \<times> 'v heap \<times> LinkQueue) option" where
  "audio_queue_pop_nonblocking hq = (case hq of (h, q) \<Rightarrow>
     if front q = 0 then Some (None, h, q)
     else do {
       let node = front q;
       c \<leftarrow> load h node;
       let q = q \<lparr> front := link c \<rparr>;
       let q = (if front q = 0 then q \<lparr> rear := 0 \<rparr> else q);
       h \<leftarrow> release node h;
       Some (Some (content c), h, q)
     })"

definition audio_queue_pop ::
  "bool \<Rightarrow> 'v heap \<times> LinkQueue \<Rightarrow> ('v popped \<times> 'v heap \<times> LinkQueue) option" where
  "audio_queue_pop running_flag hq = (case hq of (h, q) \<Rightarrow>
     if front q = 0 \<and> running_flag then Some (Wait, h, q)
     else if \<not> running_flag \<and> front q = 0 then Some (Shutdown, h, q)
     else do {
       let node = front q;
       c \<leftarrow> load h node;
       let q = q \<lparr> front := link c \<rparr>;
       let q = (if front q = 0 then q \<lparr> rear := 0 \<rparr> else q);
       h \<leftarrow> release node h;
       Some (Work (content c), h, q)
     })"

definition audio_queue_cleanup :: "'v heap \<times> LinkQueue \<Rightarrow> ('v heap \<times> LinkQueue) option" where
  "audio_queue_cleanup hq = (case hq of (h, q) \<Rightarrow>
     map_option (\<lambda>h. (h, \<lparr> front = 0, rear = 0 \<rparr>)) (free_nodes h (front q)))"

section \<open>Abstraction\<close>

fun path :: "('v heap) \<Rightarrow> nat \<Rightarrow> nat list \<Rightarrow> nat \<Rightarrow> bool" where
  "path h p [] q \<longleftrightarrow> p = q"
| "path h p (a # as) q \<longleftrightarrow>
     p = a \<and> a \<noteq> 0 \<and> (case cells h a of None \<Rightarrow> False | Some c \<Rightarrow> path h (link c) as q)"

definition contents_at :: "'v heap \<Rightarrow> nat list \<Rightarrow> 'v list" where
  "contents_at h as = map (\<lambda>a. content (the (cells h a))) as"

definition lists_at :: "'v heap \<Rightarrow> nat \<Rightarrow> nat list \<Rightarrow> 'v list \<Rightarrow> bool" where
  "lists_at h p as xs \<longleftrightarrow> heap_ok h \<and> path h p as 0 \<and> distinct as \<and> contents_at h as = xs"

lemma path_append: "path h p (as @ bs) r \<longleftrightarrow> (\<exists>q. path h p as q \<and> path h q bs r)"
  by (induction as arbitrary: p) (auto split: option.splits)

lemma path_cong: "(\<And>a. a \<in> set as \<Longrightarrow> cells h a = cells h' a) \<Longrightarrow> path h p as q \<longleftrightarrow> path h' p as q"
  by (induction as arbitrary: p) (auto split: option.splits)

lemma path_alloc: "path h p as q \<Longrightarrow> a \<in> set as \<Longrightarrow> a \<noteq> 0 \<and> cells h a \<noteq> None"
  by (induction as arbitrary: p) (auto split: option.splits)

lemma path_0: "path h p as 0 \<Longrightarrow> p = 0 \<longleftrightarrow> as = []"
  by (cases as) auto

lemma path_hd: "path h p (a # as) q \<Longrightarrow> p = a"
  by simp

lemma contents_at_simps [simp]:
  "contents_at h [] = []"
  "contents_at h (a # as) = content (the (cells h a)) # contents_at h as"
  "contents_at h (as @ bs) = contents_at h as @ contents_at h bs"
  by (simp_all add: contents_at_def)

lemma contents_at_cong:
  "(\<And>a. a \<in> set as \<Longrightarrow> cells h a = cells h' a) \<Longrightarrow> contents_at h as = contents_at h' as"
  by (simp add: contents_at_def)

lemma contents_at_Nil [simp]: "contents_at h as = [] \<longleftrightarrow> as = []"
  by (simp add: contents_at_def)

lemma length_contents_at [simp]: "length (contents_at h as) = length as"
  by (simp add: contents_at_def)

text \<open>A list elsewhere in the heap is untouched when its cells are.\<close>

lemma lists_at_frame:
  "lists_at h p as xs \<Longrightarrow> heap_ok h' \<Longrightarrow> (\<And>a. a \<in> set as \<Longrightarrow> cells h a = cells h' a) \<Longrightarrow>
   lists_at h' p as xs"
  using path_cong [of as h h' p 0] contents_at_cong [of as h h'] by (simp add: lists_at_def)

section \<open>The list operations refine lists\<close>

lemma alloc_fresh: "heap_ok h \<Longrightarrow> cells h (brk h) = None \<and> 0 < brk h"
  by (cases "cells h (brk h)") (auto simp: heap_ok_def)

lemma alloc_ok: "heap_ok h \<Longrightarrow> heap_ok (snd (alloc c h))"
  by (auto simp: heap_ok_def alloc_def less_Suc_eq split: if_splits)

lemma list_add_refines:
  assumes "lists_at h p as xs" "list_add idx data h p = (h', p')"
  shows "lists_at h' p' (p' # as) ((idx, data) # xs)" "cells h p' = None"
    "\<forall>q. q \<noteq> p' \<longrightarrow> cells h' q = cells h q"
proof -
  have h: "heap_ok h" "path h p as 0" "distinct as" "contents_at h as = xs"
    using assms(1) by (simp_all add: lists_at_def)
  have f: "cells h (brk h) = None" "0 < brk h" using alloc_fresh [OF h(1)] by simp_all
  have e: "p' = brk h"
    "h' = h \<lparr> cells := (cells h)(brk h \<mapsto> \<lparr> content = (idx, data), link = p \<rparr>), brk := Suc (brk h) \<rparr>"
    using assms(2) by (auto simp: list_add_def alloc_def)
  have n: "brk h \<notin> set as" using path_alloc [OF h(2)] f(1) by blast
  have same: "a \<in> set as \<Longrightarrow> cells h a = cells h' a" for a using n by (auto simp: e)
  have "heap_ok h'" using alloc_ok [OF h(1)] by (simp add: e alloc_def)
  then show "lists_at h' p' (p' # as) ((idx, data) # xs)"
    using h n f path_cong [of as h h' p 0] contents_at_cong [of as h h'] same
    by (simp add: lists_at_def e)
  show "cells h p' = None" "\<forall>q. q \<noteq> p' \<longrightarrow> cells h' q = cells h q" using f by (simp_all add: e)
qed

lemma list_search_none:
  "path h temp as 0 \<Longrightarrow> \<forall>x\<in>set (contents_at h as). \<not> P x \<Longrightarrow>
   list_search P h prev temp = Some (last (prev # as), 0)"
proof (induction as arbitrary: prev temp)
  case Nil
  then show ?case by (subst list_search.simps) simp
next
  case (Cons a as)
  then show ?case
    by (subst list_search.simps) (auto simp: load_def split: option.splits)
qed

lemma list_search_first:
  "path h temp (bs @ a # cs) 0 \<Longrightarrow> \<forall>x\<in>set (contents_at h bs). \<not> P x \<Longrightarrow>
   P (content (the (cells h a))) \<Longrightarrow> list_search P h prev temp = Some (last (prev # bs), a)"
proof (induction bs arbitrary: prev temp)
  case Nil
  then show ?case by (subst list_search.simps) (auto simp: load_def split: option.splits)
next
  case (Cons b bs)
  then show ?case
    by (subst list_search.simps) (auto simp: load_def split: option.splits)
qed

fun remove_first :: "('v \<Rightarrow> bool) \<Rightarrow> 'v list \<Rightarrow> 'v list" where
  "remove_first P [] = []"
| "remove_first P (x # xs) = (if P x then xs else x # remove_first P xs)"

lemma remove_first_split:
  "\<forall>x\<in>set ys. \<not> P x \<Longrightarrow> P x \<Longrightarrow> remove_first P (ys @ x # zs) = ys @ zs"
  by (induction ys) auto

lemma remove_first_none: "\<forall>x\<in>set xs. \<not> P x \<Longrightarrow> remove_first P xs = xs"
  by (induction xs) auto

text \<open>Unlinking the node behind \<open>bs\<close> from a list.\<close>

definition unlinked :: "'v heap \<Rightarrow> nat list \<Rightarrow> nat list \<Rightarrow> 'v heap \<Rightarrow> bool" where
  "unlinked h as as' h' \<longleftrightarrow>
     (\<forall>q. q \<notin> set as \<longrightarrow> cells h' q = cells h q) \<and> (\<forall>q. q \<in> set as - set as' \<longrightarrow> cells h' q = None)"

lemma unlink_cells:
  assumes L: "lists_at h p (bs @ b # a # cs) xs" and a: "cells h a = Some t" "cells h b = Some c"
  defines "h' \<equiv> h \<lparr> cells := (cells h)(b \<mapsto> c \<lparr> link := link t \<rparr>, a := None) \<rparr>"
  shows "lists_at h' p (bs @ b # cs) (contents_at h (bs @ b # cs))"
    "unlinked h (bs @ b # a # cs) (bs @ b # cs) h'"
proof -
  have d: "distinct (bs @ b # a # cs)" and ok: "heap_ok h" and P: "path h p (bs @ b # a # cs) 0"
    using L by (simp_all add: lists_at_def)
  have "path h p bs b" "path h (link t) cs 0" "b \<noteq> 0"
    using P a by (auto simp: path_append split: option.splits)
  moreover have same: "q \<in> set bs \<union> set cs \<Longrightarrow> cells h q = cells h' q" for q
    using d by (auto simp: h'_def)
  ultimately have "path h' p bs b" "path h' (link t) cs 0"
    using path_cong [of bs h h'] path_cong [of cs h h'] by simp_all
  then have "path h' p (bs @ b # cs) 0"
    using \<open>b \<noteq> 0\<close> d by (auto simp: path_append h'_def)
  moreover have "heap_ok h'" using ok a by (auto simp: heap_ok_def h'_def)
  moreover have "contents_at h' (bs @ b # cs) = contents_at h (bs @ b # cs)"
  proof -
    have "content (the (cells h' q)) = content (the (cells h q))" if "q \<in> set (bs @ b # cs)" for q
      using that d a by (auto simp: h'_def)
    then show ?thesis by (simp add: contents_at_def)
  qed
  ultimately show "lists_at h' p (bs @ b # cs) (contents_at h (bs @ b # cs))"
    using d by (simp add: lists_at_def)
  show "unlinked h (bs @ b # a # cs) (bs @ b # cs) h'"
    using d by (auto simp: unlinked_def h'_def)
qed

lemma unlink_head:
  assumes L: "lists_at h p (a # cs) xs" and a: "cells h a = Some t"
  defines "h' \<equiv> h \<lparr> cells := (cells h)(a := None) \<rparr>"
  shows "lists_at h' (link t) cs (contents_at h cs)" "unlinked h (a # cs) cs h'"
proof -
  have d: "distinct (a # cs)" and ok: "heap_ok h" and P: "path h (link t) cs 0"
    using L a by (simp_all add: lists_at_def)
  have same: "q \<in> set cs \<Longrightarrow> cells h q = cells h' q" for q using d by (auto simp: h'_def)
  have "heap_ok h'" using ok by (auto simp: heap_ok_def h'_def)
  then show "lists_at h' (link t) cs (contents_at h cs)"
    using d P path_cong [of cs h h'] contents_at_cong [of cs h h'] same by (simp add: lists_at_def)
  show "unlinked h (a # cs) cs h'" using d by (auto simp: unlinked_def h'_def)
qed

lemma list_unlink_refines:
  assumes L: "lists_at h p as xs"
  shows "\<exists>h' p' as'. list_unlink P h p = Some (h', p') \<and> lists_at h' p' as' (remove_first P xs) \<and>
    set as' \<subseteq> set as \<and> unlinked h as as' h'"
proof (cases "\<exists>a\<in>set as. P (content (the (cells h a)))")
  case False
  then have none: "\<forall>x\<in>set (contents_at h as). \<not> P x" by (auto simp: contents_at_def)
  have x: "xs = contents_at h as" and path: "path h p as 0" using L by (simp_all add: lists_at_def)
  have "list_unlink P h p = Some (h, p)"
  proof (cases as)
    case Nil
    then show ?thesis using path by (simp add: list_unlink_def)
  next
    case (Cons a bs)
    then obtain c where "cells h a = Some c" "p = a" "a \<noteq> 0"
      using path by (auto split: option.splits)
    then show ?thesis
      using none Cons list_search_none [OF path none, of 0]
      by (auto simp: list_unlink_def load_def)
  qed
  then show ?thesis using L remove_first_none [OF none] x by (auto simp: unlinked_def)
next
  case True
  then obtain bs a cs where as: "as = bs @ a # cs" and pa: "P (content (the (cells h a)))"
    and none: "\<forall>b\<in>set bs. \<not> P (content (the (cells h b)))"
    using split_list_first_prop [of as "\<lambda>a. P (content (the (cells h a)))"] by blast
  have path: "path h p as 0" and x: "xs = contents_at h as" using L by (simp_all add: lists_at_def)
  obtain t where t: "cells h a = Some t" "a \<noteq> 0" using path_alloc [OF path, of a] as by auto
  have none': "\<forall>x\<in>set (contents_at h bs). \<not> P x" using none by (auto simp: contents_at_def)
  have r: "remove_first P xs = contents_at h (bs @ cs)"
    using remove_first_split [OF none' pa] by (simp add: x as)
  show ?thesis
  proof (cases bs rule: rev_cases)
    case Nil
    then have "p = a" using path as by simp
    then have "list_unlink P h p = Some (h \<lparr> cells := (cells h)(a := None) \<rparr>, link t)"
      using t pa by (simp add: list_unlink_def load_def release_def)
    then show ?thesis
      using unlink_head [of h p a cs xs t] L as Nil t r by auto
  next
    case (snoc ds b)
    have Lb: "lists_at h p (ds @ b # a # cs) xs" using L as snoc by simp
    obtain c where c: "cells h b = Some c" using path_alloc [OF path, of b] as snoc by auto
    have "b \<noteq> a" using Lb by (simp add: lists_at_def)
    have "bs \<noteq> []" using snoc by simp
    then obtain e es where e: "bs = e # es" by (auto simp: neq_Nil_conv)
    obtain f where f: "cells h p = Some f" "p = e" "p \<noteq> 0"
      using path as e by (auto split: option.splits)
    then have "\<not> P (content f)" using none e by force
    moreover have "list_search P h 0 p = Some (b, a)"
      using list_search_first [of h p bs a cs P 0] path as none' pa snoc by simp
    ultimately have "list_unlink P h p =
        Some (h \<lparr> cells := (cells h)(b \<mapsto> c \<lparr> link := link t \<rparr>, a := None) \<rparr>, p)"
      using f t c \<open>b \<noteq> a\<close> by (simp add: list_unlink_def load_def set_link_def release_def)
    then show ?thesis
      using unlink_cells [OF Lb t(1) c] as snoc r by auto
  qed
qed

lemma free_nodes_all:
  assumes "lists_at h p as xs"
  shows "\<exists>h'. free_nodes h p = Some h' \<and> heap_ok h' \<and> unlinked h as [] h'"
  using assms
proof (induction as arbitrary: h p xs)
  case Nil
  then show ?case by (subst free_nodes.simps) (simp add: lists_at_def unlinked_def)
next
  case (Cons a as)
  then obtain t where t: "cells h a = Some t" "p = a" "a \<noteq> 0"
    by (auto simp: lists_at_def split: option.splits)
  let ?h = "h \<lparr> cells := (cells h)(a := None) \<rparr>"
  have L: "lists_at ?h (link t) as (contents_at h as)" and U: "unlinked h (a # as) as ?h"
    using unlink_head Cons.prems t by blast+
  obtain h' where "free_nodes ?h (link t) = Some h'" "heap_ok h'" "unlinked ?h as [] h'"
    using Cons.IH [OF L] by blast
  moreover have "unlinked h (a # as) [] h'"
    using \<open>unlinked ?h as [] h'\<close> Cons.prems by (auto simp: unlinked_def lists_at_def)
  ultimately show ?case
    using t by (subst free_nodes.simps) (simp add: load_def release_def)
qed

lemma list_clear_refines:
  "lists_at h p as xs \<Longrightarrow>
   \<exists>h'. list_clear h p = Some (h', 0) \<and> lists_at h' 0 [] [] \<and> unlinked h as [] h'"
  using free_nodes_all [of h p as xs] by (auto simp: list_clear_def lists_at_def)

lemma count_from_path: "path h p as 0 \<Longrightarrow> count_from h p n = Some (n + of_nat (length as))"
proof (induction as arbitrary: p n)
  case Nil
  then show ?case by (subst count_from.simps) simp
next
  case (Cons a as)
  then show ?case
    by (subst count_from.simps) (auto simp: load_def ac_simps split: option.splits)
qed

lemma list_count_refines: "lists_at h p as xs \<Longrightarrow> list_count h p = Some (of_nat (length xs))"
  using count_from_path [of h p as 0] by (auto simp: list_count_def lists_at_def)

lemma list_get_refines: "lists_at h p as xs \<Longrightarrow> list_get h p idx = Some (map_of xs idx)"
proof -
  have "path h p as 0 \<Longrightarrow> list_get h p idx = Some (map_of (contents_at h as) idx)"
  proof (induction as arbitrary: p)
    case Nil
    then show ?case by (subst list_get.simps) simp
  next
    case (Cons a as)
    then show ?case
      by (subst list_get.simps) (auto simp: load_def split: option.splits)
  qed
  then show "lists_at h p as xs \<Longrightarrow> ?thesis" by (auto simp: lists_at_def)
qed

section \<open>The queues refine lists\<close>

definition queue_at :: "'v heap \<Rightarrow> LinkQueue \<Rightarrow> nat list \<Rightarrow> 'v list \<Rightarrow> bool" where
  "queue_at h q as xs \<longleftrightarrow>
     lists_at h (front q) as xs \<and> rear q = (if as = [] then 0 else last as)"

lemma queue_push_refines:
  assumes "queue_at h q as xs"
  shows "\<exists>h' q' a. queue_push v (h, q) = Some (h', q') \<and> queue_at h' q' (as @ [a]) (xs @ [v]) \<and>
    cells h a = None \<and> (\<forall>p. p \<noteq> a \<and> p \<notin> set as \<longrightarrow> cells h' p = cells h p)"
proof -
  have h: "heap_ok h" "path h (front q) as 0" "distinct as" "contents_at h as = xs"
    using assms by (simp_all add: queue_at_def lists_at_def)
  let ?a = "brk h"
  let ?n = "\<lparr> content = v, link = 0 \<rparr>"
  have f: "cells h ?a = None" "0 < ?a" using alloc_fresh [OF h(1)] by simp_all
  have n: "?a \<notin> set as" using path_alloc [OF h(2)] f(1) by blast
  show ?thesis
  proof (cases as rule: rev_cases)
    case Nil
    let ?h = "h \<lparr> cells := (cells h)(?a \<mapsto> ?n), brk := Suc ?a \<rparr>"
    have "queue_push v (h, q) = Some (?h, \<lparr> front = ?a, rear = ?a \<rparr>)"
      using assms Nil by (simp add: queue_push_def alloc_def queue_at_def)
    moreover have "queue_at ?h \<lparr> front = ?a, rear = ?a \<rparr> [?a] [v]"
      using alloc_ok [OF h(1), of ?n] f by (simp add: queue_at_def lists_at_def alloc_def)
    ultimately show ?thesis using Nil h f by auto
  next
    case (snoc bs b)
    obtain c where c: "cells h b = Some c" "b \<noteq> 0" using path_alloc [OF h(2), of b] snoc by auto
    have r: "rear q = b" using assms snoc by (simp add: queue_at_def)
    let ?h = "h \<lparr> cells := (cells h)(?a \<mapsto> ?n, b \<mapsto> c \<lparr> link := ?a \<rparr>), brk := Suc ?a \<rparr>"
    have ab: "?a \<noteq> b" using n snoc by auto
    have "queue_push v (h, q) = Some (?h, q \<lparr> rear := ?a \<rparr>)"
      using c r ab by (simp add: queue_push_def alloc_def set_link_def)
    moreover have "queue_at ?h (q \<lparr> rear := ?a \<rparr>) (as @ [?a]) (xs @ [v])"
    proof -
      have hk: "heap_ok ?h" using h(1) c by (auto simp: heap_ok_def less_Suc_eq)
      have "path h (front q) bs b" using h(2) snoc by (auto simp: path_append)
      moreover have "cells h p = cells ?h p" if "p \<in> set bs" for p
        using that h(3) n snoc by auto
      ultimately have "path ?h (front q) bs b" using path_cong [of bs h ?h "front q" b] by blast
      then have "path ?h (front q) (as @ [?a]) 0"
        using snoc c ab f by (auto simp: path_append)
      moreover have "content (the (cells ?h p)) = content (the (cells h p))" if "p \<in> set as" for p
        using that n c by auto
      then have "contents_at ?h as = contents_at h as"
        unfolding contents_at_def by (intro map_cong refl) blast
      then have "contents_at ?h (as @ [?a]) = xs @ [v]" using h(4) ab by simp
      ultimately show ?thesis using h(3) n hk by (simp add: queue_at_def lists_at_def)
    qed
    ultimately show ?thesis using f ab snoc by auto
  qed
qed

lemma queue_pop_refines:
  assumes "queue_at h q (a # as) (x # xs)"
  shows "\<exists>q' c. queue_pop (h, q) = Some (a, h, q') \<and> a \<noteq> 0 \<and> cells h a = Some c \<and> content c = x \<and>
    queue_at (h \<lparr> cells := (cells h)(a := None) \<rparr>) q' as xs"
proof -
  obtain c where c: "cells h a = Some c" "front q = a" "a \<noteq> 0"
    using assms by (auto simp: queue_at_def lists_at_def split: option.splits)
  let ?q = "if link c = 0 then q \<lparr> front := link c, rear := 0 \<rparr> else q \<lparr> front := link c \<rparr>"
  have p: "queue_pop (h, q) = Some (a, h, ?q)"
    using c by (simp add: queue_pop_def load_def Let_def)
  have L: "lists_at h a (a # as) (x # xs)" using assms c(2) by (simp add: queue_at_def)
  have "lists_at (h \<lparr> cells := (cells h)(a := None) \<rparr>) (link c) as xs"
    using unlink_head(1) [OF L c(1)] L by (simp add: lists_at_def)
  moreover have "link c = 0 \<longleftrightarrow> as = []"
    using L c path_0 [of h "link c" as] by (simp add: lists_at_def)
  moreover have "rear q = last (a # as)" using assms by (simp add: queue_at_def)
  ultimately have "queue_at (h \<lparr> cells := (cells h)(a := None) \<rparr>) ?q as xs"
    by (cases "as = []") (simp_all add: queue_at_def)
  moreover have "content c = x" using L c by (simp add: lists_at_def)
  ultimately show ?thesis using p c by blast
qed

lemma audio_queue_push_eq: "audio_queue_push True work hq = queue_push work hq"
  by (simp add: audio_queue_push_def queue_push_def)

lemma queue_take_refines:
  assumes "queue_at h q (a # as) (x # xs)"
  shows "\<exists>h' q'. queue_take (h, q) = Some (Some x, h', q') \<and> queue_at h' q' as xs \<and>
    h' = h \<lparr> cells := (cells h)(a := None) \<rparr>"
  using queue_pop_refines [OF assms] by (auto simp: queue_take_def load_def release_def)

lemma queue_at_Nil: "queue_at h q as [] \<longleftrightarrow> as = [] \<and> heap_ok h \<and> front q = 0 \<and> rear q = 0"
  by (auto simp: queue_at_def lists_at_def)

lemma queue_at_0: "queue_at h q as xs \<Longrightarrow> front q = 0 \<longleftrightarrow> xs = []"
  using path_0 [of h "front q" as] by (auto simp: queue_at_def lists_at_def)

lemma queue_at_Cons: "queue_at h q as (x # xs) \<Longrightarrow> \<exists>b bs. as = b # bs"
  by (cases as) (auto simp: queue_at_def lists_at_def)

lemma queue_take_Nil:
  "queue_at h q as [] \<Longrightarrow> queue_take (h, q) = Some (None, h, q)"
  by (simp add: queue_at_Nil queue_take_def queue_pop_def)

lemma audio_queue_pop_nonblocking_eq: "audio_queue_pop_nonblocking hq = queue_take hq" if "heap_ok (fst hq)"
proof (cases hq)
  case (Pair h q)
  have "cells h 0 = None" using that Pair by (cases "cells h 0") (auto simp: heap_ok_def)
  then show ?thesis
    using Pair
    by (cases "cells h (front q)")
      (auto simp: audio_queue_pop_nonblocking_def queue_take_def queue_pop_def load_def Let_def)
qed

lemma audio_queue_pop_eq:
  "audio_queue_pop running hq =
     map_option (\<lambda>(r, hq). (case r of Some v \<Rightarrow> Work v
       | None \<Rightarrow> if running then Wait else Shutdown, hq)) (audio_queue_pop_nonblocking hq)"
  by (auto simp: audio_queue_pop_def audio_queue_pop_nonblocking_def load_def release_def Let_def
      split: prod.split option.splits)

text \<open>Both queues are FIFO queues; a state is a heap with the two pointers.\<close>

definition queue_ok :: "'v heap \<times> LinkQueue \<Rightarrow> bool" where
  "queue_ok hq \<longleftrightarrow> (\<exists>as xs. queue_at (fst hq) (snd hq) as xs)"

definition queue_abs :: "'v heap \<times> LinkQueue \<Rightarrow> 'v list" where
  "queue_abs hq = (THE xs. \<exists>as. queue_at (fst hq) (snd hq) as xs)"

lemma path_unique: "path h p as 0 \<Longrightarrow> path h p bs 0 \<Longrightarrow> as = bs"
proof (induction as arbitrary: p bs)
  case Nil
  then show ?case by (cases bs) auto
next
  case (Cons a as)
  then show ?case by (cases bs) (auto split: option.splits)
qed

lemma queue_abs_eq: "queue_at h q as xs \<Longrightarrow> queue_abs (h, q) = xs"
proof -
  have same: "queue_at h q as xs \<Longrightarrow> queue_at h q bs ys \<Longrightarrow> ys = xs" for bs ys
    using path_unique [of h "front q" as bs] by (simp add: queue_at_def lists_at_def)
  then show "queue_at h q as xs \<Longrightarrow> queue_abs (h, q) = xs"
    unfolding queue_abs_def fst_conv snd_conv by (intro the_equality) blast+
qed

lemma queue_okI: "queue_at h q as xs \<Longrightarrow> queue_ok (h, q)"
  by (auto simp: queue_ok_def)

lemma queue_okE:
  assumes "queue_ok hq"
  obtains h q as where "hq = (h, q)" "queue_at h q as (queue_abs hq)"
proof -
  from assms obtain as xs where "queue_at (fst hq) (snd hq) as xs" by (auto simp: queue_ok_def)
  moreover from this have "queue_abs hq = xs" using queue_abs_eq by (metis prod.collapse)
  ultimately show thesis using that [of "fst hq" "snd hq" as] by simp
qed

lemma queue_ok_nonblocking: "queue_ok s \<Longrightarrow> audio_queue_pop_nonblocking s = queue_take s"
  by (rule audio_queue_pop_nonblocking_eq) (auto simp: queue_ok_def queue_at_def lists_at_def)

interpretation messages: fifo queue_ok queue_abs queue_push queue_take
proof (unfold_locales, goal_cases)
  case (1 s x)
  then obtain h q as where s: "s = (h, q)" "queue_at h q as (queue_abs s)" by (rule queue_okE)
  from queue_push_refines [OF s(2), of x] obtain h' q' a where
    "queue_push x (h, q) = Some (h', q')" "queue_at h' q' (as @ [a]) (queue_abs s @ [x])" by blast
  then show ?case using s(1) queue_abs_eq queue_okI by blast
next
  case (2 s)
  from 2(1) obtain h q as where s: "s = (h, q)" "queue_at h q as (queue_abs s)" by (rule queue_okE)
  then show ?case using 2 queue_take_Nil [of h q as] by auto
next
  case (3 s x qs)
  from 3(1) obtain h q as where s: "s = (h, q)" "queue_at h q as (queue_abs s)" by (rule queue_okE)
  then obtain b bs where b: "as = b # bs" using 3(2) queue_at_Cons by metis
  from queue_take_refines [of h q b bs x qs] s b 3(2) obtain h' q' where
    "queue_take (h, q) = Some (Some x, h', q')" "queue_at h' q' bs qs" by auto
  then show ?case using s(1) queue_abs_eq queue_okI by blast
qed

interpretation works: fifo queue_ok queue_abs "audio_queue_push True" audio_queue_pop_nonblocking
proof (unfold_locales, goal_cases)
  case (1 s x)
  then show ?case using messages.enq_law by (simp add: audio_queue_push_eq)
next
  case (2 s)
  then show ?case using messages.deq_empty queue_ok_nonblocking by metis
next
  case (3 s x q)
  then show ?case using messages.deq_front queue_ok_nonblocking by metis
qed

section \<open>Properties\<close>

text \<open>
  \<open>list_remove\<close> on a well-formed list returns (its loop ends and it touches no freed node),
  removes exactly the first entry with the index, keeps the others in order, frees exactly the
  nodes that left the list and changes no cell outside it, so that \<open>list_get\<close> on the result finds
  what the shorter list has.
\<close>

theorem list_remove_correct:
  assumes "lists_at h p as xs"
  shows "\<exists>h' p' as'. list_remove idx h p = Some (h', p') \<and>
    lists_at h' p' as' (remove_first (\<lambda>(i, _). i = idx) xs) \<and>
    (\<forall>q. q \<notin> set as \<longrightarrow> cells h' q = cells h q) \<and> (\<forall>q\<in>set as - set as'. cells h' q = None) \<and>
    list_get h' p' k = Some (map_of (remove_first (\<lambda>(i, _). i = idx) xs) k) \<and>
    list_count h' p' = Some (of_nat (length (remove_first (\<lambda>(i, _). i = idx) xs)))"
proof -
  obtain h' p' as' where r: "list_remove idx h p = Some (h', p')"
      "lists_at h' p' as' (remove_first (\<lambda>(i, _). i = idx) xs)" "unlinked h as as' h'"
    using list_unlink_refines [OF assms, of "\<lambda>(i, _). i = idx"] by (auto simp: list_remove_def)
  show ?thesis
    using r(1,2) list_get_refines [OF r(2)] list_count_refines [OF r(2)] r(3) unfolding unlinked_def
    by blast
qed

definition heap3 :: "nat link_node heap" where
  "heap3 = \<lparr> cells = [1 \<mapsto> \<lparr> content = (7, 70), link = 0 \<rparr>, 2 \<mapsto> \<lparr> content = (8, 80), link = 1 \<rparr>,
     3 \<mapsto> \<lparr> content = (7, 90), link = 2 \<rparr>], brk = 4 \<rparr>"

lemma heap3_lists: "lists_at heap3 3 [3, 2, 1] [(7, 90), (8, 80), (7, 70)]"
  by (auto simp: lists_at_def heap_ok_def heap3_def split: if_splits)

lemma list_remove_correct_witness:
  "\<exists>h' p' as'. list_remove 8 heap3 3 = Some (h', p') \<and> lists_at h' p' as' [(7, 90), (7, 70)] \<and>
    list_get h' p' 7 = Some (Some 90)"
  using list_remove_correct [OF heap3_lists, of 8 7] by fastforce

text \<open>
  C20. The message queue of the threads is a FIFO queue: any sequence of \<open>queue_push\<close> and of pops
  by its readers (\<open>queue_pop\<close> and then freeing the node) runs without touching freed or NULL
  memory, and the pops return what the same sequence on an abstract list returns.
\<close>

theorem queue_is_fifo:
  assumes "queue_at h q as xs"
  shows "\<exists>h' q' as'. run_queue queue_push queue_take ops (h, q) =
      Some (fst (spec_queue ops xs), h', q') \<and> queue_at h' q' as' (snd (spec_queue ops xs))"
proof -
  obtain s' where s': "run_queue queue_push queue_take ops (h, q) = Some (fst (spec_queue ops xs), s')"
      "queue_ok s'" "queue_abs s' = snd (spec_queue ops xs)"
    using messages.run_queue_refines [OF queue_okI [OF assms], of ops] queue_abs_eq [OF assms] by auto
  from s'(2) obtain h' q' as' where "s' = (h', q')" "queue_at h' q' as' (queue_abs s')"
    by (rule queue_okE)
  with s' show ?thesis by auto
qed

lemma queue_is_fifo_witness:
  "\<exists>h' q' as'. run_queue queue_push queue_take [Enq 5, Deq, Deq, Enq 6, Enq 7, Deq]
      (\<lparr> cells = (\<lambda>_. None), brk = 1 \<rparr> :: nat heap, queue_new) =
      Some ([Some 5, None, Some 6], h', q') \<and> queue_at h' q' as' [7]"
  using queue_is_fifo [of "\<lparr> cells = (\<lambda>_. None), brk = 1 \<rparr> :: nat heap" queue_new "[]" "[]"
      "[Enq 5, Deq, Deq, Enq 6, Enq 7, Deq]"]
  by (simp add: queue_at_Nil queue_new_def heap_ok_def)

end
