(* ===== verification/Ocb.thy ===== *)
theory Ocb
  imports Prelude
begin

text \<open>
  The authenticated encryption of \<open>mumble/ocb.c\<close> (OCB over AES-128, with the counter-measure of
  section 9 of eprint 2019/311). A \<open>keyblock\<close> is the pair of the two 64-bit subblocks as the code
  loads them from memory on a little endian 64-bit machine. The block cipher is OpenSSL's: \<open>E\<close> and
  \<open>D\<close> are parameters, one AES call under the raw key each; what the theorems use of it is
  that \<open>D\<close> inverts \<open>E\<close>.
\<close>

section \<open>Blocks\<close>

type_synonym keyblock = "u64 \<times> u64"

definition load_block :: "u8 list \<Rightarrow> keyblock" where
  "load_block bs = (from_le (take 8 bs), from_le (take 8 (drop 8 bs)))"

definition store_block :: "keyblock \<Rightarrow> u8 list" where
  "store_block b = le_bytes 8 (fst b) @ le_bytes 8 (snd b)"

definition SWAPPED :: "u64 \<Rightarrow> u64" where
  "SWAPPED x = from_le (rev (le_bytes 8 x))"

definition XOR_block :: "keyblock \<Rightarrow> keyblock \<Rightarrow> keyblock" where
  "XOR_block a b = (fst a XOR fst b, snd a XOR snd b)"

definition S2 :: "keyblock \<Rightarrow> keyblock" where
  "S2 block =
     (let carry = drop_bit 63 (SWAPPED (fst block))
      in (SWAPPED (push_bit 1 (SWAPPED (fst block)) OR drop_bit 63 (SWAPPED (snd block))),
          SWAPPED (push_bit 1 (SWAPPED (snd block)) XOR (carry * 0x87))))"

definition S3 :: "keyblock \<Rightarrow> keyblock" where
  "S3 block =
     (let carry = drop_bit 63 (SWAPPED (fst block))
      in (fst block XOR
            SWAPPED (push_bit 1 (SWAPPED (fst block)) OR drop_bit 63 (SWAPPED (snd block))),
          snd block XOR SWAPPED (push_bit 1 (SWAPPED (snd block)) XOR (carry * 0x87))))"

definition ZERO :: keyblock where
  "ZERO = (0, 0)"

text \<open>\<open>*(subblock*) block ^= 1\<close>\<close>

definition flip_first :: "keyblock \<Rightarrow> keyblock" where
  "flip_first b = (fst b XOR 1, snd b)"

section \<open>Encryption and decryption\<close>

text \<open>
  The loops consume the input sixteen bytes at a time while more than sixteen are left. They
  return what is left of the input, the output written, \<open>delta\<close>, the checksum and \<open>success\<close>.
\<close>

definition xex_star_block :: "u8 list \<Rightarrow> bool" where
  "xex_star_block plain \<longleftrightarrow> length plain - 16 \<le> 16 \<and> foldl (OR) 0 (take 15 plain) = (0::u8)"

function (sequential) ocb_encrypt_blocks ::
  "(keyblock \<Rightarrow> keyblock) \<Rightarrow> bool \<Rightarrow> u8 list \<Rightarrow> keyblock \<Rightarrow> keyblock \<Rightarrow> bool \<Rightarrow>
   u8 list \<times> u8 list \<times> keyblock \<times> keyblock \<times> bool" where
  "ocb_encrypt_blocks E modify plain delta checksum success =
     (if length plain > 16 then
        let attack = xex_star_block plain;
            flipABit = (attack \<and> modify);
            success = (if attack \<and> \<not> modify then False else success);
            delta = S2 delta;
            tmp = XOR_block delta (load_block plain);
            tmp = (if flipABit then flip_first tmp else tmp);
            tmp = E tmp;
            encrypted = store_block (XOR_block delta tmp);
            checksum = XOR_block checksum (load_block plain);
            checksum = (if flipABit then flip_first checksum else checksum);
            (plain', rest, delta', checksum', success') =
              ocb_encrypt_blocks E modify (drop 16 plain) delta checksum success
        in (plain', encrypted @ rest, delta', checksum', success')
      else (plain, [], delta, checksum, success))"
  by pat_completeness auto
termination
  by (relation "measure (\<lambda>(E, m, plain, d, c, s). length plain)") auto

definition crypt_ocb_encrypt ::
  "(keyblock \<Rightarrow> keyblock) \<Rightarrow> u8 list \<Rightarrow> u8 list \<Rightarrow> bool \<Rightarrow> bool \<times> u8 list \<times> u8 list" where
  "crypt_ocb_encrypt E plain nonce modifyPlainOnXEXStarAttack =
     (let delta = E (load_block nonce);
          (plain, encrypted, delta, checksum, success) =
            ocb_encrypt_blocks E modifyPlainOnXEXStarAttack plain delta ZERO True;
          len = length plain;
          delta = S2 delta;
          tmp = (0, SWAPPED (of_nat len * 8));
          tmp = XOR_block tmp delta;
          pad = E tmp;
          tmp = load_block (plain @ drop len (store_block pad));
          checksum = XOR_block checksum tmp;
          tmp = XOR_block pad tmp;
          encrypted = encrypted @ take len (store_block tmp);
          delta = S3 delta;
          tmp = XOR_block delta checksum;
          tag = store_block (E tmp)
      in (success, encrypted, tag))"

function (sequential) ocb_decrypt_blocks ::
  "(keyblock \<Rightarrow> keyblock) \<Rightarrow> u8 list \<Rightarrow> keyblock \<Rightarrow> keyblock \<Rightarrow>
   u8 list \<times> u8 list \<times> keyblock \<times> keyblock" where
  "ocb_decrypt_blocks D encrypted delta checksum =
     (if length encrypted > 16 then
        let delta = S2 delta;
            tmp = XOR_block delta (load_block encrypted);
            tmp = D tmp;
            plain = XOR_block delta tmp;
            checksum = XOR_block checksum plain;
            (encrypted', rest, delta', checksum') =
              ocb_decrypt_blocks D (drop 16 encrypted) delta checksum
        in (encrypted', store_block plain @ rest, delta', checksum')
      else (encrypted, [], delta, checksum))"
  by pat_completeness auto
termination
  by (relation "measure (\<lambda>(D, enc, d, c). length enc)") auto

definition crypt_ocb_decrypt ::
  "(keyblock \<Rightarrow> keyblock) \<Rightarrow> (keyblock \<Rightarrow> keyblock) \<Rightarrow> u8 list \<Rightarrow> u8 list \<Rightarrow>
   bool \<times> u8 list \<times> u8 list" where
  "crypt_ocb_decrypt E D encrypted nonce =
     (let delta = E (load_block nonce);
          (encrypted, plain, delta, checksum) = ocb_decrypt_blocks D encrypted delta ZERO;
          len = length encrypted;
          delta = S2 delta;
          tmp = (0, SWAPPED (of_nat len * 8));
          tmp = XOR_block tmp delta;
          pad = E tmp;
          tmp = load_block (encrypted @ replicate (16 - len) 0);
          tmp = XOR_block tmp pad;
          checksum = XOR_block checksum tmp;
          plain = plain @ take len (store_block tmp);
          success = (take 15 (store_block tmp) \<noteq> take 15 (store_block delta));
          delta = S3 delta;
          tmp = XOR_block delta checksum;
          tag = store_block (E tmp)
      in (success, plain, tag))"

declare ocb_encrypt_blocks.simps [simp del] ocb_decrypt_blocks.simps [simp del]

section \<open>Facts on blocks\<close>

lemma length_store_block [simp]: "length (store_block b) = 16"
  by (simp add: store_block_def)

lemma load_store_block [simp]: "load_block (store_block b @ xs) = b"
  by (cases b) (simp add: load_block_def store_block_def from_le_le_bytes take_bit_all64)

lemma store_load_block: "length bs = 16 \<Longrightarrow> store_block (load_block bs) = bs"
  using le_bytes_from_le [of "take 8 bs", where 'a=64] le_bytes_from_le [of "drop 8 bs", where 'a=64]
  by (simp add: load_block_def store_block_def)

lemma SWAPPED_SWAPPED [simp]: "SWAPPED (SWAPPED x) = x"
  using le_bytes_from_le [of "rev (le_bytes 8 x)", where 'a=64]
  by (simp add: SWAPPED_def from_le_le_bytes take_bit_all64)

lemma XOR_block_simps [simp]:
  "XOR_block a (XOR_block a b) = b" "XOR_block ZERO a = a" "XOR_block a a = ZERO"
  by (simp_all add: XOR_block_def ZERO_def prod_eq_iff)

lemma XOR_block_ac:
  "XOR_block a b = XOR_block b a"
  "XOR_block (XOR_block a b) c = XOR_block a (XOR_block b c)"
  by (simp_all add: XOR_block_def ac_simps)

lemma flip_first_XOR: "flip_first (XOR_block a b) = XOR_block a (flip_first b)"
  by (simp add: flip_first_def XOR_block_def ac_simps)

text \<open>Bytes of a XOR are the XORs of the bytes.\<close>

lemma le_bytes_XOR: "le_bytes n (a XOR b) = map2 (XOR) (le_bytes n a) (le_bytes n (b :: 'a::len word))"
proof (induction n arbitrary: a b)
  case (Suc n)
  have "(ucast (a XOR b) :: u8) = ucast a XOR ucast b"
    by (rule bit_word_eqI) (auto simp: bit_simps)
  moreover have "drop_bit 8 (a XOR b) = drop_bit 8 a XOR drop_bit 8 b"
    by (rule bit_word_eqI) (auto simp: bit_simps)
  ultimately show ?case using Suc by simp
qed simp

lemma from_le_XOR:
  "length as = length bs \<Longrightarrow>
   (from_le (map2 (XOR) as bs) :: 'a::len word) = from_le as XOR from_le bs"
proof (induction as bs rule: list_induct2)
  case (Cons a as b bs)
  let ?x = "from_le as :: 'a word" and ?y = "from_le bs :: 'a word"
  have "(ucast (a XOR b) OR push_bit 8 (?x XOR ?y) :: 'a word) =
      (ucast a OR push_bit 8 ?x) XOR (ucast b OR push_bit 8 ?y)"
    by (rule bit_word_eqI) (auto simp: bit_simps dest: bit_imp_le_length)
  with Cons show ?case by simp
qed simp

lemma store_XOR: "store_block (XOR_block a b) = map2 (XOR) (store_block a) (store_block b)"
  by (simp add: store_block_def XOR_block_def le_bytes_XOR)

lemma SWAPPED_XOR: "SWAPPED (a XOR b) = SWAPPED a XOR SWAPPED b"
  by (simp add: SWAPPED_def le_bytes_XOR zip_rev [symmetric] rev_map from_le_XOR)

section \<open>Doubling in GF(2^128)\<close>

text \<open>The value of a block is the big endian number of its bytes.\<close>

definition block_value :: "keyblock \<Rightarrow> 128 word" where
  "block_value b = word_cat (SWAPPED (fst b)) (SWAPPED (snd b))"

definition gf_double :: "128 word \<Rightarrow> 128 word" where
  "gf_double v = push_bit 1 v XOR (if bit v 127 then 0x87 else 0)"

lemma bit_block_value:
  "bit (block_value b) n \<longleftrightarrow>
     (if n < 64 then bit (SWAPPED (snd b)) n else bit (SWAPPED (fst b)) (n - 64))"
  by (auto simp: block_value_def bit_word_cat_iff dest: bit_imp_le_length)

lemma bit_87:
  "bit (0x87::u64) n \<longleftrightarrow> n \<in> {0, 1, 2, 7}" "bit (0x87::128 word) n \<longleftrightarrow> n \<in> {0, 1, 2, 7}"
proof -
  have "(0x87::u64) = 2 ^ 7 OR (2 ^ 2 OR (2 ^ 1 OR 2 ^ 0))" by simp
  then show "bit (0x87::u64) n \<longleftrightarrow> n \<in> {0, 1, 2, 7}"
    by (simp only: bit_or_iff bit_pow2_word) auto
  have "(0x87::128 word) = 2 ^ 7 OR (2 ^ 2 OR (2 ^ 1 OR 2 ^ 0))" by simp
  then show "bit (0x87::128 word) n \<longleftrightarrow> n \<in> {0, 1, 2, 7}"
    by (simp only: bit_or_iff bit_pow2_word) auto
qed

lemma bit_shift_1: "bit (push_bit 1 (w::'a::len word)) n \<longleftrightarrow> n < LENGTH('a) \<and> 0 < n \<and> bit w (n - 1)"
  unfolding bit_push_bit_iff by (auto dest: bit_imp_le_length)

lemma carry_87: "drop_bit 63 (x::u64) * 0x87 = (if bit x 63 then 0x87 else 0)"
proof -
  have "drop_bit 63 x = (if bit x 63 then 1 else 0)"
  proof (rule bit_word_eqI)
    fix n assume "n < LENGTH(64)"
    have "bit x (63 + n) \<Longrightarrow> n = 0" using bit_imp_le_length [of x "63 + n"] by auto
    then show "bit (drop_bit 63 x) n = bit (if bit x 63 then 1 else 0) n"
      by (cases n) (auto simp: bit_drop_bit_eq bit_1_iff)
  qed
  then show ?thesis by simp
qed

lemma block_value_S2: "block_value (S2 b) = gf_double (block_value b)"
proof (rule bit_word_eqI)
  fix n assume n: "n < LENGTH(128)"
  let ?x = "SWAPPED (fst b)" and ?y = "SWAPPED (snd b)"
  have l: "bit (block_value (S2 b)) n \<longleftrightarrow>
      (if n < 64 then bit (push_bit 1 ?y) n \<noteq> (bit ?x 63 \<and> n \<in> {0, 1, 2, 7})
       else bit (push_bit 1 ?x) (n - 64) \<or> bit ?y (n - 1))"
    using n
    by (simp only: bit_block_value S2_def Let_def fst_conv snd_conv SWAPPED_SWAPPED carry_87
        bit_xor_iff bit_or_iff bit_drop_bit_eq comp_def bit_87 split: if_split) auto
  have r: "bit (gf_double (block_value b)) n \<longleftrightarrow>
      bit (push_bit 1 (block_value b)) n \<noteq> (bit ?x 63 \<and> n \<in> {0, 1, 2, 7})"
    by (simp only: gf_double_def bit_xor_iff bit_block_value bit_87 split: if_split) auto
  show "bit (block_value (S2 b)) n \<longleftrightarrow> bit (gf_double (block_value b)) n"
    using n unfolding l r unfolding bit_shift_1 bit_block_value
    by (auto dest: bit_imp_le_length)
qed

lemma block_value_XOR: "block_value (XOR_block a b) = block_value a XOR block_value b"
  by (rule bit_word_eqI) (auto simp: bit_block_value XOR_block_def SWAPPED_XOR bit_xor_iff)

lemma S3_eq: "S3 b = XOR_block b (S2 b)"
  by (simp add: S3_def S2_def XOR_block_def Let_def)

section \<open>Decryption undoes encryption\<close>

text \<open>
  What the receiver gets: the plain text, except that when the counter-measure is on, the last
  block but one of a text has its first bit flipped if its first 15 bytes are all 0.
\<close>

function (sequential) received :: "bool \<Rightarrow> u8 list \<Rightarrow> u8 list" where
  "received modify plain =
     (if length plain > 16
      then (if xex_star_block plain \<and> modify
            then (hd plain XOR 1) # tl (take 16 plain) else take 16 plain)
           @ received modify (drop 16 plain)
      else plain)"
  by pat_completeness auto
termination
  by (relation "measure (\<lambda>(m, plain). length plain)") auto

declare received.simps [simp del]

lemma length_received [simp]: "length (received modify plain) = length plain"
proof (induction modify plain rule: received.induct)
  case (1 modify plain)
  then show ?case by (subst received.simps) auto
qed

lemma store_flip_first: "store_block (flip_first b) = (hd (store_block b) XOR 1) # tl (store_block b)"
proof -
  have "drop_bit 8 (fst b XOR 1) = drop_bit 8 (fst b)"
    by (rule bit_word_eqI) (auto simp: bit_simps bit_1_iff)
  moreover have "(ucast (fst b XOR 1) :: u8) = ucast (fst b) XOR 1"
    by (rule bit_word_eqI) (auto simp: bit_simps bit_1_iff)
  ultimately show ?thesis by (simp add: store_block_def flip_first_def eval_nat_numeral)
qed

lemma load_take: "load_block (take 16 bs) = load_block bs"
  by (simp add: load_block_def min_def drop_take)

lemma store_load_take: "16 \<le> length bs \<Longrightarrow> store_block (load_block bs) = take 16 bs"
  using store_load_block [of "take 16 bs"] by (simp add: load_take)

lemma ocb_decrypt_step:
  "xs \<noteq> [] \<Longrightarrow> ocb_decrypt_blocks D (store_block b @ xs) delta checksum =
     (let d = S2 delta; p = XOR_block d (D (XOR_block d b));
          (e, rest, d', c') = ocb_decrypt_blocks D xs d (XOR_block checksum p)
      in (e, store_block p @ rest, d', c'))"
  by (subst ocb_decrypt_blocks.simps) (simp add: Let_def)

lemma ocb_blocks_inverse:
  assumes inv: "\<And>x. D (E x) = x"
    and enc: "ocb_encrypt_blocks E modify plain delta checksum success =
      (plain', encrypted, delta', checksum', success')"
    and t: "length t = length plain'"
  shows "length plain' \<le> 16 \<and> length (encrypted @ t) = length plain \<and>
    (\<exists>out. ocb_decrypt_blocks D (encrypted @ t) delta checksum = (t, out, delta', checksum') \<and>
      out @ plain' = received modify plain) \<and> (modify \<longrightarrow> success' = success)"
  using enc
proof (induction plain arbitrary: delta checksum success encrypted rule: measure_induct_rule [of length])
  case (less plain)
  show ?case
  proof (cases "16 < length plain")
    case False
    then have "plain' = plain" "encrypted = []" "delta' = delta" "checksum' = checksum"
        "success' = success"
      using less.prems by (simp_all add: ocb_encrypt_blocks.simps [of E modify plain])
    with False t show ?thesis
      by (simp add: ocb_decrypt_blocks.simps [of D t] received.simps [of modify plain])
  next
    case True
    let ?flip = "xex_star_block plain \<and> modify"
    let ?s = "if xex_star_block plain \<and> \<not> modify then False else success"
    let ?d = "S2 delta"
    let ?sent = "if ?flip then flip_first (load_block plain) else load_block plain"
    let ?c = "XOR_block checksum ?sent"
    let ?block = "store_block (XOR_block ?d (E (XOR_block ?d ?sent)))"
    obtain r where rec: "ocb_encrypt_blocks E modify (drop 16 plain) ?d ?c ?s =
        (plain', r, delta', checksum', success')" and e: "encrypted = ?block @ r"
      using less.prems True
      by (simp add: ocb_encrypt_blocks.simps [of E modify plain] Let_def flip_first_XOR
          split: prod.splits if_splits)
    have IH: "length plain' \<le> 16" "length (r @ t) = length (drop 16 plain)"
      "\<exists>out. ocb_decrypt_blocks D (r @ t) ?d ?c = (t, out, delta', checksum') \<and>
         out @ plain' = received modify (drop 16 plain)" "modify \<longrightarrow> success' = ?s"
      using less.IH [OF _ rec] True by auto
    then obtain out where out: "ocb_decrypt_blocks D (r @ t) ?d ?c = (t, out, delta', checksum')"
        "out @ plain' = received modify (drop 16 plain)" by blast
    have l: "length (encrypted @ t) = length plain" using IH(2) True e by simp
    have "ocb_decrypt_blocks D (encrypted @ t) delta checksum =
        (t, store_block ?sent @ out, delta', checksum')"
    proof -
      have "r @ t \<noteq> []" using IH(2) True by auto
      from ocb_decrypt_step [OF this] show ?thesis
        unfolding e append_assoc by (simp only: Let_def XOR_block_simps inv out(1) prod.case)
    qed
    moreover have "store_block ?sent @ out @ plain' = received modify plain"
      using True out(2) by (simp add: received.simps [of modify plain] store_flip_first store_load_take
          hd_conv_nth)
    ultimately show ?thesis using IH l by auto
  qed
qed

text \<open>
  The decoder refuses a text whose last block, padded with the key stream, agrees with \<open>delta\<close> in
  its first 15 bytes. \<open>last_block_free\<close> says that the text is not one of these.
\<close>

definition last_block_free :: "(keyblock \<Rightarrow> keyblock) \<Rightarrow> bool \<Rightarrow> u8 list \<Rightarrow> u8 list \<Rightarrow> bool" where
  "last_block_free E modify plain nonce =
     (let (plain, _, delta, _, _) =
            ocb_encrypt_blocks E modify plain (E (load_block nonce)) ZERO True;
          delta = S2 delta;
          pad = E (XOR_block (0, SWAPPED (of_nat (length plain) * 8)) delta)
      in take 15 (plain @ drop (length plain) (store_block pad)) \<noteq> take 15 (store_block delta))"

lemma store_block_inject: "store_block a = store_block b \<Longrightarrow> a = b"
  using load_store_block [of a "[]"] load_store_block [of b "[]"] by simp

lemma last_block_inverse:
  fixes pad :: keyblock
  assumes "length p \<le> 16"
  defines "tmp \<equiv> load_block (p @ drop (length p) (store_block pad))"
  defines "c \<equiv> take (length p) (store_block (XOR_block pad tmp))"
  shows "XOR_block (load_block (c @ replicate (16 - length p) 0)) pad = tmp"
    "store_block tmp = p @ drop (length p) (store_block pad)"
proof -
  have l: "length (p @ drop (length p) (store_block pad)) = 16" using assms(1) by simp
  show st: "store_block tmp = p @ drop (length p) (store_block pad)"
    unfolding tmp_def by (rule store_load_block [OF l])
  have c: "length c = length p" "length (c @ replicate (16 - length p) 0) = 16"
    using assms(1) by (simp_all add: c_def)
  have "store_block (XOR_block (load_block (c @ replicate (16 - length p) 0)) pad) = store_block tmp"
  proof (rule nth_equalityI)
    fix i assume "i < length (store_block (XOR_block (load_block (c @ replicate (16 - length p) 0)) pad))"
    then have i: "i < 16" by simp
    have "c ! i = (store_block pad ! i) XOR (p ! i)" if "i < length p"
      using that assms(1) by (simp add: c_def store_XOR st nth_append)
    with i show "store_block (XOR_block (load_block (c @ replicate (16 - length p) 0)) pad) ! i =
        store_block tmp ! i"
      using assms(1) c
      by (auto simp: store_XOR store_load_block st nth_append ac_simps)
  qed simp
  then show "XOR_block (load_block (c @ replicate (16 - length p) 0)) pad = tmp"
    by (rule store_block_inject)
qed

lemma ocb_decrypt_encrypt:
  assumes inv: "\<And>x. D (E x) = x"
    and enc: "crypt_ocb_encrypt E plain nonce modify = (success, encrypted, tag)"
  shows "crypt_ocb_decrypt E D encrypted nonce =
      (last_block_free E modify plain nonce, received modify plain, tag)"
    "length encrypted = length plain" "length tag = 16" "modify \<Longrightarrow> success"
proof -
  obtain p e d c s where loop:
    "ocb_encrypt_blocks E modify plain (E (load_block nonce)) ZERO True = (p, e, d, c, s)"
    by (cases "ocb_encrypt_blocks E modify plain (E (load_block nonce)) ZERO True") auto
  let ?d = "S2 d"
  let ?pad = "E (XOR_block (0, SWAPPED (of_nat (length p) * 8)) ?d)"
  let ?tmp = "load_block (p @ drop (length p) (store_block ?pad))"
  let ?t = "take (length p) (store_block (XOR_block ?pad ?tmp))"
  have en: "success = s" "encrypted = e @ ?t"
    "tag = store_block (E (XOR_block (S3 ?d) (XOR_block c ?tmp)))"
    using enc loop by (auto simp: crypt_ocb_encrypt_def Let_def)
  have p16: "length p \<le> 16"
    using ocb_blocks_inverse [OF inv loop, of p] by simp
  then have t: "length ?t = length p" by simp
  note L = ocb_blocks_inverse [OF inv loop t]
  obtain out where out: "ocb_decrypt_blocks D encrypted (E (load_block nonce)) ZERO = (?t, out, d, c)"
      "out @ p = received modify plain"
    using L en by auto
  have last: "XOR_block (load_block (?t @ replicate (16 - length p) 0)) ?pad = ?tmp"
    "store_block ?tmp = p @ drop (length p) (store_block ?pad)"
    using last_block_inverse [OF p16, of ?pad] by simp_all
  show "crypt_ocb_decrypt E D encrypted nonce =
      (last_block_free E modify plain nonce, received modify plain, tag)"
    by (simp add: crypt_ocb_decrypt_def out(1) t last last_block_free_def loop en(3)
        out(2) [symmetric] Let_def del: length_take)
  show "length encrypted = length plain" unfolding en(2) using L by blast
  show "length tag = 16" using en by simp
  show "modify \<Longrightarrow> success" using L en by simp
qed

section \<open>Properties\<close>

text \<open>
  \<open>S2\<close> is doubling in GF(2^128) on the big endian value of the block (shift left, reduce by
  0x87), and \<open>S3\<close> is tripling: the block XOR its double. Both act on the same word order as the code.
\<close>

theorem S2_S3_field:
  "block_value (S2 b) = gf_double (block_value b) \<and>
   block_value (S3 b) = block_value b XOR gf_double (block_value b)"
  by (simp_all add: block_value_S2 S3_eq block_value_XOR)

text \<open>
  C19. For a block cipher whose decryption inverts its encryption, \<open>crypt_ocb_decrypt\<close> under the same
  key and nonce undoes \<open>crypt_ocb_encrypt\<close>: it computes the same tag and the same text (of any
  length, also 0), except for the one bit the counter-measure flips in the last block but one when
  the first 15 bytes of that block are 0; it reports success exactly when the padded last
  block does not agree with \<open>delta\<close> in 15 bytes. The cipher text is as long as the text, and
  with the counter-measure on encryption always succeeds.
\<close>

theorem ocb_roundtrip:
  assumes "\<And>x. D (E x) = x"
  shows "\<exists>success encrypted tag. crypt_ocb_encrypt E plain nonce modify = (success, encrypted, tag) \<and>
    crypt_ocb_decrypt E D encrypted nonce =
      (last_block_free E modify plain nonce, received modify plain, tag) \<and>
    length encrypted = length plain \<and> length tag = 16 \<and> (modify \<longrightarrow> success)"
proof -
  obtain success encrypted tag
    where e: "crypt_ocb_encrypt E plain nonce modify = (success, encrypted, tag)"
    by (cases "crypt_ocb_encrypt E plain nonce modify") auto
  show ?thesis using ocb_decrypt_encrypt [OF assms e] e by blast
qed

definition xor_cipher :: "keyblock \<Rightarrow> keyblock" where
  "xor_cipher = XOR_block (0x0123456789ABCDEF, 0xFEDCBA9876543210)"

lemma ocb_roundtrip_witness:
  "\<exists>success encrypted tag.
    crypt_ocb_encrypt xor_cipher [1, 2, 3] (replicate 16 7) True = (success, encrypted, tag) \<and>
    crypt_ocb_decrypt xor_cipher xor_cipher encrypted (replicate 16 7) =
      (last_block_free xor_cipher True [1, 2, 3] (replicate 16 7), [1, 2, 3], tag) \<and>
    length encrypted = 3 \<and> length tag = 16 \<and> success"
  using ocb_roundtrip [of xor_cipher xor_cipher "[1, 2, 3]" "replicate 16 7" True]
  by (simp add: xor_cipher_def received.simps numeral_3_eq_3)

end
