(* ===== verification/Crypt.thy ===== *)
theory Crypt
  imports Ocb
begin

text \<open>
  The state of the datagram encryption (\<open>mumble_crypt\<close> of \<open>mumble/ocb.h\<close>): keys, the two
  initialization vectors, the replay history and the statistics, with every operation of
  \<open>mumble/ocb.c\<close> on it. \<open>E\<close> and \<open>D\<close> are AES-128 as functions of the raw key. A vector is the list of
  its 16 bytes, the least significant one first; \<open>iv_value\<close> is its number.
\<close>

section \<open>State\<close>

record mumble_crypt =
  raw_key :: "u8 list"
  encrypt_iv :: "u8 list"
  decrypt_iv :: "u8 list"
  decrypt_history :: "u8 list"
  uiGood :: u64
  uiLate :: u64
  uiLost :: u64
  uiResync :: u64
  bInit :: bool

definition crypt_init :: mumble_crypt where
  "crypt_init =
     \<lparr> raw_key = replicate 16 0, encrypt_iv = replicate 16 0, decrypt_iv = replicate 16 0,
       decrypt_history = replicate 256 0, uiGood = 0, uiLate = 0, uiLost = 0, uiResync = 0,
       bInit = False \<rparr>"

definition crypt_uninitialize :: "mumble_crypt \<Rightarrow> mumble_crypt" where
  "crypt_uninitialize c = c \<lparr> bInit := False \<rparr>"

definition crypt_isValid :: "mumble_crypt \<Rightarrow> bool" where
  "crypt_isValid c = bInit c"

text \<open>The random bytes of \<open>RAND_bytes\<close> are the arguments.\<close>

definition crypt_genKey :: "u8 list \<Rightarrow> u8 list \<Rightarrow> u8 list \<Rightarrow> mumble_crypt \<Rightarrow> mumble_crypt" where
  "crypt_genKey rand_key rand_eiv rand_div c =
     c \<lparr> raw_key := rand_key, encrypt_iv := rand_eiv, decrypt_iv := rand_div, bInit := True \<rparr>"

definition crypt_setKey ::
  "u8 list \<Rightarrow> u8 list \<Rightarrow> u8 list \<Rightarrow> mumble_crypt \<Rightarrow> bool \<times> mumble_crypt" where
  "crypt_setKey rkey eiv div_iv c =
     (if length rkey = 16 \<and> length eiv = 16 \<and> length div_iv = 16
      then (True, c \<lparr> raw_key := rkey, encrypt_iv := eiv, decrypt_iv := div_iv, bInit := True \<rparr>)
      else (False, c))"

definition crypt_setRawKey :: "u8 list \<Rightarrow> mumble_crypt \<Rightarrow> bool \<times> mumble_crypt" where
  "crypt_setRawKey rkey c =
     (if length rkey = 16 then (True, c \<lparr> raw_key := rkey \<rparr>) else (False, c))"

definition crypt_setEncryptIV :: "u8 list \<Rightarrow> mumble_crypt \<Rightarrow> bool \<times> mumble_crypt" where
  "crypt_setEncryptIV iv c =
     (if length iv = 16 then (True, c \<lparr> encrypt_iv := iv \<rparr>) else (False, c))"

definition crypt_setDecryptIV :: "u8 list \<Rightarrow> mumble_crypt \<Rightarrow> bool \<times> mumble_crypt" where
  "crypt_setDecryptIV iv c =
     (if length iv = 16 then (True, c \<lparr> decrypt_iv := iv \<rparr>) else (False, c))"

definition crypt_getRawKey :: "mumble_crypt \<Rightarrow> u8 list" where
  "crypt_getRawKey c = raw_key c"

definition crypt_getEncryptIV :: "mumble_crypt \<Rightarrow> u8 list" where
  "crypt_getEncryptIV c = encrypt_iv c"

definition crypt_getDecryptIV :: "mumble_crypt \<Rightarrow> u8 list" where
  "crypt_getDecryptIV c = decrypt_iv c"

definition crypt_getGood :: "mumble_crypt \<Rightarrow> u64" where "crypt_getGood c = uiGood c"
definition crypt_getLate :: "mumble_crypt \<Rightarrow> u64" where "crypt_getLate c = uiLate c"
definition crypt_getLost :: "mumble_crypt \<Rightarrow> u64" where "crypt_getLost c = uiLost c"

section \<open>Counting\<close>

text \<open>\<open>for (...) if (++iv[i]) break;\<close> and \<open>for (...) if (iv[i]--) break;\<close>\<close>

fun iv_increment :: "u8 list \<Rightarrow> u8 list" where
  "iv_increment [] = []"
| "iv_increment (b # bs) = (if b + 1 \<noteq> 0 then (b + 1) # bs else (b + 1) # iv_increment bs)"

fun iv_decrement :: "u8 list \<Rightarrow> u8 list" where
  "iv_decrement [] = []"
| "iv_decrement (b # bs) = (if b \<noteq> 0 then (b - 1) # bs else (b - 1) # iv_decrement bs)"

definition crypt_encrypt ::
  "(u8 list \<Rightarrow> keyblock \<Rightarrow> keyblock) \<Rightarrow> u8 list \<Rightarrow> mumble_crypt \<Rightarrow> u8 list option \<times> mumble_crypt" where
  "crypt_encrypt E source c =
     (let c = c \<lparr> encrypt_iv := iv_increment (encrypt_iv c) \<rparr>
      in case crypt_ocb_encrypt (E (raw_key c)) source (encrypt_iv c) True of
           (success, encrypted, tag) \<Rightarrow>
             if \<not> success then (None, c)
             else (Some (encrypt_iv c ! 0 # tag ! 0 # tag ! 1 # tag ! 2 # encrypted), c))"

text \<open>
  The first part of \<open>crypt_decrypt\<close>: the vector the datagram was sent under, from its low byte.
  The result is the vector with \<open>late\<close>, \<open>lost\<close> and \<open>restore\<close>, or \<open>None\<close> when the byte is refused.
\<close>

definition carry_up :: "u8 list \<Rightarrow> u8 \<Rightarrow> u8 list" where
  "carry_up iv ivbyte = ivbyte # iv_increment (tl iv)"

definition carry_down :: "u8 list \<Rightarrow> u8 \<Rightarrow> u8 list" where
  "carry_down iv ivbyte = ivbyte # iv_decrement (tl iv)"

definition no_carry :: "u8 list \<Rightarrow> u8 \<Rightarrow> u8 list" where
  "no_carry iv ivbyte = ivbyte # tl iv"

definition iv_diff :: "u8 \<Rightarrow> u8 \<Rightarrow> int" where
  "iv_diff ivbyte iv0 =
     (let diff = uint ivbyte - uint iv0
      in if diff > 128 then diff - 256 else if diff < -128 then diff + 256 else diff)"

definition in_order_iv :: "u8 list \<Rightarrow> u8 \<Rightarrow> (u8 list \<times> int \<times> int \<times> bool) option" where
  "in_order_iv iv ivbyte =
     (if ivbyte > iv ! 0 then Some (no_carry iv ivbyte, 0, 0, False)
      else if ivbyte < iv ! 0 then Some (carry_up iv ivbyte, 0, 0, False)
      else None)"

definition out_of_order_iv :: "u8 list \<Rightarrow> u8 \<Rightarrow> (u8 list \<times> int \<times> int \<times> bool) option" where
  "out_of_order_iv iv ivbyte =
     (let iv0 = iv ! 0; diff = iv_diff ivbyte iv0
      in if ivbyte < iv0 \<and> diff > -30 \<and> diff < 0
         then Some (no_carry iv ivbyte, 1, -1, True)
         else if ivbyte > iv0 \<and> diff > -30 \<and> diff < 0
         then Some (carry_down iv ivbyte, 1, -1, True)
         else if ivbyte > iv0 \<and> diff > 0
         then Some (no_carry iv ivbyte, 0, uint ivbyte - uint iv0 - 1, False)
         else if ivbyte < iv0 \<and> diff > 0
         then Some (carry_up iv ivbyte, 0, 256 - uint iv0 + uint ivbyte - 1, False)
         else None)"

definition recover_iv :: "mumble_crypt \<Rightarrow> u8 \<Rightarrow> (u8 list \<times> int \<times> int \<times> bool) option" where
  "recover_iv c ivbyte =
     (if decrypt_iv c ! 0 + 1 = ivbyte then in_order_iv (decrypt_iv c) ivbyte
      else case out_of_order_iv (decrypt_iv c) ivbyte of
             None \<Rightarrow> None
           | Some (iv, late, lost, restore) \<Rightarrow>
               if decrypt_history c ! unat (iv ! 0) = iv ! 1 then None
               else Some (iv, late, lost, restore))"

text \<open>\<open>if (n > 0) stat += n; else if (stat > abs(n)) stat -= abs(n);\<close>\<close>

definition update_stat :: "u64 \<Rightarrow> int \<Rightarrow> u64" where
  "update_stat stat n =
     (if n > 0 then stat + of_int n
      else if stat > of_int \<bar>n\<bar> then stat - of_int \<bar>n\<bar> else stat)"

definition crypt_decrypt ::
  "(u8 list \<Rightarrow> keyblock \<Rightarrow> keyblock) \<Rightarrow> (u8 list \<Rightarrow> keyblock \<Rightarrow> keyblock) \<Rightarrow> u8 list \<Rightarrow>
   mumble_crypt \<Rightarrow> u8 list option \<times> mumble_crypt" where
  "crypt_decrypt E D source c =
     (if length source < 4 then (None, c)
      else case recover_iv c (source ! 0) of
             None \<Rightarrow> (None, c)
           | Some (iv, late, lost, restore) \<Rightarrow>
               (case crypt_ocb_decrypt (E (raw_key c)) (D (raw_key c)) (drop 4 source) iv of
                  (ocb_success, plain, tag) \<Rightarrow>
                    if \<not> ocb_success \<or> take 3 tag \<noteq> take 3 (drop 1 source) then (None, c)
                    else
                      (Some plain,
                       c \<lparr> decrypt_history := (decrypt_history c)[unat (iv ! 0) := iv ! 1],
                           decrypt_iv := (if restore then decrypt_iv c else iv),
                           uiGood := uiGood c + 1,
                           uiLate := update_stat (uiLate c) late,
                           uiLost := update_stat (uiLost c) lost \<rparr>)))"

section \<open>Invariant\<close>

definition crypt_ok :: "mumble_crypt \<Rightarrow> bool" where
  "crypt_ok c \<longleftrightarrow> length (raw_key c) = 16 \<and> length (encrypt_iv c) = 16 \<and>
     length (decrypt_iv c) = 16 \<and> length (decrypt_history c) = 256"

lemma length_iv_increment [simp]: "length (iv_increment bs) = length bs"
  by (induction bs) auto

lemma length_iv_decrement [simp]: "length (iv_decrement bs) = length bs"
  by (induction bs) auto

lemma crypt_ok_init: "crypt_ok crypt_init"
  by (simp add: crypt_ok_def crypt_init_def)

lemma crypt_ok_set:
  "crypt_ok c \<Longrightarrow> crypt_ok (snd (crypt_setKey rkey eiv div_iv c))"
  "crypt_ok c \<Longrightarrow> crypt_ok (snd (crypt_setRawKey rkey c))"
  "crypt_ok c \<Longrightarrow> crypt_ok (snd (crypt_setEncryptIV iv c))"
  "crypt_ok c \<Longrightarrow> crypt_ok (snd (crypt_setDecryptIV iv c))"
  by (auto simp: crypt_ok_def crypt_setKey_def crypt_setRawKey_def crypt_setEncryptIV_def
      crypt_setDecryptIV_def)

lemma crypt_ok_encrypt: "crypt_ok c \<Longrightarrow> crypt_ok (snd (crypt_encrypt E source c))"
  by (auto simp: crypt_ok_def crypt_encrypt_def Let_def split: prod.split)

lemma recover_iv_cases:
  assumes "recover_iv c ivbyte = Some (iv, late, lost, restore)"
  shows "iv \<in> {no_carry (decrypt_iv c) ivbyte, carry_up (decrypt_iv c) ivbyte,
    carry_down (decrypt_iv c) ivbyte}"
proof (cases "decrypt_iv c ! 0 + 1 = ivbyte")
  case True
  then show ?thesis using assms by (auto simp: recover_iv_def in_order_iv_def split: if_split_asm)
next
  case False
  then have "out_of_order_iv (decrypt_iv c) ivbyte = Some (iv, late, lost, restore)"
    using assms by (auto simp: recover_iv_def split: if_split_asm option.split_asm)
  then show ?thesis by (auto simp: out_of_order_iv_def Let_def split: if_split_asm)
qed

lemma recover_iv_length:
  "length (decrypt_iv c) = 16 \<Longrightarrow> recover_iv c ivbyte = Some (iv, late, lost, restore) \<Longrightarrow>
   length iv = 16"
  using recover_iv_cases [of c ivbyte iv late lost restore]
  by (auto simp: no_carry_def carry_up_def carry_down_def)

lemma crypt_decrypt_Some:
  assumes "crypt_decrypt E D source c = (Some plain, c')"
  obtains iv late lost restore tag where "4 \<le> length source"
    "recover_iv c (source ! 0) = Some (iv, late, lost, restore)"
    "crypt_ocb_decrypt (E (raw_key c)) (D (raw_key c)) (drop 4 source) iv = (True, plain, tag)"
    "take 3 tag = take 3 (drop 1 source)"
    "c' = c \<lparr> decrypt_history := (decrypt_history c)[unat (iv ! 0) := iv ! 1],
       decrypt_iv := (if restore then decrypt_iv c else iv), uiGood := uiGood c + 1,
       uiLate := update_stat (uiLate c) late, uiLost := update_stat (uiLost c) lost \<rparr>"
  using assms
  by (auto simp: crypt_decrypt_def not_less split: if_split_asm option.split_asm prod.split_asm)

lemma crypt_decrypt_None: "crypt_decrypt E D source c = (None, c') \<Longrightarrow> c' = c"
  by (auto simp: crypt_decrypt_def split: if_split_asm option.split_asm prod.split_asm)

lemma crypt_ok_decrypt: "crypt_ok c \<Longrightarrow> crypt_ok (snd (crypt_decrypt E D source c))"
proof -
  assume ok: "crypt_ok c"
  obtain r c' where r: "crypt_decrypt E D source c = (r, c')" by (cases "crypt_decrypt E D source c")
  show ?thesis
  proof (cases r)
    case None
    then show ?thesis using r ok crypt_decrypt_None [of E D source c c'] by simp
  next
    case (Some plain)
    with r have "crypt_decrypt E D source c = (Some plain, c')" by simp
    then show ?thesis
      by (rule crypt_decrypt_Some) (use r ok recover_iv_length in \<open>auto simp: crypt_ok_def\<close>)
  qed
qed

section \<open>The number of a vector\<close>

fun iv_value :: "u8 list \<Rightarrow> int" where
  "iv_value [] = 0"
| "iv_value (b # bs) = uint b + 256 * iv_value bs"

lemma uint_u8: "0 \<le> uint (b::u8)" "uint (b::u8) < 256"
  using uint_lt2p [of b] by simp_all

lemma iv_value_bounds: "0 \<le> iv_value bs \<and> iv_value bs < 256 ^ length bs"
proof (induction bs)
  case (Cons b bs)
  then have "iv_value bs + 1 \<le> 256 ^ length bs" by simp
  with Cons uint_u8 [of b] show ?case by simp
qed simp

lemma byte_split: "(a + 256 * q) mod 256 = a mod 256" "(a + 256 * q) div 256 = q + a div (256::int)"
  by simp_all

lemma byte_digit:
  "(uint (a::u8) + 256 * q) mod 256 = uint a" "(uint a + 256 * q) div 256 = q"
  using uint_u8 [of a] by simp_all

lemma iv_value_inject: "length as = length bs \<Longrightarrow> iv_value as = iv_value bs \<Longrightarrow> as = bs"
proof (induction as bs rule: list_induct2)
  case (Cons a as b bs)
  have "uint a + 256 * iv_value as = uint b + 256 * iv_value bs" using Cons.prems by simp
  then have "uint a = uint b" "iv_value as = iv_value bs"
    by (metis byte_digit(1), metis byte_digit(2))
  with Cons.IH show ?case by (simp add: word_uint_eq_iff)
qed simp

lemma iv_value_Cons_mod:
  "x mod 256 ^ Suc n = x mod 256 + 256 * ((x div 256) mod (256 ^ n :: int))"
  using zmod_zmult2_eq [of "256 ^ n" x 256] by (simp add: ac_simps)

lemma uint_u8_inc: "uint (b + 1 :: u8) = (uint b + 1) mod 256"
  by (simp add: uint_word_ariths)

lemma uint_u8_dec: "uint (b - 1 :: u8) = (uint b - 1) mod 256"
  by (simp add: uint_word_ariths)

lemma iv_value_add_mod:
  "(iv_value (b # bs) + d) mod 256 ^ length (b # bs) =
     (uint b + d) mod 256 + 256 * ((iv_value bs + (uint b + d) div 256) mod 256 ^ length bs)"
proof -
  have e: "iv_value (b # bs) + d = (uint b + d) + 256 * iv_value bs" by simp
  show ?thesis
    unfolding e using iv_value_Cons_mod [of "(uint b + d) + 256 * iv_value bs" "length bs"]
    by (simp only: byte_split list.size add_0_right add_Suc_right)
qed

lemma iv_value_mod [simp]: "iv_value bs mod 256 ^ length bs = iv_value bs"
  using iv_value_bounds [of bs] by simp

lemma iv_value_increment: "iv_value (iv_increment bs) = (iv_value bs + 1) mod 256 ^ length bs"
proof (induction bs)
  case (Cons b bs)
  show ?case
  proof (cases "b + 1 = 0")
    case True
    then have "(uint b + 1) mod 256 = 0" using uint_u8_inc [of b] by simp
    then have "uint b = 255" using uint_u8 [of b] by presburger
    with True Cons show ?thesis unfolding iv_value_add_mod by simp
  next
    case False
    then have "(uint b + 1) mod 256 \<noteq> 0" by (metis uint_0_iff uint_u8_inc)
    then have "uint b \<noteq> 255" by auto
    then have b: "(uint b + 1) mod 256 = uint b + 1" "(uint b + 1) div 256 = 0"
      using uint_u8 [of b] by simp_all
    with False uint_u8_inc [of b] show ?thesis unfolding iv_value_add_mod by simp
  qed
qed simp

lemma iv_value_decrement: "iv_value (iv_decrement bs) = (iv_value bs - 1) mod 256 ^ length bs"
proof (induction bs)
  case (Cons b bs)
  have m: "iv_value cs - 1 = iv_value cs + - 1" for cs by simp
  show ?case
  proof (cases "b = 0")
    case True
    then have "uint (b - 1) = 255" using uint_u8_dec [of b] by simp
    with True Cons show ?thesis unfolding m iv_value_add_mod by simp
  next
    case False
    then have "uint b \<noteq> 0" by (metis uint_0_iff)
    then have "0 \<le> uint b - 1" "uint b - 1 < 256" using uint_u8 [of b] by linarith+
    then have b: "(uint b + - 1) mod 256 = uint b - 1" "(uint b + - 1) div 256 = 0" by simp_all
    with False uint_u8_dec [of b] show ?thesis unfolding m iv_value_add_mod by simp
  qed
qed simp

text \<open>Which of the three vectors is \<open>d\<close> steps on, from the low byte alone.\<close>

lemma recovered_vector:
  assumes "length iv = 16" "length sent = 16"
    and "iv_value sent = (iv_value iv + d) mod 256 ^ 16"
  shows "uint (sent ! 0) = (uint (iv ! 0) + d) mod 256"
    "(uint (iv ! 0) + d) div 256 = 0 \<Longrightarrow> sent = no_carry iv (sent ! 0)"
    "(uint (iv ! 0) + d) div 256 = 1 \<Longrightarrow> sent = carry_up iv (sent ! 0)"
    "(uint (iv ! 0) + d) div 256 = -1 \<Longrightarrow> sent = carry_down iv (sent ! 0)"
proof -
  obtain b bs where iv: "iv = b # bs" "length bs = 15" using assms(1) by (cases iv) auto
  obtain s ss where sent: "sent = s # ss" "length ss = 15" using assms(2) by (cases sent) auto
  have "uint s + 256 * iv_value ss =
      (uint b + d) mod 256 + 256 * ((iv_value bs + (uint b + d) div 256) mod 256 ^ 15)"
    using assms(3) iv_value_add_mod [of b bs d] iv sent by simp
  moreover have "(uint s + 256 * iv_value ss) mod 256 = uint s"
    "(uint s + 256 * iv_value ss) div 256 = iv_value ss" by (rule byte_digit)+
  moreover have "((x mod 256) + 256 * y) mod 256 = x mod 256"
    "((x mod 256) + 256 * y) div 256 = y" for x y :: int
    by (simp_all add: div_pos_pos_trivial)
  ultimately have "uint s = (uint b + d) mod 256"
    and t: "iv_value ss = (iv_value bs + (uint b + d) div 256) mod 256 ^ 15" by metis+
  then show "uint (sent ! 0) = (uint (iv ! 0) + d) mod 256" using iv sent by simp
  show "sent = no_carry iv (sent ! 0)" if "(uint (iv ! 0) + d) div 256 = 0"
  proof -
    have "iv_value ss = iv_value bs"
      using t that iv iv_value_mod [of bs] by (simp del: iv_value_mod)
    then show ?thesis using iv_value_inject [of ss bs] iv sent by (simp add: no_carry_def)
  qed
  show "sent = carry_up iv (sent ! 0)" if "(uint (iv ! 0) + d) div 256 = 1"
  proof -
    have "iv_value ss = iv_value (iv_increment bs)"
      using t that iv by (simp add: iv_value_increment)
    then show ?thesis
      using iv_value_inject [of ss "iv_increment bs"] iv sent by (simp add: carry_up_def)
  qed
  show "sent = carry_down iv (sent ! 0)" if "(uint (iv ! 0) + d) div 256 = -1"
  proof -
    have "iv_value ss = iv_value (iv_decrement bs)"
      using t that iv by (simp add: iv_value_decrement)
    then show ?thesis
      using iv_value_inject [of ss "iv_decrement bs"] iv sent by (simp add: carry_down_def)
  qed
qed

section \<open>Recovering the vector\<close>

lemma byte_step:
  fixes r d :: int
  assumes "0 \<le> r" "r < 256"
  shows "0 \<le> r + d \<Longrightarrow> r + d < 256 \<Longrightarrow> (r + d) mod 256 = r + d \<and> (r + d) div 256 = 0"
    "256 \<le> r + d \<Longrightarrow> r + d < 512 \<Longrightarrow> (r + d) mod 256 = r + d - 256 \<and> (r + d) div 256 = 1"
    "- 256 \<le> r + d \<Longrightarrow> r + d < 0 \<Longrightarrow> (r + d) mod 256 = r + d + 256 \<and> (r + d) div 256 = - 1"
proof -
  show "(r + d) mod 256 = r + d \<and> (r + d) div 256 = 0" if "0 \<le> r + d" "r + d < 256"
    using that by simp
  show "(r + d) mod 256 = r + d - 256 \<and> (r + d) div 256 = 1" if "256 \<le> r + d" "r + d < 512"
    using that int_mod_pos_eq [of "r + d" 256 1 "r + d - 256"]
      int_div_pos_eq [of "r + d" 256 1 "r + d - 256"] by simp
  show "(r + d) mod 256 = r + d + 256 \<and> (r + d) div 256 = - 1" if "- 256 \<le> r + d" "r + d < 0"
    using that int_mod_pos_eq [of "r + d" 256 "- 1" "r + d + 256"]
      int_div_pos_eq [of "r + d" 256 "- 1" "r + d + 256"] by simp
qed

lemma recover_iv_ahead:
  assumes "length (decrypt_iv c) = 16" "length sent = 16"
    and "iv_value sent = (iv_value (decrypt_iv c) + d) mod 256 ^ 16" "1 \<le> d" "d \<le> 127"
    and "d = 1 \<or> decrypt_history c ! unat (sent ! 0) \<noteq> sent ! 1"
  shows "recover_iv c (sent ! 0) = Some (sent, 0, d - 1, False)"
proof -
  let ?r = "uint (decrypt_iv c ! 0)" and ?s = "uint (sent ! 0)"
  note R = recovered_vector [OF assms(1-3)]
  have r: "0 \<le> ?r" "?r < 256" by (rule uint_u8)+
  have inc: "decrypt_iv c ! 0 + 1 = sent ! 0 \<longleftrightarrow> (?r + 1) mod 256 = ?s"
    by (metis uint_u8_inc word_uint_eq_iff)
  show ?thesis
  proof (cases "?r + d < 256")
    case True
    then have s: "?s = ?r + d" "sent = no_carry (decrypt_iv c) (sent ! 0)"
      using R byte_step(1) [OF r, of d] r assms(4) by simp_all
    show ?thesis
    proof (cases "d = 1")
      case d1: True
      then have "decrypt_iv c ! 0 + 1 = sent ! 0" using inc s True r by simp
      then show ?thesis using s d1
        by (simp add: recover_iv_def in_order_iv_def word_less_def)
    next
      case d1: False
      then have "decrypt_iv c ! 0 + 1 \<noteq> sent ! 0" using inc s True r assms(4) by simp
      moreover have "out_of_order_iv (decrypt_iv c) (sent ! 0) = Some (sent, 0, d - 1, False)"
        using s assms(4,5) by (simp add: out_of_order_iv_def iv_diff_def word_less_def)
      ultimately show ?thesis using assms(6) d1 by (simp add: recover_iv_def)
    qed
  next
    case False
    then have s: "?s = ?r + d - 256" "sent = carry_up (decrypt_iv c) (sent ! 0)"
      using R byte_step(2) [OF r, of d] r assms(5) by simp_all
    show ?thesis
    proof (cases "d = 1")
      case d1: True
      then have "?r = 255" using False r by simp
      then have "decrypt_iv c ! 0 + 1 = sent ! 0" using inc s d1 by simp
      then show ?thesis using s d1 r \<open>?r = 255\<close>
        by (simp add: recover_iv_def in_order_iv_def word_less_def)
    next
      case d1: False
      have "(?r + 1) mod 256 \<noteq> ?s"
      proof (cases "?r = 255")
        case True
        then show ?thesis using s d1 assms(4) by simp
      next
        case False
        then show ?thesis using s r assms(5) by simp
      qed
      then have "decrypt_iv c ! 0 + 1 \<noteq> sent ! 0" using inc by simp
      moreover have "out_of_order_iv (decrypt_iv c) (sent ! 0) = Some (sent, 0, d - 1, False)"
        using s assms(4,5) by (simp add: out_of_order_iv_def iv_diff_def word_less_def)
      ultimately show ?thesis using assms(6) d1 by (simp add: recover_iv_def)
    qed
  qed
qed

lemma recover_iv_late:
  assumes "length (decrypt_iv c) = 16" "length sent = 16"
    and "iv_value sent = (iv_value (decrypt_iv c) - d) mod 256 ^ 16" "1 \<le> d" "d \<le> 29"
    and "decrypt_history c ! unat (sent ! 0) \<noteq> sent ! 1"
  shows "recover_iv c (sent ! 0) = Some (sent, 1, - 1, True)"
proof -
  let ?r = "uint (decrypt_iv c ! 0)" and ?s = "uint (sent ! 0)"
  have v: "iv_value sent = (iv_value (decrypt_iv c) + (- d)) mod 256 ^ 16" using assms(3) by simp
  note R = recovered_vector [OF assms(1,2) v]
  have r: "0 \<le> ?r" "?r < 256" by (rule uint_u8)+
  have inc: "decrypt_iv c ! 0 + 1 = sent ! 0 \<longleftrightarrow> (?r + 1) mod 256 = ?s"
    by (metis uint_u8_inc word_uint_eq_iff)
  have out: "out_of_order_iv (decrypt_iv c) (sent ! 0) = Some (sent, 1, - 1, True) \<and>
      (?r + 1) mod 256 \<noteq> ?s"
  proof (cases "0 \<le> ?r - d")
    case True
    then have s: "?s = ?r - d" "sent = no_carry (decrypt_iv c) (sent ! 0)"
      using R byte_step(1) [OF r, of "- d"] r assms(4) by simp_all
    have "(?r + 1) mod 256 \<noteq> ?s" using s r assms(4,5) by (cases "?r = 255") simp_all
    then show ?thesis using s assms(4,5) by (simp add: out_of_order_iv_def iv_diff_def word_less_def)
  next
    case False
    then have s: "?s = ?r - d + 256" "sent = carry_down (decrypt_iv c) (sent ! 0)"
      using R byte_step(3) [OF r, of "- d"] r assms(5) by simp_all
    have "?r < 29" using False assms(5) by simp
    then have "(?r + 1) mod 256 \<noteq> ?s" using s r assms(5) by simp
    then show ?thesis using s assms(4,5) by (simp add: out_of_order_iv_def iv_diff_def word_less_def)
  qed
  then show ?thesis using inc assms(6) by (simp add: recover_iv_def)
qed

text \<open>Conversely, a recovered vector is between 29 steps back and 128 steps on.\<close>

lemma replaced_byte_values:
  fixes b :: u8
  assumes "length iv = 16"
  defines "e \<equiv> uint b - uint (iv ! 0)"
  shows "iv_value (no_carry iv b) = (iv_value iv + e) mod 256 ^ 16"
    "iv_value (carry_up iv b) = (iv_value iv + (e + 256)) mod 256 ^ 16"
    "iv_value (carry_down iv b) = (iv_value iv + (e - 256)) mod 256 ^ 16"
proof -
  obtain r bs where iv: "iv = r # bs" "length bs = 15" using assms(1) by (cases iv) auto
  have e: "e = uint b - uint r" by (simp add: e_def iv)
  have l: "(256::int) ^ 16 = 256 ^ length (r # bs)" using iv by simp
  have m: "(uint r + (e + 256 * k)) mod 256 = uint b" "(uint r + (e + 256 * k)) div 256 = k" for k
    using byte_digit [of b k] by (simp_all add: e algebra_simps)
  have *: "(iv_value iv + (e + 256 * k)) mod 256 ^ 16 =
      uint b + 256 * ((iv_value bs + k) mod 256 ^ length bs)" for k
    unfolding iv(1) l iv_value_add_mod m ..
  show "iv_value (no_carry iv b) = (iv_value iv + e) mod 256 ^ 16"
    using * [of 0] iv iv_value_mod [of bs] by (simp add: no_carry_def del: iv_value_mod)
  show "iv_value (carry_up iv b) = (iv_value iv + (e + 256)) mod 256 ^ 16"
    using * [of 1] iv by (simp add: carry_up_def iv_value_increment)
  show "iv_value (carry_down iv b) = (iv_value iv + (e - 256)) mod 256 ^ 16"
    using * [of "- 1"] iv by (simp add: carry_down_def iv_value_decrement)
qed

definition recovered_step :: "mumble_crypt \<Rightarrow> u8 list \<Rightarrow> bool \<Rightarrow> int \<Rightarrow> bool" where
  "recovered_step c iv restore d \<longleftrightarrow>
     length iv = 16 \<and> iv_value iv = (iv_value (decrypt_iv c) + d) mod 256 ^ 16 \<and>
     (if restore then - 29 \<le> d \<and> d \<le> - 1 else 1 \<le> d \<and> d \<le> 128) \<and>
     (restore \<longrightarrow> decrypt_history c ! unat (iv ! 0) \<noteq> iv ! 1)"

lemma in_order_step:
  assumes "length (decrypt_iv c) = 16" "decrypt_iv c ! 0 + 1 = b"
    and "in_order_iv (decrypt_iv c) b = Some (iv, late, lost, restore)"
  shows "recovered_step c iv restore 1"
proof -
  let ?r = "uint (decrypt_iv c ! 0)"
  have b: "uint b = (?r + 1) mod 256" using assms(2) uint_u8_inc by blast
  have r: "0 \<le> ?r" "?r < 256" by (rule uint_u8)+
  note V = replaced_byte_values [OF assms(1), of b]
  show ?thesis
  proof (cases "?r = 255")
    case True
    then have e: "uint b - ?r + 256 = 1" and "\<not> b > decrypt_iv c ! 0"
      using b by (simp_all add: word_less_def)
    then show ?thesis
      using assms(1,3) V(2) [unfolded e]
      by (auto simp: recovered_step_def in_order_iv_def carry_up_def split: if_split_asm)
  next
    case False
    then have e: "uint b - ?r = 1" and "b > decrypt_iv c ! 0"
      using b r by (simp_all add: word_less_def)
    then show ?thesis
      using assms(1,3) V(1) [unfolded e] by (auto simp: recovered_step_def in_order_iv_def no_carry_def)
  qed
qed

lemma iv_diff_cases:
  "b < r \<Longrightarrow> iv_diff b r > -30 \<Longrightarrow> iv_diff b r < 0 \<Longrightarrow> - 29 \<le> uint b - uint r \<and> uint b - uint r \<le> - 1"
  "b > r \<Longrightarrow> iv_diff b r > -30 \<Longrightarrow> iv_diff b r < 0 \<Longrightarrow>
     - 29 \<le> uint b - uint r - 256 \<and> uint b - uint r - 256 \<le> - 1"
  "b > r \<Longrightarrow> iv_diff b r > 0 \<Longrightarrow> 1 \<le> uint b - uint r \<and> uint b - uint r \<le> 128"
  "b < r \<Longrightarrow> iv_diff b r > 0 \<Longrightarrow> 1 \<le> uint b - uint r + 256 \<and> uint b - uint r + 256 \<le> 128"
proof -
  obtain x y where xy: "x = uint b" "y = uint r" by simp
  have u: "0 \<le> x" "x < 256" "0 \<le> y" "y < 256" using uint_u8 xy by auto
  have lt: "b < r \<longleftrightarrow> x < y" "b > r \<longleftrightarrow> x > y" by (simp_all add: word_less_def xy)
  have d: "iv_diff b r = (if x - y > 128 then x - y - 256 else if x - y < -128 then x - y + 256 else x - y)"
    by (simp add: iv_diff_def xy Let_def)
  show "b < r \<Longrightarrow> iv_diff b r > -30 \<Longrightarrow> iv_diff b r < 0 \<Longrightarrow> - 29 \<le> uint b - uint r \<and> uint b - uint r \<le> - 1"
    using u unfolding lt d xy [symmetric] by (simp split: if_split_asm)
  show "b > r \<Longrightarrow> iv_diff b r > -30 \<Longrightarrow> iv_diff b r < 0 \<Longrightarrow>
     - 29 \<le> uint b - uint r - 256 \<and> uint b - uint r - 256 \<le> - 1"
    using u unfolding lt d xy [symmetric] by (simp split: if_split_asm)
  show "b > r \<Longrightarrow> iv_diff b r > 0 \<Longrightarrow> 1 \<le> uint b - uint r \<and> uint b - uint r \<le> 128"
    using u unfolding lt d xy [symmetric] by (simp split: if_split_asm)
  show "b < r \<Longrightarrow> iv_diff b r > 0 \<Longrightarrow> 1 \<le> uint b - uint r + 256 \<and> uint b - uint r + 256 \<le> 128"
    using u unfolding lt d xy [symmetric] by (simp split: if_split_asm)
qed

lemma out_of_order_step:
  assumes "length (decrypt_iv c) = 16"
    and "out_of_order_iv (decrypt_iv c) b = Some (iv, late, lost, restore)"
    and "decrypt_history c ! unat (iv ! 0) \<noteq> iv ! 1"
  shows "\<exists>d. recovered_step c iv restore d"
proof -
  let ?iv = "decrypt_iv c"
  let ?e = "uint b - uint (?iv ! 0)"
  note V = replaced_byte_values [OF assms(1), of b]
  consider (a) "b < ?iv ! 0" "iv_diff b (?iv ! 0) > -30" "iv_diff b (?iv ! 0) < 0"
        "iv = no_carry ?iv b" "restore"
    | (b) "b > ?iv ! 0" "iv_diff b (?iv ! 0) > -30" "iv_diff b (?iv ! 0) < 0"
        "iv = carry_down ?iv b" "restore"
    | (c) "b > ?iv ! 0" "iv_diff b (?iv ! 0) > 0" "iv = no_carry ?iv b" "\<not> restore"
    | (d) "b < ?iv ! 0" "iv_diff b (?iv ! 0) > 0" "iv = carry_up ?iv b" "\<not> restore"
    using assms(2) by (auto simp: out_of_order_iv_def Let_def split: if_split_asm)
  then show ?thesis
  proof cases
    case a
    then have "- 29 \<le> ?e" "?e \<le> - 1"
      using iv_diff_cases [where b=b and r="?iv ! 0"] by blast+
    then have "recovered_step c iv restore ?e"
      using a assms(1,3) V(1) by (simp add: recovered_step_def no_carry_def)
    then show ?thesis ..
  next
    case b
    then have "- 29 \<le> ?e - 256" "?e - 256 \<le> - 1"
      using iv_diff_cases [where b=b and r="?iv ! 0"] by blast+
    then have "recovered_step c iv restore (?e - 256)"
      using b assms(1,3) V(3) by (simp add: recovered_step_def carry_down_def)
    then show ?thesis ..
  next
    case c
    then have "1 \<le> ?e" "?e \<le> 128"
      using iv_diff_cases [where b=b and r="?iv ! 0"] by blast+
    then have "recovered_step c iv restore ?e"
      using c assms(1) V(1) by (simp add: recovered_step_def no_carry_def)
    then show ?thesis ..
  next
    case d
    then have "1 \<le> ?e + 256" "?e + 256 \<le> 128"
      using iv_diff_cases [where b=b and r="?iv ! 0"] by blast+
    then have "recovered_step c iv restore (?e + 256)"
      using d assms(1) V(2) by (simp add: recovered_step_def carry_up_def)
    then show ?thesis ..
  qed
qed

lemma recover_iv_step:
  assumes "length (decrypt_iv c) = 16" "recover_iv c b = Some (iv, late, lost, restore)"
  shows "\<exists>d. recovered_step c iv restore d"
proof (cases "decrypt_iv c ! 0 + 1 = b")
  case True
  then show ?thesis using assms in_order_step [OF assms(1) True] by (auto simp: recover_iv_def)
next
  case False
  then have "out_of_order_iv (decrypt_iv c) b = Some (iv, late, lost, restore)"
      "decrypt_history c ! unat (iv ! 0) \<noteq> iv ! 1"
    using assms(2) by (auto simp: recover_iv_def split: option.split_asm if_split_asm)
  then show ?thesis by (rule out_of_order_step [OF assms(1)])
qed

section \<open>No vector is accepted twice\<close>

text \<open>The vectors of the datagrams a receiver accepts, in the order of acceptance.\<close>

fun accepted_ivs ::
  "(u8 list \<Rightarrow> keyblock \<Rightarrow> keyblock) \<Rightarrow> (u8 list \<Rightarrow> keyblock \<Rightarrow> keyblock) \<Rightarrow> u8 list list \<Rightarrow>
   mumble_crypt \<Rightarrow> u8 list list" where
  "accepted_ivs E D [] c = []"
| "accepted_ivs E D (source # sources) c =
     (case crypt_decrypt E D source c of
        (None, c') \<Rightarrow> accepted_ivs E D sources c'
      | (Some _, c') \<Rightarrow> fst (the (recover_iv c (source ! 0))) # accepted_ivs E D sources c')"

text \<open>
  The vectors are numbers modulo \<open>2 ^ 128\<close>; \<open>N\<close> is the receiver's without the modulus and \<open>S\<close> the
  set of those accepted. The history remembers each accepted one that is less than 30 back.
\<close>

definition vector_of :: "int \<Rightarrow> u8 list \<Rightarrow> bool" where
  "vector_of a iv \<longleftrightarrow> length iv = 16 \<and> iv_value iv = a mod 256 ^ 16"

definition replay_inv :: "mumble_crypt \<Rightarrow> int \<Rightarrow> int set \<Rightarrow> bool" where
  "replay_inv c N S \<longleftrightarrow> length (decrypt_history c) = 256 \<and> vector_of N (decrypt_iv c) \<and>
     (\<forall>a\<in>S. a \<le> N \<and> (N - 30 < a \<longrightarrow>
        (\<exists>iv. vector_of a iv \<and> decrypt_history c ! unat (iv ! 0) = iv ! 1)))"

lemma vector_of_byte: "vector_of a iv \<Longrightarrow> uint (iv ! 0) = a mod 256"
proof -
  assume v: "vector_of a iv"
  then obtain b bs where iv: "iv = b # bs" by (cases iv) (auto simp: vector_of_def)
  have "uint b = iv_value iv mod 256" using byte_digit(1) [of b "iv_value bs"] iv by simp
  also have "\<dots> = (a mod 256 ^ 16) mod 256" using v by (simp add: vector_of_def)
  also have "\<dots> = a mod 256" by (rule mod_mod_cancel) simp
  finally show ?thesis using iv by simp
qed

lemma vector_of_unique: "vector_of a iv \<Longrightarrow> vector_of a iv' \<Longrightarrow> iv = iv'"
  by (rule iv_value_inject) (simp_all add: vector_of_def)

lemma same_low_byte:
  assumes "vector_of a iv" "vector_of b iv'" "iv ! 0 = iv' ! 0" "\<bar>a - b\<bar> < 256"
  shows "a = b"
proof -
  have "a mod 256 = b mod 256" using vector_of_byte assms(1-3) by metis
  then have "256 dvd a - b" by (simp add: mod_eq_dvd_iff)
  with assms(4) show ?thesis by (metis abs_0_eq dvd_imp_le_int linorder_not_less eq_iff_diff_eq_0 abs_numeral)
qed

lemma unat_u8: "unat (b::u8) < 256"
  using uint_u8 [of b] nat_uint_eq [of b] by linarith

lemma replay_inv_accept:
  assumes inv: "replay_inv c N S" and d: "recovered_step c iv restore d"
    and h: "decrypt_history c' = (decrypt_history c)[unat (iv ! 0) := iv ! 1]"
    and v: "decrypt_iv c' = (if restore then decrypt_iv c else iv)"
  shows "N + d \<notin> S" "vector_of (N + d) iv"
    "replay_inv c' (if restore then N else N + d) (insert (N + d) S)"
proof -
  let ?a = "N + d" and ?N = "if restore then N else N + d"
  have dr: "if restore then - 29 \<le> d \<and> d \<le> - 1 else 1 \<le> d \<and> d \<le> 128"
    using d by (simp add: recovered_step_def)
  have H: "length (decrypt_history c) = 256" and vN: "vector_of N (decrypt_iv c)"
    and old: "\<And>x. x \<in> S \<Longrightarrow> x \<le> N \<and> (N - 30 < x \<longrightarrow>
        (\<exists>iv. vector_of x iv \<and> decrypt_history c ! unat (iv ! 0) = iv ! 1))"
    using inv by (auto simp: replay_inv_def)
  have "iv_value iv = (N mod 256 ^ 16 + d) mod 256 ^ 16" "length iv = 16"
    using d vN by (simp_all add: recovered_step_def vector_of_def)
  then show va: "vector_of ?a iv" unfolding vector_of_def by (simp only: mod_add_left_eq)
  show new: "?a \<notin> S"
  proof
    assume a: "?a \<in> S"
    then have "restore" using old [OF a] dr by (auto split: if_splits)
    then have "N - 30 < ?a" using dr by simp
    then obtain iv' where "vector_of ?a iv'" "decrypt_history c ! unat (iv' ! 0) = iv' ! 1"
      using old [OF a] by blast
    then have "decrypt_history c ! unat (iv ! 0) = iv ! 1" using vector_of_unique va by blast
    with d \<open>restore\<close> show False by (simp add: recovered_step_def)
  qed
  have hist: "decrypt_history c' ! unat (iv ! 0) = iv ! 1"
    using h H unat_u8 [of "iv ! 0"] by simp
  have vc: "vector_of ?N (decrypt_iv c')" using v vN va by simp
  moreover have "x \<le> ?N \<and> (?N - 30 < x \<longrightarrow>
      (\<exists>iv. vector_of x iv \<and> decrypt_history c' ! unat (iv ! 0) = iv ! 1))"
    if x: "x \<in> insert ?a S" for x
  proof (cases "x = ?a")
    case True
    then show ?thesis using dr va hist by (auto split: if_splits)
  next
    case False
    then have xS: "x \<in> S" using x by simp
    have "x \<le> ?N" using old [OF xS] dr by (auto split: if_splits)
    moreover have "\<exists>iv. vector_of x iv \<and> decrypt_history c' ! unat (iv ! 0) = iv ! 1"
      if near: "?N - 30 < x"
    proof -
      have "N - 30 < x" using near dr by (auto split: if_splits)
      then obtain iv' where iv': "vector_of x iv'" "decrypt_history c ! unat (iv' ! 0) = iv' ! 1"
        using old [OF xS] by blast
      have "iv' ! 0 \<noteq> iv ! 0"
      proof
        assume "iv' ! 0 = iv ! 0"
        moreover have "\<bar>x - ?a\<bar> < 256" using near old [OF xS] dr by (auto split: if_splits)
        ultimately show False using same_low_byte iv'(1) va False by blast
      qed
      then have "unat (iv' ! 0) \<noteq> unat (iv ! 0)" by (simp add: word_unat_eq_iff)
      then show ?thesis using iv' h by auto
    qed
    ultimately show ?thesis by blast
  qed
  ultimately show "replay_inv c' ?N (insert ?a S)" using h H by (simp add: replay_inv_def)
qed

lemma accepted_distinct:
  assumes "replay_inv c N S"
  shows "\<exists>as. list_all2 vector_of as (accepted_ivs E D sources c) \<and> distinct as \<and> set as \<inter> S = {} \<and>
    (\<forall>a\<in>set as. N - 29 \<le> a \<and> a \<le> N + 128 * int (length sources))"
  using assms
proof (induction sources arbitrary: c N S)
  case Nil
  then show ?case by simp
next
  case (Cons source sources)
  obtain r c' where r: "crypt_decrypt E D source c = (r, c')" by (cases "crypt_decrypt E D source c")
  show ?case
  proof (cases r)
    case None
    then have "c' = c" using crypt_decrypt_None r by blast
    then obtain as where as: "list_all2 vector_of as (accepted_ivs E D sources c)" "distinct as"
        "set as \<inter> S = {}" "\<forall>a\<in>set as. N - 29 \<le> a \<and> a \<le> N + 128 * int (length sources)"
      using Cons by blast
    then have "\<forall>a\<in>set as. N - 29 \<le> a \<and> a \<le> N + 128 * int (length (source # sources))" by force
    with as None r \<open>c' = c\<close> show ?thesis by auto
  next
    case (Some plain)
    with r have dec: "crypt_decrypt E D source c = (Some plain, c')" by simp
    then obtain iv late lost restore where rec: "recover_iv c (source ! 0) = Some (iv, late, lost, restore)"
      and c': "decrypt_history c' = (decrypt_history c)[unat (iv ! 0) := iv ! 1]"
        "decrypt_iv c' = (if restore then decrypt_iv c else iv)"
      by (rule crypt_decrypt_Some) auto
    have "length (decrypt_iv c) = 16" using Cons.prems by (simp add: replay_inv_def vector_of_def)
    then obtain d where d: "recovered_step c iv restore d" using recover_iv_step rec by blast
    let ?N = "if restore then N else N + d"
    note A = replay_inv_accept [OF Cons.prems d c']
    have dr: "if restore then - 29 \<le> d \<and> d \<le> - 1 else 1 \<le> d \<and> d \<le> 128"
      using d by (simp add: recovered_step_def)
    obtain as where as: "list_all2 vector_of as (accepted_ivs E D sources c')" "distinct as"
        "set as \<inter> insert (N + d) S = {}"
        "\<forall>a\<in>set as. ?N - 29 \<le> a \<and> a \<le> ?N + 128 * int (length sources)"
      using Cons.IH [OF A(3)] by blast
    have "list_all2 vector_of ((N + d) # as) (accepted_ivs E D (source # sources) c)"
      using as(1) A(2) dec rec by simp
    moreover have "distinct ((N + d) # as)" "set ((N + d) # as) \<inter> S = {}" using as A(1) by auto
    moreover have "N - 29 \<le> a \<and> a \<le> N + 128 * int (length (source # sources))"
      if "a \<in> set ((N + d) # as)" for a
    proof (cases "a = N + d")
      case True
      then show ?thesis using dr by (auto split: if_splits)
    next
      case False
      then have "?N - 29 \<le> a \<and> a \<le> ?N + 128 * int (length sources)" using as(4) that by auto
      then show ?thesis using dr by (auto split: if_splits)
    qed
    ultimately show ?thesis by blast
  qed
qed

lemma distinct_vectors:
  assumes "list_all2 vector_of as ivs" "distinct as" "\<forall>a\<in>set as. l \<le> a \<and> a < l + 256 ^ 16"
  shows "distinct ivs"
  using assms
proof (induction as ivs rule: list_all2_induct)
  case (Cons a as iv ivs)
  have "iv \<notin> set ivs"
  proof
    assume "iv \<in> set ivs"
    then obtain b where b: "b \<in> set as" "vector_of b iv"
      using Cons.hyps(2) by (metis in_set_conv_nth list_all2_conv_all_nth)
    then have "a mod 256 ^ 16 = b mod 256 ^ 16" using Cons.hyps(1) by (simp add: vector_of_def)
    then have "256 ^ 16 dvd a - b" by (simp add: mod_eq_dvd_iff)
    moreover have "\<bar>a - b\<bar> < 256 ^ 16" using Cons.prems b(1) by auto
    ultimately have "a = b"
      by (metis abs_0_eq dvd_imp_le_int linorder_not_less eq_iff_diff_eq_0 abs_power_minus abs_numeral power_abs)
    with b Cons.prems show False by auto
  qed
  with Cons show ?case by auto
qed simp

section \<open>Delivery\<close>

lemma crypt_encrypt_ok:
  assumes "crypt_encrypt E plain c = (r, c')"
  shows "c' = c \<lparr> encrypt_iv := iv_increment (encrypt_iv c) \<rparr>" "length (encrypt_iv c) = 16 \<Longrightarrow>
    iv_value (encrypt_iv c') = (iv_value (encrypt_iv c) + 1) mod 256 ^ 16"
  using assms
  by (auto simp: crypt_encrypt_def Let_def iv_value_increment split: prod.split_asm if_split_asm)

lemma crypt_decrypt_encrypted:
  assumes inv: "\<And>k x. D k (E k x) = x" and key: "raw_key a = raw_key b"
    and enc: "crypt_encrypt E plain a = (r, a')"
    and rec: "recover_iv b (encrypt_iv a' ! 0) = Some (encrypt_iv a', late, lost, restore)"
    and free: "last_block_free (E (raw_key a)) True plain (encrypt_iv a')"
  shows "\<exists>packet. r = Some packet \<and> length packet = length plain + 4 \<and> crypt_decrypt E D packet b =
    (Some (received True plain),
     b \<lparr> decrypt_history := (decrypt_history b)[unat (encrypt_iv a' ! 0) := encrypt_iv a' ! 1],
         decrypt_iv := (if restore then decrypt_iv b else encrypt_iv a'),
         uiGood := uiGood b + 1, uiLate := update_stat (uiLate b) late,
         uiLost := update_stat (uiLost b) lost \<rparr>)"
proof -
  obtain s e t where o: "crypt_ocb_encrypt (E (raw_key a)) plain (encrypt_iv a') True = (s, e, t)"
    by (cases "crypt_ocb_encrypt (E (raw_key a)) plain (encrypt_iv a') True") auto
  note O = ocb_decrypt_encrypt [of "D (raw_key a)" "E (raw_key a)", OF inv o]
  have a': "a' = a \<lparr> encrypt_iv := iv_increment (encrypt_iv a) \<rparr>" using crypt_encrypt_ok(1) [OF enc] .
  have r: "r = Some (encrypt_iv a' ! 0 # t ! 0 # t ! 1 # t ! 2 # e)"
    using enc o O(4) unfolding crypt_encrypt_def Let_def a' by auto
  have t: "take 3 t = [t ! 0, t ! 1, t ! 2]"
    using O(3) by (intro nth_equalityI) (auto simp: less_Suc_eq numeral_3_eq_3 numeral_2_eq_2 nth_Cons')
  show ?thesis
    using O(1,2) t rec key free r by (simp add: crypt_decrypt_def)
qed

section \<open>Properties\<close>

text \<open>
  The receiver recovers the sender's vector: of a vector \<open>d\<close> steps ahead of its own, for any
  \<open>d\<close> from 1 to 127 and across any number of carries, the low byte is enough to find it, and the
  number of lost datagrams it counts is \<open>d - 1\<close>; of one up to 29 steps behind it finds it too and
  marks the datagram as late, provided the history does not have it.
\<close>

theorem vector_recovery:
  assumes "length (decrypt_iv c) = 16" "length sent = 16"
  shows "(\<forall>d. 1 \<le> d \<and> d \<le> 127 \<and> iv_value sent = (iv_value (decrypt_iv c) + d) mod 256 ^ 16 \<and>
      (d = 1 \<or> decrypt_history c ! unat (sent ! 0) \<noteq> sent ! 1) \<longrightarrow>
      recover_iv c (sent ! 0) = Some (sent, 0, d - 1, False)) \<and>
    (\<forall>d. 1 \<le> d \<and> d \<le> 29 \<and> iv_value sent = (iv_value (decrypt_iv c) - d) mod 256 ^ 16 \<and>
      decrypt_history c ! unat (sent ! 0) \<noteq> sent ! 1 \<longrightarrow>
      recover_iv c (sent ! 0) = Some (sent, 1, - 1, True))"
  using recover_iv_ahead [OF assms] recover_iv_late [OF assms] by blast

definition crypt_fresh :: mumble_crypt where
  "crypt_fresh = crypt_init \<lparr> decrypt_history := replicate 256 9 \<rparr>"

lemma replicate16:
  "replicate 16 x = [x, x, x, x, x, x, x, x, x, x, x, x, x, x, x, x]"
  "replicate 15 x = [x, x, x, x, x, x, x, x, x, x, x, x, x, x, x]"
  by (simp_all add: numeral_eq_Suc)

lemma vector_recovery_witness:
  "recover_iv (crypt_fresh \<lparr> decrypt_iv := replicate 16 255 \<rparr>) 4 =
     Some (4 # replicate 15 0, 0, 4, False)"
proof -
  let ?c = "crypt_fresh \<lparr> decrypt_iv := replicate 16 255 \<rparr>"
  have v: "iv_value (4 # replicate 15 0) = (iv_value (decrypt_iv ?c) + 5) mod 256 ^ 16"
    by (simp add: replicate16)
  have "decrypt_history ?c ! unat ((4 # replicate 15 0) ! 0 :: u8) \<noteq> (4 # replicate 15 0) ! 1"
    by (simp add: crypt_fresh_def)
  then show ?thesis
    using vector_recovery [of ?c "4 # replicate 15 0"] v by (auto dest!: spec [of _ "5::int"])
qed

text \<open>
  C3. End to end: a text encrypted by one side decrypts on the other side, when both have the same
  key and the receiver's vector is 1 to 127 behind (up to 126 datagrams of a burst may be lost),
  to the text the OCB layer delivers. The receiver's vector catches up with the sender's, one
  more good datagram is counted and the \<open>d - 1\<close> missing ones are added to the lost ones.
\<close>

theorem crypt_delivery:
  assumes "\<And>k x. D k (E k x) = x" "crypt_ok a" "crypt_ok b" "raw_key a = raw_key b"
    and "crypt_encrypt E plain a = (r, a')"
    and "iv_value (encrypt_iv a') = (iv_value (decrypt_iv b) + d) mod 256 ^ 16" "1 \<le> d" "d \<le> 127"
    and "d = 1 \<or> decrypt_history b ! unat (encrypt_iv a' ! 0) \<noteq> encrypt_iv a' ! 1"
    and "last_block_free (E (raw_key a)) True plain (encrypt_iv a')"
  shows "\<exists>packet b'. r = Some packet \<and> length packet = length plain + 4 \<and>
    crypt_decrypt E D packet b = (Some (received True plain), b') \<and> crypt_ok b' \<and>
    decrypt_iv b' = encrypt_iv a' \<and> uiGood b' = uiGood b + 1 \<and>
    uiLost b' = update_stat (uiLost b) (d - 1)"
proof -
  have l: "length (decrypt_iv b) = 16" "length (encrypt_iv a') = 16"
    using assms(2,3) crypt_encrypt_ok(1) [OF assms(5)] by (simp_all add: crypt_ok_def)
  have "recover_iv b (encrypt_iv a' ! 0) = Some (encrypt_iv a', 0, d - 1, False)"
    by (rule recover_iv_ahead [OF l assms(6-9)])
  from crypt_decrypt_encrypted [OF assms(1,4,5) this assms(10)]
  obtain packet where "r = Some packet" "length packet = length plain + 4"
    "crypt_decrypt E D packet b = (Some (received True plain),
       b \<lparr> decrypt_history := (decrypt_history b)[unat (encrypt_iv a' ! 0) := encrypt_iv a' ! 1],
         decrypt_iv := encrypt_iv a', uiGood := uiGood b + 1, uiLate := update_stat (uiLate b) 0,
         uiLost := update_stat (uiLost b) (d - 1) \<rparr>)"
    by auto
  with crypt_ok_decrypt [OF assms(3), of E D packet] show ?thesis by simp
qed

definition id_cipher :: "u8 list \<Rightarrow> keyblock \<Rightarrow> keyblock" where
  "id_cipher k x = x"

lemma id_cipher_free:
  "p \<noteq> 0 \<Longrightarrow> last_block_free (id_cipher k) True [p] (replicate 16 0)"
proof -
  assume p: "p \<noteq> 0"
  have z: "load_block (replicate 16 0) = ZERO" by (simp add: load_block_def ZERO_def numeral_eq_Suc)
  have "S2 ZERO = ZERO" by (simp add: S2_def ZERO_def SWAPPED_def numeral_eq_Suc)
  then show ?thesis
    using p by (simp add: last_block_free_def ocb_encrypt_blocks.simps id_cipher_def z Let_def)
      (simp add: ZERO_def store_block_def numeral_eq_Suc)
qed

lemma crypt_delivery_witness:
  "\<exists>packet b'. fst (crypt_encrypt id_cipher [65] (crypt_init \<lparr> encrypt_iv := replicate 16 255 \<rparr>)) = Some packet \<and>
    crypt_decrypt id_cipher id_cipher packet (crypt_fresh \<lparr> decrypt_iv := 253 # replicate 15 255 \<rparr>) =
      (Some [65], b') \<and> uiLost b' = 2"
proof -
  let ?a = "crypt_init \<lparr> encrypt_iv := replicate 16 255 \<rparr>"
  let ?b = "crypt_fresh \<lparr> decrypt_iv := 253 # replicate 15 255 \<rparr>"
  obtain r a' where e: "crypt_encrypt id_cipher [65] ?a = (r, a')"
    by (cases "crypt_encrypt id_cipher [65] ?a") auto
  have iv: "encrypt_iv a' = replicate 16 0"
    using crypt_encrypt_ok(1) [OF e] by (simp add: replicate16)
  have "\<exists>packet b'. r = Some packet \<and> length packet = length [65 :: u8] + 4 \<and>
    crypt_decrypt id_cipher id_cipher packet ?b = (Some (received True [65]), b') \<and> crypt_ok b' \<and>
    decrypt_iv b' = encrypt_iv a' \<and> uiGood b' = uiGood ?b + 1 \<and>
    uiLost b' = update_stat (uiLost ?b) (3 - 1)"
  proof (rule crypt_delivery [OF _ _ _ _ e, where d = 3])
    show "iv_value (encrypt_iv a') = (iv_value (decrypt_iv ?b) + 3) mod 256 ^ 16"
      by (simp add: iv replicate16)
    show "last_block_free (id_cipher (raw_key ?a)) True [65] (encrypt_iv a')"
      unfolding iv by (rule id_cipher_free) simp
  qed (simp_all add: id_cipher_def crypt_ok_def crypt_fresh_def crypt_init_def iv)
  then show ?thesis using e by (auto simp: received.simps crypt_fresh_def crypt_init_def update_stat_def)
qed

text \<open>
  C4. No replay: of any sequence of datagrams a receiver is fed, in any order and with any
  repetitions, no two that it accepts were sent under the same vector (for fewer than about
  \<open>2 ^ 121\<close> datagrams, the time in which the vector cannot come round). This rests on the 256-entry
  history and on late datagrams being taken only from the last 29 vectors.
\<close>

theorem no_vector_twice:
  assumes "crypt_ok c" "128 * int (length sources) + 30 < 256 ^ 16"
  shows "distinct (accepted_ivs E D sources c)"
proof -
  have "replay_inv c (iv_value (decrypt_iv c)) {}"
    using assms(1) iv_value_mod [of "decrypt_iv c"]
    by (simp add: replay_inv_def vector_of_def crypt_ok_def)
  then obtain as where "list_all2 vector_of as (accepted_ivs E D sources c)" "distinct as"
      "\<forall>a\<in>set as. iv_value (decrypt_iv c) - 29 \<le> a \<and>
         a \<le> iv_value (decrypt_iv c) + 128 * int (length sources)"
    using accepted_distinct by blast
  then show ?thesis
    using assms(2)
    by (intro distinct_vectors [where l = "iv_value (decrypt_iv c) - 29"]) auto
qed

lemma no_vector_twice_witness:
  "distinct (accepted_ivs id_cipher id_cipher [[1, 0, 0, 0, 5], [1, 0, 0, 0, 5]] crypt_init)"
  by (rule no_vector_twice) (simp_all add: crypt_ok_init)

text \<open>
  A datagram that is refused (too short, out of the window, a repeat, a wrong tag) leaves the
  state of the receiver unchanged, and an accepted one counts exactly one more good datagram and
  changes no key.
\<close>

theorem refused_unchanged:
  "case crypt_decrypt E D source c of
     (None, c') \<Rightarrow> c' = c
   | (Some plain, c') \<Rightarrow> length plain + 4 = length source \<and> uiGood c' = uiGood c + 1 \<and>
       raw_key c' = raw_key c \<and> encrypt_iv c' = encrypt_iv c"
proof -
  have len: "length plain = length enc"
    if "crypt_ocb_decrypt E1 D1 enc nonce = (s, plain, tag)" for E1 D1 enc nonce s plain tag
  proof -
    have loop: "length out + length enc' = length xs \<and> length enc' \<le> 16"
      if "ocb_decrypt_blocks D1 xs d ch = (enc', out, d', ch')" for xs d ch enc' out d' ch'
      using that
    proof (induction xs arbitrary: d ch out rule: measure_induct_rule [of length])
      case (less xs)
      show ?case
      proof (cases "16 < length xs")
        case True
        then obtain r where "ocb_decrypt_blocks D1 (drop 16 xs) (S2 d)
            (XOR_block ch (XOR_block (S2 d) (D1 (XOR_block (S2 d) (load_block xs))))) =
            (enc', r, d', ch')" "length out = 16 + length r"
          using less.prems
          by (simp add: ocb_decrypt_blocks.simps [of D1 xs] Let_def split: prod.splits) auto
        with less.IH [of "drop 16 xs"] True show ?thesis by fastforce
      next
        case False
        with less.prems show ?thesis by (simp add: ocb_decrypt_blocks.simps [of D1 xs])
      qed
    qed
    obtain enc' out d' ch' where "ocb_decrypt_blocks D1 enc (E1 (load_block nonce)) ZERO = (enc', out, d', ch')"
      by (cases "ocb_decrypt_blocks D1 enc (E1 (load_block nonce)) ZERO") auto
    with loop [OF this] that show ?thesis by (auto simp: crypt_ocb_decrypt_def Let_def)
  qed
  obtain r c' where r: "crypt_decrypt E D source c = (r, c')" by (cases "crypt_decrypt E D source c")
  show ?thesis
  proof (cases r)
    case None
    then show ?thesis using r crypt_decrypt_None [of E D source c c'] by simp
  next
    case (Some plain)
    with r have dec: "crypt_decrypt E D source c = (Some plain, c')" by simp
    then have "length plain + 4 = length source \<and> uiGood c' = uiGood c + 1 \<and>
        raw_key c' = raw_key c \<and> encrypt_iv c' = encrypt_iv c"
      by (rule crypt_decrypt_Some) (auto dest: len)
    with dec show ?thesis by simp
  qed
qed

end
