(* ===== verification/Lua.thy ===== *)
theory Lua
  imports Prelude
begin

text \<open>
  The values the client hands to Lua, as the calls \<open>lua_pushinteger\<close>, \<open>lua_setfield\<close>,
  \<open>lua_settable\<close> build them, the errors a binding raises, and the text helpers of \<open>mumble/util.c\<close>.
  A user or channel object is the value \<open>LUser s\<close> or \<open>LChan i\<close>, a function of a metatable the
  value \<open>LMethod name\<close>, another function \<open>LFunction f\<close>, a voice target \<open>LTarget t\<close>, \<open>LRef name\<close>
  is the object a member of the client refers to, and \<open>LObject metatable n\<close> any other object. A C string is the list of its
  bytes before the NUL, a NULL pointer is \<open>None\<close>. How Lua represents a number is left to Lua:
  \<open>LInt\<close> is the integer, \<open>LNum\<close> the bits of the double the C code pushed.
\<close>

section \<open>Values\<close>

datatype lkey = KName string | KInt int

datatype lval =
    LNil
  | LBool bool
  | LInt int
  | LNum u64
  | LStr "u8 list"
  | LUser u32
  | LChan u32
  | LClient int
  | LMethod string
  | LFunction nat
  | LTarget nat
  | LRef string
  | LObject string nat
  | LTable "(lkey \<times> lval) list"

type_synonym ltable = "(lkey \<times> lval) list"
type_synonym cstr = "u8 list"

definition bytes_of :: "string \<Rightarrow> cstr" where
  "bytes_of s = map of_char s"

text \<open>\<open>lua_settable\<close>: an entry with the key is replaced; the value nil removes it.\<close>

definition set_field :: "'k \<Rightarrow> lval \<Rightarrow> ('k \<times> lval) list \<Rightarrow> ('k \<times> lval) list" where
  "set_field k v t = filter (\<lambda>e. fst e \<noteq> k) t @ (if v = LNil then [] else [(k, v)])"

definition new_table :: "(lkey \<times> lval) list \<Rightarrow> lval" where
  "new_table es = LTable (fold (\<lambda>e. set_field (fst e) (snd e)) es [])"

definition array_table :: "lval list \<Rightarrow> lval" where
  "array_table vs = new_table (zip (map (\<lambda>i. KInt (int i)) [1 ..< Suc (length vs)]) vs)"

fun get_field :: "lkey \<Rightarrow> lval \<Rightarrow> lval" where
  "get_field k (LTable t) = (case map_of t k of None \<Rightarrow> LNil | Some v \<Rightarrow> v)"
| "get_field k _ = LNil"

text \<open>
  The values of C variables: an unsigned integer below 64 bits, a signed one (and a 64-bit one,
  which \<open>lua_Integer\<close> reads as signed), a string that may be NULL.
\<close>

definition vint :: "'a::len word \<Rightarrow> lval" where "vint w = LInt (uint w)"
definition vsint :: "'a::len word \<Rightarrow> lval" where "vsint w = LInt (sint w)"
definition vstr :: "cstr option \<Rightarrow> lval" where
  "vstr s = (case s of None \<Rightarrow> LNil | Some t \<Rightarrow> LStr t)"

text \<open>A field that the handler sets only when the message has it.\<close>

definition opt_field :: "string \<Rightarrow> ('a \<Rightarrow> lval) \<Rightarrow> 'a option \<Rightarrow> (lkey \<times> lval) list" where
  "opt_field name f x = (case x of None \<Rightarrow> [] | Some v \<Rightarrow> [(KName name, f v)])"

definition field :: "string \<Rightarrow> lval \<Rightarrow> (lkey \<times> lval) list" where
  "field name v = [(KName name, v)]"

text \<open>A table field for a repeated member, set only when the member is not empty.\<close>

definition list_field :: "string \<Rightarrow> ('a \<Rightarrow> lval) \<Rightarrow> 'a list \<Rightarrow> (lkey \<times> lval) list" where
  "list_field name f xs = (if xs = [] then [] else field name (array_table (map f xs)))"

section \<open>Errors of the bindings\<close>

datatype lua_error =
    BadArgument nat string
  | BadTableEntry nat
  | LuaError string
  | NoMemory

type_synonym 'a lua_result = "lua_error + 'a"

definition arg :: "lval list \<Rightarrow> nat \<Rightarrow> lval option" where
  "arg args n = (if 0 < n \<and> n \<le> length args then Some (args ! (n - 1)) else None)"

text \<open>
  \<open>luaL_checkstring\<close>, \<open>luaL_checklstring\<close>, \<open>luaL_checkinteger\<close>, \<open>lua_toboolean\<close> and the like on
  the argument at a position. Lua converts numbers to strings and back; a binding is given here
  arguments of the type it asks for, or it raises. A C string ends at its first NUL.
\<close>

definition c_string :: "u8 list \<Rightarrow> cstr" where
  "c_string bs = takeWhile (\<lambda>b. b \<noteq> 0) bs"

definition check_lstring :: "lval list \<Rightarrow> nat \<Rightarrow> u8 list lua_result" where
  "check_lstring args n =
     (case arg args n of Some (LStr s) \<Rightarrow> Inr s | _ \<Rightarrow> Inl (BadArgument n ''string expected''))"

definition check_string :: "lval list \<Rightarrow> nat \<Rightarrow> cstr lua_result" where
  "check_string args n =
     (case check_lstring args n of Inl e \<Rightarrow> Inl e | Inr s \<Rightarrow> Inr (c_string s))"

definition absent :: "lval option \<Rightarrow> bool" where
  "absent v \<longleftrightarrow> v = None \<or> v = Some LNil"

definition opt_string :: "lval list \<Rightarrow> nat \<Rightarrow> cstr \<Rightarrow> cstr lua_result" where
  "opt_string args n d = (if absent (arg args n) then Inr d else check_string args n)"

definition check_integer :: "lval list \<Rightarrow> nat \<Rightarrow> int lua_result" where
  "check_integer args n =
     (case arg args n of Some (LInt i) \<Rightarrow> Inr i | _ \<Rightarrow> Inl (BadArgument n ''number expected''))"

definition opt_integer :: "lval list \<Rightarrow> nat \<Rightarrow> int \<Rightarrow> int lua_result" where
  "opt_integer args n d = (if absent (arg args n) then Inr d else check_integer args n)"

definition check_number :: "lval list \<Rightarrow> nat \<Rightarrow> u64 lua_result" where
  "check_number args n =
     (case arg args n of Some (LNum d) \<Rightarrow> Inr d | _ \<Rightarrow> Inl (BadArgument n ''number expected''))"

definition to_boolean :: "lval list \<Rightarrow> nat \<Rightarrow> bool" where
  "to_boolean args n =
     (case arg args n of None \<Rightarrow> False | Some LNil \<Rightarrow> False | Some (LBool b) \<Rightarrow> b | Some _ \<Rightarrow> True)"

definition luaL_checkboolean :: "lval list \<Rightarrow> nat \<Rightarrow> bool lua_result" where
  "luaL_checkboolean args n =
     (case arg args n of Some (LBool b) \<Rightarrow> Inr b | _ \<Rightarrow> Inl (BadArgument n ''boolean expected''))"

definition luaL_optboolean :: "lval list \<Rightarrow> nat \<Rightarrow> bool \<Rightarrow> bool lua_result" where
  "luaL_optboolean args n d = (if absent (arg args n) then Inr d else luaL_checkboolean args n)"

definition check_channel :: "lval list \<Rightarrow> nat \<Rightarrow> u32 lua_result" where
  "check_channel args n =
     (case arg args n of Some (LChan i) \<Rightarrow> Inr i | _ \<Rightarrow> Inl (BadArgument n ''mumble.channel expected''))"

text \<open>
  \<open>luaL_checkoption\<close> with a default, or with none; \<open>lua_tointeger\<close> of a number, where a double that
  does not fit is undefined.
\<close>

definition check_option :: "lval list \<Rightarrow> nat \<Rightarrow> string option \<Rightarrow> string list \<Rightarrow> string lua_result" where
  "check_option args n d options =
     (case (d, absent (arg args n)) of
        (Some name, True) \<Rightarrow> Inr name
      | _ \<Rightarrow>
          (case check_string args n of
             Inl e \<Rightarrow> Inl e
           | Inr s \<Rightarrow>
               (case find (\<lambda>name. bytes_of name = s) options of
                  None \<Rightarrow> Inl (BadArgument n ''invalid option'')
                | Some name \<Rightarrow> Inr name)))"

definition opt_number :: "lval list \<Rightarrow> nat \<Rightarrow> u64 \<Rightarrow> u64 lua_result" where
  "opt_number args n d = (if absent (arg args n) then Inr d else check_number args n)"

definition bind_result :: "'a lua_result \<Rightarrow> ('a \<Rightarrow> 'b lua_result) \<Rightarrow> 'b lua_result" where
  "bind_result r f = (case r of Inl e \<Rightarrow> Inl e | Inr x \<Rightarrow> f x)"

section \<open>Text\<close>

definition hex_digit :: "u8 \<Rightarrow> u8" where
  "hex_digit n = bytes_of ''0123456789abcdef'' ! unat (n AND 0x0F)"

definition hex2 :: "u8 \<Rightarrow> cstr" where
  "hex2 b = [hex_digit (drop_bit 4 b), hex_digit b]"

definition bin_to_strhex :: "u8 list \<Rightarrow> cstr" where
  "bin_to_strhex bin = concat (map hex2 bin)"

fun decimal :: "nat \<Rightarrow> cstr" where
  "decimal n = (if n < 10 then [of_nat (48 + n)] else decimal (n div 10) @ [of_nat (48 + n mod 10)])"

declare decimal.simps [simp del]

text \<open>
  \<open>strndup\<close> of binary data copies up to the first NUL and terminates the copy; of no data (a NULL
  pointer) it is not called. \<open>binary_copy\<close> is the block the pointer then points to.
\<close>

definition binary_copy :: "u8 list \<Rightarrow> u8 list" where
  "binary_copy data = (if data = [] then [] else takeWhile (\<lambda>b. b \<noteq> 0) data @ [0])"

section \<open>Facts\<close>

lemma bind_result_simps [simp]:
  "bind_result (Inl e) f = Inl e" "bind_result (Inr x) f = f x"
  by (simp_all add: bind_result_def)

lemma bind_result_Inr: "bind_result r f = Inr y \<longleftrightarrow> (\<exists>x. r = Inr x \<and> f x = Inr y)"
  by (cases r) auto

lemma field_lists:
  "opt_field n f None = []" "opt_field n f (Some x) = [(KName n, f x)]" "field n v = [(KName n, v)]"
  "list_field n f [] = []" "list_field n f (y # ys) = [(KName n, array_table (map f (y # ys)))]"
  by (simp_all add: opt_field_def field_def list_field_def)

lemma map_of_set_field:
  "map_of (set_field k v t) k' =
     (if k' = k then (if v = LNil then None else Some v) else map_of t k')"
proof -
  have "map_of (filter (\<lambda>e. fst e \<noteq> k) t) k' = (if k' = k then None else map_of t k')"
    by (induction t) auto
  then show ?thesis by (auto simp: set_field_def map_add_def split: option.splits)
qed

lemma map_of_new_table:
  "get_field k (new_table es) =
     (case find (\<lambda>e. fst e = k) (rev es) of None \<Rightarrow> LNil | Some e \<Rightarrow> snd e)"
proof -
  have "map_of (fold (\<lambda>e. set_field (fst e) (snd e)) es []) k =
      (case find (\<lambda>e. fst e = k) (rev es) of
         None \<Rightarrow> None | Some e \<Rightarrow> if snd e = LNil then None else Some (snd e))"
  proof (induction es rule: rev_induct)
    case (snoc e es)
    then show ?case by (auto simp: map_of_set_field)
  qed simp
  then show ?thesis by (auto simp: new_table_def split: option.splits)
qed

lemma length_bin_to_strhex [simp]: "length (bin_to_strhex bs) = 2 * length bs"
  by (induction bs) (auto simp: bin_to_strhex_def hex2_def)

lemma binary_copy_clean:
  "\<forall>b\<in>set data. b \<noteq> 0 \<Longrightarrow> slice (binary_copy data) 0 (length data) = Some data"
proof -
  assume "\<forall>b\<in>set data. b \<noteq> 0"
  then have eq: "takeWhile (\<lambda>b. b \<noteq> 0) data = data" by (simp only: takeWhile_eq_all_conv)
  show ?thesis unfolding binary_copy_def eq by (simp add: slice_def)
qed

text \<open>A zero byte before the last position makes the copy shorter than what is read from it.\<close>

lemma binary_copy_short:
  assumes "i + 1 < length data" "data ! i = 0"
  shows "slice (binary_copy data) 0 (length data) = None"
proof -
  have "length (takeWhile (\<lambda>b. b \<noteq> 0) data) \<le> i"
  proof (rule ccontr)
    assume "\<not> length (takeWhile (\<lambda>b. b \<noteq> 0) data) \<le> i"
    then have "i < length (takeWhile (\<lambda>b. b \<noteq> 0) data)" by simp
    then have "takeWhile (\<lambda>b. b \<noteq> 0) data ! i = data ! i \<and> takeWhile (\<lambda>b. b \<noteq> 0) data ! i \<noteq> 0"
      using takeWhile_nth set_takeWhileD [of "takeWhile (\<lambda>b. b \<noteq> 0) data ! i" "\<lambda>b. b \<noteq> 0" data]
      by (metis nth_mem)
    with assms(2) show False by simp
  qed
  then show ?thesis using assms(1) by (auto simp: binary_copy_def slice_def)
qed

text \<open>The hexadecimal text determines the bytes.\<close>

lemma hex_digit_values: "distinct (bytes_of ''0123456789abcdef'')"
  by (simp add: bytes_of_def of_char_def)

lemma hex_digit_inject: "hex_digit a = hex_digit b \<longleftrightarrow> a AND 0x0F = b AND 0x0F"
proof
  have l: "unat (c AND 0x0F) < length (bytes_of ''0123456789abcdef'')" for c :: u8
  proof -
    have "c AND 0x0F = take_bit 4 c" unfolding mask_lits by (simp add: take_bit_eq_mask)
    then have "unat (c AND 0x0F) < 2 ^ 4"
      by (metis unsigned_take_bit_eq take_bit_nat_less_exp)
    then show ?thesis by (simp add: bytes_of_def)
  qed
  assume "hex_digit a = hex_digit b"
  then have "unat (a AND 0x0F) = unat (b AND 0x0F)"
    unfolding hex_digit_def using nth_eq_iff_index_eq [OF hex_digit_values l l] by blast
  then show "a AND 0x0F = b AND 0x0F" by (simp only: unsigned_word_eqI)
qed (simp add: hex_digit_def)

lemma hex2_inject: "hex2 a = hex2 b \<Longrightarrow> a = b"
proof -
  assume "hex2 a = hex2 b"
  then have h: "drop_bit 4 a AND mask 4 = drop_bit 4 b AND mask 4" "a AND mask 4 = b AND mask 4"
    by (simp_all add: hex2_def hex_digit_inject mask_lits)
  show "a = b"
  proof (rule bit_word_eqI)
    fix n assume n: "n < LENGTH(8)"
    show "bit a n = bit b n"
    proof (cases "n < 4")
      case True
      then show ?thesis using arg_cong [OF h(2), of "\<lambda>w. bit w n"] by (simp add: bit_simps)
    next
      case False
      moreover have "n - 4 < 4" "n - 4 < 8" "4 + (n - 4) = n" using False n by auto
      ultimately show ?thesis
        using arg_cong [OF h(1), of "\<lambda>w. bit w (n - 4)"] by (simp add: bit_simps)
    qed
  qed
qed

lemma bin_to_strhex_inject: "bin_to_strhex as = bin_to_strhex bs \<Longrightarrow> as = bs"
proof (induction as arbitrary: bs)
  case Nil
  then show ?case by (cases bs) (auto simp: bin_to_strhex_def hex2_def)
next
  case (Cons a as)
  then obtain b bs' where b: "bs = b # bs'" by (cases bs) (auto simp: bin_to_strhex_def hex2_def)
  with Cons.prems have "hex2 a = hex2 b \<and> bin_to_strhex as = bin_to_strhex bs'"
    by (auto simp: bin_to_strhex_def hex2_def)
  with Cons.IH hex2_inject b show ?case by blast
qed

text \<open>The fields of an array.\<close>

lemma new_table_distinct:
  "distinct (map fst es) \<Longrightarrow>
   get_field k (new_table es) = (case map_of es k of None \<Rightarrow> LNil | Some v \<Rightarrow> v)"
proof -
  assume "distinct (map fst es)"
  then have "map_of (fold (\<lambda>e. set_field (fst e) (snd e)) es []) k =
      (case map_of es k of None \<Rightarrow> None | Some v \<Rightarrow> if v = LNil then None else Some v)"
  proof (induction es rule: rev_induct)
    case (snoc e es)
    then have "fst e = k \<Longrightarrow> map_of es k = None" by (force simp: map_of_eq_None_iff)
    with snoc show ?case by (auto simp: map_of_set_field map_add_def split: option.splits)
  qed simp
  then show ?thesis by (auto simp: new_table_def split: option.splits)
qed

lemma get_array_table:
  "get_field (KInt k) (array_table vs) =
     (if 1 \<le> k \<and> k \<le> int (length vs) then vs ! nat (k - 1) else LNil)"
proof -
  let ?keys = "map (\<lambda>i. KInt (int i)) [1 ..< Suc (length vs)]"
  have d: "distinct ?keys" by (simp add: distinct_map inj_on_def)
  have l: "length ?keys = length vs" by (simp del: upt_Suc)
  have g: "get_field (KInt k) (array_table vs) =
      (case map_of (zip ?keys vs) (KInt k) of None \<Rightarrow> LNil | Some v \<Rightarrow> v)"
    unfolding array_table_def by (rule new_table_distinct) (simp only: d map_fst_zip [OF l])
  show ?thesis
  proof (cases "1 \<le> k \<and> k \<le> int (length vs)")
    case True
    then have "nat (k - 1) < length vs" "?keys ! nat (k - 1) = KInt k" by (auto simp del: upt_Suc)
    then have "map_of (zip ?keys vs) (KInt k) = Some (vs ! nat (k - 1))"
      using map_of_zip_nth [OF l d, of "nat (k - 1)"] by simp
    with True g show ?thesis by simp
  next
    case False
    then have "KInt k \<notin> set ?keys" by auto
    then have "map_of (zip ?keys vs) (KInt k) = None" using l by (metis map_of_zip_is_None)
    with g have "get_field (KInt k) (array_table vs) = LNil" by (simp only: option.case)
    then show ?thesis by (simp only: if_not_P [OF False])
  qed
qed

lemma in_array_table:
  "v \<noteq> LNil \<Longrightarrow> (\<exists>k. get_field (KInt k) (array_table vs) = v) \<longleftrightarrow> v \<in> set vs"
proof
  assume "v \<in> set vs"
  then obtain n where "n < length vs" "v = vs ! n" by (auto simp: in_set_conv_nth)
  then show "\<exists>k. get_field (KInt k) (array_table vs) = v"
    by (intro exI [of _ "int (Suc n)"]) (simp add: get_array_table)
qed (auto simp: get_array_table split: if_splits)

end
