(* ===== verification/Client.thy ===== *)
theory Client
  imports Lua Interfaces Crypt Links
begin

text \<open>
  The state of a client (\<open>struct MumbleClient\<close>, \<open>MumbleUser\<close>, \<open>MumbleChannel\<close> of
  \<open>mumble/types.h\<close>) and the operations of \<open>mumble/mumble.c\<close> on it: the tables of users and
  channels, the hooks, the messages sent, the pushing of addresses, disconnecting. What the client
  does to the outside is recorded in \<open>trace\<close>: the hook calls with their arguments and the messages
  handed to the connection, in the order they happen. A Lua callback may itself call the API; that
  is a further operation of the model, not part of the hook call.
\<close>

section \<open>Code the program calls\<close>

text \<open>
  IEEE arithmetic on the bits of floats and doubles, \<open>inet_ntop\<close>, the functions of Opus, AES,
  the coders protobuf-c generates for datagrams, the length operator of Lua tables and the text of
  the address of an object or of a number are parameters, and so are the version of the build and
  the answers of \<open>uname\<close>. An encoder is the list of the
  control requests made to it, with integer arguments or with the named ones of Opus. A conversion of a number that
  does not fit the integer type is undefined in C and is \<open>None\<close>.
\<close>

text \<open>
  \<open>MumbleUDP.Audio\<close>: its \<open>oneof\<close> of \<open>target\<close> and \<open>context\<close> is a union in C, so both names read the
  same 32 bits, zero when neither is in the message.
\<close>

record udp_audio =
  a_header :: u32
  a_sender_session :: u32
  a_frame_number :: u64
  a_opus_data :: "u8 list"
  a_is_terminator :: bool

text \<open>
  A message the client sends: the fields that are present in the packed message, which are those
  whose \<open>has_\<close> flag is set, the strings that are not NULL and the repeated members. A repeated
  string that is NULL is \<open>PNull\<close>; what the packer makes of it is its own.
\<close>

datatype pval =
    PU32 u32 | PU64 u64 | PI32 u32 | PBool bool | PStr cstr | PBytes "u8 list"
  | PFloat u32 | PList "pval list" | PMsg "(string \<times> pval) list" | PNull

datatype encoder_ctl = Set_Int string int | Set_To string string

record env =
  d_of_u64 :: "u64 \<Rightarrow> u64"
  d_of_float :: "u32 \<Rightarrow> u64"
  float_of_d :: "u64 \<Rightarrow> u32"
  d_add :: "u64 \<Rightarrow> u64 \<Rightarrow> u64"
  d_sub :: "u64 \<Rightarrow> u64 \<Rightarrow> u64"
  d_mul :: "u64 \<Rightarrow> u64 \<Rightarrow> u64"
  d_div :: "u64 \<Rightarrow> u64 \<Rightarrow> u64"
  d_fabs :: "u64 \<Rightarrow> u64"
  d_square :: "u64 \<Rightarrow> u64"
  int_of_d :: "u64 \<Rightarrow> int option"
  integer_of_float :: "u32 \<Rightarrow> int option"
  inet_ntop4 :: "u8 list \<Rightarrow> cstr option"
  inet_ntop6 :: "u8 list \<Rightarrow> cstr option"
  opus_bitrate :: "encoder_ctl list \<Rightarrow> 32 word"
  opus_channels :: "u8 list \<Rightarrow> int"
  opus_bandwidth :: "u8 list \<Rightarrow> int"
  opus_frame_samples :: "u8 list \<Rightarrow> int"
  opus_decode :: "u8 list \<Rightarrow> u32 list option"
  objlen :: "ltable \<Rightarrow> nat"
  aes_encrypt :: "u8 list \<Rightarrow> keyblock \<Rightarrow> keyblock"
  aes_decrypt :: "u8 list \<Rightarrow> keyblock \<Rightarrow> keyblock"
  pack_udp_ping :: "u64 \<Rightarrow> u8 list"
  unpack_udp_ping :: "u8 list \<Rightarrow> u64 option"
  unpack_udp_audio :: "u8 list \<Rightarrow> udp_audio option"
  pack_udp_audio :: "(string \<times> pval) list \<Rightarrow> u8 list"
  pointer_text :: "lval \<Rightarrow> cstr"
  number_text :: "lval \<Rightarrow> cstr"
  git_version :: cstr
  os_name :: cstr
  os_version :: cstr

text \<open>A voice target; the optional members are those whose \<open>has_\<close> flag is set.\<close>

record voice_target =
  vt_session :: "u32 list"
  vt_channel_id :: "u32 option"
  vt_group :: "cstr option"
  vt_links :: "bool option"
  vt_children :: "bool option"

text \<open>
  What the outside answers while one event is handled: the first and second reading of
  \<open>uv_hrtime\<close>, the time \<open>uv_now\<close> of the event loop, whether the buffer of silence is allocated,
  what becomes of a datagram to send, the error of a file that cannot be opened, what
  \<open>lua_getinfo\<close> tells of the running method, the voice targets of the script and what its functions
  return for some arguments, or the message when they raise an error; \<open>wd_erroring\<close> is the static variable
  \<open>erroring\<close>, set while the hook for errors is called.
\<close>

datatype send_outcome = No_Buffer | No_Request | Send_Failed | Send_Ok

record world =
  hrtime1 :: u64
  hrtime2 :: u64
  now :: u64
  memory :: bool
  sending :: send_outcome
  open_error :: "cstr option"
  called :: string
  targets :: "nat \<Rightarrow> voice_target option"
  callback :: "lval \<Rightarrow> lval list \<Rightarrow> lval + lval list"
  wd_erroring :: bool

definition d_of_u32 :: "env \<Rightarrow> u32 \<Rightarrow> u64" where
  "d_of_u32 E x = d_of_u64 E (ucast x)"

section \<open>Messages\<close>

datatype packet_type =
    PACKET_VERSION | PACKET_UDPTUNNEL | PACKET_AUTHENTICATE | PACKET_PING
  | PACKET_SERVERREJECT | PACKET_SERVERSYNC | PACKET_CHANNELREMOVE | PACKET_CHANNELSTATE
  | PACKET_USERREMOVE | PACKET_USERSTATE | PACKET_BANLIST | PACKET_TEXTMESSAGE
  | PACKET_PERMISSIONDENIED | PACKET_ACL | PACKET_QUERYUSERS | PACKET_CRYPTSETUP
  | PACKET_CONTEXTACTIONMOD | PACKET_CONTEXTACTION | PACKET_USERLIST | PACKET_VOICETARGET
  | PACKET_PERMISSIONQUERY | PACKET_CODECVERSION | PACKET_USERSTATS | PACKET_REQUESTBLOB
  | PACKET_SERVERCONFIG | PACKET_SUGGESTCONFIG | PACKET_PLUGINDATA

definition packet_types :: "packet_type list" where
  "packet_types =
     [PACKET_VERSION, PACKET_UDPTUNNEL, PACKET_AUTHENTICATE, PACKET_PING,
      PACKET_SERVERREJECT, PACKET_SERVERSYNC, PACKET_CHANNELREMOVE, PACKET_CHANNELSTATE,
      PACKET_USERREMOVE, PACKET_USERSTATE, PACKET_BANLIST, PACKET_TEXTMESSAGE,
      PACKET_PERMISSIONDENIED, PACKET_ACL, PACKET_QUERYUSERS, PACKET_CRYPTSETUP,
      PACKET_CONTEXTACTIONMOD, PACKET_CONTEXTACTION, PACKET_USERLIST, PACKET_VOICETARGET,
      PACKET_PERMISSIONQUERY, PACKET_CODECVERSION, PACKET_USERSTATS, PACKET_REQUESTBLOB,
      PACKET_SERVERCONFIG, PACKET_SUGGESTCONFIG, PACKET_PLUGINDATA]"

datatype event =
    Hook string "lval list"
  | Sent packet_type "(string \<times> pval) list"
  | Tunnelled "u8 list"
  | Datagram "u8 list"

section \<open>Users, channels, client\<close>

record user =
  u_connected :: bool
  u_session :: u32
  u_user_id :: u32
  u_name :: "cstr option"
  u_channel_id :: u32
  u_mute :: bool
  u_deaf :: bool
  u_self_mute :: bool
  u_self_deaf :: bool
  u_suppress :: bool
  u_comment :: "cstr option"
  u_comment_hash :: "u8 list"
  u_comment_hash_len :: nat
  u_speaking :: bool
  u_recording :: bool
  u_priority_speaker :: bool
  u_texture :: "u8 list"
  u_texture_hash :: "u8 list"
  u_texture_hash_len :: nat
  u_hash :: "cstr option"
  u_listens :: "u32 list"
  u_recording_file :: "u32 list option"
  u_last_spoke :: "u64 option"
  u_data :: "(lval \<times> lval) list"

record channel =
  c_name :: "cstr option"
  c_channel_id :: u32
  c_parent :: u32
  c_description :: "cstr option"
  c_description_hash :: "u8 list"
  c_description_hash_len :: "nat option"
  c_temporary :: bool
  c_position :: "32 word"
  c_max_users :: u32
  c_links :: "u32 list"
  c_is_enter_restricted :: bool
  c_can_enter :: "bool option"
  c_permissions :: u32
  c_listening_volume_adjustment :: "u32 option"
  c_data :: "(lval \<times> lval) list"

record client =
  self :: int
  connecting :: bool
  connected :: bool
  synced :: bool
  legacy :: bool
  users :: "u32 \<Rightarrow> user option"
  user_list :: "u32 list"
  channels :: "u32 \<Rightarrow> channel option"
  channel_list :: "u32 list"
  max_bandwidth :: u32
  session :: u32
  ping_timer :: bool
  audio_sequence :: u32
  audio_frames :: u32
  audio_target :: u8
  encoder :: "encoder_ctl list"
  tcp_packets :: u32
  tcp_ping_avg :: u64
  tcp_ping_var :: u64
  tcp_udp_tunnel :: bool
  udp_ping_acc :: u8
  udp_packets :: u32
  udp_ping_avg :: u64
  udp_ping_var :: u64
  resync :: u32
  crypt :: "mumble_crypt option"
  recording :: bool
  cl_version :: "u64 \<times> u64 \<times> u64"
  cl_host :: "cstr option"
  cl_port :: u16
  cl_address :: "cstr option"
  cl_time :: u64
  cl_volume :: u64
  cl_hooks :: ltable
  cl_unset :: bool
  trace :: "event list"

text \<open>
  \<open>cl_address\<close> is the text of the address \<open>getaddrinfo\<close> found, \<open>cl_volume\<close> the bits of a double and
  \<open>cl_hooks\<close> the table of hooks: the name of a hook leads to a table of its callbacks.

  \<open>mumble_client_new\<close> does not set \<open>max_bandwidth\<close> and \<open>resync\<close>, which keep what the
  memory of the new userdata held. It does not set the pointers that connecting sets either: \<open>crypt\<close>,
  the address, the objects of OpenSSL and the decoder. \<open>cl_unset\<close> says that not all of them have been
  written yet. \<open>None\<close> in \<open>crypt\<close> and \<open>cl_address\<close> is a pointer that cannot be followed, NULL or, while
  \<open>cl_unset\<close> holds, whatever the memory held: to follow it is undefined in both cases, and \<open>or_fail\<close>, the
  one place that frees such a pointer, is undefined then. The time is not read before connecting sets it.
\<close>

definition mumble_client_new :: "u64 \<Rightarrow> u64 \<Rightarrow> u64 \<Rightarrow> u32 \<Rightarrow> u32 \<Rightarrow> client" where
  "mumble_client_new major minor patch junk_bandwidth junk_resync =
     \<lparr> self = -2, connecting = False, connected = False, synced = False,
       legacy = (major \<le> 1 \<and> minor < 5),
       users = Map.empty, user_list = [], channels = Map.empty, channel_list = [],
       max_bandwidth = junk_bandwidth, session = 0, ping_timer = False,
       audio_sequence = 0, audio_frames = 20, audio_target = 0, encoder = [],
       tcp_packets = 0, tcp_ping_avg = 0, tcp_ping_var = 0, tcp_udp_tunnel = True,
       udp_ping_acc = 0, udp_packets = 0, udp_ping_avg = 0, udp_ping_var = 0,
       resync = junk_resync, crypt = None, recording = False,
       cl_version = (major, minor, patch), cl_host = None, cl_port = 0, cl_address = None,
       cl_time = 0, cl_volume = 0x3FE0000000000000, cl_hooks = [], cl_unset = True, trace = [] \<rparr>"

section \<open>Hooks and sending\<close>

text \<open>\<open>LUA_NOREF\<close> is -2, \<open>LUA_REFNIL\<close> is -1.\<close>

definition mumble_hook_call :: "string \<Rightarrow> lval list \<Rightarrow> client \<Rightarrow> client" where
  "mumble_hook_call hook args c =
     (if self c \<le> -2 then c else c \<lparr> trace := trace c @ [Hook hook args] \<rparr>)"

definition packet_send :: "packet_type \<Rightarrow> (string \<times> pval) list \<Rightarrow> client \<Rightarrow> client" where
  "packet_send ty msg c = c \<lparr> trace := trace c @ [Sent ty msg] \<rparr>"

section \<open>Users\<close>

definition new_user :: "u32 \<Rightarrow> user" where
  "new_user s =
     \<lparr> u_connected = False, u_session = s, u_user_id = 0, u_name = None, u_channel_id = 0,
       u_mute = False, u_deaf = False, u_self_mute = False, u_self_deaf = False,
       u_suppress = False, u_comment = None, u_comment_hash = [], u_comment_hash_len = 0,
       u_speaking = False, u_recording = False, u_priority_speaker = False, u_texture = [],
       u_texture_hash = [], u_texture_hash_len = 0, u_hash = None, u_listens = [],
       u_recording_file = None, u_last_spoke = None, u_data = [] \<rparr>"

definition mumble_user_get :: "u32 \<Rightarrow> client \<Rightarrow> user \<times> client" where
  "mumble_user_get s c =
     (case users c s of
        Some u \<Rightarrow> (u, c)
      | None \<Rightarrow>
          let u = new_user s
          in (u, c \<lparr> users := (users c)(s \<mapsto> u), user_list := s # user_list c \<rparr>))"

text \<open>
  The session is passed as the \<open>int ref\<close> of \<open>mumble_registry_pushref\<close>: from \<open>2 ^ 31\<close> on it is a
  negative key, under which the table holds nothing.
\<close>

definition mumble_user_raw_get :: "client \<Rightarrow> u32 \<Rightarrow> lval" where
  "mumble_user_raw_get c s =
     (if sint s < 0 then LNil else case users c s of None \<Rightarrow> LNil | Some u \<Rightarrow> LUser s)"

definition mumble_user_isnil :: "client \<Rightarrow> u32 \<Rightarrow> bool" where
  "mumble_user_isnil c s = (users c s = None)"

definition mumble_user_remove :: "u32 \<Rightarrow> client \<Rightarrow> client" where
  "mumble_user_remove s c =
     c \<lparr> users := (users c)(s := None), user_list := remove1 s (user_list c) \<rparr>"

text \<open>Writing a member through the pointer of a user object.\<close>

definition put_user :: "u32 \<Rightarrow> user \<Rightarrow> client \<Rightarrow> client" where
  "put_user s u c = (if users c s = None then c else c \<lparr> users := (users c)(s \<mapsto> u) \<rparr>)"

section \<open>Channels\<close>

definition new_channel :: "u32 \<Rightarrow> channel" where
  "new_channel i =
     \<lparr> c_name = None, c_channel_id = i, c_parent = 0, c_description = None,
       c_description_hash = [], c_description_hash_len = None, c_temporary = False,
       c_position = 0, c_max_users = 0, c_links = [], c_is_enter_restricted = False,
       c_can_enter = None, c_permissions = 0, c_listening_volume_adjustment = None,
       c_data = [] \<rparr>"

definition mumble_channel_get :: "u32 \<Rightarrow> client \<Rightarrow> channel \<times> client" where
  "mumble_channel_get i c =
     (case channels c i of
        Some ch \<Rightarrow> (ch, c)
      | None \<Rightarrow>
          let ch = new_channel i
          in (ch, c \<lparr> channels := (channels c)(i \<mapsto> ch), channel_list := i # channel_list c \<rparr>))"

definition mumble_channel_raw_get :: "client \<Rightarrow> u32 \<Rightarrow> lval" where
  "mumble_channel_raw_get c i =
     (if sint i < 0 then LNil else case channels c i of None \<Rightarrow> LNil | Some ch \<Rightarrow> LChan i)"

definition mumble_channel_remove :: "u32 \<Rightarrow> client \<Rightarrow> client" where
  "mumble_channel_remove i c =
     c \<lparr> channels := (channels c)(i := None), channel_list := remove1 i (channel_list c) \<rparr>"

definition put_channel :: "u32 \<Rightarrow> channel \<Rightarrow> client \<Rightarrow> client" where
  "put_channel i ch c = (if channels c i = None then c else c \<lparr> channels := (channels c)(i \<mapsto> ch) \<rparr>)"

section \<open>Addresses\<close>

definition colons :: "cstr list \<Rightarrow> cstr" where
  "colons gs = concat (butlast (concat (map (\<lambda>g. [g, bytes_of '':'']) gs)))"

definition ipv6_fallback :: "u8 list \<Rightarrow> cstr" where
  "ipv6_fallback b =
     colons [hex2 (b ! 0) @ hex2 (b ! 1), hex2 (b ! 2) @ hex2 (b ! 3),
             hex2 (b ! 4) @ hex2 (b ! 5), hex2 (b ! 5) @ hex2 (b ! 7),
             hex2 (b ! 8) @ hex2 (b ! 9), hex2 (b ! 10) @ hex2 (b ! 11),
             hex2 (b ! 12) @ hex2 (b ! 13), hex2 (b ! 14) @ hex2 (b ! 15)]"

definition ipv4_fallback :: "u8 list \<Rightarrow> cstr" where
  "ipv4_fallback b =
     decimal (unat (b ! 0)) @ bytes_of ''.'' @ decimal (unat (b ! 1)) @ bytes_of ''.'' @
     decimal (unat (b ! 2)) @ bytes_of ''.'' @ decimal (unat (b ! 3))"

definition address_is_ipv6 :: "u8 list \<Rightarrow> bool option" where
  "address_is_ipv6 address = do {
     addr0 \<leftarrow> slice address 0 8;
     if addr0 \<noteq> replicate 8 0 then Some True
     else do {
       shorts4 \<leftarrow> slice address 8 2;
       if shorts4 \<noteq> [0, 0] then Some True
       else do { shorts5 \<leftarrow> slice address 10 2; Some (shorts5 \<noteq> [0xFF, 0xFF]) }
     }
   }"

definition mumble_push_address :: "env \<Rightarrow> u8 list \<Rightarrow> lval option" where
  "mumble_push_address E address = do {
     ipv6 \<leftarrow> address_is_ipv6 address;
     if ipv6 then do {
       b \<leftarrow> slice address 0 16;
       let ipv6 = (case inet_ntop6 E b of Some s \<Rightarrow> s | None \<Rightarrow> ipv6_fallback b);
       Some (new_table
         (field ''ipv6'' (LBool True) @ field ''string'' (LStr ipv6) @
          field ''data'' (array_table (map vint address))))
     } else do {
       b \<leftarrow> slice address 0 4;
       ipv4 \<leftarrow> (case inet_ntop4 E b of
                  Some s \<Rightarrow> Some s
                | None \<Rightarrow> map_option ipv4_fallback (slice address 12 4));
       Some (new_table
         (field ''ipv4'' (LBool True) @ field ''string'' (LStr ipv4) @
          field ''data'' (array_table (map vint address))))
     }
   }"

section \<open>Recording\<close>

text \<open>The file of a recorded user is the list of the samples written to it.\<close>

definition any_recorded :: "client \<Rightarrow> bool" where
  "any_recorded c =
     (\<exists>s \<in> set (user_list c). case users c s of None \<Rightarrow> False | Some u \<Rightarrow> u_recording_file u \<noteq> None)"

definition mumble_update_recording_status :: "client \<Rightarrow> client" where
  "mumble_update_recording_status c =
     (let isRecordingUser = any_recorded c
      in if recording c \<noteq> isRecordingUser then
           packet_send PACKET_USERSTATE
             [(''session'', PU32 (session c)), (''recording'', PBool isRecordingUser)]
             (c \<lparr> recording := isRecordingUser \<rparr>)
         else c)"

text \<open>
  The silence since the user last spoke, \<open>(silence_duration / 1000.0) * 48000 * 2\<close> samples; an
  allocation that fails only logs.
\<close>

definition mumble_handle_record_silence :: "env \<Rightarrow> bool \<Rightarrow> u64 \<Rightarrow> user \<Rightarrow> user option" where
  "mumble_handle_record_silence E allocated time u =
     (case u_recording_file u of
        None \<Rightarrow> Some u
      | Some written \<Rightarrow> do {
          last \<leftarrow> u_last_spoke u;
          let silence_duration = time - last;
          silence_samples \<leftarrow> int_of_d E
            (d_mul E (d_mul E (d_div E (d_of_u64 E silence_duration) (d_of_u64 E 1000))
               (d_of_u64 E 48000)) (d_of_u64 E 2));
          Some (if silence_samples > 0 \<and> allocated
                then u \<lparr> u_recording_file := Some (written @ replicate (nat silence_samples) 0) \<rparr>
                else u)
        })"

text \<open>Decoding that fails, or finds no memory, leaves the file as it is.\<close>

definition mumble_handle_record :: "env \<Rightarrow> user \<Rightarrow> u8 list \<Rightarrow> user" where
  "mumble_handle_record E u encoded =
     (case u_recording_file u of
        None \<Rightarrow> u
      | Some written \<Rightarrow>
          (case opus_decode E encoded of
             None \<Rightarrow> u
           | Some pcm \<Rightarrow> u \<lparr> u_recording_file := Some (written @ pcm) \<rparr>))"

section \<open>Disconnecting\<close>

text \<open>
  \<open>mumble_client_cleanup\<close>: the handles are closed, every user and channel is removed in the order
  of the lists, and the client leaves the table of connected clients. \<open>mumble_client_free\<close> frees the
  host, the crypt state, the SSL objects and the addresses.
\<close>

definition mumble_client_cleanup :: "client \<Rightarrow> client" where
  "mumble_client_cleanup c =
     (let c = c \<lparr> ping_timer := False \<rparr>;
          c = remove_all mumble_user_remove (user_list c) c;
          c = remove_all mumble_channel_remove (channel_list c) c
      in if self c > -1 then c \<lparr> self := -2 \<rparr> else c)"

definition mumble_client_free :: "client \<Rightarrow> client" where
  "mumble_client_free c = c \<lparr> crypt := None, cl_host := None, cl_address := None \<rparr>"

definition mumble_disconnect :: "cstr \<Rightarrow> bool \<Rightarrow> client \<Rightarrow> client" where
  "mumble_disconnect reason garbagecollected c =
     (if \<not> connecting c then c
      else
        let c = c \<lparr> connecting := False, connected := False \<rparr>;
            c = (if garbagecollected then c else mumble_hook_call ''OnDisconnect'' [LStr reason] c)
        in mumble_client_free (mumble_client_cleanup c))"

section \<open>What the operations leave alone\<close>

named_theorems client_frame \<open>members of the client an operation does not touch\<close>

lemma hook_call_frame [simp, client_frame]:
  "self (mumble_hook_call h args c) = self c"
  "connecting (mumble_hook_call h args c) = connecting c"
  "connected (mumble_hook_call h args c) = connected c"
  "synced (mumble_hook_call h args c) = synced c"
  "legacy (mumble_hook_call h args c) = legacy c"
  "users (mumble_hook_call h args c) = users c"
  "user_list (mumble_hook_call h args c) = user_list c"
  "channels (mumble_hook_call h args c) = channels c"
  "channel_list (mumble_hook_call h args c) = channel_list c"
  "max_bandwidth (mumble_hook_call h args c) = max_bandwidth c"
  "session (mumble_hook_call h args c) = session c"
  "ping_timer (mumble_hook_call h args c) = ping_timer c"
  "audio_sequence (mumble_hook_call h args c) = audio_sequence c"
  "audio_frames (mumble_hook_call h args c) = audio_frames c"
  "audio_target (mumble_hook_call h args c) = audio_target c"
  "encoder (mumble_hook_call h args c) = encoder c"
  "tcp_packets (mumble_hook_call h args c) = tcp_packets c"
  "tcp_ping_avg (mumble_hook_call h args c) = tcp_ping_avg c"
  "tcp_ping_var (mumble_hook_call h args c) = tcp_ping_var c"
  "tcp_udp_tunnel (mumble_hook_call h args c) = tcp_udp_tunnel c"
  "udp_ping_acc (mumble_hook_call h args c) = udp_ping_acc c"
  "udp_packets (mumble_hook_call h args c) = udp_packets c"
  "udp_ping_avg (mumble_hook_call h args c) = udp_ping_avg c"
  "udp_ping_var (mumble_hook_call h args c) = udp_ping_var c"
  "resync (mumble_hook_call h args c) = resync c"
  "crypt (mumble_hook_call h args c) = crypt c"
  "recording (mumble_hook_call h args c) = recording c"
  by (simp_all add: mumble_hook_call_def)

lemma packet_send_frame [simp, client_frame]:
  "self (packet_send ty msg c) = self c"
  "connecting (packet_send ty msg c) = connecting c"
  "connected (packet_send ty msg c) = connected c"
  "synced (packet_send ty msg c) = synced c"
  "legacy (packet_send ty msg c) = legacy c"
  "users (packet_send ty msg c) = users c"
  "user_list (packet_send ty msg c) = user_list c"
  "channels (packet_send ty msg c) = channels c"
  "channel_list (packet_send ty msg c) = channel_list c"
  "max_bandwidth (packet_send ty msg c) = max_bandwidth c"
  "session (packet_send ty msg c) = session c"
  "ping_timer (packet_send ty msg c) = ping_timer c"
  "audio_sequence (packet_send ty msg c) = audio_sequence c"
  "audio_frames (packet_send ty msg c) = audio_frames c"
  "audio_target (packet_send ty msg c) = audio_target c"
  "encoder (packet_send ty msg c) = encoder c"
  "tcp_packets (packet_send ty msg c) = tcp_packets c"
  "tcp_ping_avg (packet_send ty msg c) = tcp_ping_avg c"
  "tcp_ping_var (packet_send ty msg c) = tcp_ping_var c"
  "tcp_udp_tunnel (packet_send ty msg c) = tcp_udp_tunnel c"
  "udp_ping_acc (packet_send ty msg c) = udp_ping_acc c"
  "udp_packets (packet_send ty msg c) = udp_packets c"
  "udp_ping_avg (packet_send ty msg c) = udp_ping_avg c"
  "udp_ping_var (packet_send ty msg c) = udp_ping_var c"
  "resync (packet_send ty msg c) = resync c"
  "crypt (packet_send ty msg c) = crypt c"
  "recording (packet_send ty msg c) = recording c"
  by (simp_all add: packet_send_def)

lemma user_get_frame [simp, client_frame]:
  "self (snd (mumble_user_get s c)) = self c"
  "connecting (snd (mumble_user_get s c)) = connecting c"
  "connected (snd (mumble_user_get s c)) = connected c"
  "synced (snd (mumble_user_get s c)) = synced c"
  "legacy (snd (mumble_user_get s c)) = legacy c"
  "channels (snd (mumble_user_get s c)) = channels c"
  "channel_list (snd (mumble_user_get s c)) = channel_list c"
  "max_bandwidth (snd (mumble_user_get s c)) = max_bandwidth c"
  "session (snd (mumble_user_get s c)) = session c"
  "ping_timer (snd (mumble_user_get s c)) = ping_timer c"
  "audio_sequence (snd (mumble_user_get s c)) = audio_sequence c"
  "audio_frames (snd (mumble_user_get s c)) = audio_frames c"
  "audio_target (snd (mumble_user_get s c)) = audio_target c"
  "encoder (snd (mumble_user_get s c)) = encoder c"
  "tcp_packets (snd (mumble_user_get s c)) = tcp_packets c"
  "tcp_ping_avg (snd (mumble_user_get s c)) = tcp_ping_avg c"
  "tcp_ping_var (snd (mumble_user_get s c)) = tcp_ping_var c"
  "tcp_udp_tunnel (snd (mumble_user_get s c)) = tcp_udp_tunnel c"
  "udp_ping_acc (snd (mumble_user_get s c)) = udp_ping_acc c"
  "udp_packets (snd (mumble_user_get s c)) = udp_packets c"
  "udp_ping_avg (snd (mumble_user_get s c)) = udp_ping_avg c"
  "udp_ping_var (snd (mumble_user_get s c)) = udp_ping_var c"
  "resync (snd (mumble_user_get s c)) = resync c"
  "crypt (snd (mumble_user_get s c)) = crypt c"
  "recording (snd (mumble_user_get s c)) = recording c"
  "trace (snd (mumble_user_get s c)) = trace c"
  by (simp_all add: mumble_user_get_def Let_def split: option.splits)

lemma channel_get_frame [simp, client_frame]:
  "self (snd (mumble_channel_get i c)) = self c"
  "connecting (snd (mumble_channel_get i c)) = connecting c"
  "connected (snd (mumble_channel_get i c)) = connected c"
  "synced (snd (mumble_channel_get i c)) = synced c"
  "legacy (snd (mumble_channel_get i c)) = legacy c"
  "users (snd (mumble_channel_get i c)) = users c"
  "user_list (snd (mumble_channel_get i c)) = user_list c"
  "max_bandwidth (snd (mumble_channel_get i c)) = max_bandwidth c"
  "session (snd (mumble_channel_get i c)) = session c"
  "ping_timer (snd (mumble_channel_get i c)) = ping_timer c"
  "audio_sequence (snd (mumble_channel_get i c)) = audio_sequence c"
  "audio_frames (snd (mumble_channel_get i c)) = audio_frames c"
  "audio_target (snd (mumble_channel_get i c)) = audio_target c"
  "encoder (snd (mumble_channel_get i c)) = encoder c"
  "tcp_packets (snd (mumble_channel_get i c)) = tcp_packets c"
  "tcp_ping_avg (snd (mumble_channel_get i c)) = tcp_ping_avg c"
  "tcp_ping_var (snd (mumble_channel_get i c)) = tcp_ping_var c"
  "tcp_udp_tunnel (snd (mumble_channel_get i c)) = tcp_udp_tunnel c"
  "udp_ping_acc (snd (mumble_channel_get i c)) = udp_ping_acc c"
  "udp_packets (snd (mumble_channel_get i c)) = udp_packets c"
  "udp_ping_avg (snd (mumble_channel_get i c)) = udp_ping_avg c"
  "udp_ping_var (snd (mumble_channel_get i c)) = udp_ping_var c"
  "resync (snd (mumble_channel_get i c)) = resync c"
  "crypt (snd (mumble_channel_get i c)) = crypt c"
  "recording (snd (mumble_channel_get i c)) = recording c"
  "trace (snd (mumble_channel_get i c)) = trace c"
  by (simp_all add: mumble_channel_get_def Let_def split: option.splits)

lemma put_user_frame [simp, client_frame]:
  "self (put_user s u c) = self c"
  "connecting (put_user s u c) = connecting c"
  "connected (put_user s u c) = connected c"
  "synced (put_user s u c) = synced c"
  "legacy (put_user s u c) = legacy c"
  "user_list (put_user s u c) = user_list c"
  "channels (put_user s u c) = channels c"
  "channel_list (put_user s u c) = channel_list c"
  "max_bandwidth (put_user s u c) = max_bandwidth c"
  "session (put_user s u c) = session c"
  "ping_timer (put_user s u c) = ping_timer c"
  "audio_sequence (put_user s u c) = audio_sequence c"
  "audio_frames (put_user s u c) = audio_frames c"
  "audio_target (put_user s u c) = audio_target c"
  "encoder (put_user s u c) = encoder c"
  "tcp_packets (put_user s u c) = tcp_packets c"
  "tcp_ping_avg (put_user s u c) = tcp_ping_avg c"
  "tcp_ping_var (put_user s u c) = tcp_ping_var c"
  "tcp_udp_tunnel (put_user s u c) = tcp_udp_tunnel c"
  "udp_ping_acc (put_user s u c) = udp_ping_acc c"
  "udp_packets (put_user s u c) = udp_packets c"
  "udp_ping_avg (put_user s u c) = udp_ping_avg c"
  "udp_ping_var (put_user s u c) = udp_ping_var c"
  "resync (put_user s u c) = resync c"
  "crypt (put_user s u c) = crypt c"
  "recording (put_user s u c) = recording c"
  "trace (put_user s u c) = trace c"
  by (simp_all add: put_user_def)

lemma put_channel_frame [simp, client_frame]:
  "self (put_channel i ch c) = self c"
  "connecting (put_channel i ch c) = connecting c"
  "connected (put_channel i ch c) = connected c"
  "synced (put_channel i ch c) = synced c"
  "legacy (put_channel i ch c) = legacy c"
  "users (put_channel i ch c) = users c"
  "user_list (put_channel i ch c) = user_list c"
  "channel_list (put_channel i ch c) = channel_list c"
  "max_bandwidth (put_channel i ch c) = max_bandwidth c"
  "session (put_channel i ch c) = session c"
  "ping_timer (put_channel i ch c) = ping_timer c"
  "audio_sequence (put_channel i ch c) = audio_sequence c"
  "audio_frames (put_channel i ch c) = audio_frames c"
  "audio_target (put_channel i ch c) = audio_target c"
  "encoder (put_channel i ch c) = encoder c"
  "tcp_packets (put_channel i ch c) = tcp_packets c"
  "tcp_ping_avg (put_channel i ch c) = tcp_ping_avg c"
  "tcp_ping_var (put_channel i ch c) = tcp_ping_var c"
  "tcp_udp_tunnel (put_channel i ch c) = tcp_udp_tunnel c"
  "udp_ping_acc (put_channel i ch c) = udp_ping_acc c"
  "udp_packets (put_channel i ch c) = udp_packets c"
  "udp_ping_avg (put_channel i ch c) = udp_ping_avg c"
  "udp_ping_var (put_channel i ch c) = udp_ping_var c"
  "resync (put_channel i ch c) = resync c"
  "crypt (put_channel i ch c) = crypt c"
  "recording (put_channel i ch c) = recording c"
  "trace (put_channel i ch c) = trace c"
  by (simp_all add: put_channel_def)

lemma user_remove_frame [simp, client_frame]:
  "self (mumble_user_remove s c) = self c"
  "connecting (mumble_user_remove s c) = connecting c"
  "connected (mumble_user_remove s c) = connected c"
  "synced (mumble_user_remove s c) = synced c"
  "legacy (mumble_user_remove s c) = legacy c"
  "channels (mumble_user_remove s c) = channels c"
  "channel_list (mumble_user_remove s c) = channel_list c"
  "max_bandwidth (mumble_user_remove s c) = max_bandwidth c"
  "session (mumble_user_remove s c) = session c"
  "ping_timer (mumble_user_remove s c) = ping_timer c"
  "audio_sequence (mumble_user_remove s c) = audio_sequence c"
  "audio_frames (mumble_user_remove s c) = audio_frames c"
  "audio_target (mumble_user_remove s c) = audio_target c"
  "encoder (mumble_user_remove s c) = encoder c"
  "tcp_packets (mumble_user_remove s c) = tcp_packets c"
  "tcp_ping_avg (mumble_user_remove s c) = tcp_ping_avg c"
  "tcp_ping_var (mumble_user_remove s c) = tcp_ping_var c"
  "tcp_udp_tunnel (mumble_user_remove s c) = tcp_udp_tunnel c"
  "udp_ping_acc (mumble_user_remove s c) = udp_ping_acc c"
  "udp_packets (mumble_user_remove s c) = udp_packets c"
  "udp_ping_avg (mumble_user_remove s c) = udp_ping_avg c"
  "udp_ping_var (mumble_user_remove s c) = udp_ping_var c"
  "resync (mumble_user_remove s c) = resync c"
  "crypt (mumble_user_remove s c) = crypt c"
  "recording (mumble_user_remove s c) = recording c"
  "trace (mumble_user_remove s c) = trace c"
  by (simp_all add: mumble_user_remove_def)

lemma channel_remove_frame [simp, client_frame]:
  "self (mumble_channel_remove i c) = self c"
  "connecting (mumble_channel_remove i c) = connecting c"
  "connected (mumble_channel_remove i c) = connected c"
  "synced (mumble_channel_remove i c) = synced c"
  "legacy (mumble_channel_remove i c) = legacy c"
  "users (mumble_channel_remove i c) = users c"
  "user_list (mumble_channel_remove i c) = user_list c"
  "max_bandwidth (mumble_channel_remove i c) = max_bandwidth c"
  "session (mumble_channel_remove i c) = session c"
  "ping_timer (mumble_channel_remove i c) = ping_timer c"
  "audio_sequence (mumble_channel_remove i c) = audio_sequence c"
  "audio_frames (mumble_channel_remove i c) = audio_frames c"
  "audio_target (mumble_channel_remove i c) = audio_target c"
  "encoder (mumble_channel_remove i c) = encoder c"
  "tcp_packets (mumble_channel_remove i c) = tcp_packets c"
  "tcp_ping_avg (mumble_channel_remove i c) = tcp_ping_avg c"
  "tcp_ping_var (mumble_channel_remove i c) = tcp_ping_var c"
  "tcp_udp_tunnel (mumble_channel_remove i c) = tcp_udp_tunnel c"
  "udp_ping_acc (mumble_channel_remove i c) = udp_ping_acc c"
  "udp_packets (mumble_channel_remove i c) = udp_packets c"
  "udp_ping_avg (mumble_channel_remove i c) = udp_ping_avg c"
  "udp_ping_var (mumble_channel_remove i c) = udp_ping_var c"
  "resync (mumble_channel_remove i c) = resync c"
  "crypt (mumble_channel_remove i c) = crypt c"
  "recording (mumble_channel_remove i c) = recording c"
  "trace (mumble_channel_remove i c) = trace c"
  by (simp_all add: mumble_channel_remove_def)

lemma trace_hook_call [simp]:
  "trace (mumble_hook_call h args c) = trace c @ (if self c \<le> -2 then [] else [Hook h args])"
  by (simp add: mumble_hook_call_def)

lemma trace_packet_send [simp]: "trace (packet_send ty msg c) = trace c @ [Sent ty msg]"
  by (simp add: packet_send_def)

section \<open>The tables are keyed stores\<close>

interpretation user_store: keyed_store users user_list mumble_user_get mumble_user_remove new_user
  by unfold_locales (auto simp: mumble_user_get_def mumble_user_remove_def Let_def)

interpretation channel_store:
  keyed_store channels channel_list mumble_channel_get mumble_channel_remove new_channel
  by unfold_locales (auto simp: mumble_channel_get_def mumble_channel_remove_def Let_def)

lemma user_get_cases:
  "(\<exists>u. users c s = Some u \<and> mumble_user_get s c = (u, c)) \<or>
   users c s = None \<and>
   mumble_user_get s c = (new_user s, c \<lparr> users := (users c)(s \<mapsto> new_user s), user_list := s # user_list c \<rparr>)"
  by (cases "users c s") (auto simp: mumble_user_get_def Let_def)

lemma channel_get_cases:
  "(\<exists>ch. channels c i = Some ch \<and> mumble_channel_get i c = (ch, c)) \<or>
   channels c i = None \<and>
   mumble_channel_get i c =
     (new_channel i, c \<lparr> channels := (channels c)(i \<mapsto> new_channel i), channel_list := i # channel_list c \<rparr>)"
  by (cases "channels c i") (auto simp: mumble_channel_get_def Let_def)

section \<open>The invariant of the client\<close>

text \<open>
  The lists hold exactly the keys of the tables, every object is stored under its own id, a user
  whose file is open has a time to count the silence from, and the crypt state is well formed.
\<close>

definition user_ok :: "u32 \<Rightarrow> user \<Rightarrow> bool" where
  "user_ok s u \<longleftrightarrow> u_session u = s \<and> (u_recording_file u \<noteq> None \<longrightarrow> u_last_spoke u \<noteq> None)"

definition channel_ok :: "u32 \<Rightarrow> channel \<Rightarrow> bool" where
  "channel_ok i ch \<longleftrightarrow> c_channel_id ch = i"

definition client_ok :: "client \<Rightarrow> bool" where
  "client_ok c \<longleftrightarrow>
     user_store.ok c \<and> channel_store.ok c \<and>
     (\<forall>s u. users c s = Some u \<longrightarrow> user_ok s u) \<and>
     (\<forall>i ch. channels c i = Some ch \<longrightarrow> channel_ok i ch) \<and>
     (\<forall>k. crypt c = Some k \<longrightarrow> crypt_ok k)"

lemma client_ok_cong:
  assumes "users c' = users c" "user_list c' = user_list c" "channels c' = channels c"
    "channel_list c' = channel_list c" "crypt c' = crypt c"
  shows "client_ok c' = client_ok c"
  using assms by (simp add: client_ok_def user_store.ok_def channel_store.ok_def)

lemma client_ok_frame [simp]:
  "client_ok (c \<lparr> self := x_self \<rparr>) = client_ok c"
  "client_ok (c \<lparr> connecting := x_connecting \<rparr>) = client_ok c"
  "client_ok (c \<lparr> connected := x_connected \<rparr>) = client_ok c"
  "client_ok (c \<lparr> synced := x_synced \<rparr>) = client_ok c"
  "client_ok (c \<lparr> legacy := x_legacy \<rparr>) = client_ok c"
  "client_ok (c \<lparr> max_bandwidth := x_max_bandwidth \<rparr>) = client_ok c"
  "client_ok (c \<lparr> session := x_session \<rparr>) = client_ok c"
  "client_ok (c \<lparr> ping_timer := x_ping_timer \<rparr>) = client_ok c"
  "client_ok (c \<lparr> audio_sequence := x_audio_sequence \<rparr>) = client_ok c"
  "client_ok (c \<lparr> audio_frames := x_audio_frames \<rparr>) = client_ok c"
  "client_ok (c \<lparr> audio_target := x_audio_target \<rparr>) = client_ok c"
  "client_ok (c \<lparr> encoder := x_encoder \<rparr>) = client_ok c"
  "client_ok (c \<lparr> tcp_packets := x_tcp_packets \<rparr>) = client_ok c"
  "client_ok (c \<lparr> tcp_ping_avg := x_tcp_ping_avg \<rparr>) = client_ok c"
  "client_ok (c \<lparr> tcp_ping_var := x_tcp_ping_var \<rparr>) = client_ok c"
  "client_ok (c \<lparr> tcp_udp_tunnel := x_tcp_udp_tunnel \<rparr>) = client_ok c"
  "client_ok (c \<lparr> udp_ping_acc := x_udp_ping_acc \<rparr>) = client_ok c"
  "client_ok (c \<lparr> udp_packets := x_udp_packets \<rparr>) = client_ok c"
  "client_ok (c \<lparr> udp_ping_avg := x_udp_ping_avg \<rparr>) = client_ok c"
  "client_ok (c \<lparr> udp_ping_var := x_udp_ping_var \<rparr>) = client_ok c"
  "client_ok (c \<lparr> resync := x_resync \<rparr>) = client_ok c"
  "client_ok (c \<lparr> recording := x_recording \<rparr>) = client_ok c"
  "client_ok (c \<lparr> cl_host := x_cl_host \<rparr>) = client_ok c"
  "client_ok (c \<lparr> cl_port := x_cl_port \<rparr>) = client_ok c"
  "client_ok (c \<lparr> cl_address := x_cl_address \<rparr>) = client_ok c"
  "client_ok (c \<lparr> cl_time := x_cl_time \<rparr>) = client_ok c"
  "client_ok (c \<lparr> cl_volume := x_cl_volume \<rparr>) = client_ok c"
  "client_ok (c \<lparr> cl_hooks := x_cl_hooks \<rparr>) = client_ok c"
  "client_ok (c \<lparr> cl_unset := x_cl_unset \<rparr>) = client_ok c"
  "client_ok (c \<lparr> trace := x_trace \<rparr>) = client_ok c"
  "client_ok (mumble_hook_call h args c) = client_ok c"
  "client_ok (packet_send ty msg c) = client_ok c"
  by (rule client_ok_cong; simp)+

lemma client_ok_new: "client_ok (mumble_client_new major minor patch jb jr)"
  by (simp add: client_ok_def user_store.ok_def channel_store.ok_def mumble_client_new_def)

lemma client_okD:
  "client_ok c \<Longrightarrow> users c s = Some u \<Longrightarrow> user_ok s u"
  "client_ok c \<Longrightarrow> channels c i = Some ch \<Longrightarrow> channel_ok i ch"
  "client_ok c \<Longrightarrow> crypt c = Some k \<Longrightarrow> crypt_ok k"
  by (simp_all add: client_ok_def)

lemma new_ok [simp]: "user_ok s (new_user s)" "channel_ok i (new_channel i)"
  by (simp_all add: user_ok_def new_user_def channel_ok_def new_channel_def)

lemma client_ok_user_get:
  "client_ok c \<Longrightarrow> client_ok (snd (mumble_user_get s c)) \<and> user_ok s (fst (mumble_user_get s c))"
  using user_get_cases [of c s] user_store.ok_get [of c s]
  by (auto simp: client_ok_def channel_store.ok_def split: if_splits)

lemma client_ok_channel_get:
  "client_ok c \<Longrightarrow>
   client_ok (snd (mumble_channel_get i c)) \<and> channel_ok i (fst (mumble_channel_get i c))"
  using channel_get_cases [of c i] channel_store.ok_get [of c i]
  by (auto simp: client_ok_def user_store.ok_def split: if_splits)

lemma client_ok_put_user: "client_ok c \<Longrightarrow> user_ok s u \<Longrightarrow> client_ok (put_user s u c)"
  by (auto simp: client_ok_def put_user_def user_store.ok_def channel_store.ok_def)

lemma client_ok_put_channel: "client_ok c \<Longrightarrow> channel_ok i ch \<Longrightarrow> client_ok (put_channel i ch c)"
  by (auto simp: client_ok_def put_channel_def user_store.ok_def channel_store.ok_def)

lemma client_ok_user_remove: "client_ok c \<Longrightarrow> client_ok (mumble_user_remove s c)"
  using user_store.ok_remove [of c s]
  by (auto simp: client_ok_def channel_store.ok_def mumble_user_remove_def)

lemma client_ok_channel_remove: "client_ok c \<Longrightarrow> client_ok (mumble_channel_remove i c)"
  using channel_store.ok_remove [of c i]
  by (auto simp: client_ok_def user_store.ok_def mumble_channel_remove_def)

lemma client_ok_crypt: "client_ok c \<Longrightarrow> crypt_ok k \<Longrightarrow> client_ok (c \<lparr> crypt := Some k \<rparr>)"
  by (auto simp: client_ok_def user_store.ok_def channel_store.ok_def)

lemma client_ok_free: "client_ok c \<Longrightarrow> client_ok (mumble_client_free c)"
  by (auto simp: client_ok_def user_store.ok_def channel_store.ok_def mumble_client_free_def)

lemma client_ok_remove_users: "client_ok c \<Longrightarrow> client_ok (remove_all mumble_user_remove ss c)"
  by (induction ss arbitrary: c) (auto intro: client_ok_user_remove)

lemma client_ok_remove_channels: "client_ok c \<Longrightarrow> client_ok (remove_all mumble_channel_remove is c)"
  by (induction "is" arbitrary: c) (auto intro: client_ok_channel_remove)

lemmas client_ok_intros =
  client_ok_put_user client_ok_put_channel client_ok_user_remove client_ok_channel_remove
  client_ok_crypt client_ok_free client_ok_remove_users client_ok_remove_channels

lemma client_ok_cleanup: "client_ok c \<Longrightarrow> client_ok (mumble_client_cleanup c)"
  unfolding mumble_client_cleanup_def Let_def
  by (auto intro!: client_ok_remove_users client_ok_remove_channels)

lemma client_ok_disconnect: "client_ok c \<Longrightarrow> client_ok (mumble_disconnect reason gc c)"
  by (simp add: mumble_disconnect_def Let_def client_ok_free client_ok_cleanup)

section \<open>The state of the connection\<close>

text \<open>
  What most operations do to the state of the connection: nothing, but that the client may become
  synchronized and starts its timer. The crypt state changes, but is neither made nor dropped, and so for the host.
\<close>

definition stay :: "client \<Rightarrow> client \<Rightarrow> bool" where
  "stay c c' \<longleftrightarrow>
     connecting c' = connecting c \<and> connected c' = connected c \<and> self c' = self c \<and>
     (crypt c' = None \<longleftrightarrow> crypt c = None) \<and> cl_host c' = cl_host c \<and> cl_address c' = cl_address c \<and>
     cl_unset c' = cl_unset c \<and> (synced c \<longrightarrow> synced c') \<and> (ping_timer c \<longrightarrow> ping_timer c')"

text \<open>What disconnecting leaves.\<close>

definition idle :: "client \<Rightarrow> bool" where
  "idle c \<longleftrightarrow>
     \<not> connecting c \<and> \<not> connected c \<and> self c = -2 \<and> crypt c = None \<and> cl_host c = None \<and> cl_address c = None \<and>
     users c = Map.empty \<and> user_list c = [] \<and> channels c = Map.empty \<and> channel_list c = []"

lemma cl_frame:
  "cl_host (mumble_hook_call h args c) = cl_host c" "cl_address (mumble_hook_call h args c) = cl_address c"
  "cl_host (packet_send ty msg c) = cl_host c" "cl_address (packet_send ty msg c) = cl_address c"
  "cl_host (snd (mumble_user_get s c)) = cl_host c" "cl_address (snd (mumble_user_get s c)) = cl_address c"
  "cl_host (snd (mumble_channel_get i c)) = cl_host c"
  "cl_address (snd (mumble_channel_get i c)) = cl_address c"
  "cl_host (put_user s u c) = cl_host c" "cl_address (put_user s u c) = cl_address c"
  "cl_host (put_channel i ch c) = cl_host c" "cl_address (put_channel i ch c) = cl_address c"
  "cl_host (mumble_user_remove s c) = cl_host c" "cl_address (mumble_user_remove s c) = cl_address c"
  "cl_host (mumble_channel_remove i c) = cl_host c" "cl_address (mumble_channel_remove i c) = cl_address c"
  "cl_unset (mumble_hook_call h args c) = cl_unset c" "cl_unset (packet_send ty msg c) = cl_unset c"
  "cl_unset (snd (mumble_user_get s c)) = cl_unset c" "cl_unset (snd (mumble_channel_get i c)) = cl_unset c"
  "cl_unset (put_user s u c) = cl_unset c" "cl_unset (put_channel i ch c) = cl_unset c"
  "cl_unset (mumble_user_remove s c) = cl_unset c" "cl_unset (mumble_channel_remove i c) = cl_unset c"
  by (simp_all add: mumble_hook_call_def packet_send_def mumble_user_get_def mumble_channel_get_def
      put_user_def put_channel_def mumble_user_remove_def mumble_channel_remove_def Let_def split: option.split)

lemma stay_refl [simp]: "stay c c"
  by (simp add: stay_def)

lemma stay_trans: "stay c c' \<Longrightarrow> stay c' c'' \<Longrightarrow> stay c c''"
  by (auto simp: stay_def)

lemma stay_ops [simp]:
  "stay c (mumble_hook_call h args c') = stay c c'"
  "stay c (packet_send ty msg c') = stay c c'"
  "stay c (snd (mumble_user_get s c')) = stay c c'"
  "stay c (snd (mumble_channel_get i c')) = stay c c'"
  "stay c (put_user s u c') = stay c c'"
  "stay c (put_channel i ch c') = stay c c'"
  "stay c (mumble_user_remove s c') = stay c c'"
  "stay c (mumble_channel_remove i c') = stay c c'"
  "stay c (mumble_update_recording_status c') = stay c c'"
  by (simp_all add: stay_def mumble_update_recording_status_def Let_def cl_frame)

lemma stay_updates [simp]:
  "stay c (c' \<lparr> legacy := x_legacy \<rparr>) = stay c c'"
  "stay c (c' \<lparr> max_bandwidth := x_max_bandwidth \<rparr>) = stay c c'"
  "stay c (c' \<lparr> session := x_session \<rparr>) = stay c c'"
  "stay c (c' \<lparr> audio_sequence := x_audio_sequence \<rparr>) = stay c c'"
  "stay c (c' \<lparr> audio_frames := x_audio_frames \<rparr>) = stay c c'"
  "stay c (c' \<lparr> audio_target := x_audio_target \<rparr>) = stay c c'"
  "stay c (c' \<lparr> encoder := x_encoder \<rparr>) = stay c c'"
  "stay c (c' \<lparr> tcp_packets := x_tcp_packets \<rparr>) = stay c c'"
  "stay c (c' \<lparr> tcp_ping_avg := x_tcp_ping_avg \<rparr>) = stay c c'"
  "stay c (c' \<lparr> tcp_ping_var := x_tcp_ping_var \<rparr>) = stay c c'"
  "stay c (c' \<lparr> tcp_udp_tunnel := x_tcp_udp_tunnel \<rparr>) = stay c c'"
  "stay c (c' \<lparr> udp_ping_acc := x_udp_ping_acc \<rparr>) = stay c c'"
  "stay c (c' \<lparr> udp_packets := x_udp_packets \<rparr>) = stay c c'"
  "stay c (c' \<lparr> udp_ping_avg := x_udp_ping_avg \<rparr>) = stay c c'"
  "stay c (c' \<lparr> udp_ping_var := x_udp_ping_var \<rparr>) = stay c c'"
  "stay c (c' \<lparr> resync := x_resync \<rparr>) = stay c c'"
  "stay c (c' \<lparr> recording := x_recording \<rparr>) = stay c c'"
  "stay c (c' \<lparr> cl_volume := x_cl_volume \<rparr>) = stay c c'"
  "stay c (c' \<lparr> cl_hooks := x_cl_hooks \<rparr>) = stay c c'"
  "stay c (c' \<lparr> trace := x_trace \<rparr>) = stay c c'"
  "stay c (c' \<lparr> users := x_users \<rparr>) = stay c c'"
  "stay c (c' \<lparr> user_list := x_user_list \<rparr>) = stay c c'"
  "stay c (c' \<lparr> channels := x_channels \<rparr>) = stay c c'"
  "stay c (c' \<lparr> channel_list := x_channel_list \<rparr>) = stay c c'"
  by (simp_all add: stay_def)

lemma stay_crypt: "stay c c' \<Longrightarrow> crypt c' \<noteq> None \<Longrightarrow> stay c (c' \<lparr> crypt := Some k \<rparr>)"
  by (simp add: stay_def)

lemma stay_get:
  "mumble_user_get s c' = (u, c'') \<Longrightarrow> stay c c'' = stay c c'"
  "mumble_channel_get i c' = (ch, c'') \<Longrightarrow> stay c c'' = stay c c'"
  using stay_ops(3) [of c s c'] stay_ops(4) [of c i c'] by simp_all

lemma cleanup_result:
  assumes "client_ok c"
  shows "users (mumble_client_cleanup c) = Map.empty" "user_list (mumble_client_cleanup c) = []"
    "channels (mumble_client_cleanup c) = Map.empty" "channel_list (mumble_client_cleanup c) = []"
    "self (mumble_client_cleanup c) = (if self c > -1 then -2 else self c)"
    "connected (mumble_client_cleanup c) = connected c" "connecting (mumble_client_cleanup c) = connecting c"
    "crypt (mumble_client_cleanup c) = crypt c" "trace (mumble_client_cleanup c) = trace c"
    "synced (mumble_client_cleanup c) = synced c"
    "cl_host (mumble_client_cleanup c) = cl_host c" "cl_address (mumble_client_cleanup c) = cl_address c"
    "cl_unset (mumble_client_cleanup c) = cl_unset c"
proof -
  define c2 where "c2 = c \<lparr> ping_timer := False \<rparr>"
  define c3 where "c3 = remove_all mumble_user_remove (user_list c2) c2"
  define c4 where "c4 = remove_all mumble_channel_remove (channel_list c3) c3"
  have us: "g (remove_all mumble_user_remove ss x) = g x"
    if "\<And>s c. g (mumble_user_remove s c) = g c" for g :: "client \<Rightarrow> 'b" and ss x
    by (induction ss arbitrary: x) (simp_all add: that)
  have cs: "g (remove_all mumble_channel_remove ss x) = g x"
    if "\<And>s c. g (mumble_channel_remove s c) = g c" for g :: "client \<Rightarrow> 'b" and ss x
    by (induction ss arbitrary: x) (simp_all add: that)
  have ok2: "client_ok c2" using assms by (simp add: c2_def)
  have ok3: "client_ok c3" unfolding c3_def by (rule client_ok_remove_users [OF ok2])
  have u: "users c3 = Map.empty" "user_list c3 = []"
    unfolding c3_def using user_store.remove_all_empties [of c2] ok2 by (simp_all add: client_ok_def)
  have ch: "channels c4 = Map.empty" "channel_list c4 = []"
    unfolding c4_def using channel_store.remove_all_empties [of c3] ok3 by (simp_all add: client_ok_def)
  have f: "users c4 = users c3" "user_list c4 = user_list c3" "crypt c4 = crypt c" "synced c4 = synced c"
    "self c4 = self c" "trace c4 = trace c" "connected c4 = connected c" "connecting c4 = connecting c"
    "cl_host c4 = cl_host c" "cl_address c4 = cl_address c" "cl_unset c4 = cl_unset c"
    unfolding c4_def c3_def c2_def by (simp_all add: us cs cl_frame)
  have d: "mumble_client_cleanup c = (if self c4 > -1 then c4 \<lparr> self := -2 \<rparr> else c4)"
    by (simp add: mumble_client_cleanup_def Let_def c4_def c3_def c2_def)
  show "users (mumble_client_cleanup c) = Map.empty" "user_list (mumble_client_cleanup c) = []"
    "channels (mumble_client_cleanup c) = Map.empty" "channel_list (mumble_client_cleanup c) = []"
    "self (mumble_client_cleanup c) = (if self c > -1 then -2 else self c)"
    "connected (mumble_client_cleanup c) = connected c" "connecting (mumble_client_cleanup c) = connecting c"
    "crypt (mumble_client_cleanup c) = crypt c" "trace (mumble_client_cleanup c) = trace c"
    "synced (mumble_client_cleanup c) = synced c"
    "cl_host (mumble_client_cleanup c) = cl_host c" "cl_address (mumble_client_cleanup c) = cl_address c"
    "cl_unset (mumble_client_cleanup c) = cl_unset c"
    using u ch f unfolding d by simp_all
qed

lemma disconnect_idle:
  assumes "client_ok c" "connecting c" "self c = -2 \<or> 0 \<le> self c"
  shows "idle (mumble_disconnect r gc c)"
proof -
  define c1 where "c1 = (if gc then c \<lparr> connecting := False, connected := False \<rparr>
    else mumble_hook_call ''OnDisconnect'' [LStr r] (c \<lparr> connecting := False, connected := False \<rparr>))"
  have "client_ok c1" "self c1 = self c" "\<not> connecting c1" "\<not> connected c1" using assms(1) by (simp_all add: c1_def)
  moreover have "mumble_disconnect r gc c = mumble_client_free (mumble_client_cleanup c1)"
    using assms(2) by (simp add: mumble_disconnect_def Let_def c1_def)
  ultimately show ?thesis
    using cleanup_result [of c1] assms(3) by (auto simp: idle_def mumble_client_free_def)
qed

section \<open>A sample of the outside\<close>

text \<open>
  Simple total functions in the place of the libraries, for evaluating the operations on concrete
  inputs: the arithmetic is that of words, nothing is packed or decoded.
\<close>

definition sample_env :: env where
  "sample_env =
     \<lparr> d_of_u64 = (\<lambda>x. x), d_of_float = ucast, float_of_d = ucast,
       d_add = (+), d_sub = (-), d_mul = (*), d_div = (\<lambda>x y. x div y), d_fabs = (\<lambda>x. x),
       d_square = (\<lambda>x. x * x), int_of_d = (\<lambda>x. Some (uint x)), integer_of_float = (\<lambda>x. Some (uint x)),
       inet_ntop4 = (\<lambda>b. None), inet_ntop6 = (\<lambda>b. None), opus_bitrate = (\<lambda>r. 128000),
       opus_channels = (\<lambda>b. 1), opus_bandwidth = (\<lambda>b. 0), opus_frame_samples = (\<lambda>b. 480),
       opus_decode = (\<lambda>b. None), objlen = length,
       aes_encrypt = (\<lambda>key b. b), aes_decrypt = (\<lambda>key b. b),
       pack_udp_ping = (\<lambda>t. [0]), unpack_udp_ping = (\<lambda>b. Some 0),
       unpack_udp_audio = (\<lambda>b. Some \<lparr> a_header = 0, a_sender_session = 7, a_frame_number = 1,
                                      a_opus_data = b, a_is_terminator = True \<rparr>),
       pack_udp_audio = (\<lambda>fs. [8]),
       pointer_text = (\<lambda>v. []), number_text = (\<lambda>v. []),
       git_version = [], os_name = [], os_version = [] \<rparr>"

definition sample_world :: world where
  "sample_world = \<lparr> hrtime1 = 0, hrtime2 = 0, now = 0, memory = True, sending = Send_Ok,
     open_error = None, called = [], targets = Map.empty,
     callback = (\<lambda>f args. Inr []), wd_erroring = False \<rparr>"

end
