(* ===== verification/Bandwidth.thy ===== *)
theory Bandwidth
  imports Client "HOL-Library.Signed_Division"
begin

text \<open>
  The choice of the encoder's bitrate from the limit the server announces
  (\<open>getNetworkBandwidth\<close> and \<open>mumble_adjust_audio_bandwidth\<close> of \<open>mumble/mumble.c\<close>). The values of
  C's \<open>int\<close> are integers; a result outside 32 bits or a division by zero is undefined, \<open>None\<close>.
  The encoder of Opus is the list of the control requests made to it.
\<close>

section \<open>The code\<close>

definition c_int :: "int \<Rightarrow> int option" where
  "c_int x = (if -(2 ^ 31) \<le> x \<and> x < 2 ^ 31 then Some x else None)"

definition getNetworkBandwidth :: "int \<Rightarrow> int \<Rightarrow> int option" where
  "getNetworkBandwidth bitrate frames =
     (if frames = 0 then None
      else do {
        let overhead = 8 + 8 + 4 + 8 + 24 + 4 + 1 + 4;
        total \<leftarrow> c_int (frames * (bitrate sdiv 8));
        opus_data_size \<leftarrow> c_int (total sdiv frames * 2);
        partial \<leftarrow> c_int (bitrate + overhead);
        c_int (partial + opus_data_size)
      })"

text \<open>The comparison of the \<open>int\<close> with the \<open>uint32_t\<close> is one of unsigned values.\<close>

definition exceeds :: "int \<Rightarrow> u32 \<Rightarrow> bool" where
  "exceeds bandwidth maxbitrate \<longleftrightarrow> (of_int bandwidth :: u32) > maxbitrate"

definition adjust_frames :: "int \<Rightarrow> u32 \<Rightarrow> int" where
  "adjust_frames frames maxbitrate =
     (if frames \<le> 4 \<and> maxbitrate \<le> 32000 then 4
      else if frames = 1 \<and> maxbitrate \<le> 64000 then 2
      else if frames = 2 \<and> maxbitrate \<le> 48000 then 4
      else frames)"

text \<open>The loop \<open>do bitrate -= 1000; while (bitrate > 8000 && bandwidth > maxbitrate)\<close>.\<close>

function lower_bitrate :: "int \<Rightarrow> u32 \<Rightarrow> int \<Rightarrow> int option" where
  "lower_bitrate frames maxbitrate bitrate = do {
     bitrate' \<leftarrow> c_int (bitrate - 1000);
     if bitrate' > 8000 then do {
       bandwidth \<leftarrow> getNetworkBandwidth bitrate' frames;
       if exceeds bandwidth maxbitrate then lower_bitrate frames maxbitrate bitrate' else Some bitrate'
     }
     else Some bitrate'
   }"
  by auto
termination
  by (relation "measure (\<lambda>(f, m, b). nat b)") (auto simp: c_int_def split: if_splits)

declare lower_bitrate.simps [simp del]

definition fit_bitrate :: "u32 \<Rightarrow> int \<Rightarrow> int \<Rightarrow> (int \<times> int) option" where
  "fit_bitrate maxbitrate frames bitrate = do {
     (frames, bitrate) \<leftarrow>
       (if maxbitrate = -1 then Some (frames, bitrate)
        else do {
          bandwidth \<leftarrow> getNetworkBandwidth bitrate frames;
          if exceeds bandwidth maxbitrate then do {
            let frames = adjust_frames frames maxbitrate;
            bandwidth \<leftarrow> getNetworkBandwidth bitrate frames;
            if exceeds bandwidth maxbitrate then do {
              bitrate \<leftarrow> lower_bitrate frames maxbitrate bitrate;
              Some (frames, bitrate)
            }
            else Some (frames, bitrate)
          }
          else Some (frames, bitrate)
        });
     Some (frames, if bitrate < 8000 then 8000 else bitrate)
   }"

definition encoder_settings :: "int \<Rightarrow> encoder_ctl list" where
  "encoder_settings bitrate =
     Set_Int ''OPUS_SET_BITRATE'' bitrate #
     (if bitrate \<ge> 64000 then
        [Set_To ''OPUS_SET_APPLICATION'' ''OPUS_APPLICATION_AUDIO'',
         Set_To ''OPUS_SET_SIGNAL'' ''OPUS_AUTO'',
         Set_To ''OPUS_SET_BANDWIDTH'' ''OPUS_BANDWIDTH_FULLBAND'',
         Set_Int ''OPUS_SET_VBR'' 1, Set_Int ''OPUS_SET_VBR_CONSTRAINT'' 1,
         Set_Int ''OPUS_SET_COMPLEXITY'' 10, Set_Int ''OPUS_SET_PACKET_LOSS_PERC'' 5,
         Set_Int ''OPUS_SET_INBAND_FEC'' 1, Set_Int ''OPUS_SET_DTX'' 0]
      else
        [Set_To ''OPUS_SET_APPLICATION'' ''OPUS_APPLICATION_VOIP'',
         Set_To ''OPUS_SET_SIGNAL'' ''OPUS_SIGNAL_VOICE'',
         Set_To ''OPUS_SET_BANDWIDTH'' ''OPUS_BANDWIDTH_SUPERWIDEBAND'',
         Set_Int ''OPUS_SET_VBR'' 1, Set_Int ''OPUS_SET_VBR_CONSTRAINT'' 1,
         Set_Int ''OPUS_SET_COMPLEXITY'' 5, Set_Int ''OPUS_SET_PACKET_LOSS_PERC'' 10,
         Set_Int ''OPUS_SET_INBAND_FEC'' 1, Set_Int ''OPUS_SET_DTX'' 1])"

definition mumble_adjust_audio_bandwidth :: "env \<Rightarrow> client \<Rightarrow> (u64 \<times> client) option" where
  "mumble_adjust_audio_bandwidth E c = do {
     let original_bitrate = sint (opus_bitrate E (encoder c));
     (frames, bitrate) \<leftarrow>
       fit_bitrate (max_bandwidth c) (sint (audio_frames c div 10)) original_bitrate;
     Some (of_int frames * 10,
       if bitrate \<noteq> original_bitrate
       then c \<lparr> audio_frames := of_int (frames * 10), encoder := encoder c @ encoder_settings bitrate \<rparr>
       else c)
   }"

section \<open>Facts\<close>

lemma c_int_Some: "c_int x = Some y \<longleftrightarrow> y = x \<and> -(2 ^ 31) \<le> x \<and> x < 2 ^ 31"
  by (auto simp: c_int_def)

lemma sdiv_pos: "0 \<le> a \<Longrightarrow> 0 < b \<Longrightarrow> a sdiv b = a div (b::int)"
  by (simp add: signed_divide_int_def sgn_if)

text \<open>The bitrates and frame counts in use: Opus takes at most 1,500,000 bits a second.\<close>

definition usual :: "int \<Rightarrow> int \<Rightarrow> bool" where
  "usual frames bitrate \<longleftrightarrow> 0 < frames \<and> frames \<le> 60 \<and> 0 \<le> bitrate \<and> bitrate \<le> 1500000"

definition bandwidth_of :: "int \<Rightarrow> int" where
  "bandwidth_of bitrate = bitrate + 61 + bitrate div 8 * 2"

lemma bandwidth_usual:
  assumes "usual frames bitrate"
  shows "getNetworkBandwidth bitrate frames = Some (bandwidth_of bitrate)"
proof -
  have b: "0 \<le> bitrate div 8" "bitrate div 8 \<le> 187500" using assms by (auto simp: usual_def)
  have f: "0 < frames" "frames \<le> 60" using assms by (auto simp: usual_def)
  have p: "0 \<le> frames * (bitrate div 8)" "frames * (bitrate div 8) \<le> 60 * 187500"
    using mult_mono [OF f(2) b(2)] b f by auto
  have l: "- 2147483648 \<le> frames * (bitrate div 8)" using p(1) by linarith
  have "frames * (bitrate div 8) sdiv frames = bitrate div 8"
    using f p by (simp add: sdiv_pos)
  then show ?thesis
    using assms b p l
    by (simp add: getNetworkBandwidth_def bandwidth_of_def usual_def sdiv_pos c_int_def)
qed

lemma lower_bitrate_usual:
  assumes "usual frames bitrate" "8000 < bitrate"
  shows "\<exists>b. lower_bitrate frames maxbitrate bitrate = Some b \<and> 7000 < b \<and> b < bitrate \<and>
    (b \<le> 8000 \<or> \<not> exceeds (bandwidth_of b) maxbitrate)"
  using assms
proof (induction frames maxbitrate bitrate rule: lower_bitrate.induct)
  case (1 frames maxbitrate bitrate)
  have c: "c_int (bitrate - 1000) = Some (bitrate - 1000)"
    using "1.prems" by (auto simp: c_int_def usual_def)
  show ?case
  proof (cases "bitrate - 1000 > 8000")
    case False
    then show ?thesis using c "1.prems" by (simp add: lower_bitrate.simps [of frames maxbitrate bitrate])
  next
    case True
    have u: "usual frames (bitrate - 1000)" using "1.prems" True by (auto simp: usual_def)
    note bw = bandwidth_usual [OF u]
    show ?thesis
    proof (cases "exceeds (bandwidth_of (bitrate - 1000)) maxbitrate")
      case False
      then show ?thesis
        using c bw True by (simp add: lower_bitrate.simps [of frames maxbitrate bitrate])
    next
      case e: True
      obtain b where "lower_bitrate frames maxbitrate (bitrate - 1000) = Some b \<and> 7000 < b \<and>
          b < bitrate - 1000 \<and> (b \<le> 8000 \<or> \<not> exceeds (bandwidth_of b) maxbitrate)"
        using "1.IH" [OF c True bw e u] True by blast
      then show ?thesis
        using c bw True e by (simp add: lower_bitrate.simps [of frames maxbitrate bitrate])
    qed
  qed
qed

lemma adjust_frames_usual: "usual frames b \<Longrightarrow> usual (adjust_frames frames m) b"
  by (auto simp: usual_def adjust_frames_def)

section \<open>Properties\<close>

text \<open>
  C31. Fitting the limit: from any bitrate of Opus of at least 8001 bits a second the adjustment
  terminates with a bitrate that is not raised, and either the bandwidth computed for it is within
  the limit of the server or the bitrate is the floor of 8000. Without a limit nothing changes.
\<close>

theorem bitrate_fits:
  assumes "usual frames bitrate" "8000 < bitrate"
  shows "\<exists>frames' bitrate'. fit_bitrate maxbitrate frames bitrate = Some (frames', bitrate') \<and>
    8000 \<le> bitrate' \<and> bitrate' \<le> bitrate \<and>
    (if maxbitrate = -1 then frames' = frames \<and> bitrate' = bitrate
     else bitrate' = 8000 \<or> \<not> exceeds (bandwidth_of bitrate') maxbitrate)"
proof (cases "maxbitrate = -1 \<or> \<not> exceeds (bandwidth_of bitrate) maxbitrate")
  case True
  then show ?thesis using assms bandwidth_usual [OF assms(1)] by (auto simp: fit_bitrate_def)
next
  case False
  let ?f = "adjust_frames frames maxbitrate"
  obtain b where "lower_bitrate ?f maxbitrate bitrate = Some b" "7000 < b" "b < bitrate"
      "b \<le> 8000 \<or> \<not> exceeds (bandwidth_of b) maxbitrate"
    using lower_bitrate_usual [OF adjust_frames_usual [OF assms(1)] assms(2)] by blast
  with False show ?thesis
    using assms bandwidth_usual [OF assms(1)] bandwidth_usual [OF adjust_frames_usual [OF assms(1)]]
    by (auto simp: fit_bitrate_def)
qed

lemma bitrate_fits_witness:
  "\<exists>frames' bitrate'. fit_bitrate 72000 2 128000 = Some (frames', bitrate') \<and>
    8000 \<le> bitrate' \<and> bitrate' \<le> 128000 \<and> (bitrate' = 8000 \<or> bandwidth_of bitrate' \<le> 72000)"
proof -
  obtain f b where b: "fit_bitrate 72000 2 128000 = Some (f, b)" "8000 \<le> b" "b \<le> 128000"
      "b = 8000 \<or> \<not> exceeds (bandwidth_of b) 72000"
    using bitrate_fits [of 2 128000 72000] by (auto simp: usual_def)
  have "0 \<le> bandwidth_of b" "bandwidth_of b < 2 ^ 32" using b(2,3) by (auto simp: bandwidth_of_def)
  then have "exceeds (bandwidth_of b) 72000 \<longleftrightarrow> 72000 < bandwidth_of b"
    by (simp add: exceeds_def word_less_def uint_word_of_int take_bit_int_eq_self)
  with b show ?thesis by auto
qed

text \<open>
  The computed bandwidth does not depend on the number of frames: the code multiplies by it and
  divides by it again. So the change of the frame count for small limits never changes whether the
  limit is met.
\<close>

theorem bandwidth_ignores_frames:
  assumes "usual frames bitrate" "usual frames' bitrate"
  shows "getNetworkBandwidth bitrate frames = getNetworkBandwidth bitrate frames'"
  using assms by (simp add: bandwidth_usual)

lemma bandwidth_ignores_frames_witness:
  "getNetworkBandwidth 128000 1 = getNetworkBandwidth 128000 6"
  by (rule bandwidth_ignores_frames) (simp_all add: usual_def)

end
