(* ===== verification/Udp.thy ===== *)
theory Udp
  imports Client Varint
begin

text \<open>
  Pings and voice on the datagram path of \<open>mumble/mumble.c\<close>: \<open>mumble_ping\<close> and its parts, the
  statistics of the replies, the fall back to the TCP tunnel and the return from it, and the
  reception of datagrams, legacy and protobuf, up to the hooks of a speaking user.
\<close>

section \<open>Sending datagrams\<close>

text \<open>
  \<open>packet_sendudp\<close>. The vector of the crypt state has advanced even if the datagram is not sent.
  A NULL crypt state is dereferenced: \<open>None\<close>. The result, 0 in every case, is not used.
\<close>

definition packet_sendudp :: "env \<Rightarrow> world \<Rightarrow> u8 list \<Rightarrow> client \<Rightarrow> client option" where
  "packet_sendudp E W message c =
     (if sending W = No_Buffer then Some c
      else case crypt c of
        None \<Rightarrow> None
      | Some k \<Rightarrow>
          if \<not> crypt_isValid k then Some c
          else case crypt_encrypt (aes_encrypt E) message k of
              (None, k) \<Rightarrow> Some (c \<lparr> crypt := Some k \<rparr>)
            | (Some encrypted, k) \<Rightarrow>
                let c = c \<lparr> crypt := Some k \<rparr>
                in Some (if sending W = Send_Ok then c \<lparr> trace := trace c @ [Datagram encrypted] \<rparr> else c))"

section \<open>Sending pings\<close>

definition mumble_ping_udp_legacy :: "env \<Rightarrow> world \<Rightarrow> u64 \<Rightarrow> client \<Rightarrow> (u64 \<times> client) option" where
  "mumble_ping_udp_legacy E W timestamp c = do {
     (packet, len) \<leftarrow> util_set_varint (replicate 1023 0) timestamp;
     c \<leftarrow> packet_sendudp E W (push_bit 5 1 # take (unat len) packet) c;
     Some (timestamp, c)
   }"

definition mumble_ping_udp_protobuf :: "env \<Rightarrow> world \<Rightarrow> u64 \<Rightarrow> client \<Rightarrow> (u64 \<times> client) option" where
  "mumble_ping_udp_protobuf E W timestamp c = do {
     c \<leftarrow> packet_sendudp E W (1 # pack_udp_ping E timestamp) c;
     Some (timestamp, c)
   }"

definition mumble_ping_tcp :: "env \<Rightarrow> u64 \<Rightarrow> client \<Rightarrow> client option" where
  "mumble_ping_tcp E timestamp c = do {
     k \<leftarrow> crypt c;
     let tcp_avg = float_of_d E (tcp_ping_avg c);
     let tcp_var = float_of_d E (tcp_ping_var c);
     let udp_avg = float_of_d E (udp_ping_avg c);
     let udp_var = float_of_d E (udp_ping_var c);
     let good = (ucast (crypt_getGood k) :: u32);
     let late = (ucast (crypt_getLate k) :: u32);
     let lost = (ucast (crypt_getLost k) :: u32);
     let c' = mumble_hook_call ''OnPingTCP''
       [new_table
         (field ''timestamp'' (vsint timestamp) @ field ''tcp_packets'' (vint (tcp_packets c)) @
          field ''tcp_ping_avg'' (LNum (d_of_float E tcp_avg)) @
          field ''tcp_ping_var'' (LNum (d_of_float E tcp_var)) @
          field ''good'' (vint good) @ field ''late'' (vint late) @ field ''lost'' (vint lost) @
          field ''resync'' (vint (resync c)) @ field ''udp_packets'' (vint (udp_packets c)) @
          field ''udp_ping_avg'' (LNum (d_of_float E udp_avg)) @
          field ''udp_ping_var'' (LNum (d_of_float E udp_var)))] c;
     Some (packet_send PACKET_PING
       [(''timestamp'', PU64 timestamp), (''good'', PU32 good), (''late'', PU32 late),
        (''lost'', PU32 lost), (''resync'', PU32 (resync c)), (''udp_packets'', PU32 (udp_packets c)),
        (''tcp_packets'', PU32 (tcp_packets c)), (''udp_ping_avg'', PFloat udp_avg),
        (''udp_ping_var'', PFloat udp_var), (''tcp_ping_avg'', PFloat tcp_avg),
        (''tcp_ping_var'', PFloat tcp_var)] c')
   }"

text \<open>\<open>UDP_TCP_FALLBACK\<close> is 2; the counter of unanswered pings is a byte.\<close>

definition mumble_ping_udp :: "env \<Rightarrow> world \<Rightarrow> u64 \<Rightarrow> client \<Rightarrow> client option" where
  "mumble_ping_udp E W hrtime c = do {
     k \<leftarrow> crypt c;
     if crypt_isValid k then do {
       (timestamp, c) \<leftarrow>
         (if legacy c then mumble_ping_udp_legacy E W hrtime c
          else mumble_ping_udp_protobuf E W hrtime c);
       let c = (if udp_ping_acc c \<ge> 2 \<and> \<not> tcp_udp_tunnel c then c \<lparr> tcp_udp_tunnel := True \<rparr> else c);
       let c = mumble_hook_call ''OnPingUDP'' [new_table (field ''timestamp'' (vsint timestamp))] c;
       Some (c \<lparr> udp_ping_acc := udp_ping_acc c + 1 \<rparr>)
     }
     else Some c
   }"

definition mumble_ping :: "env \<Rightarrow> world \<Rightarrow> client \<Rightarrow> client option" where
  "mumble_ping E W c = do {
     c \<leftarrow> mumble_ping_tcp E (hrtime1 W) c;
     mumble_ping_udp E W (hrtime2 W) c
   }"

section \<open>Replies to pings\<close>

text \<open>The running average and deviation: \<open>avg * (n - 1) / n + delay / n\<close>.\<close>

definition ping_delay :: "env \<Rightarrow> world \<Rightarrow> u64 \<Rightarrow> u64" where
  "ping_delay E W timestamp = d_div E (d_of_u64 E (hrtime1 W - timestamp)) (d_of_u64 E 1000000)"

definition ping_average :: "env \<Rightarrow> u32 \<Rightarrow> u64 \<Rightarrow> u64 \<Rightarrow> u64" where
  "ping_average E n avg delay =
     d_add E (d_div E (d_mul E avg (d_sub E (d_of_u32 E n) (d_of_u64 E 1))) (d_of_u32 E n))
       (d_div E delay (d_of_u32 E n))"

definition ping_deviation :: "env \<Rightarrow> u64 \<Rightarrow> u64 \<Rightarrow> u64" where
  "ping_deviation E avg delay = d_square E (d_fabs E (d_sub E delay avg))"

definition mumble_update_ping_udp :: "env \<Rightarrow> world \<Rightarrow> u64 \<Rightarrow> bool \<Rightarrow> client \<Rightarrow> client" where
  "mumble_update_ping_udp E W timestamp udp c =
     (let delay = ping_delay E W timestamp;
          n = udp_packets c + 1;
          avg = ping_average E n (udp_ping_avg c) delay;
          var = ping_deviation E avg delay;
          c = c \<lparr> udp_packets := n, udp_ping_avg := avg, udp_ping_var := var \<rparr>;
          c = (if tcp_udp_tunnel c \<and> udp then c \<lparr> tcp_udp_tunnel := False \<rparr> else c);
          c = c \<lparr> udp_ping_acc := 0 \<rparr>
      in mumble_hook_call ''OnPongUDP''
           [new_table
             (field ''timestamp'' (vsint timestamp) @ field ''ping'' (LNum delay) @
              field ''average'' (LNum (udp_ping_avg c)) @ field ''deviation'' (LNum (udp_ping_var c)))] c)"

definition mumble_update_ping_tcp :: "env \<Rightarrow> world \<Rightarrow> u64 \<Rightarrow> client \<Rightarrow> u64 \<times> client" where
  "mumble_update_ping_tcp E W timestamp c =
     (let delay = ping_delay E W timestamp;
          n = tcp_packets c + 1;
          avg = ping_average E n (tcp_ping_avg c) delay;
          var = ping_deviation E avg delay
      in (delay, c \<lparr> tcp_packets := n, tcp_ping_avg := avg, tcp_ping_var := var \<rparr>))"

section \<open>Voice\<close>

text \<open>
  The part the two voice handlers share: the change of the speaking state, the hooks around
  \<open>OnUserSpeak\<close> and the recording. \<open>speak\<close> is the table for \<open>OnUserSpeak\<close>, from the user value.
\<close>

definition speaking_hooks ::
  "env \<Rightarrow> world \<Rightarrow> u32 \<Rightarrow> bool \<Rightarrow> u8 list \<Rightarrow> (lval \<Rightarrow> lval) \<Rightarrow> client \<Rightarrow> client option" where
  "speaking_hooks E W s speaking payload speak c = do {
     let (u, c) = mumble_user_get s c;
     let one_frame = (\<not> u_speaking u \<and> \<not> speaking);
     let state_change = (u_speaking u \<noteq> speaking);
     let u = u \<lparr> u_speaking := speaking \<rparr>;
     let starts = (one_frame \<or> state_change \<and> speaking);
     u \<leftarrow> (if starts then mumble_handle_record_silence E (memory W) (now W) u else Some u);
     let u = mumble_handle_record E u payload;
     let stops = (one_frame \<or> state_change \<and> \<not> speaking);
     let user = mumble_user_raw_get c s;
     let c = (if starts then mumble_hook_call ''OnUserStartSpeaking'' [user] c else c);
     let c = mumble_hook_call ''OnUserSpeak'' [speak user] c;
     let c = (if stops then mumble_hook_call ''OnUserStopSpeaking'' [user] c else c);
     Some (put_user s (if stops then u \<lparr> u_last_spoke := Some (now W) \<rparr> else u) c)
   }"

text \<open>An empty \<open>opus_data\<close> is a NULL pointer, from which Opus reads the first byte.\<close>

definition mumble_handle_speaking_hooks_protobuf ::
  "env \<Rightarrow> world \<Rightarrow> udp_audio \<Rightarrow> u32 \<Rightarrow> client \<Rightarrow> client option" where
  "mumble_handle_speaking_hooks_protobuf E W audio s c =
     (let data = a_opus_data audio
      in if data = [] then None
         else speaking_hooks E W s (\<not> a_is_terminator audio) data
           (\<lambda>user. new_table
             (field ''codec'' (LNum (d_of_u32 E 4)) @
              field ''target'' (LNum (d_of_u32 E (a_header audio))) @
              field ''sequence'' (LNum (d_of_u64 E (a_frame_number audio))) @
              field ''user'' user @ field ''speaking'' (LBool (\<not> a_is_terminator audio)) @
              field ''data'' (LStr data) @ field ''context'' (vint (a_header audio)) @
              field ''channels'' (LInt (opus_channels E data)) @
              field ''bandwidth'' (LInt (opus_bandwidth E data)) @
              field ''samples_per_frame'' (LInt (opus_frame_samples E data)))) c)"

text \<open>
  The legacy packet after its header byte and session: a sequence number, a frame header with the
  length and the terminator bit, the payload. The length is the sender's; the buffer ends where its
  block of memory ends.
\<close>

definition mumble_handle_speaking_hooks_legacy ::
  "env \<Rightarrow> world \<Rightarrow> u8 list \<Rightarrow> u8 \<Rightarrow> u8 \<Rightarrow> u32 \<Rightarrow> client \<Rightarrow> client option" where
  "mumble_handle_speaking_hooks_legacy E W buffer codec target s c = do {
     (sequence, read) \<leftarrow> util_get_varint buffer 0;
     (payload_len, speaking, read) \<leftarrow>
       (if codec = 2 \<or> codec = 0 \<or> codec = 3 then do {
          frame_header \<leftarrow> peek buffer read;
          Some (unat (frame_header AND 0x7F), frame_header AND 0x80 = 0, read + 1)
        }
        else if codec = 4 then do {
          (v, read) \<leftarrow> util_get_varint (drop read buffer) read;
          let frame_header = (ucast v :: u16);
          Some (unat (frame_header AND 0x1FFF), frame_header AND 0x2000 = 0, read)
        }
        else Some (0, False, read));
     let frame = drop read buffer;
     payload \<leftarrow> slice frame 0 payload_len;
     if frame = [] then None
     else speaking_hooks E W s speaking payload
       (\<lambda>user. new_table
         (field ''codec'' (LNum (d_of_u64 E (ucast codec))) @
          field ''target'' (LNum (d_of_u64 E (ucast target))) @
          field ''sequence'' (LNum (d_of_u64 E sequence)) @
          field ''user'' user @ field ''speaking'' (LBool speaking) @
          field ''data'' (LStr payload) @
          field ''channels'' (LInt (opus_channels E frame)) @
          field ''bandwidth'' (LInt (opus_bandwidth E frame)) @
          field ''samples_per_frame'' (LInt (opus_frame_samples E frame)))) c
   }"

section \<open>Receiving\<close>

text \<open>
  \<open>unencrypted\<close> is the block of memory, \<open>len\<close> the number of its bytes that are the packet. \<open>udp\<close>
  tells a datagram from a packet that came through the tunnel. An empty datagram makes the length
  handed to the protobuf decoder wrap around to the largest \<open>size_t\<close>.
\<close>

definition mumble_handle_udp_packet ::
  "env \<Rightarrow> world \<Rightarrow> u8 list \<Rightarrow> nat \<Rightarrow> bool \<Rightarrow> client \<Rightarrow> client option" where
  "mumble_handle_udp_packet E W unencrypted len udp c = do {
     header \<leftarrow> peek unencrypted 0;
     if legacy c then do {
       let ident = drop_bit 5 header AND 0x7;
       if ident = 1 then do {
         (timestamp, read) \<leftarrow> util_get_varint (drop 1 unencrypted) 1;
         Some (mumble_update_ping_udp E W timestamp udp c)
       }
       else if ident = 4 \<or> ident = 2 \<or> ident = 0 \<or> ident = 3 then do {
         let target = (ucast (drop_bit 31 (ucast header :: u32)) :: u8);
         (s, read) \<leftarrow> util_get_varint (drop 1 unencrypted) 1;
         mumble_handle_speaking_hooks_legacy E W (drop read unencrypted) ident target (ucast s) c
       }
       else Some c
     }
     else if header \<le> 1 \<and> len = 0 then None
     else if header = 0 then
       (case unpack_udp_audio E (drop 1 (take len unencrypted)) of
          Some audio \<Rightarrow> mumble_handle_speaking_hooks_protobuf E W audio (a_sender_session audio) c
        | None \<Rightarrow> Some c)
     else if header = 1 then
       (case unpack_udp_ping E (drop 1 (take len unencrypted)) of
          Some timestamp \<Rightarrow> Some (mumble_update_ping_udp E W timestamp udp c)
        | None \<Rightarrow> Some c)
     else Some c
   }"

text \<open>
  \<open>socket_read_event_udp\<close> with the bytes received, or \<open>None\<close> for a read that fails. The plain text
  is decrypted into a block of the length of the datagram that was zero before.
\<close>

definition socket_read_event_udp :: "env \<Rightarrow> world \<Rightarrow> u8 list option \<Rightarrow> client \<Rightarrow> client option" where
  "socket_read_event_udp E W bytes c =
     (case bytes of
        None \<Rightarrow> Some c
      | Some [] \<Rightarrow> Some c
      | Some datagram \<Rightarrow> do {
          k \<leftarrow> crypt c;
          if crypt_isValid k then
            (case crypt_decrypt (aes_encrypt E) (aes_decrypt E) datagram k of
               (Some plain, k) \<Rightarrow>
                 mumble_handle_udp_packet E W (plain @ replicate (length datagram - length plain) 0)
                   (length datagram - 4) True (c \<lparr> crypt := Some k \<rparr>)
             | (None, k) \<Rightarrow> Some (c \<lparr> crypt := Some k \<rparr>))
          else Some c
        })"

section \<open>The invariant of the client\<close>

lemma encrypted_ok: "crypt_encrypt F m k = (r, k') \<Longrightarrow> crypt_ok k \<longrightarrow> crypt_ok k'"
  using crypt_ok_encrypt [of k F m] by auto

lemma decrypted_ok: "crypt_decrypt F G m k = (r, k') \<Longrightarrow> crypt_ok k \<longrightarrow> crypt_ok k'"
  using crypt_ok_decrypt [of k F G m] by auto

lemma client_ok_sendudp: "client_ok c \<Longrightarrow> all_some client_ok (packet_sendudp E W m c)"
  unfolding packet_sendudp_def
  by (intro wp) (auto simp: Let_def intro!: client_ok_crypt dest!: encrypted_ok dest: client_okD(3))

lemma client_ok_ping_udp: "client_ok c \<Longrightarrow> all_some client_ok (mumble_ping_udp E W t c)"
  unfolding mumble_ping_udp_def mumble_ping_udp_legacy_def mumble_ping_udp_protobuf_def
  apply (intro wp)
  apply (auto simp: bind_eq_Some_conv split: if_splits dest: all_someD [OF client_ok_sendudp])
  done

lemma client_ok_ping_tcp: "client_ok c \<Longrightarrow> all_some client_ok (mumble_ping_tcp E t c)"
  unfolding mumble_ping_tcp_def by (intro wp) simp

lemma client_ok_ping: "client_ok c \<Longrightarrow> all_some client_ok (mumble_ping E W c)"
  unfolding mumble_ping_def
  by (intro all_some_bind all_some_mono [OF client_ok_ping_tcp] client_ok_ping_udp)

lemma client_ok_pong_udp [simp]: "client_ok (mumble_update_ping_udp E W t udp c) = client_ok c"
  by (simp add: mumble_update_ping_udp_def Let_def)

lemma client_ok_pong_tcp [simp]: "client_ok (snd (mumble_update_ping_tcp E W t c)) = client_ok c"
  by (simp add: mumble_update_ping_tcp_def Let_def)

lemma record_silence_ok:
  "mumble_handle_record_silence E a t u = Some u' \<Longrightarrow>
   \<exists>f. u' = u \<lparr> u_recording_file := f \<rparr> \<and> (f = None \<longleftrightarrow> u_recording_file u = None)"
  by (cases u) (auto simp: mumble_handle_record_silence_def bind_eq_Some_conv split: option.splits if_splits)

lemma handle_record_ok:
  "\<exists>f. mumble_handle_record E u p = u \<lparr> u_recording_file := f \<rparr> \<and> (f = None \<longleftrightarrow> u_recording_file u = None)"
  by (cases u) (auto simp: mumble_handle_record_def split: option.splits)

text \<open>
  The conditions of the hooks, simplified: the user starts when the flag was off, and stops when the
  packet is a terminator.
\<close>

lemma starts_iff: "(\<not> a \<and> \<not> b \<or> (a \<noteq> b) \<and> b) \<longleftrightarrow> \<not> a" "(\<not> a \<and> \<not> b \<or> (a \<noteq> b) \<and> \<not> b) \<longleftrightarrow> \<not> b"
  by auto

definition spoken_trace :: "(lval \<Rightarrow> lval) \<Rightarrow> u32 \<Rightarrow> bool \<Rightarrow> bool \<Rightarrow> client \<Rightarrow> client" where
  "spoken_trace speak s before speaking c =
     (let user = mumble_user_raw_get c s;
          c = (if before then c else mumble_hook_call ''OnUserStartSpeaking'' [user] c);
          c = mumble_hook_call ''OnUserSpeak'' [speak user] c
      in if speaking then c else mumble_hook_call ''OnUserStopSpeaking'' [user] c)"

lemma spoken_trace_frame [simp]:
  "users (spoken_trace speak s b b' c) = users c" "self (spoken_trace speak s b b' c) = self c"
  "client_ok (spoken_trace speak s b b' c) = client_ok c"
  "mumble_user_raw_get (spoken_trace speak s b b' c) t = mumble_user_raw_get c t"
  by (simp_all add: spoken_trace_def Let_def mumble_user_raw_get_def)

lemma speaking_hooks_result:
  assumes "speaking_hooks E W s speaking payload speak c = Some c'"
  obtains f where
    "f = None \<longleftrightarrow> u_recording_file (fst (mumble_user_get s c)) = None"
    "c' = put_user s
       (let u = (fst (mumble_user_get s c)) \<lparr> u_speaking := speaking, u_recording_file := f \<rparr>
        in if speaking then u else u \<lparr> u_last_spoke := Some (now W) \<rparr>)
       (spoken_trace speak s (u_speaking (fst (mumble_user_get s c))) speaking (snd (mumble_user_get s c)))"
proof -
  obtain u c1 where g: "mumble_user_get s c = (u, c1)" by (cases "mumble_user_get s c")
  let ?u1 = "u \<lparr> u_speaking := speaking \<rparr>"
  note unfolded = assms [unfolded speaking_hooks_def g Let_def prod.case starts_iff]
  obtain u2 where u2: "(if \<not> u_speaking u then mumble_handle_record_silence E (memory W) (now W) ?u1 else Some ?u1) = Some u2"
    using unfolded by (auto simp: bind_eq_Some_conv)
  obtain f where f: "u2 = ?u1 \<lparr> u_recording_file := f \<rparr>" "f = None \<longleftrightarrow> u_recording_file u = None"
  proof (cases "u_speaking u")
    case True
    with u2 that [of "u_recording_file u"] show thesis by (cases u) simp
  next
    case False
    with u2 record_silence_ok [of E "memory W" "now W" ?u1 u2] that show thesis by auto
  qed
  obtain f' where f': "mumble_handle_record E u2 payload = u2 \<lparr> u_recording_file := f' \<rparr>"
      "f' = None \<longleftrightarrow> u_recording_file u2 = None"
    using handle_record_ok by blast
  have e: "mumble_handle_record E u2 payload = u \<lparr> u_speaking := speaking, u_recording_file := f' \<rparr>"
    using f f' by simp
  show thesis
    by (rule that [of f'])
      (use unfolded g u2 f f' e in \<open>simp_all add: Let_def spoken_trace_def split: if_splits\<close>)
qed

lemma client_ok_speaking:
  assumes "client_ok c"
  shows "all_some client_ok (speaking_hooks E W s speaking payload speak c)"
  unfolding all_some_def using client_ok_user_get [OF assms(1), of s]
  by (auto elim!: speaking_hooks_result simp: Let_def user_ok_def intro!: client_ok_put_user)

lemma client_ok_voice:
  "client_ok c \<Longrightarrow> all_some client_ok (mumble_handle_speaking_hooks_protobuf E W a s c)"
  "client_ok c \<Longrightarrow> all_some client_ok (mumble_handle_speaking_hooks_legacy E W b codec target s c)"
  unfolding mumble_handle_speaking_hooks_protobuf_def mumble_handle_speaking_hooks_legacy_def
  by (intro wp client_ok_speaking; assumption)+

lemma client_ok_udp_packet:
  "client_ok c \<Longrightarrow> all_some client_ok (mumble_handle_udp_packet E W b n udp c)"
  unfolding mumble_handle_udp_packet_def
  by (intro wp client_ok_voice) simp_all

lemma client_ok_read_udp: "client_ok c \<Longrightarrow> all_some client_ok (socket_read_event_udp E W b c)"
  unfolding socket_read_event_udp_def
  by (intro wp client_ok_udp_packet client_ok_crypt)
    (auto dest!: decrypted_ok dest: client_okD(3))

section \<open>The fall back to the tunnel\<close>

fun unanswered_pings :: "env \<Rightarrow> world list \<Rightarrow> client \<Rightarrow> client option" where
  "unanswered_pings E [] c = Some c"
| "unanswered_pings E (W # Ws) c = do { c \<leftarrow> mumble_ping E W c; unanswered_pings E Ws c }"

definition keyed :: "client \<Rightarrow> bool" where
  "keyed c \<longleftrightarrow> (\<exists>k. crypt c = Some k \<and> crypt_isValid k)"

lemma encrypted_valid: "crypt_encrypt F m k = (r, k') \<Longrightarrow> crypt_isValid k' = crypt_isValid k"
  using crypt_encrypt_ok(1) [of F m k r k'] by (simp add: crypt_isValid_def)

lemma sendudp_keyed:
  assumes "keyed c"
  shows "\<exists>c'. packet_sendudp E W m c = Some c' \<and> keyed c' \<and> udp_ping_acc c' = udp_ping_acc c \<and>
    tcp_udp_tunnel c' = tcp_udp_tunnel c \<and> legacy c' = legacy c"
proof -
  obtain k where k: "crypt c = Some k" "crypt_isValid k" using assms by (auto simp: keyed_def)
  obtain r k' where e: "crypt_encrypt (aes_encrypt E) m k = (r, k')"
    by (cases "crypt_encrypt (aes_encrypt E) m k")
  show ?thesis
    using k e encrypted_valid [OF e] assms
    by (cases r) (auto simp: packet_sendudp_def keyed_def Let_def)
qed

lemma set_varint_fits: "\<exists>b n. util_set_varint (replicate 1023 0) v = Some (b, n)"
  using length_varint_bytes [of v]
  by (auto simp: util_set_varint_eq put_bytes_def poke_def)

lemma ping_udp_keyed:
  assumes "keyed c"
  shows "\<exists>c'. mumble_ping_udp E W t c = Some c' \<and> keyed c' \<and> udp_ping_acc c' = udp_ping_acc c + 1 \<and>
    tcp_udp_tunnel c' = (tcp_udp_tunnel c \<or> udp_ping_acc c \<ge> 2)"
proof -
  obtain k where k: "crypt c = Some k" "crypt_isValid k" using assms by (auto simp: keyed_def)
  obtain b n where b: "util_set_varint (replicate 1023 0) t = Some (b, n)" using set_varint_fits by blast
  define m where "m = (if legacy c then push_bit 5 1 # take (unat n) b else 1 # pack_udp_ping E t)"
  obtain c1 where c1: "packet_sendudp E W m c = Some c1" "keyed c1" "udp_ping_acc c1 = udp_ping_acc c"
      "tcp_udp_tunnel c1 = tcp_udp_tunnel c"
    using sendudp_keyed [OF assms, of E W m] by blast
  have "(if legacy c then mumble_ping_udp_legacy E W t c else mumble_ping_udp_protobuf E W t c) = Some (t, c1)"
    using c1(1) b
    by (simp add: m_def mumble_ping_udp_legacy_def mumble_ping_udp_protobuf_def split: if_splits)
  with k c1 show ?thesis by (auto simp: mumble_ping_udp_def Let_def keyed_def)
qed

lemma ping_tcp_keyed:
  assumes "keyed c"
  shows "\<exists>c'. mumble_ping_tcp E t c = Some c' \<and> keyed c' \<and> udp_ping_acc c' = udp_ping_acc c \<and>
    tcp_udp_tunnel c' = tcp_udp_tunnel c"
  using assms by (auto simp: keyed_def mumble_ping_tcp_def Let_def)

lemma ping_keyed:
  assumes "keyed c"
  shows "\<exists>c'. mumble_ping E W c = Some c' \<and> keyed c' \<and> udp_ping_acc c' = udp_ping_acc c + 1 \<and>
    tcp_udp_tunnel c' = (tcp_udp_tunnel c \<or> udp_ping_acc c \<ge> 2)"
proof -
  obtain c1 where c1: "mumble_ping_tcp E (hrtime1 W) c = Some c1" "keyed c1"
      "udp_ping_acc c1 = udp_ping_acc c" "tcp_udp_tunnel c1 = tcp_udp_tunnel c"
    using ping_tcp_keyed [OF assms] by blast
  with ping_udp_keyed [OF c1(2), of E W "hrtime2 W"] show ?thesis by (simp add: mumble_ping_def)
qed

lemma unanswered_in_tunnel:
  "keyed c \<Longrightarrow> tcp_udp_tunnel c \<Longrightarrow>
   \<exists>c'. unanswered_pings E Ws c = Some c' \<and> keyed c' \<and> tcp_udp_tunnel c'"
proof (induction Ws arbitrary: c)
  case (Cons W Ws)
  with ping_keyed [of c E W] show ?case by fastforce
qed simp

lemma unanswered_counted:
  assumes "keyed c" "\<not> tcp_udp_tunnel c" "udp_ping_acc c = of_nat j" "j \<le> 2"
  shows "\<exists>c'. unanswered_pings E Ws c = Some c' \<and> keyed c' \<and>
    tcp_udp_tunnel c' = (j + length Ws \<ge> 3)"
  using assms
proof (induction Ws arbitrary: c j)
  case (Cons W Ws)
  obtain c1 where c1: "mumble_ping E W c = Some c1" "keyed c1" "udp_ping_acc c1 = of_nat (Suc j)"
      "tcp_udp_tunnel c1 = (of_nat j \<ge> (2 :: u8))"
    using ping_keyed [OF Cons.prems(1), of E W] Cons.prems by (auto simp: add.commute)
  have "j = 0 \<or> j = 1 \<or> j = 2" using Cons.prems(4) by auto
  then have "(of_nat j \<ge> (2 :: u8)) = (j = 2)" by (auto simp: word_le_nat_alt)
  with c1 Cons.IH [of c1 "Suc j"] unanswered_in_tunnel [of c1 E Ws] Cons.prems(4)
  show ?case by (cases "j = 2") auto
qed simp

text \<open>
  The fall back: while voice goes by UDP and no ping is answered, the first two pings change
  nothing and the third switches the client to the TCP tunnel, where it stays however many more
  pings go unanswered (the byte that counts them may wrap around).
\<close>

theorem fallback_after_three:
  assumes "keyed c" "\<not> tcp_udp_tunnel c" "udp_ping_acc c = 0"
  shows "\<exists>c'. unanswered_pings E Ws c = Some c' \<and> (tcp_udp_tunnel c' \<longleftrightarrow> 3 \<le> length Ws)"
  using unanswered_counted [OF assms(1,2), of 0 E Ws] assms(3) by auto

lemma fallback_after_three_witness:
  "\<exists>c'. unanswered_pings sample_env (replicate 4 sample_world)
      (mumble_client_new 1 5 735 0 0 \<lparr> crypt := Some (crypt_init \<lparr> bInit := True \<rparr>), tcp_udp_tunnel := False \<rparr>) = Some c' \<and>
    tcp_udp_tunnel c'"
  using fallback_after_three
    [of "mumble_client_new 1 5 735 0 0 \<lparr> crypt := Some (crypt_init \<lparr> bInit := True \<rparr>), tcp_udp_tunnel := False \<rparr>"
        sample_env "replicate 4 sample_world"]
  by (simp add: keyed_def crypt_isValid_def mumble_client_new_def)

text \<open>
  The link as a state machine, labelled with what happens: a ping is sent by UDP, a reply arrives
  by UDP or through the tunnel, or something else. Only \<open>mumble_ping_udp\<close> and \<open>mumble_update_ping_udp\<close>
  write the two members, so that every other operation (setting up the keys, connecting, the methods, the
  other handlers) is a step that may change anything but them.
\<close>

datatype link_event = Pinged | Replied bool | Otherwise

definition is_reply :: "env \<Rightarrow> bool \<Rightarrow> u8 list \<Rightarrow> nat \<Rightarrow> bool" where
  "is_reply E old b n =
     (if old then drop_bit 5 (hd b) AND 0x7 = 1
      else hd b = 1 \<and> unpack_udp_ping E (drop 1 (take n b)) \<noteq> None)"

inductive link_step :: "env \<Rightarrow> client \<Rightarrow> link_event \<Rightarrow> client \<Rightarrow> bool" for E where
  ping: "mumble_ping E W c = Some c' \<Longrightarrow> link_step E c (if keyed c then Pinged else Otherwise) c'"
| packet: "mumble_handle_udp_packet E W b n udp c = Some c' \<Longrightarrow>
    link_step E c (if is_reply E (legacy c) b n then Replied udp else Otherwise) c'"
| other: "tcp_udp_tunnel c' = tcp_udp_tunnel c \<Longrightarrow> udp_ping_acc c' = udp_ping_acc c \<Longrightarrow> link_step E c Otherwise c'"

inductive_cases link_step_cases: "link_step E c e c'"

inductive link_reachable :: "env \<Rightarrow> client \<Rightarrow> link_event list \<Rightarrow> client \<Rightarrow> bool" for E c0 where
  start: "link_reachable E c0 [] c0"
| step: "link_reachable E c0 es c \<Longrightarrow> link_step E c e c' \<Longrightarrow> link_reachable E c0 (es @ [e]) c'"

text \<open>
  What the history asks for, in its own words: the pings behind the last reply, and whether there is
  a reply by UDP since which at no time more than two pings were unanswered.
\<close>

definition unanswered :: "link_event list \<Rightarrow> nat" where
  "unanswered es = count_list (takeWhile (\<lambda>e. \<forall>udp. e \<noteq> Replied udp) (rev es)) Pinged"

definition answered_by_udp :: "link_event list \<Rightarrow> bool" where
  "answered_by_udp es \<longleftrightarrow>
     (\<exists>xs ys. es = xs @ Replied True # ys \<and> (\<forall>n\<le>length ys. unanswered (take n ys) \<le> 2))"

lemma unanswered_snoc [simp]:
  "unanswered [] = 0" "unanswered (es @ [Pinged]) = Suc (unanswered es)" "unanswered (es @ [Replied udp]) = 0"
  "unanswered (es @ [Otherwise]) = unanswered es"
  by (simp_all add: unanswered_def)

lemma unanswered_behind: "unanswered (xs @ Replied udp # ys) = unanswered ys"
proof (induction ys rule: rev_induct)
  case Nil
  then show ?case using unanswered_snoc(3) [of xs udp] by simp
next
  case (snoc e ys)
  then show ?case
    using unanswered_snoc(2-4) [of "xs @ Replied udp # ys"] by (cases e) simp_all
qed

lemma by_udp_nil: "\<not> answered_by_udp []"
  by (simp add: answered_by_udp_def)

lemma by_udp_reply: "answered_by_udp (es @ [Replied True])"
  unfolding answered_by_udp_def by (rule exI [of _ es]) simp

lemma by_udp_snoc:
  assumes "e \<noteq> Replied True"
  shows "answered_by_udp (es @ [e]) \<longleftrightarrow> answered_by_udp es \<and> unanswered (es @ [e]) \<le> 2"
proof
  assume "answered_by_udp (es @ [e])"
  then obtain xs ys where e: "es @ [e] = xs @ Replied True # ys" "\<forall>n\<le>length ys. unanswered (take n ys) \<le> 2"
    by (auto simp: answered_by_udp_def)
  with assms obtain zs where z: "ys = zs @ [e]" "es = xs @ Replied True # zs"
    by (cases ys rule: rev_cases) auto
  have "unanswered (take n zs) \<le> 2" if "n \<le> length zs" for n
    using e(2) [rule_format, of n] z(1) that by simp
  moreover have "unanswered (es @ [e]) = unanswered ys" unfolding e(1) by (rule unanswered_behind)
  moreover have "unanswered ys \<le> 2" using e(2) by auto
  ultimately show "answered_by_udp es \<and> unanswered (es @ [e]) \<le> 2"
    unfolding answered_by_udp_def using z(2) by metis
next
  assume a: "answered_by_udp es \<and> unanswered (es @ [e]) \<le> 2"
  then obtain xs zs where z: "es = xs @ Replied True # zs" "\<forall>n\<le>length zs. unanswered (take n zs) \<le> 2"
    by (auto simp: answered_by_udp_def)
  have "unanswered (zs @ [e]) \<le> 2" using a z(1) unanswered_behind [of xs True "zs @ [e]"] by simp
  with z(2) have "\<forall>n\<le>length (zs @ [e]). unanswered (take n (zs @ [e])) \<le> 2"
    by (auto simp: le_Suc_eq)
  then show "answered_by_udp (es @ [e])"
    unfolding answered_by_udp_def using z(1) by (intro exI [of _ xs] exI [of _ "zs @ [e]"]) simp
qed

lemma pong_link:
  "udp_ping_acc (mumble_update_ping_udp E W t udp c) = 0"
  "tcp_udp_tunnel (mumble_update_ping_udp E W t udp c) = (tcp_udp_tunnel c \<and> \<not> udp)"
  by (auto simp: mumble_update_ping_udp_def Let_def)

lemma speaking_link:
  "speaking_hooks E W s b p f c = Some c' \<Longrightarrow>
   udp_ping_acc c' = udp_ping_acc c \<and> tcp_udp_tunnel c' = tcp_udp_tunnel c"
  by (elim speaking_hooks_result) (simp add: spoken_trace_def Let_def)

text \<open>What a packet does to the two members, and what a ping does.\<close>

lemma packet_link:
  assumes "mumble_handle_udp_packet E W b n udp c = Some c'"
  shows "if is_reply E (legacy c) b n then udp_ping_acc c' = 0 \<and> tcp_udp_tunnel c' = (tcp_udp_tunnel c \<and> \<not> udp)
    else udp_ping_acc c' = udp_ping_acc c \<and> tcp_udp_tunnel c' = tcp_udp_tunnel c"
proof -
  obtain h t where b: "b = h # t"
    using assms by (cases b) (simp_all add: mumble_handle_udp_packet_def peek_def)
  have legacy: "mumble_handle_speaking_hooks_legacy E W x i g u c = Some c' \<Longrightarrow>
      udp_ping_acc c' = udp_ping_acc c \<and> tcp_udp_tunnel c' = tcp_udp_tunnel c" for x i g u
    by (auto simp: mumble_handle_speaking_hooks_legacy_def bind_eq_Some_conv Let_def split: if_splits option.splits
        dest!: speaking_link)
  have protobuf: "mumble_handle_speaking_hooks_protobuf E W a u c = Some c' \<Longrightarrow>
      udp_ping_acc c' = udp_ping_acc c \<and> tcp_udp_tunnel c' = tcp_udp_tunnel c" for a u
    by (auto simp: mumble_handle_speaking_hooks_protobuf_def bind_eq_Some_conv Let_def split: if_splits option.splits
        dest!: speaking_link)
  note read = assms [unfolded mumble_handle_udp_packet_def b peek_def, simplified]
  show ?thesis
  proof (cases "legacy c")
    case True
    then show ?thesis
      using read
      by (cases "drop_bit 5 h AND 7 = 1")
        (auto simp: b is_reply_def bind_eq_Some_conv pong_link Let_def split: if_splits dest!: legacy)
  next
    case False
    then show ?thesis
      using read
      by (auto simp: b is_reply_def pong_link split: if_splits option.splits dest!: protobuf)
  qed
qed

lemma ping_link:
  assumes "mumble_ping E W c = Some c'"
  shows "if keyed c then udp_ping_acc c' = udp_ping_acc c + 1 \<and> tcp_udp_tunnel c' = (tcp_udp_tunnel c \<or> udp_ping_acc c \<ge> 2)
    else udp_ping_acc c' = udp_ping_acc c \<and> tcp_udp_tunnel c' = tcp_udp_tunnel c"
proof (cases "keyed c")
  case True
  then show ?thesis using ping_keyed [OF True, of E W] assms by simp
next
  case False
  then show ?thesis
    using assms by (auto simp: mumble_ping_def mumble_ping_tcp_def mumble_ping_udp_def keyed_def
        bind_eq_Some_conv Let_def split: if_splits)
qed

text \<open>
  C11. Where voice goes is decided by the history of the link alone: whatever pings, replies, packets
  and other operations come in whatever order, a client sends its voice by UDP exactly when it has had a reply
  by UDP since which at no time more than two pings were unanswered. The counter holds the
  pings behind the last reply, by UDP or through the tunnel, cut to a byte.
\<close>

theorem link_invariant:
  assumes "link_reachable E (mumble_client_new major minor patch jb jr) es c"
  shows "(\<not> tcp_udp_tunnel c \<longleftrightarrow> answered_by_udp es) \<and> udp_ping_acc c = of_nat (unanswered es)"
  using assms
proof induction
  case start
  then show ?case by (simp add: mumble_client_new_def by_udp_nil)
next
  case (step es c e c')
  have two: "(2 :: u8) \<le> of_nat (unanswered es) \<longleftrightarrow> 2 \<le> unanswered es" if "\<not> tcp_udp_tunnel c"
  proof -
    have "unanswered es \<le> 2" using that step.IH
      by (auto simp: answered_by_udp_def unanswered_behind)
    then have "unanswered es = 0 \<or> unanswered es = 1 \<or> unanswered es = 2" by auto
    then show ?thesis by (auto simp: word_le_nat_alt)
  qed
  have low: "unanswered es \<le> 2" if "answered_by_udp es"
    using that by (auto simp: answered_by_udp_def unanswered_behind)
  from step.hyps(2) show ?case
  proof (cases rule: link_step.cases)
    case (ping W)
    then show ?thesis
      using ping_link [OF ping(2)] step.IH two low by_udp_snoc [of Pinged es] by_udp_snoc [of Otherwise es]
      by (cases "tcp_udp_tunnel c") (auto split: if_splits)
  next
    case (packet W b n udp)
    then show ?thesis
      using packet_link [OF packet(2)] step.IH low by_udp_reply [of es] by_udp_snoc [of "Replied False" es]
        by_udp_snoc [of Otherwise es]
      by (cases udp) (auto split: if_splits)
  next
    case other
    then show ?thesis using step.IH low by_udp_snoc [of Otherwise es] by auto
  qed
qed

text \<open>A reply by UDP and two pings, and a third ping.\<close>

lemma link_invariant_witness:
  "\<exists>c c'. link_reachable sample_env (mumble_client_new 1 5 735 0 0)
       [Otherwise, Replied True, Pinged, Pinged] c \<and> \<not> tcp_udp_tunnel c \<and> udp_ping_acc c = 2 \<and>
     link_reachable sample_env (mumble_client_new 1 5 735 0 0)
       [Otherwise, Replied True, Pinged, Pinged, Pinged] c' \<and> tcp_udp_tunnel c'"
proof -
  let ?R = "link_reachable sample_env (mumble_client_new 1 5 735 0 0)"
  let ?k = "mumble_client_new 1 5 735 0 0 \<lparr> crypt := Some (crypt_init \<lparr> bInit := True \<rparr>) \<rparr>"
  have r1: "?R ([] @ [Otherwise]) ?k"
    by (rule link_reachable.step [OF link_reachable.start link_step.other]) simp_all
  let ?c2 = "mumble_update_ping_udp sample_env sample_world 0 True ?k"
  have "mumble_handle_udp_packet sample_env sample_world [1] 1 True ?k = Some ?c2"
    by (simp add: mumble_handle_udp_packet_def peek_def mumble_client_new_def sample_env_def)
  from link_step.packet [OF this] have s2: "link_step sample_env ?k (Replied True) ?c2"
    by (simp add: is_reply_def mumble_client_new_def sample_env_def)
  have k2: "keyed ?c2"
    by (simp add: keyed_def crypt_isValid_def mumble_update_ping_udp_def mumble_hook_call_def mumble_client_new_def Let_def)
  have next_ping: "\<exists>c'. ?R (es @ [Pinged]) c' \<and> keyed c'" if "?R es c" "keyed c" for es c
    using ping_keyed [OF that(2), of sample_env sample_world] link_reachable.step [OF that(1)]
      link_step.ping [of sample_env sample_world c] that(2) by fastforce
  obtain c3 where c3: "?R ((([] @ [Otherwise]) @ [Replied True]) @ [Pinged]) c3" "keyed c3"
    using next_ping [OF link_reachable.step [OF r1 s2] k2] by blast
  obtain c4 where c4: "?R (((([] @ [Otherwise]) @ [Replied True]) @ [Pinged]) @ [Pinged]) c4" "keyed c4"
    using next_ping [OF c3] by blast
  obtain c5 where c5: "?R ((((([] @ [Otherwise]) @ [Replied True]) @ [Pinged]) @ [Pinged]) @ [Pinged]) c5"
    using next_ping [OF c4] by blast
  have b: "answered_by_udp (((([] @ [Otherwise]) @ [Replied True]) @ [Pinged]) @ [Pinged])"
    "\<not> answered_by_udp ((((([] @ [Otherwise]) @ [Replied True]) @ [Pinged]) @ [Pinged]) @ [Pinged])"
    by (simp_all add: by_udp_snoc by_udp_reply del: append.simps append_assoc)
  show ?thesis
    using link_invariant [OF c4(1)] link_invariant [OF c5] c4(1) c5 b
    by (intro exI [of _ c4] exI [of _ c5]) (simp_all add: unanswered_def)
qed

section \<open>The hooks of speaking users\<close>

definition count_hook :: "string \<Rightarrow> u32 \<Rightarrow> event list \<Rightarrow> nat" where
  "count_hook hook s tr = length (filter (\<lambda>e. e = Hook hook [LUser s]) tr)"

definition is_speaking :: "client \<Rightarrow> u32 \<Rightarrow> bool" where
  "is_speaking c s = (case users c s of None \<Rightarrow> False | Some u \<Rightarrow> u_speaking u)"

text \<open>Every user has stopped as often as it has started, but for the one time it still speaks.\<close>

definition hooks_balanced :: "client \<Rightarrow> bool" where
  "hooks_balanced c \<longleftrightarrow> self c > -2 \<and>
     (\<forall>s. 0 \<le> sint s \<longrightarrow>
        count_hook ''OnUserStartSpeaking'' s (trace c) =
        count_hook ''OnUserStopSpeaking'' s (trace c) + of_bool (is_speaking c s))"

fun receive_packets :: "env \<Rightarrow> (world \<times> u8 list \<times> bool) list \<Rightarrow> client \<Rightarrow> client option" where
  "receive_packets E [] c = Some c"
| "receive_packets E ((W, b, udp) # ps) c = do {
     c \<leftarrow> mumble_handle_udp_packet E W b (length b) udp c;
     receive_packets E ps c
   }"

lemma count_hook_append [simp]:
  "count_hook h s (tr @ tr') = count_hook h s tr + count_hook h s tr'"
  "count_hook h s [] = 0"
  "count_hook h s (e # tr) = of_bool (e = Hook h [LUser s]) + count_hook h s tr"
  by (simp_all add: count_hook_def)

lemma is_speaking_get: "is_speaking (snd (mumble_user_get s c)) t = is_speaking c t"
proof -
  have "u_speaking (new_user s) = False" by (simp add: new_user_def)
  then show ?thesis
    using user_get_cases [of c s] by (cases "t = s") (auto simp: is_speaking_def)
qed

lemma balanced_user_get:
  "hooks_balanced c \<Longrightarrow> hooks_balanced (snd (mumble_user_get s c)) \<and>
   is_speaking (snd (mumble_user_get s c)) s = u_speaking (fst (mumble_user_get s c))"
  using is_speaking_get [of s c] user_store.get_entry [of s c]
  by (auto simp: hooks_balanced_def is_speaking_def)

lemma is_speaking_put:
  "users c s \<noteq> None \<Longrightarrow> is_speaking (put_user s u c) t = (if t = s then u_speaking u else is_speaking c t)"
  by (auto simp: is_speaking_def put_user_def)

lemma is_speaking_spoken: "is_speaking (spoken_trace speak s b b' c) t = is_speaking c t"
  by (simp add: is_speaking_def)

lemma count_spoken:
  assumes "self c > -2" "0 \<le> sint s" "users c s \<noteq> None"
  shows "count_hook ''OnUserStartSpeaking'' t (trace (spoken_trace speak s b b' c)) =
      count_hook ''OnUserStartSpeaking'' t (trace c) + of_bool (t = s \<and> \<not> b)"
    "count_hook ''OnUserStopSpeaking'' t (trace (spoken_trace speak s b b' c)) =
      count_hook ''OnUserStopSpeaking'' t (trace c) + of_bool (t = s \<and> \<not> b')"
  using assms by (auto simp: spoken_trace_def Let_def mumble_user_raw_get_def)

lemma count_spoken_nil:
  assumes "sint s < 0"
  shows "count_hook ''OnUserStartSpeaking'' t (trace (spoken_trace speak s b b' c)) =
      count_hook ''OnUserStartSpeaking'' t (trace c)"
    "count_hook ''OnUserStopSpeaking'' t (trace (spoken_trace speak s b b' c)) =
      count_hook ''OnUserStopSpeaking'' t (trace c)"
  using assms by (auto simp: spoken_trace_def Let_def mumble_user_raw_get_def)

lemma balanced_speaking:
  assumes "hooks_balanced c"
  shows "all_some hooks_balanced (speaking_hooks E W s speaking payload speak c)"
proof -
  obtain u c1 where g: "mumble_user_get s c = (u, c1)" by (cases "mumble_user_get s c")
  have b: "hooks_balanced c1" "is_speaking c1 s = u_speaking u" and u: "users c1 s = Some u"
    using balanced_user_get [OF assms, of s] user_store.get_entry [of s c] g by auto
  have "hooks_balanced (put_user s v (spoken_trace speak s (u_speaking u) speaking c1))"
    if v: "u_speaking v = speaking" for v
  proof (cases "0 \<le> sint s")
    case True
    have self: "self c1 > -2" using b(1) by (simp add: hooks_balanced_def)
    note counts = count_spoken [OF self True, of _ speak "u_speaking u" speaking]
    show ?thesis
      using b u v counts by (auto simp: hooks_balanced_def is_speaking_put is_speaking_spoken)
  next
    case False
    then show ?thesis
      using b(1) u count_spoken_nil [of s _ speak "u_speaking u" speaking c1]
      by (auto simp: hooks_balanced_def is_speaking_put is_speaking_spoken)
  qed
  then show ?thesis
    unfolding all_some_def by (auto elim!: speaking_hooks_result simp: g Let_def)
qed

lemma balanced_pong: "hooks_balanced c \<Longrightarrow> hooks_balanced (mumble_update_ping_udp E W t udp c)"
  by (auto simp: hooks_balanced_def mumble_update_ping_udp_def Let_def is_speaking_def)

lemma balanced_packet:
  "hooks_balanced c \<Longrightarrow> all_some hooks_balanced (mumble_handle_udp_packet E W b n udp c)"
  unfolding mumble_handle_udp_packet_def mumble_handle_speaking_hooks_protobuf_def
    mumble_handle_speaking_hooks_legacy_def
  by (intro wp balanced_speaking balanced_pong)

lemma balanced_packets:
  "hooks_balanced c \<Longrightarrow> all_some hooks_balanced (receive_packets E ps c)"
proof (induction ps arbitrary: c)
  case (Cons p ps)
  obtain W b udp where p: "p = (W, b, udp)" by (cases p)
  show ?case
    unfolding p receive_packets.simps
    by (intro all_some_bind all_some_mono [OF balanced_packet [OF Cons.prems]] Cons.IH)
qed (auto intro: wp)

text \<open>
  C15. The hooks of the speaking users are paired: after any sequence of datagrams and tunnelled
  packets, legacy or protobuf, every user has got as many \<open>OnUserStopSpeaking\<close> as
  \<open>OnUserStartSpeaking\<close>, and one more start exactly while its last packet was not a terminator; a
  single terminator packet gives both hooks.
\<close>

theorem voice_hooks_paired:
  assumes "hooks_balanced c" "receive_packets E ps c = Some c'" "0 \<le> sint s"
  shows "count_hook ''OnUserStartSpeaking'' s (trace c') =
    count_hook ''OnUserStopSpeaking'' s (trace c') + of_bool (is_speaking c' s)"
  using all_someD [OF balanced_packets [OF assms(1)] assms(2)] assms(3)
  by (simp add: hooks_balanced_def)

lemma voice_hooks_paired_witness:
  "\<exists>c'. receive_packets sample_env [(sample_world, [0, 1], False)]
      (mumble_client_new 1 5 735 0 0 \<lparr> self := 1 \<rparr>) = Some c' \<and>
    count_hook ''OnUserStartSpeaking'' 7 (trace c') =
      count_hook ''OnUserStopSpeaking'' 7 (trace c') + of_bool (is_speaking c' 7)"
proof -
  let ?c = "mumble_client_new 1 5 735 0 0 \<lparr> self := 1 \<rparr>"
  have b: "hooks_balanced ?c"
    by (simp add: hooks_balanced_def mumble_client_new_def is_speaking_def)
  obtain c' where c': "receive_packets sample_env [(sample_world, [0, 1], False)] ?c = Some c'"
    by (simp add: mumble_handle_udp_packet_def peek_def mumble_client_new_def sample_env_def
        mumble_handle_speaking_hooks_protobuf_def speaking_hooks_def mumble_user_get_def new_user_def
        mumble_handle_record_silence_def mumble_handle_record_def Let_def)
  from voice_hooks_paired [OF b c', of 7] c' show ?thesis by simp
qed

text \<open>
  The legacy voice packet is trusted with its length: when the frame header announces more
  bytes than the block of memory holds, the handler reads past its end.
\<close>

theorem legacy_voice_overread:
  assumes "util_get_varint buffer 0 = Some (sequence, r)"
    and "util_get_varint (drop r buffer) r = Some (v, r')"
    and "length buffer < r' + unat ((ucast v :: u16) AND 0x1FFF)"
  shows "mumble_handle_speaking_hooks_legacy E W buffer 4 target s c = None"
  using assms
  by (auto simp: mumble_handle_speaking_hooks_legacy_def slice_def Let_def)

lemma legacy_voice_overread_witness:
  "mumble_handle_speaking_hooks_legacy sample_env sample_world [1, 5, 0] 4 0 9
     (mumble_client_new 1 4 0 0 0) = None"
  by (rule legacy_voice_overread [where sequence = 1 and r = 1 and v = 5 and r' = 2])
    (simp_all add: util_get_varint_def peek_def)

end
