(* ===== verification/Packets.thy ===== *)
theory Packets
  imports Udp Bandwidth
begin

text \<open>
  The handlers of the control packets (\<open>mumble/packet.c\<close>) and their table. A handler gets the
  message protobuf-c has unpacked; when unpacking fails it returns at once (\<open>with_message\<close>). The
  records hold the members of the messages of \<open>proto/Mumble.proto\<close> the handlers read: an optional
  member is an option, of a repeated one the list. Undefined behaviour of a handler is \<open>None\<close>.
\<close>

section \<open>Messages\<close>

record version_msg =
  v_version_v1 :: "u32 option"
  v_version_v2 :: "u64 option"
  v_release :: "cstr option"
  v_os :: "cstr option"
  v_os_version :: "cstr option"

record ping_msg =
  p_timestamp :: "u64 option"
  p_good :: "u32 option"
  p_late :: "u32 option"
  p_lost :: "u32 option"
  p_resync :: "u32 option"
  p_udp_packets :: "u32 option"
  p_tcp_packets :: "u32 option"
  p_udp_ping_avg :: "u32 option"
  p_udp_ping_var :: "u32 option"
  p_tcp_ping_avg :: "u32 option"
  p_tcp_ping_var :: "u32 option"

record reject_msg =
  rj_type :: "int option"
  rj_reason :: "cstr option"

record sync_msg =
  sy_session :: "u32 option"
  sy_max_bandwidth :: "u32 option"
  sy_welcome_text :: "cstr option"
  sy_permissions :: "u64 option"

record channel_state_msg =
  cs_channel_id :: "u32 option"
  cs_parent :: "u32 option"
  cs_name :: "cstr option"
  cs_links :: "u32 list"
  cs_description :: "cstr option"
  cs_links_add :: "u32 list"
  cs_links_remove :: "u32 list"
  cs_temporary :: "bool option"
  cs_position :: "32 word option"
  cs_description_hash :: "u8 list option"
  cs_max_users :: "u32 option"
  cs_is_enter_restricted :: "bool option"
  cs_can_enter :: "bool option"

record user_remove_msg =
  ur_session :: u32
  ur_actor :: "u32 option"
  ur_reason :: "cstr option"
  ur_ban :: "bool option"

text \<open>A volume adjustment has two optional members, read without a check: absent they are 0.\<close>

record user_state_msg =
  us_session :: "u32 option"
  us_actor :: "u32 option"
  us_name :: "cstr option"
  us_user_id :: "u32 option"
  us_channel_id :: "u32 option"
  us_mute :: "bool option"
  us_deaf :: "bool option"
  us_suppress :: "bool option"
  us_self_mute :: "bool option"
  us_self_deaf :: "bool option"
  us_texture :: "u8 list option"
  us_comment :: "cstr option"
  us_hash :: "cstr option"
  us_comment_hash :: "u8 list option"
  us_texture_hash :: "u8 list option"
  us_priority_speaker :: "bool option"
  us_recording :: "bool option"
  us_listening_channel_add :: "u32 list"
  us_listening_channel_remove :: "u32 list"
  us_listening_volume_adjustment :: "(u32 \<times> u32) list"

record ban_entry_msg =
  be_address :: "u8 list"
  be_mask :: u32
  be_name :: "cstr option"
  be_hash :: "cstr option"
  be_reason :: "cstr option"
  be_start :: "cstr option"
  be_duration :: "u32 option"

record text_message_msg =
  tm_actor :: "u32 option"
  tm_session :: "u32 list"
  tm_channel_id :: "u32 list"
  tm_message :: "cstr option"

record permission_denied_msg =
  pd_permission :: "u32 option"
  pd_channel_id :: "u32 option"
  pd_session :: "u32 option"
  pd_reason :: "cstr option"
  pd_type :: "int option"
  pd_name :: "cstr option"

record chan_group_msg =
  cg_name :: "cstr option"
  cg_inherited :: "bool option"
  cg_inheritable :: "bool option"
  cg_add :: "u32 list"
  cg_remove :: "u32 list"
  cg_inherited_members :: "u32 list"

record chan_acl_msg =
  ca_apply_here :: "bool option"
  ca_apply_subs :: "bool option"
  ca_inherited :: "bool option"
  ca_user_id :: "u32 option"
  ca_group :: "cstr option"
  ca_grant :: "u32 option"
  ca_deny :: "u32 option"

record acl_msg =
  ac_channel_id :: u32
  ac_inherit_acls :: "bool option"
  ac_groups :: "chan_group_msg list"
  ac_acls :: "chan_acl_msg list"
  ac_query :: "bool option"

record query_users_msg =
  qu_ids :: "u32 list"
  qu_names :: "cstr list"

record crypt_setup_msg =
  cr_key :: "u8 list option"
  cr_client_nonce :: "u8 list option"
  cr_server_nonce :: "u8 list option"

record context_action_modify_msg =
  cm_action :: "cstr option"
  cm_text :: "cstr option"
  cm_context :: "u32 option"
  cm_operation :: "int option"

record user_list_entry_msg =
  ul_user_id :: u32
  ul_name :: "cstr option"
  ul_last_seen :: "cstr option"
  ul_last_channel :: "u32 option"

record permission_query_msg =
  pq_channel_id :: "u32 option"
  pq_permissions :: "u32 option"
  pq_flush :: "bool option"

record codec_version_msg =
  cv_alpha :: "32 word"
  cv_beta :: "32 word"
  cv_prefer_alpha :: bool
  cv_opus :: "bool option"

record stats_msg =
  st_good :: "u32 option"
  st_late :: "u32 option"
  st_lost :: "u32 option"
  st_resync :: "u32 option"

record rolling_stats_msg =
  ro_time_window :: "u32 option"
  ro_from_client :: "stats_msg option"
  ro_from_server :: "stats_msg option"

record user_stats_msg =
  ut_session :: "u32 option"
  ut_stats_only :: "bool option"
  ut_certificates :: "u8 list list"
  ut_from_client :: "stats_msg option"
  ut_from_server :: "stats_msg option"
  ut_udp_packets :: "u32 option"
  ut_tcp_packets :: "u32 option"
  ut_udp_ping_avg :: "u32 option"
  ut_udp_ping_var :: "u32 option"
  ut_tcp_ping_avg :: "u32 option"
  ut_tcp_ping_var :: "u32 option"
  ut_version :: "version_msg option"
  ut_celt_versions :: "32 word list"
  ut_address :: "u8 list option"
  ut_bandwidth :: "u32 option"
  ut_onlinesecs :: "u32 option"
  ut_idlesecs :: "u32 option"
  ut_strong_certificate :: "bool option"
  ut_opus :: "bool option"
  ut_rolling_stats :: "rolling_stats_msg option"

record server_config_msg =
  sc_max_bandwidth :: "u32 option"
  sc_welcome_text :: "cstr option"
  sc_allow_html :: "bool option"
  sc_message_length :: "u32 option"
  sc_image_message_length :: "u32 option"
  sc_max_users :: "u32 option"
  sc_recording_allowed :: "bool option"

record suggest_config_msg =
  sg_version_v1 :: "u32 option"
  sg_version_v2 :: "u64 option"
  sg_positional :: "bool option"
  sg_push_to_talk :: "bool option"

record plugin_data_msg =
  pl_sendersession :: "u32 option"
  pl_receiversessions :: "u32 list"
  pl_data :: "u8 list option"
  pl_dataid :: "cstr option"

section \<open>Small helpers\<close>

definition vbool :: "bool \<Rightarrow> lval" where "vbool b = LBool b"

text \<open>\<open>lua_pushinteger\<close> of a C \<open>bool\<close>.\<close>

definition vbit :: "bool \<Rightarrow> lval" where "vbit b = LInt (if b then 1 else 0)"

definition vhex :: "u8 list \<Rightarrow> lval" where "vhex bs = LStr (bin_to_strhex bs)"

definition updated :: "('a \<Rightarrow> 'b \<Rightarrow> 'b) \<Rightarrow> 'a option \<Rightarrow> 'b \<Rightarrow> 'b" where
  "updated f x s = (case x of None \<Rightarrow> s | Some v \<Rightarrow> f v s)"

definition replaced :: "('a \<Rightarrow> 'b \<Rightarrow> 'b) \<Rightarrow> 'a list \<Rightarrow> 'b \<Rightarrow> 'b" where
  "replaced f xs s = fold f xs s"

text \<open>The bytes read back from the copy of a binary member, all of its announced length.\<close>

definition copied :: "u8 list option \<Rightarrow> u8 list option option" where
  "copied data =
     (case data of None \<Rightarrow> Some None | Some d \<Rightarrow> map_option Some (slice (binary_copy d) 0 (length d)))"

definition with_message :: "'m option \<Rightarrow> ('m \<Rightarrow> client \<Rightarrow> client option) \<Rightarrow> client \<Rightarrow> client option" where
  "with_message m handler c = (case m of None \<Rightarrow> Some c | Some msg \<Rightarrow> handler msg c)"

section \<open>The handlers\<close>

definition packet_server_version :: "version_msg \<Rightarrow> client \<Rightarrow> client option" where
  "packet_server_version m c =
     (let t = opt_field ''version_v1'' vint (v_version_v1 m) @ opt_field ''version_v2'' vsint (v_version_v2 m);
          c = (if v_version_v2 m = None \<and> \<not> legacy c then c \<lparr> legacy := True \<rparr> else c);
          t = t @ field ''release'' (vstr (v_release m)) @ field ''os'' (vstr (v_os m)) @
              field ''os_version'' (vstr (v_os_version m))
      in Some (mumble_hook_call ''OnServerVersion'' [new_table t] c))"

definition packet_tcp_udp_tunnel :: "env \<Rightarrow> world \<Rightarrow> u8 list \<Rightarrow> client \<Rightarrow> client option" where
  "packet_tcp_udp_tunnel E W body c = mumble_handle_udp_packet E W body (length body) False c"

definition packet_server_ping :: "env \<Rightarrow> world \<Rightarrow> ping_msg \<Rightarrow> client \<Rightarrow> client option" where
  "packet_server_ping E W m c =
     (let num = (\<lambda>x. LNum (d_of_u32 E x));
          (t, c) =
            (case p_timestamp m of
               None \<Rightarrow> ([], c)
             | Some timestamp \<Rightarrow>
                 let (time, c) = mumble_update_ping_tcp E W timestamp c
                 in (field ''timestamp'' (vsint timestamp) @ field ''ping'' (LNum time) @
                     field ''average'' (LNum (udp_ping_avg c)) @
                     field ''deviation'' (LNum (udp_ping_var c)), c));
          t = t @ opt_field ''good'' num (p_good m) @ opt_field ''late'' num (p_late m) @
              opt_field ''lost'' num (p_lost m) @ opt_field ''resync'' num (p_resync m) @
              opt_field ''udp_packets'' num (p_udp_packets m) @
              opt_field ''tcp_packets'' num (p_tcp_packets m) @
              opt_field ''udp_ping_avg'' (\<lambda>x. LNum (d_of_float E x)) (p_udp_ping_avg m) @
              opt_field ''udp_ping_var'' (\<lambda>x. LNum (d_of_float E x)) (p_udp_ping_var m) @
              opt_field ''tcp_ping_avg'' (\<lambda>x. LNum (d_of_float E x)) (p_tcp_ping_avg m) @
              opt_field ''tcp_ping_var'' (\<lambda>x. LNum (d_of_float E x)) (p_tcp_ping_var m)
      in Some (mumble_hook_call ''OnPongTCP'' [new_table t] c))"

definition packet_server_reject :: "reject_msg \<Rightarrow> client \<Rightarrow> client option" where
  "packet_server_reject m c =
     Some (mumble_hook_call ''OnServerReject''
       [new_table (opt_field ''type'' LInt (rj_type m) @ field ''reason'' (vstr (rj_reason m)))] c)"

definition packet_server_sync :: "env \<Rightarrow> sync_msg \<Rightarrow> client \<Rightarrow> client option" where
  "packet_server_sync E m c = do {
     let c = c \<lparr> synced := True, ping_timer := True \<rparr>;
     let c = updated (\<lambda>s c. c \<lparr> session := s \<rparr>) (sy_session m) c;
     let t = opt_field ''user'' (mumble_user_raw_get c) (sy_session m) @
             opt_field ''max_bandwidth'' vint (sy_max_bandwidth m);
     c \<leftarrow> (case sy_max_bandwidth m of
             None \<Rightarrow> Some c
           | Some bw \<Rightarrow> map_option snd (mumble_adjust_audio_bandwidth E (c \<lparr> max_bandwidth := bw \<rparr>)));
     let t = t @ opt_field ''welcome_text'' LStr (sy_welcome_text m) @
             opt_field ''permissions'' vsint (sy_permissions m);
     let c = (case sy_permissions m of
                None \<Rightarrow> c
              | Some permissions \<Rightarrow>
                  let (root, c) = mumble_channel_get 0 c
                  in put_channel 0 (root \<lparr> c_permissions := ucast permissions \<rparr>) c);
     Some (mumble_hook_call ''OnServerSync'' [new_table t] c)
   }"

definition packet_channel_remove :: "u32 \<Rightarrow> client \<Rightarrow> client option" where
  "packet_channel_remove i c =
     (let c = mumble_hook_call ''OnChannelRemove'' [mumble_channel_raw_get c i] c
      in Some (mumble_channel_remove i c))"

text \<open>
  The members of the channel the message sets, in the order of the code. \<open>list_add\<close> puts a link in
  front, \<open>list_remove\<close> removes the first one with the id.
\<close>

definition channel_state_update :: "channel_state_msg \<Rightarrow> channel \<Rightarrow> channel" where
  "channel_state_update m ch =
     (let ch = updated (\<lambda>v ch. ch \<lparr> c_parent := v \<rparr>) (cs_parent m) ch;
          ch = updated (\<lambda>v ch. ch \<lparr> c_name := Some v \<rparr>) (cs_name m) ch;
          ch = updated (\<lambda>v ch. ch \<lparr> c_description := Some v \<rparr>) (cs_description m) ch;
          ch = updated (\<lambda>v ch. ch \<lparr> c_temporary := v \<rparr>) (cs_temporary m) ch;
          ch = updated (\<lambda>v ch. ch \<lparr> c_position := v \<rparr>) (cs_position m) ch;
          ch = updated (\<lambda>v ch. ch \<lparr> c_description_hash := binary_copy v,
                                    c_description_hash_len := Some (length v) \<rparr>) (cs_description_hash m) ch;
          ch = updated (\<lambda>v ch. ch \<lparr> c_max_users := v \<rparr>) (cs_max_users m) ch;
          ch = ch \<lparr> c_links := replaced Cons (cs_links_add m) (c_links ch) \<rparr>;
          ch = ch \<lparr> c_links := replaced remove1 (cs_links_remove m) (c_links ch) \<rparr>;
          ch = (if cs_links m = [] then ch else ch \<lparr> c_links := replaced Cons (cs_links m) [] \<rparr>);
          ch = updated (\<lambda>v ch. ch \<lparr> c_is_enter_restricted := v \<rparr>) (cs_is_enter_restricted m) ch;
          ch = updated (\<lambda>v ch. ch \<lparr> c_can_enter := Some v \<rparr>) (cs_can_enter m) ch
      in ch)"

definition packet_channel_state :: "channel_state_msg \<Rightarrow> client \<Rightarrow> client option" where
  "packet_channel_state m c =
     (case cs_channel_id m of
        None \<Rightarrow> Some c
      | Some i \<Rightarrow> do {
          let (ch, c) = mumble_channel_get i c;
          hash \<leftarrow> copied (cs_description_hash m);
          let raw = mumble_channel_raw_get c;
          let t = field ''channel'' (raw i) @ field ''channel_id'' (vint (c_channel_id ch)) @
                  opt_field ''parent'' raw (cs_parent m) @ opt_field ''name'' LStr (cs_name m) @
                  opt_field ''description'' LStr (cs_description m) @
                  opt_field ''temporary'' vbool (cs_temporary m) @
                  opt_field ''position'' vsint (cs_position m) @
                  opt_field ''description_hash'' vhex hash @
                  opt_field ''max_users'' vint (cs_max_users m) @
                  list_field ''links_add'' raw (cs_links_add m) @
                  list_field ''links_remove'' raw (cs_links_remove m) @
                  list_field ''links'' raw (cs_links m) @
                  opt_field ''is_enter_restricted'' vbool (cs_is_enter_restricted m) @
                  opt_field ''can_enter'' vbool (cs_can_enter m);
          let c = put_channel i (channel_state_update m ch) c;
          Some (mumble_hook_call ''OnChannelState'' [new_table t] c)
        })"

text \<open>\<open>lua_pushfstring\<close> writes a NULL string as \<open>(null)\<close>.\<close>

definition kick_message :: "user_remove_msg \<Rightarrow> cstr option \<Rightarrow> cstr" where
  "kick_message m actor_name =
     (let type = bytes_of (if ur_ban m = Some True then ''banned'' else ''kicked'');
          reason = (case ur_reason m of
                      None \<Rightarrow> bytes_of ''No reason given''
                    | Some r \<Rightarrow> if r = [] then bytes_of ''No reason given'' else r)
      in type @ bytes_of '' from server'' @
         (case actor_name of None \<Rightarrow> [] | Some name \<Rightarrow> bytes_of '' by '' @ name) @
         bytes_of '' (Reason '' @ [0x22] @ reason @ [0x22] @ bytes_of '')'')"

definition packet_user_remove :: "user_remove_msg \<Rightarrow> client \<Rightarrow> client option" where
  "packet_user_remove m c =
     (let t = field ''user'' (mumble_user_raw_get c (ur_session m)) @
              opt_field ''actor'' (mumble_user_raw_get c) (ur_actor m) @
              opt_field ''reason'' LStr (ur_reason m) @ opt_field ''ban'' vbool (ur_ban m);
          c = mumble_hook_call ''OnUserRemove'' [new_table t] c
      in if session c = ur_session m then
           let (message, c) =
                 (case (ur_actor m, ur_ban m) of
                    (Some a, Some b) \<Rightarrow>
                      let (actor, c) = mumble_user_get a c
                      in (kick_message m
                            (Some (case u_name actor of None \<Rightarrow> bytes_of ''(null)'' | Some n \<Rightarrow> n)), c)
                  | _ \<Rightarrow> (kick_message m None, c))
           in Some (mumble_disconnect message False c)
         else Some (mumble_user_remove (ur_session m) c))"

text \<open>The members of the user the message sets, but for its channel and its connection.\<close>

definition user_state_update :: "user_state_msg \<Rightarrow> user \<Rightarrow> user" where
  "user_state_update m u =
     (let u = updated (\<lambda>v u. u \<lparr> u_user_id := v \<rparr>) (us_user_id m) u;
          u = updated (\<lambda>v u. u \<lparr> u_mute := v \<rparr>) (us_mute m) u;
          u = updated (\<lambda>v u. u \<lparr> u_deaf := v \<rparr>) (us_deaf m) u;
          u = updated (\<lambda>v u. u \<lparr> u_self_mute := v \<rparr>) (us_self_mute m) u;
          u = updated (\<lambda>v u. u \<lparr> u_self_deaf := v \<rparr>) (us_self_deaf m) u;
          u = updated (\<lambda>v u. u \<lparr> u_suppress := v \<rparr>) (us_suppress m) u;
          u = updated (\<lambda>v u. u \<lparr> u_comment := Some v \<rparr>) (us_comment m) u;
          u = updated (\<lambda>v u. u \<lparr> u_recording := v \<rparr>) (us_recording m) u;
          u = updated (\<lambda>v u. u \<lparr> u_priority_speaker := v \<rparr>) (us_priority_speaker m) u;
          u = updated (\<lambda>v u. u \<lparr> u_texture := binary_copy v \<rparr>) (us_texture m) u;
          u = updated (\<lambda>v u. u \<lparr> u_hash := Some v \<rparr>) (us_hash m) u;
          u = updated (\<lambda>v u. u \<lparr> u_comment_hash := binary_copy v, u_comment_hash_len := length v \<rparr>)
                (us_comment_hash m) u;
          u = updated (\<lambda>v u. u \<lparr> u_texture_hash := binary_copy v, u_texture_hash_len := length v \<rparr>)
                (us_texture_hash m) u;
          u = u \<lparr> u_listens := replaced Cons (us_listening_channel_add m) (u_listens u) \<rparr>;
          u = u \<lparr> u_listens := replaced remove1 (us_listening_channel_remove m) (u_listens u) \<rparr>
      in u)"

text \<open>The adjustments of the volume create the channels they name.\<close>

definition adjust_volume :: "u32 \<times> u32 \<Rightarrow> client \<Rightarrow> client" where
  "adjust_volume a c =
     (let (chan, c) = mumble_channel_get (fst a) c
      in put_channel (fst a) (chan \<lparr> c_listening_volume_adjustment := Some (snd a) \<rparr>) c)"

definition user_channel_hook :: "user_state_msg \<Rightarrow> u32 \<Rightarrow> user \<Rightarrow> client \<Rightarrow> client" where
  "user_channel_hook m s u c =
     (case us_channel_id m of
        None \<Rightarrow> c
      | Some i \<Rightarrow>
          if u_connected u \<and> synced c \<and> u_channel_id u \<noteq> i then
            mumble_hook_call ''OnUserChannel''
              [new_table
                (opt_field ''actor'' (mumble_user_raw_get c) (us_actor m) @
                 field ''from'' (mumble_channel_raw_get c (u_channel_id u)) @
                 field ''to'' (mumble_channel_raw_get c i) @
                 field ''user'' (mumble_user_raw_get c s))] c
          else c)"

definition packet_user_state :: "env \<Rightarrow> user_state_msg \<Rightarrow> client \<Rightarrow> client option" where
  "packet_user_state E m c =
     (case us_session m of
        None \<Rightarrow> Some c
      | Some s \<Rightarrow> do {
          let (u, c) = mumble_user_get s c;
          let raw = mumble_channel_raw_get c;
          let t = opt_field ''actor'' (mumble_user_raw_get c) (us_actor m) @
                  field ''session'' (vint s) @ opt_field ''name'' LStr (us_name m);
          let u = u \<lparr> u_session := s \<rparr>;
          let u = updated (\<lambda>v u. u \<lparr> u_name := Some v \<rparr>) (us_name m) u;
          let c = user_channel_hook m s u c;
          let u = updated (\<lambda>v u. u \<lparr> u_channel_id := v \<rparr>) (us_channel_id m) u;
          let u = user_state_update m u;
          texture \<leftarrow> copied (us_texture m);
          comment_hash \<leftarrow> copied (us_comment_hash m);
          texture_hash \<leftarrow> copied (us_texture_hash m);
          let t = t @ opt_field ''channel'' raw (us_channel_id m) @
                  opt_field ''user_id'' vint (us_user_id m) @ opt_field ''mute'' vbool (us_mute m) @
                  opt_field ''deaf'' vbool (us_deaf m) @
                  opt_field ''self_mute'' vbool (us_self_mute m) @
                  opt_field ''self_deaf'' vbool (us_self_deaf m) @
                  opt_field ''suppress'' vbool (us_suppress m) @
                  opt_field ''comment'' LStr (us_comment m) @
                  opt_field ''recording'' vbool (us_recording m) @
                  opt_field ''priority_speaker'' vbool (us_priority_speaker m) @
                  opt_field ''texture'' LStr texture @ opt_field ''hash'' LStr (us_hash m) @
                  opt_field ''comment_hash'' vhex comment_hash @
                  opt_field ''texture_hash'' vhex texture_hash @
                  list_field ''listening_channel_add'' raw (us_listening_channel_add m) @
                  list_field ''listening_channel_remove'' raw (us_listening_channel_remove m) @
                  (if us_listening_volume_adjustment m = [] then []
                   else field ''listening_volume_adjustment''
                     (new_table (map (\<lambda>a. (KInt (uint (fst a)), LNum (d_of_float E (snd a))))
                        (us_listening_volume_adjustment m))));
          let c = replaced adjust_volume (us_listening_volume_adjustment m) c;
          let t = t @ field ''user'' (mumble_user_raw_get c s);
          let connects = \<not> u_connected u;
          let c = put_user s (u \<lparr> u_connected := True \<rparr>) c;
          let c = (if connects \<and> synced c then mumble_hook_call ''OnUserConnect'' [new_table t] c else c);
          Some (mumble_hook_call ''OnUserState'' [new_table t] c)
        })"

definition ban_entry :: "env \<Rightarrow> ban_entry_msg \<Rightarrow> lval option" where
  "ban_entry E ban = do {
     address \<leftarrow> mumble_push_address E (be_address ban);
     Some (new_table
       (field ''address'' address @ field ''mask'' (vint (be_mask ban)) @
        opt_field ''name'' LStr (be_name ban) @ opt_field ''hash'' LStr (be_hash ban) @
        opt_field ''reason'' LStr (be_reason ban) @ opt_field ''start'' LStr (be_start ban) @
        opt_field ''duration'' vint (be_duration ban)))
   }"

fun ban_entries :: "env \<Rightarrow> ban_entry_msg list \<Rightarrow> lval list option" where
  "ban_entries E [] = Some []"
| "ban_entries E (b # bs) = do { e \<leftarrow> ban_entry E b; es \<leftarrow> ban_entries E bs; Some (e # es) }"

definition packet_ban_list :: "env \<Rightarrow> ban_entry_msg list \<Rightarrow> client \<Rightarrow> client option" where
  "packet_ban_list E bans c = do {
     es \<leftarrow> ban_entries E bans;
     Some (mumble_hook_call ''OnBanList'' [array_table es] c)
   }"

definition packet_text_message :: "text_message_msg \<Rightarrow> client \<Rightarrow> client option" where
  "packet_text_message m c =
     (let t = opt_field ''actor'' (mumble_user_raw_get c) (tm_actor m) @
              opt_field ''message'' LStr (tm_message m) @
              list_field ''users'' (mumble_user_raw_get c) (tm_session m) @
              (if tm_channel_id m = [] then field ''direct'' (LBool True)
               else list_field ''channels'' (mumble_channel_raw_get c) (tm_channel_id m))
      in Some (mumble_hook_call ''OnMessage'' [new_table t] c))"

definition packet_permission_denied :: "permission_denied_msg \<Rightarrow> client \<Rightarrow> client option" where
  "packet_permission_denied m c =
     (let t = opt_field ''type'' LInt (pd_type m) @ opt_field ''permission'' vint (pd_permission m) @
              opt_field ''channel'' (mumble_channel_raw_get c) (pd_channel_id m) @
              opt_field ''user'' (mumble_user_raw_get c) (pd_session m) @
              opt_field ''reason'' LStr (pd_reason m) @ opt_field ''name'' LStr (pd_name m)
      in Some (mumble_hook_call ''OnPermissionDenied'' [new_table t] c))"

definition chan_group :: "chan_group_msg \<Rightarrow> lval" where
  "chan_group g = new_table
     (opt_field ''name'' LStr (cg_name g) @ opt_field ''inherited'' vbool (cg_inherited g) @
      opt_field ''inheritable'' vbool (cg_inheritable g) @ list_field ''add'' vint (cg_add g) @
      list_field ''remove'' vint (cg_remove g) @
      list_field ''inherited_members'' vint (cg_inherited_members g))"

text \<open>The id of the user of an entry is pushed as a boolean.\<close>

definition chan_acl :: "chan_acl_msg \<Rightarrow> lval" where
  "chan_acl a = new_table
     (opt_field ''apply_here'' vbool (ca_apply_here a) @ opt_field ''apply_subs'' vbool (ca_apply_subs a) @
      opt_field ''inherited'' vbool (ca_inherited a) @
      opt_field ''user_id'' (\<lambda>i. LBool (i \<noteq> 0)) (ca_user_id a) @
      opt_field ''group'' LStr (ca_group a) @ opt_field ''grant'' vint (ca_grant a) @
      opt_field ''deny'' vint (ca_deny a))"

definition packet_acl :: "acl_msg \<Rightarrow> client \<Rightarrow> client option" where
  "packet_acl m c =
     (let t = field ''channel'' (mumble_channel_raw_get c (ac_channel_id m)) @
              list_field ''groups'' chan_group (ac_groups m) @ list_field ''acls'' chan_acl (ac_acls m) @
              opt_field ''inherit_acls'' vbool (ac_inherit_acls m) @ opt_field ''query'' vbool (ac_query m)
      in Some (mumble_hook_call ''OnACL'' [new_table t] c))"

definition packet_query_users :: "query_users_msg \<Rightarrow> client \<Rightarrow> client option" where
  "packet_query_users m c =
     (let t = (if length (qu_ids m) > 0 \<and> length (qu_ids m) = length (qu_names m)
               then zip (map (\<lambda>i. KInt (uint i)) (qu_ids m)) (map LStr (qu_names m)) else [])
      in Some (mumble_hook_call ''OnQueryUsers'' [new_table t] c))"

definition packet_context_action_modify :: "context_action_modify_msg \<Rightarrow> client \<Rightarrow> client option" where
  "packet_context_action_modify m c =
     Some (mumble_hook_call ''OnContextActionModify''
       [new_table
         (opt_field ''action'' LStr (cm_action m) @ opt_field ''text'' LStr (cm_text m) @
          opt_field ''context'' vint (cm_context m) @ opt_field ''operation'' LInt (cm_operation m))] c)"

text \<open>
  The three cases of a crypt setup: all keys, a new vector of the server, or a request of the server
  for ours. A rejected key or vector only logs.
\<close>

definition packet_crypt_setup :: "env \<Rightarrow> world \<Rightarrow> crypt_setup_msg \<Rightarrow> client \<Rightarrow> client option" where
  "packet_crypt_setup E W m c = do {
     k \<leftarrow> crypt c;
     let c =
       (case (cr_key m, cr_client_nonce m, cr_server_nonce m) of
          (Some key, Some client_nonce, Some server_nonce) \<Rightarrow>
            c \<lparr> crypt := Some (snd (crypt_setKey key client_nonce server_nonce k)) \<rparr>
        | (_, _, Some server_nonce) \<Rightarrow>
            c \<lparr> resync := resync c + 1, crypt := Some (snd (crypt_setDecryptIV server_nonce k)) \<rparr>
        | _ \<Rightarrow> packet_send PACKET_CRYPTSETUP [(''client_nonce'', PBytes (crypt_getEncryptIV k))] c);
     k \<leftarrow> crypt c;
     let validCrypt = crypt_isValid k;
     c \<leftarrow> (if validCrypt then mumble_ping E W c else Some c);
     let t = field ''valid'' (vbool validCrypt) @ opt_field ''key'' vhex (cr_key m) @
             opt_field ''client_nonce'' vhex (cr_client_nonce m) @
             opt_field ''server_nonce'' vhex (cr_server_nonce m);
     Some (mumble_hook_call ''OnCryptSetup'' [new_table t] c)
   }"

definition user_list_entry :: "client \<Rightarrow> user_list_entry_msg \<Rightarrow> lval" where
  "user_list_entry c u = new_table
     (field ''user_id'' (vint (ul_user_id u)) @ opt_field ''name'' LStr (ul_name u) @
      opt_field ''last_seen'' LStr (ul_last_seen u) @
      opt_field ''last_channel'' (mumble_channel_raw_get c) (ul_last_channel u))"

definition packet_user_list :: "user_list_entry_msg list \<Rightarrow> client \<Rightarrow> client option" where
  "packet_user_list us c =
     Some (mumble_hook_call ''OnUserList'' [array_table (map (user_list_entry c) us)] c)"

text \<open>A flush without a channel and its permissions forgets those of every channel.\<close>

definition flush_permissions :: "client \<Rightarrow> client" where
  "flush_permissions c =
     c \<lparr> channels := (\<lambda>i. map_option (\<lambda>ch. ch \<lparr> c_permissions := 0 \<rparr>) (channels c i)) \<rparr>"

definition packet_permission_query :: "permission_query_msg \<Rightarrow> client \<Rightarrow> client option" where
  "packet_permission_query m c =
     (let c = (case (pq_channel_id m, pq_permissions m) of
                 (Some i, Some permissions) \<Rightarrow>
                   let (chan, c) = mumble_channel_get i c
                   in put_channel i (chan \<lparr> c_permissions := permissions \<rparr>) c
               | _ \<Rightarrow> if pq_flush m = Some True then flush_permissions c else c);
          t = opt_field ''channel'' (mumble_channel_raw_get c) (pq_channel_id m) @
              opt_field ''permissions'' vint (pq_permissions m) @ opt_field ''flush'' vbit (pq_flush m)
      in Some (mumble_hook_call ''OnPermissionQuery'' [new_table t] c))"

definition packet_codec_version :: "codec_version_msg \<Rightarrow> client \<Rightarrow> client option" where
  "packet_codec_version m c =
     Some (mumble_hook_call ''OnCodecVersion''
       [new_table
         (field ''alpha'' (vsint (cv_alpha m)) @ field ''beta'' (vsint (cv_beta m)) @
          field ''prefer_alpha'' (vbool (cv_prefer_alpha m)) @ opt_field ''opus'' vbool (cv_opus m))] c)"

definition stats_table :: "stats_msg \<Rightarrow> lval" where
  "stats_table s = new_table
     (opt_field ''good'' vint (st_good s) @ opt_field ''late'' vint (st_late s) @
      opt_field ''lost'' vint (st_lost s) @ opt_field ''resync'' vint (st_resync s))"

text \<open>The rolling statistics are read without a check: a member that is absent is 0.\<close>

definition rolling_table :: "stats_msg \<Rightarrow> lval" where
  "rolling_table s =
     (let got = (\<lambda>x. vint (case x of None \<Rightarrow> 0 | Some v \<Rightarrow> v))
      in new_table
        (field ''good'' (got (st_good s)) @ field ''late'' (got (st_late s)) @
         field ''lost'' (got (st_lost s)) @ field ''resync'' (got (st_resync s))))"

definition rolling_stats :: "rolling_stats_msg \<Rightarrow> lval" where
  "rolling_stats r = new_table
     (opt_field ''time_window'' vint (ro_time_window r) @
      opt_field ''from_client'' rolling_table (ro_from_client r) @
      opt_field ''from_server'' rolling_table (ro_from_server r))"

definition version_table :: "version_msg \<Rightarrow> lval" where
  "version_table v = new_table
     (opt_field ''version_v1'' vint (v_version_v1 v) @ opt_field ''version_v2'' vsint (v_version_v2 v) @
      field ''release'' (vstr (v_release v)) @ field ''os'' (vstr (v_os v)) @
      field ''os_version'' (vstr (v_os_version v)))"

text \<open>The times of the pings are floats, which \<open>lua_pushinteger\<close> truncates.\<close>

definition truncated :: "env \<Rightarrow> u32 option \<Rightarrow> int option option" where
  "truncated E x = (case x of None \<Rightarrow> Some None | Some f \<Rightarrow> map_option Some (integer_of_float E f))"

definition pushed_address :: "env \<Rightarrow> u8 list option \<Rightarrow> lval option option" where
  "pushed_address E x =
     (case x of None \<Rightarrow> Some None | Some a \<Rightarrow> map_option Some (mumble_push_address E a))"

definition packet_user_stats :: "env \<Rightarrow> user_stats_msg \<Rightarrow> client \<Rightarrow> client option" where
  "packet_user_stats E m c = do {
     udp_avg \<leftarrow> truncated E (ut_udp_ping_avg m);
     udp_var \<leftarrow> truncated E (ut_udp_ping_var m);
     tcp_avg \<leftarrow> truncated E (ut_tcp_ping_avg m);
     tcp_var \<leftarrow> truncated E (ut_tcp_ping_var m);
     address \<leftarrow> pushed_address E (ut_address m);
     let t = opt_field ''user'' (mumble_user_raw_get c) (ut_session m) @
             opt_field ''stats_only'' vbool (ut_stats_only m) @
             field ''certificates'' (array_table (map LStr (ut_certificates m))) @
             opt_field ''from_client'' stats_table (ut_from_client m) @
             opt_field ''from_server'' stats_table (ut_from_server m) @
             opt_field ''udp_packets'' vint (ut_udp_packets m) @
             opt_field ''tcp_packets'' vint (ut_tcp_packets m) @
             opt_field ''udp_ping_avg'' LInt udp_avg @ opt_field ''udp_ping_var'' LInt udp_var @
             opt_field ''tcp_ping_avg'' LInt tcp_avg @ opt_field ''tcp_ping_var'' LInt tcp_var @
             opt_field ''version'' version_table (ut_version m) @
             field ''celt_versions'' (array_table (map vsint (ut_celt_versions m))) @
             opt_field ''address'' (\<lambda>a. a) address @
             opt_field ''bandwidth'' vint (ut_bandwidth m) @
             opt_field ''onlinesecs'' vint (ut_onlinesecs m) @
             opt_field ''idlesecs'' vint (ut_idlesecs m) @
             opt_field ''strong_certificate'' vbool (ut_strong_certificate m) @
             opt_field ''opus'' vbool (ut_opus m) @
             opt_field ''rolling_stats'' rolling_stats (ut_rolling_stats m);
     Some (mumble_hook_call ''OnUserStats'' [new_table t] c)
   }"

definition packet_server_config :: "server_config_msg \<Rightarrow> client \<Rightarrow> client option" where
  "packet_server_config m c =
     Some (mumble_hook_call ''OnServerConfig''
       [new_table
         (opt_field ''max_bandwidth'' vint (sc_max_bandwidth m) @
          field ''welcome_text'' (vstr (sc_welcome_text m)) @
          opt_field ''allow_html'' vbool (sc_allow_html m) @
          opt_field ''message_length'' vint (sc_message_length m) @
          opt_field ''image_message_length'' vint (sc_image_message_length m) @
          opt_field ''max_users'' vint (sc_max_users m) @
          opt_field ''recording_allowed'' vbit (sc_recording_allowed m))] c)"

definition packet_suggest_config :: "suggest_config_msg \<Rightarrow> client \<Rightarrow> client option" where
  "packet_suggest_config m c =
     Some (mumble_hook_call ''OnSuggestConfig''
       [new_table
         (opt_field ''version_v1'' vint (sg_version_v1 m) @ opt_field ''version_v2'' vsint (sg_version_v2 m) @
          opt_field ''positional'' vbool (sg_positional m) @
          opt_field ''push_to_talk'' vbool (sg_push_to_talk m))] c)"

definition packet_plugin_data :: "plugin_data_msg \<Rightarrow> client \<Rightarrow> client option" where
  "packet_plugin_data m c =
     Some (mumble_hook_call ''OnPluginData''
       [new_table
         (opt_field ''sender'' (mumble_user_raw_get c) (pl_sendersession m) @
          list_field ''receivers'' (mumble_user_raw_get c) (pl_receiversessions m) @
          opt_field ''data'' LStr (pl_data m) @ opt_field ''id'' LStr (pl_dataid m))] c)"

section \<open>The table of handlers\<close>

text \<open>The decoders protobuf-c generates; \<open>None\<close> for bytes that are not such a message.\<close>

record decoders =
  un_version :: "u8 list \<Rightarrow> version_msg option"
  un_ping :: "u8 list \<Rightarrow> ping_msg option"
  un_reject :: "u8 list \<Rightarrow> reject_msg option"
  un_server_sync :: "u8 list \<Rightarrow> sync_msg option"
  un_channel_remove :: "u8 list \<Rightarrow> u32 option"
  un_channel_state :: "u8 list \<Rightarrow> channel_state_msg option"
  un_user_remove :: "u8 list \<Rightarrow> user_remove_msg option"
  un_user_state :: "u8 list \<Rightarrow> user_state_msg option"
  un_ban_list :: "u8 list \<Rightarrow> ban_entry_msg list option"
  un_text_message :: "u8 list \<Rightarrow> text_message_msg option"
  un_permission_denied :: "u8 list \<Rightarrow> permission_denied_msg option"
  un_acl :: "u8 list \<Rightarrow> acl_msg option"
  un_query_users :: "u8 list \<Rightarrow> query_users_msg option"
  un_crypt_setup :: "u8 list \<Rightarrow> crypt_setup_msg option"
  un_context_action_modify :: "u8 list \<Rightarrow> context_action_modify_msg option"
  un_user_list :: "u8 list \<Rightarrow> user_list_entry_msg list option"
  un_permission_query :: "u8 list \<Rightarrow> permission_query_msg option"
  un_codec_version :: "u8 list \<Rightarrow> codec_version_msg option"
  un_user_stats :: "u8 list \<Rightarrow> user_stats_msg option"
  un_server_config :: "u8 list \<Rightarrow> server_config_msg option"
  un_suggest_config :: "u8 list \<Rightarrow> suggest_config_msg option"
  un_plugin_data :: "u8 list \<Rightarrow> plugin_data_msg option"

text \<open>\<open>packet_handler\<close>: four types of packet have no handler and are dropped.\<close>

fun packet_handler ::
  "env \<Rightarrow> decoders \<Rightarrow> world \<Rightarrow> packet_type \<Rightarrow> u8 list \<Rightarrow> client \<Rightarrow> client option" where
  "packet_handler E D W PACKET_VERSION b c = with_message (un_version D b) packet_server_version c"
| "packet_handler E D W PACKET_UDPTUNNEL b c = packet_tcp_udp_tunnel E W b c"
| "packet_handler E D W PACKET_AUTHENTICATE b c = Some c"
| "packet_handler E D W PACKET_PING b c = with_message (un_ping D b) (packet_server_ping E W) c"
| "packet_handler E D W PACKET_SERVERREJECT b c = with_message (un_reject D b) packet_server_reject c"
| "packet_handler E D W PACKET_SERVERSYNC b c = with_message (un_server_sync D b) (packet_server_sync E) c"
| "packet_handler E D W PACKET_CHANNELREMOVE b c = with_message (un_channel_remove D b) packet_channel_remove c"
| "packet_handler E D W PACKET_CHANNELSTATE b c = with_message (un_channel_state D b) packet_channel_state c"
| "packet_handler E D W PACKET_USERREMOVE b c = with_message (un_user_remove D b) packet_user_remove c"
| "packet_handler E D W PACKET_USERSTATE b c = with_message (un_user_state D b) (packet_user_state E) c"
| "packet_handler E D W PACKET_BANLIST b c = with_message (un_ban_list D b) (packet_ban_list E) c"
| "packet_handler E D W PACKET_TEXTMESSAGE b c = with_message (un_text_message D b) packet_text_message c"
| "packet_handler E D W PACKET_PERMISSIONDENIED b c =
     with_message (un_permission_denied D b) packet_permission_denied c"
| "packet_handler E D W PACKET_ACL b c = with_message (un_acl D b) packet_acl c"
| "packet_handler E D W PACKET_QUERYUSERS b c = with_message (un_query_users D b) packet_query_users c"
| "packet_handler E D W PACKET_CRYPTSETUP b c = with_message (un_crypt_setup D b) (packet_crypt_setup E W) c"
| "packet_handler E D W PACKET_CONTEXTACTIONMOD b c =
     with_message (un_context_action_modify D b) packet_context_action_modify c"
| "packet_handler E D W PACKET_CONTEXTACTION b c = Some c"
| "packet_handler E D W PACKET_USERLIST b c = with_message (un_user_list D b) packet_user_list c"
| "packet_handler E D W PACKET_VOICETARGET b c = Some c"
| "packet_handler E D W PACKET_PERMISSIONQUERY b c =
     with_message (un_permission_query D b) packet_permission_query c"
| "packet_handler E D W PACKET_CODECVERSION b c = with_message (un_codec_version D b) packet_codec_version c"
| "packet_handler E D W PACKET_USERSTATS b c = with_message (un_user_stats D b) (packet_user_stats E) c"
| "packet_handler E D W PACKET_REQUESTBLOB b c = Some c"
| "packet_handler E D W PACKET_SERVERCONFIG b c = with_message (un_server_config D b) packet_server_config c"
| "packet_handler E D W PACKET_SUGGESTCONFIG b c = with_message (un_suggest_config D b) packet_suggest_config c"
| "packet_handler E D W PACKET_PLUGINDATA b c = with_message (un_plugin_data D b) packet_plugin_data c"

section \<open>The invariant of the client\<close>

lemma updated_simps [simp]: "updated f None s = s" "updated f (Some v) s = f v s"
  by (simp_all add: updated_def)

lemma updated_keeps: "(\<And>v s. g (f v s) = g s) \<Longrightarrow> g (updated f x s) = g s"
  by (cases x) simp_all

lemma channel_state_update_id [simp]: "c_channel_id (channel_state_update m ch) = c_channel_id ch"
  unfolding channel_state_update_def Let_def
  by (simp add: updated_keeps [where g = c_channel_id])

lemma user_state_update_keeps [simp]:
  "u_session (user_state_update m u) = u_session u"
  "u_recording_file (user_state_update m u) = u_recording_file u"
  "u_last_spoke (user_state_update m u) = u_last_spoke u"
  "u_connected (user_state_update m u) = u_connected u"
  "u_channel_id (user_state_update m u) = u_channel_id u"
  "u_name (user_state_update m u) = u_name u"
  "u_speaking (user_state_update m u) = u_speaking u"
  unfolding user_state_update_def Let_def
  by (simp_all add: updated_keeps [where g = u_session] updated_keeps [where g = u_recording_file]
      updated_keeps [where g = u_last_spoke] updated_keeps [where g = u_connected]
      updated_keeps [where g = u_channel_id] updated_keeps [where g = u_name]
      updated_keeps [where g = u_speaking])

lemma client_ok_with_message:
  "client_ok c \<Longrightarrow> (\<And>m. all_some client_ok (f m c)) \<Longrightarrow> all_some client_ok (with_message x f c)"
  by (cases x) (auto simp: with_message_def intro: wp)

lemma client_ok_get_put_channel:
  "client_ok c \<Longrightarrow> mumble_channel_get i c = (ch, c1) \<Longrightarrow> c_channel_id ch' = c_channel_id ch \<Longrightarrow>
   client_ok (put_channel i ch' c1)"
  using client_ok_channel_get [of c i] by (auto simp: channel_ok_def intro!: client_ok_put_channel)

lemma client_ok_channel_update:
  "client_ok c \<Longrightarrow> c_channel_id ch' = c_channel_id (fst (mumble_channel_get i c)) \<Longrightarrow>
   client_ok (put_channel i ch' (snd (mumble_channel_get i c)))"
  by (rule client_ok_get_put_channel [where ch = "fst (mumble_channel_get i c)"]) simp_all

lemma client_ok_adjust_volume: "client_ok c \<Longrightarrow> client_ok (adjust_volume a c)"
  by (auto simp: adjust_volume_def Let_def split_beta intro: client_ok_channel_update)

lemma client_ok_adjust_volumes: "client_ok c \<Longrightarrow> client_ok (replaced adjust_volume as c)"
  unfolding replaced_def by (induction "as" arbitrary: c) (auto intro: client_ok_adjust_volume)

lemma client_ok_bandwidth:
  "client_ok c \<Longrightarrow> all_some (\<lambda>r. client_ok (snd r)) (mumble_adjust_audio_bandwidth E c)"
  unfolding mumble_adjust_audio_bandwidth_def by (intro wp) simp

lemma client_ok_adjusted: "mumble_adjust_audio_bandwidth E c = Some (n, c') \<Longrightarrow> client_ok c' = client_ok c"
  by (auto simp: mumble_adjust_audio_bandwidth_def bind_eq_Some_conv Let_def split: if_splits)

lemma client_ok_sync: "client_ok c \<Longrightarrow> all_some client_ok (packet_server_sync E m c)"
proof -
  assume ok: "client_ok c"
  have u: "client_ok (updated (\<lambda>s. session_update (\<lambda>_. s)) x (c \<lparr> synced := True, ping_timer := True \<rparr>))" for x
    using ok by (cases x) simp_all
  show ?thesis
    unfolding packet_server_sync_def
    by (intro wp)
      (auto simp: Let_def split_beta u dest!: client_ok_adjusted intro!: client_ok_channel_update split: option.splits)
qed

lemma client_ok_channel_state: "client_ok c \<Longrightarrow> all_some client_ok (packet_channel_state m c)"
  unfolding packet_channel_state_def
  by (intro wp) (auto intro!: client_ok_get_put_channel)

lemma client_ok_user_remove_packet: "client_ok c \<Longrightarrow> all_some client_ok (packet_user_remove m c)"
  unfolding packet_user_remove_def
  by (intro wp) (auto intro!: client_ok_disconnect client_ok_user_remove
      simp: Let_def split_beta client_ok_user_get split: option.splits prod.splits)

lemma client_ok_channel_hook [simp]: "client_ok (user_channel_hook m s u c) = client_ok c"
  by (auto simp: user_channel_hook_def split: option.splits)

lemma client_ok_user_state: "client_ok c \<Longrightarrow> all_some client_ok (packet_user_state E m c)"
proof -
  assume ok: "client_ok c"
  have keeps: "u_recording_file (updated (\<lambda>v u. u \<lparr> u_channel_id := v \<rparr>) x u) = u_recording_file u"
    "u_last_spoke (updated (\<lambda>v u. u \<lparr> u_channel_id := v \<rparr>) x u) = u_last_spoke u"
    "u_session (updated (\<lambda>v u. u \<lparr> u_channel_id := v \<rparr>) x u) = u_session u"
    "u_recording_file (updated (\<lambda>v u. u \<lparr> u_name := Some v \<rparr>) y u) = u_recording_file u"
    "u_last_spoke (updated (\<lambda>v u. u \<lparr> u_name := Some v \<rparr>) y u) = u_last_spoke u"
    "u_session (updated (\<lambda>v u. u \<lparr> u_name := Some v \<rparr>) y u) = u_session u" for x y u
    by (cases x; simp)+ (cases y; simp)+
  have got: "client_ok c1 \<and> user_ok s u" if "mumble_user_get s c = (u, c1)" for s u c1
    using client_ok_user_get [OF ok, of s] that by simp
  show ?thesis
    unfolding packet_user_state_def
    by (intro wp)
      (auto simp: ok user_ok_def keeps intro!: client_ok_put_user client_ok_adjust_volumes dest!: got)
qed

lemma client_ok_crypt_setup: "client_ok c \<Longrightarrow> all_some client_ok (packet_crypt_setup E W m c)"
proof -
  assume ok: "client_ok c"
  have k: "crypt_ok (snd (crypt_setKey key cn sn k)) \<and> crypt_ok (snd (crypt_setDecryptIV sn k))"
    if "crypt c = Some k" for k key cn sn
    using client_okD(3) [OF ok that] crypt_ok_set by auto
  have ping: "all_some client_ok (if v then mumble_ping E W c1 else Some c1)" if "client_ok c1" for v c1
    using that client_ok_ping by (auto intro: wp)
  show ?thesis
    unfolding packet_crypt_setup_def Let_def
    by (rule all_some_bind_any, rule all_some_bind_any, rule all_some_bind,
        rule all_some_mono [OF ping])
      (auto simp: ok intro!: wp client_ok_crypt split: option.splits prod.splits dest: k)
qed

lemma client_ok_permission_query: "client_ok c \<Longrightarrow> all_some client_ok (packet_permission_query m c)"
proof -
  assume ok: "client_ok c"
  have "client_ok (flush_permissions c)"
    using ok by (auto simp: flush_permissions_def client_ok_def user_store.ok_def channel_store.ok_def
        channel_ok_def dom_def)
  then show ?thesis
    unfolding packet_permission_query_def
    by (intro wp) (auto simp: Let_def ok split_beta split: option.splits intro: client_ok_channel_update)
qed

lemma client_ok_ping_packet: "client_ok c \<Longrightarrow> all_some client_ok (packet_server_ping E W m c)"
  unfolding packet_server_ping_def
  by (intro wp) (auto simp: Let_def split_beta split: option.splits dest!: arg_cong [where f = snd])

lemmas hook_only_defs =
  packet_server_version_def packet_server_reject_def packet_channel_remove_def packet_ban_list_def
  packet_text_message_def packet_permission_denied_def packet_acl_def packet_query_users_def
  packet_context_action_modify_def packet_user_list_def packet_codec_version_def
  packet_user_stats_def packet_server_config_def packet_suggest_config_def packet_plugin_data_def

lemma client_ok_hook_only:
  assumes "client_ok c"
  shows "all_some client_ok (packet_server_version m1 c)" "all_some client_ok (packet_server_reject m2 c)"
    "all_some client_ok (packet_channel_remove i c)" "all_some client_ok (packet_ban_list E m3 c)"
    "all_some client_ok (packet_text_message m4 c)" "all_some client_ok (packet_permission_denied m5 c)"
    "all_some client_ok (packet_acl m6 c)" "all_some client_ok (packet_query_users m7 c)"
    "all_some client_ok (packet_context_action_modify m8 c)" "all_some client_ok (packet_user_list m9 c)"
    "all_some client_ok (packet_codec_version m10 c)" "all_some client_ok (packet_user_stats E m11 c)"
    "all_some client_ok (packet_server_config m12 c)" "all_some client_ok (packet_suggest_config m13 c)"
    "all_some client_ok (packet_plugin_data m14 c)"
  unfolding hook_only_defs by (intro wp; simp add: assms client_ok_channel_remove)+

lemma client_ok_handler: "client_ok c \<Longrightarrow> all_some client_ok (packet_handler E D W ty b c)"
  by (cases ty)
    (auto intro!: client_ok_with_message client_ok_hook_only client_ok_ping_packet client_ok_sync
      client_ok_channel_state client_ok_user_remove_packet client_ok_user_state client_ok_crypt_setup
      client_ok_permission_query client_ok_udp_packet wp simp: packet_tcp_udp_tunnel_def)

section \<open>Properties of the user and channel states\<close>

definition or_else :: "'a option \<Rightarrow> 'a \<Rightarrow> 'a" where
  "or_else x d = (case x of None \<Rightarrow> d | Some v \<Rightarrow> v)"

lemma or_else_simps [simp]: "or_else None d = d" "or_else (Some v) d = v"
  by (simp_all add: or_else_def)

lemma or_else_map: "or_else (map_option f x) d = (case x of None \<Rightarrow> d | Some v \<Rightarrow> f v)"
  by (cases x) simp_all

lemma updated_or_else: "(\<And>v s. g (f v s) = v) \<Longrightarrow> g (updated f x s) = or_else x (g s)"
  by (cases x) simp_all

text \<open>Every member that the message has is set, the others are kept: as one update of the record.\<close>

lemma updated_members:
  "updated (\<lambda>v u. u \<lparr> u_name := Some v \<rparr>) (x :: cstr option) u = u \<lparr> u_name := or_else (map_option Some x) (u_name u) \<rparr>"
  "updated (\<lambda>v u. u \<lparr> u_channel_id := v \<rparr>) i u = u \<lparr> u_channel_id := or_else i (u_channel_id u) \<rparr>"
  "updated (\<lambda>v u. u \<lparr> u_user_id := v \<rparr>) i u = u \<lparr> u_user_id := or_else i (u_user_id u) \<rparr>"
  "updated (\<lambda>v u. u \<lparr> u_mute := v \<rparr>) t u = u \<lparr> u_mute := or_else t (u_mute u) \<rparr>"
  "updated (\<lambda>v u. u \<lparr> u_deaf := v \<rparr>) t u = u \<lparr> u_deaf := or_else t (u_deaf u) \<rparr>"
  "updated (\<lambda>v u. u \<lparr> u_self_mute := v \<rparr>) t u = u \<lparr> u_self_mute := or_else t (u_self_mute u) \<rparr>"
  "updated (\<lambda>v u. u \<lparr> u_self_deaf := v \<rparr>) t u = u \<lparr> u_self_deaf := or_else t (u_self_deaf u) \<rparr>"
  "updated (\<lambda>v u. u \<lparr> u_suppress := v \<rparr>) t u = u \<lparr> u_suppress := or_else t (u_suppress u) \<rparr>"
  "updated (\<lambda>v u. u \<lparr> u_comment := Some v \<rparr>) x u = u \<lparr> u_comment := or_else (map_option Some x) (u_comment u) \<rparr>"
  "updated (\<lambda>v u. u \<lparr> u_recording := v \<rparr>) t u = u \<lparr> u_recording := or_else t (u_recording u) \<rparr>"
  "updated (\<lambda>v u. u \<lparr> u_priority_speaker := v \<rparr>) t u = u \<lparr> u_priority_speaker := or_else t (u_priority_speaker u) \<rparr>"
  "updated (\<lambda>v u. u \<lparr> u_texture := binary_copy v \<rparr>) b u =
     u \<lparr> u_texture := or_else (map_option binary_copy b) (u_texture u) \<rparr>"
  "updated (\<lambda>v u. u \<lparr> u_hash := Some v \<rparr>) x u = u \<lparr> u_hash := or_else (map_option Some x) (u_hash u) \<rparr>"
  "updated (\<lambda>v u. u \<lparr> u_comment_hash := binary_copy v, u_comment_hash_len := length v \<rparr>) b u =
     u \<lparr> u_comment_hash := or_else (map_option binary_copy b) (u_comment_hash u),
         u_comment_hash_len := or_else (map_option length b) (u_comment_hash_len u) \<rparr>"
  "updated (\<lambda>v u. u \<lparr> u_texture_hash := binary_copy v, u_texture_hash_len := length v \<rparr>) b u =
     u \<lparr> u_texture_hash := or_else (map_option binary_copy b) (u_texture_hash u),
         u_texture_hash_len := or_else (map_option length b) (u_texture_hash_len u) \<rparr>"
  by (cases x; simp) (cases i; simp | cases t; simp | cases x; simp | cases b; simp)+

lemma fold_Cons: "fold Cons xs ys = rev xs @ ys"
  by (induction xs arbitrary: ys) simp_all

lemma adjust_volumes_channels:
  "channels (replaced adjust_volume as c) i =
     (case map_of (rev as) i of
        None \<Rightarrow> channels c i
      | Some v \<Rightarrow> Some ((case channels c i of None \<Rightarrow> new_channel i | Some ch \<Rightarrow> ch)
          \<lparr> c_listening_volume_adjustment := Some v \<rparr>))"
proof (induction "as" arbitrary: c)
  case Nil
  then show ?case by (simp add: replaced_def)
next
  case (Cons a "as")
  obtain j v where a: "a = (j, v)" by (cases a)
  have "channels (adjust_volume a c) = (channels c)(j \<mapsto>
      (case channels c j of None \<Rightarrow> new_channel j | Some ch \<Rightarrow> ch) \<lparr> c_listening_volume_adjustment := Some v \<rparr>)"
    by (auto simp: a adjust_volume_def mumble_channel_get_def put_channel_def Let_def split: option.split)
  then show ?case
    using Cons.IH [of "adjust_volume a c"]
    by (auto simp: a replaced_def map_add_def split: option.split)
qed

lemma adjust_volume_frame [simp]:
  "users (adjust_volume a c) = users c" "user_list (adjust_volume a c) = user_list c"
  "trace (adjust_volume a c) = trace c" "self (adjust_volume a c) = self c"
  "synced (adjust_volume a c) = synced c" "crypt (adjust_volume a c) = crypt c"
  by (simp_all add: adjust_volume_def Let_def split_beta)

lemma adjust_volumes_frame [simp]:
  "users (replaced adjust_volume as c) = users c" "trace (replaced adjust_volume as c) = trace c"
  "user_list (replaced adjust_volume as c) = user_list c"
  "self (replaced adjust_volume as c) = self c" "synced (replaced adjust_volume as c) = synced c"
  "crypt (replaced adjust_volume as c) = crypt c"
  unfolding replaced_def by (induction "as" arbitrary: c) simp_all

lemma channel_hook_frame [simp]:
  "users (user_channel_hook m s u c) = users c" "user_list (user_channel_hook m s u c) = user_list c"
  "channels (user_channel_hook m s u c) = channels c"
  "synced (user_channel_hook m s u c) = synced c" "self (user_channel_hook m s u c) = self c"
  by (simp_all add: user_channel_hook_def split: option.splits)

definition hook_name :: "event \<Rightarrow> string" where
  "hook_name e = (case e of Hook h args \<Rightarrow> h | _ \<Rightarrow> [])"

definition moves :: "user_state_msg \<Rightarrow> user \<Rightarrow> bool" where
  "moves m u \<longleftrightarrow> (case us_channel_id m of None \<Rightarrow> False | Some i \<Rightarrow> u_connected u \<and> u_channel_id u \<noteq> i)"

lemma channels_adjusted:
  "channels (replaced adjust_volume as (user_channel_hook m s u c)) = channels (replaced adjust_volume as c)"
  by (rule ext) (simp add: adjust_volumes_channels cong: option.case_cong)

text \<open>The user after the message and the hooks it caused, extracted from the handler once.\<close>

lemma user_state_result:
  assumes "us_session m = Some s" "packet_user_state E m c = Some c'"
  defines "u \<equiv> fst (mumble_user_get s c)"
  shows "users c' = (users (snd (mumble_user_get s c)))
      (s \<mapsto> (user_state_update m
         (updated (\<lambda>v u. u \<lparr> u_channel_id := v \<rparr>) (us_channel_id m)
           (updated (\<lambda>v u. u \<lparr> u_name := Some v \<rparr>) (us_name m) (u \<lparr> u_session := s \<rparr>))))
         \<lparr> u_connected := True \<rparr>)"
    and "channels c' = channels (replaced adjust_volume (us_listening_volume_adjustment m) (snd (mumble_user_get s c)))"
    and "\<exists>es. trace c' = trace c @ es \<and>
      map hook_name es =
        (if self c \<le> -2 then []
         else (if moves m u \<and> synced c then [''OnUserChannel''] else []) @
              (if \<not> u_connected u \<and> synced c then [''OnUserConnect''] else []) @ [''OnUserState''])"
proof -
  obtain c1 where g: "mumble_user_get s c = (u, c1)" by (cases "mumble_user_get s c") (simp add: u_def)
  have c1: "users c1 s = Some u" "trace c1 = trace c" "self c1 = self c" "synced c1 = synced c"
    using user_store.get_entry [of s c] g user_get_frame [of s c] by (auto simp del: user_get_frame)
  have conn: "u_connected (updated (\<lambda>v u. u \<lparr> u_channel_id := v \<rparr>) x
      (updated (\<lambda>v u. u \<lparr> u_name := Some v \<rparr>) y (u \<lparr> u_session := s \<rparr>))) = u_connected u"
    "u_channel_id (updated (\<lambda>v u. u \<lparr> u_name := Some v \<rparr>) y (u \<lparr> u_session := s \<rparr>)) = u_channel_id u"
    "u_connected (updated (\<lambda>v u. u \<lparr> u_name := Some v \<rparr>) y (u \<lparr> u_session := s \<rparr>)) = u_connected u" for x y
    by (cases x; cases y; simp)+
  obtain texture comment_hash texture_hash where b:
      "copied (us_texture m) = Some texture" "copied (us_comment_hash m) = Some comment_hash"
      "copied (us_texture_hash m) = Some texture_hash"
    using assms(1,2) g by (auto simp: packet_user_state_def bind_eq_Some_conv Let_def)
  note unfolded = assms(2) [unfolded packet_user_state_def assms(1) option.case g Let_def prod.case
      b Option.bind.bind_lunit conn user_state_update_keeps]
  show "users c' = (users (snd (mumble_user_get s c)))
      (s \<mapsto> (user_state_update m
         (updated (\<lambda>v u. u \<lparr> u_channel_id := v \<rparr>) (us_channel_id m)
           (updated (\<lambda>v u. u \<lparr> u_name := Some v \<rparr>) (us_name m) (u \<lparr> u_session := s \<rparr>))))
         \<lparr> u_connected := True \<rparr>)"
    using unfolded c1 by (auto simp: g put_user_def)
  show "channels c' = channels (replaced adjust_volume (us_listening_volume_adjustment m) (snd (mumble_user_get s c)))"
    using unfolded by (auto simp: g put_user_def channels_adjusted)
  show "\<exists>es. trace c' = trace c @ es \<and>
      map hook_name es =
        (if self c \<le> -2 then []
         else (if moves m u \<and> synced c then [''OnUserChannel''] else []) @
              (if \<not> u_connected u \<and> synced c then [''OnUserConnect''] else []) @ [''OnUserState''])"
    using unfolded c1 conn
    by (auto simp: user_channel_hook_def moves_def hook_name_def split: option.splits)
qed

text \<open>What a user state asks for, member by member, and the copy \<open>strndup\<close> makes of a binary member.\<close>

definition strndup_copy :: "u8 list \<Rightarrow> u8 list" where
  "strndup_copy b = (if b = [] then [] else takeWhile (\<lambda>x. x \<noteq> 0) b @ [0])"

definition merged_user :: "user_state_msg \<Rightarrow> u32 \<Rightarrow> user \<Rightarrow> user" where
  "merged_user m s u = u
      \<lparr> u_session := s,
        u_name := (case us_name m of None \<Rightarrow> u_name u | Some n \<Rightarrow> Some n),
        u_channel_id := (case us_channel_id m of None \<Rightarrow> u_channel_id u | Some i \<Rightarrow> i),
        u_user_id := (case us_user_id m of None \<Rightarrow> u_user_id u | Some i \<Rightarrow> i),
        u_mute := (case us_mute m of None \<Rightarrow> u_mute u | Some b \<Rightarrow> b),
        u_deaf := (case us_deaf m of None \<Rightarrow> u_deaf u | Some b \<Rightarrow> b),
        u_self_mute := (case us_self_mute m of None \<Rightarrow> u_self_mute u | Some b \<Rightarrow> b),
        u_self_deaf := (case us_self_deaf m of None \<Rightarrow> u_self_deaf u | Some b \<Rightarrow> b),
        u_suppress := (case us_suppress m of None \<Rightarrow> u_suppress u | Some b \<Rightarrow> b),
        u_comment := (case us_comment m of None \<Rightarrow> u_comment u | Some x \<Rightarrow> Some x),
        u_recording := (case us_recording m of None \<Rightarrow> u_recording u | Some b \<Rightarrow> b),
        u_priority_speaker := (case us_priority_speaker m of None \<Rightarrow> u_priority_speaker u | Some b \<Rightarrow> b),
        u_texture := (case us_texture m of None \<Rightarrow> u_texture u | Some x \<Rightarrow> strndup_copy x),
        u_hash := (case us_hash m of None \<Rightarrow> u_hash u | Some x \<Rightarrow> Some x),
        u_comment_hash := (case us_comment_hash m of None \<Rightarrow> u_comment_hash u | Some x \<Rightarrow> strndup_copy x),
        u_comment_hash_len := (case us_comment_hash m of None \<Rightarrow> u_comment_hash_len u | Some x \<Rightarrow> length x),
        u_texture_hash := (case us_texture_hash m of None \<Rightarrow> u_texture_hash u | Some x \<Rightarrow> strndup_copy x),
        u_texture_hash_len := (case us_texture_hash m of None \<Rightarrow> u_texture_hash_len u | Some x \<Rightarrow> length x),
        u_listens := fold remove1 (us_listening_channel_remove m) (rev (us_listening_channel_add m) @ u_listens u),
        u_connected := True \<rparr>"

lemma merged_user_eq:
  "user_state_update m
     (updated (\<lambda>v u. u \<lparr> u_channel_id := v \<rparr>) (us_channel_id m)
       (updated (\<lambda>v u. u \<lparr> u_name := Some v \<rparr>) (us_name m) (u \<lparr> u_session := s \<rparr>))) \<lparr> u_connected := True \<rparr> =
   merged_user m s u"
proof -
  have copy: "strndup_copy = binary_copy" by (rule ext) (simp add: strndup_copy_def binary_copy_def)
  show ?thesis
    unfolding merged_user_def copy
    by (simp add: user_state_update_def updated_members Let_def replaced_def fold_Cons)
      (simp add: or_else_map, simp add: or_else_def)
qed

text \<open>
  C13. A user state is merged into the user it names, which exists afterwards and is connected: every
  member present in the message is set and every one that is absent keeps its value, that of a new
  user if there was none; binary members are copied up to their first zero byte; channels
  listened to are added in front, and removed one by one. No other user changes. The volumes are set
  in the channels they name, the last one for a channel counts, and no other channel changes.
\<close>

theorem user_state_merged:
  assumes "us_session m = Some s" "packet_user_state E m c = Some c'"
  shows "users c' = (users c)(s \<mapsto> merged_user m s (case users c s of None \<Rightarrow> new_user s | Some u \<Rightarrow> u)) \<and>
    (\<forall>i. channels c' i =
      (case map_of (rev (us_listening_volume_adjustment m)) i of
         None \<Rightarrow> channels c i
       | Some v \<Rightarrow> Some ((case channels c i of None \<Rightarrow> new_channel i | Some ch \<Rightarrow> ch)
           \<lparr> c_listening_volume_adjustment := Some v \<rparr>)))"
proof
  have "fst (mumble_user_get s c) = (case users c s of None \<Rightarrow> new_user s | Some u \<Rightarrow> u)"
    "(users (snd (mumble_user_get s c)))(s := z) = (users c)(s := z)" for z
    using user_get_cases [of c s] by auto
  then show "users c' = (users c)(s \<mapsto> merged_user m s (case users c s of None \<Rightarrow> new_user s | Some u \<Rightarrow> u))"
    unfolding user_state_result(1) [OF assms] merged_user_eq by simp
  show "\<forall>i. channels c' i =
      (case map_of (rev (us_listening_volume_adjustment m)) i of
         None \<Rightarrow> channels c i
       | Some v \<Rightarrow> Some ((case channels c i of None \<Rightarrow> new_channel i | Some ch \<Rightarrow> ch)
           \<lparr> c_listening_volume_adjustment := Some v \<rparr>))"
    using user_state_result(2) [OF assms] user_get_frame [of s c]
    by (simp add: adjust_volumes_channels cong: option.case_cong)
qed

definition sample_user_state :: user_state_msg where
  "sample_user_state =
     \<lparr> us_session = Some 5, us_actor = None, us_name = Some [97], us_user_id = None,
       us_channel_id = Some 2, us_mute = Some True, us_deaf = None, us_suppress = None,
       us_self_mute = None, us_self_deaf = None, us_texture = None, us_comment = None,
       us_hash = None, us_comment_hash = None, us_texture_hash = None, us_priority_speaker = None,
       us_recording = None, us_listening_channel_add = [2, 3], us_listening_channel_remove = [2],
       us_listening_volume_adjustment = [(3, 9)] \<rparr>"

lemma sample_user_state_returns: "\<exists>c'. packet_user_state sample_env sample_user_state c = Some c'"
  by (simp add: packet_user_state_def sample_user_state_def copied_def Let_def split_beta)

lemma user_state_merged_witness:
  "\<exists>c' u'. packet_user_state sample_env sample_user_state (mumble_client_new 1 5 735 0 0) = Some c' \<and>
    users c' 5 = Some u' \<and> u_channel_id u' = 2 \<and> u_name u' = Some [97] \<and> u_mute u' \<and> \<not> u_deaf u' \<and>
    u_listens u' = [3] \<and> map_option c_listening_volume_adjustment (channels c' 3) = Some (Some 9)"
proof -
  obtain c' where c': "packet_user_state sample_env sample_user_state (mumble_client_new 1 5 735 0 0) = Some c'"
    using sample_user_state_returns by blast
  have "us_session sample_user_state = Some 5" by (simp add: sample_user_state_def)
  from user_state_merged [OF this c'] c' show ?thesis
    by (simp add: sample_user_state_def merged_user_def new_user_def mumble_client_new_def)
qed

text \<open>
  C14. The hooks of a user state, in their order: \<open>OnUserChannel\<close> when a user known before changes its
  channel, \<open>OnUserConnect\<close> the first time the user appears, both only after the client has
  synchronised, then always \<open>OnUserState\<close>. So a user is announced once, and never as moving and
  connecting at once.
\<close>

theorem user_state_hooks:
  assumes "us_session m = Some s" "packet_user_state E m c = Some c'" "self c > -2"
  shows "\<exists>es. trace c' = trace c @ es \<and>
    map hook_name es =
      (if moves m (fst (mumble_user_get s c)) \<and> synced c then [''OnUserChannel''] else []) @
      (if \<not> u_connected (fst (mumble_user_get s c)) \<and> synced c then [''OnUserConnect''] else []) @
      [''OnUserState'']"
  using user_state_result(3) [OF assms(1,2)] assms(3) by auto

lemma user_state_hooks_witness:
  "\<exists>c' es. packet_user_state sample_env sample_user_state
      (mumble_client_new 1 5 735 0 0 \<lparr> self := 1, synced := True \<rparr>) = Some c' \<and>
    trace c' = es \<and> map hook_name es = [''OnUserConnect'', ''OnUserState'']"
proof -
  let ?c = "mumble_client_new 1 5 735 0 0 \<lparr> self := 1, synced := True \<rparr>"
  obtain c' where c': "packet_user_state sample_env sample_user_state ?c = Some c'"
    using sample_user_state_returns by blast
  have s: "us_session sample_user_state = Some 5" by (simp add: sample_user_state_def)
  have u: "fst (mumble_user_get 5 ?c) = new_user 5"
    by (simp add: mumble_user_get_def mumble_client_new_def Let_def)
  have "\<not> u_connected (new_user 5)" by (simp add: new_user_def)
  with user_state_hooks [OF s c'] u c' show ?thesis
    by (auto simp: moves_def mumble_client_new_def split: option.splits)
qed

lemma replaced_Cons: "replaced Cons xs ys = rev xs @ ys"
  unfolding replaced_def by (induction xs arbitrary: ys) simp_all

lemma channel_state_update_links:
  "c_links (channel_state_update m ch) =
     (if cs_links m = []
      then replaced remove1 (cs_links_remove m) (rev (cs_links_add m) @ c_links ch)
      else rev (cs_links m))"
  unfolding channel_state_update_def Let_def replaced_Cons
  by (simp add: updated_keeps [where g = c_links])

lemma channel_state_update_fields:
  "c_parent (channel_state_update m ch) = or_else (cs_parent m) (c_parent ch)"
  "c_temporary (channel_state_update m ch) = or_else (cs_temporary m) (c_temporary ch)"
  "c_position (channel_state_update m ch) = or_else (cs_position m) (c_position ch)"
  "c_max_users (channel_state_update m ch) = or_else (cs_max_users m) (c_max_users ch)"
  "c_permissions (channel_state_update m ch) = c_permissions ch"
  unfolding channel_state_update_def Let_def
  by (simp_all add:
      updated_keeps [where g = c_parent] updated_or_else [where g = c_parent]
      updated_keeps [where g = c_temporary] updated_or_else [where g = c_temporary]
      updated_keeps [where g = c_position] updated_or_else [where g = c_position]
      updated_keeps [where g = c_max_users] updated_or_else [where g = c_max_users]
      updated_keeps [where g = c_permissions])

text \<open>
  A channel state is merged into its channel, which is created if need be: members of the
  message replace those of the channel, absent ones stay, a full list of links replaces the old
  one, otherwise links are added and then removed. No other channel changes. It holds for every
  message whose description hash has no zero byte.
\<close>

theorem channel_state_merged:
  assumes "cs_channel_id m = Some i"
    and "\<forall>d. cs_description_hash m = Some d \<longrightarrow> 0 \<notin> set d"
  shows "\<exists>c' ch'. packet_channel_state m c = Some c' \<and> channels c' i = Some ch' \<and>
    c_parent ch' = or_else (cs_parent m) (c_parent (fst (mumble_channel_get i c))) \<and>
    c_position ch' = or_else (cs_position m) (c_position (fst (mumble_channel_get i c))) \<and>
    c_permissions ch' = c_permissions (fst (mumble_channel_get i c)) \<and>
    c_links ch' =
      (if cs_links m = []
       then replaced remove1 (cs_links_remove m)
              (rev (cs_links_add m) @ c_links (fst (mumble_channel_get i c)))
       else rev (cs_links m)) \<and>
    (\<forall>j. j = i \<or> channels c' j = channels c j) \<and> users c' = users c"
proof -
  obtain ch c1 where g: "mumble_channel_get i c = (ch, c1)" by (cases "mumble_channel_get i c")
  have c1: "channels c1 i = Some ch" "\<And>j. j \<noteq> i \<Longrightarrow> channels c1 j = channels c j" "users c1 = users c"
    using channel_store.get_entry [of i c] channel_store.get_other [of _ i c] g
      channel_get_frame [of i c] by (auto simp del: channel_get_frame)
  have "\<exists>hash. copied (cs_description_hash m) = Some hash"
    using assms(2) binary_copy_clean by (cases "cs_description_hash m") (auto simp: copied_def)
  then obtain hash where "copied (cs_description_hash m) = Some hash" by blast
  then show ?thesis
    using assms(1) g c1
    by (auto simp: packet_channel_state_def Let_def put_channel_def channel_state_update_links
        channel_state_update_fields)
qed

definition sample_channel_state :: channel_state_msg where
  "sample_channel_state =
     \<lparr> cs_channel_id = Some 3, cs_parent = Some 0, cs_name = Some [98], cs_links = [],
       cs_description = None, cs_links_add = [1, 2], cs_links_remove = [1], cs_temporary = None,
       cs_position = None, cs_description_hash = Some [1, 2], cs_max_users = None,
       cs_is_enter_restricted = None, cs_can_enter = None \<rparr>"

lemma channel_state_merged_witness:
  "\<exists>c' ch'. packet_channel_state sample_channel_state (mumble_client_new 1 5 735 0 0) = Some c' \<and>
    channels c' 3 = Some ch' \<and> c_links ch' = [2]"
proof -
  have l: "c_links (fst (mumble_channel_get 3 (mumble_client_new 1 5 735 0 0))) = []"
    by (simp add: mumble_channel_get_def mumble_client_new_def new_channel_def Let_def)
  have "cs_channel_id sample_channel_state = Some 3"
    "\<forall>d. cs_description_hash sample_channel_state = Some d \<longrightarrow> 0 \<notin> set d"
    by (simp_all add: sample_channel_state_def)
  from channel_state_merged [OF this, of "mumble_client_new 1 5 735 0 0"] l
  show ?thesis by (auto simp: sample_channel_state_def replaced_def)
qed

text \<open>
  A hash is binary, but its copy is made with \<open>strndup\<close>: a zero byte before the last makes the
  copy shorter than the length that is kept, and the handler reads past the end of the copy. The
  same holds for the texture and the two hashes of a user.
\<close>

theorem description_hash_overread:
  assumes "cs_channel_id m = Some i" "cs_description_hash m = Some d" "j + 1 < length d" "d ! j = 0"
  shows "packet_channel_state m c = None"
  using assms binary_copy_short [OF assms(3,4)]
  by (simp add: packet_channel_state_def copied_def Let_def split_beta)

lemma description_hash_overread_witness:
  "packet_channel_state (sample_channel_state \<lparr> cs_description_hash := Some [1, 0, 2, 3] \<rparr>)
     (mumble_client_new 1 5 735 0 0) = None"
  by (rule description_hash_overread [of _ 3 "[1, 0, 2, 3]" 1]) (simp_all add: sample_channel_state_def)

section \<open>Properties of leaving, permissions and keys\<close>

lemma user_get_session [simp]: "session (snd (mumble_user_get a c)) = session c"
  by simp

lemma disconnect_result:
  assumes "client_ok c" "connecting c" "self c > -1"
  shows "users (mumble_disconnect r False c) = Map.empty" "user_list (mumble_disconnect r False c) = []"
    "channels (mumble_disconnect r False c) = Map.empty" "channel_list (mumble_disconnect r False c) = []"
    "crypt (mumble_disconnect r False c) = None" "\<not> connected (mumble_disconnect r False c)"
    "\<not> connecting (mumble_disconnect r False c)" "self (mumble_disconnect r False c) = -2"
    "trace (mumble_disconnect r False c) = trace c @ [Hook ''OnDisconnect'' [LStr r]]"
proof -
  define c1 where "c1 = mumble_hook_call ''OnDisconnect'' [LStr r] (c \<lparr> connecting := False, connected := False \<rparr>)"
  have "client_ok c1" "trace c1 = trace c @ [Hook ''OnDisconnect'' [LStr r]]"
    using assms by (simp_all add: c1_def)
  moreover have "mumble_disconnect r False c = mumble_client_free (mumble_client_cleanup c1)"
    using assms(2) by (simp add: mumble_disconnect_def Let_def c1_def)
  ultimately show "trace (mumble_disconnect r False c) = trace c @ [Hook ''OnDisconnect'' [LStr r]]"
    using cleanup_result(9) [of c1] by (simp add: mumble_client_free_def)
qed (use disconnect_idle [OF assms(1,2), of r False] assms(3) in \<open>simp_all add: idle_def\<close>)

text \<open>
  C17. Being removed by the server: when the message names the client's own session, the client calls
  \<open>OnUserRemove\<close> and \<open>OnDisconnect\<close>, forgets every user and channel and its keys, and is no longer
  registered, so that no later hook is called.
\<close>

theorem own_removal_disconnects:
  assumes "client_ok c" "connecting c" "self c > -1" "session c = ur_session m"
  shows "\<exists>c' t r. packet_user_remove m c = Some c' \<and>
    users c' = Map.empty \<and> user_list c' = [] \<and> channels c' = Map.empty \<and> channel_list c' = [] \<and>
    crypt c' = None \<and> \<not> connected c' \<and>
    trace c' = trace c @ [Hook ''OnUserRemove'' [t], Hook ''OnDisconnect'' [LStr r]] \<and>
    (\<forall>h args. mumble_hook_call h args c' = c')"
proof -
  define t where "t = new_table (field ''user'' (mumble_user_raw_get c (ur_session m)) @
    opt_field ''actor'' (mumble_user_raw_get c) (ur_actor m) @
    opt_field ''reason'' LStr (ur_reason m) @ opt_field ''ban'' vbool (ur_ban m))"
  define c1 where "c1 = mumble_hook_call ''OnUserRemove'' [t] c"
  obtain r c2 where m: "(case (ur_actor m, ur_ban m) of
        (Some a, Some b) \<Rightarrow>
          let (actor, c) = mumble_user_get a c1
          in (kick_message m (Some (case u_name actor of None \<Rightarrow> bytes_of ''(null)'' | Some n \<Rightarrow> n)), c)
      | _ \<Rightarrow> (kick_message m None, c1)) = (r, c2)" (is "?msg = _")
    by (cases ?msg)
  then have c2: "c2 = c1 \<or> (\<exists>a. c2 = snd (mumble_user_get a c1))"
    by (auto simp: Let_def split_beta split: option.splits)
  have ok: "client_ok c2"
    using c2 assms(1) client_ok_user_get [of c1] by (auto simp: c1_def)
  have f: "connecting c2" "self c2 > -1" "trace c2 = trace c @ [Hook ''OnUserRemove'' [t]]"
    using c2 assms(2,3) by (auto simp: c1_def)
  have s1: "session c1 = ur_session m" using assms(4) by (simp add: c1_def)
  have "packet_user_remove m c = Some (mumble_disconnect r False c2)"
    using assms(4) m s1
    unfolding packet_user_remove_def Let_def t_def [symmetric] c1_def [symmetric]
    by (simp add: Let_def)
  with disconnect_result [OF ok f(1,2), of r] f(3) show ?thesis
    by (auto simp: mumble_hook_call_def)
qed

lemma own_removal_disconnects_witness:
  "\<exists>c'. packet_user_remove \<lparr> ur_session = 0, ur_actor = Some 4, ur_reason = None, ur_ban = Some True \<rparr>
      (mumble_client_new 1 5 735 0 0 \<lparr> self := 3, connecting := True \<rparr>) = Some c' \<and> users c' = Map.empty"
proof -
  let ?c = "mumble_client_new 1 5 735 0 0 \<lparr> self := 3, connecting := True \<rparr>"
  have c: "client_ok ?c" "connecting ?c" "self ?c > -1"
    "session ?c = ur_session \<lparr> ur_session = 0, ur_actor = Some 4, ur_reason = None, ur_ban = Some True \<rparr>"
    using client_ok_new [of 1 5 735 0 0] by (simp, simp_all add: mumble_client_new_def)
  show ?thesis using own_removal_disconnects [OF c] by blast
qed

text \<open>
  A permission query that flushes, and does not itself carry the permissions of a channel,
  clears the permissions of every channel and nothing else.
\<close>

theorem flush_clears_permissions:
  assumes "pq_flush m = Some True" "pq_channel_id m = None \<or> pq_permissions m = None"
  shows "\<exists>c'. packet_permission_query m c = Some c' \<and> users c' = users c \<and>
    channel_list c' = channel_list c \<and>
    channels c' = (\<lambda>i. map_option (\<lambda>ch. ch \<lparr> c_permissions := 0 \<rparr>) (channels c i))"
  using assms
  by (auto simp: packet_permission_query_def flush_permissions_def Let_def split: option.splits)

lemma flush_clears_permissions_witness:
  "\<exists>c'. packet_permission_query \<lparr> pq_channel_id = None, pq_permissions = None, pq_flush = Some True \<rparr>
      (mumble_client_new 1 5 735 0 0 \<lparr> channels := [4 \<mapsto> new_channel 4 \<lparr> c_permissions := 7 \<rparr>], channel_list := [4] \<rparr>)
      = Some c' \<and> map_option c_permissions (channels c' 4) = Some 0"
  using flush_clears_permissions
    [of "\<lparr> pq_channel_id = None, pq_permissions = None, pq_flush = Some True \<rparr>"
      "mumble_client_new 1 5 735 0 0 \<lparr> channels := [4 \<mapsto> new_channel 4 \<lparr> c_permissions := 7 \<rparr>], channel_list := [4] \<rparr>"]
  by auto

definition advanced :: "world \<Rightarrow> mumble_crypt \<Rightarrow> mumble_crypt" where
  "advanced W k = (if sending W = No_Buffer then k else k \<lparr> encrypt_iv := iv_increment (encrypt_iv k) \<rparr>)"

lemma sendudp_crypt:
  assumes "crypt c = Some k" "crypt_isValid k"
  shows "all_some (\<lambda>c'. crypt c' = Some (advanced W k)) (packet_sendudp E W msg c)"
  unfolding packet_sendudp_def
  by (intro wp) (auto simp: assms Let_def advanced_def crypt_encrypt_ok(1))

lemma ping_udp_crypt:
  assumes "crypt c = Some k" "crypt_isValid k"
  shows "all_some (\<lambda>c'. crypt c' = Some (advanced W k)) (mumble_ping_udp E W t c)"
  using assms unfolding mumble_ping_udp_def mumble_ping_udp_legacy_def mumble_ping_udp_protobuf_def
  apply (intro wp)
  apply (auto simp: bind_eq_Some_conv dest!: all_someD [OF sendudp_crypt [OF assms]] split: if_splits)
  done

lemma ping_crypt:
  assumes "crypt c = Some k" "crypt_isValid k"
  shows "all_some (\<lambda>c'. crypt c' = Some (advanced W k)) (mumble_ping E W c)"
proof -
  have "all_some (\<lambda>c'. crypt c' = Some k) (mumble_ping_tcp E (hrtime1 W) c)"
    unfolding mumble_ping_tcp_def by (intro wp) (simp add: assms)
  then show ?thesis
    unfolding mumble_ping_def
    by (intro all_some_bind) (erule all_some_mono, rule ping_udp_crypt [OF _ assms(2)])
qed

text \<open>
  Taking new keys: a crypt setup with a key and two vectors of 16 bytes makes the state valid
  with exactly these, the vector of the client advanced once by the ping that is sent at once. The
  history of received vectors and the statistics are those of the old keys.
\<close>

theorem crypt_setup_takes_keys:
  assumes "crypt c = Some k" "cr_key m = Some key" "cr_client_nonce m = Some cn" "cr_server_nonce m = Some sn"
    and "length key = 16" "length cn = 16" "length sn = 16" "packet_crypt_setup E W m c = Some c'"
  shows "\<exists>k'. crypt c' = Some k' \<and> crypt_isValid k' \<and> crypt_getRawKey k' = key \<and>
    crypt_getDecryptIV k' = sn \<and>
    crypt_getEncryptIV k' = (if sending W = No_Buffer then cn else iv_increment cn) \<and>
    decrypt_history k' = decrypt_history k \<and> uiGood k' = uiGood k"
proof -
  define k1 where "k1 = snd (crypt_setKey key cn sn k)"
  have k1: "crypt_isValid k1" "raw_key k1 = key" "decrypt_iv k1 = sn" "encrypt_iv k1 = cn"
    "decrypt_history k1 = decrypt_history k" "uiGood k1 = uiGood k"
    using assms(5-7) by (simp_all add: k1_def crypt_setKey_def crypt_isValid_def)
  obtain c2 where c2: "mumble_ping E W (c \<lparr> crypt := Some k1 \<rparr>) = Some c2" "crypt c' = crypt c2"
    using assms k1(1) by (auto simp: packet_crypt_setup_def k1_def [symmetric] Let_def bind_eq_Some_conv)
  have "crypt c2 = Some (advanced W k1)"
    by (rule all_someD [OF ping_crypt [OF _ k1(1)] c2(1)]) simp
  with c2(2) k1 show ?thesis
    by (auto simp: advanced_def crypt_isValid_def crypt_getRawKey_def crypt_getDecryptIV_def crypt_getEncryptIV_def)
qed

lemma crypt_setup_takes_keys_witness:
  "\<exists>c' k'. packet_crypt_setup sample_env sample_world
      \<lparr> cr_key = Some (replicate 16 9), cr_client_nonce = Some (replicate 16 0),
        cr_server_nonce = Some (replicate 16 3) \<rparr>
      (mumble_client_new 1 5 735 0 0 \<lparr> crypt := Some crypt_init \<rparr>) = Some c' \<and>
    crypt c' = Some k' \<and> crypt_isValid k' \<and> crypt_getEncryptIV k' = 1 # replicate 15 0"
proof -
  let ?c = "mumble_client_new 1 5 735 0 0 \<lparr> crypt := Some crypt_init \<rparr>"
  let ?m = "\<lparr> cr_key = Some (replicate 16 9), cr_client_nonce = Some (replicate 16 0),
      cr_server_nonce = Some (replicate 16 3) \<rparr> :: crypt_setup_msg"
  let ?k = "snd (crypt_setKey (replicate 16 9) (replicate 16 0) (replicate 16 3) crypt_init)"
  have v: "crypt_isValid ?k" by (simp add: crypt_setKey_def crypt_isValid_def)
  then have "keyed (?c \<lparr> crypt := Some ?k \<rparr>)" by (simp add: keyed_def)
  then obtain c2 where "mumble_ping sample_env sample_world (?c \<lparr> crypt := Some ?k \<rparr>) = Some c2"
    using ping_keyed by blast
  then obtain c' where c': "packet_crypt_setup sample_env sample_world ?m ?c = Some c'"
    using v by (auto simp: packet_crypt_setup_def Let_def)
  have "\<exists>k'. crypt c' = Some k' \<and> crypt_isValid k' \<and> crypt_getRawKey k' = replicate 16 9 \<and>
      crypt_getDecryptIV k' = replicate 16 3 \<and>
      crypt_getEncryptIV k' = (if sending sample_world = No_Buffer then replicate 16 0 else iv_increment (replicate 16 0)) \<and>
      decrypt_history k' = decrypt_history crypt_init \<and> uiGood k' = uiGood crypt_init"
    by (rule crypt_setup_takes_keys [OF _ _ _ _ _ _ _ c']) simp_all
  then show ?thesis using c' by (auto simp: sample_world_def replicate16)
qed

end
