(* ===== verification/Bindings.thy ===== *)
theory Bindings
  imports Client
begin

text \<open>
  What the methods of the Lua objects share. A method gets the arguments of the call, the object
  first, and returns the values it hands to Lua with the client, or the error it raises; undefined
  behaviour in C is \<open>None\<close>. An error is raised before the client changes, so it carries no client.
  An object whose user or channel was removed from the client is outside the model.
\<close>

section \<open>Results of a method\<close>

type_synonym binding_result = "(lval list \<times> client) lua_result option"

abbreviation returns :: "lval list \<Rightarrow> client \<Rightarrow> binding_result" where
  "returns vs c \<equiv> Some (Inr (vs, c))"

abbreviation raises :: "lua_error \<Rightarrow> binding_result" where
  "raises e \<equiv> Some (Inl e)"

definition check_then :: "'a lua_result \<Rightarrow> ('a \<Rightarrow> binding_result) \<Rightarrow> binding_result" where
  "check_then r f = (case r of Inl e \<Rightarrow> raises e | Inr x \<Rightarrow> f x)"

text \<open>\<open>malloc\<close> followed by the test of its result.\<close>

definition with_memory :: "world \<Rightarrow> binding_result \<Rightarrow> binding_result" where
  "with_memory W r = (if memory W then r else raises NoMemory)"

definition repeated :: "string \<Rightarrow> u32 list \<Rightarrow> (string \<times> pval) list" where
  "repeated name xs = (if xs = [] then [] else [(name, PList (map PU32 xs))])"

text \<open>
  \<open>lua_pushstring\<close> of a block of memory: up to its first zero byte, nil for a NULL pointer. A block
  without a zero byte is read past its end.
\<close>

definition push_block :: "u8 list \<Rightarrow> client \<Rightarrow> binding_result" where
  "push_block b c =
     (if b = [] then returns [LNil] c
      else if 0 \<in> set b then returns [LStr (c_string b)] c
      else None)"

text \<open>\<open>bin_to_strhex\<close> of a block and its recorded length; the result is not tested for NULL.\<close>

definition push_hash :: "world \<Rightarrow> u8 list \<Rightarrow> nat \<Rightarrow> client \<Rightarrow> binding_result" where
  "push_hash W b n c =
     (if memory W then do { h \<leftarrow> slice b 0 n; returns [LStr (bin_to_strhex h)] c } else None)"

section \<open>Objects as arguments\<close>

text \<open>
  The methods that take objects share this code. A table as argument \<open>n\<close>: a block of as
  many cells as the table has length, filled in the order of \<open>lua_next\<close> (the order of the list). A
  write past the block is undefined, and so is sending a cell that was not written. \<open>pick\<close> is the
  member read from an object of the right type.
\<close>

fun fill_cells ::
  "(lval \<Rightarrow> 'a option) \<Rightarrow> nat \<Rightarrow> lval list \<Rightarrow> nat \<Rightarrow> 'a option list \<Rightarrow> 'a option list lua_result option" where
  "fill_cells pick n [] i row = Some (Inr row)"
| "fill_cells pick n (v # vs) i row =
     (case pick v of
        Some x \<Rightarrow> do { row \<leftarrow> poke row i [Some x]; fill_cells pick n vs (i + 1) row }
      | None \<Rightarrow> Some (Inl (BadTableEntry n)))"

definition table_cells :: "env \<Rightarrow> (lval \<Rightarrow> 'a option) \<Rightarrow> nat \<Rightarrow> ltable \<Rightarrow> 'a list lua_result option" where
  "table_cells E pick n t = do {
     r \<leftarrow> fill_cells pick n (map snd t) 0 (replicate (objlen E t) None);
     (case r of Inl e \<Rightarrow> Some (Inl e) | Inr row \<Rightarrow> map_option Inr (those row))
   }"

fun channel_of :: "lval \<Rightarrow> u32 option" where
  "channel_of (LChan i) = Some i"
| "channel_of _ = None"

fun session_of :: "lval \<Rightarrow> u32 option" where
  "session_of (LUser s) = Some s"
| "session_of _ = None"

text \<open>Several arguments, from the position of the first on.\<close>

fun picked_args :: "(lval \<Rightarrow> 'a option) \<Rightarrow> string \<Rightarrow> lval list \<Rightarrow> nat list \<Rightarrow> 'a list lua_result" where
  "picked_args pick expected args [] = Inr []"
| "picked_args pick expected args (n # ns) =
     (case Option.bind (arg args n) pick of
        None \<Rightarrow> Inl (BadArgument n expected)
      | Some x \<Rightarrow>
          (case picked_args pick expected args ns of Inl e \<Rightarrow> Inl e | Inr xs \<Rightarrow> Inr (x # xs)))"

definition objects_from ::
  "env \<Rightarrow> world \<Rightarrow> (lval \<Rightarrow> 'a option) \<Rightarrow> string \<Rightarrow> nat \<Rightarrow> lval list \<Rightarrow> 'a list lua_result option" where
  "objects_from E W pick expected n args =
     (if \<not> memory W then Some (Inl NoMemory)
      else case arg args n of
        Some (LTable t) \<Rightarrow> table_cells E pick n t
      | _ \<Rightarrow> Some (picked_args pick expected args [n ..< Suc (length args)]))"

section \<open>Channels as arguments\<close>

text \<open>
  The four methods of users and channels that take channels. Several arguments: the argument
  \<open>2 + i\<close> is tested, and the object read is the one on the top of
  the stack, the last argument; when that is no channel, the memory of something else is read.
\<close>

fun vararg_ids :: "lval list \<Rightarrow> nat list \<Rightarrow> u32 list lua_result option" where
  "vararg_ids args [] = Some (Inr [])"
| "vararg_ids args (i # is) =
     (case arg args (2 + i) of
        Some (LChan _) \<Rightarrow>
          (case last args of
             LChan ch \<Rightarrow> do {
               r \<leftarrow> vararg_ids args is;
               Some (case r of Inl e \<Rightarrow> Inl e | Inr ids \<Rightarrow> Inr (ch # ids))
             }
           | _ \<Rightarrow> None)
      | _ \<Rightarrow> Some (Inl (BadArgument (2 + i) ''mumble.channel expected'')))"

definition channel_ids :: "env \<Rightarrow> world \<Rightarrow> lval list \<Rightarrow> u32 list lua_result option" where
  "channel_ids E W args =
     (if \<not> memory W then Some (Inl NoMemory)
      else case arg args 2 of
        Some (LTable t) \<Rightarrow> table_cells E channel_of 2 t
      | _ \<Rightarrow> vararg_ids args [0 ..< length args - 1])"

section \<open>The table of values a script keeps on an object\<close>

definition object_newindex :: "(lval \<times> lval) list \<Rightarrow> lval list \<Rightarrow> (lval \<times> lval) list lua_result option" where
  "object_newindex data args = do {
     k \<leftarrow> arg args 2;
     v \<leftarrow> arg args 3;
     Some (if k = LNil then Inl (LuaError ''table index is nil'') else Inr (set_field k v data))
   }"

text \<open>What the table does not have is looked up in the metatable, here the names of its methods.\<close>

definition object_index :: "string list \<Rightarrow> (lval \<times> lval) list \<Rightarrow> lval list \<Rightarrow> lval option" where
  "object_index methods data args = do {
     k \<leftarrow> arg args 2;
     Some (case map_of data k of
         Some v \<Rightarrow> v
       | None \<Rightarrow>
           (case find (\<lambda>m. k = LStr (bytes_of m)) methods of None \<Rightarrow> LNil | Some m \<Rightarrow> LMethod m))
   }"

text \<open>\<open>lua_pushfstring\<close>: \<open>%d\<close> is the session as an \<open>int\<close>, \<open>%s\<close> of NULL is \<open>(null)\<close>.\<close>

definition int_text :: "u32 \<Rightarrow> cstr" where
  "int_text w =
     (if sint w < 0 then bytes_of ''-'' @ decimal (nat (- sint w)) else decimal (nat (sint w)))"

definition object_text :: "string \<Rightarrow> u32 \<Rightarrow> cstr option \<Rightarrow> cstr \<Rightarrow> cstr" where
  "object_text metatable i name pointer =
     bytes_of metatable @ bytes_of '' ['' @ int_text i @ bytes_of ''][\"'' @
     (case name of None \<Rightarrow> bytes_of ''(null)'' | Some n \<Rightarrow> n) @ bytes_of ''\"] '' @ pointer"

section \<open>Object values\<close>

text \<open>A value is typed in a client when every object in it is one the client has.\<close>

fun value_ok :: "client \<Rightarrow> lval \<Rightarrow> bool" where
  "value_ok c (LUser s) = (users c s \<noteq> None)"
| "value_ok c (LChan i) = (channels c i \<noteq> None)"
| "value_ok c (LTable t) = (\<forall>e\<in>set t. value_ok c (snd e))"
| "value_ok c _ = True"

definition result_ok :: "client \<Rightarrow> (lval list \<times> client) lua_result \<Rightarrow> bool" where
  "result_ok c r =
     (case r of
        Inl e \<Rightarrow> True
      | Inr (vs, c') \<Rightarrow>
          client_ok c' \<and> (\<forall>v\<in>set vs. value_ok c' v) \<and>
          dom (users c') = dom (users c) \<and> dom (channels c') = dom (channels c) \<and>
          take (length (trace c)) (trace c') = trace c \<and> stay c c')"


section \<open>Objects with a state of their own\<close>

text \<open>
  A method of an object that is not part of the client returns its values, or the error it raises,
  with the object as the call leaves it: here an error may come after a change.
\<close>

type_synonym 's object_result = "(lval list lua_result \<times> 's) option"

abbreviation gives :: "lval list \<Rightarrow> 's \<Rightarrow> 's object_result" where
  "gives vs s \<equiv> Some (Inr vs, s)"

abbreviation fails :: "lua_error \<Rightarrow> 's \<Rightarrow> 's object_result" where
  "fails e s \<equiv> Some (Inl e, s)"

definition checked :: "'s \<Rightarrow> 'a lua_result \<Rightarrow> ('a \<Rightarrow> 's object_result) \<Rightarrow> 's object_result" where
  "checked s r f = (case r of Inl e \<Rightarrow> fails e s | Inr x \<Rightarrow> f x)"

lemma checked_simps [simp]:
  "checked s (Inl e) f = fails e s" "checked s (Inr x) f = f x"
  by (simp_all add: checked_def)

lemma all_some_checked [wp]:
  "(\<And>e. r = Inl e \<Longrightarrow> P (Inl e, s)) \<Longrightarrow> (\<And>x. r = Inr x \<Longrightarrow> all_some P (f x)) \<Longrightarrow>
   all_some P (checked s r f)"
  by (cases r) (simp_all add: all_some_Some)

text \<open>The text of an object: the name of its metatable and its address.\<close>

definition address_text :: "string \<Rightarrow> cstr \<Rightarrow> cstr" where
  "address_text metatable pointer = bytes_of metatable @ bytes_of '': '' @ pointer"

section \<open>Rules for the results of methods\<close>

named_theorems binding_ok \<open>rules for \<open>all_some (result_ok c)\<close> and typed values\<close>

lemma result_ok_raise [binding_ok]: "all_some (result_ok c) (raises e)"
  by (simp add: all_some_def result_ok_def)

lemma check_then_ok [binding_ok]:
  "(\<And>x. r = Inr x \<Longrightarrow> all_some (result_ok c) (f x)) \<Longrightarrow> all_some (result_ok c) (check_then r f)"
  by (cases r) (simp_all add: check_then_def result_ok_raise)

lemma with_memory_ok [binding_ok]:
  "all_some (result_ok c) r \<Longrightarrow> all_some (result_ok c) (with_memory W r)"
  by (simp add: with_memory_def result_ok_raise)

lemma returns_ok [binding_ok]:
  "client_ok c \<Longrightarrow> \<forall>v\<in>set vs. value_ok c v \<Longrightarrow> all_some (result_ok c) (returns vs c)"
  by (simp add: all_some_def result_ok_def)

text \<open>Sending changes nothing but the trace.\<close>

lemma returns_sent_ok [binding_ok]:
  "client_ok c \<Longrightarrow> all_some (result_ok c) (returns [] (packet_send ty m c))"
  by (simp add: all_some_def result_ok_def)

lemma push_block_ok [binding_ok]: "client_ok c \<Longrightarrow> all_some (result_ok c) (push_block b c)"
  unfolding push_block_def by (intro wp binding_ok) simp_all

lemma push_hash_ok [binding_ok]: "client_ok c \<Longrightarrow> all_some (result_ok c) (push_hash W b n c)"
  unfolding push_hash_def by (intro wp binding_ok) simp_all

lemma value_ok_dom:
  assumes "dom (users c') = dom (users c)" "dom (channels c') = dom (channels c)"
  shows "value_ok c' v = value_ok c v"
proof -
  have "(users c' s = None) = (users c s = None)" "(channels c' i = None) = (channels c i = None)" for s i
    using assms by (metis domIff)+
  then show ?thesis by (induction c v rule: value_ok.induct) auto
qed

lemma value_ok_simple [simp]:
  "value_ok c (vint w)" "value_ok c (vsint w)" "value_ok c (vstr s)"
  by (simp_all add: vint_def vsint_def vstr_def split: option.splits)

lemma value_ok_raw_get [simp]:
  "value_ok c (mumble_user_raw_get c s)" "value_ok c (mumble_channel_raw_get c i)"
  by (simp_all add: mumble_user_raw_get_def mumble_channel_raw_get_def split: option.splits)

lemma set_field_entries: "e \<in> set (set_field k v t) \<Longrightarrow> e = (k, v) \<or> e \<in> set t"
  by (auto simp: set_field_def split: if_splits)

lemma new_table_entries: "new_table es = LTable t \<Longrightarrow> set t \<subseteq> set es"
proof -
  have "set (fold (\<lambda>e. set_field (fst e) (snd e)) es []) \<subseteq> set es"
  proof (induction es rule: rev_induct)
    case (snoc e es)
    then show ?case by (auto dest: set_field_entries)
  qed simp
  then show "new_table es = LTable t \<Longrightarrow> set t \<subseteq> set es" by (auto simp: new_table_def)
qed

lemma value_ok_new_table: "\<forall>e\<in>set es. value_ok c (snd e) \<Longrightarrow> value_ok c (new_table es)"
  using new_table_entries [of es] by (cases "new_table es") (auto simp: new_table_def)

lemma value_ok_array_table: "\<forall>v\<in>set vs. value_ok c v \<Longrightarrow> value_ok c (array_table vs)"
  unfolding array_table_def by (rule value_ok_new_table) (auto dest: set_zip_rightD)

text \<open>With channels only, every cell gets the last one.\<close>

lemma vararg_ids_last:
  assumes "\<forall>i\<in>set is. \<exists>ch. arg args (2 + i) = Some (LChan ch)" "last args = LChan ch"
  shows "vararg_ids args is = Some (Inr (replicate (length is) ch))"
  using assms(1)
proof (induction "is")
  case (Cons i "is")
  then obtain x where "arg args (2 + i) = Some (LChan x)" by auto
  with Cons assms(2) show ?case by simp
qed simp

end
