(* ===== verification/Users.thy ===== *)
theory Users
  imports Bindings
begin

text \<open>
  The methods of user objects (\<open>mumble/user.c\<close>) and their table. The object of the call is \<open>u\<close>,
  the arguments \<open>args\<close> are numbered from one with the object first. \<open>user_call\<close> is a call through
  the metatable: it tests the first argument as every method does and runs the method.
\<close>

section \<open>Requests to the server\<close>

type_synonym user_method = "env \<Rightarrow> world \<Rightarrow> user \<Rightarrow> lval list \<Rightarrow> client \<Rightarrow> binding_result"

definition user_message :: user_method where
  "user_message E W u args c =
     check_then (check_string args 2) (\<lambda>message.
       with_memory W
         (returns [] (packet_send PACKET_TEXTMESSAGE
           [(''session'', PList [PU32 (u_session u)]), (''message'', PStr message)] c)))"

text \<open>\<open>lua_isnil\<close> is false of an argument that is not given, which then is no string.\<close>

definition reason_field :: "lval list \<Rightarrow> (string \<times> pval) list lua_result" where
  "reason_field args =
     (if arg args 2 = Some LNil then Inr []
      else case check_string args 2 of Inl e \<Rightarrow> Inl e | Inr reason \<Rightarrow> Inr [(''reason'', PStr reason)])"

definition user_kick :: user_method where
  "user_kick E W u args c =
     check_then (reason_field args) (\<lambda>reason.
       returns [] (packet_send PACKET_USERREMOVE ((''session'', PU32 (u_session u)) # reason) c))"

definition user_ban :: user_method where
  "user_ban E W u args c =
     check_then (reason_field args) (\<lambda>reason.
       returns [] (packet_send PACKET_USERREMOVE
         ((''session'', PU32 (u_session u)) # reason @ [(''ban'', PBool True)]) c))"

definition user_move :: user_method where
  "user_move E W u args c =
     check_then (check_channel args 2) (\<lambda>channel.
       returns [] (packet_send PACKET_USERSTATE
         [(''session'', PU32 (u_session u)), (''channel_id'', PU32 channel)] c))"

definition user_setMuted :: user_method where
  "user_setMuted E W u args c =
     returns [] (packet_send PACKET_USERSTATE
       [(''session'', PU32 (u_session u)), (''mute'', PBool (to_boolean args 2))] c)"

definition user_setDeaf :: user_method where
  "user_setDeaf E W u args c =
     returns [] (packet_send PACKET_USERSTATE
       [(''session'', PU32 (u_session u)), (''mute'', PBool (to_boolean args 2)),
        (''deaf'', PBool (to_boolean args 2))] c)"

definition user_register :: user_method where
  "user_register E W u args c =
     returns [] (packet_send PACKET_USERSTATE
       [(''session'', PU32 (u_session u)), (''user_id'', PU32 0)] c)"

text \<open>\<open>stats_only\<close> is assigned, its \<open>has_\<close> flag is not, so it is not packed.\<close>

definition user_request_stats :: user_method where
  "user_request_stats E W u args c =
     returns [] (packet_send PACKET_USERSTATS [(''session'', PU32 (u_session u))] c)"

definition user_setTexture :: user_method where
  "user_setTexture E W u args c =
     check_then (check_lstring args 2) (\<lambda>texture.
       returns [] (packet_send PACKET_USERSTATE
         [(''session'', PU32 (u_session u)), (''texture'', PBytes texture)] c))"

definition user_listen :: user_method where
  "user_listen E W u args c = do {
     channels \<leftarrow> channel_ids E W args;
     check_then channels (\<lambda>ids.
       returns [] (packet_send PACKET_USERSTATE
         ((''session'', PU32 (u_session u)) # repeated ''listening_channel_add'' ids) c))
   }"

definition user_unlisten :: user_method where
  "user_unlisten E W u args c = do {
     channels \<leftarrow> channel_ids E W args;
     check_then channels (\<lambda>ids.
       returns [] (packet_send PACKET_USERSTATE
         ((''session'', PU32 (u_session u)) # repeated ''listening_channel_remove'' ids) c))
   }"

definition user_sendPluginData :: user_method where
  "user_sendPluginData E W u args c =
     check_then (check_string args 2) (\<lambda>dataid.
       check_then (check_lstring args 3) (\<lambda>data.
         with_memory W
           (returns [] (packet_send PACKET_PLUGINDATA
             [(''senderSession'', PU32 (session c)), (''receiverSessions'', PList [PU32 (u_session u)]),
              (''data'', PBytes data), (''dataID'', PStr dataid)] c))))"

definition user_requestTextureBlob :: user_method where
  "user_requestTextureBlob E W u args c =
     with_memory W
       (returns [] (packet_send PACKET_REQUESTBLOB [(''session_texture'', PList [PU32 (u_session u)])] c))"

definition user_requestCommentBlob :: user_method where
  "user_requestCommentBlob E W u args c =
     with_memory W
       (returns [] (packet_send PACKET_REQUESTBLOB [(''session_comment'', PList [PU32 (u_session u)])] c))"

definition user_contextAction :: user_method where
  "user_contextAction E W u args c =
     check_then (check_string args 2) (\<lambda>action.
       returns [] (packet_send PACKET_CONTEXTACTION
         [(''session'', PU32 (u_session u)), (''action'', PStr action)] c))"

section \<open>Reading the user\<close>

definition user_getClient :: user_method where
  "user_getClient E W u args c = returns [LClient (self c)] c"

definition user_getSession :: user_method where
  "user_getSession E W u args c = returns [vint (u_session u)] c"

definition user_getName :: user_method where
  "user_getName E W u args c = returns [vstr (u_name u)] c"

definition user_getChannel :: user_method where
  "user_getChannel E W u args c = returns [mumble_channel_raw_get c (u_channel_id u)] c"

definition user_getId :: user_method where
  "user_getId E W u args c = returns [vint (u_user_id u)] c"

definition user_isRegistered :: user_method where
  "user_isRegistered E W u args c = returns [LBool (u_user_id u > 0)] c"

definition user_isMute :: user_method where
  "user_isMute E W u args c = returns [LBool (u_mute u)] c"

definition user_isDeaf :: user_method where
  "user_isDeaf E W u args c = returns [LBool (u_deaf u)] c"

definition user_isSelfMute :: user_method where
  "user_isSelfMute E W u args c = returns [LBool (u_self_mute u)] c"

definition user_isSelfDeaf :: user_method where
  "user_isSelfDeaf E W u args c = returns [LBool (u_self_deaf u)] c"

definition user_isSuppressed :: user_method where
  "user_isSuppressed E W u args c = returns [LBool (u_suppress u)] c"

definition user_getComment :: user_method where
  "user_getComment E W u args c = returns [vstr (u_comment u)] c"

definition user_getCommentHash :: user_method where
  "user_getCommentHash E W u args c = push_hash W (u_comment_hash u) (u_comment_hash_len u) c"

definition user_isSpeaking :: user_method where
  "user_isSpeaking E W u args c = returns [LBool (u_speaking u)] c"

definition user_isRecording :: user_method where
  "user_isRecording E W u args c = returns [LBool (u_recording u)] c"

definition user_isPrioritySpeaker :: user_method where
  "user_isPrioritySpeaker E W u args c = returns [LBool (u_priority_speaker u)] c"

definition user_getTexture :: user_method where
  "user_getTexture E W u args c = push_block (u_texture u) c"

definition user_getTextureHash :: user_method where
  "user_getTextureHash E W u args c = push_hash W (u_texture_hash u) (u_texture_hash_len u) c"

definition user_getHash :: user_method where
  "user_getHash E W u args c = returns [vstr (u_hash u)] c"

definition user_tostring :: user_method where
  "user_tostring E W u args c =
     returns [LStr (object_text ''mumble.user'' (u_session u) (u_name u)
       (pointer_text E (LUser (u_session u))))] c"

definition user_isListening :: user_method where
  "user_isListening E W u args c =
     check_then (check_channel args 2) (\<lambda>channel.
       returns [LBool (channel \<in> set (u_listens u))] c)"

definition user_getListens :: user_method where
  "user_getListens E W u args c =
     returns [new_table (map (\<lambda>i. (KInt (uint i), mumble_channel_raw_get c i)) (u_listens u))] c"

section \<open>Recording a user\<close>

text \<open>
  When the user is recorded already, two values are pushed and one is returned, the last: the
  message, and not nil.
\<close>

definition user_startRecord :: user_method where
  "user_startRecord E W u args c =
     (if u_recording_file u \<noteq> None
      then returns [LStr (bytes_of ''user is already being recorded'')] c
      else check_then (check_string args 2) (\<lambda>filepath.
        case open_error W of
          Some reason \<Rightarrow>
            returns [LNil, LStr (bytes_of ''error opening file \"'' @ filepath @ bytes_of ''\" ('' @
              reason @ bytes_of '')'')] c
        | None \<Rightarrow>
            let u = u \<lparr> u_last_spoke := Some (now W), u_recording_file := Some [] \<rparr>;
                c = mumble_update_recording_status (put_user (u_session u) u c)
            in returns [LBool True] c))"

text \<open>The silence up to the end is written before the file is closed.\<close>

definition user_handle_stop_recording :: "env \<Rightarrow> world \<Rightarrow> user \<Rightarrow> user option" where
  "user_handle_stop_recording E W u = do {
     u \<leftarrow> mumble_handle_record_silence E (memory W) (now W) u;
     Some (u \<lparr> u_recording_file := None \<rparr>)
   }"

definition user_stopRecord :: user_method where
  "user_stopRecord E W u args c =
     (if u_recording_file u \<noteq> None then do {
        u \<leftarrow> user_handle_stop_recording E W u;
        returns [LBool True] (mumble_update_recording_status (put_user (u_session u) u c))
      }
      else returns [LBool False] c)"

definition user_isBeingRecorded :: user_method where
  "user_isBeingRecorded E W u args c = returns [LBool (u_recording_file u \<noteq> None)] c"

text \<open>
  The collector's \<open>__gc\<close>: the recording is closed without a change of the status, the strings are
  freed, the list is cleared and the table of the object is dropped.
\<close>

definition user_gc :: "env \<Rightarrow> world \<Rightarrow> user \<Rightarrow> user option" where
  "user_gc E W u = do {
     u \<leftarrow> (if u_recording_file u \<noteq> None then user_handle_stop_recording E W u else Some u);
     Some (u \<lparr> u_name := None, u_comment := None, u_texture := [], u_hash := None,
             u_comment_hash := [], u_texture_hash := [], u_listens := [], u_data := [] \<rparr>)
   }"

section \<open>The table of methods\<close>

definition user_newindex :: user_method where
  "user_newindex E W u args c = do {
     data \<leftarrow> object_newindex (u_data u) args;
     check_then data (\<lambda>data. returns [] (put_user (u_session u) (u \<lparr> u_data := data \<rparr>) c))
   }"

definition mumble_user :: "(string \<times> user_method) list" where
  "mumble_user =
     [(''message'', user_message), (''kick'', user_kick), (''ban'', user_ban), (''move'', user_move),
      (''setMuted'', user_setMuted), (''setDeaf'', user_setDeaf), (''register'', user_register),
      (''requestStats'', user_request_stats),
      (''getClient'', user_getClient), (''getSession'', user_getSession), (''getName'', user_getName),
      (''getChannel'', user_getChannel), (''getId'', user_getId), (''getID'', user_getId),
      (''isRegistered'', user_isRegistered), (''isMute'', user_isMute), (''isMuted'', user_isMute),
      (''isDeaf'', user_isDeaf), (''isDeafened'', user_isDeaf), (''isSelfMute'', user_isSelfMute),
      (''isSelfMuted'', user_isSelfMute), (''isSelfDeaf'', user_isSelfDeaf),
      (''isSelfDeafened'', user_isSelfDeaf), (''isSuppressed'', user_isSuppressed),
      (''getComment'', user_getComment), (''getCommentHash'', user_getCommentHash),
      (''isSpeaking'', user_isSpeaking), (''isRecording'', user_isRecording),
      (''isPrioritySpeaker'', user_isPrioritySpeaker), (''getTexture'', user_getTexture),
      (''getTextureHash'', user_getTextureHash), (''getHash'', user_getHash),
      (''setTexture'', user_setTexture), (''listen'', user_listen), (''unlisten'', user_unlisten),
      (''isListening'', user_isListening), (''getListens'', user_getListens),
      (''getListening'', user_getListens), (''sendPluginData'', user_sendPluginData),
      (''requestTextureBlob'', user_requestTextureBlob),
      (''requestCommentBlob'', user_requestCommentBlob),
      (''startRecord'', user_startRecord), (''startRecording'', user_startRecord),
      (''stopRecord'', user_stopRecord), (''stopRecording'', user_stopRecord),
      (''isBeingRecorded'', user_isBeingRecorded), (''contextAction'', user_contextAction),
      (''__tostring'', user_tostring), (''__newindex'', user_newindex)]"

text \<open>
  The table also has \<open>__gc\<close> and \<open>__index\<close>, which is called with a key to find the methods, as the
  second function here is.
\<close>

definition user_index :: user_method where
  "user_index E W u args c = do {
     v \<leftarrow> object_index (map fst mumble_user @ [''__gc'', ''__index'']) (u_data u) args;
     returns [v] c
   }"

definition user_call :: "string \<Rightarrow> env \<Rightarrow> world \<Rightarrow> lval list \<Rightarrow> client \<Rightarrow> binding_result" where
  "user_call name E W args c =
     (case map_of mumble_user name of
        None \<Rightarrow> None
      | Some m \<Rightarrow>
          (case arg args 1 of
             Some (LUser s) \<Rightarrow> (case users c s of None \<Rightarrow> None | Some u \<Rightarrow> m E W u args c)
           | _ \<Rightarrow> raises (BadArgument 1 ''mumble.user expected'')))"


section \<open>Every method returns a typed result\<close>

lemma put_user_dom: "dom (users (put_user s u c)) = dom (users c)"
  by (auto simp: put_user_def domIff)

lemma update_status_frame [simp]:
  "users (mumble_update_recording_status c) = users c"
  "user_list (mumble_update_recording_status c) = user_list c"
  "channels (mumble_update_recording_status c) = channels c"
  "client_ok (mumble_update_recording_status c) = client_ok c"
  by (simp_all add: mumble_update_recording_status_def Let_def)

lemma update_status_trace:
  "trace (mumble_update_recording_status c) =
     trace c @
     (if recording c = any_recorded c then []
      else [Sent PACKET_USERSTATE
             [(''session'', PU32 (session c)), (''recording'', PBool (any_recorded c))]])"
  "recording (mumble_update_recording_status c) = any_recorded c"
  by (simp_all add: mumble_update_recording_status_def Let_def packet_send_def)

lemma stop_recording_user:
  "user_handle_stop_recording E W u = Some u' \<Longrightarrow> u' = u \<lparr> u_recording_file := None \<rparr>"
  by (cases u)
    (auto simp: user_handle_stop_recording_def mumble_handle_record_silence_def bind_eq_Some_conv
          split: option.splits if_splits)

lemma put_user_result_ok:
  assumes "client_ok c" "user_ok s u" "\<forall>v\<in>set vs. value_ok c v"
  shows "result_ok c (Inr (vs, put_user s u c))"
    "result_ok c (Inr (vs, mumble_update_recording_status (put_user s u c)))"
proof -
  have "value_ok (put_user s u c) v = value_ok c v"
    "value_ok (mumble_update_recording_status (put_user s u c)) v = value_ok c v" for v
    by (rule value_ok_dom; simp add: put_user_dom)+
  with assms show "result_ok c (Inr (vs, put_user s u c))"
    "result_ok c (Inr (vs, mumble_update_recording_status (put_user s u c)))"
    by (simp_all add: result_ok_def put_user_dom update_status_trace client_ok_put_user)
qed

lemma unchanged_result_ok:
  "client_ok c \<Longrightarrow> \<forall>v\<in>set vs. value_ok c v \<Longrightarrow> result_ok c (Inr (vs, c))"
  by (simp add: result_ok_def)

definition typed :: "user_method \<Rightarrow> bool" where
  "typed m \<longleftrightarrow>
     (\<forall>E W u args c s. client_ok c \<longrightarrow> users c s = Some u \<longrightarrow> all_some (result_ok c) (m E W u args c))"

lemma typed_requests:
  "typed user_message" "typed user_kick" "typed user_ban" "typed user_move" "typed user_setMuted"
  "typed user_setDeaf" "typed user_register" "typed user_request_stats" "typed user_setTexture"
  "typed user_listen" "typed user_unlisten" "typed user_sendPluginData"
  "typed user_requestTextureBlob" "typed user_requestCommentBlob" "typed user_contextAction"
  unfolding typed_def user_message_def user_kick_def user_ban_def user_move_def user_setMuted_def
    user_setDeaf_def user_register_def user_request_stats_def user_setTexture_def user_listen_def
    user_unlisten_def user_sendPluginData_def user_requestTextureBlob_def
    user_requestCommentBlob_def user_contextAction_def
  by (intro allI impI wp binding_ok; assumption)+

lemma typed_getters:
  "typed user_getClient" "typed user_getSession" "typed user_getName" "typed user_getChannel"
  "typed user_getId" "typed user_isRegistered" "typed user_isMute" "typed user_isDeaf"
  "typed user_isSelfMute" "typed user_isSelfDeaf" "typed user_isSuppressed"
  "typed user_getComment" "typed user_isSpeaking" "typed user_isRecording"
  "typed user_isPrioritySpeaker" "typed user_getHash" "typed user_tostring"
  "typed user_isBeingRecorded"
  unfolding typed_def user_getClient_def user_getSession_def user_getName_def user_getChannel_def
    user_getId_def user_isRegistered_def user_isMute_def user_isDeaf_def user_isSelfMute_def
    user_isSelfDeaf_def user_isSuppressed_def user_getComment_def user_isSpeaking_def
    user_isRecording_def user_isPrioritySpeaker_def user_getHash_def user_tostring_def
    user_isBeingRecorded_def
  by (intro allI impI returns_ok; simp)+

lemma typed_blocks:
  "typed user_getCommentHash" "typed user_getTexture" "typed user_getTextureHash"
  unfolding typed_def user_getCommentHash_def user_getTexture_def user_getTextureHash_def
  by (intro allI impI binding_ok; assumption)+

lemma typed_listens: "typed user_isListening" "typed user_getListens"
  unfolding typed_def user_isListening_def user_getListens_def
  by (intro allI impI binding_ok; auto intro!: value_ok_new_table)+

lemma typed_changes: "typed user_startRecord" "typed user_stopRecord" "typed user_newindex"
proof -
  have ok: "user_ok (u_session u) u" if "client_ok c" "users c s = Some u" for c s u
    using client_okD(1) [OF that] by (simp add: user_ok_def)
  show "typed user_startRecord"
    unfolding typed_def user_startRecord_def Let_def
    by (intro allI impI wp check_then_ok)
      (auto simp: user_ok_def intro!: unchanged_result_ok put_user_result_ok)
  show "typed user_stopRecord"
    unfolding typed_def user_stopRecord_def
    by (intro allI impI wp)
      (auto simp: user_ok_def dest!: stop_recording_user intro!: unchanged_result_ok put_user_result_ok)
  show "typed user_newindex"
    unfolding typed_def user_newindex_def
    by (intro allI impI wp check_then_ok)
      (auto simp: user_ok_def dest: ok intro!: put_user_result_ok)
qed

lemmas typed_methods = typed_requests typed_getters typed_blocks typed_listens typed_changes

lemma typed_table: "list_all typed (map snd mumble_user)"
  unfolding mumble_user_def by (simp add: typed_methods)

lemma user_call_typed:
  assumes "client_ok c"
  shows "all_some (result_ok c) (user_call name E W args c)"
proof (cases "map_of mumble_user name")
  case None
  then show ?thesis by (simp add: user_call_def wp)
next
  case (Some m)
  then have "m \<in> set (map snd mumble_user)" by (force dest: map_of_SomeD)
  then have "typed m" using typed_table by (simp only: list_all_iff)
  then have "all_some (result_ok c) (m E W u args c)" if "users c s = Some u" for s u
    using assms that by (simp only: typed_def)
  with Some show ?thesis
    by (auto simp: user_call_def result_ok_raise wp split: option.splits lval.splits)
qed

section \<open>Properties\<close>

text \<open>
  Starting and stopping a recording keep the announced status: after a call that says it has
  done so, the flag of the client tells whether any user is recorded, the user is recorded exactly
  when the call was a start, no other user is touched, and one user state is sent exactly when the
  flag changed.
\<close>

theorem recording_announced:
  assumes "client_ok c" "name \<in> {''startRecord'', ''stopRecord''}"
    and call: "user_call name E W (LUser s # args) c = returns [LBool True] c'"
  shows "(recording c' \<longleftrightarrow> (\<exists>t u. users c' t = Some u \<and> u_recording_file u \<noteq> None)) \<and>
    (\<exists>u. users c' s = Some u \<and> (u_recording_file u \<noteq> None \<longleftrightarrow> name = ''startRecord'')) \<and>
    (\<forall>t. t \<noteq> s \<longrightarrow> users c' t = users c t) \<and>
    trace c' = trace c @
      (if recording c = recording c' then []
       else [Sent PACKET_USERSTATE
              [(''session'', PU32 (session c)), (''recording'', PBool (recording c'))]])"
proof -
  have fields: "map_of mumble_user ''startRecord'' = Some user_startRecord"
    "map_of mumble_user ''stopRecord'' = Some user_stopRecord"
    by (simp_all add: mumble_user_def)
  have "\<exists>u u'. users c s = Some u \<and> u_session u' = u_session u \<and>
      (u_recording_file u' \<noteq> None \<longleftrightarrow> name = ''startRecord'') \<and>
      (u_recording_file u' = None \<or> u_last_spoke u' \<noteq> None) \<and>
      c' = mumble_update_recording_status (put_user (u_session u) u' c)"
  proof (cases "name = ''startRecord''")
    case True
    with call obtain u where "users c s = Some u"
        "c' = mumble_update_recording_status (put_user (u_session u)
           (u \<lparr> u_last_spoke := Some (now W), u_recording_file := Some [] \<rparr>) c)"
      unfolding user_call_def
      by (auto simp: fields arg_def user_startRecord_def check_then_def Let_def
               split: option.splits if_splits sum.splits)
    with True show ?thesis
      by (intro exI [of _ u] exI [of _ "u \<lparr> u_last_spoke := Some (now W), u_recording_file := Some [] \<rparr>"]) simp
  next
    case False
    with call assms(2) obtain u where "users c s = Some u"
        "c' = mumble_update_recording_status (put_user (u_session u) (u \<lparr> u_recording_file := None \<rparr>) c)"
      unfolding user_call_def
      by (auto simp: fields arg_def user_stopRecord_def bind_eq_Some_conv dest!: stop_recording_user
               split: option.splits if_splits)
    with False show ?thesis by (intro exI [of _ u] exI [of _ "u \<lparr> u_recording_file := None \<rparr>"]) simp
  qed
  then obtain u u' where u: "users c s = Some u" "u_session u' = u_session u"
      "u_recording_file u' \<noteq> None \<longleftrightarrow> name = ''startRecord''"
      "u_recording_file u' = None \<or> u_last_spoke u' \<noteq> None"
      "c' = mumble_update_recording_status (put_user (u_session u) u' c)"
    by blast
  then have s: "u_session u = s" using client_okD(1) [OF assms(1) u(1)] by (simp add: user_ok_def)
  let ?c = "put_user s u' c"
  have c': "c' = mumble_update_recording_status ?c" and rec: "recording c' = any_recorded ?c"
    and us: "users c' = (users c)(s \<mapsto> u')"
    using u s by (simp_all add: update_status_trace put_user_def)
  have "client_ok c'" using client_ok_put_user [OF assms(1), of s u'] u(2,4) s
    by (auto simp: c' user_ok_def)
  then have "set (user_list c') = dom (users c')" by (simp add: client_ok_def user_store.ok_def)
  then have lst: "set (user_list ?c) = dom (users ?c)" by (simp add: c')
  have "any_recorded ?c = (\<exists>t\<in>dom (users ?c). case users ?c t of None \<Rightarrow> False | Some u \<Rightarrow> u_recording_file u \<noteq> None)"
    unfolding any_recorded_def lst ..
  also have "\<dots> = (\<exists>t u. users ?c t = Some u \<and> u_recording_file u \<noteq> None)"
    by (auto split: option.splits) (metis domI option.simps(5))
  finally have "recording c' \<longleftrightarrow> (\<exists>t u. users c' t = Some u \<and> u_recording_file u \<noteq> None)"
    by (simp only: rec us) (simp add: u(1) put_user_def)
  moreover have "\<exists>u. users c' s = Some u \<and> (u_recording_file u \<noteq> None \<longleftrightarrow> name = ''startRecord'')"
    using u(3) by (simp only: us) simp
  moreover have "\<forall>t. t \<noteq> s \<longrightarrow> users c' t = users c t" by (simp add: us)
  moreover have "trace c' = trace c @ (if recording c = recording c' then []
       else [Sent PACKET_USERSTATE
              [(''session'', PU32 (session c)), (''recording'', PBool (recording c'))]])"
    by (simp only: rec) (simp add: c' update_status_trace)
  ultimately show ?thesis by blast
qed

theorem recording_announced_witness:
  "let c = snd (mumble_user_get 7 (mumble_client_new 1 5 735 0 0)) in
   \<exists>c'. user_call ''startRecord'' sample_env sample_world [LUser 7, LStr [97]] c = returns [LBool True] c' \<and>
     recording c' \<and>
     trace c' = [Sent PACKET_USERSTATE [(''session'', PU32 0), (''recording'', PBool True)]]"
proof -
  let ?c = "snd (mumble_user_get 7 (mumble_client_new 1 5 735 0 0))"
  have ok: "client_ok ?c" by (simp add: client_ok_new client_ok_user_get)
  have "map_of mumble_user ''startRecord'' = Some user_startRecord" by (simp add: mumble_user_def)
  then have "\<exists>c'. user_call ''startRecord'' sample_env sample_world [LUser 7, LStr [97]] ?c = returns [LBool True] c'"
    by (simp add: user_call_def arg_def user_startRecord_def mumble_user_get_def mumble_client_new_def
        new_user_def check_string_def check_lstring_def check_then_def sample_world_def Let_def)
  then obtain c' where c':
    "user_call ''startRecord'' sample_env sample_world [LUser 7, LStr [97]] ?c = returns [LBool True] c'"
    by blast
  have "recording c'" and "trace c' = trace ?c @ (if recording ?c = recording c' then []
       else [Sent PACKET_USERSTATE
              [(''session'', PU32 (session ?c)), (''recording'', PBool (recording c'))]])"
    using recording_announced [OF ok _ c'] by auto
  moreover have "trace ?c = []" "\<not> recording ?c" "session ?c = 0"
    by (simp_all add: mumble_client_new_def)
  ultimately show ?thesis using c' by (auto simp: Let_def)
qed

text \<open>
  \<open>listen\<close> with several channels as arguments sends the last one as often as there are
  arguments, and none of the others.
\<close>

theorem listen_sends_last:
  assumes "users c s = Some u" "memory W" "chs \<noteq> []"
  shows "user_call ''listen'' E W (LUser s # map LChan chs) c =
    returns [] (packet_send PACKET_USERSTATE
      [(''session'', PU32 (u_session u)),
       (''listening_channel_add'', PList (replicate (length chs) (PU32 (last chs))))] c)"
proof -
  let ?args = "LUser s # map LChan chs"
  have "arg ?args (2 + i) = Some (LChan (chs ! i))" if "i < length chs" for i
    using that by (simp add: arg_def)
  then have "vararg_ids ?args [0 ..< length chs] = Some (Inr (replicate (length chs) (last chs)))"
    using vararg_ids_last [of "[0 ..< length chs]" ?args "last chs"] assms(3) by (simp add: last_map)
  moreover have "channel_ids E W ?args = vararg_ids ?args [0 ..< length chs]"
    using assms(2,3) by (cases chs) (simp_all add: channel_ids_def arg_def)
  moreover have "map_of mumble_user ''listen'' = Some user_listen" by (simp add: mumble_user_def)
  ultimately show ?thesis
    using assms(1,3) by (simp add: user_call_def user_listen_def check_then_def repeated_def arg_def)
qed

theorem listen_sends_last_witness:
  "let c = snd (mumble_user_get 7 (mumble_client_new 1 5 735 0 0)) in
   user_call ''listen'' sample_env sample_world [LUser 7, LChan 1, LChan 2] c =
     returns [] (packet_send PACKET_USERSTATE
       [(''session'', PU32 7), (''listening_channel_add'', PList [PU32 2, PU32 2])] c)"
proof -
  let ?c = "snd (mumble_user_get 7 (mumble_client_new 1 5 735 0 0))"
  have "users ?c 7 = Some (new_user 7)" by (simp add: mumble_client_new_def mumble_user_get_def Let_def)
  moreover have "memory sample_world" by (simp add: sample_world_def)
  ultimately show ?thesis
    using listen_sends_last [of ?c 7 "new_user 7" sample_world "[1, 2]" sample_env]
    by (simp add: new_user_def Let_def numeral_2_eq_2)
qed

end
