(* ===== verification/Channels.thy ===== *)
theory Channels
  imports Users
begin

text \<open>
  The methods of channel objects (\<open>mumble/channel.c\<close>) and their table, in the conventions of the
  user methods. The call of a channel with a path walks the tree of channels; \<open>strtok\<close> writes into
  the string of the caller, which \<open>channel_walk\<close> returns with the channel it finds.
\<close>

section \<open>Requests to the server\<close>

type_synonym channel_method = "env \<Rightarrow> world \<Rightarrow> channel \<Rightarrow> lval list \<Rightarrow> client \<Rightarrow> binding_result"

definition channel_message :: channel_method where
  "channel_message E W ch args c =
     check_then (check_string args 2) (\<lambda>message.
       with_memory W
         (returns [] (packet_send PACKET_TEXTMESSAGE
           [(''channel_id'', PList [PU32 (c_channel_id ch)]), (''message'', PStr message)] c)))"

text \<open>\<open>lua_tostring\<close> of what is neither a string nor a number is NULL, and no description is sent.\<close>

definition to_string :: "env \<Rightarrow> lval list \<Rightarrow> nat \<Rightarrow> cstr option" where
  "to_string E args n =
     (case arg args n of
        Some (LStr s) \<Rightarrow> Some (c_string s)
      | Some (LInt i) \<Rightarrow> Some (number_text E (LInt i))
      | Some (LNum d) \<Rightarrow> Some (number_text E (LNum d))
      | _ \<Rightarrow> None)"

definition channel_setDescription :: channel_method where
  "channel_setDescription E W ch args c =
     returns [] (packet_send PACKET_CHANNELSTATE
       ((''channel_id'', PU32 (c_channel_id ch)) #
        (case to_string E args 2 of None \<Rightarrow> [] | Some s \<Rightarrow> [(''description'', PStr s)])) c)"

definition channel_remove :: channel_method where
  "channel_remove E W ch args c =
     returns [] (packet_send PACKET_CHANNELREMOVE [(''channel_id'', PU32 (c_channel_id ch))] c)"

definition channel_link :: channel_method where
  "channel_link E W ch args c = do {
     links \<leftarrow> channel_ids E W args;
     check_then links (\<lambda>ids.
       returns [] (packet_send PACKET_CHANNELSTATE
         ((''channel_id'', PU32 (c_channel_id ch)) # repeated ''links_add'' ids) c))
   }"

definition channel_unlink :: channel_method where
  "channel_unlink E W ch args c = do {
     links \<leftarrow> channel_ids E W args;
     check_then links (\<lambda>ids.
       returns [] (packet_send PACKET_CHANNELSTATE
         ((''channel_id'', PU32 (c_channel_id ch)) # repeated ''links_remove'' ids) c))
   }"

definition channel_requestACL :: channel_method where
  "channel_requestACL E W ch args c =
     returns [] (packet_send PACKET_ACL
       [(''channel_id'', PU32 (c_channel_id ch)), (''query'', PBool True)] c)"

definition channel_requestPermissions :: channel_method where
  "channel_requestPermissions E W ch args c =
     returns [] (packet_send PACKET_PERMISSIONQUERY [(''channel_id'', PU32 (c_channel_id ch))] c)"

definition channel_requestDescriptionBlob :: channel_method where
  "channel_requestDescriptionBlob E W ch args c =
     with_memory W
       (returns [] (packet_send PACKET_REQUESTBLOB
         [(''channel_description'', PList [PU32 (c_channel_id ch)])] c))"

text \<open>
  The parent, the position, the limit and the temporary flag are assigned without their \<open>has_\<close>
  flags; the arguments are tested, and only the two strings are packed.
\<close>

definition channel_create :: channel_method where
  "channel_create E W ch args c =
     check_then (check_string args 2) (\<lambda>name.
       check_then (opt_string args 3 []) (\<lambda>description.
         check_then (opt_integer args 4 0) (\<lambda>position.
           check_then (luaL_optboolean args 5 False) (\<lambda>temporary.
             check_then (opt_integer args 6 0) (\<lambda>max_users.
               returns [] (packet_send PACKET_CHANNELSTATE
                 [(''name'', PStr name), (''description'', PStr description)] c))))))"

definition channel_contextAction :: channel_method where
  "channel_contextAction E W ch args c =
     check_then (check_string args 2) (\<lambda>action.
       returns [] (packet_send PACKET_CONTEXTACTION
         [(''channel_id'', PU32 (c_channel_id ch)), (''action'', PStr action)] c))"

section \<open>Reading the channel\<close>

definition channel_getClient :: channel_method where
  "channel_getClient E W ch args c = returns [LClient (self c)] c"

definition channel_getName :: channel_method where
  "channel_getName E W ch args c = returns [vstr (c_name ch)] c"

definition channel_getId :: channel_method where
  "channel_getId E W ch args c = returns [vint (c_channel_id ch)] c"

definition channel_getParent :: channel_method where
  "channel_getParent E W ch args c =
     (if c_channel_id ch = c_parent ch then returns [LNil] c
      else returns [mumble_channel_raw_get c (c_parent ch)] c)"

text \<open>The loops over the lists of the client; every key of a list has an entry in the table.\<close>

definition is_child :: "client \<Rightarrow> u32 \<Rightarrow> u32 \<Rightarrow> bool" where
  "is_child c i j =
     (case channels c j of
        None \<Rightarrow> False | Some chan \<Rightarrow> c_channel_id chan \<noteq> c_parent chan \<and> c_parent chan = i)"

definition channel_getChildren :: channel_method where
  "channel_getChildren E W ch args c =
     returns [array_table
       (map (mumble_channel_raw_get c) (filter (is_child c (c_channel_id ch)) (channel_list c)))] c"

definition is_inside :: "client \<Rightarrow> u32 \<Rightarrow> u32 \<Rightarrow> bool" where
  "is_inside c i s = (case users c s of None \<Rightarrow> False | Some u \<Rightarrow> u_channel_id u = i)"

definition channel_getUsers :: channel_method where
  "channel_getUsers E W ch args c =
     returns [array_table
       (map (mumble_user_raw_get c) (filter (is_inside c (c_channel_id ch)) (user_list c)))] c"

definition channel_getDescription :: channel_method where
  "channel_getDescription E W ch args c = returns [vstr (c_description ch)] c"

text \<open>Members a new channel does not set are \<open>None\<close> until the server sends them.\<close>

definition channel_getDescriptionHash :: channel_method where
  "channel_getDescriptionHash E W ch args c = do {
     n \<leftarrow> c_description_hash_len ch;
     push_hash W (c_description_hash ch) n c
   }"

definition channel_isTemporary :: channel_method where
  "channel_isTemporary E W ch args c = returns [LBool (c_temporary ch)] c"

definition channel_getPosition :: channel_method where
  "channel_getPosition E W ch args c = returns [vsint (c_position ch)] c"

definition channel_getMaxUsers :: channel_method where
  "channel_getMaxUsers E W ch args c = returns [vint (c_max_users ch)] c"

definition channel_getLinks :: channel_method where
  "channel_getLinks E W ch args c =
     returns [new_table (map (\<lambda>i. (KInt (uint i), mumble_channel_raw_get c i)) (c_links ch))] c"

definition channel_isEnterRestricted :: channel_method where
  "channel_isEnterRestricted E W ch args c = returns [LBool (c_is_enter_restricted ch)] c"

definition channel_canEnter :: channel_method where
  "channel_canEnter E W ch args c = do { b \<leftarrow> c_can_enter ch; returns [LBool b] c }"

definition channel_getPermissions :: channel_method where
  "channel_getPermissions E W ch args c = returns [vint (c_permissions ch)] c"

definition channel_hasPermission :: channel_method where
  "channel_hasPermission E W ch args c =
     check_then (check_integer args 2) (\<lambda>flag.
       returns [LBool (c_permissions ch AND word_of_int flag \<noteq> 0)] c)"

text \<open>
  A volume adjustment is handed to the packer of user states, which asserts the type of its message: the
  program is stopped there.
\<close>

definition channel_setListeningVolumeAdjustment :: channel_method where
  "channel_setListeningVolumeAdjustment E W ch args c = check_then (check_number args 2) (\<lambda>adjustment. None)"

definition channel_getListeningVolumeAdjustment :: channel_method where
  "channel_getListeningVolumeAdjustment E W ch args c = do {
     v \<leftarrow> c_listening_volume_adjustment ch;
     returns [LNum (d_of_float E v)] c
   }"

definition channel_tostring :: channel_method where
  "channel_tostring E W ch args c =
     returns [LStr (object_text ''mumble.channel'' (c_channel_id ch) (c_name ch)
       (pointer_text E (LChan (c_channel_id ch))))] c"

text \<open>The collector frees the strings, clears the links and drops the table of the object.\<close>

definition channel_gc :: "channel \<Rightarrow> channel" where
  "channel_gc ch =
     ch \<lparr> c_name := None, c_description := None, c_description_hash := [], c_links := [], c_data := [] \<rparr>"

section \<open>Paths\<close>

text \<open>
  \<open>strtok\<close> with the delimiters slash and backslash, on the bytes of a string and a position in it:
  the token, the bytes with the delimiter behind it overwritten and the position to go on from.
\<close>

definition is_delimiter :: "u8 \<Rightarrow> bool" where
  "is_delimiter b \<longleftrightarrow> b = 0x2F \<or> b = 0x5C"

definition strtok :: "u8 list \<Rightarrow> nat \<Rightarrow> (cstr \<times> u8 list \<times> nat) option" where
  "strtok route pos =
     (let start = pos + length (takeWhile is_delimiter (drop pos route));
          token = takeWhile (\<lambda>b. b \<noteq> 0 \<and> \<not> is_delimiter b) (drop start route);
          stop = start + length token
      in if token = [] then None
         else if stop < length route \<and> route ! stop \<noteq> 0 then Some (token, route[stop := 0], stop + 1)
         else Some (token, route, stop))"

text \<open>One component: the channel itself, its parent, or its child of the name, the last in the list.\<close>

definition named_child :: "client \<Rightarrow> u32 \<Rightarrow> cstr \<Rightarrow> u32 \<Rightarrow> bool" where
  "named_child c i name j \<longleftrightarrow>
     is_child c i j \<and> (case channels c j of None \<Rightarrow> False | Some chan \<Rightarrow> c_name chan = Some name)"

definition path_step :: "client \<Rightarrow> u32 \<Rightarrow> cstr \<Rightarrow> u32 option" where
  "path_step c i pch =
     (if pch = bytes_of ''.'' then Some i
      else if pch = bytes_of ''..'' then
        (case channels c i of
           None \<Rightarrow> None
         | Some ch \<Rightarrow> (case mumble_channel_raw_get c (c_parent ch) of LChan p \<Rightarrow> Some p | _ \<Rightarrow> None))
      else fold (\<lambda>j current. if named_child c i pch j then Some j else current) (channel_list c) None)"

function channel_walk :: "client \<Rightarrow> u32 \<Rightarrow> u8 list \<Rightarrow> nat \<Rightarrow> lval \<times> u8 list" where
  "channel_walk c i route pos =
     (case strtok route pos of
        None \<Rightarrow> (mumble_channel_raw_get c i, route)
      | Some (pch, route, pos) \<Rightarrow>
          (case path_step c i pch of
             None \<Rightarrow> (LNil, route)
           | Some j \<Rightarrow> channel_walk c j route pos))"
  by pat_completeness auto

lemma strtok_advances:
  "strtok route pos = Some (pch, route', pos') \<Longrightarrow> pos < pos' \<and> pos < length route \<and> length route' = length route"
proof -
  assume s: "strtok route pos = Some (pch, route', pos')"
  let ?start = "pos + length (takeWhile is_delimiter (drop pos route))"
  let ?token = "takeWhile (\<lambda>b. b \<noteq> 0 \<and> \<not> is_delimiter b) (drop ?start route)"
  have "?token \<noteq> []" using s by (auto simp: strtok_def Let_def split: if_splits)
  then have "drop ?start route \<noteq> []" by (intro notI) simp
  then have "?start < length route" by simp
  moreover have "pos' \<ge> ?start + length ?token" "length route' = length route"
    using s by (auto simp: strtok_def Let_def split: if_splits)
  ultimately show ?thesis using \<open>?token \<noteq> []\<close> by (cases ?token) auto
qed

termination channel_walk
  by (relation "measure (\<lambda>(c, i, route, pos). length route - pos)") (auto dest: strtok_advances)

declare channel_walk.simps [simp del]

definition channel_call :: channel_method where
  "channel_call E W ch args c =
     check_then (opt_string args 2 (bytes_of ''.'')) (\<lambda>route.
       returns [fst (channel_walk c (c_channel_id ch) route 0)] c)"

section \<open>The table of methods\<close>

definition channel_newindex :: channel_method where
  "channel_newindex E W ch args c = do {
     data \<leftarrow> object_newindex (c_data ch) args;
     check_then data (\<lambda>data. returns [] (put_channel (c_channel_id ch) (ch \<lparr> c_data := data \<rparr>) c))
   }"

definition mumble_channel :: "(string \<times> channel_method) list" where
  "mumble_channel =
     [(''message'', channel_message), (''setDescription'', channel_setDescription),
      (''remove'', channel_remove), (''getClient'', channel_getClient), (''getName'', channel_getName),
      (''getId'', channel_getId), (''getID'', channel_getId), (''getParent'', channel_getParent),
      (''getChildren'', channel_getChildren), (''getUsers'', channel_getUsers),
      (''getDescription'', channel_getDescription),
      (''getDescriptionHash'', channel_getDescriptionHash), (''isTemporary'', channel_isTemporary),
      (''getPosition'', channel_getPosition), (''getMaxUsers'', channel_getMaxUsers),
      (''link'', channel_link), (''unlink'', channel_unlink), (''getLinks'', channel_getLinks),
      (''isEnterRestricted'', channel_isEnterRestricted), (''canEnter'', channel_canEnter),
      (''requestACL'', channel_requestACL), (''requestPermissions'', channel_requestPermissions),
      (''getPermissions'', channel_getPermissions), (''hasPermission'', channel_hasPermission),
      (''hasPermissions'', channel_hasPermission),
      (''setListeningVolumeAdjustment'', channel_setListeningVolumeAdjustment),
      (''getListeningVolumeAdjustment'', channel_getListeningVolumeAdjustment),
      (''requestDescriptionBlob'', channel_requestDescriptionBlob), (''create'', channel_create),
      (''contextAction'', channel_contextAction), (''__call'', channel_call),
      (''__tostring'', channel_tostring), (''__newindex'', channel_newindex)]"

text \<open>
  The table also has \<open>__gc\<close> and \<open>__index\<close>.
\<close>

definition channel_index :: channel_method where
  "channel_index E W ch args c = do {
     v \<leftarrow> object_index
       (map fst mumble_channel @ [''__gc'', ''__index'']) (c_data ch) args;
     returns [v] c
   }"

definition channel_method_call :: "string \<Rightarrow> env \<Rightarrow> world \<Rightarrow> lval list \<Rightarrow> client \<Rightarrow> binding_result" where
  "channel_method_call name E W args c =
     (case map_of mumble_channel name of
        None \<Rightarrow> None
      | Some m \<Rightarrow>
          (case arg args 1 of
             Some (LChan i) \<Rightarrow> (case channels c i of None \<Rightarrow> None | Some ch \<Rightarrow> m E W ch args c)
           | _ \<Rightarrow> raises (BadArgument 1 ''mumble.channel expected'')))"


section \<open>Every method returns a typed result\<close>

definition typed_channel :: "channel_method \<Rightarrow> bool" where
  "typed_channel m \<longleftrightarrow>
     (\<forall>E W ch args c i. client_ok c \<longrightarrow> channels c i = Some ch \<longrightarrow> all_some (result_ok c) (m E W ch args c))"

lemma typed_channel_requests:
  "typed_channel channel_message" "typed_channel channel_setDescription" "typed_channel channel_remove"
  "typed_channel channel_link" "typed_channel channel_unlink" "typed_channel channel_requestACL"
  "typed_channel channel_requestPermissions" "typed_channel channel_requestDescriptionBlob"
  "typed_channel channel_create" "typed_channel channel_contextAction"
  unfolding typed_channel_def channel_message_def channel_setDescription_def channel_remove_def
    channel_link_def channel_unlink_def channel_requestACL_def channel_requestPermissions_def
    channel_requestDescriptionBlob_def channel_create_def channel_contextAction_def
  by (intro allI impI wp binding_ok; assumption)+

lemma typed_channel_getters:
  "typed_channel channel_getClient" "typed_channel channel_getName" "typed_channel channel_getId"
  "typed_channel channel_getDescription" "typed_channel channel_isTemporary"
  "typed_channel channel_getPosition" "typed_channel channel_getMaxUsers"
  "typed_channel channel_isEnterRestricted" "typed_channel channel_getPermissions"
  "typed_channel channel_tostring"
  unfolding typed_channel_def channel_getClient_def channel_getName_def channel_getId_def
    channel_getDescription_def channel_isTemporary_def channel_getPosition_def channel_getMaxUsers_def
    channel_isEnterRestricted_def channel_getPermissions_def channel_tostring_def
  by (intro allI impI returns_ok; simp)+

lemma typed_channel_partial:
  "typed_channel channel_getDescriptionHash" "typed_channel channel_canEnter"
  "typed_channel channel_hasPermission" "typed_channel channel_getListeningVolumeAdjustment"
  "typed_channel channel_setListeningVolumeAdjustment"
  unfolding typed_channel_def channel_getDescriptionHash_def channel_canEnter_def
    channel_hasPermission_def channel_getListeningVolumeAdjustment_def channel_setListeningVolumeAdjustment_def
  by (intro allI impI all_some_bind_any binding_ok; simp add: all_some_def)+

lemma walk_typed: "value_ok c (fst (channel_walk c i route pos))"
proof (induction c i route pos rule: channel_walk.induct)
  case (1 c i route pos)
  then show ?case
    by (cases "strtok route pos")
      (auto simp: channel_walk.simps [of c i route] split: option.splits)
qed

lemma typed_channel_tree:
  "typed_channel channel_getParent" "typed_channel channel_getChildren" "typed_channel channel_getUsers"
  "typed_channel channel_getLinks" "typed_channel channel_call"
  unfolding typed_channel_def channel_getParent_def channel_getChildren_def channel_getUsers_def
    channel_getLinks_def channel_call_def
  by (intro allI impI all_some_if binding_ok;
      auto intro!: value_ok_new_table value_ok_array_table simp: walk_typed)+

lemma put_channel_result_ok:
  assumes "client_ok c" "channel_ok i ch"
  shows "result_ok c (Inr ([], put_channel i ch c))"
proof -
  have "dom (channels (put_channel i ch c)) = dom (channels c)" by (auto simp: put_channel_def domIff)
  with assms show ?thesis by (simp add: result_ok_def client_ok_put_channel)
qed

lemma typed_channel_newindex: "typed_channel channel_newindex"
  unfolding typed_channel_def channel_newindex_def
  by (intro allI impI wp check_then_ok)
    (auto simp: channel_ok_def intro!: put_channel_result_ok)

lemma typed_channel_table: "list_all typed_channel (map snd mumble_channel)"
  unfolding mumble_channel_def
  by (simp add: typed_channel_requests typed_channel_getters typed_channel_partial typed_channel_tree
      typed_channel_newindex)

section \<open>What a path means\<close>

text \<open>
  The reference, which uses nothing of the walk. The components of a path are the parts between
  slashes (\<open>0x2F\<close>) and backslashes (\<open>0x5C\<close>) that are not empty. A component leads from a channel to itself when it is
  a dot (\<open>0x2E\<close>), to its parent when it is two dots, if the client has that one, and else to the child of this name,
  a channel that is not its own parent; of several the one that comes last in the list. A path is followed
  component by component. An id from \<open>2 ^ 31\<close> on is a negative key for Lua, under which nothing is found.
\<close>

fun split_tokens :: "cstr \<Rightarrow> cstr \<Rightarrow> cstr list" where
  "split_tokens acc [] = [acc]"
| "split_tokens acc (b # bs) =
     (if b = 0x2F \<or> b = 0x5C then acc # split_tokens [] bs else split_tokens (acc @ [b]) bs)"

definition path_tokens :: "cstr \<Rightarrow> cstr list" where
  "path_tokens s = filter (\<lambda>t. t \<noteq> []) (split_tokens [] s)"

inductive leads_to :: "client \<Rightarrow> u32 \<Rightarrow> cstr \<Rightarrow> u32 \<Rightarrow> bool" for c where
  itself: "leads_to c i [0x2E] i"
| parent: "channels c i = Some ch \<Longrightarrow> channels c (c_parent ch) \<noteq> None \<Longrightarrow> unat (c_parent ch) < 2 ^ 31 \<Longrightarrow>
    leads_to c i [0x2E, 0x2E] (c_parent ch)"
| child: "t \<noteq> [0x2E] \<Longrightarrow> t \<noteq> [0x2E, 0x2E] \<Longrightarrow> channel_list c = newer @ j # older \<Longrightarrow>
    channels c j = Some ch \<Longrightarrow> c_name ch = Some t \<Longrightarrow> c_parent ch = i \<Longrightarrow> j \<noteq> i \<Longrightarrow>
    \<forall>k\<in>set older. \<forall>ch'. channels c k = Some ch' \<longrightarrow> \<not> (c_name ch' = Some t \<and> c_parent ch' = i \<and> k \<noteq> i) \<Longrightarrow>
    leads_to c i t j"

inductive_cases leads_to_cases: "leads_to c i t j"

inductive follows :: "client \<Rightarrow> u32 \<Rightarrow> cstr list \<Rightarrow> u32 \<Rightarrow> bool" for c where
  ends: "follows c i [] i"
| goes: "leads_to c i t j \<Longrightarrow> follows c j ts k \<Longrightarrow> follows c i (t # ts) k"

inductive_simps follows_simps [simp]: "follows c i [] k" "follows c i (t # ts) k"

lemma last_in_list_from:
  "fold (\<lambda>j current. if P j then Some j else current) xs r = Some j \<longleftrightarrow>
   (\<exists>newer older. xs = newer @ j # older \<and> P j \<and> (\<forall>k\<in>set older. \<not> P k)) \<or> r = Some j \<and> (\<forall>k\<in>set xs. \<not> P k)"
proof (induction xs arbitrary: r)
  case (Cons x xs)
  have "(\<exists>newer older. x # xs = newer @ j # older \<and> P j \<and> (\<forall>k\<in>set older. \<not> P k)) \<longleftrightarrow>
      (\<exists>newer older. xs = newer @ j # older \<and> P j \<and> (\<forall>k\<in>set older. \<not> P k)) \<or>
      x = j \<and> P j \<and> (\<forall>k\<in>set xs. \<not> P k)"
    by (auto simp: Cons_eq_append_conv)
  then show ?case by (auto simp: Cons.IH)
qed simp

lemma last_in_list:
  "fold (\<lambda>j current. if P j then Some j else current) xs None = Some j \<longleftrightarrow>
   (\<exists>newer older. xs = newer @ j # older \<and> P j \<and> (\<forall>k\<in>set older. \<not> P k))"
  by (simp add: last_in_list_from)

text \<open>The walk, as it goes over the components.\<close>

fun path_resolve :: "client \<Rightarrow> u32 \<Rightarrow> cstr list \<Rightarrow> u32 option" where
  "path_resolve c i [] = Some i"
| "path_resolve c i (t # ts) =
     (case path_step c i t of None \<Rightarrow> None | Some j \<Rightarrow> path_resolve c j ts)"

definition found :: "client \<Rightarrow> u32 option \<Rightarrow> lval" where
  "found c r = (case r of None \<Rightarrow> LNil | Some j \<Rightarrow> mumble_channel_raw_get c j)"

lemma negative_id: "sint (i :: u32) < 0 \<longleftrightarrow> \<not> unat i < 2147483648"
proof -
  have "uint i < 2 ^ 32" using uint_lt2p [of i] by simp
  then have d: "uint i div 2 ^ 31 = (if uint i < 2147483648 then 0 else 1)"
    using int_div_pos_eq [of "uint i" 2147483648 1 "uint i - 2147483648"] by (simp add: div_pos_pos_trivial)
  have "bit (uint i) 31 \<longleftrightarrow> odd (uint i div 2 ^ 31)" by (rule bit_iff_odd)
  also have "\<dots> \<longleftrightarrow> \<not> uint i < 2147483648" unfolding d by simp
  finally have b: "bit (uint i) 31 \<longleftrightarrow> \<not> uint i < 2147483648" .
  have "sint i < 0 \<longleftrightarrow> bit (uint i) 31"
    by (simp add: sint_uint)
  moreover have "unat i < 2147483648 \<longleftrightarrow> uint i < 2147483648"
    using of_nat_less_iff [of "unat i" 2147483648, where 'a = int] by simp
  ultimately show ?thesis using b by blast
qed

lemma dots: "bytes_of ''.'' = [0x2E]" "bytes_of ''..'' = [0x2E, 0x2E]"
  by (simp_all add: bytes_of_def of_char_def)

lemma path_step_leads:
  assumes "client_ok c" "channels c i \<noteq> None"
  shows "path_step c i t = Some j \<longleftrightarrow> leads_to c i t j"
proof -
  have named: "named_child c i t k \<longleftrightarrow> (\<exists>ch. channels c k = Some ch \<and> c_name ch = Some t \<and> c_parent ch = i \<and> k \<noteq> i)" for k
    using client_okD(2) [OF assms(1)]
    by (auto simp: named_child_def is_child_def channel_ok_def split: option.splits)
  consider "t = [0x2E]" | "t = [0x2E, 0x2E]" | "t \<noteq> [0x2E]" "t \<noteq> [0x2E, 0x2E]" by blast
  then show ?thesis
  proof cases
    case 1
    then show ?thesis
      by (auto simp: path_step_def dots intro: leads_to.itself elim: leads_to_cases)
  next
    case 2
    then show ?thesis
      using assms(2)
      by (auto simp: path_step_def dots mumble_channel_raw_get_def negative_id intro: leads_to.parent
          elim!: leads_to_cases split: option.splits)
  next
    case 3
    then have "path_step c i t = Some j \<longleftrightarrow> (\<exists>newer older. channel_list c = newer @ j # older \<and>
        named_child c i t j \<and> (\<forall>k\<in>set older. \<not> named_child c i t k))"
      by (simp add: path_step_def dots last_in_list)
    also have "\<dots> \<longleftrightarrow> leads_to c i t j"
      unfolding named using 3 by (auto intro: leads_to.child elim!: leads_to_cases)
    finally show ?thesis .
  qed
qed

lemma leads_to_known: "client_ok c \<Longrightarrow> leads_to c i t j \<Longrightarrow> channels c i \<noteq> None \<Longrightarrow> channels c j \<noteq> None"
  by (auto elim!: leads_to_cases)

lemma path_resolve_follows:
  assumes "client_ok c" "channels c i \<noteq> None"
  shows "path_resolve c i ts = Some k \<longleftrightarrow> follows c i ts k"
  using assms(2)
proof (induction ts arbitrary: i)
  case (Cons t ts)
  have "path_resolve c i (t # ts) = Some k \<longleftrightarrow> (\<exists>j. path_step c i t = Some j \<and> path_resolve c j ts = Some k)"
    by (simp split: option.split)
  also have "\<dots> \<longleftrightarrow> (\<exists>j. leads_to c i t j \<and> follows c j ts k)"
    unfolding path_step_leads [OF assms(1) Cons.prems]
    using Cons.IH leads_to_known [OF assms(1) _ Cons.prems] by blast
  finally show ?case by simp
qed auto

lemma follows_known: "follows c i ts k \<Longrightarrow> client_ok c \<Longrightarrow> channels c i \<noteq> None \<Longrightarrow> channels c k \<noteq> None"
  by (induction rule: follows.induct) (auto dest: leads_to_known)

lemma path_tokens_delimiters:
  "\<forall>b\<in>set ds. is_delimiter b \<Longrightarrow> path_tokens (ds @ bs) = path_tokens bs"
  by (induction ds) (simp_all add: path_tokens_def is_delimiter_def)

lemma split_tokens_token:
  "\<forall>b\<in>set t. \<not> is_delimiter b \<Longrightarrow> split_tokens acc (t @ bs) = split_tokens (acc @ t) bs"
  by (induction t arbitrary: acc) (simp_all add: is_delimiter_def)

lemma path_tokens_token:
  assumes "\<forall>b\<in>set t. \<not> is_delimiter b" "t \<noteq> []"
  shows "path_tokens t = [t]" "is_delimiter d \<Longrightarrow> path_tokens (t @ d # bs) = t # path_tokens bs"
  using split_tokens_token [OF assms(1), of "[]"] split_tokens_token [OF assms(1), of "[]" "[]"] assms(2)
  by (simp_all add: path_tokens_def) (auto simp: path_tokens_def is_delimiter_def)

lemma strtok_run:
  assumes "0 \<notin> set (drop pos route)"
  shows "case strtok route pos of
      None \<Rightarrow> path_tokens (drop pos route) = []
    | Some (t, route', pos') \<Rightarrow>
        path_tokens (drop pos route) = t # path_tokens (drop pos' route') \<and>
        drop pos' route' = drop pos' route \<and> take pos route' = take pos route"
proof -
  let ?rest = "drop pos route"
  define ds where "ds = takeWhile is_delimiter ?rest"
  define r where "r = dropWhile is_delimiter ?rest"
  define t where "t = takeWhile (\<lambda>b. \<not> is_delimiter b) r"
  define e where "e = dropWhile (\<lambda>b. \<not> is_delimiter b) r"
  have parts: "?rest = ds @ t @ e" "r = t @ e" by (simp_all add: ds_def t_def e_def r_def)
  have ds: "\<forall>b\<in>set ds. is_delimiter b" and td: "\<forall>b\<in>set t. \<not> is_delimiter b"
    unfolding ds_def t_def by (auto dest: set_takeWhileD)
  have e: "e \<noteq> [] \<Longrightarrow> is_delimiter (hd e)" using hd_dropWhile [of "\<lambda>b. \<not> is_delimiter b" r] unfolding e_def by blast
  have start: "drop (pos + length ds) route = r"
    using parts by (metis append_eq_conv_conj drop_drop add.commute)
  have nz: "0 \<notin> set r" using assms parts by auto
  then have tok: "takeWhile (\<lambda>b. b \<noteq> 0 \<and> \<not> is_delimiter b) r = t"
    unfolding t_def by (intro takeWhile_cong) auto
  define stop where "stop = pos + length ds + length t"
  have dstop: "drop stop route = e"
    using start parts(2) by (metis append_eq_conv_conj drop_drop add.commute stop_def)
  have unfolded: "strtok route pos = (if t = [] then None
      else if stop < length route \<and> route ! stop \<noteq> 0 then Some (t, route[stop := 0], stop + 1)
      else Some (t, route, stop))"
    unfolding strtok_def Let_def ds_def [symmetric] start tok stop_def ..
  show ?thesis
  proof (cases "t = []")
    case True
    then have "r = [] \<or> is_delimiter (hd r)" using e parts(2) by (cases "e = []") auto
    moreover have "r \<noteq> [] \<Longrightarrow> \<not> is_delimiter (hd r)" unfolding r_def by (rule hd_dropWhile)
    ultimately have "r = []" by blast
    with parts ds have "path_tokens ?rest = []"
      using path_tokens_delimiters [of ds "[]"] by (simp add: path_tokens_def)
    then show ?thesis by (simp add: unfolded True)
  next
    case False
    show ?thesis
    proof (cases e)
      case Nil
      then have "\<not> stop < length route" using dstop by simp
      moreover have "path_tokens ?rest = [t]"
        unfolding parts(1) Nil using path_tokens_delimiters [OF ds] path_tokens_token(1) [OF td False] by simp
      moreover have "drop stop route = []" using dstop Nil by simp
      ultimately show ?thesis by (simp add: unfolded False path_tokens_def)
    next
      case (Cons d es)
      then have s: "stop < length route" "route ! stop = d"
        using dstop by (metis drop_all linorder_not_less list.distinct(1), metis hd_drop_conv_nth drop_all linorder_not_less list.distinct(1) list.sel(1))
      have d: "is_delimiter d" "d \<noteq> 0" using e Cons nz parts(2) by auto
      have es: "drop (stop + 1) route = es" using dstop Cons by (metis drop_drop drop_Suc_Cons drop0 One_nat_def plus_1_eq_Suc)
      have "path_tokens ?rest = t # path_tokens es"
        unfolding parts(1) Cons using path_tokens_delimiters [OF ds] path_tokens_token(2) [OF td False d(1)] by simp
      then show ?thesis using s d es by (simp add: unfolded False stop_def)
    qed
  qed
qed

lemma strtok_keeps: "strtok route pos = Some (t, route', pos') \<Longrightarrow> take pos route' = take pos route"
  by (auto simp: strtok_def Let_def split: if_splits)

lemma walk_resolves:
  "0 \<notin> set (drop pos route) \<Longrightarrow>
   fst (channel_walk c i route pos) = found c (path_resolve c i (path_tokens (drop pos route)))"
proof (induction c i route pos rule: channel_walk.induct)
  case (1 c i route pos)
  show ?case
  proof (cases "strtok route pos")
    case None
    then show ?thesis
      using strtok_run [OF 1(2)] by (simp add: channel_walk.simps [of c i route] found_def)
  next
    case (Some r)
    then obtain t route' pos' where r: "strtok route pos = Some (t, route', pos')" by (cases r) auto
    have run: "path_tokens (drop pos route) = t # path_tokens (drop pos' route')"
        "drop pos' route' = drop pos' route"
      using strtok_run [OF 1(2)] r by simp_all
    have "pos < pos'" using strtok_advances [OF r] by simp
    then have "set (drop pos' route) \<subseteq> set (drop pos route)"
      using set_drop_subset_set_drop [of pos pos' route] by simp
    then have "0 \<notin> set (drop pos' route')" using 1(2) run(2) by auto
    then show ?thesis
      using 1(1) [OF r] r run(1)
      by (cases "path_step c i t") (auto simp: channel_walk.simps [of c i route] found_def)
  qed
qed

lemma walk_keeps:
  "take pos (snd (channel_walk c i route pos)) = take pos route \<and>
   length (snd (channel_walk c i route pos)) = length route"
proof (induction c i route pos rule: channel_walk.induct)
  case (1 c i route pos)
  show ?case
  proof (cases "strtok route pos")
    case (Some r)
    then obtain t route' pos' where r: "strtok route pos = Some (t, route', pos')" by (cases r) auto
    have p: "pos < pos'" "length route' = length route" using strtok_advances [OF r] by simp_all
    show ?thesis
    proof (cases "path_step c i t")
      case (Some j)
      then have IH: "take pos' (snd (channel_walk c j route' pos')) = take pos' route'"
          "length (snd (channel_walk c j route' pos')) = length route'"
        using 1 [OF r] by auto
      then have "take pos (snd (channel_walk c j route' pos')) = take pos route'"
        using p(1) by (metis min.strict_order_iff take_take)
      with IH p strtok_keeps [OF r] show ?thesis
        by (simp add: channel_walk.simps [of c i route] r Some)
    qed (use p strtok_keeps [OF r] in \<open>simp add: channel_walk.simps [of c i route] r\<close>)
  qed (simp add: channel_walk.simps [of c i route])
qed

text \<open>A call, whatever the string holds behind its first zero byte.\<close>

lemma call_resolves:
  assumes "client_ok c" "channels c i = Some ch"
  shows "channel_method_call ''__call'' E W [LChan i, LStr s] c =
    returns [found c (path_resolve c i (path_tokens (c_string s)))] c"
proof -
  have "c_channel_id ch = i" using client_okD(2) [OF assms] by (simp add: channel_ok_def)
  moreover have "map_of mumble_channel ''__call'' = Some channel_call" by (simp add: mumble_channel_def)
  moreover have "0 \<notin> set (c_string s)" by (auto simp: c_string_def dest: set_takeWhileD)
  ultimately show ?thesis
    using assms(2) walk_resolves [of 0 "c_string s" c i]
    by (simp add: channel_method_call_def arg_def channel_call_def opt_string_def absent_def
        check_string_def check_lstring_def check_then_def numeral_2_eq_2)
qed

lemma c_string_clean: "0 \<notin> set s \<Longrightarrow> c_string s = s"
  by (auto simp: c_string_def takeWhile_eq_all_conv)

lemma strtok_cuts:
  assumes "0 \<notin> set s" "strtok s 0 = Some (t, s1, p1)" "drop p1 s1 \<noteq> []"
  shows "\<exists>ds. take p1 s1 = ds @ t @ [0] \<and> (\<forall>b\<in>set ds. is_delimiter b) \<and> (\<forall>b\<in>set t. \<not> is_delimiter b) \<and>
    t \<noteq> [] \<and> 0 \<notin> set (ds @ t)"
proof -
  define ds where "ds = takeWhile is_delimiter s"
  define stop where "stop = length ds + length t"
  have t: "t = takeWhile (\<lambda>b. b \<noteq> 0 \<and> \<not> is_delimiter b) (drop (length ds) s)" "t \<noteq> []"
    using assms(2) by (auto simp: strtok_def Let_def ds_def split: if_splits)
  have nz: "s ! k \<noteq> 0" if "k < length s" for k using assms(1) nth_mem [OF that] by auto
  have s1: "stop < length s" "s1 = s[stop := 0]" "p1 = Suc stop"
    using assms(2,3) t nz unfolding stop_def
    by (auto simp: strtok_def Let_def ds_def split: if_splits)
  have "take (length t) (drop (length ds) s) = t"
    unfolding t(1) by (metis takeWhile_eq_take)
  moreover have "take (length ds) s = ds" unfolding ds_def by (metis takeWhile_eq_take)
  ultimately have st: "take stop s = ds @ t" unfolding stop_def by (simp add: take_add)
  then have "take p1 s1 = ds @ t @ [0]"
    using s1 by (simp add: take_Suc_conv_app_nth)
  moreover have "0 \<notin> set (ds @ t)" using assms(1) st by (metis in_set_takeD)
  moreover have "\<forall>b\<in>set ds. is_delimiter b" "\<forall>b\<in>set t. \<not> is_delimiter b"
    unfolding ds_def t(1) by (auto dest: set_takeWhileD)
  ultimately show ?thesis using t(2) by blast
qed

section \<open>Properties\<close>

lemma channel_method_typed:
  assumes "client_ok c"
  shows "all_some (result_ok c) (channel_method_call name E W args c)"
proof (cases "map_of mumble_channel name")
  case None
  then show ?thesis by (simp add: channel_method_call_def wp)
next
  case (Some m)
  then have "m \<in> set (map snd mumble_channel)" by (force dest: map_of_SomeD)
  then have "typed_channel m" using typed_channel_table by (simp only: list_all_iff)
  then have "all_some (result_ok c) (m E W ch args c)" if "channels c i = Some ch" for i ch
    using assms that by (simp only: typed_channel_def)
  with Some show ?thesis
    by (auto simp: channel_method_call_def result_ok_raise wp split: option.splits lval.splits)
qed

text \<open>
  C9. Type soundness of the objects: whatever a script passes to a method of a user or a channel, a
  call that returns leaves the client well formed with the same users and channels, only adds to
  what was sent, and every user or channel object it hands to the script is one the client has.
\<close>

theorem method_call_typed:
  assumes "client_ok c"
  shows "all_some (result_ok c) (user_call name E W args c) \<and>
    all_some (result_ok c) (channel_method_call name E W args c)"
  using user_call_typed [OF assms] channel_method_typed [OF assms] by simp

text \<open>
  C27. Calling a channel with a path yields the channel that following the components of the path leads
  to, and nil when they lead nowhere or to an id Lua does not find.
\<close>

theorem path_resolved:
  assumes "client_ok c" "channels c i = Some ch" "0 \<notin> set s"
  shows "(\<forall>j. channel_method_call ''__call'' E W [LChan i, LStr s] c = returns [LChan j] c \<longleftrightarrow>
      follows c i (path_tokens s) j \<and> unat j < 2 ^ 31) \<and>
    (channel_method_call ''__call'' E W [LChan i, LStr s] c = returns [LNil] c \<longleftrightarrow>
      (\<nexists>j. follows c i (path_tokens s) j \<and> unat j < 2 ^ 31))"
proof -
  have i: "channels c i \<noteq> None" using assms(2) by simp
  have call: "channel_method_call ''__call'' E W [LChan i, LStr s] c =
      returns [found c (path_resolve c i (path_tokens s))] c"
    using call_resolves [OF assms(1,2)] by (simp add: c_string_clean [OF assms(3)])
  note res = path_resolve_follows [OF assms(1) i, of "path_tokens s"]
  have known: "channels c k \<noteq> None" if "follows c i (path_tokens s) k" for k
    using follows_known [OF that assms(1) i] .
  have chan: "found c (path_resolve c i (path_tokens s)) = LChan j \<longleftrightarrow>
      follows c i (path_tokens s) j \<and> unat j < 2 ^ 31" for j
    using res [of j] known [of j]
    by (cases "path_resolve c i (path_tokens s)")
      (auto simp: found_def mumble_channel_raw_get_def negative_id split: option.splits if_splits)
  have only: "found c r = LNil \<or> (\<exists>j. found c r = LChan j)" for r
    by (auto simp: found_def mumble_channel_raw_get_def split: option.splits)
  have "found c (path_resolve c i (path_tokens s)) = LNil \<longleftrightarrow> (\<nexists>j. follows c i (path_tokens s) j \<and> unat j < 2 ^ 31)"
    using chan only [of "path_resolve c i (path_tokens s)"] by force
  then show ?thesis using chan by (simp add: call)
qed

text \<open>
  The walk has overwritten the delimiter behind the first component in the string of the
  caller. The same string, used for a second call, leads no further than that component.
\<close>

theorem path_string_cut:
  assumes "client_ok c" "channels c i = Some ch" "0 \<notin> set s" "path_tokens s = t # ts" "ts \<noteq> []"
  shows "channel_method_call ''__call'' E W [LChan i, LStr (snd (channel_walk c i s 0))] c =
    returns [found c (path_step c i t)] c"
proof -
  have nz: "0 \<notin> set (drop 0 s)" using assms(3) by simp
  obtain t' s1 p1 where r: "strtok s 0 = Some (t', s1, p1)"
    using strtok_run [OF nz] assms(4) by (cases "strtok s 0") auto
  then have t: "t' = t" "path_tokens (drop p1 s1) = ts"
    using strtok_run [OF nz] assms(4) by simp_all
  have "drop p1 s1 \<noteq> []" using t(2) assms(5) by (auto simp: path_tokens_def)
  then obtain ds where ds: "take p1 s1 = ds @ t @ [0]" "\<forall>b\<in>set ds. is_delimiter b"
      "\<forall>b\<in>set t. \<not> is_delimiter b" "t \<noteq> []" "0 \<notin> set (ds @ t)"
    using strtok_cuts [OF assms(3) r] t(1) by blast
  let ?left = "snd (channel_walk c i s 0)"
  have "take p1 ?left = take p1 s1"
    using walk_keeps [of p1 c _ s1] r
    by (cases "path_step c i t'") (simp_all add: channel_walk.simps [of c i s])
  then have left: "?left = (ds @ t) @ 0 # drop p1 ?left"
    using ds(1) append_take_drop_id [of p1 ?left] by simp
  have "c_string ((ds @ t) @ 0 # bs) = ds @ t" for bs
    using c_string_clean [OF ds(5)] unfolding c_string_def by (simp only: takeWhile_tail not_True_eq_False refl simp_thms)
  then have "c_string ?left = ds @ t" using left by metis
  then have "path_tokens (c_string ?left) = [t]"
    using path_tokens_delimiters [OF ds(2)] path_tokens_token(1) [OF ds(3,4)] by simp
  then show ?thesis using call_resolves [OF assms(1,2), of E W ?left] by (auto split: option.splits)
qed

text \<open>
  The views of the tree agree: a channel is in the table of children of another exactly when
  that one is its parent, and a user is in the table of users of a channel exactly when that is the
  channel of the user.
\<close>

theorem tree_consistent:
  assumes "client_ok c" "channels c i \<noteq> None" "0 \<le> sint i"
  shows "(channels c j \<noteq> None \<and> 0 \<le> sint j \<longrightarrow>
      (\<exists>t k. channel_method_call ''getChildren'' E W [LChan i] c = returns [t] c \<and>
             get_field (KInt k) t = LChan j) =
      (channel_method_call ''getParent'' E W [LChan j] c = returns [LChan i] c)) \<and>
    (users c s \<noteq> None \<and> 0 \<le> sint s \<longrightarrow>
      (\<exists>t k. channel_method_call ''getUsers'' E W [LChan i] c = returns [t] c \<and>
             get_field (KInt k) t = LUser s) =
      (user_call ''getChannel'' E W [LUser s] c = returns [LChan i] c))"
proof (intro conjI impI)
  obtain ch where ch: "channels c i = Some ch" using assms(2) by auto
  then have id: "c_channel_id ch = i" using client_okD(2) [OF assms(1)] by (simp add: channel_ok_def)
  have lists: "set (channel_list c) = dom (channels c)" "set (user_list c) = dom (users c)"
    using assms(1) by (simp_all add: client_ok_def user_store.ok_def channel_store.ok_def)
  have methods: "map_of mumble_channel ''getChildren'' = Some channel_getChildren"
    "map_of mumble_channel ''getParent'' = Some channel_getParent"
    "map_of mumble_channel ''getUsers'' = Some channel_getUsers"
    "map_of mumble_user ''getChannel'' = Some user_getChannel"
    by (simp_all add: mumble_channel_def mumble_user_def)
  have par: "mumble_channel_raw_get c p = LChan i \<longleftrightarrow> p = i" for p
    using assms(2,3) by (auto simp: mumble_channel_raw_get_def split: option.splits)
  {
    assume j: "channels c j \<noteq> None \<and> 0 \<le> sint j"
    then obtain cj where cj: "channels c j = Some cj" by auto
    then have idj: "c_channel_id cj = j" using client_okD(2) [OF assms(1)] by (simp add: channel_ok_def)
    let ?kids = "map (mumble_channel_raw_get c) (filter (is_child c i) (channel_list c))"
    have "(\<exists>k. get_field (KInt k) (array_table ?kids) = LChan j) \<longleftrightarrow> LChan j \<in> set ?kids"
      by (rule in_array_table) simp
    also have "\<dots> \<longleftrightarrow> is_child c i j"
      using j lists(1) by (auto simp: mumble_channel_raw_get_def image_iff split: option.splits if_splits)
    also have "\<dots> \<longleftrightarrow> j \<noteq> c_parent cj \<and> c_parent cj = i" by (simp add: is_child_def cj idj)
    finally show "(\<exists>t k. channel_method_call ''getChildren'' E W [LChan i] c = returns [t] c \<and>
             get_field (KInt k) t = LChan j) =
      (channel_method_call ''getParent'' E W [LChan j] c = returns [LChan i] c)"
      by (simp add: channel_method_call_def methods arg_def ch cj id idj channel_getChildren_def
          channel_getParent_def par)
  next
    assume s: "users c s \<noteq> None \<and> 0 \<le> sint s"
    then obtain u where u: "users c s = Some u" by auto
    let ?in = "map (mumble_user_raw_get c) (filter (is_inside c i) (user_list c))"
    have "(\<exists>k. get_field (KInt k) (array_table ?in) = LUser s) \<longleftrightarrow> LUser s \<in> set ?in"
      by (rule in_array_table) simp
    also have "\<dots> \<longleftrightarrow> is_inside c i s"
      using s lists(2) by (auto simp: mumble_user_raw_get_def image_iff split: option.splits if_splits)
    also have "\<dots> \<longleftrightarrow> u_channel_id u = i" by (simp add: is_inside_def u)
    finally show "(\<exists>t k. channel_method_call ''getUsers'' E W [LChan i] c = returns [t] c \<and>
             get_field (KInt k) t = LUser s) =
      (user_call ''getChannel'' E W [LUser s] c = returns [LChan i] c)"
      by (simp add: channel_method_call_def user_call_def methods arg_def ch u id channel_getUsers_def
          user_getChannel_def par)
  }
qed

section \<open>A sample tree\<close>

definition sample_tree :: client where
  "sample_tree =
     put_channel 3 ((new_channel 3) \<lparr> c_name := Some [0x61], c_parent := 2 \<rparr>)
       (snd (mumble_channel_get 3 (snd (mumble_channel_get 2
         (snd (mumble_user_get 7 (mumble_client_new 1 5 735 0 0)))))))"

lemma sample_tree:
  "client_ok sample_tree" "channels sample_tree 2 = Some (new_channel 2)"
  "channels sample_tree 3 = Some ((new_channel 3) \<lparr> c_name := Some [0x61], c_parent := 2 \<rparr>)"
  "channel_list sample_tree = [3, 2]" "users sample_tree 7 = Some (new_user 7)"
proof -
  show "client_ok sample_tree"
    unfolding sample_tree_def
    by (rule client_ok_put_channel)
      (simp_all add: client_ok_new client_ok_user_get client_ok_channel_get channel_ok_def new_channel_def)
qed (simp_all add: sample_tree_def mumble_client_new_def mumble_user_get_def mumble_channel_get_def
       put_channel_def Let_def)

text \<open>The path \<open>./a\<close> from the channel 2, followed twice with the same string.\<close>

lemma sample_path:
  "path_tokens [0x2E, 0x2F, 0x61] = [[0x2E], [0x61]]"
  "path_step sample_tree 2 [0x2E] = Some 2" "path_step sample_tree 2 [0x61] = Some 3"
  "found sample_tree (Some 2) = LChan 2" "found sample_tree (Some 3) = LChan 3"
  by (simp_all add: path_tokens_def is_delimiter_def path_step_def bytes_of_def of_char_def sample_tree
      named_child_def is_child_def found_def mumble_channel_raw_get_def new_channel_def)

theorem method_call_typed_witness:
  "all_some (result_ok sample_tree) (user_call ''listen'' sample_env sample_world [LUser 7, LChan 2] sample_tree) \<and>
   user_call ''getSession'' sample_env sample_world [LUser 7] sample_tree = returns [LInt 7] sample_tree \<and>
   all_some (result_ok sample_tree)
     (channel_method_call ''getUsers'' sample_env sample_world [LChan 3] sample_tree)"
  using method_call_typed [OF sample_tree(1), of "''listen''" sample_env sample_world "[LUser 7, LChan 2]"]
    method_call_typed [OF sample_tree(1), of "''getUsers''" sample_env sample_world "[LChan 3]"]
  by (simp add: user_call_def mumble_user_def arg_def sample_tree user_getSession_def vint_def new_user_def)

theorem path_resolved_witness:
  "channel_method_call ''__call'' sample_env sample_world [LChan 2, LStr [0x2E, 0x2F, 0x61]] sample_tree =
     returns [LChan 3] sample_tree \<and>
   channel_method_call ''__call'' sample_env sample_world [LChan 2, LStr [0x61, 0x5C, 0x62]] sample_tree =
     returns [LNil] sample_tree"
proof
  have a: "leads_to sample_tree 2 [0x61] 3"
    by (rule leads_to.child [where newer = "[]" and older = "[2]", OF _ _ _ sample_tree(3)])
      (simp_all add: sample_tree(2,4) new_channel_def)
  have "follows sample_tree 2 [[0x2E], [0x61]] 3" using leads_to.itself [of sample_tree 2] a by auto
  then show "channel_method_call ''__call'' sample_env sample_world [LChan 2, LStr [0x2E, 0x2F, 0x61]] sample_tree =
     returns [LChan 3] sample_tree"
    using path_resolved [OF sample_tree(1,2), of "[0x2E, 0x2F, 0x61]" sample_env sample_world]
    by (simp add: sample_path)
  have "\<not> leads_to sample_tree j [0x62] k" for j k
    by (auto simp: sample_tree(4) sample_tree(2,3) Cons_eq_append_conv new_channel_def elim!: leads_to_cases)
  then show "channel_method_call ''__call'' sample_env sample_world [LChan 2, LStr [0x61, 0x5C, 0x62]] sample_tree =
     returns [LNil] sample_tree"
    using path_resolved [OF sample_tree(1,2), of "[0x61, 0x5C, 0x62]" sample_env sample_world]
    by (simp add: path_tokens_def)
qed

theorem path_string_cut_witness:
  "channel_method_call ''__call'' sample_env sample_world
     [LChan 2, LStr (snd (channel_walk sample_tree 2 [0x2E, 0x2F, 0x61] 0))] sample_tree =
     returns [LChan 2] sample_tree"
  by (subst path_string_cut [OF sample_tree(1,2) _ sample_path(1)]) (simp_all add: sample_path)

theorem tree_consistent_witness:
  "(\<exists>t k. channel_method_call ''getChildren'' sample_env sample_world [LChan 2] sample_tree =
       returns [t] sample_tree \<and> get_field (KInt k) t = LChan 3)"
proof -
  have "channel_method_call ''getParent'' sample_env sample_world [LChan 3] sample_tree =
      returns [LChan 2] sample_tree"
    by (simp add: channel_method_call_def mumble_channel_def arg_def channel_getParent_def sample_tree
        mumble_channel_raw_get_def new_channel_def)
  then show ?thesis
    using tree_consistent [OF sample_tree(1), of 2 3 sample_env sample_world 7] sample_tree by simp
qed

end
