(* ===== verification/Transport.thy ===== *)
theory Transport
  imports Packets
begin

text \<open>
  The framing of control packets on the TLS stream: \<open>packet_sendex\<close> of \<open>mumble/packet.c\<close> writes a
  packet, \<open>socket_read_event_tcp\<close> of \<open>mumble/mumble.c\<close> reads one. A frame is the type in two bytes,
  the length in four, both big endian, and the body. The packers of protobuf-c are a parameter, and
  so are the results of \<open>SSL_write\<close> and \<open>SSL_read\<close>.
\<close>

section \<open>Big endian numbers\<close>

definition to_be :: "nat \<Rightarrow> 'a::len word \<Rightarrow> u8 list" where
  "to_be n v = rev (le_bytes n v)"

definition from_be :: "u8 list \<Rightarrow> 'a::len word" where
  "from_be bs = from_le (rev bs)"

section \<open>Sending\<close>

text \<open>The types \<open>packet_sendex\<close> has a packer for, and the number of a type.\<close>

definition sendable :: "packet_type \<Rightarrow> bool" where
  "sendable ty \<longleftrightarrow>
     ty \<notin> {PACKET_SERVERREJECT, PACKET_SERVERSYNC, PACKET_PERMISSIONDENIED,
           PACKET_CONTEXTACTIONMOD, PACKET_SERVERCONFIG, PACKET_SUGGESTCONFIG}"

definition packet_number :: "packet_type \<Rightarrow> u16" where
  "packet_number ty = of_nat (length (takeWhile (\<lambda>t. t \<noteq> ty) packet_types))"

text \<open>
  A voice packet for the tunnel is raw bytes, every other packet the fields of its message. The
  result is the status and the bytes \<open>SSL_write\<close> took, of which \<open>written\<close> tells the number.
\<close>

type_synonym packers = "packet_type \<Rightarrow> (string \<times> pval) list \<Rightarrow> u8 list"

definition packet_payload :: "packers \<Rightarrow> packet_type \<Rightarrow> (string \<times> pval) list \<Rightarrow> u8 list \<Rightarrow> u8 list" where
  "packet_payload pack ty message raw = (if ty = PACKET_UDPTUNNEL then raw else pack ty message)"

definition packet_frame :: "packet_type \<Rightarrow> u8 list \<Rightarrow> u8 list" where
  "packet_frame ty payload =
     to_be 2 (packet_number ty) @ to_be 4 (of_nat (length payload) :: u32) @ payload"

definition packet_sendex ::
  "packers \<Rightarrow> bool \<Rightarrow> (u8 list \<Rightarrow> int) \<Rightarrow> packet_type \<Rightarrow> (string \<times> pval) list \<Rightarrow> u8 list \<Rightarrow> int \<times> u8 list" where
  "packet_sendex pack allocated written ty message raw =
     (if \<not> sendable ty then (1, [])
      else if \<not> allocated then (2, [])
      else
        let packet_out = packet_frame ty (packet_payload pack ty message raw);
            n = written packet_out
        in (if n = int (length packet_out) then 0 else -1, take (nat n) packet_out))"

section \<open>Receiving\<close>

text \<open>
  \<open>MumblePacket\<close>. A block is NULL or its bytes; the bytes of a new block are written before they
  are read, and are zero here.
\<close>

record MumblePacket =
  pk_type :: u16
  pk_length :: nat
  pk_header_len :: nat
  pk_header :: "u8 list option"
  pk_body_len :: nat
  pk_body :: "u8 list option"

definition packet_reset :: "MumblePacket \<Rightarrow> MumblePacket" where
  "packet_reset p =
     p \<lparr> pk_type := 0, pk_length := 0, pk_header_len := 0, pk_header := None, pk_body_len := 0,
         pk_body := None \<rparr>"

text \<open>
  What one event brings: the status of the poll, whether the stream can be read, and the answers to
  \<open>malloc\<close> and \<open>SSL_read\<close>: some bytes (at most as many as asked for are taken), a request to try
  again, or the text of an error.
\<close>

datatype read_answer = Bytes "u8 list" | Want_Retry | Read_Error cstr

record tcp_event =
  te_error :: "cstr option"
  te_readable :: bool
  te_header_memory :: bool
  te_header :: read_answer
  te_body_memory :: bool
  te_body :: read_answer

definition handle_ssl_read_error :: "read_answer \<Rightarrow> client \<Rightarrow> client" where
  "handle_ssl_read_error answer c =
     (case answer of Read_Error reason \<Rightarrow> mumble_disconnect reason False c | _ \<Rightarrow> c)"

definition bytes_read :: "nat \<Rightarrow> read_answer \<Rightarrow> u8 list" where
  "bytes_read wanted answer = (case answer of Bytes bs \<Rightarrow> take wanted bs | _ \<Rightarrow> [])"

text \<open>The header; the packet is \<open>None\<close> when the handler of the event has returned.\<close>

definition tcp_read_header ::
  "tcp_event \<Rightarrow> MumblePacket \<Rightarrow> client \<Rightarrow> (MumblePacket option \<times> client) option" where
  "tcp_read_header T p c =
     (if pk_header_len p < 6 then
        let bs = bytes_read (6 - pk_header_len p) (te_header T)
        in if bs = [] then Some (None, handle_ssl_read_error (te_header T) c)
           else do {
             header \<leftarrow> pk_header p;
             header \<leftarrow> poke header (pk_header_len p) bs;
             let p = p \<lparr> pk_header := Some header, pk_header_len := pk_header_len p + length bs \<rparr>;
             if pk_header_len p = 6 then do {
               type \<leftarrow> slice header 0 2;
               len \<leftarrow> slice header 2 4;
               let p = p \<lparr> pk_type := from_be type, pk_length := unat (from_be len :: u32) \<rparr>;
               if unat (pk_type p) \<ge> length packet_types then Some (None, c)
               else if \<not> te_body_memory T then Some (None, c)
               else Some (Some (p \<lparr> pk_body := Some (replicate (pk_length p) 0) \<rparr>), c)
             }
             else Some (Some p, c)
           }
      else Some (Some p, c))"

definition tcp_read_body ::
  "env \<Rightarrow> decoders \<Rightarrow> world \<Rightarrow> tcp_event \<Rightarrow> MumblePacket \<Rightarrow> client \<Rightarrow> client option" where
  "tcp_read_body E D W T p c =
     (if pk_header_len p = 6 \<and> pk_body_len p < pk_length p then
        let bs = bytes_read (pk_length p - pk_body_len p) (te_body T)
        in if bs = [] then Some (handle_ssl_read_error (te_body T) c)
           else do {
             body \<leftarrow> pk_body p;
             body \<leftarrow> poke body (pk_body_len p) bs;
             if pk_body_len p + length bs = pk_length p
             then packet_handler E D W (packet_types ! unat (pk_type p)) body c
             else Some c
           }
      else Some c)"

text \<open>
  The event works on a copy of \<open>tcp_read_packet\<close>, which is never written back, nor set when the client
  is made: the packet of every event is what the memory of the new client held. Its pointer to a header is
  tested against NULL and followed otherwise.
\<close>

definition socket_read_event_tcp ::
  "env \<Rightarrow> decoders \<Rightarrow> world \<Rightarrow> tcp_event \<Rightarrow> MumblePacket \<Rightarrow> client \<Rightarrow> client option" where
  "socket_read_event_tcp E D W T tcp_read_packet c =
     (case te_error T of
        Some reason \<Rightarrow> Some (mumble_disconnect reason False c)
      | None \<Rightarrow>
          if te_readable T \<and> connected c then do {
            let p = tcp_read_packet;
            p \<leftarrow> (if pk_header p \<noteq> None then Some p
                  else if te_header_memory T
                  then Some (p \<lparr> pk_header_len := 0, pk_header := Some (replicate 6 0),
                                 pk_body_len := 0, pk_body := None \<rparr>)
                  else None);
            (r, c) \<leftarrow> tcp_read_header T p c;
            (case r of None \<Rightarrow> Some c | Some p \<Rightarrow> tcp_read_body E D W T p c)
          }
          else Some c)"

text \<open>A run of events.\<close>

fun tcp_events ::
  "env \<Rightarrow> decoders \<Rightarrow> world \<Rightarrow> MumblePacket \<Rightarrow> tcp_event list \<Rightarrow> client \<Rightarrow> client option" where
  "tcp_events E D W p [] c = Some c"
| "tcp_events E D W p (T # Ts) c = do { c \<leftarrow> socket_read_event_tcp E D W T p c; tcp_events E D W p Ts c }"

section \<open>Frames\<close>

lemma from_be_to_be: "8 * n \<le> LENGTH('a) \<Longrightarrow> from_be (to_be n v) = take_bit (8 * n) (v :: 'a::len word)"
  by (simp add: from_be_def to_be_def from_le_le_bytes)

lemma length_to_be [simp]: "length (to_be n v) = n"
  by (simp add: to_be_def)

lemma packet_number_less: "unat (packet_number ty) < length packet_types"
  by (cases ty) (simp_all add: packet_number_def packet_types_def)

lemma packet_number_nth: "packet_types ! unat (packet_number ty) = ty"
  by (cases ty) (simp_all add: packet_number_def packet_types_def)

lemma length_packet_types: "length packet_types = 27"
  by (simp add: packet_types_def)

lemma from_be16: "from_be (to_be 2 (v::u16)) = v"
proof -
  have "take_bit 16 v = v" by (rule bit_word_eqI) (simp add: bit_simps)
  then show ?thesis using from_be_to_be [of 2, where 'a = 16] by simp
qed

lemma from_be32: "from_be (to_be 4 (v::u32)) = v"
proof -
  have "take_bit 32 v = v" by (rule bit_word_eqI) (simp add: bit_simps)
  then show ?thesis using from_be_to_be [of 4, where 'a = 32] by simp
qed

lemma poke_all: "length xs = length b \<Longrightarrow> poke b 0 xs = Some xs"
  by (simp add: poke_def)

lemma poke_front: "length xs \<le> length b \<Longrightarrow> poke b 0 xs = Some (xs @ drop (length xs) b)"
  by (simp add: poke_def)

text \<open>An event with a complete header: the ways it can end.\<close>

lemma read_header_complete:
  assumes "te_header T = Bytes (to_be 2 ty @ to_be 4 n)" "te_body_memory T"
    "unat (ty :: u16) < length packet_types"
  shows "tcp_read_header T (p \<lparr> pk_header_len := 0, pk_header := Some (replicate 6 0),
      pk_body_len := 0, pk_body := None \<rparr>) c =
    Some (Some \<lparr> pk_type = ty, pk_length = unat (n :: u32), pk_header_len = 6,
      pk_header = Some (to_be 2 ty @ to_be 4 n), pk_body_len = 0,
      pk_body = Some (replicate (unat n) 0) \<rparr>, c)"
proof -
  let ?h = "to_be 2 ty @ to_be 4 n"
  have l: "length ?h = 6" by simp
  have "bytes_read 6 (te_header T) = ?h" using assms(1) l by (simp add: bytes_read_def)
  moreover have "?h \<noteq> []" using l by (metis list.size(3) numeral_eq_iff zero_neq_numeral)
  moreover have "poke (replicate 6 0) 0 ?h = Some ?h" by (rule poke_all) (simp add: l)
  moreover have "slice ?h 0 2 = Some (to_be 2 ty)" "slice ?h 2 4 = Some (to_be 4 n)"
    by (simp_all add: slice_def)
  ultimately show ?thesis
    using assms(2,3) l
    by (simp add: tcp_read_header_def from_be16 from_be32 not_le Let_def del: append_is_Nil_conv)
qed

lemma read_event_header:
  assumes "te_error T = None" "te_readable T" "te_header_memory T" "te_body_memory T" "connected c"
    and "te_header T = Bytes (to_be 2 ty @ to_be 4 n)" "unat (ty :: u16) < length packet_types"
    and h: "pk_header p = None"
  shows "socket_read_event_tcp E D W T p c =
    (let bs = bytes_read (unat (n :: u32)) (te_body T)
     in if n = 0 then Some c
        else if bs = [] then Some (handle_ssl_read_error (te_body T) c)
        else if length bs < unat n then Some c
        else packet_handler E D W (packet_types ! unat ty) bs c)"
proof -
  let ?bs = "bytes_read (unat n) (te_body T)"
  have l: "length ?bs \<le> unat n" by (cases "te_body T") (simp_all add: bytes_read_def)
  have pos: "0 < unat n \<longleftrightarrow> n \<noteq> 0" by (simp add: unat_gt_0)
  have "poke (replicate (unat n) 0) 0 ?bs = Some (?bs @ replicate (unat n - length ?bs) 0)"
    using l by (simp add: poke_front)
  then show ?thesis
    using assms(1,2,3,5) l pos read_header_complete [OF assms(6,4,7), of p c]
    by (auto simp: socket_read_event_tcp_def h tcp_read_body_def Let_def)
qed

text \<open>A frame of \<open>packet_sendex\<close>, read by one event that gets all of it.\<close>

definition whole_frame :: "u8 list \<Rightarrow> tcp_event" where
  "whole_frame frame =
     \<lparr> te_error = None, te_readable = True, te_header_memory = True, te_header = Bytes (take 6 frame),
       te_body_memory = True, te_body = Bytes (drop 6 frame) \<rparr>"

lemma read_whole_frame:
  assumes "connected c" "payload \<noteq> []" "length payload < 2 ^ 32" "pk_header p = None"
  shows "socket_read_event_tcp E D W (whole_frame (packet_frame ty payload)) p c =
    packet_handler E D W ty payload c"
proof -
  let ?T = "whole_frame (packet_frame ty payload)" and ?n = "of_nat (length payload) :: u32"
  have n: "unat ?n = length payload" using assms(3) by (simp add: unat_of_nat)
  then have nz: "?n \<noteq> 0" using assms(2) by (metis length_0_conv unat_0)
  have T: "te_error ?T = None" "te_readable ?T" "te_header_memory ?T" "te_body_memory ?T"
    "te_header ?T = Bytes (to_be 2 (packet_number ty) @ to_be 4 ?n)" "te_body ?T = Bytes payload"
    by (simp_all add: whole_frame_def packet_frame_def)
  show ?thesis
    unfolding read_event_header [OF T(1-4) assms(1) T(5) packet_number_less assms(4)]
    using n nz assms(2) by (simp add: T(6) bytes_read_def packet_number_nth)
qed

text \<open>An event that gets only a part of a frame leaves everything as it was.\<close>

lemma read_part:
  assumes "connected c" "k < length (packet_frame ty payload)" "length payload < 2 ^ 32" "pk_header p = None"
  shows "socket_read_event_tcp E D W (whole_frame (take k (packet_frame ty payload))) p c = Some c"
proof -
  let ?f = "packet_frame ty payload" and ?n = "of_nat (length payload) :: u32"
  let ?T = "whole_frame (take k ?f)"
  have T: "te_error ?T = None" "te_readable ?T" "te_header_memory ?T" "te_body_memory ?T"
    by (simp_all add: whole_frame_def)
  have f: "take 6 ?f = to_be 2 (packet_number ty) @ to_be 4 ?n" "drop 6 ?f = payload"
    "length ?f = 6 + length payload"
    by (simp_all add: packet_frame_def)
  show ?thesis
  proof (cases "k < 6")
    case False
    then have h: "te_header ?T = Bytes (to_be 2 (packet_number ty) @ to_be 4 ?n)"
      and b: "te_body ?T = Bytes (take (k - 6) payload)"
      using f by (simp_all add: whole_frame_def drop_take min_def)
    have "unat ?n = length payload" using assms(3) by (simp add: unat_of_nat)
    moreover have "k - 6 < length payload" using assms(2) f(3) False by simp
    ultimately show ?thesis
      unfolding read_event_header [OF T(1-4) assms(1) h packet_number_less assms(4)]
      by (simp add: b bytes_read_def handle_ssl_read_error_def Let_def)
  next
    case True
    note h = assms(4)
    show ?thesis
    proof (cases "k = 0")
      case True
      then have "te_header ?T = Bytes []" by (simp add: whole_frame_def)
      then show ?thesis
        using T assms(1)
        by (simp add: socket_read_event_tcp_def h tcp_read_header_def bytes_read_def
            handle_ssl_read_error_def)
    next
      case False
      then have "te_header ?T = Bytes (take k ?f)" "length (take k ?f) = k" "take k ?f \<noteq> []"
        using \<open>k < 6\<close> f(3) by (auto simp: whole_frame_def)
      then show ?thesis
        using T assms(1) \<open>k < 6\<close>
        by (simp add: socket_read_event_tcp_def h tcp_read_header_def bytes_read_def
            Let_def poke_front tcp_read_body_def)
    qed
  qed
qed

section \<open>Properties\<close>

text \<open>What the packets do to the client, the connection being closed by one of them included.\<close>

fun handle_all ::
  "env \<Rightarrow> decoders \<Rightarrow> world \<Rightarrow> (packet_type \<times> u8 list) list \<Rightarrow> client \<Rightarrow> client option" where
  "handle_all E D W [] c = Some c"
| "handle_all E D W ((ty, b) # ps) c =
     do { c \<leftarrow> (if connected c then packet_handler E D W ty b c else Some c); handle_all E D W ps c }"

text \<open>
  C5. Packets sent one after another and each read by one event reach their handlers in order, with
  the type and the body that were sent, when the packet the client was made with has no header.
\<close>

theorem packets_delivered:
  assumes "pk_header q = None" "\<forall>(ty, m, raw)\<in>set ps. sendable ty \<and> packet_payload pack ty m raw \<noteq> [] \<and>
    length (packet_payload pack ty m raw) < 2 ^ 32"
  shows "tcp_events E D W q
      (map (\<lambda>(ty, m, raw). whole_frame (snd (packet_sendex pack True (\<lambda>b. int (length b)) ty m raw))) ps) c =
    handle_all E D W (map (\<lambda>(ty, m, raw). (ty, packet_payload pack ty m raw)) ps) c"
  using assms(2)
proof (induction ps arbitrary: c)
  case (Cons p ps)
  obtain ty m raw where p: "p = (ty, m, raw)" by (cases p) auto
  let ?b = "packet_payload pack ty m raw"
  have sent: "snd (packet_sendex pack True (\<lambda>b. int (length b)) ty m raw) = packet_frame ty ?b"
    using Cons.prems by (simp add: p packet_sendex_def Let_def)
  have "socket_read_event_tcp E D W (whole_frame (packet_frame ty ?b)) q c =
      (if connected c then packet_handler E D W ty ?b c else Some c)"
    using read_whole_frame [of c ?b q] Cons.prems assms(1)
    by (simp add: p) (simp add: socket_read_event_tcp_def whole_frame_def)
  then show ?case
    using Cons by (simp add: p sent cong: Option.bind_cong)
qed simp

text \<open>
  C35. A packet whose frame is not read whole by one event is lost: the part read is forgotten, and
  the rest is taken for a new frame. A packet with an empty body is never handled.
\<close>

theorem split_packet_lost:
  assumes "connected c" "k < length (packet_frame ty payload)" "length payload < 2 ^ 32" "pk_header p = None"
  shows "tcp_events E D W p
      [whole_frame (take k (packet_frame ty payload)), whole_frame (drop k (packet_frame ty payload))] c =
    socket_read_event_tcp E D W (whole_frame (drop k (packet_frame ty payload))) p c \<and>
    socket_read_event_tcp E D W (whole_frame (packet_frame ty [])) p c = Some c"
proof
  show "tcp_events E D W p
      [whole_frame (take k (packet_frame ty payload)), whole_frame (drop k (packet_frame ty payload))] c =
    socket_read_event_tcp E D W (whole_frame (drop k (packet_frame ty payload))) p c"
    by (cases "socket_read_event_tcp E D W (whole_frame (drop k (packet_frame ty payload))) p c")
      (simp_all add: read_part [OF assms])
  have T: "te_error (whole_frame f) = None" "te_readable (whole_frame f)" "te_header_memory (whole_frame f)"
    "te_body_memory (whole_frame f)" for f
    by (simp_all add: whole_frame_def)
  have "te_header (whole_frame (packet_frame ty [])) = Bytes (to_be 2 (packet_number ty) @ to_be 4 (0::u32))"
    by (simp add: whole_frame_def packet_frame_def)
  from read_event_header [OF T assms(1) this packet_number_less assms(4)]
  show "socket_read_event_tcp E D W (whole_frame (packet_frame ty [])) p c = Some c" by simp
qed

section \<open>Samples\<close>

text \<open>The packet of a client whose memory held zeros.\<close>

definition no_packet :: MumblePacket where
  "no_packet =
     \<lparr> pk_type = 0, pk_length = 0, pk_header_len = 0, pk_header = None, pk_body_len = 0, pk_body = None \<rparr>"

definition sample_decoders :: decoders where
  "sample_decoders =
     \<lparr> un_version = (\<lambda>b. None), un_ping = (\<lambda>b. None), un_reject = (\<lambda>b. None),
       un_server_sync = (\<lambda>b. None), un_channel_remove = (\<lambda>b. None), un_channel_state = (\<lambda>b. None),
       un_user_remove = (\<lambda>b. None), un_user_state = (\<lambda>b. None), un_ban_list = (\<lambda>b. None),
       un_text_message = (\<lambda>b. Some \<lparr> tm_actor = None, tm_session = [], tm_channel_id = [],
                                         tm_message = Some b \<rparr>),
       un_permission_denied = (\<lambda>b. None), un_acl = (\<lambda>b. None), un_query_users = (\<lambda>b. None),
       un_crypt_setup = (\<lambda>b. None), un_context_action_modify = (\<lambda>b. None),
       un_user_list = (\<lambda>b. None), un_permission_query = (\<lambda>b. None),
       un_codec_version = (\<lambda>b. None), un_user_stats = (\<lambda>b. None), un_server_config = (\<lambda>b. None),
       un_suggest_config = (\<lambda>b. None), un_plugin_data = (\<lambda>b. None) \<rparr>"

definition sample_connected :: client where
  "sample_connected = (mumble_client_new 1 5 735 0 0) \<lparr> self := 1, connecting := True, connected := True \<rparr>"

definition sample_text :: "u8 \<Rightarrow> event" where
  "sample_text b = Hook ''OnMessage'' [new_table [(KName ''message'', LStr [b]), (KName ''direct'', LBool True)]]"

theorem packets_delivered_witness:
  "let ps = [(PACKET_TEXTMESSAGE, [(''message'', PStr [72])], []), (PACKET_TEXTMESSAGE, [], [])];
       pack = (\<lambda>ty m. if m = [] then [73] else [72]) in
   tcp_events sample_env sample_decoders sample_world no_packet
     (map (\<lambda>(ty, m, raw). whole_frame (snd (packet_sendex pack True (\<lambda>b. int (length b)) ty m raw))) ps)
     sample_connected =
   Some (sample_connected \<lparr> trace := [sample_text 72, sample_text 73] \<rparr>)"
  unfolding Let_def
  by (subst packets_delivered)
    (simp_all add: no_packet_def sendable_def packet_payload_def sample_connected_def mumble_client_new_def with_message_def
      sample_decoders_def packet_text_message_def mumble_hook_call_def sample_text_def opt_field_def
      field_def list_field_def)

theorem split_packet_lost_witness:
  "tcp_events sample_env sample_decoders sample_world no_packet
     [whole_frame (take 7 (packet_frame PACKET_TEXTMESSAGE [72, 73])),
      whole_frame (drop 7 (packet_frame PACKET_TEXTMESSAGE [72, 73]))] sample_connected =
   Some sample_connected"
proof -
  have c: "connected sample_connected" by (simp add: sample_connected_def)
  have "drop 7 (packet_frame PACKET_TEXTMESSAGE [72, 73]) = [73]" by (simp add: packet_frame_def)
  moreover have "socket_read_event_tcp sample_env sample_decoders sample_world (whole_frame [73]) no_packet
      sample_connected = Some sample_connected"
    by (simp add: socket_read_event_tcp_def whole_frame_def no_packet_def c tcp_read_header_def
        bytes_read_def poke_def Let_def tcp_read_body_def)
  ultimately show ?thesis
    using split_packet_lost [OF c, of 7 PACKET_TEXTMESSAGE "[72, 73]" no_packet sample_env sample_decoders sample_world]
    by (simp add: packet_frame_def no_packet_def)
qed

end
