(* ===== verification/Voice.thy ===== *)
theory Voice
  imports Udp
begin

text \<open>
  The voice packets the client sends: \<open>voicepacket_init\<close>, \<open>voicepacket_setheader\<close>,
  \<open>voicepacket_setframe\<close>, \<open>send_legacy_audio\<close> and \<open>send_protobuf_audio\<close> of \<open>mumble/audio.c\<close>, and the
  body of \<open>client_transmit\<close> of \<open>mumble/client.c\<close>. The bytes of a local buffer that are not yet
  written are zero here; the code sends and reads none of them, or the result is \<open>None\<close>.
\<close>

section \<open>Voice packets\<close>

record VoicePacket =
  vp_buffer :: "u8 list"
  vp_length :: nat
  vp_header_length :: nat

definition voicepacket_init :: "u8 list option \<Rightarrow> VoicePacket option" where
  "voicepacket_init buffer =
     (case buffer of
        None \<Rightarrow> None
      | Some b \<Rightarrow> Some \<lparr> vp_buffer = b, vp_length = 0, vp_header_length = 0 \<rparr>)"

definition voicepacket_getlength :: "VoicePacket \<Rightarrow> nat" where
  "voicepacket_getlength p = vp_length p"

text \<open>\<open>util_set_varint\<close> at an offset of the buffer.\<close>

definition set_varint_at :: "u8 list \<Rightarrow> nat \<Rightarrow> u64 \<Rightarrow> (u8 list \<times> nat) option" where
  "set_varint_at buffer i v = do {
     (rest, n) \<leftarrow> util_set_varint (drop i buffer) v;
     Some (take i buffer @ rest, unat n)
   }"

definition header_byte :: "u8 \<Rightarrow> u8 \<Rightarrow> u8" where
  "header_byte type target = push_bit 5 (type AND 0x7) OR (target AND 0x1F)"

definition voicepacket_setheader :: "u8 \<Rightarrow> u8 \<Rightarrow> u32 \<Rightarrow> VoicePacket \<Rightarrow> (int \<times> VoicePacket) option" where
  "voicepacket_setheader type target sequence p =
     (if vp_length p > 0 then Some (-2, p)
      else do {
        buffer \<leftarrow> poke (vp_buffer p) 0 [header_byte type target];
        (buffer, offset) \<leftarrow> set_varint_at buffer 1 (ucast sequence);
        Some (1, p \<lparr> vp_buffer := buffer, vp_length := 1 + offset, vp_header_length := 1 + offset \<rparr>)
      })"

definition voicepacket_setframe :: "u8 \<Rightarrow> u16 \<Rightarrow> u8 list \<Rightarrow> VoicePacket \<Rightarrow> (int \<times> VoicePacket) option" where
  "voicepacket_setframe type frame_header data p =
     (if data = [] \<or> length data \<ge> 0x2000 then Some (-1, p)
      else if vp_header_length p = 0 then Some (-2, p)
      else do {
        (buffer, offset) \<leftarrow>
          (if type = 4 then set_varint_at (vp_buffer p) (vp_header_length p) (ucast frame_header)
           else if type = 2 \<or> type = 0 \<or> type = 3 then
             map_option (\<lambda>b. (b, 1)) (poke (vp_buffer p) (vp_header_length p) [ucast frame_header])
           else Some (vp_buffer p, 0));
        if offset = 0 then Some (-3, p)
        else do {
          buffer \<leftarrow> poke buffer (vp_header_length p + offset) data;
          Some (1, p \<lparr> vp_buffer := buffer, vp_length := vp_header_length p + length data + offset \<rparr>)
        }
      })"

section \<open>Sending voice\<close>

definition send_voice :: "env \<Rightarrow> world \<Rightarrow> u8 list \<Rightarrow> client \<Rightarrow> client option" where
  "send_voice E W packet c =
     (if tcp_udp_tunnel c then Some (c \<lparr> trace := trace c @ [Tunnelled packet] \<rparr>)
      else packet_sendudp E W packet c)"

text \<open>
  What Opus encoded, \<open>None\<close> for an error: its negative length makes \<open>voicepacket_setframe\<close> refuse
  the frame and the hooks read bytes that were never written, and it makes the packer of protobuf-c
  read far past the data. The result tells whether all streams were stopped because the packet is
  too long; the test comes after the packet was written into the local buffer of 5760 bytes.
\<close>

definition send_legacy_audio ::
  "env \<Rightarrow> world \<Rightarrow> u8 list option \<Rightarrow> bool \<Rightarrow> u32 \<Rightarrow> client \<Rightarrow> (bool \<times> client) option" where
  "send_legacy_audio E W encoded end_frame number c = do {
     data \<leftarrow> encoded;
     let frame_header = (if end_frame then of_nat (length data) OR push_bit 13 1
                         else of_nat (length data) :: u32);
     p \<leftarrow> voicepacket_init (Some (replicate 5760 0));
     (r, p) \<leftarrow> voicepacket_setheader 4 (audio_target c) number p;
     (r, p) \<leftarrow> voicepacket_setframe 4 (ucast frame_header) data p;
     let len = voicepacket_getlength p;
     if len > 1024 then Some (True, c)
     else if r \<noteq> 1 then None
     else do {
       c \<leftarrow> send_voice E W (take len (vp_buffer p)) c;
       c \<leftarrow> mumble_handle_speaking_hooks_legacy E W (drop 1 (vp_buffer p)) 4 (audio_target c) (session c) c;
       Some (False, c)
     }
   }"

text \<open>
  \<open>target\<close> is assigned in the union of the \<open>oneof\<close>, whose case stays unset, so the packed message
  does not have it; the hooks read the union.
\<close>

definition audio_message :: "u32 \<Rightarrow> u8 list \<Rightarrow> bool \<Rightarrow> (string \<times> pval) list" where
  "audio_message frame data terminator =
     [(''frame_number'', PU64 (ucast frame)), (''opus_data'', PBytes data),
      (''is_terminator'', PBool terminator)]"

definition own_audio :: "u8 \<Rightarrow> u32 \<Rightarrow> u8 list \<Rightarrow> bool \<Rightarrow> udp_audio" where
  "own_audio target frame data terminator =
     \<lparr> a_header = ucast target, a_sender_session = 0, a_frame_number = ucast frame,
       a_opus_data = data, a_is_terminator = terminator \<rparr>"

definition send_protobuf_audio ::
  "env \<Rightarrow> world \<Rightarrow> u8 list option \<Rightarrow> bool \<Rightarrow> u32 \<Rightarrow> client \<Rightarrow> (bool \<times> client) option" where
  "send_protobuf_audio E W encoded end_frame number c = do {
     data \<leftarrow> encoded;
     let message = pack_udp_audio E (audio_message number data end_frame);
     buffer \<leftarrow> poke (replicate 5760 0) 0 (0 # message);
     let len = 1 + length message;
     if len > 1024 then Some (True, c)
     else do {
       c \<leftarrow> send_voice E W (take len buffer) c;
       c \<leftarrow> mumble_handle_speaking_hooks_protobuf E W
              (own_audio (audio_target c) number data end_frame) (session c) c;
       Some (False, c)
     }
   }"

text \<open>
  \<open>client_transmit\<close> behind its arguments. The results of \<open>voicepacket_setframe\<close> are not looked at:
  when it refuses, the hooks read bytes of the buffer that were never written.
\<close>

definition transmit_header :: "u8 \<Rightarrow> nat \<Rightarrow> bool \<Rightarrow> u16" where
  "transmit_header codec n speaking =
     (if codec = 4 \<and> \<not> speaking then push_bit 13 1 OR of_nat n
      else if (codec = 2 \<or> codec = 0 \<or> codec = 3) \<and> speaking then 1 OR of_nat n
      else of_nat n)"

definition transmit_voice :: "env \<Rightarrow> world \<Rightarrow> u8 \<Rightarrow> u8 list \<Rightarrow> bool \<Rightarrow> client \<Rightarrow> client option" where
  "transmit_voice E W codec data speaking c = do {
     c \<leftarrow>
       (if legacy c then do {
          p \<leftarrow> voicepacket_init (Some (replicate 8191 0));
          (r, p) \<leftarrow> voicepacket_setheader codec (audio_target c) (audio_sequence c) p;
          (r, p) \<leftarrow> voicepacket_setframe codec (transmit_header codec (length data) speaking) data p;
          if r \<noteq> 1 then None
          else do {
            c \<leftarrow> mumble_handle_speaking_hooks_legacy E W (drop 1 (vp_buffer p)) codec
                   (audio_target c) (session c) c;
            send_voice E W (take (voicepacket_getlength p) (vp_buffer p)) c
          }
        }
        else do {
          let message = pack_udp_audio E (audio_message (audio_sequence c) data (\<not> speaking));
          buffer \<leftarrow> poke (replicate 8191 0) 0 (0 # message);
          c \<leftarrow> mumble_handle_speaking_hooks_protobuf E W
                 (own_audio (audio_target c) (audio_sequence c) data (\<not> speaking)) (session c) c;
          send_voice E W (take (1 + length message) buffer) c
        });
     Some (c \<lparr> audio_sequence := audio_sequence c + 1 \<rparr>)
   }"

section \<open>The invariant of the client\<close>

lemma client_ok_send_voice: "client_ok c \<Longrightarrow> all_some client_ok (send_voice E W m c)"
  unfolding send_voice_def by (intro wp client_ok_sendudp) simp_all

lemma client_ok_bind:
  "all_some client_ok m \<Longrightarrow> (\<And>c. client_ok c \<Longrightarrow> all_some P (f c)) \<Longrightarrow>
   all_some P (Option.bind m f)"
  by (cases m) (simp_all add: all_some_def)

lemma client_ok_transmit:
  "client_ok c \<Longrightarrow> all_some client_ok (transmit_voice E W codec data speaking c)"
  unfolding transmit_voice_def
  by (rule client_ok_bind client_ok_voice client_ok_send_voice all_some_bind_any all_some_prod
        all_some_if all_some_None all_some_let all_some_Some | assumption | simp)+

lemma client_ok_send_legacy:
  "client_ok c \<Longrightarrow> all_some (\<lambda>r. client_ok (snd r)) (send_legacy_audio E W encoded e n c)"
  unfolding send_legacy_audio_def
  by (rule client_ok_bind client_ok_voice client_ok_send_voice all_some_bind_any all_some_prod
        all_some_if all_some_None all_some_let all_some_Some | assumption | simp only: snd_conv)+

lemma client_ok_send_protobuf:
  "client_ok c \<Longrightarrow> all_some (\<lambda>r. client_ok (snd r)) (send_protobuf_audio E W encoded e n c)"
  unfolding send_protobuf_audio_def
  by (rule client_ok_bind client_ok_voice client_ok_send_voice all_some_bind_any all_some_prod
        all_some_if all_some_None all_some_let all_some_Some | assumption | simp only: snd_conv)+

section \<open>The bytes of a voice packet\<close>

lemma length_varint_le: "length (varint_bytes v) < 256"
  using length_varint_bytes_bounds(2) [of v] by simp

lemma set_varint_at_eq:
  "i \<le> length b \<Longrightarrow> set_varint_at b i v =
     (if i + length (varint_bytes v) \<le> length b
      then Some (take i b @ varint_bytes v @ drop (i + length (varint_bytes v)) b, length (varint_bytes v))
      else None)"
  using length_varint_le [of v]
  by (simp add: set_varint_at_def util_set_varint_eq put_bytes_def poke_def unat_of_nat add.commute le_diff_conv2)

definition voice_header :: "u8 \<Rightarrow> u8 \<Rightarrow> u32 \<Rightarrow> u8 list" where
  "voice_header type target sequence = header_byte type target # varint_bytes (ucast sequence)"

lemma setheader_eq:
  assumes "10 \<le> length b"
  shows "voicepacket_setheader type target sequence \<lparr> vp_buffer = b, vp_length = 0, vp_header_length = 0 \<rparr> =
    (let h = voice_header type target sequence
     in Some (1, \<lparr> vp_buffer = h @ drop (length h) b, vp_length = length h, vp_header_length = length h \<rparr>))"
  using assms length_varint_bytes_bounds(2) [of "ucast sequence"]
  by (cases b) (auto simp: voicepacket_setheader_def poke_def set_varint_at_eq voice_header_def Let_def)

lemma setframe_eq:
  assumes "data \<noteq> []" "length data < 0x2000" "h \<noteq> []"
  shows "voicepacket_setframe 4 fh data
      \<lparr> vp_buffer = h @ b, vp_length = length h, vp_header_length = length h \<rparr> =
    (let f = varint_bytes (ucast fh) @ data
     in if length f \<le> length b
        then Some (1, \<lparr> vp_buffer = h @ f @ drop (length f) b, vp_length = length h + length f,
                        vp_header_length = length h \<rparr>)
        else None)"
  using assms varint_bytes_nonempty [of "ucast fh"]
  by (auto simp: voicepacket_setframe_def set_varint_at_eq poke_def Let_def add.commute)


section \<open>What the hooks read in a packet of the client\<close>

definition frame_word :: "nat \<Rightarrow> bool \<Rightarrow> u16" where
  "frame_word n terminator = (if terminator then of_nat n OR push_bit 13 1 else of_nat n)"

lemma frame_word_fields:
  assumes "n < 0x2000"
  shows "unat (frame_word n t AND 0x1FFF) = n" "frame_word n t AND 0x2000 = 0 \<longleftrightarrow> \<not> t"
proof -
  have "unat (of_nat n :: u16) = n" using assms by (simp add: unat_of_nat)
  then have small: "(of_nat n :: u16) < 2 ^ 13" using assms by (simp add: word_less_nat_alt)
  have bits: "bit (of_nat n :: u16) k \<Longrightarrow> k < 13" for k using word_lt_bit [OF small] by simp
  have m: "(0x1FFF :: u16) = mask 13" "(0x2000 :: u16) = 2 ^ 13" by (simp_all add: mask_eq_exp_minus_1)
  have pb: "bit (push_bit 13 1 :: u16) k \<longleftrightarrow> k = 13" for k
    using bit_pow2_word [of 13 k, where 'a = 16] by (simp add: push_bit_eq_mult)
  have "frame_word n t AND mask 13 = of_nat n"
    by (rule bit_word_eqI, cases t)
      (use bits in \<open>auto simp only: frame_word_def if_True if_False bit_or_iff bit_and_iff bit_mask_iff pb possible_bit_word\<close>)
  then show "unat (frame_word n t AND 0x1FFF) = n"
    using \<open>unat (of_nat n :: u16) = n\<close> by (simp only: m)
  have "\<not> bit (of_nat n :: u16) 13" using bits [of 13] by blast
  then have "bit (frame_word n t) 13 = t" by (simp only: frame_word_def if_True if_False bit_or_iff pb split: if_split) simp
  then show "frame_word n t AND 0x2000 = 0 \<longleftrightarrow> \<not> t" unfolding m(2) and_exp_eq_0_iff_not_bit by simp
qed

lemma own_packet_heard:
  assumes "data \<noteq> []" "length data < 0x2000"
  shows "\<exists>speak.
    (\<forall>s c. mumble_handle_speaking_hooks_legacy E W
      (varint_bytes v @ varint_bytes (ucast (frame_word (length data) t)) @ data @ rest) 4 target s c =
    speaking_hooks E W s (\<not> t) data speak c) \<and>
    (\<forall>user. get_field (KName ''sequence'') (speak user) = LNum (d_of_u64 E v) \<and>
       get_field (KName ''target'') (speak user) = LNum (d_of_u64 E (ucast target)) \<and>
       get_field (KName ''speaking'') (speak user) = LBool (\<not> t) \<and>
       get_field (KName ''data'') (speak user) = LStr data)"
proof -
  let ?fh = "frame_word (length data) t"
  have same: "ucast (ucast ?fh :: u64) = ?fh" by (rule bit_word_eqI) (simp add: bit_simps)
  define speak where "speak = (\<lambda>user. new_table
         (field ''codec'' (LNum (d_of_u64 E (ucast (4 :: u8)))) @
          field ''target'' (LNum (d_of_u64 E (ucast target))) @
          field ''sequence'' (LNum (d_of_u64 E v)) @
          field ''user'' user @ field ''speaking'' (LBool (\<not> t)) @
          field ''data'' (LStr data) @
          field ''channels'' (LInt (opus_channels E (data @ rest))) @
          field ''bandwidth'' (LInt (opus_bandwidth E (data @ rest))) @
          field ''samples_per_frame'' (LInt (opus_frame_samples E (data @ rest)))))"
  have "mumble_handle_speaking_hooks_legacy E W
      (varint_bytes v @ varint_bytes (ucast ?fh) @ data @ rest) 4 target s c =
    speaking_hooks E W s (\<not> t) data speak c" for s c
    unfolding mumble_handle_speaking_hooks_legacy_def speak_def
    by (simp add: varint_decode same frame_word_fields [OF assms(2)] slice_def assms(1) Let_def)
  moreover have "get_field (KName ''sequence'') (speak user) = LNum (d_of_u64 E v) \<and>
       get_field (KName ''target'') (speak user) = LNum (d_of_u64 E (ucast target)) \<and>
       get_field (KName ''speaking'') (speak user) = LBool (\<not> t) \<and>
       get_field (KName ''data'') (speak user) = LStr data" for user
    by (simp add: speak_def map_of_new_table field_def)
  ultimately show ?thesis by blast
qed

lemma sendudp_frame:
  "packet_sendudp E W m c = Some c' \<Longrightarrow> audio_target c' = audio_target c \<and> session c' = session c"
  by (auto simp: packet_sendudp_def Let_def split: if_splits option.splits prod.splits)

lemma send_voice_frame:
  "send_voice E W m c = Some c' \<Longrightarrow> audio_target c' = audio_target c \<and> session c' = session c"
  by (auto simp: send_voice_def dest: sendudp_frame split: if_splits)

lemma sent_header:
  "ucast (if e then of_nat n OR push_bit 13 1 else of_nat n :: u32) = frame_word n e"
proof -
  have pb: "bit (push_bit 13 1 :: u32) k \<longleftrightarrow> k = 13" "bit (push_bit 13 1 :: u16) k \<longleftrightarrow> k = 13" for k
    using bit_pow2_word [of 13 k, where 'a = 32] bit_pow2_word [of 13 k, where 'a = 16]
    by (simp_all add: push_bit_eq_mult)
  have "ucast (of_nat n OR push_bit 13 1 :: u32) = (of_nat n OR push_bit 13 1 :: u16)"
  proof (rule bit_word_eqI)
    fix k assume k: "k < LENGTH(16)"
    then have "k < LENGTH(32)" by simp
    with k show "bit (ucast (of_nat n OR push_bit 13 1 :: u32) :: u16) k = bit (of_nat n OR push_bit 13 1 :: u16) k"
      by (auto simp only: bit_or_iff bit_unsigned_iff pb possible_bit_word bit_of_nat_iff)
  qed
  moreover have "ucast (of_nat n :: u32) = (of_nat n :: u16)"
    by (rule bit_word_eqI) (auto simp: bit_simps)
  ultimately show ?thesis by (cases e) (simp_all only: frame_word_def if_True if_False)
qed

section \<open>Properties\<close>

text \<open>
  C33. An encoded frame on its way to a legacy server, by its size: the packet is written past the
  local buffer when header and frame exceed 5760 bytes; up to there and above 1024 bytes nothing is
  sent and all streams are stopped; otherwise the packet that is sent is the header, the frame word
  and the frame, and the hooks of the client's own user get the sequence number, the target, the
  speaking flag and the data that were sent.
\<close>

theorem legacy_audio_sent:
  assumes "data \<noteq> []" "length data < 0x2000"
  shows "\<exists>speak.
    send_legacy_audio E W (Some data) end_frame number c =
    (let packet = voice_header 4 (audio_target c) number @
           varint_bytes (ucast (frame_word (length data) end_frame)) @ data
     in if length packet > 5760 then None
        else if length packet > 1024 then Some (True, c)
        else do {
          c \<leftarrow> send_voice E W packet c;
          c \<leftarrow> speaking_hooks E W (session c) (\<not> end_frame) data speak c;
          Some (False, c)
        }) \<and>
    (\<forall>user. get_field (KName ''sequence'') (speak user) = LNum (d_of_u64 E (ucast number)) \<and>
       get_field (KName ''target'') (speak user) = LNum (d_of_u64 E (ucast (audio_target c))) \<and>
       get_field (KName ''speaking'') (speak user) = LBool (\<not> end_frame) \<and>
       get_field (KName ''data'') (speak user) = LStr data)"
proof -
  let ?h = "voice_header 4 (audio_target c) number" and ?fw = "frame_word (length data) end_frame"
  let ?f = "varint_bytes (ucast ?fw) @ data" and ?z = "replicate 5760 (0::u8)"
  have h: "?h \<noteq> []" "length ?h \<le> 10" "drop 1 ?h = varint_bytes (ucast number)"
    using length_varint_bytes_bounds(2) by (simp_all add: voice_header_def)
  have z: "10 \<le> length ?z" by simp
  define rest where "rest = drop (length ?h + length ?f) ?z"
  obtain speak where speak:
    "\<And>s c'. mumble_handle_speaking_hooks_legacy E W
      (varint_bytes (ucast number) @ varint_bytes (ucast ?fw) @ data @ rest) 4 (audio_target c) s c' =
      speaking_hooks E W s (\<not> end_frame) data speak c'"
    and fields: "\<And>user. get_field (KName ''sequence'') (speak user) = LNum (d_of_u64 E (ucast number)) \<and>
       get_field (KName ''target'') (speak user) = LNum (d_of_u64 E (ucast (audio_target c))) \<and>
       get_field (KName ''speaking'') (speak user) = LBool (\<not> end_frame) \<and>
       get_field (KName ''data'') (speak user) = LStr data"
    using own_packet_heard [OF assms, of E W "ucast number" end_frame rest "audio_target c"] by blast
  have frame: "voicepacket_setframe 4 ?fw data
      \<lparr> vp_buffer = ?h @ drop (length ?h) ?z, vp_length = length ?h, vp_header_length = length ?h \<rparr> =
    (if length (?h @ ?f) > 5760 then None
     else Some (1, \<lparr> vp_buffer = ?h @ ?f @ rest, vp_length = length (?h @ ?f), vp_header_length = length ?h \<rparr>))"
    using h by (simp add: setframe_eq [OF assms h(1)] Let_def rest_def) (auto simp: add.commute)
  have "send_legacy_audio E W (Some data) end_frame number c =
    (if length (?h @ ?f) > 5760 then None
     else if length (?h @ ?f) > 1024 then Some (True, c)
     else do {
       c \<leftarrow> send_voice E W (?h @ ?f) c;
       c \<leftarrow> speaking_hooks E W (session c) (\<not> end_frame) data speak c;
       Some (False, c)
     })"
  proof (cases "length (?h @ ?f) > 5760")
    case True
    with frame show ?thesis
      by (simp only: send_legacy_audio_def voicepacket_init_def Option.bind.simps option.case Let_def
          setheader_eq [OF z] prod.case sent_header if_True)
  next
    case False
    have "take (length (?h @ ?f)) (?h @ ?f @ rest) = ?h @ ?f"
      by (metis append.assoc append_eq_conv_conj)
    moreover have "drop 1 (?h @ ?f @ rest) = varint_bytes (ucast number) @ varint_bytes (ucast ?fw) @ data @ rest"
      using h by (simp add: voice_header_def)
    ultimately have tail: "(do {
       c \<leftarrow> send_voice E W (take (length (?h @ ?f)) (?h @ ?f @ rest)) c;
       c \<leftarrow> mumble_handle_speaking_hooks_legacy E W (drop 1 (?h @ ?f @ rest)) 4 (audio_target c) (session c) c;
       Some (False, c)
     }) = (do {
       c \<leftarrow> send_voice E W (?h @ ?f) c;
       c \<leftarrow> speaking_hooks E W (session c) (\<not> end_frame) data speak c;
       Some (False, c)
     })"
      using speak by (cases "send_voice E W (?h @ ?f) c") (auto dest!: send_voice_frame)
    from False frame show ?thesis
      by (simp only: send_legacy_audio_def voicepacket_init_def Option.bind.simps option.case Let_def
          setheader_eq [OF z] prod.case sent_header if_False voicepacket_getlength_def tail
          VoicePacket.simps one_neq_zero simp_thms)
  qed
  then show ?thesis using fields by (intro exI [of _ speak]) (simp add: Let_def)
qed

theorem legacy_audio_sent_witness:
  "send_legacy_audio sample_env sample_world (Some (replicate 6000 1)) False 0 (mumble_client_new 1 4 0 0 0) = None \<and>
   send_legacy_audio sample_env sample_world (Some (replicate 1021 1)) False 0 (mumble_client_new 1 4 0 0 0) =
     Some (True, mumble_client_new 1 4 0 0 0)"
proof -
  have len: "length (voice_header 4 (audio_target c) 0) = 2" for c
    by (simp add: voice_header_def varint_bytes_def)
  have f: "length (varint_bytes (ucast (frame_word 6000 False))) = 2"
    "length (varint_bytes (ucast (frame_word 1021 False))) = 2"
    by (simp_all add: frame_word_def length_varint_bytes)
  let ?c = "mumble_client_new 1 4 0 0 0"
  have "send_legacy_audio sample_env sample_world (Some (replicate 6000 1)) False 0 ?c = None"
    using legacy_audio_sent [of "replicate 6000 1" sample_env sample_world False 0 ?c] len [of ?c] f
    by (auto simp: Let_def)
  moreover have "send_legacy_audio sample_env sample_world (Some (replicate 1021 1)) False 0 ?c = Some (True, ?c)"
    using legacy_audio_sent [of "replicate 1021 1" sample_env sample_world False 0 ?c] len [of ?c] f
    by (auto simp: Let_def)
  ultimately show ?thesis by blast
qed

end
