(* ===== verification/Ring.thy ===== *)
theory Ring
  imports Prelude
begin

text \<open>
  The ring of samples between the thread that reads audio files and the thread that plays them
  (\<open>ring_count\<close>, \<open>ring_space\<close>, \<open>ring_write\<close>, \<open>ring_read\<close> of \<open>mumble/audio.c\<close>): first the functions
  run without interruption, then their atomic steps, interleaved. The members of \<open>struct AudioStream\<close>
  used are the buffer, \<open>used\<close>, \<open>head\<close> and \<open>tail\<close>; a sample is the bits of a float.
\<close>

section \<open>The functions\<close>

record ring =
  rg_buffer :: "u32 list"
  rg_used :: nat
  rg_head :: nat
  rg_tail :: nat

abbreviation buffer_size :: "ring \<Rightarrow> nat" where
  "buffer_size s \<equiv> length (rg_buffer s)"

definition ring_count :: "ring \<Rightarrow> nat" where
  "ring_count s = rg_used s"

definition ring_space :: "ring \<Rightarrow> nat" where
  "ring_space s = (let used = ring_count s in if used \<ge> buffer_size s then 0 else buffer_size s - used)"

text \<open>The two copies of \<open>memcpy\<close>, up to the end of the buffer and from its start.\<close>

definition copy_in :: "u32 list \<Rightarrow> nat \<Rightarrow> nat \<Rightarrow> u32 list \<Rightarrow> u32 list option" where
  "copy_in src count head b = (
     let first = length b - head;
         first = (if first > count then count else first)
     in do {
       part \<leftarrow> slice src 0 first;
       b \<leftarrow> poke b head part;
       if count > first then do { part \<leftarrow> slice src first (count - first); poke b 0 part }
       else Some b
     })"

definition copy_out :: "nat \<Rightarrow> nat \<Rightarrow> u32 list \<Rightarrow> u32 list option" where
  "copy_out count tail b = (
     let first = length b - tail;
         first = (if first > count then count else first)
     in do {
       part \<leftarrow> slice b tail first;
       if count > first then do { part2 \<leftarrow> slice b 0 (count - first); Some (part @ part2) }
       else Some part
     })"

definition ring_write :: "u32 list \<Rightarrow> nat \<Rightarrow> ring \<Rightarrow> (nat \<times> ring) option" where
  "ring_write src count s =
     (let head = rg_head s;
          space = ring_space s;
          count = (if count > space then space else count)
      in if count = 0 then Some (0, s)
         else do {
           b \<leftarrow> copy_in src count head (rg_buffer s);
           Some (count, s \<lparr> rg_buffer := b, rg_head := (head + count) mod buffer_size s,
                            rg_used := rg_used s + count \<rparr>)
         })"

definition ring_read :: "nat \<Rightarrow> ring \<Rightarrow> (u32 list \<times> ring) option" where
  "ring_read count s =
     (let tail = rg_tail s;
          avail = ring_count s;
          count = (if count > avail then avail else count)
      in if count = 0 then Some ([], s)
         else do {
           xs \<leftarrow> copy_out count tail (rg_buffer s);
           Some (xs, s \<lparr> rg_tail := (tail + count) mod buffer_size s, rg_used := rg_used s - count \<rparr>)
         })"

section \<open>The steps of a writer and a reader\<close>

text \<open>
  One thread writes, one reads. Each function is four atomic steps: the loads, the copy, the store
  of the new position and the change of \<open>used\<close>. \<open>rs_written\<close> and \<open>rs_read\<close> record the samples that
  were published and taken so far.
\<close>

datatype writer = W_Idle | W_Ready "u32 list" nat | W_Copied "u32 list" nat | W_Moved "u32 list"
datatype reader = R_Idle | R_Ready nat nat | R_Copied "u32 list" nat | R_Moved "u32 list"

record ring_system =
  rs_ring :: ring
  rs_writer :: writer
  rs_reader :: reader
  rs_written :: "u32 list"
  rs_read :: "u32 list"

inductive ring_step :: "ring_system \<Rightarrow> ring_system \<Rightarrow> bool" where
  write_load: "rs_writer S = W_Idle \<Longrightarrow> n = min count (ring_space (rs_ring S)) \<Longrightarrow> n \<noteq> 0 \<Longrightarrow>
    n \<le> length src \<Longrightarrow>
    ring_step S (S \<lparr> rs_writer := W_Ready (take n src) (rg_head (rs_ring S)) \<rparr>)"
| write_copy: "rs_writer S = W_Ready xs h \<Longrightarrow> copy_in xs (length xs) h (rg_buffer (rs_ring S)) = Some b \<Longrightarrow>
    ring_step S (S \<lparr> rs_ring := (rs_ring S) \<lparr> rg_buffer := b \<rparr>, rs_writer := W_Copied xs h \<rparr>)"
| write_head: "rs_writer S = W_Copied xs h \<Longrightarrow>
    ring_step S (S \<lparr> rs_ring := (rs_ring S) \<lparr> rg_head := (h + length xs) mod buffer_size (rs_ring S) \<rparr>,
                     rs_writer := W_Moved xs \<rparr>)"
| write_used: "rs_writer S = W_Moved xs \<Longrightarrow>
    ring_step S (S \<lparr> rs_ring := (rs_ring S) \<lparr> rg_used := rg_used (rs_ring S) + length xs \<rparr>,
                     rs_writer := W_Idle, rs_written := rs_written S @ xs \<rparr>)"
| read_load: "rs_reader S = R_Idle \<Longrightarrow> n = min count (ring_count (rs_ring S)) \<Longrightarrow> n \<noteq> 0 \<Longrightarrow>
    ring_step S (S \<lparr> rs_reader := R_Ready n (rg_tail (rs_ring S)) \<rparr>)"
| read_copy: "rs_reader S = R_Ready n t \<Longrightarrow> copy_out n t (rg_buffer (rs_ring S)) = Some xs \<Longrightarrow>
    ring_step S (S \<lparr> rs_reader := R_Copied xs t \<rparr>)"
| read_tail: "rs_reader S = R_Copied xs t \<Longrightarrow>
    ring_step S (S \<lparr> rs_ring := (rs_ring S) \<lparr> rg_tail := (t + length xs) mod buffer_size (rs_ring S) \<rparr>,
                     rs_reader := R_Moved xs \<rparr>)"
| read_used: "rs_reader S = R_Moved xs \<Longrightarrow>
    ring_step S (S \<lparr> rs_ring := (rs_ring S) \<lparr> rg_used := rg_used (rs_ring S) - length xs \<rparr>,
                     rs_reader := R_Idle, rs_read := rs_read S @ xs \<rparr>)"

definition ring_start :: "u32 list \<Rightarrow> ring_system" where
  "ring_start b =
     \<lparr> rs_ring = \<lparr> rg_buffer = b, rg_used = 0, rg_head = 0, rg_tail = 0 \<rparr>,
       rs_writer = W_Idle, rs_reader = R_Idle, rs_written = [], rs_read = [] \<rparr>"

inductive ring_reachable :: "u32 list \<Rightarrow> ring_system \<Rightarrow> bool" for b where
  start: "ring_reachable b (ring_start b)"
| step: "ring_reachable b S \<Longrightarrow> ring_step S S' \<Longrightarrow> ring_reachable b S'"

section \<open>The copies\<close>

lemma mod_once: "h < N \<Longrightarrow> j \<le> N \<Longrightarrow> (h + j) mod N = (if h + j < N then h + j else h + j - (N::nat))"
  by (auto simp: mod_if)

lemma copy_in_cells:
  assumes "h < length b" "length xs \<le> length b"
  shows "\<exists>b'. copy_in xs (length xs) h b = Some b' \<and> length b' = length b \<and>
    (\<forall>j < length xs. b' ! ((h + j) mod length b) = xs ! j) \<and>
    (\<forall>k < length b. (\<forall>j < length xs. k \<noteq> (h + j) mod length b) \<longrightarrow> b' ! k = b ! k)"
proof -
  let ?N = "length b" and ?n = "length xs"
  show ?thesis
  proof (cases "h + ?n \<le> ?N")
    case True
    let ?b = "take h b @ xs @ drop (h + ?n) b"
    have "copy_in xs ?n h b = Some ?b"
      using True by (auto simp: copy_in_def slice_def poke_def Let_def)
    moreover have "?b ! ((h + j) mod ?N) = xs ! j" if "j < ?n" for j
      using that True assms by (simp add: mod_once nth_append)
    moreover have "?b ! k = b ! k" if k: "k < ?N" "\<forall>j < ?n. k \<noteq> (h + j) mod ?N" for k
    proof -
      have "k < h \<or> h + ?n \<le> k"
      proof (rule ccontr)
        assume "\<not> (k < h \<or> h + ?n \<le> k)"
        then have "k - h < ?n" "k = h + (k - h)" by auto
        with k True show False by (metis mod_less)
      qed
      then show ?thesis using True assms(1) k(1) by (auto simp: nth_append min_def)
    qed
    ultimately show ?thesis using True assms(1) by (intro exI [of _ ?b]) auto
  next
    case False
    let ?f = "?N - h"
    let ?b = "drop ?f xs @ drop (?n - ?f) (take h b) @ take ?f xs"
    have f: "?f < ?n" "?n - ?f \<le> h" using False assms by auto
    have "copy_in xs ?n h b = Some ?b"
      using False assms f by (auto simp: copy_in_def slice_def poke_def Let_def min_def drop_append)
    moreover have "?b ! ((h + j) mod ?N) = xs ! j" if "j < ?n" for j
    proof (cases "h + j < ?N")
      case True
      then show ?thesis using assms f that by (auto simp: mod_once nth_append min_def)
    next
      case wrap: False
      then show ?thesis using assms f that by (auto simp: mod_once nth_append min_def)
    qed
    moreover have "?b ! k = b ! k" if k: "k < ?N" "\<forall>j < ?n. k \<noteq> (h + j) mod ?N" for k
    proof -
      have "k < h"
      proof (rule ccontr)
        assume "\<not> k < h"
        then have "k - h < ?n" "k = h + (k - h)" using f k(1) by auto
        with k show False by (metis mod_less)
      qed
      moreover have "?n - ?f \<le> k"
      proof (rule ccontr)
        assume "\<not> ?n - ?f \<le> k"
        then have "k + ?f < ?n" "(h + (k + ?f)) mod ?N = k" using k(1) assms by (auto simp: mod_if)
        with k(2) show False by metis
      qed
      ultimately show ?thesis using assms f by (auto simp: nth_append min_def)
    qed
    ultimately show ?thesis using assms f by (intro exI [of _ ?b]) auto
  qed
qed

lemma copy_out_cells:
  assumes "t < length b" "n \<le> length b"
  shows "copy_out n t b = Some (map (\<lambda>j. b ! ((t + j) mod length b)) [0 ..< n])"
proof (cases "t + n \<le> length b")
  case True
  have "take n (drop t b) = map (\<lambda>j. b ! ((t + j) mod length b)) [0 ..< n]"
    using True assms by (intro nth_equalityI) (auto simp: mod_once)
  then show ?thesis using True by (auto simp: copy_out_def slice_def Let_def)
next
  case False
  let ?f = "length b - t"
  have "drop t b @ take (n - ?f) b = map (\<lambda>j. b ! ((t + j) mod length b)) [0 ..< n]"
    using False assms by (intro nth_equalityI) (auto simp: mod_once nth_append add.commute)
  then show ?thesis using False assms by (auto simp: copy_out_def slice_def Let_def)
qed


section \<open>The invariant of the steps\<close>

text \<open>
  \<open>holds b N i xs\<close>: the cells from position \<open>i\<close> on, counted without wrapping, hold \<open>xs\<close>. The
  samples published and not yet taken are in the cells from the number of samples taken on.
\<close>

definition holds :: "u32 list \<Rightarrow> nat \<Rightarrow> nat \<Rightarrow> u32 list \<Rightarrow> bool" where
  "holds b N i xs \<longleftrightarrow> (\<forall>j < length xs. b ! ((i + j) mod N) = xs ! j)"

fun writer_inv :: "ring \<Rightarrow> nat \<Rightarrow> nat \<Rightarrow> nat \<Rightarrow> writer \<Rightarrow> bool" where
  "writer_inv r N w d W_Idle = (rg_head r = w mod N)"
| "writer_inv r N w d (W_Ready xs h) = (rg_head r = w mod N \<and> h = w mod N \<and> w + length xs \<le> d + N)"
| "writer_inv r N w d (W_Copied xs h) =
     (h = w mod N \<and> w + length xs \<le> d + N \<and> holds (rg_buffer r) N w xs)"
| "writer_inv r N w d (W_Moved xs) =
     (rg_head r = (w + length xs) mod N \<and> w + length xs \<le> d + N \<and> holds (rg_buffer r) N w xs)"

fun reader_inv :: "ring \<Rightarrow> nat \<Rightarrow> u32 list \<Rightarrow> nat \<Rightarrow> reader \<Rightarrow> bool" where
  "reader_inv r N W d R_Idle = (rg_tail r = d mod N)"
| "reader_inv r N W d (R_Ready n t) = (t = d mod N \<and> d + n \<le> length W)"
| "reader_inv r N W d (R_Copied xs t) =
     (t = d mod N \<and> d + length xs \<le> length W \<and> xs = take (length xs) (drop d W))"
| "reader_inv r N W d (R_Moved xs) =
     (rg_tail r = (d + length xs) mod N \<and> d + length xs \<le> length W \<and> xs = take (length xs) (drop d W))"

definition ring_inv :: "nat \<Rightarrow> ring_system \<Rightarrow> bool" where
  "ring_inv N S \<longleftrightarrow>
     0 < N \<and> buffer_size (rs_ring S) = N \<and>
     length (rs_read S) \<le> length (rs_written S) \<and> length (rs_written S) \<le> length (rs_read S) + N \<and>
     rg_used (rs_ring S) = length (rs_written S) - length (rs_read S) \<and>
     rs_read S = take (length (rs_read S)) (rs_written S) \<and>
     holds (rg_buffer (rs_ring S)) N (length (rs_read S)) (drop (length (rs_read S)) (rs_written S)) \<and>
     writer_inv (rs_ring S) N (length (rs_written S)) (length (rs_read S)) (rs_writer S) \<and>
     reader_inv (rs_ring S) N (rs_written S) (length (rs_read S)) (rs_reader S)"

lemma holds_append: "holds b N i (ys @ xs) \<longleftrightarrow> holds b N i ys \<and> holds b N (i + length ys) xs"
proof -
  have "(\<forall>j < length ys + length xs. b ! ((i + j) mod N) = (ys @ xs) ! j) \<longleftrightarrow>
      (\<forall>j < length ys. b ! ((i + j) mod N) = ys ! j) \<and>
      (\<forall>j < length xs. b ! ((i + length ys + j) mod N) = xs ! j)" (is "?l \<longleftrightarrow> ?a \<and> ?b")
  proof
    assume l: ?l
    have ?a using l by (auto simp: nth_append)
    moreover have ?b
    proof (intro allI impI)
      fix j assume "j < length xs"
      with l have "b ! ((i + (length ys + j)) mod N) = (ys @ xs) ! (length ys + j)" by simp
      then show "b ! ((i + length ys + j) mod N) = xs ! j" by (simp add: add.assoc)
    qed
    ultimately show "?a \<and> ?b" ..
  next
    assume r: "?a \<and> ?b"
    show ?l
    proof (intro allI impI)
      fix j assume j: "j < length ys + length xs"
      show "b ! ((i + j) mod N) = (ys @ xs) ! j"
      proof (cases "j < length ys")
        case False
        then have "j - length ys < length xs" "i + length ys + (j - length ys) = i + j" using j by auto
        with r False show ?thesis by (metis nth_append)
      qed (use r in \<open>simp add: nth_append\<close>)
    qed
  qed
  then show ?thesis by (simp add: holds_def)
qed

lemma distinct_cells:
  assumes "(i::nat) < k" "k < i + N"
  shows "i mod N \<noteq> k mod N"
proof
  assume "i mod N = k mod N"
  then have "N dvd k - i" using assms(1) by (metis mod_eq_dvd_iff_nat less_imp_le)
  then show False using assms nat_dvd_not_less [of "k - i" N] by auto
qed

text \<open>The copy of the writer, into the free cells, leaves the published samples alone.\<close>

lemma copy_in_holds:
  assumes "0 < length b" "w + length xs \<le> d + length b" "d \<le> w"
  shows "\<exists>b'. copy_in xs (length xs) (w mod length b) b = Some b' \<and> length b' = length b \<and>
    holds b' (length b) w xs \<and> (\<forall>ys. d + length ys \<le> w \<longrightarrow> holds b (length b) d ys \<longrightarrow> holds b' (length b) d ys)"
proof -
  let ?N = "length b"
  have "w mod ?N < ?N" "length xs \<le> ?N" using assms by auto
  from copy_in_cells [OF this] obtain b' where b':
    "copy_in xs (length xs) (w mod ?N) b = Some b'" "length b' = ?N"
    "\<And>j. j < length xs \<Longrightarrow> b' ! ((w mod ?N + j) mod ?N) = xs ! j"
    "\<And>k. k < ?N \<Longrightarrow> (\<And>j. j < length xs \<Longrightarrow> k \<noteq> (w mod ?N + j) mod ?N) \<Longrightarrow> b' ! k = b ! k"
    by blast
  have "holds b' ?N w xs" using b'(3) by (simp add: holds_def mod_add_left_eq)
  moreover have "holds b' ?N d ys" if ys: "d + length ys \<le> w" "holds b ?N d ys" for ys
    unfolding holds_def
  proof (intro allI impI)
    fix i assume i: "i < length ys"
    have "(d + i) mod ?N \<noteq> (w mod ?N + j) mod ?N" if "j < length xs" for j
      using distinct_cells [of "d + i" "w + j" ?N] that i ys(1) assms(2) by (simp add: mod_add_left_eq)
    then have "b' ! ((d + i) mod ?N) = b ! ((d + i) mod ?N)"
      using assms(1) by (intro b'(4)) auto
    with ys(2) i show "b' ! ((d + i) mod ?N) = ys ! i" by (simp add: holds_def)
  qed
  ultimately show ?thesis using b'(1,2) by blast
qed

lemma copy_out_holds:
  assumes "0 < length b" "holds b (length b) d (drop d W)" "d + n \<le> length W" "n \<le> length b"
  shows "copy_out n (d mod length b) b = Some (take n (drop d W))"
proof -
  have "map (\<lambda>j. b ! ((d mod length b + j) mod length b)) [0 ..< n] = take n (drop d W)"
    using assms(2,3) by (intro nth_equalityI) (auto simp: holds_def mod_add_left_eq)
  then show ?thesis using copy_out_cells [of "d mod length b" b n] assms(1,4) by simp
qed

lemma ring_inv_start: "0 < length b \<Longrightarrow> ring_inv (length b) (ring_start b)"
  by (simp add: ring_inv_def ring_start_def holds_def)

lemma ring_inv_step: "ring_step S S' \<Longrightarrow> ring_inv N S \<Longrightarrow> ring_inv N S'"
proof (induction rule: ring_step.induct)
  case (write_load S n count src)
  then show ?case by (auto simp: ring_inv_def ring_space_def ring_count_def Let_def split: if_splits)
next
  case (write_copy S xs h b)
  let ?r = "rs_ring S" and ?w = "length (rs_written S)" and ?d = "length (rs_read S)"
  have inv: "0 < buffer_size ?r" "?w + length xs \<le> ?d + buffer_size ?r" "?d \<le> ?w" "h = ?w mod buffer_size ?r"
    "N = buffer_size ?r"
    using write_copy by (auto simp: ring_inv_def)
  from copy_in_holds [OF inv(1-3)] write_copy(2) inv(4) have b: "length b = buffer_size ?r"
    "holds b N ?w xs" "\<And>ys. ?d + length ys \<le> ?w \<Longrightarrow> holds (rg_buffer ?r) N ?d ys \<Longrightarrow> holds b N ?d ys"
    by (auto simp: inv(5))
  with write_copy inv show ?case
    by (cases "rs_reader S") (auto simp: ring_inv_def)
next
  case (write_head S xs h)
  then show ?case by (cases "rs_reader S") (auto simp: ring_inv_def mod_add_left_eq)
next
  case (write_used S xs)
  let ?w = "length (rs_written S)" and ?d = "length (rs_read S)"
  have d: "?d \<le> ?w" "length (drop ?d (rs_written S)) = ?w - ?d" using write_used by (auto simp: ring_inv_def)
  from write_used d show ?case
    by (cases "rs_reader S") (simp_all add: ring_inv_def holds_append)
next
  case (read_load S n count)
  then show ?case by (cases "rs_writer S") (auto simp: ring_inv_def ring_count_def)
next
  case (read_copy S n t xs)
  then have "copy_out n t (rg_buffer (rs_ring S)) = Some (take n (drop (length (rs_read S)) (rs_written S)))"
    using copy_out_holds [of "rg_buffer (rs_ring S)" "length (rs_read S)" "rs_written S" n]
    by (auto simp: ring_inv_def)
  with read_copy show ?case by (auto simp: ring_inv_def min_def)
next
  case (read_tail S xs t)
  then show ?case by (cases "rs_writer S") (auto simp: ring_inv_def mod_add_left_eq)
next
  case (read_used S xs)
  let ?d = "length (rs_read S)"
  have xs: "?d + length xs \<le> length (rs_written S)" "xs = take (length xs) (drop ?d (rs_written S))"
    and prefix: "rs_read S = take ?d (rs_written S)"
    and cells: "holds (rg_buffer (rs_ring S)) N ?d (drop ?d (rs_written S))"
    using read_used by (auto simp: ring_inv_def)
  have "drop ?d (rs_written S) = xs @ drop (?d + length xs) (rs_written S)"
    using xs by (metis append_take_drop_id drop_drop add.commute)
  then have "holds (rg_buffer (rs_ring S)) N (?d + length xs) (drop (?d + length xs) (rs_written S))"
    using cells by (simp add: holds_append)
  moreover have "rs_read S @ xs = take (?d + length xs) (rs_written S)"
    using xs(2) prefix by (simp add: take_add)
  moreover have "writer_inv (rs_ring S) N (length (rs_written S)) (?d + length xs) q"
    if "writer_inv (rs_ring S) N (length (rs_written S)) ?d q" for q
    using that by (cases q) auto
  ultimately show ?case
    using read_used xs(1) by (cases "rs_writer S") (auto simp: ring_inv_def)
qed

lemma ring_reachable_inv: "ring_reachable b S \<Longrightarrow> 0 < length b \<Longrightarrow> ring_inv (length b) S"
  by (induction rule: ring_reachable.induct) (auto intro: ring_inv_start ring_inv_step)

section \<open>The functions are runs of the steps\<close>

lemma copy_in_take: "n \<le> length src \<Longrightarrow> copy_in (take n src) n h b = copy_in src n h b"
proof -
  assume "n \<le> length src"
  then have "slice (take n src) i m = slice src i m" if "i + m \<le> n" for i m
    using that by (simp add: slice_def drop_take)
  then show ?thesis by (auto simp: copy_in_def Let_def cong: if_cong)
qed

lemma ring_write_steps:
  assumes "rs_writer S = W_Idle" "ring_write src count (rs_ring S) = Some (n, r')" "n \<noteq> 0" "count \<le> length src"
  shows "ring_step\<^sup>*\<^sup>* S (S \<lparr> rs_ring := r', rs_written := rs_written S @ take n src \<rparr>)"
proof -
  let ?r = "rs_ring S" and ?xs = "take n src"
  have n: "n = min count (ring_space ?r)" "n \<le> length src"
    using assms(2,3,4) by (auto simp: ring_write_def Let_def bind_eq_Some_conv split: if_splits)
  obtain b where b: "copy_in src n (rg_head ?r) (rg_buffer ?r) = Some b"
    and r': "r' = ?r \<lparr> rg_buffer := b, rg_head := (rg_head ?r + n) mod buffer_size ?r, rg_used := rg_used ?r + n \<rparr>"
    using assms(2,3) by (auto simp: ring_write_def Let_def bind_eq_Some_conv split: if_splits)
  have l: "length ?xs = n" using n(2) by simp
  have "length b = buffer_size ?r"
    using b by (auto simp: copy_in_def Let_def bind_eq_Some_conv dest!: poke_length split: if_splits)
  let ?S1 = "S \<lparr> rs_writer := W_Ready ?xs (rg_head ?r) \<rparr>"
  let ?S2 = "?S1 \<lparr> rs_ring := ?r \<lparr> rg_buffer := b \<rparr>, rs_writer := W_Copied ?xs (rg_head ?r) \<rparr>"
  let ?S3 = "?S2 \<lparr> rs_ring := ?r \<lparr> rg_buffer := b, rg_head := (rg_head ?r + n) mod length b \<rparr>,
                  rs_writer := W_Moved ?xs \<rparr>"
  have "ring_step S ?S1" by (rule write_load [OF assms(1) n(1) assms(3) n(2)])
  moreover have "ring_step ?S1 ?S2"
    using write_copy [of ?S1 ?xs "rg_head ?r" b] b l by (simp add: copy_in_take [OF n(2)])
  moreover have "ring_step ?S2 ?S3"
    using write_head [of ?S2 ?xs "rg_head ?r"] l by simp
  moreover have "ring_step ?S3 (S \<lparr> rs_ring := r', rs_written := rs_written S @ ?xs \<rparr>)"
    using write_used [of ?S3 ?xs] l assms(1) \<open>length b = _\<close> by (cases S) (simp add: r')
  ultimately show ?thesis by (meson rtranclp.rtrancl_into_rtrancl rtranclp.rtrancl_refl)
qed

lemma ring_read_steps:
  assumes "rs_reader S = R_Idle" "ring_read count (rs_ring S) = Some (xs, r')" "xs \<noteq> []"
  shows "ring_step\<^sup>*\<^sup>* S (S \<lparr> rs_ring := r', rs_read := rs_read S @ xs \<rparr>)"
proof -
  let ?r = "rs_ring S"
  define n where "n = min count (ring_count ?r)"
  have x: "n \<noteq> 0" "copy_out n (rg_tail ?r) (rg_buffer ?r) = Some xs"
    "r' = ?r \<lparr> rg_tail := (rg_tail ?r + n) mod buffer_size ?r, rg_used := rg_used ?r - n \<rparr>"
    using assms(2,3) by (auto simp: ring_read_def Let_def bind_eq_Some_conv n_def min_def split: if_splits)
  have l: "length xs = n"
    using x(2) by (auto simp: copy_out_def Let_def slice_def bind_eq_Some_conv split: if_splits)
  let ?S1 = "S \<lparr> rs_reader := R_Ready n (rg_tail ?r) \<rparr>"
  let ?S2 = "?S1 \<lparr> rs_reader := R_Copied xs (rg_tail ?r) \<rparr>"
  let ?S3 = "?S2 \<lparr> rs_ring := ?r \<lparr> rg_tail := (rg_tail ?r + n) mod buffer_size ?r \<rparr>, rs_reader := R_Moved xs \<rparr>"
  have "ring_step S ?S1" by (rule read_load [OF assms(1) n_def x(1)])
  moreover have "ring_step ?S1 ?S2" using read_copy [of ?S1 n "rg_tail ?r" xs] x(2) by simp
  moreover have "ring_step ?S2 ?S3" using read_tail [of ?S2 xs "rg_tail ?r"] l by simp
  moreover have "ring_step ?S3 (S \<lparr> rs_ring := r', rs_read := rs_read S @ xs \<rparr>)"
    using read_used [of ?S3 xs] l assms(1) by (cases S) (simp add: x(3))
  ultimately show ?thesis by (meson rtranclp.rtrancl_into_rtrancl rtranclp.rtrancl_refl)
qed

section \<open>Resetting the ring\<close>

text \<open>
  What \<open>audiostream_reset_playback_state\<close> does to the ring. It runs on the main thread and does not
  wait for the writer.
\<close>

definition ring_reset :: "ring \<Rightarrow> ring" where
  "ring_reset r = r \<lparr> rg_used := 0, rg_head := 0, rg_tail := 0 \<rparr>"

text \<open>
  Between the writer's copy and its publication the reset breaks the ring: a reader then gets cells
  that were never written, and the position of the writer no longer matches the samples counted.
\<close>

lemma reset_race:
  "\<exists>S r. ring_reachable [0, 0, 0, 0] S \<and> rs_writer S = W_Moved [7, 8] \<and> rs_written S = [1, 2] \<and>
     r = (ring_reset (rs_ring S)) \<lparr> rg_used := 2 \<rparr> \<and>
     map_option fst (ring_read 2 r) = Some [1, 2] \<and> rg_head r \<noteq> (rg_tail r + rg_used r) mod buffer_size r"
proof -
  let ?S0 = "ring_start [0, 0, 0, 0]"
  let ?r1 = "\<lparr> rg_buffer = [1, 2, 0, 0], rg_used = 2, rg_head = 2, rg_tail = 0 \<rparr>"
  let ?S1 = "?S0 \<lparr> rs_ring := ?r1, rs_written := [1, 2] \<rparr>"
  have "ring_write [1, 2] 2 (rs_ring ?S0) = Some (2, ?r1)"
    by (simp add: ring_start_def ring_write_def ring_space_def ring_count_def copy_in_def slice_def poke_def Let_def)
  then have "ring_step\<^sup>*\<^sup>* ?S0 ?S1"
    using ring_write_steps [of ?S0 "[1, 2]" 2 2 ?r1] by (simp add: ring_start_def)
  then have r1: "ring_reachable [0, 0, 0, 0] ?S1"
    by (induction rule: rtranclp_induct) (auto intro: ring_reachable.intros)
  let ?S2 = "?S1 \<lparr> rs_writer := W_Ready [7, 8] 2 \<rparr>"
  let ?S3 = "?S2 \<lparr> rs_ring := ?r1 \<lparr> rg_buffer := [1, 2, 7, 8] \<rparr>, rs_writer := W_Copied [7, 8] 2 \<rparr>"
  let ?S4 = "?S3 \<lparr> rs_ring := ?r1 \<lparr> rg_buffer := [1, 2, 7, 8], rg_head := 0 \<rparr>, rs_writer := W_Moved [7, 8] \<rparr>"
  have "ring_step ?S1 ?S2"
    using write_load [of ?S1 2 2 "[7, 8]"] by (simp add: ring_start_def ring_space_def ring_count_def)
  moreover have "ring_step ?S2 ?S3"
    using write_copy [of ?S2 "[7, 8]" 2 "[1, 2, 7, 8]"]
    by (simp add: copy_in_def slice_def poke_def Let_def)
  moreover have "ring_step ?S3 ?S4" using write_head [of ?S3 "[7, 8]" 2] by simp
  ultimately have "ring_reachable [0, 0, 0, 0] ?S4" using r1 by (meson ring_reachable.step)
  then show ?thesis
    by (intro exI [of _ ?S4] exI [of _ "(ring_reset (rs_ring ?S4)) \<lparr> rg_used := 2 \<rparr>"] conjI) (simp_all add: ring_reset_def ring_read_def ring_count_def copy_out_def slice_def Let_def)
qed

section \<open>Properties\<close>

text \<open>
  C8. However the steps of the two threads interleave, the ring is a bounded queue: the samples taken
  are the first of the samples published, in order and each once, \<open>used\<close> counts the others and never
  exceeds the size, and every copy that is begun stays inside the buffer; the reader's yields the
  next samples of the queue.
\<close>

theorem ring_is_queue:
  assumes "0 < length b" "ring_reachable b S"
  shows "(\<exists>queue. rs_written S = rs_read S @ queue \<and> length queue = rg_used (rs_ring S) \<and>
      length queue \<le> length b \<and>
      (\<forall>n t. rs_reader S = R_Ready n t \<longrightarrow>
        copy_out n t (rg_buffer (rs_ring S)) = Some (take n queue) \<and> n \<le> length queue)) \<and>
    (\<forall>xs h. rs_writer S = W_Ready xs h \<longrightarrow>
      copy_in xs (length xs) h (rg_buffer (rs_ring S)) \<noteq> None)"
proof -
  let ?d = "length (rs_read S)" and ?w = "length (rs_written S)" and ?r = "rs_ring S"
  have inv: "ring_inv (length b) S" by (rule ring_reachable_inv [OF assms(2,1)])
  then have facts: "buffer_size ?r = length b" "?d \<le> ?w" "?w \<le> ?d + length b" "rg_used ?r = ?w - ?d"
    "rs_read S = take ?d (rs_written S)" "holds (rg_buffer ?r) (length b) ?d (drop ?d (rs_written S))"
    by (auto simp: ring_inv_def)
  let ?q = "drop ?d (rs_written S)"
  have "rs_written S = rs_read S @ ?q" using facts(5) by (metis append_take_drop_id)
  moreover have "length ?q = rg_used ?r" "length ?q \<le> length b" using facts(3,4) by simp_all
  moreover have "copy_out n t (rg_buffer ?r) = Some (take n ?q) \<and> n \<le> length ?q"
    if "rs_reader S = R_Ready n t" for n t
  proof -
    have "t = ?d mod buffer_size ?r" "?d + n \<le> ?w" using inv that facts(1) by (auto simp: ring_inv_def)
    then show ?thesis
      using copy_out_holds [of "rg_buffer ?r" ?d "rs_written S" n] facts assms(1) by simp
  qed
  moreover have "copy_in xs (length xs) h (rg_buffer ?r) \<noteq> None" if "rs_writer S = W_Ready xs h" for xs h
  proof -
    have "h = ?w mod buffer_size ?r" "?w + length xs \<le> ?d + buffer_size ?r"
      using inv that facts(1) by (auto simp: ring_inv_def)
    then show ?thesis using copy_in_holds [of "rg_buffer ?r" ?w xs ?d] facts(1,2) assms(1) by auto
  qed
  ultimately show ?thesis by blast
qed

theorem ring_is_queue_witness:
  "\<exists>S. ring_reachable [0, 0] S \<and> rs_writer S = W_Ready [5] 0 \<and>
     copy_in [5] 1 0 (rg_buffer (rs_ring S)) \<noteq> None"
proof -
  let ?S = "(ring_start [0, 0]) \<lparr> rs_writer := W_Ready [5] 0 \<rparr>"
  have "ring_step (ring_start [0, 0]) ?S"
    using write_load [of "ring_start [0, 0]" 1 1 "[5]"]
    by (simp add: ring_start_def ring_space_def ring_count_def)
  then have r: "ring_reachable [0, 0] ?S" by (meson ring_reachable.intros)
  have "copy_in [5] 1 0 (rg_buffer (rs_ring ?S)) \<noteq> None"
    using ring_is_queue [OF _ r] by simp
  with r show ?thesis by (intro exI [of _ ?S]) simp
qed

end
