(* ===== verification/Targets.thy ===== *)
theory Targets
  imports Bindings
begin

text \<open>
  Voice targets (\<open>mumble/target.c\<close>): the object a script fills before it registers it with a client.
  The group is a pointer into the string of the caller, which the object does not keep alive; the
  model has the text as it was.
\<close>

section \<open>Methods\<close>

type_synonym target_method = "world \<Rightarrow> voice_target \<Rightarrow> lval list \<Rightarrow> (lval list \<times> voice_target) lua_result"

definition mumble_target_new :: voice_target where
  "mumble_target_new =
     \<lparr> vt_session = [], vt_channel_id = None, vt_group = None, vt_links = None, vt_children = None \<rparr>"

definition target_addUser :: target_method where
  "target_addUser W t args =
     (case Option.bind (arg args 2) session_of of
        None \<Rightarrow> Inl (BadArgument 2 ''mumble.user expected'')
      | Some user \<Rightarrow>
          if memory W then Inr ([], t \<lparr> vt_session := vt_session t @ [user] \<rparr>) else Inl NoMemory)"

text \<open>
  The loop stores into the value below the top of the stack, which is the index and not the table:
  with a first session it raises.
\<close>

definition target_getUsers :: target_method where
  "target_getUsers W t args =
     (if vt_session t = [] then Inr ([LTable []], t)
      else Inl (LuaError ''attempt to index a number value''))"

definition target_setChannel :: target_method where
  "target_setChannel W t args =
     bind_result (check_channel args 2) (\<lambda>channel. Inr ([], t \<lparr> vt_channel_id := Some channel \<rparr>))"

text \<open>A member that was not set reads as the default of the message.\<close>

definition target_getChannel :: target_method where
  "target_getChannel W t args =
     Inr ([vint (case vt_channel_id t of None \<Rightarrow> 0 | Some channel \<Rightarrow> channel)], t)"

definition target_setGroup :: target_method where
  "target_setGroup W t args =
     bind_result (check_string args 2) (\<lambda>g. Inr ([], t \<lparr> vt_group := Some g \<rparr>))"

definition target_getGroup :: target_method where
  "target_getGroup W t args = Inr ([vstr (vt_group t)], t)"

definition target_setLinks :: target_method where
  "target_setLinks W t args =
     bind_result (luaL_checkboolean args 2) (\<lambda>links. Inr ([], t \<lparr> vt_links := Some links \<rparr>))"

definition target_getLinks :: target_method where
  "target_getLinks W t args = Inr ([LBool (vt_links t = Some True)], t)"

definition target_setChildren :: target_method where
  "target_setChildren W t args =
     bind_result (luaL_checkboolean args 2) (\<lambda>children. Inr ([], t \<lparr> vt_children := Some children \<rparr>))"

definition target_getChildren :: target_method where
  "target_getChildren W t args = Inr ([LBool (vt_children t = Some True)], t)"

definition target_tostring :: "env \<Rightarrow> nat \<Rightarrow> cstr" where
  "target_tostring E t = bytes_of ''mumble.voicetarget: '' @ pointer_text E (LTarget t)"

definition mumble_target :: "(string \<times> target_method) list" where
  "mumble_target =
     [(''addUser'', target_addUser), (''getUsers'', target_getUsers),
      (''setChannel'', target_setChannel), (''getChannel'', target_getChannel),
      (''setGroup'', target_setGroup), (''getGroup'', target_getGroup),
      (''setLinks'', target_setLinks), (''getLinks'', target_getLinks),
      (''setChildren'', target_setChildren), (''getChildren'', target_getChildren)]"

section \<open>The packed target\<close>

text \<open>\<open>MumbleProto.VoiceTarget.Target\<close>, the message the object is.\<close>

definition target_message :: "voice_target \<Rightarrow> (string \<times> pval) list" where
  "target_message t =
     repeated ''session'' (vt_session t) @
     (case vt_channel_id t of None \<Rightarrow> [] | Some channel \<Rightarrow> [(''channel_id'', PU32 channel)]) @
     (case vt_group t of None \<Rightarrow> [] | Some g \<Rightarrow> [(''group'', PStr g)]) @
     (case vt_links t of None \<Rightarrow> [] | Some b \<Rightarrow> [(''links'', PBool b)]) @
     (case vt_children t of None \<Rightarrow> [] | Some b \<Rightarrow> [(''children'', PBool b)])"

text \<open>Users added one after the other are the sessions of the target, in this order.\<close>

fun add_users :: "world \<Rightarrow> u32 list \<Rightarrow> nat \<Rightarrow> voice_target \<Rightarrow> voice_target lua_result" where
  "add_users W [] n t = Inr t"
| "add_users W (s # ss) n t =
     bind_result (target_addUser W t [LTarget n, LUser s]) (\<lambda>r. add_users W ss n (snd r))"

lemma add_users_all:
  "memory W \<Longrightarrow> add_users W ss n t = Inr (t \<lparr> vt_session := vt_session t @ ss \<rparr>)"
  by (induction ss arbitrary: t) (simp_all add: target_addUser_def arg_def)

end
