(* ===== verification/Hooks.thy ===== *)
theory Hooks
  imports Client
begin

text \<open>
  How the callbacks of a hook are called: \<open>mumble_hook_call_ret\<close> of \<open>mumble/mumble.c\<close>, on an
  explicit Lua stack, because what it does right and wrong is what it leaves on the stack. The
  other theories record such a call as one event \<open>Hook\<close>; here are the calls it stands for.
\<close>

section \<open>The Lua stack\<close>

text \<open>
  The bottom first. An index is positive from the bottom or negative from the top; an index that is
  not on the stack, too few values and a \<open>lua_next\<close> on no table are undefined in C.
\<close>

type_synonym lstack = "lval list"

definition lua_index :: "lstack \<Rightarrow> int \<Rightarrow> nat option" where
  "lua_index s i =
     (if 0 < i \<and> i \<le> int (length s) then Some (nat i - 1)
      else if i < 0 \<and> - i \<le> int (length s) then Some (length s - nat (- i))
      else None)"

definition lua_at :: "lstack \<Rightarrow> int \<Rightarrow> lval option" where
  "lua_at s i = map_option (\<lambda>n. s ! n) (lua_index s i)"

definition lua_pushvalue :: "int \<Rightarrow> lstack \<Rightarrow> lstack option" where
  "lua_pushvalue i s = do { v \<leftarrow> lua_at s i; Some (s @ [v]) }"

definition lua_remove :: "int \<Rightarrow> lstack \<Rightarrow> lstack option" where
  "lua_remove i s = do { n \<leftarrow> lua_index s i; Some (take n s @ drop (Suc n) s) }"

definition lua_pop :: "nat \<Rightarrow> lstack \<Rightarrow> lstack option" where
  "lua_pop n s = (if n \<le> length s then Some (take (length s - n) s) else None)"

definition key_value :: "lkey \<Rightarrow> lval" where
  "key_value k = (case k of KName n \<Rightarrow> LStr (bytes_of n) | KInt i \<Rightarrow> LInt i)"

fun entries_after :: "lval \<Rightarrow> ltable \<Rightarrow> ltable option" where
  "entries_after k [] = None"
| "entries_after k (e # es) = (if key_value (fst e) = k then Some es else entries_after k es)"

definition lua_next :: "int \<Rightarrow> lstack \<Rightarrow> (bool \<times> lstack) option" where
  "lua_next i s =
     (case lua_at s i of
        Some (LTable t) \<Rightarrow> do {
          es \<leftarrow> (if last s = LNil then Some t else entries_after (last s) t);
          Some (case es of
              [] \<Rightarrow> (False, butlast s)
            | e # es \<Rightarrow> (True, butlast s @ [key_value (fst e), snd e]))
        }
      | _ \<Rightarrow> None)"

section \<open>Calling the callbacks\<close>

text \<open>
  What the functions of the script do: they return values, or raise an error, of which \<open>mumble_traceback\<close>
  makes a message.
\<close>

type_synonym script_calls = "lval \<Rightarrow> lval list \<Rightarrow> lval + lval list"

text \<open>What \<open>OnError\<close> does to the stack with its argument on the top, and the calls it makes.\<close>

type_synonym error_hook = "lstack \<Rightarrow> (nat \<times> lstack \<times> (lval \<times> lval list) list) option"

definition key_of :: "cstr \<Rightarrow> lkey" where
  "key_of name = KName (map (\<lambda>b. char_of (unat b)) name)"

fun is_function :: "lval \<Rightarrow> bool" where
  "is_function (LFunction f) = True"
| "is_function (LMethod m) = True"
| "is_function _ = False"

text \<open>The run of a hook: the stack, whether a callback has returned values, how many, the calls.\<close>

record hook_run =
  hr_stack :: lstack
  hr_returned :: bool
  hr_nreturns :: nat
  hr_calls :: "(lval \<times> lval list) list"

text \<open>The results \<open>lua_pcall\<close> leaves for a wanted number; \<open>LUA_MULTRET\<close> is \<open>None\<close>.\<close>

definition wanted_results :: "nat option \<Rightarrow> lval list \<Rightarrow> lval list" where
  "wanted_results nresults rs =
     (case nresults of None \<Rightarrow> rs | Some n \<Rightarrow> take n (rs @ replicate n LNil))"

fun push_args :: "nat list \<Rightarrow> lstack \<Rightarrow> lstack option" where
  "push_args [] s = Some s"
| "push_args (i # is) s = do { s \<leftarrow> lua_pushvalue (int i) s; push_args is s }"

text \<open>
  \<open>base\<close> is the index of the traceback function, which stands below the callback and its arguments.
  After an error the message is the argument of the hook \<open>OnError\<close>, which removes it from the stack;
  the code then pops it once more. While \<open>OnError\<close> is called (\<open>erroring\<close>), a callback is called without
  protection and its values are dropped; an error then leaves the function, which does not return: this is None, too.
\<close>

definition call_function ::
  "bool \<Rightarrow> error_hook \<Rightarrow> script_calls \<Rightarrow> lval \<Rightarrow> nat \<Rightarrow> nat \<Rightarrow> nat option \<Rightarrow> hook_run \<Rightarrow> hook_run option" where
  "call_function erroring on_error call owner argpos nargs nresults r = do {
     s \<leftarrow> lua_pushvalue (-2) (hr_stack r);
     s \<leftarrow> push_args [argpos + 1 ..< argpos + nargs + 1] (s @ [owner]);
     let base = length s - (nargs + 1);
     let f = s ! (base - 1);
     let args = drop base s;
     let r = r \<lparr> hr_calls := hr_calls r @ [(f, args)] \<rparr>;
     if erroring then
       (case call f args of
          Inl message \<Rightarrow> None
        | Inr rs \<Rightarrow> Some (r \<lparr> hr_stack := take (base - 1) s \<rparr>))
     else do {
       let s = take (base - 1) s @ [LMethod ''traceback''];
       (case call f args of
          Inl message \<Rightarrow> do {
            (n, s, calls) \<leftarrow> on_error (s @ [message]);
            s \<leftarrow> lua_pop 1 s;
            s \<leftarrow> lua_remove (int base) s;
            Some (r \<lparr> hr_stack := s, hr_calls := hr_calls r @ calls \<rparr>)
          }
        | Inr rs \<Rightarrow> do {
            let s = s @ wanted_results nresults rs;
            let nret = length s - base;
            s \<leftarrow> lua_remove (int base) s;
            if \<not> hr_returned r \<and> nret > 0
            then Some (r \<lparr> hr_stack := s, hr_nreturns := nret, hr_returned := True \<rparr>)
            else do { s \<leftarrow> lua_pop nret s; Some (r \<lparr> hr_stack := s \<rparr>) }
          })
     }
   }"

text \<open>One entry of the table, whose key and value are on the top of the stack.\<close>

definition hook_callback ::
  "bool \<Rightarrow> error_hook \<Rightarrow> script_calls \<Rightarrow> lval \<Rightarrow> nat \<Rightarrow> nat \<Rightarrow> nat option \<Rightarrow> hook_run \<Rightarrow> hook_run option" where
  "hook_callback erroring on_error call owner argpos nargs nresults r = do {
     s \<leftarrow> lua_pushvalue (-2) (hr_stack r);
     v \<leftarrow> lua_at s (-2);
     r \<leftarrow> (if is_function v then call_function erroring on_error call owner argpos nargs nresults (r \<lparr> hr_stack := s \<rparr>)
          else Some (r \<lparr> hr_stack := s \<rparr>));
     s \<leftarrow> lua_pop 2 (hr_stack r);
     Some (r \<lparr> hr_stack := s \<rparr>)
   }"

text \<open>
  The loop, with fuel: \<open>lua_next\<close> goes through the table once, so one step more than the table has
  entries is enough.
\<close>

fun hook_loop ::
  "nat \<Rightarrow> bool \<Rightarrow> error_hook \<Rightarrow> script_calls \<Rightarrow> lval \<Rightarrow> nat \<Rightarrow> nat \<Rightarrow> nat option \<Rightarrow> hook_run \<Rightarrow>
   hook_run option" where
  "hook_loop 0 erroring on_error call owner argpos nargs nresults r = None"
| "hook_loop (Suc fuel) erroring on_error call owner argpos nargs nresults r = do {
     (more, s) \<leftarrow> lua_next (-2) (hr_stack r);
     if more then do {
       r \<leftarrow> hook_callback erroring on_error call owner argpos nargs nresults (r \<lparr> hr_stack := s \<rparr>);
       hook_loop fuel erroring on_error call owner argpos nargs nresults r
     }
     else Some (r \<lparr> hr_stack := s \<rparr>)
   }"

fun remove_args :: "nat \<Rightarrow> nat \<Rightarrow> lstack \<Rightarrow> lstack option" where
  "remove_args 0 argpos s = Some s"
| "remove_args (Suc n) argpos s = do { s \<leftarrow> lua_remove (int argpos + 1) s; remove_args n argpos s }"

text \<open>
  The function but for its call of itself. The result: the number of returned values, the stack, the
  calls made.
\<close>

definition hook_body ::
  "bool \<Rightarrow> error_hook \<Rightarrow> script_calls \<Rightarrow> client \<Rightarrow> cstr \<Rightarrow> nat \<Rightarrow> nat option \<Rightarrow> lstack \<Rightarrow>
   (nat \<times> lstack \<times> (lval \<times> lval list) list) option" where
  "hook_body erroring on_error call c hook nargs nresults s =
     (if self c \<le> -2 then do { s \<leftarrow> lua_pop nargs s; Some (0, s, []) }
      else if length s < nargs then None
      else do {
        let argpos = length s - nargs;
        let callbacks = get_field (key_of hook) (LTable (cl_hooks c));
        s \<leftarrow> lua_remove (-2) (s @ [LTable (cl_hooks c), callbacks]);
        let r = \<lparr> hr_stack = s, hr_returned = False, hr_nreturns = 0, hr_calls = [] \<rparr>;
        r \<leftarrow> (case callbacks of
              LTable t \<Rightarrow>
                hook_loop (length t + 1) erroring on_error call (LClient (self c)) argpos nargs nresults
                  (r \<lparr> hr_stack := s @ [LNil] \<rparr>)
            | _ \<Rightarrow> Some r);
        s \<leftarrow> lua_pop 1 (hr_stack r);
        s \<leftarrow> remove_args nargs argpos s;
        Some (hr_nreturns r, s, hr_calls r)
      })"

text \<open>
  \<open>mumble_hook_call\<close> of \<open>OnError\<close> is a call with \<open>erroring\<close> set, which calls no further hook. \<open>erroring\<close> is the
  static variable of the file: it is set when a callback of \<open>OnError\<close> calls a hook itself.
\<close>

definition call_on_error :: "script_calls \<Rightarrow> client \<Rightarrow> error_hook" where
  "call_on_error call c = hook_body True (\<lambda>s. None) call c (bytes_of ''OnError'') 1 (Some 0)"

definition mumble_hook_call_ret ::
  "bool \<Rightarrow> script_calls \<Rightarrow> client \<Rightarrow> cstr \<Rightarrow> nat \<Rightarrow> nat option \<Rightarrow> lstack \<Rightarrow>
   (nat \<times> lstack \<times> (lval \<times> lval list) list) option" where
  "mumble_hook_call_ret erroring call c hook nargs nresults s =
     hook_body erroring (call_on_error call c) call c hook nargs nresults s"

section \<open>Facts of the stack\<close>

lemma lua_at_top:
  "lua_at (s @ [v]) (-1) = Some v" "lua_at (s @ [u, v]) (-2) = Some u"
  "lua_at (s @ [u, v, w]) (-2) = Some v"
  by (simp_all add: lua_at_def lua_index_def nth_append)

lemma lua_at_pos: "i < length s \<Longrightarrow> lua_at (s @ s') (int (Suc i)) = Some (s ! i)"
  by (simp add: lua_at_def lua_index_def nth_append nat_add_distrib)

lemma lua_pop_append [simp]: "n = length s' \<Longrightarrow> lua_pop n (s @ s') = Some s"
  by (simp add: lua_pop_def)

lemma lua_pop_0 [simp]: "lua_pop 0 s = Some s"
  by (simp add: lua_pop_def)

lemma lua_remove_below: "lua_remove (-2) (s @ [u, v]) = Some (s @ [v])"
  by (simp add: lua_remove_def lua_index_def)

lemma lua_remove_pos: "length s = i \<Longrightarrow> lua_remove (int i + 1) (s @ v # s') = Some (s @ s')"
  by (simp add: lua_remove_def lua_index_def nat_add_distrib)

lemma remove_args_all: "length P = argpos \<Longrightarrow> remove_args (length A) argpos (P @ A @ R) = Some (P @ R)"
  by (induction A) (simp_all add: lua_remove_pos)

lemma push_args_all:
  "i + n \<le> length s \<Longrightarrow>
   push_args [i + 1 ..< i + n + 1] (s @ s') = Some (s @ s' @ take n (drop i s))"
proof (induction n arbitrary: i s')
  case (Suc n)
  have "push_args [i + 1 ..< i + Suc n + 1] (s @ s') =
      push_args [Suc i + 1 ..< Suc i + n + 1] (s @ s' @ [s ! i])"
    using Suc.prems lua_at_pos [of i s s'] by (simp add: upt_conv_Cons lua_pushvalue_def del: upt_Suc)
  also have "\<dots> = Some (s @ (s' @ [s ! i]) @ take n (drop (Suc i) s))"
    using Suc.IH [of "Suc i" "s' @ [s ! i]"] Suc.prems by simp
  finally show ?case using Suc.prems by (simp add: Cons_nth_drop_Suc [symmetric])
qed simp

lemma unat_of_char: "unat (of_char c :: u8) = of_char c"
proof -
  have "(of_char c :: u8) = of_nat (of_char c)" by (simp only: of_nat_of_char)
  then show ?thesis by (simp add: unat_of_nat)
qed

lemma key_value_inject [simp]: "key_value k = key_value k' \<longleftrightarrow> k = k'"
proof -
  have "inj (of_char :: char \<Rightarrow> u8)" by (rule injI) (metis unat_of_char of_char_eq_iff)
  then show ?thesis by (cases k; cases k') (auto simp: key_value_def bytes_of_def inj_map_eq_map)
qed

lemma key_value_not_nil [simp]: "key_value k \<noteq> LNil"
  by (simp add: key_value_def split: lkey.splits)

lemma key_of_bytes: "key_of (bytes_of name) = KName name"
  by (simp add: key_of_def bytes_of_def unat_of_char comp_def)

lemma entries_after_key:
  "distinct (map fst (es @ e # es')) \<Longrightarrow> entries_after (key_value (fst e)) (es @ e # es') = Some es'"
  by (induction es) auto

text \<open>Where the loop stands: below the last key is the table, whose rest is still to come.\<close>

definition at_key :: "lval \<Rightarrow> ltable \<Rightarrow> ltable \<Rightarrow> bool" where
  "at_key k t es \<longleftrightarrow> (if k = LNil then es = t else entries_after k t = Some es)"

lemma lua_next_at:
  assumes "at_key k t es"
  shows "lua_next (-2) (B @ [LTable t, k]) =
    Some (case es of [] \<Rightarrow> (False, B @ [LTable t])
          | e # es \<Rightarrow> (True, B @ [LTable t, key_value (fst e), snd e]))"
proof -
  have "lua_at (B @ [LTable t, k]) (-2) = Some (LTable t)" by (rule lua_at_top)
  moreover have "butlast (B @ [LTable t, k]) = B @ [LTable t]" "last (B @ [LTable t, k]) = k"
    by (simp_all add: butlast_append)
  ultimately show ?thesis using assms by (auto simp: lua_next_def at_key_def split: list.splits)
qed

lemma at_key_step:
  assumes "distinct (map fst t)" "t = before @ e # es"
  shows "at_key (key_value (fst e)) t es"
  using assms entries_after_key by (simp add: at_key_def)

section \<open>One callback\<close>

text \<open>The values a call leaves; the hook for errors takes its argument from the stack and nothing else.\<close>

definition kept_results :: "bool \<Rightarrow> nat option \<Rightarrow> lval list \<Rightarrow> lval list" where
  "kept_results erroring nresults rs = (if erroring then [] else wanted_results nresults rs)"

definition consumes :: "error_hook \<Rightarrow> bool" where
  "consumes on_error \<longleftrightarrow> (\<forall>s m n s' calls. on_error (s @ [m]) = Some (n, s', calls) \<longrightarrow> s' = s)"

lemma call_function_stack:
  assumes "hr_stack r = S" "lua_at S (-2) = Some v" "argpos + nargs \<le> length S"
    "args = owner # take nargs (drop argpos S)" "consumes on_error"
  shows "call_function erroring on_error call owner argpos nargs nresults r =
    (let r = r \<lparr> hr_calls := hr_calls r @ [(v, args)] \<rparr>
     in case call v args of
          Inl m \<Rightarrow> None
        | Inr rs \<Rightarrow>
            let rs = kept_results erroring nresults rs
            in if \<not> hr_returned r \<and> rs \<noteq> []
               then Some (r \<lparr> hr_stack := S @ rs, hr_nreturns := length rs, hr_returned := True \<rparr>)
               else Some r)"
proof -
  have push: "lua_pushvalue (-2) (hr_stack r) = Some (S @ [v])"
    using assms by (simp add: lua_pushvalue_def)
  have pushed: "push_args [argpos + 1 ..< argpos + nargs + 1] ((S @ [v]) @ [owner]) = Some (S @ v # args)"
    using push_args_all [OF assms(3), of "[v, owner]"] assms(4) by simp
  have len: "length (S @ v # args) - (nargs + 1) = length S + 1" using assms(3,4) by simp
  have parts: "(S @ v # args) ! (length S + 1 - 1) = v" "drop (length S + 1) (S @ v # args) = args"
    "take (length S + 1 - 1) (S @ v # args) = S" by simp_all
  have gone: "lua_remove (int (length S + 1)) S = None" by (simp add: lua_remove_def lua_index_def)
  have rem: "lua_remove (int (length S + 1)) ((S @ [x]) @ rs) = Some (S @ rs)" for x rs
    using lua_remove_pos [of S "length S" x rs] by (simp add: add.commute)
  have r: "r \<lparr> hr_calls := h, hr_stack := S \<rparr> = r \<lparr> hr_calls := h \<rparr>" for h using assms(1) by (cases r) simp
  have n: "length ((S @ [x]) @ rs) - (length S + 1) = length rs" for x and rs :: lstack by simp
  have failed: "Option.bind (on_error ((S @ [x]) @ [m])) (\<lambda>(n, s, calls). do {
        s \<leftarrow> lua_pop 1 s;
        s \<leftarrow> lua_remove (int (length S + 1)) s;
        Some (g s calls)
      }) = None" for x m and g :: "lstack \<Rightarrow> (lval \<times> lval list) list \<Rightarrow> hook_run"
  proof (cases "on_error ((S @ [x]) @ [m])")
    case (Some w)
    obtain k s' calls where w: "w = (k, s', calls)" by (cases w)
    then have "s' = S @ [x]" using assms(5) Some unfolding consumes_def by blast
    then show ?thesis using Some w gone by (simp only: bind.bind_lunit prod.case lua_pop_append [of 1 "[_]"] list.size bind.bind_lzero)
  qed simp
  show ?thesis
  proof (cases "call v args")
    case (Inl m)
    then show ?thesis
      unfolding call_function_def push pushed bind.bind_lunit Let_def len parts Inl sum.case
      by (cases erroring) (simp_all only: if_True if_False failed)
  next
    case (Inr rs)
    show ?thesis
      unfolding call_function_def push pushed bind.bind_lunit Let_def len parts Inr sum.case
      by (cases erroring) (simp_all only: kept_results_def if_True if_False simp_thms bind.bind_lunit
          rem n r hook_run.simps refl, auto simp: r)
  qed
qed

text \<open>A callback is silent when it returns normally, and returns nothing that is wanted.\<close>

definition silent :: "script_calls \<Rightarrow> nat option \<Rightarrow> lval list \<Rightarrow> lval \<Rightarrow> bool" where
  "silent call nresults args v \<longleftrightarrow>
     (case call v args of Inl m \<Rightarrow> False | Inr rs \<Rightarrow> wanted_results nresults rs = [])"

definition calls_of :: "ltable \<Rightarrow> lval list \<Rightarrow> (lval \<times> lval list) list" where
  "calls_of es args = map (\<lambda>v. (v, args)) (filter is_function (map snd es))"

lemma callback_call:
  assumes "hr_stack r = B @ [T, k, v]" "is_function v" "argpos + nargs \<le> length B"
    "args = owner # take nargs (drop argpos B)" "consumes on_error"
  shows "hook_callback erroring on_error call owner argpos nargs nresults r =
    (let r = r \<lparr> hr_stack := B @ [T, k, v, k], hr_calls := hr_calls r @ [(v, args)] \<rparr>
     in case call v args of
          Inl m \<Rightarrow> None
        | Inr rs \<Rightarrow>
            let rs = kept_results erroring nresults rs
            in if \<not> hr_returned r \<and> rs \<noteq> []
               then do {
                 s \<leftarrow> lua_pop 2 (B @ [T, k, v, k] @ rs);
                 Some (r \<lparr> hr_nreturns := length rs, hr_returned := True, hr_stack := s \<rparr>)
               }
               else Some (r \<lparr> hr_stack := B @ [T, k] \<rparr>))"
proof -
  let ?S = "B @ [T, k, v, k]"
  have at: "lua_at ?S (-2) = Some v" using lua_at_top(2) [of "B @ [T, k]" v k] by simp
  have push: "lua_pushvalue (-2) (hr_stack r) = Some ?S"
    using lua_at_top(2) [of "B @ [T]" k v] assms(1) by (simp add: lua_pushvalue_def)
  have args: "args = owner # take nargs (drop argpos ?S)" using assms(3,4) by simp
  have room: "argpos + nargs \<le> length ?S" using assms(3) by simp
  have pop: "lua_pop 2 ?S = Some (B @ [T, k])" using lua_pop_append [of 2 "[v, k]" "B @ [T, k]"] by simp
  show ?thesis
    unfolding hook_callback_def push bind.bind_lunit at if_P [OF assms(2)]
    by (subst call_function_stack [where S = ?S and v = v and args = args])
      (use at room args pop assms(5) in \<open>auto simp: Let_def split: sum.splits\<close>)
qed

lemma callback_silent:
  assumes "hr_stack r = B @ [T, k, v]" "argpos + nargs \<le> length B"
    "args = owner # take nargs (drop argpos B)" "is_function v \<longrightarrow> silent call nresults args v"
    "consumes on_error"
  shows "hook_callback erroring on_error call owner argpos nargs nresults r =
    Some (r \<lparr> hr_stack := B @ [T, k], hr_calls := hr_calls r @ calls_of [(x, v)] args \<rparr>)"
proof (cases "is_function v")
  case True
  then show ?thesis using callback_call [OF assms(1) True assms(2,3,5), of erroring call nresults] assms(4)
    by (cases r) (auto simp: silent_def kept_results_def calls_of_def Let_def split: sum.splits)
next
  case False
  have "lua_pushvalue (-2) (hr_stack r) = Some (B @ [T, k, v, k])"
    using lua_at_top(2) [of "B @ [T]" k v] assms(1) by (simp add: lua_pushvalue_def)
  moreover have "lua_at (B @ [T, k, v, k]) (-2) = Some v"
    using lua_at_top(2) [of "B @ [T, k]" v k] by simp
  moreover have "lua_pop 2 (B @ [T, k, v, k]) = Some (B @ [T, k])"
    using lua_pop_append [of 2 "[v, k]" "B @ [T, k]"] by simp
  ultimately show ?thesis using False by (cases r) (simp add: hook_callback_def calls_of_def)
qed

section \<open>The loop\<close>

lemma hook_loop_silent:
  assumes "distinct (map fst t)" "argpos + nargs \<le> length B" "args = owner # take nargs (drop argpos B)"
    "consumes on_error"
  shows "\<lbrakk>t = before @ es @ es'; at_key k t (es @ es'); hr_stack r = B @ [LTable t, k];
      \<forall>v\<in>set (map snd es). is_function v \<longrightarrow> silent call nresults args v\<rbrakk> \<Longrightarrow>
    \<exists>k'. at_key k' t es' \<and>
      hook_loop (length es + n) erroring on_error call owner argpos nargs nresults r =
      hook_loop n erroring on_error call owner argpos nargs nresults
        (r \<lparr> hr_stack := B @ [LTable t, k'], hr_calls := hr_calls r @ calls_of es args \<rparr>)"
proof (induction es arbitrary: before k r)
  case Nil
  then show ?case by (intro exI [of _ k]) (cases r, simp add: calls_of_def)
next
  case (Cons e es)
  let ?k = "key_value (fst e)"
  let ?r = "r \<lparr> hr_stack := B @ [LTable t, ?k], hr_calls := hr_calls r @ calls_of [e] args \<rparr>"
  have "lua_next (-2) (hr_stack r) = Some (True, B @ [LTable t, ?k, snd e])"
    using lua_next_at [OF Cons.prems(2), of B] Cons.prems(3) by simp
  moreover have "hook_callback erroring on_error call owner argpos nargs nresults (r \<lparr> hr_stack := B @ [LTable t, ?k, snd e] \<rparr>) =
      Some ?r"
    using callback_silent [of "r \<lparr> hr_stack := B @ [LTable t, ?k, snd e] \<rparr>" B "LTable t" ?k "snd e" argpos
        nargs args owner call nresults on_error erroring "fst e"] assms(2-4) Cons.prems(4) by simp
  ultimately have step: "hook_loop (length (e # es) + n) erroring on_error call owner argpos nargs nresults r =
      hook_loop (length es + n) erroring on_error call owner argpos nargs nresults ?r"
    by simp
  have "\<exists>k'. at_key k' t es' \<and>
      hook_loop (length es + n) erroring on_error call owner argpos nargs nresults ?r =
      hook_loop n erroring on_error call owner argpos nargs nresults
        (?r \<lparr> hr_stack := B @ [LTable t, k'], hr_calls := hr_calls ?r @ calls_of es args \<rparr>)"
    by (rule Cons.IH [of "before @ [e]"])
      (use Cons.prems at_key_step [OF assms(1), of before e "es @ es'"] in simp_all)
  then show ?case unfolding step by (auto simp: calls_of_def)
qed

section \<open>The hook for errors\<close>

text \<open>Calls without protection leave the stack balanced, or do not return.\<close>

lemma hook_loop_erroring:
  assumes "argpos + nargs \<le> length B" "consumes on_error"
  shows "\<lbrakk>hook_loop fuel True on_error call owner argpos nargs nresults r = Some r'; hr_stack r = B @ [LTable t, k]\<rbrakk> \<Longrightarrow>
    hr_stack r' = B @ [LTable t]"
proof (induction fuel arbitrary: k r)
  case (Suc fuel)
  have at: "lua_at (hr_stack r) (-2) = Some (LTable t)" using lua_at_top(2) [of B "LTable t" k] Suc.prems(2) by simp
  obtain more s where n: "lua_next (-2) (hr_stack r) = Some (more, s)" using Suc.prems(1) by (auto split: bind_splits)
  have ends: "butlast (hr_stack r) = B @ [LTable t]" using Suc.prems(2) by (simp add: butlast_append)
  show ?case
  proof (cases more)
    case False
    then have "s = B @ [LTable t]"
      using n at ends by (auto simp: lua_next_def split: list.splits bind_splits)
    with False n Suc.prems(1) show ?thesis by auto
  next
    case True
    then obtain k' v where s: "s = B @ [LTable t, k', v]"
      using n at ends by (auto simp: lua_next_def split: list.splits bind_splits)
    obtain r1 where r1: "hook_callback True on_error call owner argpos nargs nresults (r \<lparr> hr_stack := s \<rparr>) = Some r1"
        "hook_loop fuel True on_error call owner argpos nargs nresults r1 = Some r'"
      using Suc.prems(1) n True by (auto split: bind_splits)
    have "hr_stack r1 = B @ [LTable t, k']"
    proof (cases "is_function v")
      case f: True
      show ?thesis
        using r1(1) callback_call [of "r \<lparr> hr_stack := s \<rparr>" B "LTable t" k' v argpos nargs _ owner on_error True call nresults]
          f s assms by (auto simp: kept_results_def Let_def split: sum.splits)
    next
      case False
      have "lua_pushvalue (-2) s = Some (B @ [LTable t, k', v, k'])"
        using lua_at_top(2) [of "B @ [LTable t]" k' v] s by (simp add: lua_pushvalue_def)
      moreover have "lua_at (B @ [LTable t, k', v, k']) (-2) = Some v"
        using lua_at_top(2) [of "B @ [LTable t, k']" v k'] by simp
      moreover have "lua_pop 2 (B @ [LTable t, k', v, k']) = Some (B @ [LTable t, k'])"
        using lua_pop_append [of 2 "[v, k']" "B @ [LTable t, k']"] by simp
      ultimately show ?thesis using r1(1) False by (auto simp: hook_callback_def)
    qed
    then show ?thesis by (rule Suc.IH [OF r1(2)])
  qed
qed simp

lemma remove_args_end: "remove_args (length A) (length P) (P @ A) = Some P"
  using remove_args_all [of P "length P" A "[]"] by simp

lemma on_error_consumes: "consumes (call_on_error call c)"
  unfolding consumes_def
proof (intro allI impI)
  fix s m n s' calls
  assume e: "call_on_error call c (s @ [m]) = Some (n, s', calls)"
  let ?v = "get_field (key_of (bytes_of ''OnError'')) (LTable (cl_hooks c))"
  have rem: "lua_remove (-2) ((s @ [m]) @ [LTable (cl_hooks c), ?v]) = Some ((s @ [m]) @ [?v])"
    by (rule lua_remove_below)
  have last: "remove_args 1 (length s) (s @ [m]) = Some s" using remove_args_end [of "[m]" s] by simp
  have none: "consumes (\<lambda>s. None)" by (simp add: consumes_def)
  show "s' = s"
  proof (cases "self c \<le> -2")
    case True
    then show ?thesis using e by (auto simp: call_on_error_def hook_body_def)
  next
    case False
    show ?thesis
    proof (cases "\<exists>t. ?v = LTable t")
      case True
      then obtain t where t: "?v = LTable t" by blast
      obtain r where r: "hook_loop (length t + 1) True (\<lambda>s. None) call (LClient (self c)) (length s) 1 (Some 0)
          \<lparr> hr_stack = (s @ [m]) @ [LTable t, LNil], hr_returned = False, hr_nreturns = 0, hr_calls = [] \<rparr> = Some r"
          "lua_pop 1 (hr_stack r) \<bind> remove_args 1 (length s) = Some s'"
        using e False rem t
        by (auto simp: call_on_error_def hook_body_def Let_def simp del: hook_loop.simps remove_args.simps split: bind_splits)
      have "hr_stack r = (s @ [m]) @ [LTable t]"
        by (rule hook_loop_erroring [OF _ none r(1)]) simp_all
      then show ?thesis using r(2) last lua_pop_append [of 1 "[LTable t]" "s @ [m]"] by simp
    next
      case no: False
      then show ?thesis
        using e False rem last lua_pop_append [of 1 "[?v]" "s @ [m]"]
        by (auto simp: call_on_error_def hook_body_def Let_def simp del: remove_args.simps split: lval.splits bind_splits)
    qed
  qed
qed

section \<open>The call of a hook\<close>

definition hook_callbacks :: "client \<Rightarrow> cstr \<Rightarrow> ltable" where
  "hook_callbacks c hook =
     (case get_field (key_of hook) (LTable (cl_hooks c)) of LTable t \<Rightarrow> t | _ \<Rightarrow> [])"

lemma call_ret_run:
  assumes "self c > -2" "get_field (key_of hook) (LTable (cl_hooks c)) = LTable t"
  shows "mumble_hook_call_ret erroring call c hook (length A) nresults (P @ A) = do {
      r \<leftarrow> hook_loop (length t + 1) erroring (call_on_error call c) call (LClient (self c)) (length P) (length A) nresults
            \<lparr> hr_stack = (P @ A) @ [LTable t, LNil], hr_returned = False, hr_nreturns = 0, hr_calls = [] \<rparr>;
      s \<leftarrow> lua_pop 1 (hr_stack r);
      s \<leftarrow> remove_args (length A) (length P) s;
      Some (hr_nreturns r, s, hr_calls r)
    }"
  using assms lua_remove_below [of "P @ A" "LTable (cl_hooks c)" "LTable t"]
  by (simp add: mumble_hook_call_ret_def hook_body_def Let_def del: hook_loop.simps)

text \<open>
  C26. Calling a hook whose callbacks return nothing that is wanted calls every function of the
  table once, in its order, with the client and the arguments, and leaves the stack as it was below
  the arguments. A hook without a table of callbacks does the same and calls nothing. All this holds
  inside the hook for errors, too.
\<close>

theorem hook_calls_all:
  assumes "self c > -2" "distinct (map fst (hook_callbacks c hook))"
    "\<forall>v\<in>set (map snd (hook_callbacks c hook)). is_function v \<longrightarrow> silent call nresults (LClient (self c) # A) v"
  shows "mumble_hook_call_ret erroring call c hook (length A) nresults (P @ A) =
    Some (0, P, map (\<lambda>v. (v, LClient (self c) # A)) (filter is_function (map snd (hook_callbacks c hook))))"
proof (cases "\<exists>t. get_field (key_of hook) (LTable (cl_hooks c)) = LTable t")
  case True
  then obtain t where t: "get_field (key_of hook) (LTable (cl_hooks c)) = LTable t" by blast
  let ?r = "\<lparr> hr_stack = (P @ A) @ [LTable t, LNil], hr_returned = False, hr_nreturns = 0, hr_calls = [] \<rparr>"
  have h: "hook_callbacks c hook = t" using t by (simp add: hook_callbacks_def)
  obtain k where k: "at_key k t []"
    "hook_loop (length t + 1) erroring (call_on_error call c) call (LClient (self c)) (length P) (length A) nresults ?r =
     hook_loop 1 erroring (call_on_error call c) call (LClient (self c)) (length P) (length A) nresults
       (?r \<lparr> hr_stack := (P @ A) @ [LTable t, k], hr_calls := hr_calls ?r @ calls_of t (LClient (self c) # A) \<rparr>)"
    using hook_loop_silent [of t "length P" "length A" "P @ A" "LClient (self c) # A" "LClient (self c)" "call_on_error call c"
        "[]" t "[]" LNil ?r call nresults 1 erroring] assms(2,3) on_error_consumes
    unfolding h by (auto simp: at_key_def)
  show ?thesis
    unfolding call_ret_run [OF assms(1) t] k(2)
    using lua_next_at [OF k(1), of "P @ A"] lua_pop_append [of 1 "[LTable t]" "P @ A"]
    by (simp add: h calls_of_def remove_args_end)
next
  case False
  let ?v = "get_field (key_of hook) (LTable (cl_hooks c))"
  have h: "hook_callbacks c hook = []" using False by (auto simp: hook_callbacks_def split: lval.splits)
  have "mumble_hook_call_ret erroring call c hook (length A) nresults (P @ A) = Some (0, P, [])"
    using False assms(1) lua_remove_below [of "P @ A" "LTable (cl_hooks c)" ?v] lua_pop_append [of 1 "[?v]" "P @ A"]
    by (auto simp: mumble_hook_call_ret_def hook_body_def Let_def remove_args_end split: lval.splits)
  then show ?thesis using h by simp
qed

text \<open>Values that are kept on the stack are popped in the place of the key and the value.\<close>

lemma value_sticks:
  assumes "rs \<noteq> []" "length rs \<le> 3" "\<forall>t. k \<noteq> LTable t" "\<forall>t. f \<noteq> LTable t"
    "lua_pop 2 (B @ [T, k, f, k] @ rs) = Some s"
  shows "lua_next (-2) s = None"
proof -
  have "\<exists>s' u v. s = s' @ [u, v] \<and> (u = k \<or> u = f)"
  proof -
    consider x where "rs = [x]" | x y where "rs = [x, y]" | x y z where "rs = [x, y, z]"
      using assms(1,2) by (auto simp: numeral_3_eq_3 le_Suc_eq length_Suc_conv)
    then show ?thesis
    proof cases
      case 1
      then have "s = (B @ [T]) @ [k, f]" using assms(5) lua_pop_append [of 2 "[k, x]" "B @ [T, k, f]"] by (simp add: 1)
      then show ?thesis by blast
    next
      case 2
      then have "s = (B @ [T, k]) @ [f, k]" using assms(5) lua_pop_append [of 2 "[x, y]" "B @ [T, k, f, k]"] by (simp add: 2)
      then show ?thesis by blast
    next
      case 3
      then have "s = (B @ [T, k, f]) @ [k, x]" using assms(5) lua_pop_append [of 2 "[y, z]" "B @ [T, k, f, k, x]"] by (simp add: 3)
      then show ?thesis by blast
    qed
  qed
  then show ?thesis using assms(3,4) lua_at_top(2) by (auto simp: lua_next_def split: lval.splits option.splits)
qed

lemma callback_breaks:
  assumes "hr_stack r = B @ [T, key_value k, f]" "is_function f" "argpos + nargs \<le> length B"
    "args = owner # take nargs (drop argpos B)" "\<not> hr_returned r" "consumes on_error"
    "\<forall>rs. call f args = Inr rs \<longrightarrow> wanted_results nresults rs \<noteq> [] \<and> length (wanted_results nresults rs) \<le> 3"
  shows "case hook_callback False on_error call owner argpos nargs nresults r of
      None \<Rightarrow> True | Some r' \<Rightarrow> lua_next (-2) (hr_stack r') = None"
proof -
  have nt: "\<forall>t. key_value k \<noteq> LTable t" "\<forall>t. f \<noteq> LTable t"
    using assms(2) by (auto simp: key_value_def split: lkey.splits)
  show ?thesis
    unfolding callback_call [OF assms(1-4,6)]
    using assms(5,7) value_sticks [OF _ _ nt, of _ B T]
    by (auto simp: kept_results_def Let_def bind_eq_Some_conv split: sum.splits option.splits)
qed

lemma hook_loop_stops:
  assumes "lua_next (-2) (hr_stack r) = Some (True, s)"
    "case hook_callback False on_error call owner argpos nargs nresults (r \<lparr> hr_stack := s \<rparr>) of
       None \<Rightarrow> True | Some r' \<Rightarrow> lua_next (-2) (hr_stack r') = None"
  shows "hook_loop (Suc (Suc n)) False on_error call owner argpos nargs nresults r = None"
  using assms by (cases "hook_callback False on_error call owner argpos nargs nresults (r \<lparr> hr_stack := s \<rparr>)") auto

text \<open>
  The first callback that raises an error, or that returns one to three values when its values
  are wanted, leaves the stack so that the next step reads what is not there: the values, and after
  an error the traceback, are popped in the place of the key. \<open>client:call\<close> wants the values.
\<close>

theorem hook_value_breaks:
  assumes "self c > -2" "get_field (key_of hook) (LTable (cl_hooks c)) = LTable t" "distinct (map fst t)"
    "t = before @ (k, f) # after" "is_function f"
    "\<forall>v\<in>set (map snd before). is_function v \<longrightarrow> silent call nresults (LClient (self c) # A) v"
    "\<forall>rs. call f (LClient (self c) # A) = Inr rs \<longrightarrow>
      wanted_results nresults rs \<noteq> [] \<and> length (wanted_results nresults rs) \<le> 3"
  shows "mumble_hook_call_ret False call c hook (length A) nresults (P @ A) = None"
proof -
  let ?args = "LClient (self c) # A"
  let ?r = "\<lparr> hr_stack = (P @ A) @ [LTable t, LNil], hr_returned = False, hr_nreturns = 0, hr_calls = [] \<rparr>"
  obtain k' where k': "at_key k' t ((k, f) # after)"
    "hook_loop (length t + 1) False (call_on_error call c) call (LClient (self c)) (length P) (length A) nresults ?r =
     hook_loop (Suc (Suc (length after))) False (call_on_error call c) call (LClient (self c)) (length P) (length A) nresults
       (?r \<lparr> hr_stack := (P @ A) @ [LTable t, k'], hr_calls := calls_of before ?args \<rparr>)"
    using hook_loop_silent [of t "length P" "length A" "P @ A" ?args "LClient (self c)" "call_on_error call c" "[]" before
        "(k, f) # after" LNil ?r call nresults "Suc (Suc (length after))" False] assms(3,4,6) on_error_consumes
    by (auto simp: at_key_def)
  let ?q = "?r \<lparr> hr_stack := (P @ A) @ [LTable t, k'], hr_calls := calls_of before ?args \<rparr>"
  have step: "lua_next (-2) (hr_stack ?q) = Some (True, (P @ A) @ [LTable t, key_value k, f])"
    using lua_next_at [OF k'(1), of "P @ A"] by simp
  have "hook_loop (Suc (Suc (length after))) False (call_on_error call c) call (LClient (self c)) (length P) (length A) nresults ?q = None"
    by (rule hook_loop_stops [OF step], rule callback_breaks [where B = "P @ A" and args = ?args])
      (use assms(5,7) on_error_consumes in simp_all)
  then show ?thesis unfolding call_ret_run [OF assms(1,2)] k'(2) by simp
qed

section \<open>A sample\<close>

definition hooked_client :: client where
  "hooked_client = mumble_client_new 1 5 735 0 0
     \<lparr> self := 3,
       cl_hooks := [(KName ''OnConnect'', LTable [(KName ''a'', LFunction 1), (KName ''b'', LFunction 2)])] \<rparr>"

lemma hooked_client_callbacks:
  "self hooked_client = 3"
  "get_field (key_of (bytes_of ''OnConnect'')) (LTable (cl_hooks hooked_client)) =
     LTable [(KName ''a'', LFunction 1), (KName ''b'', LFunction 2)]"
  "hook_callbacks hooked_client (bytes_of ''OnConnect'') = [(KName ''a'', LFunction 1), (KName ''b'', LFunction 2)]"
  by (simp_all add: hook_callbacks_def hooked_client_def key_of_bytes)

theorem hook_calls_all_witness:
  "mumble_hook_call_ret False (\<lambda>f args. Inr []) hooked_client (bytes_of ''OnConnect'') 1 None [LBool True, LInt 5] =
   Some (0, [LBool True], [(LFunction 1, [LClient 3, LInt 5]), (LFunction 2, [LClient 3, LInt 5])])"
  using hook_calls_all [of hooked_client "bytes_of ''OnConnect''" "\<lambda>f args. Inr []" None "[LInt 5]" False "[LBool True]"]
  by (simp add: hooked_client_callbacks silent_def wanted_results_def)

theorem hook_value_breaks_witness:
  "mumble_hook_call_ret False (\<lambda>f args. Inr [LBool True]) hooked_client (bytes_of ''OnConnect'') 1 None
     [LBool True, LInt 5] = None"
  using hook_value_breaks [OF _ hooked_client_callbacks(2), of "[]" "KName ''a''" "LFunction 1"
      "[(KName ''b'', LFunction 2)]" "\<lambda>f args. Inr [LBool True]" None "[LInt 5]" "[LBool True]"]
  by (simp add: hooked_client_callbacks(1) wanted_results_def)

end
