(* ===== verification/Api.thy ===== *)
theory Api
  imports Channels Voice Targets Hooks
begin

text \<open>
  The methods of the client object (\<open>mumble/client.c\<close>) and their table, in the conventions of the
  user methods: the arguments are numbered from one with the client first, \<open>client_call\<close> of the
  table is the method \<open>call\<close>. Opening an audio file or an audio buffer is not modelled, nor is what
  the methods return of the file; connecting is in the theory of the connection.
\<close>

section \<open>The state a method asks for\<close>

text \<open>
  \<open>mumble_client_check\<close>: the error names the running method. \<open>disconnect\<close> and the getters ask for
  a client that is connecting, and name this state in the error when it is not.
\<close>

definition mumble_client_check :: "world \<Rightarrow> bool \<Rightarrow> string \<Rightarrow> unit lua_result" where
  "mumble_client_check W ok status =
     (if ok then Inr ()
      else Inl (LuaError (''attempt to call '' @ called W @ '' on '' @ status @ '' mumble.client'')))"

definition mumble_client_connecting :: "world \<Rightarrow> client \<Rightarrow> unit lua_result" where
  "mumble_client_connecting W c = mumble_client_check W (connecting c) ''connecting''"

definition mumble_client_connected :: "world \<Rightarrow> client \<Rightarrow> unit lua_result" where
  "mumble_client_connected W c =
     mumble_client_check W (connected c) (if connecting c then ''connecting'' else ''disconnected'')"

type_synonym client_method = "env \<Rightarrow> world \<Rightarrow> lval list \<Rightarrow> client \<Rightarrow> binding_result"

section \<open>Authentication\<close>

text \<open>
  \<open>luaL_checktype\<close> for a table. The tokens: a block of as many cells as the table has length, filled
  up to its end in the order of \<open>lua_next\<close>. A value that is no text is a NULL pointer; a cell that
  was not written makes the message undefined.
\<close>

definition check_table :: "lval list \<Rightarrow> nat \<Rightarrow> ltable lua_result" where
  "check_table args n =
     (case arg args n of Some (LTable t) \<Rightarrow> Inr t | _ \<Rightarrow> Inl (BadArgument n ''table expected''))"

definition token_value :: "env \<Rightarrow> lval \<Rightarrow> pval" where
  "token_value E v = (case to_string E [v] 1 of None \<Rightarrow> PNull | Some s \<Rightarrow> PStr s)"

fun fill_tokens :: "env \<Rightarrow> lval list \<Rightarrow> nat \<Rightarrow> pval option list \<Rightarrow> pval option list" where
  "fill_tokens E [] i row = row"
| "fill_tokens E (v # vs) i row =
     (if i < length row then fill_tokens E vs (i + 1) (row[i := Some (token_value E v)])
      else fill_tokens E vs i row)"

definition table_tokens :: "env \<Rightarrow> world \<Rightarrow> ltable \<Rightarrow> pval list lua_result option" where
  "table_tokens E W t =
     (if memory W then map_option Inr (those (fill_tokens E (map snd t) 0 (replicate (objlen E t) None)))
      else Some (Inl NoMemory))"

definition tokens_field :: "pval list \<Rightarrow> (string \<times> pval) list" where
  "tokens_field tokens = (if tokens = [] then [] else [(''tokens'', PList tokens)])"

definition optional_password :: "lval list \<Rightarrow> (string \<times> pval) list lua_result" where
  "optional_password args =
     (if absent (arg args 3) then Inr []
      else bind_result (check_string args 3) (\<lambda>password. Inr [(''password'', PStr password)]))"

definition optional_tokens :: "env \<Rightarrow> world \<Rightarrow> lval list \<Rightarrow> pval list lua_result option" where
  "optional_tokens E W args =
     (if absent (arg args 4) then Some (Inr [])
      else case check_table args 4 of Inl e \<Rightarrow> Some (Inl e) | Inr t \<Rightarrow> table_tokens E W t)"

text \<open>\<open>MUMBLE_VERSION_V1\<close>, cut to 32 bits, and \<open>MUMBLE_VERSION_V2\<close>.\<close>

definition version_v1 :: "client \<Rightarrow> u32" where
  "version_v1 c =
     (case cl_version c of (major, minor, patch) \<Rightarrow>
        ucast (push_bit 16 major OR push_bit 8 minor OR patch))"

definition version_v2 :: "client \<Rightarrow> u64" where
  "version_v2 c =
     (case cl_version c of (major, minor, patch) \<Rightarrow>
        push_bit 48 major OR push_bit 32 minor OR push_bit 16 patch)"

definition version_message :: "env \<Rightarrow> client \<Rightarrow> (string \<times> pval) list" where
  "version_message E c =
     [(''version_v1'', PU32 (version_v1 c))] @
     (if legacy c then [] else [(''version_v2'', PU64 (version_v2 c))]) @
     [(''release'', PStr (bytes_of ''lua-mumble '' @ git_version E)), (''os'', PStr (os_name E)),
      (''os_version'', PStr (os_version E))]"

definition client_auth :: client_method where
  "client_auth E W args c =
     check_then (mumble_client_connected W c) (\<lambda>_.
       check_then (check_string args 2) (\<lambda>username.
         check_then (optional_password args) (\<lambda>password. do {
           tokens \<leftarrow> optional_tokens E W args;
           check_then tokens (\<lambda>tokens.
             returns []
               (packet_send PACKET_AUTHENTICATE
                 ([(''username'', PStr username)] @ password @ tokens_field tokens @
                  [(''opus'', PBool True), (''client_type'', PI32 1)])
                 (packet_send PACKET_VERSION (version_message E c) c)))
         })))"

definition client_setTokens :: client_method where
  "client_setTokens E W args c =
     check_then (mumble_client_connected W c) (\<lambda>_.
       check_then (check_table args 2) (\<lambda>t. do {
         tokens \<leftarrow> table_tokens E W t;
         check_then tokens (\<lambda>tokens. returns [] (packet_send PACKET_AUTHENTICATE (tokens_field tokens) c))
       }))"

section \<open>The connection and requests\<close>

definition client_disconnect :: client_method where
  "client_disconnect E W args c =
     check_then (mumble_client_connecting W c) (\<lambda>_.
       returns [] (mumble_disconnect (bytes_of ''connection closed by client'') False c))"

definition client_isConnected :: client_method where
  "client_isConnected E W args c = returns [LBool (connected c)] c"

definition client_isSynced :: client_method where
  "client_isSynced E W args c = returns [LBool (synced c)] c"

definition client_requestBanList :: client_method where
  "client_requestBanList E W args c =
     check_then (mumble_client_connected W c) (\<lambda>_.
       returns [] (packet_send PACKET_BANLIST [(''query'', PBool True)] c))"

definition client_requestUserList :: client_method where
  "client_requestUserList E W args c =
     check_then (mumble_client_connected W c) (\<lambda>_. returns [] (packet_send PACKET_USERLIST [] c))"

definition client_sendPluginData :: client_method where
  "client_sendPluginData E W args c =
     check_then (mumble_client_connected W c) (\<lambda>_.
       check_then (check_string args 2) (\<lambda>dataid.
         check_then (check_lstring args 3) (\<lambda>data. do {
           receivers \<leftarrow> objects_from E W session_of ''mumble.user expected'' 4 args;
           check_then receivers (\<lambda>ids.
             returns [] (packet_send PACKET_PLUGINDATA
               ([(''senderSession'', PU32 (session c))] @ repeated ''receiverSessions'' ids @
                [(''data'', PBytes data), (''dataID'', PStr dataid)]) c))
         })))"

definition client_transmit :: client_method where
  "client_transmit E W args c =
     check_then (mumble_client_connected W c) (\<lambda>_.
       check_then (check_integer args 2) (\<lambda>codec.
         check_then (check_lstring args 3) (\<lambda>output.
           check_then (luaL_optboolean args 4 True) (\<lambda>speaking. do {
             c \<leftarrow> transmit_voice E W (word_of_int codec) output speaking c;
             returns [] c
           }))))"

definition client_setComment :: client_method where
  "client_setComment E W args c =
     check_then (mumble_client_connected W c) (\<lambda>_.
       check_then (check_string args 2) (\<lambda>comment.
         returns [] (packet_send PACKET_USERSTATE
           [(''session'', PU32 (session c)), (''comment'', PStr comment)] c)))"

section \<open>Audio settings\<close>

text \<open>The argument is cut to an \<open>int\<close>.\<close>

definition client_setAudioPacketSize :: client_method where
  "client_setAudioPacketSize E W args c =
     check_then (check_integer args 2) (\<lambda>n.
       let frames = word_of_int n :: u32
       in if frames = 10 \<or> frames = 20 \<or> frames = 40 \<or> frames = 60
          then returns [] (c \<lparr> audio_frames := frames \<rparr>)
          else raises (LuaError ''invalid value (must be one the following values: 10, 20, 40, 60)''))"

definition client_getAudioPacketSize :: client_method where
  "client_getAudioPacketSize E W args c = returns [vint (audio_frames c)] c"

definition client_setVolume :: client_method where
  "client_setVolume E W args c =
     check_then (check_number args 2) (\<lambda>v. returns [] (c \<lparr> cl_volume := v \<rparr>))"

definition client_getVolume :: client_method where
  "client_getVolume E W args c = returns [LNum (cl_volume c)] c"

definition client_getAudioStreams :: client_method where
  "client_getAudioStreams E W args c = returns [LRef ''audio_streams''] c"

definition client_getEncoder :: client_method where
  "client_getEncoder E W args c =
     check_then (mumble_client_connecting W c) (\<lambda>_. returns [LRef ''encoder''] c)"

section \<open>Hooks\<close>

text \<open>
  A name that is neither a string nor a number is a NULL pointer, which \<open>lua_setfield\<close> reads.
\<close>

definition function_at :: "lval list \<Rightarrow> nat \<Rightarrow> bool" where
  "function_at args n = (case arg args n of None \<Rightarrow> False | Some v \<Rightarrow> is_function v)"

definition client_hook :: client_method where
  "client_hook E W args c =
     check_then (check_string args 2) (\<lambda>hook.
       let (name, n) = (if function_at args 3 then (Some (bytes_of ''hook''), 3) else (to_string E args 3, 4))
       in if \<not> function_at args n then raises (BadArgument n ''function expected'')
          else do {
            name \<leftarrow> name;
            f \<leftarrow> arg args n;
            let callbacks = hook_callbacks c hook;
            returns [] (c \<lparr> cl_hooks :=
              set_field (key_of hook) (LTable (set_field (key_of name) f callbacks)) (cl_hooks c) \<rparr>)
          })"

definition client_unhook :: client_method where
  "client_unhook E W args c =
     check_then (check_string args 2) (\<lambda>hook.
       let name = (case to_string E args 3 of None \<Rightarrow> bytes_of ''hook'' | Some name \<Rightarrow> name)
       in case get_field (key_of hook) (LTable (cl_hooks c)) of
            LTable t \<Rightarrow>
              returns [] (c \<lparr> cl_hooks :=
                set_field (key_of hook) (LTable (set_field (key_of name) LNil t)) (cl_hooks c) \<rparr>)
          | _ \<Rightarrow> returns [] c)"

text \<open>The values the callbacks leave on the top of the stack are those of the method.\<close>

definition client_call :: client_method where
  "client_call E W args c =
     check_then (check_string args 2) (\<lambda>hook. do {
       (n, s, calls) \<leftarrow> mumble_hook_call_ret (wd_erroring W) (callback W) c hook (length args - 2) None args;
       returns (drop (length s - n) s)
         (mumble_hook_call (map (\<lambda>b. char_of (unat b)) hook) (drop 2 args) c)
     })"

definition client_getHooks :: client_method where
  "client_getHooks E W args c = returns [LRef ''hooks''] c"

section \<open>Users and channels\<close>

definition client_getUsers :: client_method where
  "client_getUsers E W args c = returns [array_table (map (mumble_user_raw_get c) (user_list c))] c"

definition client_getChannels :: client_method where
  "client_getChannels E W args c =
     returns [array_table (map (mumble_channel_raw_get c) (channel_list c))] c"

text \<open>The root channel has the id zero; without it nothing is returned.\<close>

definition client_getChannel :: client_method where
  "client_getChannel E W args c =
     check_then (mumble_client_connecting W c) (\<lambda>_.
       case channels c 0 of
         None \<Rightarrow> returns [] c
       | Some root \<Rightarrow> channel_call E W root args c)"

definition client_getMe :: client_method where
  "client_getMe E W args c = returns [mumble_user_raw_get c (session c)] c"

section \<open>Voice targets\<close>

fun target_of :: "lval \<Rightarrow> nat option" where
  "target_of (LTarget t) = Some t"
| "target_of _ = None"

definition client_registerVoiceTarget :: client_method where
  "client_registerVoiceTarget E W args c =
     check_then (mumble_client_connected W c) (\<lambda>_.
       check_then (check_integer args 2) (\<lambda>i. do {
         r \<leftarrow> objects_from E W target_of ''mumble.voicetarget expected'' 3 args;
         check_then r (\<lambda>ts. do {
           ts \<leftarrow> those (map (targets W) ts);
           returns [] (packet_send PACKET_VOICETARGET
             ((''id'', PU32 (word_of_int i)) #
              (if ts = [] then [] else [(''targets'', PList (map (\<lambda>t. PMsg (target_message t)) ts))])) c)
         })
       }))"

text \<open>The target is a byte.\<close>

definition client_setVoiceTarget :: client_method where
  "client_setVoiceTarget E W args c =
     check_then (opt_integer args 2 0) (\<lambda>i. returns [] (c \<lparr> audio_target := word_of_int i \<rparr>))"

definition client_getVoiceTarget :: client_method where
  "client_getVoiceTarget E W args c = returns [vint (audio_target c)] c"

section \<open>What is known of the connection\<close>

definition client_getPing :: client_method where
  "client_getPing E W args c =
     check_then (mumble_client_connecting W c) (\<lambda>_. returns [LNum (tcp_ping_avg c)] c)"

definition client_getUpTime :: client_method where
  "client_getUpTime E W args c =
     check_then (mumble_client_connecting W c) (\<lambda>_.
       returns [LNum (d_div E (d_of_u64 E (now W - cl_time c)) (d_of_u64 E 1000))] c)"

definition client_getHost :: client_method where
  "client_getHost E W args c =
     check_then (mumble_client_connecting W c) (\<lambda>_. returns [vstr (cl_host c)] c)"

definition client_getPort :: client_method where
  "client_getPort E W args c =
     check_then (mumble_client_connecting W c) (\<lambda>_. returns [vint (cl_port c)] c)"

text \<open>Without an address the pointer to it is NULL, and is followed.\<close>

definition client_getAddress :: client_method where
  "client_getAddress E W args c =
     check_then (mumble_client_connecting W c) (\<lambda>_. do {
       address \<leftarrow> cl_address c;
       returns [LStr address] c
     })"

definition client_isTunnelingUDP :: client_method where
  "client_isTunnelingUDP E W args c = returns [LBool (tcp_udp_tunnel c)] c"

definition client_isLegacy :: client_method where
  "client_isLegacy E W args c = returns [LBool (legacy c)] c"

section \<open>Requests of blobs and channels\<close>

definition client_requestTextureBlob :: client_method where
  "client_requestTextureBlob E W args c =
     check_then (mumble_client_connected W c) (\<lambda>_. do {
       r \<leftarrow> objects_from E W session_of ''mumble.user expected'' 2 args;
       check_then r (\<lambda>ids. returns [] (packet_send PACKET_REQUESTBLOB (repeated ''session_texture'' ids) c))
     })"

text \<open>These two want a table, so the arguments behind it are never looked at.\<close>

definition client_requestCommentBlob :: client_method where
  "client_requestCommentBlob E W args c =
     check_then (mumble_client_connected W c) (\<lambda>_.
       check_then (check_table args 2) (\<lambda>_. do {
         r \<leftarrow> objects_from E W session_of ''mumble.user expected'' 2 args;
         check_then r (\<lambda>ids. returns [] (packet_send PACKET_REQUESTBLOB (repeated ''session_comment'' ids) c))
       }))"

definition client_requestDescriptionBlob :: client_method where
  "client_requestDescriptionBlob E W args c =
     check_then (mumble_client_connected W c) (\<lambda>_.
       check_then (check_table args 2) (\<lambda>_. do {
         r \<leftarrow> objects_from E W channel_of ''mumble.channel expected'' 2 args;
         check_then r (\<lambda>ids.
           returns [] (packet_send PACKET_REQUESTBLOB (repeated ''channel_description'' ids) c))
       }))"

text \<open>As for a channel of a channel, only the two strings have their \<open>has_\<close> flags set.\<close>

definition client_createChannel :: client_method where
  "client_createChannel E W args c =
     check_then (mumble_client_connected W c) (\<lambda>_.
       check_then (check_string args 2) (\<lambda>name.
         check_then (opt_string args 3 []) (\<lambda>description.
           check_then (opt_integer args 4 0) (\<lambda>position.
             check_then (luaL_optboolean args 5 False) (\<lambda>temporary.
               check_then (opt_integer args 6 0) (\<lambda>max_users.
                 returns [] (packet_send PACKET_CHANNELSTATE
                   [(''name'', PStr name), (''description'', PStr description)] c)))))))"

section \<open>The object\<close>

text \<open>The collector disconnects without the hook and drops the tables.\<close>

definition client_gc :: "client \<Rightarrow> client" where
  "client_gc c =
     (let c = mumble_disconnect (bytes_of ''garbage collected'') True c
      in c \<lparr> cl_hooks := [], users := Map.empty, channels := Map.empty \<rparr>)"

definition client_tostring :: client_method where
  "client_tostring E W args c =
     returns [LStr
       (bytes_of ''mumble.client'' @
        (if connecting c
         then bytes_of '' ['' @ int_text (word_of_int (self c)) @ bytes_of ''][\"'' @
           (case cl_host c of None \<Rightarrow> bytes_of ''(null)'' | Some h \<Rightarrow> h) @ bytes_of '':'' @
           decimal (unat (cl_port c)) @ bytes_of ''\"] ''
         else bytes_of '': '') @ pointer_text E (LClient (self c)))] c"

definition mumble_client :: "(string \<times> client_method) list" where
  "mumble_client =
     [(''auth'', client_auth), (''setTokens'', client_setTokens), (''disconnect'', client_disconnect),
      (''isConnected'', client_isConnected), (''isSynced'', client_isSynced),
      (''isSynched'', client_isSynced), (''requestBanList'', client_requestBanList),
      (''requestUserList'', client_requestUserList), (''sendPluginData'', client_sendPluginData),
      (''transmit'', client_transmit), (''getAudioStreams'', client_getAudioStreams),
      (''setAudioPacketSize'', client_setAudioPacketSize),
      (''getAudioPacketSize'', client_getAudioPacketSize), (''setComment'', client_setComment),
      (''setVolume'', client_setVolume), (''getVolume'', client_getVolume), (''hook'', client_hook),
      (''unhook'', client_unhook), (''call'', client_call), (''getHooks'', client_getHooks),
      (''getUsers'', client_getUsers), (''getChannels'', client_getChannels),
      (''getChannel'', client_getChannel), (''registerVoiceTarget'', client_registerVoiceTarget),
      (''setVoiceTarget'', client_setVoiceTarget), (''getVoiceTarget'', client_getVoiceTarget),
      (''getEncoder'', client_getEncoder), (''getPing'', client_getPing),
      (''getUpTime'', client_getUpTime), (''getHost'', client_getHost),
      (''getAddress'', client_getAddress), (''getPort'', client_getPort),
      (''requestTextureBlob'', client_requestTextureBlob),
      (''requestCommentBlob'', client_requestCommentBlob),
      (''requestDescriptionBlob'', client_requestDescriptionBlob),
      (''createChannel'', client_createChannel), (''getMe'', client_getMe), (''getSelf'', client_getMe),
      (''isTunnelingUDP'', client_isTunnelingUDP), (''isLegacy'', client_isLegacy),
      (''__tostring'', client_tostring)]"

text \<open>
  The table also has \<open>connect\<close>, \<open>openAudio\<close>, \<open>createAudioBuffer\<close>, \<open>__gc\<close> and \<open>__index\<close>. The last
  compares the key as a C string, NULL when it is no text, and looks for the rest in the metatable.
\<close>

definition client_method_names :: "string list" where
  "client_method_names =
     map fst mumble_client @ [''connect'', ''openAudio'', ''createAudioBuffer'', ''__gc'', ''__index'']"

definition client_index :: client_method where
  "client_index E W args c = do {
     key \<leftarrow> to_string E args 2;
     if key = bytes_of ''me'' \<and> session c \<noteq> 0 then returns [mumble_user_raw_get c (session c)] c
     else if key = bytes_of ''host'' \<and> cl_host c \<noteq> None then returns [vstr (cl_host c)] c
     else if key = bytes_of ''port'' \<and> cl_port c \<noteq> 0 then returns [vint (cl_port c)] c
     else do {
       key \<leftarrow> (case arg args 2 of Some (LStr s) \<Rightarrow> Some s | _ \<Rightarrow> Some key);
       returns [(case find (\<lambda>m. key = bytes_of m) client_method_names of
                   None \<Rightarrow> LNil | Some m \<Rightarrow> LMethod m)] c
     }
   }"

definition client_method_call :: "string \<Rightarrow> env \<Rightarrow> world \<Rightarrow> lval list \<Rightarrow> client \<Rightarrow> binding_result" where
  "client_method_call name E W args c =
     (case map_of mumble_client name of
        None \<Rightarrow> None
      | Some m \<Rightarrow>
          (case arg args 1 of
             Some (LClient _) \<Rightarrow> m E W args c
           | _ \<Rightarrow> raises (BadArgument 1 ''mumble.client expected'')))"

end
