(* ===== verification/Connect.thy ===== *)
theory Connect
  imports Api Transport
begin

text \<open>
  How a client gets connected: \<open>mumble_client_connect\<close>, \<open>mumble_connected_tcp\<close> and
  \<open>socket_write_event_tcp\<close> of \<open>mumble/mumble.c\<close>, and \<open>mumble_close\<close>. The calls of OpenSSL, of the
  resolver, of Opus and of libuv answer with an error or not; what they allocate is in the model
  only where the code asks for it again. The threads, mutexes and handles of the client are not modelled.
\<close>

section \<open>Connecting\<close>

text \<open>
  The answers to the calls, in the order they are made: the text of an error, or nothing. The
  resolver finds the text of an address, \<open>ca_reference\<close> is what \<open>luaL_ref\<close> gives.
\<close>

record connect_answers =
  ca_context :: "cstr option"
  ca_certificate :: "cstr option"
  ca_tcp_host :: "cstr + cstr"
  ca_crypt_memory :: bool
  ca_udp_host :: "cstr option"
  ca_ssl :: "cstr option"
  ca_encoder :: "cstr option"
  ca_decoder :: "cstr option"
  ca_tcp_connect :: "cstr option"
  ca_fileno :: "cstr option"
  ca_ssl_fd :: "cstr option"
  ca_udp_connect :: "cstr option"
  ca_reference :: nat

text \<open>
  A step that fails frees the client and returns false with a message. On a client whose pointers have not
  all been written yet \<open>mumble_client_free\<close> frees what the memory held there, which is undefined.
\<close>

definition or_fail :: "client \<Rightarrow> string \<Rightarrow> cstr option \<Rightarrow> binding_result \<Rightarrow> binding_result" where
  "or_fail c text error further =
     (case error of
        None \<Rightarrow> further
      | Some e \<Rightarrow>
          if cl_unset c then None
          else returns [LBool False, LStr (bytes_of text @ e)] (mumble_client_free c))"

text \<open>
  The connection proper, behind the resolver. The decoder is the last pointer to be written. The step that asks for the file descriptor pushes two
  values and returns one, the message.
\<close>

definition connect_sockets :: "connect_answers \<Rightarrow> client \<Rightarrow> binding_result" where
  "connect_sockets A c =
     or_fail c ''could not create SSL object: '' (ca_ssl A)
       (let c = c \<lparr> encoder := [] \<rparr>
        in or_fail c ''could not initialize opus encoder: '' (ca_encoder A)
          (let c = c \<lparr> cl_unset := False \<rparr>
           in or_fail c ''could not initialize opus decoder: '' (ca_decoder A)
            (let c = c \<lparr> encoder := [Set_Int ''OPUS_SET_VBR'' 0, Set_Int ''OPUS_SET_BITRATE'' 128000] \<rparr>
             in or_fail c ''could not connect to tcp address: '' (ca_tcp_connect A)
               (case ca_fileno A of
                  Some e \<Rightarrow>
                    returns [LStr (bytes_of ''failed getting file descriptor for tcp socket: '' @ e)]
                      (mumble_client_free c)
                | None \<Rightarrow>
                    or_fail c ''could not set SSL file descriptor: '' (ca_ssl_fd A)
                      (or_fail c ''could not connect to udp address: '' (ca_udp_connect A)
                        (returns [LBool True]
                          (c \<lparr> ping_timer := False, self := int (ca_reference A), connecting := True \<rparr>)))))))"

text \<open>The port is cut to 16 bits where it is kept. Nothing asks whether the client is connecting already.\<close>

definition mumble_client_connect ::
  "connect_answers \<Rightarrow> world \<Rightarrow> lval list \<Rightarrow> client \<Rightarrow> binding_result" where
  "mumble_client_connect A W args c =
     check_then (check_string args 2) (\<lambda>server_host.
       check_then (check_integer args 3) (\<lambda>port.
         check_then (check_string args 4) (\<lambda>certificate_file.
           check_then (check_string args 5) (\<lambda>key_file.
             let c = c \<lparr> cl_host := Some server_host, cl_port := word_of_int port, cl_time := now W \<rparr>
             in or_fail c ''could not create SSL context: '' (ca_context A)
               (or_fail c ''could not load certificate and/or key file: '' (ca_certificate A)
                 (case ca_tcp_host A of
                    Inl e \<Rightarrow> or_fail c ''could not parse server address: '' (Some e) None
                  | Inr address \<Rightarrow>
                      let c = c \<lparr> cl_address := Some address \<rparr>
                      in if \<not> ca_crypt_memory A
                         then or_fail (c \<lparr> crypt := None \<rparr>) ''could not initialize ocb cryptstate'' (Some []) None
                         else
                           let c = c \<lparr> crypt := Some crypt_init \<rparr>
                           in or_fail c ''could not parse server address: '' (ca_udp_host A)
                                (connect_sockets A c)))))))"

section \<open>The handshake\<close>

definition mumble_connected_tcp :: "cstr option \<Rightarrow> client \<Rightarrow> client" where
  "mumble_connected_tcp error c =
     (case error of Some reason \<Rightarrow> mumble_disconnect reason False c | None \<Rightarrow> c)"

datatype handshake_answer = Handshake_Done | Handshake_Retry | Handshake_Failed

record handshake_event =
  he_error :: "cstr option"
  he_writable :: bool
  he_answer :: handshake_answer

text \<open>
  The address is read for the log, through a pointer that is NULL when the client has been freed. A
  handshake that fails cleans the client up, and does not disconnect it.
\<close>

definition socket_write_event_tcp :: "handshake_event \<Rightarrow> client \<Rightarrow> client option" where
  "socket_write_event_tcp H c =
     (case he_error H of
        Some reason \<Rightarrow> Some (mumble_disconnect reason False c)
      | None \<Rightarrow>
          if he_writable H \<and> \<not> connected c then
            (case he_answer H of
               Handshake_Done \<Rightarrow> do {
                 address \<leftarrow> cl_address c;
                 Some (mumble_hook_call ''OnConnect'' [] (c \<lparr> connected := True \<rparr>))
               }
             | Handshake_Retry \<Rightarrow> Some c
             | Handshake_Failed \<Rightarrow> Some (mumble_client_cleanup c))
          else Some c)"

definition mumble_ping_timer :: "env \<Rightarrow> world \<Rightarrow> client \<Rightarrow> client option" where
  "mumble_ping_timer E W c = mumble_ping E W c"

text \<open>The loop over the connected clients; the node of a client is freed by its cleanup.\<close>

definition mumble_close :: "client list \<Rightarrow> client list" where
  "mumble_close clients = map mumble_client_cleanup clients"

section \<open>Connecting as a sequence of steps\<close>

definition connect_succeeds :: "connect_answers \<Rightarrow> bool" where
  "connect_succeeds A \<longleftrightarrow>
     ca_context A = None \<and> ca_certificate A = None \<and> (\<exists>a. ca_tcp_host A = Inr a) \<and> ca_crypt_memory A \<and>
     ca_udp_host A = None \<and> ca_ssl A = None \<and> ca_encoder A = None \<and> ca_decoder A = None \<and>
     ca_tcp_connect A = None \<and> ca_fileno A = None \<and> ca_ssl_fd A = None \<and> ca_udp_connect A = None"

text \<open>
  What a call of connect can do: raise, free the client, or leave it connecting. A client that is
  connecting already is not refused: when the call fails, it is freed and goes on connecting.
\<close>

lemma connect_cases:
  assumes "mumble_client_connect A W args c = Some r"
  shows "(\<exists>e. r = Inl e) \<or>
    (\<exists>vs c'. \<not> connect_succeeds A \<and> r = Inr (vs, c') \<and> vs \<noteq> [LBool True] \<and> crypt c' = None \<and> cl_host c' = None \<and>
       cl_address c' = None \<and> \<not> cl_unset c' \<and>
       users c' = users c \<and> user_list c' = user_list c \<and> channels c' = channels c \<and>
       channel_list c' = channel_list c \<and> connecting c' = connecting c \<and> connected c' = connected c \<and>
       self c' = self c \<and> trace c' = trace c) \<or>
    (\<exists>h a. connect_succeeds A \<and> check_string args 2 = Inr h \<and> ca_tcp_host A = Inr a \<and> r = Inr ([LBool True],
       c \<lparr> cl_host := Some h, cl_port := word_of_int (projr (check_integer args 3)), cl_time := now W,
           cl_address := Some a, crypt := Some crypt_init,
           encoder := [Set_Int ''OPUS_SET_VBR'' 0, Set_Int ''OPUS_SET_BITRATE'' 128000],
           cl_unset := False, ping_timer := False, self := int (ca_reference A), connecting := True \<rparr>))"
  using assms
  unfolding mumble_client_connect_def connect_sockets_def or_fail_def check_then_def connect_succeeds_def Let_def
  by (auto simp: mumble_client_free_def split: sum.splits option.splits if_splits)

end
