(* ===== verification/Session.thy ===== *)
theory Session
  imports Connect
begin

text \<open>
  The client as a whole: every event that reaches it and every call of a script are the steps of
  one transition relation. Its invariant rests on what each operation does to the state of the
  connection, nothing or a disconnection, which is shown first, component by component.
\<close>

section \<open>What the operations do to the connection\<close>

named_theorems stays \<open>operations that leave the connection as it is\<close>

lemma stay_bind:
  "all_some (stay c) m \<Longrightarrow> (\<And>c'. stay c c' \<Longrightarrow> all_some (stay c) (f c')) \<Longrightarrow> all_some (stay c) (Option.bind m f)"
  by (cases m) (simp_all add: all_some_def)

lemma stay_from: "all_some (stay c') m \<Longrightarrow> stay c c' \<Longrightarrow> all_some (stay c) m"
  by (auto simp: all_some_def intro: stay_trans)

lemma stay_sendudp [stays]: "all_some (stay c) (packet_sendudp E W m c)"
  unfolding packet_sendudp_def
  by (intro wp) (auto simp: Let_def intro!: stay_crypt)

lemma stay_ping_udp [stays]: "all_some (stay c) (mumble_ping_udp E W t c)"
  unfolding mumble_ping_udp_def mumble_ping_udp_legacy_def mumble_ping_udp_protobuf_def
  by (intro wp) (auto simp: bind_eq_Some_conv split: if_splits dest: all_someD [OF stay_sendudp])

lemma stay_ping_tcp [stays]: "all_some (stay c) (mumble_ping_tcp E t c)"
  unfolding mumble_ping_tcp_def by (intro wp) simp

lemma stay_ping [stays]: "all_some (stay c) (mumble_ping E W c)"
  unfolding mumble_ping_def
  by (rule stay_bind [OF stay_ping_tcp]) (rule stay_from [OF stay_ping_udp])

lemma stay_pong [simp]:
  "stay c (mumble_update_ping_udp E W t udp c') = stay c c'"
  "stay c (snd (mumble_update_ping_tcp E W t c')) = stay c c'"
  by (simp_all add: mumble_update_ping_udp_def mumble_update_ping_tcp_def Let_def)

lemma stay_spoken [simp]: "stay c (spoken_trace speak s b b' c') = stay c c'"
  by (simp add: spoken_trace_def Let_def)

lemma stay_speaking [stays]: "all_some (stay c) (speaking_hooks E W s speaking payload speak c)"
  unfolding all_some_def by (auto elim!: speaking_hooks_result)

lemma stay_voice [stays]:
  "all_some (stay c) (mumble_handle_speaking_hooks_protobuf E W a s c)"
  "all_some (stay c) (mumble_handle_speaking_hooks_legacy E W b codec target s c)"
  unfolding mumble_handle_speaking_hooks_protobuf_def mumble_handle_speaking_hooks_legacy_def
  by (intro wp stays; assumption)+

lemma stay_udp_packet [stays]: "all_some (stay c) (mumble_handle_udp_packet E W b n udp c)"
  unfolding mumble_handle_udp_packet_def
  by (intro wp stays) simp_all

lemma stay_read_udp [stays]: "all_some (stay c) (socket_read_event_udp E W b c)"
  unfolding socket_read_event_udp_def
  by (intro wp stay_from [OF stay_udp_packet] stay_crypt) simp_all

lemma stay_send_voice [stays]: "all_some (stay c) (send_voice E W m c)"
  unfolding send_voice_def by (intro wp stays) simp

lemma stay_transmit [stays]: "all_some (stay c) (transmit_voice E W codec data speaking c)"
  unfolding transmit_voice_def
  by (rule stay_bind stay_from [OF stay_voice(1)] stay_from [OF stay_voice(2)] stay_from [OF stay_send_voice]
      stays all_some_bind_any all_some_prod all_some_if all_some_None all_some_let all_some_Some
      | assumption | simp)+

section \<open>What the packets do\<close>

lemma stay_updated [simp]:
  "(\<And>v c'. stay c (f v c') = stay c c') \<Longrightarrow> stay c (updated f x c') = stay c c'"
  by (cases x) simp_all

lemma stay_adjusted: "mumble_adjust_audio_bandwidth E c' = Some (n, c'') \<Longrightarrow> stay c c'' = stay c c'"
  by (auto simp: mumble_adjust_audio_bandwidth_def bind_eq_Some_conv Let_def split: if_splits)

lemma stay_adjust_volumes [simp]: "stay c (replaced adjust_volume as c') = stay c c'"
proof -
  have "stay c (adjust_volume a c') = stay c c'" for a c'
    by (simp add: adjust_volume_def Let_def split_beta)
  then show ?thesis unfolding replaced_def by (induction "as" arbitrary: c') simp_all
qed

lemma stay_channel_hook [simp]: "stay c (user_channel_hook m s u c') = stay c c'"
  by (auto simp: user_channel_hook_def split: option.splits)

lemma stay_flush [simp]: "stay c (flush_permissions c') = stay c c'"
  by (simp add: flush_permissions_def)

lemma stay_sync: "all_some (\<lambda>c'. stay c c' \<and> synced c' \<and> ping_timer c') (packet_server_sync E m c)"
proof -
  let ?P = "\<lambda>c'. stay c c' \<and> synced c' \<and> ping_timer c'"
  define c1 where "c1 = updated (\<lambda>s c. c \<lparr> session := s \<rparr>) (sy_session m) (c \<lparr> synced := True, ping_timer := True \<rparr>)"
  have c1: "?P c1" unfolding c1_def by (cases "sy_session m") (simp_all add: stay_def)
  have frame: "synced c'' = synced c' \<and> ping_timer c'' = ping_timer c'"
    if "mumble_adjust_audio_bandwidth E c' = Some (n, c'')" for n c' c''
    using that by (auto simp: mumble_adjust_audio_bandwidth_def bind_eq_Some_conv Let_def split: if_splits)
  have adjust: "all_some ?P (map_option snd (mumble_adjust_audio_bandwidth E (c1 \<lparr> max_bandwidth := bw \<rparr>)))" for bw
    using c1 frame [of "c1 \<lparr> max_bandwidth := bw \<rparr>"] stay_adjusted [of E "c1 \<lparr> max_bandwidth := bw \<rparr>" _ _ c]
    by (auto simp: all_some_def)
  show ?thesis
    unfolding packet_server_sync_def Let_def c1_def [symmetric]
    by (rule all_some_bind, rule all_some_mono [where Q = ?P])
      (use c1 adjust in \<open>auto simp: split_beta split: option.split intro!: wp\<close>)
qed

lemma stay_channel_state [stays]: "all_some (stay c) (packet_channel_state m c)"
  unfolding packet_channel_state_def
  by (intro wp) (auto simp: stay_get)

lemma stay_user_state [stays]: "all_some (stay c) (packet_user_state E m c)"
  unfolding packet_user_state_def
  by (intro wp) (auto simp: stay_get)

lemma stay_crypt_setup [stays]: "all_some (stay c) (packet_crypt_setup E W m c)"
proof -
  have k: "stay c' (c' \<lparr> resync := r, crypt := Some k \<rparr>)" if "crypt c' \<noteq> None" for c' r k
    using stay_crypt [of c' "c' \<lparr> resync := r \<rparr>" k] that by simp
  have ping: "all_some (stay c) (if v then mumble_ping E W c1 else Some c1)" if "stay c c1" for v c1
    using that by (intro wp stay_from [OF stay_ping])
  show ?thesis
    unfolding packet_crypt_setup_def Let_def
    by (rule all_some_bind_any, rule all_some_bind_any, rule all_some_bind,
        rule all_some_mono [OF ping])
      (auto intro!: wp stay_crypt k split: option.splits prod.splits)
qed

lemma stay_permission_query [stays]: "all_some (stay c) (packet_permission_query m c)"
  unfolding packet_permission_query_def
  by (intro wp) (auto simp: Let_def split_beta split: option.splits)

lemma stay_ping_packet [stays]: "all_some (stay c) (packet_server_ping E W m c)"
  unfolding packet_server_ping_def
  by (intro wp) (auto simp: Let_def split_beta split: option.splits dest!: arg_cong [where f = snd])

lemma stay_hook_only [stays]:
  "all_some (stay c) (packet_server_version m1 c)" "all_some (stay c) (packet_server_reject m2 c)"
  "all_some (stay c) (packet_channel_remove i c)" "all_some (stay c) (packet_ban_list E m3 c)"
  "all_some (stay c) (packet_text_message m4 c)" "all_some (stay c) (packet_permission_denied m5 c)"
  "all_some (stay c) (packet_acl m6 c)" "all_some (stay c) (packet_query_users m7 c)"
  "all_some (stay c) (packet_context_action_modify m8 c)" "all_some (stay c) (packet_user_list m9 c)"
  "all_some (stay c) (packet_codec_version m10 c)" "all_some (stay c) (packet_user_stats E m11 c)"
  "all_some (stay c) (packet_server_config m12 c)" "all_some (stay c) (packet_suggest_config m13 c)"
  "all_some (stay c) (packet_plugin_data m14 c)"
  unfolding hook_only_defs by (intro wp; simp)+

text \<open>A packet or an event leaves the connection as it is, or the client idle.\<close>

definition moved :: "client \<Rightarrow> client \<Rightarrow> bool" where
  "moved c c' \<longleftrightarrow> stay c c' \<or> idle c'"

definition referenced :: "client \<Rightarrow> bool" where
  "referenced c \<longleftrightarrow> self c = -2 \<or> 0 \<le> self c"

lemma stay_referenced: "stay c c' \<Longrightarrow> referenced c' = referenced c"
  by (simp add: stay_def referenced_def)

lemma moved_all: "all_some (stay c) m \<Longrightarrow> all_some (moved c) m"
  by (simp add: all_some_def moved_def)

lemma moved_disconnect:
  assumes "stay c c'" "client_ok c'" "referenced c"
  shows "moved c (mumble_disconnect r gc c')"
proof (cases "connecting c'")
  case True
  then show ?thesis
    using assms disconnect_idle [of c' r gc] stay_referenced [of c c'] by (simp add: moved_def referenced_def)
next
  case False
  then show ?thesis using assms(1) by (simp add: mumble_disconnect_def moved_def)
qed

lemma moved_user_remove:
  assumes "client_ok c" "referenced c"
  shows "all_some (moved c) (packet_user_remove m c)"
proof -
  have r: "moved c (mumble_user_remove s (mumble_hook_call h args c))" for s h args by (simp add: moved_def)
  show ?thesis
    unfolding packet_user_remove_def
    by (intro wp) (use assms r in \<open>auto intro!: moved_disconnect simp: Let_def split_beta client_ok_user_get
        split: option.splits prod.splits\<close>)
qed

lemma moved_with_message: "(\<And>m. all_some (moved c) (f m c)) \<Longrightarrow> all_some (moved c) (with_message x f c)"
  by (cases x) (auto simp: with_message_def moved_def intro: wp)

lemma moved_handler:
  assumes "client_ok c" "referenced c"
  shows "all_some (moved c) (packet_handler E D W ty b c)"
proof -
  have sync: "all_some (stay c) (packet_server_sync E m c)" for m
    using stay_sync [of c E m] by (rule all_some_mono) simp
  have refl: "moved c c" by (simp add: moved_def)
  show ?thesis
    by (cases ty)
      (auto intro!: moved_with_message moved_user_remove [OF assms] moved_all [OF sync]
        moved_all [OF stay_channel_state] moved_all [OF stay_user_state] moved_all [OF stay_crypt_setup]
        moved_all [OF stay_permission_query] moved_all [OF stay_ping_packet] stay_hook_only [THEN moved_all]
        moved_all [OF stay_udp_packet] refl wp simp: packet_tcp_udp_tunnel_def)
qed

lemma read_error_ok:
  assumes "client_ok c" "referenced c"
  shows "moved c (handle_ssl_read_error answer c) \<and> client_ok (handle_ssl_read_error answer c)"
  using assms moved_disconnect [of c c]
  by (cases answer) (simp_all add: handle_ssl_read_error_def moved_def client_ok_disconnect)

lemma read_event_ok:
  assumes "client_ok c" "referenced c"
  shows "all_some (\<lambda>c'. moved c c' \<and> client_ok c') (socket_read_event_tcp E D W T p c)"
proof -
  let ?P = "\<lambda>c'. moved c c' \<and> client_ok c'"
  have refl: "?P c" using assms by (simp add: moved_def)
  have handler: "all_some ?P (packet_handler E D W ty b c)" for ty b
    using moved_handler [OF assms, of E D W ty b] client_ok_handler [OF assms(1), of E D W ty b]
    by (simp add: all_some_def)
  have head: "all_some (\<lambda>r. ?P (snd r) \<and> (fst r \<noteq> None \<longrightarrow> snd r = c)) (tcp_read_header T p c)" for p
    unfolding tcp_read_header_def
    by (intro wp) (auto simp: refl read_error_ok assms)
  have body: "all_some ?P (tcp_read_body E D W T p c)" for p
    unfolding tcp_read_body_def
    by (intro wp handler) (auto simp: refl read_error_ok assms)
  have read: "all_some ?P (do {
      (r, c) \<leftarrow> tcp_read_header T q c;
      (case r of None \<Rightarrow> Some c | Some p \<Rightarrow> tcp_read_body E D W T p c) })" for q
    by (rule all_some_bind, rule all_some_mono [OF head])
      (auto intro: all_some_Some body split: option.split)
  have gone: "?P (mumble_disconnect r False c)" for r
    using assms moved_disconnect [of c c] client_ok_disconnect by simp
  show ?thesis
    unfolding socket_read_event_tcp_def Let_def
    by (cases "te_error T") (auto intro!: all_some_Some all_some_None all_some_bind_any read simp: gone refl)
qed

section \<open>What the methods of the client do\<close>

definition same_objects :: "client \<Rightarrow> client \<Rightarrow> bool" where
  "same_objects c c' \<longleftrightarrow> dom (users c') = dom (users c) \<and> dom (channels c') = dom (channels c)"

definition api_ok :: "client \<Rightarrow> (lval list \<times> client) lua_result \<Rightarrow> bool" where
  "api_ok c r \<longleftrightarrow>
     (case r of
        Inl e \<Rightarrow> True
      | Inr (vs, c') \<Rightarrow> client_ok c' \<and> moved c c' \<and> (connecting c \<or> same_objects c c'))"

lemma result_api: "all_some (result_ok c) r \<Longrightarrow> all_some (api_ok c) r"
  by (auto simp: all_some_def result_ok_def api_ok_def moved_def same_objects_def split: sum.splits)

lemma api_check: "(\<And>x. r = Inr x \<Longrightarrow> all_some (api_ok c) (f x)) \<Longrightarrow> all_some (api_ok c) (check_then r f)"
  by (cases r) (simp_all add: check_then_def all_some_def api_ok_def)

definition typed_client :: "client_method \<Rightarrow> bool" where
  "typed_client m \<longleftrightarrow> (\<forall>E W args c. client_ok c \<longrightarrow> all_some (result_ok c) (m E W args c))"

definition typed_api :: "client_method \<Rightarrow> bool" where
  "typed_api m \<longleftrightarrow>
     (\<forall>E W args c. client_ok c \<longrightarrow> referenced c \<longrightarrow> (connected c \<longrightarrow> connecting c) \<longrightarrow>
        all_some (api_ok c) (m E W args c))"

lemma typed_client_api: "typed_client m \<Longrightarrow> typed_api m"
  by (simp add: typed_client_def typed_api_def result_api)

lemma typed_client_requests:
  "typed_client client_setTokens" "typed_client client_requestBanList" "typed_client client_requestUserList"
  "typed_client client_sendPluginData" "typed_client client_setComment"
  "typed_client client_registerVoiceTarget" "typed_client client_requestTextureBlob"
  "typed_client client_requestCommentBlob" "typed_client client_requestDescriptionBlob"
  "typed_client client_createChannel"
  unfolding typed_client_def client_setTokens_def client_requestBanList_def client_requestUserList_def
    client_sendPluginData_def client_setComment_def client_registerVoiceTarget_def
    client_requestTextureBlob_def client_requestCommentBlob_def client_requestDescriptionBlob_def
    client_createChannel_def
  by (intro allI impI all_some_bind_any binding_ok; assumption)+

lemma sent_twice_ok:
  "client_ok c \<Longrightarrow> all_some (result_ok c) (returns [] (packet_send ty m (packet_send ty' m' c)))"
  by (simp add: all_some_def result_ok_def)

lemma typed_client_auth: "typed_client client_auth"
  unfolding typed_client_def client_auth_def
  by (intro allI impI all_some_bind_any check_then_ok sent_twice_ok; assumption)

lemma typed_client_getters:
  "typed_client client_isConnected" "typed_client client_isSynced" "typed_client client_getAudioPacketSize"
  "typed_client client_getVolume" "typed_client client_getAudioStreams" "typed_client client_getEncoder"
  "typed_client client_getHooks" "typed_client client_getMe" "typed_client client_getVoiceTarget"
  "typed_client client_getPing" "typed_client client_getUpTime" "typed_client client_getHost"
  "typed_client client_getPort" "typed_client client_getAddress" "typed_client client_isTunnelingUDP"
  "typed_client client_isLegacy" "typed_client client_tostring"
  unfolding typed_client_def client_isConnected_def client_isSynced_def client_getAudioPacketSize_def
    client_getVolume_def client_getAudioStreams_def client_getEncoder_def client_getHooks_def client_getMe_def
    client_getVoiceTarget_def client_getPing_def client_getUpTime_def client_getHost_def client_getPort_def
    client_getAddress_def client_isTunnelingUDP_def client_isLegacy_def client_tostring_def
  by (intro allI impI all_some_bind_any check_then_ok returns_ok; simp)+

lemma typed_client_tables:
  "typed_client client_getUsers" "typed_client client_getChannels" "typed_client client_getChannel"
  unfolding typed_client_def client_getUsers_def client_getChannels_def client_getChannel_def
    channel_call_def
  by (intro allI impI wp check_then_ok returns_ok; auto intro!: value_ok_array_table simp: walk_typed)+

lemma typed_client_settings:
  "typed_client client_setAudioPacketSize" "typed_client client_setVolume" "typed_client client_setVoiceTarget"
  "typed_client client_hook" "typed_client client_unhook"
  unfolding typed_client_def client_setAudioPacketSize_def client_setVolume_def client_setVoiceTarget_def
    client_hook_def client_unhook_def check_then_def all_some_def result_ok_def Let_def
  by (auto simp: bind_eq_Some_conv split: sum.splits if_splits lval.splits prod.splits)+

lemma typed_api_moving:
  "typed_api client_disconnect" "typed_api client_transmit" "typed_api client_call"
proof -
  show "typed_api client_disconnect"
    unfolding typed_api_def client_disconnect_def
    by (auto intro!: api_check wp simp: api_ok_def client_ok_disconnect moved_disconnect
        mumble_client_connecting_def mumble_client_check_def split: if_splits)
  have "all_some (api_ok c) (do { c' \<leftarrow> transmit_voice E W codec data speaking c; returns [] c' })"
    if "client_ok c" "connecting c" for E W codec data speaking c
    using client_ok_transmit [OF that(1), of E W codec data speaking] stay_transmit [of c E W codec data speaking] that(2)
    by (auto simp: all_some_def api_ok_def moved_def bind_eq_Some_conv)
  then show "typed_api client_transmit"
    unfolding typed_api_def client_transmit_def
    by (auto intro!: api_check simp: mumble_client_connected_def mumble_client_check_def split: if_splits)
  show "typed_api client_call"
    unfolding typed_api_def client_call_def
    by (intro allI impI wp api_check) (simp add: api_ok_def moved_def same_objects_def)
qed

lemma typed_api_table: "list_all typed_api (map snd mumble_client)"
  unfolding mumble_client_def
  by (simp add: typed_api_moving typed_client_api typed_client_requests typed_client_auth typed_client_getters
      typed_client_tables typed_client_settings)

lemma client_method_ok:
  assumes "client_ok c" "referenced c" "connected c \<longrightarrow> connecting c"
  shows "all_some (api_ok c) (client_method_call name E W args c)"
proof (cases "map_of mumble_client name")
  case (Some m)
  then have "typed_api m"
    using typed_api_table by (auto simp: list_all_iff dest!: map_of_SomeD)
  with Some assms show ?thesis
    by (auto simp: client_method_call_def typed_api_def result_api result_ok_raise wp
        split: option.splits lval.splits)
qed (simp add: client_method_call_def wp)

section \<open>The steps of a client\<close>

text \<open>What a call leaves, an error leaving the client as it was.\<close>

definition left_by :: "client \<Rightarrow> (lval list \<times> client) lua_result \<Rightarrow> client" where
  "left_by c r = (case r of Inl e \<Rightarrow> c | Inr (vs, c') \<Rightarrow> c')"

text \<open>
  The events of libuv and the methods of the three kinds of objects, \<open>connect\<close> apart; the functions a hook
  calls are further steps. The packet \<open>p\<close> is what the client was made with.
\<close>

inductive session_step :: "env \<Rightarrow> decoders \<Rightarrow> MumblePacket \<Rightarrow> client \<Rightarrow> client \<Rightarrow> bool" for E D p where
  tcp_connected: "connecting c \<Longrightarrow> session_step E D p c (mumble_connected_tcp e c)"
| handshake: "connecting c \<Longrightarrow> socket_write_event_tcp H c = Some c' \<Longrightarrow> session_step E D p c c'"
| control_data: "socket_read_event_tcp E D W T p c = Some c' \<Longrightarrow> session_step E D p c c'"
| voice_data: "connecting c \<Longrightarrow> socket_read_event_udp E W d c = Some c' \<Longrightarrow> session_step E D p c c'"
| timer: "connecting c \<Longrightarrow> ping_timer c \<Longrightarrow> mumble_ping_timer E W c = Some c' \<Longrightarrow> session_step E D p c c'"
| client_method: "client_method_call name E W args c = Some r \<Longrightarrow> session_step E D p c (left_by c r)"
| user_method: "user_call name E W args c = Some r \<Longrightarrow> session_step E D p c (left_by c r)"
| channel_method: "channel_method_call name E W args c = Some r \<Longrightarrow> session_step E D p c (left_by c r)"

inductive_cases session_step_cases: "session_step E D p c c'"

text \<open>
  A script may connect a client at any time, also one that is connecting or connected: the code does
  not ask. The reachable states carry whether the last call of connect that got past its arguments has
  failed; the call has then freed the client, whatever state it was in. A second free joins threads that
  have ended and destroys mutexes that are gone, which the model does not have: it goes on as the first did.
\<close>

definition refused :: "bool \<Rightarrow> (lval list \<times> client) lua_result \<Rightarrow> bool" where
  "refused failed r = (case r of Inl e \<Rightarrow> failed | Inr (vs, c') \<Rightarrow> vs \<noteq> [LBool True])"

inductive session_reachable :: "env \<Rightarrow> decoders \<Rightarrow> MumblePacket \<Rightarrow> client \<Rightarrow> bool \<Rightarrow> client \<Rightarrow> bool" for E D p c0 where
  start: "session_reachable E D p c0 False c0"
| connect: "session_reachable E D p c0 failed c \<Longrightarrow> mumble_client_connect A W args c = Some r \<Longrightarrow>
    session_reachable E D p c0 (refused failed r) (left_by c r)"
| step: "session_reachable E D p c0 failed c \<Longrightarrow> session_step E D p c c' \<Longrightarrow> session_reachable E D p c0 failed c'"

text \<open>The pointers of a client: all there, or all gone.\<close>

definition has_pointers :: "client \<Rightarrow> bool" where
  "has_pointers c \<longleftrightarrow> crypt c \<noteq> None \<and> cl_host c \<noteq> None \<and> cl_address c \<noteq> None"

definition no_pointers :: "client \<Rightarrow> bool" where
  "no_pointers c \<longleftrightarrow> crypt c = None \<and> cl_host c = None \<and> cl_address c = None"

lemma stay_pointers:
  "stay c c' \<Longrightarrow> has_pointers c' = has_pointers c" "stay c c' \<Longrightarrow> no_pointers c' = no_pointers c"
  by (simp_all add: stay_def has_pointers_def no_pointers_def)

definition session_ok :: "bool \<Rightarrow> client \<Rightarrow> bool" where
  "session_ok failed c \<longleftrightarrow>
     client_ok c \<and> referenced c \<and> (connected c \<longrightarrow> connecting c) \<and> (0 \<le> self c \<longrightarrow> connecting c) \<and>
     (connecting c \<longrightarrow> \<not> cl_unset c \<and> (if failed then no_pointers c else has_pointers c)) \<and>
     (\<not> connecting c \<longrightarrow> users c = Map.empty \<and> channels c = Map.empty \<and> (cl_unset c \<or> no_pointers c))"

lemma session_ok_new: "session_ok failed (mumble_client_new major minor patch jb jr)"
  by (simp add: session_ok_def client_ok_new) (simp add: mumble_client_new_def referenced_def)

lemma session_ok_idle: "idle c \<Longrightarrow> client_ok c \<Longrightarrow> session_ok failed c"
  by (simp add: session_ok_def idle_def referenced_def no_pointers_def)

lemma session_ok_stay:
  assumes "session_ok failed c" "client_ok c'" "stay c c'" "connecting c \<or> same_objects c c'"
  shows "session_ok failed c'"
proof (cases "connecting c")
  case True
  then have "connecting c'" "cl_unset c' = cl_unset c" using assms(3) by (simp_all add: stay_def)
  then show ?thesis
    using assms(1,2) True stay_referenced [OF assms(3)] stay_pointers [OF assms(3)] by (simp add: session_ok_def)
next
  case False
  then have t: "\<not> connecting c'" "\<not> connected c'" "cl_unset c' = cl_unset c" "self c' = self c"
    using assms(1,3) by (simp_all add: stay_def session_ok_def)
  have "\<not> 0 \<le> self c'" using assms(1) False t(4) by (simp add: session_ok_def)
  moreover have "users c' = Map.empty \<and> channels c' = Map.empty"
    using assms(1,4) False by (auto simp: same_objects_def session_ok_def)
  ultimately show ?thesis
    using t assms(1,2) False stay_referenced [OF assms(3)] stay_pointers [OF assms(3)] by (simp add: session_ok_def)
qed

lemma session_ok_moved:
  assumes "session_ok failed c" "client_ok c'" "moved c c'" "connecting c \<or> same_objects c c'"
  shows "session_ok failed c'"
  using assms(3) session_ok_stay [OF assms(1,2) _ assms(4)] session_ok_idle [OF _ assms(2)]
  unfolding moved_def by blast

lemma session_okD:
  "session_ok failed c \<Longrightarrow> client_ok c" "session_ok failed c \<Longrightarrow> referenced c"
  "session_ok failed c \<Longrightarrow> connected c \<longrightarrow> connecting c"
  by (simp_all add: session_ok_def)

lemma session_ok_disconnect:
  assumes "session_ok failed c" "connecting c"
  shows "session_ok failed (mumble_disconnect r gc c)"
  using assms session_okD
  by (intro session_ok_moved [OF assms(1)] client_ok_disconnect moved_disconnect) simp_all

lemma session_ok_connect:
  assumes "session_ok failed c" "mumble_client_connect A W args c = Some r"
  shows "session_ok (refused failed r) (left_by c r)"
proof -
  have crypt: "\<forall>k. x = Some k \<longrightarrow> crypt_ok k \<Longrightarrow> client_ok (c \<lparr> crypt := x \<rparr>)" for x
    using assms(1) by (auto simp: session_ok_def client_ok_def user_store.ok_def channel_store.ok_def)
  have ok: "client_ok c'" if "users c' = users c" "user_list c' = user_list c" "channels c' = channels c"
    "channel_list c' = channel_list c" "\<forall>k. crypt c' = Some k \<longrightarrow> crypt_ok k" for c'
    using client_ok_cong [of c' "c \<lparr> crypt := crypt c' \<rparr>"] crypt [of "crypt c'"] that by simp
  show ?thesis
    using connect_cases [OF assms(2)] assms(1)
    by (elim disjE exE conjE)
      (auto simp: left_by_def refused_def session_ok_def referenced_def has_pointers_def no_pointers_def crypt_ok_init
        intro!: ok)
qed

lemma session_ok_handshake:
  assumes "session_ok failed c" "connecting c" "socket_write_event_tcp H c = Some c'"
  shows "session_ok failed c'"
proof -
  have "session_ok failed (mumble_client_cleanup c)"
    using assms(1,2) cleanup_result(5-8,11-13) [OF session_okD(1) [OF assms(1)]] client_ok_cleanup [of c]
    by (auto simp: session_ok_def referenced_def has_pointers_def no_pointers_def)
  moreover have "session_ok failed (mumble_hook_call ''OnConnect'' [] (c \<lparr> connected := True \<rparr>))"
    using assms(1,2) by (auto simp: session_ok_def referenced_def has_pointers_def no_pointers_def cl_frame split: if_splits)
  moreover have "(\<exists>r. c' = mumble_disconnect r False c) \<or> c' = c \<or> c' = mumble_client_cleanup c \<or>
      c' = mumble_hook_call ''OnConnect'' [] (c \<lparr> connected := True \<rparr>)"
    using assms(3)
    by (auto simp: socket_write_event_tcp_def bind_eq_Some_conv split: option.splits if_splits
        handshake_answer.splits)
  ultimately show ?thesis using assms(1) session_ok_disconnect [OF assms(1,2)] by blast
qed

lemma session_ok_result:
  assumes "session_ok failed c" "all_some (api_ok c) m" "m = Some r"
  shows "session_ok failed (left_by c r)"
  using assms session_ok_moved [of failed c]
  by (auto simp: all_some_def api_ok_def left_by_def split: sum.splits)

lemma session_ok_read:
  assumes "session_ok failed c" "socket_read_event_tcp E D W T p c = Some c'"
  shows "session_ok failed c'"
proof (cases "connecting c")
  case True
  have "moved c c' \<and> client_ok c'"
    using all_someD [OF read_event_ok [OF session_okD(1,2) [OF assms(1)]] assms(2)] .
  then show ?thesis using session_ok_moved [OF assms(1)] True by blast
next
  case False
  then have "c' = c"
    using assms(2) session_okD(3) [OF assms(1)]
    by (auto simp: socket_read_event_tcp_def mumble_disconnect_def split: option.splits if_splits)
  then show ?thesis using assms(1) by simp
qed

lemma session_ok_step:
  assumes "session_ok failed c" "session_step E D p c c'"
  shows "session_ok failed c'"
proof -
  note ok = session_okD [OF assms(1)]
  have stays: "session_ok failed c'" if "all_some (stay c) m" "all_some client_ok m" "m = Some c'"
    "connecting c \<or> same_objects c c'" for m
    using session_ok_stay [OF assms(1) all_someD [OF that(2,3)] all_someD [OF that(1,3)] that(4)] .
  from assms(2) show ?thesis
  proof (cases rule: session_step.cases)
    case (tcp_connected e)
    then show ?thesis
      using assms(1) session_ok_disconnect by (simp add: mumble_connected_tcp_def split: option.split)
  next
    case (handshake H)
    then show ?thesis using session_ok_handshake [OF assms(1)] by simp
  next
    case (control_data W T)
    then show ?thesis using session_ok_read [OF assms(1)] by simp
  next
    case (voice_data W d)
    then show ?thesis using stays [OF stay_read_udp client_ok_read_udp [OF ok(1)]] by blast
  next
    case (timer W)
    then have "mumble_ping E W c = Some c'" by (simp add: mumble_ping_timer_def)
    then show ?thesis using stays [OF stay_ping client_ok_ping [OF ok(1)]] timer(1) by blast
  next
    case (client_method name W args r)
    then show ?thesis using session_ok_result [OF assms(1) client_method_ok [OF ok]] by simp
  next
    case (user_method name W args r)
    then show ?thesis using session_ok_result [OF assms(1) result_api [OF user_call_typed [OF ok(1)]]] by simp
  next
    case (channel_method name W args r)
    then show ?thesis using session_ok_result [OF assms(1) result_api [OF channel_method_typed [OF ok(1)]]] by simp
  qed
qed

lemma session_ok_reachable:
  "session_reachable E D p (mumble_client_new major minor patch jb jr) failed c \<Longrightarrow> session_ok failed c"
  by (induction rule: session_reachable.induct) (auto intro: session_ok_new session_ok_connect session_ok_step)

section \<open>Becoming synchronized\<close>

fun handshake_events :: "handshake_event list \<Rightarrow> client \<Rightarrow> client option" where
  "handshake_events [] c = Some c"
| "handshake_events (H # Hs) c = do { c \<leftarrow> socket_write_event_tcp H c; handshake_events Hs c }"

text \<open>An event of a handshake that is not over yet, and the one that ends it.\<close>

definition waiting :: "handshake_event \<Rightarrow> bool" where
  "waiting H \<longleftrightarrow> he_error H = None \<and> (he_writable H \<longrightarrow> he_answer H = Handshake_Retry)"

definition finishing :: "handshake_event \<Rightarrow> bool" where
  "finishing H \<longleftrightarrow> he_error H = None \<and> he_writable H \<and> he_answer H = Handshake_Done"

lemma handshake_events_done:
  assumes "\<forall>H\<in>set Hs. waiting H" "finishing F" "\<not> connected c" "cl_address c \<noteq> None"
  shows "handshake_events (Hs @ [F]) c = Some (mumble_hook_call ''OnConnect'' [] (c \<lparr> connected := True \<rparr>))"
  using assms
  by (induction Hs) (auto simp: waiting_def finishing_def socket_write_event_tcp_def)

lemma handle_all_connected:
  "\<lbrakk>handle_all E D W ps c = Some c'; client_ok c; referenced c; connected c; connected c'\<rbrakk> \<Longrightarrow>
   stay c c' \<and>
   (\<forall>b. (PACKET_SERVERSYNC, b) \<in> set ps \<longrightarrow> un_server_sync D b \<noteq> None \<longrightarrow> synced c' \<and> ping_timer c')"
proof (induction ps arbitrary: c)
  case (Cons p ps)
  obtain ty b where p: "p = (ty, b)" by (cases p)
  obtain c1 where c1: "packet_handler E D W ty b c = Some c1" "handle_all E D W ps c1 = Some c'"
    using Cons.prems(1,4) by (auto simp: p bind_eq_Some_conv)
  have "connected c1"
  proof (rule ccontr)
    assume "\<not> connected c1"
    then have "handle_all E D W ps c1 = Some c1" by (induction ps) auto
    with c1(2) \<open>\<not> connected c1\<close> Cons.prems(5) show False by simp
  qed
  then have stay: "stay c c1"
    using all_someD [OF moved_handler [OF Cons.prems(2,3)] c1(1)] by (auto simp: moved_def idle_def)
  have ok: "client_ok c1" "referenced c1"
    using all_someD [OF client_ok_handler [OF Cons.prems(2)] c1(1)] Cons.prems(3) stay_referenced [OF stay] by simp_all
  note ih = Cons.IH [OF c1(2) ok \<open>connected c1\<close> Cons.prems(5)]
  have "synced c1 \<and> ping_timer c1" if "ty = PACKET_SERVERSYNC" "un_server_sync D b = Some m" for m
    using that c1(1) all_someD [OF stay_sync [of c E m]] by (simp add: with_message_def)
  then show ?case
    using ih stay_trans [OF stay] by (auto simp: p stay_def)
qed simp

lemma whole_frames:
  assumes "\<forall>(ty, b)\<in>set ps. b \<noteq> [] \<and> length b < 2 ^ 32" and p: "pk_header p = None"
  shows "tcp_events E D W p (map (\<lambda>(ty, b). whole_frame (packet_frame ty b)) ps) c = handle_all E D W ps c"
  using assms(1)
proof (induction ps arbitrary: c)
  case (Cons f ps)
  then show ?case
    using read_whole_frame [of c "snd f" p E D W "fst f"] p
    by (cases f) (auto simp: socket_read_event_tcp_def whole_frame_def cong: Option.bind_cong)
qed simp

end
