(* ===== verification/BufferApi.thy ===== *)
theory BufferApi
  imports Buffer Bindings
begin

text \<open>
  Buffer objects (the Lua part of \<open>mumble/buffer.c\<close>): the constructor, the methods and the
  metatable. Arguments are numbered from one with the object first. The reads raise an error when
  the buffer does not hold what is asked for; what was consumed before the error stays consumed.
\<close>

section \<open>The surroundings of a call\<close>

text \<open>
  \<open>heap\<close> is the allocator, \<open>stack_room\<close> the bytes left on the C stack, and \<open>buffers\<close> the other buffer
  objects: the structure, and the 16 bytes of its two pointers in memory. Writing a buffer into
  itself is outside the model.
\<close>

record buffer_world =
  heap :: mem_env
  stack_room :: nat
  buffers :: "nat \<Rightarrow> (ByteBuffer \<times> u8 list) option"

type_synonym buffer_method = "env \<Rightarrow> buffer_world \<Rightarrow> lval list \<Rightarrow> ByteBuffer \<Rightarrow> ByteBuffer object_result"

definition beyond_limit :: lua_error where
  "beyond_limit = LuaError ''attempt to read beyond buffer limit''"

definition as_size :: "env \<Rightarrow> lval \<Rightarrow> u64 option" where
  "as_size E v =
     (case v of LInt n \<Rightarrow> Some (of_int n) | LNum d \<Rightarrow> map_option of_int (int_of_d E d) | _ \<Rightarrow> None)"

section \<open>Making and freeing\<close>

definition mumble_buffer_new :: "env \<Rightarrow> buffer_world \<Rightarrow> lval list \<Rightarrow> ByteBuffer lua_result option" where
  "mumble_buffer_new E W args =
     (let made = (\<lambda>(ok, b). if ok then Inr b else Inl (LuaError ''error initializing buffer''))
      in case arg args 2 of
           None \<Rightarrow> Some (made (buffer_init (heap W) 1024))
         | Some (LStr data) \<Rightarrow> map_option made (buffer_init_data (heap W) data (of_nat (length data)))
         | Some (LInt n) \<Rightarrow> Some (made (buffer_init (heap W) (of_int n)))
         | Some (LNum d) \<Rightarrow> do { n \<leftarrow> int_of_d E d; Some (made (buffer_init (heap W) (of_int n))) }
         | Some _ \<Rightarrow> Some (Inl (BadArgument 1 ''number or string expected'')))"

text \<open>The context of a buffer that feeds a client is not part of this object.\<close>

definition buffer_free :: "ByteBuffer \<Rightarrow> ByteBuffer" where
  "buffer_free b =
     b \<lparr> buf_data := None, original_capacity := 0, capacity := 0, write_head := 0, read_head := 0 \<rparr>"

definition luabuffer_gc :: buffer_method where
  "luabuffer_gc E W args b = gives [] (buffer_free b)"

definition luabuffer_pack :: buffer_method where
  "luabuffer_pack E W args b = do { b \<leftarrow> buffer_pack b; gives [] b }"

definition luabuffer_reset :: buffer_method where
  "luabuffer_reset E W args b = gives [] (buffer_reset b)"

definition luabuffer_flip :: buffer_method where
  "luabuffer_flip E W args b = gives [] (buffer_flip b)"

definition luabuffer_readHead :: buffer_method where
  "luabuffer_readHead E W args b = gives [vsint (read_head b)] b"

definition luabuffer_writeHead :: buffer_method where
  "luabuffer_writeHead E W args b = gives [vsint (write_head b)] b"

section \<open>Raw data\<close>

text \<open>
  For another buffer the source is \<open>in + in->read_head\<close>, where \<open>in\<close> points to structures: the bytes
  are those of the structure itself when its read head is 0, and of memory far behind it when
  it is not.
\<close>

definition struct_bytes :: "ByteBuffer \<Rightarrow> u8 list \<Rightarrow> u8 list" where
  "struct_bytes b pointers =
     le_bytes 8 (original_capacity b) @ le_bytes 8 (capacity b) @ le_bytes 8 (read_head b) @
     le_bytes 8 (write_head b) @ pointers"

definition source_bytes :: "ByteBuffer \<Rightarrow> u8 list \<Rightarrow> u8 list option" where
  "source_bytes b pointers =
     (if buffer_length b = 0 then Some []
      else slice (struct_bytes b pointers) (48 * unat (read_head b)) (unat (buffer_length b)))"

definition luabuffer_write :: buffer_method where
  "luabuffer_write E W args b =
     (case arg args 2 of
        Some (LObject metatable n) \<Rightarrow>
          (if metatable = ''mumble.buffer'' then do {
             (src, pointers) \<leftarrow> buffers W n;
             bytes \<leftarrow> source_bytes src pointers;
             (k, b) \<leftarrow> buffer_write (heap W) bytes (buffer_length src) b;
             gives [vsint k] b
           } else fails (BadArgument 2 ''mumble.buffer expected'') b)
      | Some (LStr data) \<Rightarrow> do {
          (k, b) \<leftarrow> buffer_write (heap W) data (of_nat (length data)) b;
          gives [vsint k] b
        }
      | _ \<Rightarrow> fails (BadArgument 1 ''string or mumble.buffer expected'') b)"

text \<open>The size of one argument of \<open>read\<close>; the inner \<open>None\<close> is an invalid format.\<close>

definition read_size :: "env \<Rightarrow> lval \<Rightarrow> ByteBuffer \<Rightarrow> u64 option option" where
  "read_size E v b =
     (case v of
        LStr s \<Rightarrow> Some (if take 2 s = bytes_of ''*a'' then Some (buffer_length b) else None)
      | LInt n \<Rightarrow> Some (as_size E v)
      | LNum d \<Rightarrow> map_option Some (as_size E v)
      | _ \<Rightarrow> Some None)"

fun read_args ::
  "env \<Rightarrow> buffer_world \<Rightarrow> (nat \<times> lval) list \<Rightarrow> lval list \<Rightarrow> ByteBuffer \<Rightarrow> ByteBuffer object_result" where
  "read_args E W [] pushed b = gives pushed b"
| "read_args E W ((i, v) # rest) pushed b = do {
     asked \<leftarrow> read_size E v b;
     (case asked of
        None \<Rightarrow> fails (BadArgument i ''invalid format'') b
      | Some n \<Rightarrow>
          if malloc (heap W) n = None
          then fails (LuaError ''failed to allocate memory for read buffer'') b
          else do {
            (k, bytes, b) \<leftarrow> buffer_read n b;
            if k = 0 then fails beyond_limit b
            else read_args E W rest (pushed @ [LStr bytes]) b
          })
   }"

definition luabuffer_read :: buffer_method where
  "luabuffer_read E W args b = read_args E W (zip [2 ..< Suc (length args)] (tl args)) [] b"

section \<open>Typed data\<close>

text \<open>
  The result of a typed write is the number of bytes. \<open>got\<close> is the common end of the readers: a size
  of zero is an error, the buffer is as the reader left it.
\<close>

definition wrote :: "(u8 \<times> ByteBuffer) option \<Rightarrow> ByteBuffer object_result" where
  "wrote r = do { (n, b) \<leftarrow> r; gives [vint n] b }"

definition got :: "('a \<Rightarrow> lval) \<Rightarrow> (u8 \<times> 'a option \<times> ByteBuffer) option \<Rightarrow> ByteBuffer object_result" where
  "got push r = do {
     (n, v, b) \<leftarrow> r;
     if n = 0 then fails beyond_limit b else do { x \<leftarrow> v; gives [push x] b }
   }"

definition luabuffer_writeByte :: buffer_method where
  "luabuffer_writeByte E W args b =
     checked b (check_integer args 2) (\<lambda>v. wrote (buffer_writeByte (heap W) (of_int v) b))"

definition luabuffer_readByte :: buffer_method where
  "luabuffer_readByte E W args b = got vint (buffer_readByte b)"

definition luabuffer_writeShort :: buffer_method where
  "luabuffer_writeShort E W args b =
     checked b (check_integer args 2) (\<lambda>v. wrote (buffer_writeNum (heap W) INT16 v b))"

definition luabuffer_readShort :: buffer_method where
  "luabuffer_readShort E W args b = got LInt (buffer_readNum INT16 b)"

definition luabuffer_writeInt :: buffer_method where
  "luabuffer_writeInt E W args b =
     checked b (check_integer args 2) (\<lambda>v. wrote (buffer_writeNum (heap W) INT32 v b))"

definition luabuffer_readInt :: buffer_method where
  "luabuffer_readInt E W args b = got LInt (buffer_readNum INT32 b)"

definition luabuffer_writeVarInt :: buffer_method where
  "luabuffer_writeVarInt E W args b =
     checked b (check_integer args 2) (\<lambda>v. wrote (buffer_writeVarInt (heap W) (of_int v) b))"

definition luabuffer_readVarInt :: buffer_method where
  "luabuffer_readVarInt E W args b =
     got vsint (do { (n, v, b) \<leftarrow> buffer_readVarInt b; Some (n, Some v, b) })"

definition luabuffer_writeFloat :: buffer_method where
  "luabuffer_writeFloat E W args b =
     checked b (check_number args 2) (\<lambda>d. wrote (buffer_writeFloat (heap W) (float_of_d E) d b))"

definition luabuffer_readFloat :: buffer_method where
  "luabuffer_readFloat E W args b = got (\<lambda>f. LNum (d_of_float E f)) (buffer_readFloat b)"

definition luabuffer_writeDouble :: buffer_method where
  "luabuffer_writeDouble E W args b =
     checked b (check_number args 2) (\<lambda>d. wrote (buffer_writeDouble (heap W) d b))"

definition luabuffer_readDouble :: buffer_method where
  "luabuffer_readDouble E W args b = got LNum (buffer_readDouble b)"

definition luabuffer_writeString :: buffer_method where
  "luabuffer_writeString E W args b =
     checked b (check_lstring args 2) (\<lambda>s. do {
       (_, b) \<leftarrow> buffer_writeVarInt (heap W) (of_nat (length s)) b;
       (n, b) \<leftarrow> buffer_write (heap W) s (of_nat (length s)) b;
       gives [vsint n] b
     })"

text \<open>
  The text is read into an array of \<open>size + 1\<close> bytes on the stack, made before the buffer is asked
  whether it holds as many: an array of no elements, or larger than the stack, is undefined.
\<close>

definition luabuffer_readString :: buffer_method where
  "luabuffer_readString E W args b = do {
     (n, sz, b) \<leftarrow> buffer_readVarInt b;
     if n = 0 then fails beyond_limit b
     else if sz + 1 = 0 \<or> stack_room W < unat (sz + 1) then None
     else do {
       (k, bytes, b) \<leftarrow> buffer_read sz b;
       if k = 0 then fails beyond_limit b else gives [LStr bytes] b
     }
   }"

definition luabuffer_writeBool :: buffer_method where
  "luabuffer_writeBool E W args b =
     checked b (luaL_checkboolean args 2)
       (\<lambda>v. wrote (buffer_writeByte (heap W) (if v then 1 else 0) b))"

definition luabuffer_readBool :: buffer_method where
  "luabuffer_readBool E W args b = got (\<lambda>x. LBool (x \<noteq> 0)) (buffer_readByte b)"

definition luabuffer_isEmpty :: buffer_method where
  "luabuffer_isEmpty E W args b = gives [LBool (buffer_isEmpty b)] b"

section \<open>Heads, length and fields\<close>

definition luabuffer_seek :: buffer_method where
  "luabuffer_seek E W args b =
     checked b (check_option args 2 (Some ''read'') [''read'', ''write'', ''both'']) (\<lambda>mode.
     checked b (check_option args 3 (Some ''cur'') [''set'', ''cur'', ''end'']) (\<lambda>position.
     checked b (opt_integer args 4 0) (\<lambda>offset.
       let off = of_int offset :: u64;
           new_read_head =
             (if position = ''set'' then off
              else if position = ''cur'' then read_head b + off else capacity b + off);
           new_write_head =
             (if position = ''set'' then off
              else if position = ''cur'' then write_head b + off else capacity b + off)
       in if mode = ''read'' then gives [vsint new_read_head] (b \<lparr> read_head := new_read_head \<rparr>)
          else if mode = ''write''
          then gives [vsint new_write_head] (b \<lparr> write_head := new_write_head \<rparr>)
          else gives [vsint new_read_head, vsint new_write_head]
                 (b \<lparr> read_head := new_read_head, write_head := new_write_head \<rparr>))))"

definition luabuffer_len :: buffer_method where
  "luabuffer_len E W args b = gives [vsint (buffer_length b)] b"

definition buffer_method_names :: "string list" where
  "buffer_method_names =
     [''pack'', ''reset'', ''flip'', ''write'', ''read'', ''writeByte'', ''readByte'', ''writeShort'',
      ''readShort'', ''writeInt'', ''readInt'', ''writeVarInt'', ''readVarInt'', ''writeFloat'',
      ''readFloat'', ''writeDouble'', ''readDouble'', ''writeString'', ''readString'', ''writeBool'',
      ''readBool'', ''writeBoolean'', ''readBoolean'', ''isEmpty'', ''seek'', ''__len'', ''__index'',
      ''__tostring'', ''__gc'']"

text \<open>
  The index is an \<open>int\<close>, compared with the heads as an unsigned number; it counts from the start
  of the block but is bounded by the number of unread bytes.
\<close>

definition luabuffer_index :: buffer_method where
  "luabuffer_index E W args b =
     (case arg args 2 of
        Some (LStr key) \<Rightarrow>
          (let key = c_string key
           in if key = bytes_of ''length'' then gives [vsint (buffer_length b)] b
              else if key = bytes_of ''capacity'' then gives [vsint (capacity b)] b
              else if key = bytes_of ''read_head'' then gives [vsint (read_head b)] b
              else if key = bytes_of ''write_head'' then gives [vsint (write_head b)] b
              else case find (\<lambda>m. bytes_of m = key) buffer_method_names of
                     None \<Rightarrow> gives [] b
                   | Some m \<Rightarrow> gives [LMethod m] b)
      | Some v \<Rightarrow>
          (if (\<exists>n. v = LInt n) \<or> (\<exists>d. v = LNum d) then do {
             n \<leftarrow> as_size E v;
             let index = (scast (ucast n :: u32) :: u64);
             if read_head b \<le> index \<and> index < buffer_length b then do {
               data \<leftarrow> buf_data b;
               x \<leftarrow> peek data (unat index);
               gives [LStr [x]] b
             } else gives [LNil] b
           } else gives [] b)
      | None \<Rightarrow> gives [] b)"

definition luabuffer_tostring :: "env \<Rightarrow> nat \<Rightarrow> cstr" where
  "luabuffer_tostring E n = address_text ''mumble.buffer'' (pointer_text E (LObject ''mumble.buffer'' n))"

definition mumble_buffer :: "(string \<times> buffer_method) list" where
  "mumble_buffer =
     [(''pack'', luabuffer_pack), (''reset'', luabuffer_reset), (''flip'', luabuffer_flip),
      (''write'', luabuffer_write), (''read'', luabuffer_read),
      (''writeByte'', luabuffer_writeByte), (''readByte'', luabuffer_readByte),
      (''writeShort'', luabuffer_writeShort), (''readShort'', luabuffer_readShort),
      (''writeInt'', luabuffer_writeInt), (''readInt'', luabuffer_readInt),
      (''writeVarInt'', luabuffer_writeVarInt), (''readVarInt'', luabuffer_readVarInt),
      (''writeFloat'', luabuffer_writeFloat), (''readFloat'', luabuffer_readFloat),
      (''writeDouble'', luabuffer_writeDouble), (''readDouble'', luabuffer_readDouble),
      (''writeString'', luabuffer_writeString), (''readString'', luabuffer_readString),
      (''writeBool'', luabuffer_writeBool), (''readBool'', luabuffer_readBool),
      (''writeBoolean'', luabuffer_writeBool), (''readBoolean'', luabuffer_readBool),
      (''isEmpty'', luabuffer_isEmpty), (''seek'', luabuffer_seek), (''__len'', luabuffer_len),
      (''__index'', luabuffer_index), (''__gc'', luabuffer_gc)]"


section \<open>Strings\<close>

text \<open>The text of a string in a buffer, and the calls of a script as operations on the buffer.\<close>

definition string_bytes :: "u8 list \<Rightarrow> u8 list" where
  "string_bytes s = buf_varint_bytes (of_nat (length s)) @ s"

definition string_put :: "env \<Rightarrow> buffer_world \<Rightarrow> u8 list \<Rightarrow> ByteBuffer \<Rightarrow> ByteBuffer option" where
  "string_put E W s b =
     (case luabuffer_writeString E W [LObject ''mumble.buffer'' 0, LStr s] b of
        Some (Inr vs, b) \<Rightarrow> Some b | _ \<Rightarrow> None)"

definition string_get :: "env \<Rightarrow> buffer_world \<Rightarrow> ByteBuffer \<Rightarrow> (u8 list \<times> ByteBuffer) option" where
  "string_get E W b =
     (case luabuffer_readString E W [LObject ''mumble.buffer'' 0] b of
        Some (Inr [LStr s], b) \<Rightarrow> Some (s, b) | _ \<Rightarrow> None)"

definition string_fits :: "buffer_world \<Rightarrow> u8 list \<Rightarrow> bool" where
  "string_fits W s \<longleftrightarrow> s \<noteq> [] \<and> length s < stack_room W \<and> length s < 2 ^ 62"

lemma varint_reported_pos: "(of_nat (varint_reported v) :: u8) \<noteq> 0"
proof -
  have first: "hd (varint_bytes w) \<noteq> 0xF8" for w
    using hd_varint_bytes [of w] varint_bytes_nonempty [of w] by (cases "varint_bytes w") force+
  have small: "(ucast (0xFC OR NOT w) :: u8) \<noteq> 0xF8" for w :: u64
    using buf_varint_small_byte [of w] by auto
  have "0 < varint_reported v \<and> varint_reported v \<le> 10"
    using length_buf_varint_bytes [of v] length_varint_bytes_bounds [of v]
      length_varint_bytes_bounds [of "NOT v"] first [of v] small [of v]
    by (auto simp: varint_reported_def buf_varint_bytes_def)
  then show ?thesis by (simp add: word_of_nat_eq_0_iff) (auto dest: dvd_imp_le)
qed

lemma luabuffer_writeString_appends:
  assumes "can_write (heap W) b (length (string_bytes s) + n)" "length s < 2 ^ 62"
  shows "\<exists>b'. luabuffer_writeString E W [v, LStr s] b = gives [LInt (int (length s))] b' \<and>
    can_write (heap W) b' n \<and> unread b' = unread b @ string_bytes s"
proof -
  let ?l = "of_nat (length s) :: u64"
  have l: "unat ?l = length s" using assms(2) by (simp add: unat_of_nat)
  have w: "can_write (heap W) b (length (buf_varint_bytes ?l) + (length s + n))"
    using assms(1) by (simp add: string_bytes_def add.assoc)
  then have "can_write (heap W) b (length (buf_varint_bytes ?l))" by (simp add: can_write_def)
  from buffer_writeVarInt_appends [OF this] obtain b1 where
    b1: "buffer_writeVarInt (heap W) ?l b = Some (of_nat (length (buf_varint_bytes ?l)), b1)"
      "buf_ok b1" "unread b1 = unread b @ buf_varint_bytes ?l"
      "write_head b1 = write_head b + of_nat (length (buf_varint_bytes ?l))"
    by blast
  have w1: "can_write (heap W) b1 (length s + n)" by (rule can_write_after [OF w b1(2,4)])
  then have "can_write (heap W) b1 (unat ?l)" by (simp add: can_write_def l)
  from buffer_write_appends [OF this, of s] l obtain b2 where
    b2: "buffer_write (heap W) s ?l b1 = Some (?l, b2)" "buf_ok b2" "unread b2 = unread b1 @ s"
      "write_head b2 = write_head b1 + ?l"
    by auto
  have "can_write (heap W) b2 n" by (rule can_write_after [OF w1 b2(2,4)])
  moreover have "(vsint ?l) = LInt (int (length s))"
    using assms(2) by (simp add: vsint_def sint_uint signed_take_bit_int_eq_self unat_of_nat uint_nat l)
  ultimately show ?thesis
    using b1 b2 by (auto simp: luabuffer_writeString_def check_lstring_def arg_def string_bytes_def)
qed

lemma luabuffer_readString_takes:
  assumes "buf_ok b" "unread b = string_bytes s @ rest" "string_fits W s"
  shows "\<exists>b'. luabuffer_readString E W args b = gives [LStr s] b' \<and> buf_ok b' \<and> unread b' = rest"
proof -
  let ?l = "of_nat (length s) :: u64"
  have l: "unat ?l = length s" using assms(3) by (simp add: unat_of_nat string_fits_def)
  let ?b1 = "advance b (length (buf_varint_bytes ?l))"
  have u: "unread b = buf_varint_bytes ?l @ (s @ rest)"
    using assms(2) by (simp add: string_bytes_def)
  have b1: "buf_ok ?b1" "unread ?b1 = s @ rest"
    using advance_unread [OF assms(1), of "length (buf_varint_bytes ?l)"] u by auto
  have r: "buffer_read ?l ?b1 = Some (?l, s, ?b1 \<lparr> read_head := read_head ?b1 + ?l \<rparr>)"
    using buffer_read_enough [OF b1(1), of ?l] b1(2) l by simp
  have b2: "buf_ok (?b1 \<lparr> read_head := read_head ?b1 + ?l \<rparr>)"
      "unread (?b1 \<lparr> read_head := read_head ?b1 + ?l \<rparr>) = rest"
    using unread_advance [OF b1(1), of ?l] b1(2) l by auto
  have "unat (?l + 1) = length s + 1" using l assms(3) by (simp add: unat_add_small string_fits_def)
  moreover have "?l \<noteq> 0" "?l + 1 \<noteq> 0" using l calculation assms(3) by (auto simp: string_fits_def)
  ultimately have "luabuffer_readString E W args b =
      gives [LStr s] (?b1 \<lparr> read_head := read_head ?b1 + ?l \<rparr>)"
    using buffer_readVarInt_decodes [OF assms(1) u] varint_reported_pos r assms(3)
    by (simp add: luabuffer_readString_def string_fits_def)
  with b2 show ?thesis by blast
qed

interpretation strings:
  stream_codec string_bytes "string_fits W" "can_write (heap W)" buf_ok unread "string_put E W"
    "string_get E W"
  for E W
proof (unfold_locales, goal_cases)
  case (1 s n)
  then show ?case by (simp add: can_write_def)
next
  case (2 x s n)
  then show ?case
    using luabuffer_writeString_appends [OF 2(2), of E "LObject ''mumble.buffer'' 0"]
    by (auto simp: string_put_def string_fits_def)
next
  case (3 x s rest)
  from luabuffer_readString_takes [OF 3(2,3,1), of E "[LObject ''mumble.buffer'' 0]"] show ?case by (fastforce simp: string_get_def)
qed


section \<open>Properties\<close>

definition sample_buffers :: buffer_world where
  "sample_buffers =
     \<lparr> heap = mem0, stack_room = 100,
       buffers = (\<lambda>n. Some (buf0 \<lparr> capacity := 4, write_head := 3, buf_data := Some [7, 8, 9, 0] \<rparr>, replicate 16 0)) \<rparr>"

lemma sample_buffers_simps [simp]:
  "heap sample_buffers = mem0" "stack_room sample_buffers = 100"
  "buffers sample_buffers n =
     Some (buf0 \<lparr> capacity := 4, write_head := 3, buf_data := Some [7, 8, 9, 0] \<rparr>, replicate 16 0)"
  by (simp_all add: sample_buffers_def)

text \<open>
  Any strings a script writes with \<open>writeString\<close> into a buffer with nothing unread, binary ones
  included, are given back by \<open>readString\<close> in order with nothing left over, as long as each is not
  empty, fits the C stack and the block can grow.
\<close>

theorem lua_strings_roundtrip:
  assumes "\<forall>s\<in>set ss. string_fits W s"
    and "can_write (heap W) b (length (concat (map string_bytes ss)))" "unread b = []"
  shows "\<exists>b' b''. put_all (string_put E W) ss b = Some b' \<and>
    get_all (string_get E W) (length ss) b' = Some (ss, b'') \<and> unread b'' = []"
  using strings.put_all_get_all [OF assms] .

lemma lua_strings_roundtrip_witness:
  "\<exists>b' b''. put_all (string_put sample_env sample_buffers) [[104, 105], [0, 1, 2]] buf0 = Some b' \<and>
    get_all (string_get sample_env sample_buffers) (length [[104, 105], [0, 1, 2 :: u8]]) b' =
      Some ([[104, 105], [0, 1, 2]], b'') \<and> unread b'' = []"
proof (rule lua_strings_roundtrip)
  show "\<forall>s\<in>set [[104, 105], [0, 1, 2 :: u8]]. string_fits sample_buffers s"
    by (simp add: string_fits_def)
  have "length (concat (map string_bytes [[104, 105], [0, 1, 2]])) \<le> 2 ^ 61"
    using length_buf_varint_bytes [of 2] length_buf_varint_bytes [of 3]
    by (simp add: string_bytes_def)
  then show "can_write (heap sample_buffers) buf0 (length (concat (map string_bytes [[104, 105], [0, 1, 2]])))"
    using can_write0 by simp
qed (simp add: buf0_ok)

text \<open>
  \<open>readString\<close> trusts the length in front of a string: the length 0, which \<open>writeString\<close> writes
  for an empty string, raises the error of a short buffer and is consumed; and a length that the
  stack does not hold is undefined behaviour, whatever the buffer has behind it.
\<close>

theorem string_prefix_trusted:
  assumes "buf_ok b" "unread b = buf_varint_bytes n @ rest"
  shows "(n = 0 \<and> 0 < stack_room W \<longrightarrow> (\<exists>b'. luabuffer_readString E W args b = fails beyond_limit b' \<and> unread b' = rest)) \<and>
    (n + 1 = 0 \<or> stack_room W < unat (n + 1) \<longrightarrow> luabuffer_readString E W args b = None)"
proof -
  let ?b1 = "advance b (length (buf_varint_bytes n))"
  have b1: "buf_ok ?b1" "unread ?b1 = rest"
    using advance_unread [OF assms(1), of "length (buf_varint_bytes n)"] assms(2) by auto
  note r = buffer_readVarInt_decodes [OF assms] varint_reported_pos
  have "luabuffer_readString E W args b = None" if "n + 1 = 0 \<or> stack_room W < unat (n + 1)"
    using r that by (auto simp: luabuffer_readString_def)
  moreover have "\<exists>b'. luabuffer_readString E W args b = fails beyond_limit b' \<and> unread b' = rest"
    if "n = 0" "0 < stack_room W"
    using r that buffer_read_enough [OF b1(1), of 0] b1(2) by (simp add: luabuffer_readString_def)
  ultimately show ?thesis by blast
qed

lemma string_prefix_trusted_witness:
  "luabuffer_readString E sample_buffers [] (buf0 \<lparr> write_head := 1, buf_data := Some [0, 0] \<rparr>) \<noteq> None \<and>
   luabuffer_readString E sample_buffers [] (buf0 \<lparr> write_head := 1, buf_data := Some [0x7F, 0] \<rparr>) = None"
proof -
  let ?b = "\<lambda>x. buf0 \<lparr> write_head := 1, buf_data := Some [x, 0] \<rparr>"
  have ok: "buf_ok (?b x)" "unread (?b x) = [x] @ []" for x
    by (simp_all add: buf_ok_def unread_def buf0_def)
  have bytes: "buf_varint_bytes 0 = [0]" "buf_varint_bytes 0x7F = [0x7F]"
    by (simp_all add: buf_varint_bytes_def varint_bytes_def)
  have "unread (?b 0) = buf_varint_bytes 0 @ []" "unread (?b 0x7F) = buf_varint_bytes 0x7F @ []"
    using ok(2) bytes by simp_all
  from string_prefix_trusted [OF ok(1) this(1), of sample_buffers E "[]"]
    string_prefix_trusted [OF ok(1) this(2), of sample_buffers E "[]"]
  show ?thesis by auto
qed

text \<open>
  Writing a buffer into another, \<open>a:write(b)\<close>, does not append the bytes \<open>b\<close> holds: with a read
  head of 0 it appends the first bytes of the structure of \<open>b\<close>, its capacities and heads, as many as
  \<open>b\<close> has unread; with any other read head, or more than 48 bytes, it reads memory outside it.
\<close>

theorem buffer_write_object:
  assumes "buffers W k = Some (src, pointers)" "length pointers = 16" "0 < unat (buffer_length src)"
    and "can_write (heap W) b (unat (buffer_length src))"
  shows "if read_head src = 0 \<and> unat (buffer_length src) \<le> 48
     then \<exists>b'. luabuffer_write E W [v, LObject ''mumble.buffer'' k] b = gives [vsint (buffer_length src)] b' \<and>
       unread b' = unread b @ take (unat (buffer_length src)) (struct_bytes src pointers)
     else luabuffer_write E W [v, LObject ''mumble.buffer'' k] b = None"
proof -
  have l: "length (struct_bytes src pointers) = 48" using assms(2) by (simp add: struct_bytes_def)
  have p: "buffer_length src \<noteq> 0" using assms(3) by auto
  show ?thesis
  proof (cases "read_head src = 0 \<and> unat (buffer_length src) \<le> 48")
    case True
    let ?bytes = "take (unat (buffer_length src)) (struct_bytes src pointers)"
    have "source_bytes src pointers = Some ?bytes"
      using True l p by (simp add: source_bytes_def slice_def)
    moreover obtain b' where "buffer_write (heap W) ?bytes (buffer_length src) b = Some (buffer_length src, b')"
        "unread b' = unread b @ take (unat (buffer_length src)) ?bytes"
      using buffer_write_appends [OF assms(4), of ?bytes] True l by auto
    ultimately show ?thesis
      using True assms(1) by (simp add: luabuffer_write_def arg_def)
  next
    case False
    then have "read_head src \<noteq> 0 \<or> 48 < unat (buffer_length src)" by auto
    moreover have "read_head src \<noteq> 0 \<Longrightarrow> 0 < unat (read_head src)" by (simp add: unat_gt_0)
    ultimately have "source_bytes src pointers = None"
      using l p assms(3) by (auto simp: source_bytes_def slice_def)
    with False assms(1) show ?thesis by (simp add: luabuffer_write_def arg_def)
  qed
qed

lemma buffer_write_object_witness:
  "\<exists>b'. luabuffer_write sample_env sample_buffers [LNil, LObject ''mumble.buffer'' 5] buf0 = gives [LInt 3] b' \<and>
     unread b' = [2, 0, 0]"
proof -
  let ?src = "buf0 \<lparr> capacity := 4, write_head := 3, buf_data := Some [7, 8, 9, 0] \<rparr>"
  have len: "buffer_length ?src = 3" "read_head ?src = 0" by (simp_all add: buffer_length_def buf0_def)
  have "le_bytes 8 (2 :: u64) = [2, 0, 0, 0, 0, 0, 0, 0]" by code_simp
  then have bytes: "take 3 (struct_bytes ?src p) = [2, 0, 0]" for p
    by (simp add: struct_bytes_def buf0_def)
  have "can_write (heap sample_buffers) buf0 (unat (buffer_length ?src))"
    using can_write0 len by simp
  from buffer_write_object [OF sample_buffers_simps(3) _ _ this, of sample_env LNil 5]
  show ?thesis by (simp add: len bytes vsint_def buf0_ok(2))
qed

end
