(* ===== verification/CryptApi.thy ===== *)
theory CryptApi
  imports Bindings Packets
begin

text \<open>
  Crypt objects (\<open>mumble/crypt.c\<close>) and ban entries (\<open>mumble/banentry.c\<close>): thin objects over the
  state of \<open>Crypt\<close> and over the message of a ban. The random bytes of a generated key are an
  argument of the methods.
\<close>

section \<open>Crypt objects\<close>

type_synonym random_keys = "u8 list \<times> u8 list \<times> u8 list"

type_synonym crypt_method =
  "env \<Rightarrow> world \<Rightarrow> random_keys \<Rightarrow> lval list \<Rightarrow> mumble_crypt \<Rightarrow> mumble_crypt object_result"

definition mumble_crypt_new :: "bool \<Rightarrow> mumble_crypt lua_result" where
  "mumble_crypt_new allocated =
     (if allocated then Inr crypt_init else Inl (LuaError ''unable to create mumble.crypt''))"

definition ocb_aes128_isValid :: crypt_method where
  "ocb_aes128_isValid E W R args c = gives [LBool (crypt_isValid c)] c"

definition ocb_aes128_genKey :: crypt_method where
  "ocb_aes128_genKey E W R args c = gives [] (crypt_genKey (fst R) (fst (snd R)) (snd (snd R)) c)"

text \<open>The setters say whether the lengths were right.\<close>

definition told :: "bool \<times> mumble_crypt \<Rightarrow> mumble_crypt object_result" where
  "told r = gives [LBool (fst r)] (snd r)"

definition ocb_aes128_setKey :: crypt_method where
  "ocb_aes128_setKey E W R args c =
     checked c (check_lstring args 2) (\<lambda>rkey.
     checked c (check_lstring args 3) (\<lambda>eiv.
     checked c (check_lstring args 4) (\<lambda>div_iv. told (crypt_setKey rkey eiv div_iv c))))"

definition ocb_aes128_setRawKey :: crypt_method where
  "ocb_aes128_setRawKey E W R args c =
     checked c (check_lstring args 2) (\<lambda>rkey. told (crypt_setRawKey rkey c))"

definition ocb_aes128_setEncryptIV :: crypt_method where
  "ocb_aes128_setEncryptIV E W R args c =
     checked c (check_lstring args 2) (\<lambda>iv. told (crypt_setEncryptIV iv c))"

definition ocb_aes128_setDecryptIV :: crypt_method where
  "ocb_aes128_setDecryptIV E W R args c =
     checked c (check_lstring args 2) (\<lambda>iv. told (crypt_setDecryptIV iv c))"

definition ocb_aes128_getRawKey :: crypt_method where
  "ocb_aes128_getRawKey E W R args c = gives [LStr (crypt_getRawKey c)] c"

definition ocb_aes128_getEncryptIV :: crypt_method where
  "ocb_aes128_getEncryptIV E W R args c = gives [LStr (crypt_getEncryptIV c)] c"

definition ocb_aes128_getDecryptIV :: crypt_method where
  "ocb_aes128_getDecryptIV E W R args c = gives [LStr (crypt_getDecryptIV c)] c"

definition ocb_aes128_getGood :: crypt_method where
  "ocb_aes128_getGood E W R args c = gives [vsint (crypt_getGood c)] c"

definition ocb_aes128_getLate :: crypt_method where
  "ocb_aes128_getLate E W R args c = gives [vsint (crypt_getLate c)] c"

definition ocb_aes128_getLost :: crypt_method where
  "ocb_aes128_getLost E W R args c = gives [vsint (crypt_getLost c)] c"

text \<open>
  The blocks for the results are not tested for NULL: without memory there is no result, also where
  the block is not touched. Neither method asks whether a key was set.
\<close>

definition text_or_nil :: "u8 list option \<times> mumble_crypt \<Rightarrow> mumble_crypt object_result" where
  "text_or_nil r = gives [case fst r of None \<Rightarrow> LNil | Some t \<Rightarrow> LStr t] (snd r)"

definition ocb_aes128_encrypt :: crypt_method where
  "ocb_aes128_encrypt E W R args c =
     checked c (check_lstring args 2) (\<lambda>decrypted.
       if memory W then text_or_nil (crypt_encrypt (aes_encrypt E) decrypted c) else None)"

definition ocb_aes128_decrypt :: crypt_method where
  "ocb_aes128_decrypt E W R args c =
     checked c (check_lstring args 2) (\<lambda>encrypted.
       if memory W then text_or_nil (crypt_decrypt (aes_encrypt E) (aes_decrypt E) encrypted c)
       else None)"

definition ocb_aes128_gc :: crypt_method where
  "ocb_aes128_gc E W R args c = gives [] (crypt_uninitialize c)"

definition ocb_aes128_tostring :: "env \<Rightarrow> nat \<Rightarrow> cstr" where
  "ocb_aes128_tostring E n = address_text ''mumble.crypt'' (pointer_text E (LObject ''mumble.crypt'' n))"

definition mumble_ocb_aes128 :: "(string \<times> crypt_method) list" where
  "mumble_ocb_aes128 =
     [(''isValid'', ocb_aes128_isValid), (''genKey'', ocb_aes128_genKey), (''setKey'', ocb_aes128_setKey),
      (''setRawKey'', ocb_aes128_setRawKey), (''setEncryptIV'', ocb_aes128_setEncryptIV),
      (''setDecryptIV'', ocb_aes128_setDecryptIV), (''getRawKey'', ocb_aes128_getRawKey),
      (''getEncryptIV'', ocb_aes128_getEncryptIV), (''getDecryptIV'', ocb_aes128_getDecryptIV),
      (''getGood'', ocb_aes128_getGood), (''getLate'', ocb_aes128_getLate),
      (''getLost'', ocb_aes128_getLost), (''encrypt'', ocb_aes128_encrypt),
      (''decrypt'', ocb_aes128_decrypt), (''__gc'', ocb_aes128_gc)]"

section \<open>Ban entries\<close>

text \<open>
  The object is the message of a ban. Its \<open>has_duration\<close> flag is never set: the duration is a member
  of the object and not of what would be packed, whose \<open>be_duration\<close> stays \<open>None\<close>. The strings are
  pointers into strings of the caller, which the object does not keep alive; the model has the
  text as it was. The bytes of an address that is shorter than 16 are read past their end.
\<close>

record ban_object = ban_entry_msg +
  be_duration_value :: u32

type_synonym ban_method = "env \<Rightarrow> lval list \<Rightarrow> ban_object \<Rightarrow> ban_object object_result"

definition mumble_banentry_new :: "lval list \<Rightarrow> ban_object lua_result" where
  "mumble_banentry_new args =
     bind_result (check_lstring args 1) (\<lambda>address.
     bind_result (check_integer args 2) (\<lambda>mask.
       Inr \<lparr> be_address = address, be_mask = of_int mask, be_name = None, be_hash = None,
             be_reason = None, be_start = None, be_duration = None, be_duration_value = 0 \<rparr>))"

definition banentry_setAddress :: ban_method where
  "banentry_setAddress E args b =
     checked b (check_lstring args 2) (\<lambda>address. gives [] (b \<lparr> be_address := address \<rparr>))"

definition banentry_getAddress :: ban_method where
  "banentry_getAddress E args b = do { v \<leftarrow> mumble_push_address E (be_address b); gives [v] b }"

definition banentry_setMask :: ban_method where
  "banentry_setMask E args b =
     checked b (check_integer args 2) (\<lambda>mask. gives [] (b \<lparr> be_mask := of_int mask \<rparr>))"

definition banentry_getMask :: ban_method where
  "banentry_getMask E args b = gives [vint (be_mask b)] b"

definition banentry_setName :: ban_method where
  "banentry_setName E args b =
     checked b (check_string args 2) (\<lambda>s. gives [] (b \<lparr> be_name := Some s \<rparr>))"

definition banentry_getName :: ban_method where
  "banentry_getName E args b = gives [vstr (be_name b)] b"

definition banentry_setHash :: ban_method where
  "banentry_setHash E args b =
     checked b (check_string args 2) (\<lambda>s. gives [] (b \<lparr> be_hash := Some s \<rparr>))"

definition banentry_getHash :: ban_method where
  "banentry_getHash E args b = gives [vstr (be_hash b)] b"

definition banentry_setReason :: ban_method where
  "banentry_setReason E args b =
     checked b (check_string args 2) (\<lambda>s. gives [] (b \<lparr> be_reason := Some s \<rparr>))"

definition banentry_getReason :: ban_method where
  "banentry_getReason E args b = gives [vstr (be_reason b)] b"

definition banentry_setStart :: ban_method where
  "banentry_setStart E args b =
     checked b (check_string args 2) (\<lambda>s. gives [] (b \<lparr> be_start := Some s \<rparr>))"

definition banentry_getStart :: ban_method where
  "banentry_getStart E args b = gives [vstr (be_start b)] b"

definition banentry_setDuration :: ban_method where
  "banentry_setDuration E args b =
     checked b (check_integer args 2) (\<lambda>d. gives [] (b \<lparr> be_duration_value := of_int d \<rparr>))"

definition banentry_getDuration :: ban_method where
  "banentry_getDuration E args b = gives [vint (be_duration_value b)] b"

definition banentry_tostring :: "env \<Rightarrow> nat \<Rightarrow> cstr" where
  "banentry_tostring E n =
     address_text ''mumble.banentry'' (pointer_text E (LObject ''mumble.banentry'' n))"

definition mumble_banentry :: "(string \<times> ban_method) list" where
  "mumble_banentry =
     [(''setAddress'', banentry_setAddress), (''getAddress'', banentry_getAddress),
      (''setMask'', banentry_setMask), (''getMask'', banentry_getMask),
      (''setName'', banentry_setName), (''getName'', banentry_getName),
      (''setHash'', banentry_setHash), (''getHash'', banentry_getHash),
      (''setReason'', banentry_setReason), (''getReason'', banentry_getReason),
      (''setStart'', banentry_setStart), (''getStart'', banentry_getStart),
      (''setDuration'', banentry_setDuration), (''getDuration'', banentry_getDuration)]"

section \<open>Calls on two crypt objects\<close>

lemma told_ok: "crypt_ok (snd r) \<Longrightarrow> all_some (\<lambda>(r, c). crypt_ok c) (told r)"
  by (simp add: told_def all_some_def)

lemma text_or_nil_ok: "crypt_ok (snd r) \<Longrightarrow> all_some (\<lambda>(r, c). crypt_ok c) (text_or_nil r)"
  by (simp add: text_or_nil_def all_some_def)

text \<open>Every method keeps the lengths of the keys and vectors.\<close>

lemma crypt_methods_ok:
  assumes "(name, m) \<in> set mumble_ocb_aes128" "crypt_ok c"
    and "length (fst R) = 16" "length (fst (snd R)) = 16" "length (snd (snd R)) = 16"
  shows "all_some (\<lambda>(r, c). crypt_ok c) (m E W R args c)"
proof -
  note defs = ocb_aes128_isValid_def ocb_aes128_genKey_def ocb_aes128_setKey_def
    ocb_aes128_setRawKey_def ocb_aes128_setEncryptIV_def ocb_aes128_setDecryptIV_def
    ocb_aes128_getRawKey_def ocb_aes128_getEncryptIV_def ocb_aes128_getDecryptIV_def
    ocb_aes128_getGood_def ocb_aes128_getLate_def ocb_aes128_getLost_def ocb_aes128_encrypt_def
    ocb_aes128_decrypt_def ocb_aes128_gc_def
  have gen: "crypt_ok (crypt_genKey (fst R) (fst (snd R)) (snd (snd R)) c)" "crypt_ok (crypt_uninitialize c)"
    using assms(2-) by (simp_all add: crypt_ok_def crypt_genKey_def crypt_uninitialize_def)
  have simple: "all_some (\<lambda>(r, c). crypt_ok c) (gives vs c)" for vs
    using assms(2) by (simp add: all_some_def)
  show ?thesis
    using assms(1) unfolding mumble_ocb_aes128_def
    by (auto simp: defs intro!: all_some_checked told_ok text_or_nil_ok crypt_ok_set crypt_ok_encrypt
        crypt_ok_decrypt all_some_if simple assms(2) gen all_some_Some all_some_None)
qed

text \<open>
  Two scripts that give their crypt objects the same key and matching vectors with \<open>setKey\<close>
  understand each other: what the one encrypts the other decrypts, and a setter with a key or a
  vector of a wrong length is refused and changes nothing.
\<close>

theorem crypt_objects_agree:
  assumes "\<And>k x. aes_decrypt E k (aes_encrypt E k x) = x" "memory W" "crypt_ok a" "crypt_ok b"
    and "last_block_free (aes_encrypt E k) True plain (iv_increment iv)"
  shows "if length k = 16 \<and> length iv = 16 \<and> length other = 16
     then \<exists>a1 b1 a2 packet b2.
       ocb_aes128_setKey E W R [v, LStr k, LStr iv, LStr other] a = gives [LBool True] a1 \<and>
       ocb_aes128_setKey E W R [v, LStr k, LStr other, LStr iv] b = gives [LBool True] b1 \<and>
       ocb_aes128_encrypt E W R [v, LStr plain] a1 = gives [LStr packet] a2 \<and>
       ocb_aes128_decrypt E W R [v, LStr packet] b1 = gives [LStr (received True plain)] b2 \<and>
       decrypt_iv b2 = encrypt_iv a2 \<and> uiGood b2 = uiGood b + 1
     else ocb_aes128_setKey E W R [v, LStr k, LStr iv, LStr other] a = gives [LBool False] a"
proof (cases "length k = 16 \<and> length iv = 16 \<and> length other = 16")
  case True
  let ?a = "a \<lparr> raw_key := k, encrypt_iv := iv, decrypt_iv := other, bInit := True \<rparr>"
  let ?b = "b \<lparr> raw_key := k, encrypt_iv := other, decrypt_iv := iv, bInit := True \<rparr>"
  let ?iv = "iv_increment iv"
  obtain r a2 where e: "crypt_encrypt (aes_encrypt E) plain ?a = (r, a2)"
    by (cases "crypt_encrypt (aes_encrypt E) plain ?a") auto
  have a2: "encrypt_iv a2 = ?iv" using crypt_encrypt_ok(1) [OF e] by simp
  have "iv_value ?iv = (iv_value (decrypt_iv ?b) + 1) mod 256 ^ 16"
    using iv_value_increment [of iv] True by simp
  then have "recover_iv ?b (?iv ! 0) = Some (?iv, 0, 1 - 1, False)"
    using True by (intro recover_iv_ahead) simp_all
  from crypt_decrypt_encrypted [where b = ?b, OF assms(1) _ e, unfolded a2, OF _ this]
  obtain packet where "r = Some packet" and
    "crypt_decrypt (aes_encrypt E) (aes_decrypt E) packet ?b = (Some (received True plain),
       ?b \<lparr> decrypt_history := (decrypt_history b)[unat (?iv ! 0) := ?iv ! 1], decrypt_iv := ?iv,
         uiGood := uiGood b + 1, uiLate := update_stat (uiLate b) 0, uiLost := update_stat (uiLost b) 0 \<rparr>)"
    using assms(5) by auto
  with True e a2 assms(2) show ?thesis
    by (auto simp: ocb_aes128_setKey_def ocb_aes128_encrypt_def ocb_aes128_decrypt_def told_def
        text_or_nil_def crypt_setKey_def check_lstring_def arg_def)
next
  case False
  then show ?thesis
    by (auto simp: ocb_aes128_setKey_def told_def crypt_setKey_def check_lstring_def arg_def)
qed

lemma crypt_objects_agree_witness:
  "\<exists>b1 packet b2.
     ocb_aes128_setKey sample_env sample_world ([], [], [])
       [LNil, LStr (replicate 16 7), LStr (replicate 16 3), LStr (replicate 16 255)] crypt_init = gives [LBool True] b1 \<and>
     ocb_aes128_decrypt sample_env sample_world ([], [], []) [LNil, LStr packet] b1 = gives [LStr [65]] b2"
proof -
  have env: "aes_decrypt sample_env k (aes_encrypt sample_env k x) = x" "memory sample_world" for k x
    by (simp_all add: sample_env_def sample_world_def)
  have "aes_encrypt sample_env = id_cipher" by (intro ext) (simp add: sample_env_def id_cipher_def)
  moreover have "iv_increment (replicate 16 255) = replicate 16 0" by (simp add: replicate16)
  ultimately have free: "last_block_free (aes_encrypt sample_env (replicate 16 7)) True [65]
      (iv_increment (replicate 16 255))"
    using id_cipher_free [of 65 "replicate 16 7"] by simp
  show ?thesis
    using crypt_objects_agree [OF env crypt_ok_init crypt_ok_init free, where R = "([], [], [])" and v = LNil
        and other = "replicate 16 3"]
    by (auto simp: received.simps)
qed

end
