(* ===== verification/Coders.thy ===== *)
theory Coders
  imports Bindings Bandwidth
begin

text \<open>
  Encoder and decoder objects (\<open>mumble/encoder.c\<close>, \<open>mumble/decoder.c\<close>). Opus is a record of
  functions on the state of a coder: making one, control requests, coding. A request that Opus
  refuses makes the method raise; \<open>opus_int32\<close> values are words of 32 bits.
\<close>

section \<open>Opus\<close>

text \<open>
  \<open>enc_reads\<close> is the number of samples Opus reads for a frame size, \<open>enc_encode\<close> what it returns with the
  bytes it stores, given the samples, the frame size and the size of the output. \<open>dec_decode\<close>
  stores samples and returns how many there are of each channel, or an error.
\<close>

record 'e opus_encoder =
  enc_init :: "int \<Rightarrow> int \<Rightarrow> 'e option"
  enc_reset :: "'e \<Rightarrow> bool \<times> 'e"
  enc_get :: "string \<Rightarrow> 'e \<Rightarrow> u32 option"
  enc_set :: "string \<Rightarrow> u32 \<Rightarrow> 'e \<Rightarrow> bool \<times> 'e"
  enc_reads :: "'e \<Rightarrow> u32 \<Rightarrow> nat"
  enc_encode :: "'e \<Rightarrow> u8 list \<Rightarrow> u32 \<Rightarrow> u32 \<Rightarrow> int \<times> u8 list \<times> 'e"
  enc_encode_float :: "'e \<Rightarrow> u8 list \<Rightarrow> u32 \<Rightarrow> u32 \<Rightarrow> int \<times> u8 list \<times> 'e"

record 'd opus_decoder =
  dec_create :: "int \<Rightarrow> int \<Rightarrow> 'd option"
  dec_reset :: "'d \<Rightarrow> bool \<times> 'd"
  dec_get :: "string \<Rightarrow> 'd \<Rightarrow> u32 option"
  dec_set :: "string \<Rightarrow> u32 \<Rightarrow> 'd \<Rightarrow> bool \<times> 'd"
  dec_samples :: "'d \<Rightarrow> u8 list \<Rightarrow> int"
  dec_decode :: "'d \<Rightarrow> u8 list \<Rightarrow> int \<Rightarrow> int \<times> u8 list \<times> 'd"
  dec_decode_float :: "'d \<Rightarrow> u8 list \<Rightarrow> int \<Rightarrow> int \<times> u8 list \<times> 'd"

text \<open>A Lua integer in a variable of type \<open>int\<close> or \<open>opus_int32\<close>.\<close>

definition as_int :: "int \<Rightarrow> int" where
  "as_int i = sint (of_int i :: u32)"

section \<open>Encoder objects\<close>

type_synonym 'e encoder_method = "'e opus_encoder \<Rightarrow> lval list \<Rightarrow> 'e \<Rightarrow> 'e object_result"

definition mumble_encoder_new :: "'e opus_encoder \<Rightarrow> lval list \<Rightarrow> 'e lua_result" where
  "mumble_encoder_new P args =
     bind_result (opt_integer args 1 48000) (\<lambda>samplerate.
     bind_result (opt_integer args 2 2) (\<lambda>channels.
       case enc_init P (as_int samplerate) (as_int channels) of
         None \<Rightarrow> Inl (LuaError ''could not initialize opus encoder'')
       | Some e \<Rightarrow>
           Inr (snd (enc_set P ''OPUS_SET_BITRATE'' 128000 (snd (enc_set P ''OPUS_SET_VBR'' 0 e))))))"

text \<open>The three shapes of the methods that pass a control request on.\<close>

definition encoder_getter :: "string \<Rightarrow> (u32 \<Rightarrow> lval) \<Rightarrow> string \<Rightarrow> 'e encoder_method" where
  "encoder_getter request push message P args e =
     (case enc_get P request e of None \<Rightarrow> fails (LuaError message) e | Some v \<Rightarrow> gives [push v] e)"

definition encoder_request :: "string \<Rightarrow> u32 \<Rightarrow> string \<Rightarrow> 'e opus_encoder \<Rightarrow> 'e \<Rightarrow> 'e object_result" where
  "encoder_request request v message P e =
     (case enc_set P request v e of
        (True, e) \<Rightarrow> gives [] e
      | (False, e) \<Rightarrow> fails (LuaError message) e)"

definition encoder_setter :: "string \<Rightarrow> string \<Rightarrow> 'e encoder_method" where
  "encoder_setter request message P args e =
     checked e (check_integer args 2) (\<lambda>i. encoder_request request (of_int i) message P e)"

definition encoder_flag :: "string \<Rightarrow> string \<Rightarrow> 'e encoder_method" where
  "encoder_flag request message P args e =
     checked e (luaL_checkboolean args 2)
       (\<lambda>v. encoder_request request (if v then 1 else 0) message P e)"

definition encoder_resetState :: "'e encoder_method" where
  "encoder_resetState P args e =
     (case enc_reset P e of
        (True, e) \<Rightarrow> gives [] e
      | (False, e) \<Rightarrow> fails (LuaError ''Failed to reset encoder state'') e)"

definition encoder_getFinalRange :: "'e encoder_method" where
  "encoder_getFinalRange =
     encoder_getter ''OPUS_GET_FINAL_RANGE'' vint ''Failed to get final range''"

definition encoder_getPitch :: "'e encoder_method" where
  "encoder_getPitch = encoder_getter ''OPUS_GET_PITCH'' vsint ''Failed to get pitch''"

definition encoder_getBandwidth :: "'e encoder_method" where
  "encoder_getBandwidth = encoder_getter ''OPUS_GET_BANDWIDTH'' vsint ''Failed to get bandwidth''"

definition encoder_getSampleRate :: "'e encoder_method" where
  "encoder_getSampleRate =
     encoder_getter ''OPUS_GET_SAMPLE_RATE'' vsint ''Failed to get sample rate''"

definition encoder_getPhaseInversionDisabled :: "'e encoder_method" where
  "encoder_getPhaseInversionDisabled =
     encoder_getter ''OPUS_GET_PHASE_INVERSION_DISABLED'' (\<lambda>v. LBool (v \<noteq> 0)) ''Failed to get phase inversion status''"

definition encoder_setPhaseInversionDisabled :: "'e encoder_method" where
  "encoder_setPhaseInversionDisabled =
     encoder_flag ''OPUS_SET_PHASE_INVERSION_DISABLED'' ''Failed to set phase inversion status''"

definition encoder_getInDTX :: "'e encoder_method" where
  "encoder_getInDTX =
     encoder_getter ''OPUS_GET_IN_DTX'' (\<lambda>v. LBool (v \<noteq> 0)) ''Failed to get DTX state''"

definition encoder_getComplexity :: "'e encoder_method" where
  "encoder_getComplexity =
     encoder_getter ''OPUS_GET_COMPLEXITY'' vsint ''Failed to get complexity''"

definition encoder_setComplexity :: "'e encoder_method" where
  "encoder_setComplexity = encoder_setter ''OPUS_SET_COMPLEXITY'' ''Failed to set complexity''"

definition encoder_getBitRate :: "'e encoder_method" where
  "encoder_getBitRate = encoder_getter ''OPUS_GET_BITRATE'' vsint ''Failed to get bitrate''"

definition encoder_setBitRate :: "'e encoder_method" where
  "encoder_setBitRate = encoder_setter ''OPUS_SET_BITRATE'' ''Failed to set bitrate''"

definition encoder_getVBR :: "'e encoder_method" where
  "encoder_getVBR =
     encoder_getter ''OPUS_GET_VBR'' (\<lambda>v. LBool (v \<noteq> 0)) ''Failed to get VBR''"

definition encoder_setVBR :: "'e encoder_method" where
  "encoder_setVBR = encoder_flag ''OPUS_SET_VBR'' ''Failed to set VBR''"

definition encoder_getMaxBandwidth :: "'e encoder_method" where
  "encoder_getMaxBandwidth =
     encoder_getter ''OPUS_GET_MAX_BANDWIDTH'' vsint ''Failed to get maximum bandwidth''"

definition encoder_setMaxBandwidth :: "'e encoder_method" where
  "encoder_setMaxBandwidth =
     encoder_setter ''OPUS_SET_MAX_BANDWIDTH'' ''Failed to set maximum bandwidth''"

definition encoder_getVBRConstraint :: "'e encoder_method" where
  "encoder_getVBRConstraint =
     encoder_getter ''OPUS_GET_VBR_CONSTRAINT'' vsint ''Failed to get VBR constraint''"

definition encoder_setVBRConstraint :: "'e encoder_method" where
  "encoder_setVBRConstraint =
     encoder_setter ''OPUS_SET_VBR_CONSTRAINT'' ''Failed to set VBR constraint''"

definition encoder_getForceChannels :: "'e encoder_method" where
  "encoder_getForceChannels =
     encoder_getter ''OPUS_GET_FORCE_CHANNELS'' vsint ''Failed to get forced channels''"

definition encoder_setForceChannels :: "'e encoder_method" where
  "encoder_setForceChannels =
     encoder_setter ''OPUS_SET_FORCE_CHANNELS'' ''Failed to set forced channels''"

definition encoder_setBandwidth :: "'e encoder_method" where
  "encoder_setBandwidth = encoder_setter ''OPUS_SET_BANDWIDTH'' ''Failed to set bandwidth''"

definition encoder_getSignal :: "'e encoder_method" where
  "encoder_getSignal = encoder_getter ''OPUS_GET_SIGNAL'' vsint ''Failed to get signal type''"

definition encoder_setSignal :: "'e encoder_method" where
  "encoder_setSignal = encoder_setter ''OPUS_SET_SIGNAL'' ''Failed to set signal type''"

definition encoder_getApplication :: "'e encoder_method" where
  "encoder_getApplication =
     encoder_getter ''OPUS_GET_APPLICATION'' vsint ''Failed to get application''"

definition encoder_setApplication :: "'e encoder_method" where
  "encoder_setApplication = encoder_setter ''OPUS_SET_APPLICATION'' ''Failed to set application''"

definition encoder_getLookahead :: "'e encoder_method" where
  "encoder_getLookahead = encoder_getter ''OPUS_GET_LOOKAHEAD'' vsint ''Failed to get lookahead''"

definition encoder_getInbandFEC :: "'e encoder_method" where
  "encoder_getInbandFEC = encoder_getter ''OPUS_GET_INBAND_FEC'' vsint ''Failed to get inband FEC''"

definition encoder_setInbandFEC :: "'e encoder_method" where
  "encoder_setInbandFEC = encoder_setter ''OPUS_SET_INBAND_FEC'' ''Failed to set inband FEC''"

definition encoder_getPacketLossPerc :: "'e encoder_method" where
  "encoder_getPacketLossPerc =
     encoder_getter ''OPUS_GET_PACKET_LOSS_PERC'' vsint ''Failed to get packet loss percentage''"

definition encoder_setPacketLossPerc :: "'e encoder_method" where
  "encoder_setPacketLossPerc =
     encoder_setter ''OPUS_SET_PACKET_LOSS_PERC'' ''Failed to set packet loss percentage''"

definition encoder_getDTX :: "'e encoder_method" where
  "encoder_getDTX = encoder_getter ''OPUS_GET_DTX'' vsint ''Failed to get DTX''"

definition encoder_setDTX :: "'e encoder_method" where
  "encoder_setDTX = encoder_setter ''OPUS_SET_DTX'' ''Failed to set DTX''"

text \<open>
  The output is an array of 8191 bytes, but Opus is told it may store as many bytes as the string of
  samples has. Samples past the end of the string, bytes past the end of the array and a negative
  result as the length of a string are undefined.
\<close>

definition enc_frame_size :: "int \<Rightarrow> u32 option" where
  "enc_frame_size frames = do { n \<leftarrow> c_int (frames * 48000); Some (of_int (n sdiv 100)) }"

definition packet_of :: "int \<times> u8 list \<times> 'e \<Rightarrow> 'e object_result" where
  "packet_of r =
     (case r of (outlen, packet, e) \<Rightarrow>
        if outlen < 0 \<or> 0x1FFF < length packet then None
        else do { bytes \<leftarrow> slice packet 0 (nat outlen); gives [LStr bytes] e })"

definition encoder_encode :: "'e encoder_method" where
  "encoder_encode P args e =
     checked e (check_integer args 2) (\<lambda>frames.
     checked e (check_lstring args 3) (\<lambda>pcm. do {
       n \<leftarrow> enc_frame_size (as_int frames);
       if length pcm < 2 * enc_reads P e n then None
       else packet_of (enc_encode P e pcm n (of_nat (length pcm)))
     }))"

definition encoder_encode_float :: "'e encoder_method" where
  "encoder_encode_float P args e =
     checked e (check_integer args 2) (\<lambda>frames.
     checked e (check_lstring args 3) (\<lambda>pcm. do {
       n \<leftarrow> enc_frame_size (as_int frames);
       if length pcm < 4 * enc_reads P e n then None
       else packet_of (enc_encode_float P e pcm n (of_nat (length pcm)))
     }))"

definition encoder_gc :: "'e encoder_method" where
  "encoder_gc P args e = gives [] e"

definition encoder_tostring :: "env \<Rightarrow> nat \<Rightarrow> cstr" where
  "encoder_tostring E n =
     address_text ''mumble.encoder'' (pointer_text E (LObject ''mumble.encoder'' n))"

definition mumble_encoder :: "(string \<times> 'e encoder_method) list" where
  "mumble_encoder =
     [(''reset'', encoder_resetState), (''resetState'', encoder_resetState),
      (''getFinalRange'', encoder_getFinalRange), (''getPitch'', encoder_getPitch),
      (''getBandwidth'', encoder_getBandwidth), (''getSampleRate'', encoder_getSampleRate),
      (''getPhaseInversionDisabled'', encoder_getPhaseInversionDisabled),
      (''setPhaseInversionDisabled'', encoder_setPhaseInversionDisabled),
      (''getInDTX'', encoder_getInDTX), (''getComplexity'', encoder_getComplexity),
      (''setComplexity'', encoder_setComplexity), (''getBitRate'', encoder_getBitRate),
      (''setBitRate'', encoder_setBitRate), (''getBitrate'', encoder_getBitRate),
      (''setBitrate'', encoder_setBitRate), (''getVBR'', encoder_getVBR),
      (''setVBR'', encoder_setVBR), (''getVBRConstraint'', encoder_getVBRConstraint),
      (''setVBRConstraint'', encoder_setVBRConstraint),
      (''getForceChannels'', encoder_getForceChannels),
      (''setForceChannels'', encoder_setForceChannels),
      (''getMaxBandwidth'', encoder_getMaxBandwidth),
      (''setMaxBandwidth'', encoder_setMaxBandwidth), (''setBandwidth'', encoder_setBandwidth),
      (''getSignal'', encoder_getSignal), (''setSignal'', encoder_setSignal),
      (''getApplication'', encoder_getApplication), (''setApplication'', encoder_setApplication),
      (''getLookahead'', encoder_getLookahead), (''getInbandFEC'', encoder_getInbandFEC),
      (''setInbandFEC'', encoder_setInbandFEC),
      (''getPacketLossPerc'', encoder_getPacketLossPerc),
      (''setPacketLossPerc'', encoder_setPacketLossPerc), (''getDTX'', encoder_getDTX),
      (''setDTX'', encoder_setDTX), (''encode'', encoder_encode),
      (''encodeFloat'', encoder_encode_float), (''encode_float'', encoder_encode_float),
      (''__gc'', encoder_gc)]"

section \<open>Decoder objects\<close>

record 'd MumbleOpusDecoder =
  dec_state :: 'd
  dec_channels :: int

type_synonym 'd decoder_method =
  "'d opus_decoder \<Rightarrow> world \<Rightarrow> lval list \<Rightarrow> 'd MumbleOpusDecoder \<Rightarrow> 'd MumbleOpusDecoder object_result"

definition mumble_decoder_new ::
  "'d opus_decoder \<Rightarrow> lval list \<Rightarrow> 'd MumbleOpusDecoder lua_result" where
  "mumble_decoder_new P args =
     bind_result (opt_integer args 1 48000) (\<lambda>samplerate.
     bind_result (opt_integer args 2 2) (\<lambda>channels.
       case dec_create P (as_int samplerate) (as_int channels) of
         None \<Rightarrow> Inl (LuaError ''could not initialize opus decoder'')
       | Some d \<Rightarrow>
           Inr \<lparr> dec_state = snd (dec_set P ''OPUS_SET_PHASE_INVERSION_DISABLED'' 1 d),
                 dec_channels = as_int channels \<rparr>))"

definition decoder_getter :: "string \<Rightarrow> (u32 \<Rightarrow> lval) \<Rightarrow> string \<Rightarrow> 'd decoder_method" where
  "decoder_getter request push message P W args d =
     (case dec_get P request (dec_state d) of
        None \<Rightarrow> fails (LuaError message) d | Some v \<Rightarrow> gives [push v] d)"

definition decoder_setter :: "string \<Rightarrow> string \<Rightarrow> 'd decoder_method" where
  "decoder_setter request message P W args d =
     checked d (check_integer args 2) (\<lambda>i.
       case dec_set P request (of_int i) (dec_state d) of
         (True, x) \<Rightarrow> gives [] (d \<lparr> dec_state := x \<rparr>)
       | (False, x) \<Rightarrow> fails (LuaError message) (d \<lparr> dec_state := x \<rparr>))"

definition decoder_resetState :: "'d decoder_method" where
  "decoder_resetState P W args d =
     (case dec_reset P (dec_state d) of
        (True, x) \<Rightarrow> gives [] (d \<lparr> dec_state := x \<rparr>)
      | (False, x) \<Rightarrow> fails (LuaError ''Failed to reset decoder state'') (d \<lparr> dec_state := x \<rparr>))"

definition decoder_getFinalRange :: "'d decoder_method" where
  "decoder_getFinalRange =
     decoder_getter ''OPUS_GET_FINAL_RANGE'' vint ''Failed to get final range''"

definition decoder_getPitch :: "'d decoder_method" where
  "decoder_getPitch = decoder_getter ''OPUS_GET_PITCH'' vsint ''Failed to get pitch''"

definition decoder_getBandwidth :: "'d decoder_method" where
  "decoder_getBandwidth = decoder_getter ''OPUS_GET_BANDWIDTH'' vsint ''Failed to get bandwidth''"

definition decoder_getSampleRate :: "'d decoder_method" where
  "decoder_getSampleRate =
     decoder_getter ''OPUS_GET_SAMPLE_RATE'' vsint ''Failed to get sample rate''"

definition decoder_getPhaseInversionDisabled :: "'d decoder_method" where
  "decoder_getPhaseInversionDisabled =
     decoder_getter ''OPUS_GET_PHASE_INVERSION_DISABLED'' vsint ''Failed to get phase inversion status''"

definition decoder_setPhaseInversionDisabled :: "'d decoder_method" where
  "decoder_setPhaseInversionDisabled =
     decoder_setter ''OPUS_SET_PHASE_INVERSION_DISABLED'' ''Failed to set phase inversion status''"

definition decoder_getInDTX :: "'d decoder_method" where
  "decoder_getInDTX = decoder_getter ''OPUS_GET_IN_DTX'' vsint ''Failed to get DTX state''"

text \<open>
  Both decoding methods, with the size of a sample: a block for the samples Opus announces, the
  samples it stores, and as much of the block as it says. The products are of type \<open>int\<close>; a store
  or a read past the block is undefined. Strings of 2 GB, whose length Opus gets cut, are outside.
\<close>

definition decode_with ::
  "int \<Rightarrow> ('d \<Rightarrow> u8 list \<Rightarrow> int \<Rightarrow> int \<times> u8 list \<times> 'd) \<Rightarrow> 'd decoder_method" where
  "decode_with sample_size decode P W args d =
     checked d (check_lstring args 2) (\<lambda>encoded.
       if 2 ^ 31 \<le> length encoded then None
       else
         let samples_per_channel = dec_samples P (dec_state d) encoded in
         if samples_per_channel \<le> 0
         then fails (LuaError ''invalid number of samples from opus_decoder_get_nb_samples'') d
         else do {
           total_samples \<leftarrow> c_int (samples_per_channel * dec_channels d);
           if \<not> memory W then fails (LuaError ''memory allocation failed'') d
           else (case decode (dec_state d) encoded samples_per_channel of
             (decoded, pcm, x) \<Rightarrow>
               let d = d \<lparr> dec_state := x \<rparr> in
               if total_samples < 0 \<or> total_samples * sample_size < int (length pcm) then None
               else if decoded < 0 then fails (LuaError ''opus decoding error: '') d
               else do {
                 n \<leftarrow> c_int (decoded * dec_channels d);
                 bytes \<leftarrow> (if n < 0 then None else slice pcm 0 (nat (n * sample_size)));
                 gives [LStr bytes] d
               })
         })"

definition decoder_decode :: "'d decoder_method" where
  "decoder_decode P = decode_with 2 (dec_decode P) P"

definition decoder_decode_float :: "'d decoder_method" where
  "decoder_decode_float P = decode_with 4 (dec_decode_float P) P"

text \<open>An error of Opus, a negative number, is multiplied like a number of samples.\<close>

definition decoder_getNumSamples :: "'d decoder_method" where
  "decoder_getNumSamples P W args d =
     checked d (check_lstring args 2) (\<lambda>encoded.
       if 2 ^ 31 \<le> length encoded then None
       else do {
         n \<leftarrow> c_int (dec_samples P (dec_state d) encoded * dec_channels d);
         gives [LInt n] d
       })"

definition decoder_getChannels :: "'d decoder_method" where
  "decoder_getChannels P W args d = gives [LInt (dec_channels d)] d"

text \<open>The decoder is destroyed; no method can be called on the object any more.\<close>

definition decoder_gc :: "'d decoder_method" where
  "decoder_gc P W args d = gives [] d"

definition decoder_tostring :: "env \<Rightarrow> nat \<Rightarrow> cstr" where
  "decoder_tostring E n =
     address_text ''mumble.decoder'' (pointer_text E (LObject ''mumble.decoder'' n))"

definition mumble_decoder :: "(string \<times> 'd decoder_method) list" where
  "mumble_decoder =
     [(''reset'', decoder_resetState), (''resetState'', decoder_resetState),
      (''getFinalRange'', decoder_getFinalRange), (''getPitch'', decoder_getPitch),
      (''getBandwidth'', decoder_getBandwidth), (''getSampleRate'', decoder_getSampleRate),
      (''getPhaseInversionDisabled'', decoder_getPhaseInversionDisabled),
      (''setPhaseInversionDisabled'', decoder_setPhaseInversionDisabled),
      (''getInDTX'', decoder_getInDTX), (''decode'', decoder_decode),
      (''decodeFloat'', decoder_decode_float), (''decode_float'', decoder_decode_float),
      (''getNumSamples'', decoder_getNumSamples), (''getChannels'', decoder_getChannels),
      (''__gc'', decoder_gc)]"


section \<open>Bounds\<close>

text \<open>
  Opus, which is told the size of the samples as the room for its output, stores at most that
  much. Then with at most 8191 bytes of samples \<open>encode\<close> gives the packet, and with more (a frame
  of 60 ms in stereo has 11520) a packet over 8191 bytes is stored past the array; a refused frame is
  turned into a string of negative length.
\<close>

theorem encode_bounds:
  assumes "enc_frame_size (as_int frames) = Some n" "2 * enc_reads P e n \<le> length pcm"
    and "enc_encode P e pcm n (of_nat (length pcm)) = (outlen, packet, e')"
    and "outlen \<le> int (length pcm)" "0 \<le> outlen \<Longrightarrow> length packet = nat outlen"
  shows "(0 \<le> outlen \<and> length pcm \<le> 0x1FFF \<longrightarrow>
      encoder_encode P [v, LInt frames, LStr pcm] e = gives [LStr packet] e') \<and>
    (outlen < 0 \<or> 0x1FFF < outlen \<longrightarrow> encoder_encode P [v, LInt frames, LStr pcm] e = None)"
  using assms
  by (auto simp: encoder_encode_def packet_of_def check_integer_def check_lstring_def arg_def slice_def)

definition sample_encoder :: "unit opus_encoder" where
  "sample_encoder =
     \<lparr> enc_init = (\<lambda>r c. Some ()), enc_reset = (\<lambda>e. (True, e)), enc_get = (\<lambda>r e. Some 0),
       enc_set = (\<lambda>r v e. (True, e)), enc_reads = (\<lambda>e n. 2 * unat n),
       enc_encode = (\<lambda>e pcm n room. (3, [1, 2, 3], e)),
       enc_encode_float = (\<lambda>e pcm n room. (3, [1, 2, 3], e)) \<rparr>"

lemma encode_bounds_witness:
  "encoder_encode sample_encoder [LNil, LInt 1, LStr (replicate 1920 0)] () = gives [LStr [1, 2, 3]] ()"
  using encode_bounds [of 1 480 sample_encoder "()" "replicate 1920 0" 3 "[1, 2, 3]" "()" LNil]
  by (simp add: sample_encoder_def enc_frame_size_def as_int_def c_int_def sdiv_pos)

text \<open>
  When Opus announces as many samples as a packet can hold (120 ms) and decodes at most those it
  announced, \<open>decode\<close> of any string is defined: it raises an error, or gives the samples, two bytes
  for each one of each channel.
\<close>

theorem decode_bounds:
  assumes "dec_samples P (dec_state d) encoded \<le> 5760" "dec_channels d \<in> {1, 2}" "length encoded < 2 ^ 31"
    and "\<And>n. case dec_decode P (dec_state d) encoded n of (decoded, pcm, x) \<Rightarrow>
      decoded \<le> n \<and> int (length pcm) = 2 * dec_channels d * max 0 decoded"
  shows "\<exists>r d'. decoder_decode P W [v, LStr encoded] d = Some (r, d') \<and>
    dec_channels d' = dec_channels d \<and>
    (case r of
       Inl err \<Rightarrow> d' = d \<or> fst (dec_decode P (dec_state d) encoded (dec_samples P (dec_state d) encoded)) < 0
     | Inr vs \<Rightarrow> \<exists>decoded pcm. vs = [LStr pcm] \<and>
         dec_decode P (dec_state d) encoded (dec_samples P (dec_state d) encoded) = (decoded, pcm, dec_state d') \<and>
         int (length pcm) = 2 * dec_channels d * decoded)"
proof (cases "dec_samples P (dec_state d) encoded \<le> 0 \<or> \<not> memory W")
  case True
  then show ?thesis
    using assms(1-3)
    by (auto simp: decoder_decode_def decode_with_def check_lstring_def arg_def c_int_def Let_def)
next
  case False
  let ?n = "dec_samples P (dec_state d) encoded"
  obtain decoded pcm x where D: "dec_decode P (dec_state d) encoded ?n = (decoded, pcm, x)"
    by (cases "dec_decode P (dec_state d) encoded ?n") auto
  have b: "decoded \<le> ?n" "int (length pcm) = 2 * dec_channels d * max 0 decoded"
    using assms(4) [of ?n] D by simp_all
  have c: "c_int (?n * dec_channels d) = Some (?n * dec_channels d)" "?n * dec_channels d \<ge> 0"
    using False assms(1,2) by (auto simp: c_int_def)
  show ?thesis
  proof (cases "decoded < 0")
    case neg: True
    then show ?thesis
      using False D b c assms(3)
      by (auto simp: decoder_decode_def decode_with_def check_lstring_def arg_def)
  next
    case pos: False
    have "c_int (decoded * dec_channels d) = Some (decoded * dec_channels d)"
      using pos b(1) assms(1,2) by (auto simp: c_int_def)
    moreover have "int (length pcm) \<le> ?n * dec_channels d * 2" "decoded * dec_channels d \<ge> 0"
      using pos b assms(2) by auto
    moreover have "nat (decoded * dec_channels d * 2) = length pcm"
    proof -
      have "decoded * dec_channels d * 2 = int (length pcm)" using pos b(2) by (simp add: ac_simps)
      then show ?thesis by simp
    qed
    ultimately show ?thesis
      using False pos D b c assms(3)
      by (auto simp: decoder_decode_def decode_with_def check_lstring_def arg_def slice_def)
  qed
qed

definition sample_decoder :: "unit opus_decoder" where
  "sample_decoder =
     \<lparr> dec_create = (\<lambda>r c. Some ()), dec_reset = (\<lambda>d. (True, d)), dec_get = (\<lambda>r d. Some 0),
       dec_set = (\<lambda>r v d. (True, d)), dec_samples = (\<lambda>d b. int (length b)),
       dec_decode = (\<lambda>d b n. (n, replicate (4 * nat n) 7, d)),
       dec_decode_float = (\<lambda>d b n. (n, replicate (8 * nat n) 7, d)) \<rparr>"

lemma decode_bounds_witness:
  "\<exists>r d'. decoder_decode sample_decoder W [v, LStr [1, 2]] \<lparr> dec_state = (), dec_channels = 2 \<rparr> = Some (r, d')"
proof -
  let ?d = "\<lparr> dec_state = (), dec_channels = 2 \<rparr>"
  have "\<exists>r d'. decoder_decode sample_decoder W [v, LStr [1, 2]] ?d = Some (r, d') \<and>
    dec_channels d' = dec_channels ?d \<and>
    (case r of
       Inl err \<Rightarrow> d' = ?d \<or> fst (dec_decode sample_decoder (dec_state ?d) [1, 2] (dec_samples sample_decoder (dec_state ?d) [1, 2])) < 0
     | Inr vs \<Rightarrow> \<exists>decoded pcm. vs = [LStr pcm] \<and>
         dec_decode sample_decoder (dec_state ?d) [1, 2] (dec_samples sample_decoder (dec_state ?d) [1, 2]) = (decoded, pcm, dec_state d') \<and>
         int (length pcm) = 2 * dec_channels ?d * decoded)"
    by (rule decode_bounds) (auto simp: sample_decoder_def)
  then show ?thesis by blast
qed

end
