(* ===== verification/Reclaim.thy ===== *)
theory Reclaim
  imports Prelude
begin

text \<open>
  How an audio stream is kept alive while the thread that fills its ring works on it
  (\<open>sound_try_pin\<close>, \<open>sound_unpin_schedule_unref_if_needed\<close>, \<open>sound_clean_reclaimed\<close>,
  \<open>audio_transmission_reference\<close> and \<open>audio_transmission_unreference\<close> of \<open>mumble/audio.c\<close>). One stream,
  the main thread and the buffer thread; a step is one access to what the threads share: an
  atomic member, \<open>reclaim_ref\<close>, or a list under \<open>inner_mutex\<close>.
\<close>

section \<open>State\<close>

text \<open>
  \<open>active_ref\<close> is \<open>refrence\<close> and \<open>reclaim_ref\<close> the reference to release, \<open>None\<close> for \<open>LUA_NOREF\<close>.
  \<open>stream_nodes\<close> and \<open>reclaim_nodes\<close> are the indexes of the nodes of this stream in the two lists of
  the client, \<open>registry\<close> the references under which Lua's registry holds the object. \<open>handle\<close> says
  that the script has the object too; \<open>collected\<close>, that Lua has freed it. The other members of the
  stream do not decide how long it lives.
\<close>

datatype main_pc =
    M_Run | M_Ref_Reclaimed | M_Ref_Reuse | M_Ref_Unqueue | M_Ref_List
  | M_Unref_List | M_Unref_Mark | M_Unref_Move | M_Unref_Count | M_Queue | M_Clean

datatype buffer_pc = B_Run | B_Look | B_Added | B_Undo | B_Pinned | B_Last | B_Due | B_Queue

record stream =
  active_ref :: "int option"
  reclaim_ref :: "int option"
  reclaimed :: bool
  usecount :: int
  stream_nodes :: "int option list"
  reclaim_nodes :: "int option list"
  registry :: "int list"
  next_ref :: int
  handle :: bool
  collected :: bool
  playing :: bool
  main_pinned :: bool
  main_pc :: main_pc
  buffer_pc :: buffer_pc

text \<open>The buffer thread holds \<open>inner_mutex\<close> while it looks at the list and pins.\<close>

definition inner_free :: "stream \<Rightarrow> bool" where
  "inner_free s \<longleftrightarrow> buffer_pc s \<notin> {B_Look, B_Added, B_Undo}"

section \<open>The main thread\<close>

text \<open>
  \<open>Play\<close>, \<open>Pause\<close> and \<open>Stop\<close> are the methods of the script; the first and the last start
  \<open>audio_transmission_reference\<close> and \<open>audio_transmission_unreference\<close>. \<open>Pin\<close> and \<open>Unpin\<close> surround what the
  main thread does with a stream, during which it stops a stream that was not stopped yet. \<open>Clean\<close>
  takes a node of the reclaim list. \<open>Main\<close> is the next step of the function that is running.
\<close>

datatype action = Play | Pause | Stop | Pin | Unpin | Clean | Main | Buffer | Forget | Collect

definition audio_transmission_reference :: "stream \<Rightarrow> stream option" where
  "audio_transmission_reference s =
     (case main_pc s of
        M_Ref_Reclaimed \<Rightarrow>
          Some (if reclaimed s then s \<lparr> reclaimed := False, main_pc := M_Ref_Reuse \<rparr>
                else s \<lparr> main_pc := M_Ref_List \<rparr>)
      | M_Ref_Reuse \<Rightarrow>
          Some (case reclaim_ref s of
              None \<Rightarrow> s \<lparr> main_pc := M_Ref_List \<rparr>
            | Some r \<Rightarrow> s \<lparr> active_ref := Some r, reclaim_ref := None, main_pc := M_Ref_Unqueue \<rparr>)
      | M_Ref_Unqueue \<Rightarrow>
          (if inner_free s
           then Some (s \<lparr> reclaim_nodes := remove1 (active_ref s) (reclaim_nodes s), main_pc := M_Ref_List \<rparr>)
           else None)
      | M_Ref_List \<Rightarrow>
          (if inner_free s then
             (let s = (if active_ref s = None
                       then s \<lparr> active_ref := Some (next_ref s), registry := next_ref s # registry s,
                                next_ref := next_ref s + 1 \<rparr>
                       else s)
              in Some (s \<lparr> stream_nodes := active_ref s # stream_nodes s, main_pc := M_Run \<rparr>))
           else None)
      | _ \<Rightarrow> None)"

definition audio_transmission_unreference :: "stream \<Rightarrow> stream option" where
  "audio_transmission_unreference s =
     (case main_pc s of
        M_Unref_List \<Rightarrow>
          (if inner_free s
           then Some (s \<lparr> stream_nodes := (if active_ref s \<noteq> None then remove1 (active_ref s) (stream_nodes s)
                                          else stream_nodes s), main_pc := M_Unref_Mark \<rparr>)
           else None)
      | M_Unref_Mark \<Rightarrow> Some (s \<lparr> reclaimed := True, main_pc := M_Unref_Move \<rparr>)
      | M_Unref_Move \<Rightarrow>
          Some (case active_ref s of
              None \<Rightarrow> s \<lparr> playing := False, main_pc := M_Unref_Count \<rparr>
            | Some r \<Rightarrow> s \<lparr> reclaim_ref := Some r, active_ref := None, playing := False, main_pc := M_Unref_Count \<rparr>)
      | M_Unref_Count \<Rightarrow>
          Some (s \<lparr> main_pc := (if usecount s = 0 \<and> reclaim_ref s \<noteq> None then M_Queue else M_Run) \<rparr>)
      | _ \<Rightarrow> None)"

definition sound_clean_reclaimed :: "stream \<Rightarrow> stream option" where
  "sound_clean_reclaimed s =
     (case main_pc s of
        M_Clean \<Rightarrow>
          Some (case reclaim_ref s of
              None \<Rightarrow> s \<lparr> main_pc := M_Run \<rparr>
            | Some r \<Rightarrow> s \<lparr> registry := remove1 r (registry s), reclaim_ref := None, main_pc := M_Run \<rparr>)
      | M_Run \<Rightarrow>
          (case reclaim_nodes s of
             [] \<Rightarrow> None
           | n # ns \<Rightarrow> if inner_free s \<and> \<not> main_pinned s
                       then Some (s \<lparr> reclaim_nodes := ns, main_pc := M_Clean \<rparr>) else None)
      | _ \<Rightarrow> None)"

text \<open>Both threads queue a stream in the same way.\<close>

definition queue_node :: "stream \<Rightarrow> stream" where
  "queue_node s = s \<lparr> reclaim_nodes := reclaim_ref s # reclaim_nodes s \<rparr>"

definition main_next :: "stream \<Rightarrow> stream option" where
  "main_next s =
     (if main_pc s \<in> {M_Ref_Reclaimed, M_Ref_Reuse, M_Ref_Unqueue, M_Ref_List}
      then audio_transmission_reference s
      else if main_pc s \<in> {M_Unref_List, M_Unref_Mark, M_Unref_Move, M_Unref_Count}
      then audio_transmission_unreference s
      else if main_pc s = M_Queue
      then if inner_free s then Some ((queue_node s) \<lparr> main_pc := M_Run \<rparr>) else None
      else if main_pc s = M_Clean then sound_clean_reclaimed s
      else None)"

text \<open>Only the main thread writes \<open>reclaimed\<close>, so its own pin is one step.\<close>

definition main_pin :: "stream \<Rightarrow> stream option" where
  "main_pin s =
     (if main_pc s = M_Run \<and> \<not> main_pinned s \<and> inner_free s \<and> stream_nodes s \<noteq> [] \<and> \<not> reclaimed s
      then Some (s \<lparr> usecount := usecount s + 1, main_pinned := True \<rparr>) else None)"

definition main_unpin :: "stream \<Rightarrow> stream option" where
  "main_unpin s =
     (if main_pc s = M_Run \<and> main_pinned s
      then Some (s \<lparr> usecount := usecount s - 1, main_pinned := False,
             main_pc := (if usecount s = 1 \<and> reclaimed s \<and> reclaim_ref s \<noteq> None then M_Queue else M_Run) \<rparr>)
      else None)"

section \<open>The buffer thread\<close>

text \<open>
  \<open>sound_try_pin\<close> up to \<open>B_Pinned\<close>, \<open>sound_unpin_schedule_unref_if_needed\<close> from there on. In \<open>B_Last\<close> the
  thread has dropped the last pin and not read \<open>reclaimed\<close> yet; in \<open>B_Due\<close> it has, in \<open>B_Queue\<close> it has
  read \<open>reclaim_ref\<close>, which it reads again for the node.
\<close>

definition buffer_next :: "stream \<Rightarrow> stream option" where
  "buffer_next s =
     (case buffer_pc s of
        B_Run \<Rightarrow> if stream_nodes s \<noteq> [] then Some (s \<lparr> buffer_pc := B_Look \<rparr>) else None
      | B_Look \<Rightarrow>
          Some (if reclaimed s then s \<lparr> buffer_pc := B_Run \<rparr>
                else s \<lparr> usecount := usecount s + 1, buffer_pc := B_Added \<rparr>)
      | B_Added \<Rightarrow> Some (s \<lparr> buffer_pc := (if reclaimed s then B_Undo else B_Pinned) \<rparr>)
      | B_Undo \<Rightarrow> Some (s \<lparr> usecount := usecount s - 1, buffer_pc := B_Run \<rparr>)
      | B_Pinned \<Rightarrow>
          Some (s \<lparr> usecount := usecount s - 1, buffer_pc := (if usecount s = 1 then B_Last else B_Run) \<rparr>)
      | B_Last \<Rightarrow> Some (s \<lparr> buffer_pc := (if reclaimed s then B_Due else B_Run) \<rparr>)
      | B_Due \<Rightarrow> Some (s \<lparr> buffer_pc := (if reclaim_ref s \<noteq> None then B_Queue else B_Run) \<rparr>)
      | B_Queue \<Rightarrow> Some ((queue_node s) \<lparr> buffer_pc := B_Run \<rparr>))"

section \<open>Both\<close>

text \<open>
  Lua frees the object when neither the script nor the registry has it, at a moment the main thread
  is not inside one of the functions. A step of a thread on a freed stream is undefined.
\<close>

fun stream_step :: "action \<Rightarrow> stream \<Rightarrow> stream option" where
  "stream_step Play s =
     (if main_pc s = M_Run \<and> \<not> main_pinned s \<and> handle s
      then Some (s \<lparr> playing := True, main_pc := (if active_ref s = None then M_Ref_Reclaimed else M_Run) \<rparr>)
      else None)"
| "stream_step Pause s =
     (if main_pc s = M_Run \<and> handle s then Some (s \<lparr> playing := False \<rparr>) else None)"
| "stream_step Stop s =
     (if main_pc s = M_Run \<and>
         (if main_pinned s then \<not> reclaimed s else handle s \<and> playing s)
      then Some (s \<lparr> main_pc := M_Unref_List \<rparr>) else None)"
| "stream_step Pin s = main_pin s"
| "stream_step Unpin s = main_unpin s"
| "stream_step Clean s = (if main_pc s = M_Run \<and> \<not> collected s then sound_clean_reclaimed s else None)"
| "stream_step Main s = (if collected s then None else main_next s)"
| "stream_step Buffer s = (if collected s then None else buffer_next s)"
| "stream_step Forget s = (if main_pc s = M_Run then Some (s \<lparr> handle := False \<rparr>) else None)"
| "stream_step Collect s =
     (if main_pc s = M_Run \<and> \<not> handle s \<and> registry s = [] \<and> \<not> collected s
      then Some (s \<lparr> collected := True \<rparr>) else None)"

definition new_stream :: stream where
  "new_stream =
     \<lparr> active_ref = None, reclaim_ref = None, reclaimed = False, usecount = 0, stream_nodes = [],
       reclaim_nodes = [], registry = [], next_ref = 1, handle = True, collected = False, playing = False,
       main_pinned = False, main_pc = M_Run, buffer_pc = B_Run \<rparr>"

text \<open>The states of a stream; without \<open>again\<close> the script does not play it once more after a stop.\<close>

inductive stream_reachable :: "bool \<Rightarrow> stream \<Rightarrow> bool" for again where
  start: "stream_reachable again new_stream"
| step: "stream_reachable again s \<Longrightarrow> (a = Play \<longrightarrow> again \<or> \<not> reclaimed s) \<Longrightarrow> stream_step a s = Some s' \<Longrightarrow>
    stream_reachable again s'"

fun stream_run :: "action list \<Rightarrow> stream \<Rightarrow> stream option" where
  "stream_run [] s = Some s"
| "stream_run (a # as) s = do { s \<leftarrow> stream_step a s; stream_run as s }"

section \<open>The life of a stream that is played once\<close>

definition pins :: "stream \<Rightarrow> int" where
  "pins s = of_bool (main_pinned s) + of_bool (buffer_pc s \<in> {B_Added, B_Undo, B_Pinned})"

definition fresh_stream :: "stream \<Rightarrow> bool" where
  "fresh_stream s \<longleftrightarrow> active_ref s = None \<and> reclaim_ref s = None \<and> \<not> reclaimed s \<and> usecount s = 0 \<and>
     stream_nodes s = [] \<and> reclaim_nodes s = [] \<and> registry s = [] \<and> \<not> main_pinned s \<and>
     buffer_pc s = B_Run \<and> main_pc s \<in> {M_Run, M_Ref_Reclaimed, M_Ref_List} \<and>
     (collected s \<longrightarrow> main_pc s = M_Run \<and> \<not> handle s) \<and> (playing s \<and> main_pc s = M_Run \<longrightarrow> False)"

definition listed_stream :: "int \<Rightarrow> stream \<Rightarrow> bool" where
  "listed_stream r s \<longleftrightarrow> active_ref s = Some r \<and> reclaim_ref s = None \<and> \<not> reclaimed s \<and> usecount s = pins s \<and>
     stream_nodes s = [Some r] \<and> reclaim_nodes s = [] \<and> registry s = [r] \<and> \<not> collected s \<and>
     buffer_pc s \<in> {B_Run, B_Look, B_Added, B_Pinned, B_Last} \<and> main_pc s \<in> {M_Run, M_Unref_List}"

text \<open>Being stopped: off the list, then marked.\<close>

definition stopping_stream :: "int \<Rightarrow> stream \<Rightarrow> bool" where
  "stopping_stream r s \<longleftrightarrow> active_ref s = Some r \<and> reclaim_ref s = None \<and> usecount s = pins s \<and>
     stream_nodes s = [] \<and> reclaim_nodes s = [] \<and> registry s = [r] \<and> \<not> collected s \<and>
     buffer_pc s \<in> {B_Run, B_Pinned, B_Last, B_Due} \<and>
     (\<not> reclaimed s \<and> main_pc s = M_Unref_Mark \<and> buffer_pc s \<noteq> B_Due \<or>
      reclaimed s \<and> main_pc s = M_Unref_Move)"

definition stopped_stream :: "int \<Rightarrow> stream \<Rightarrow> bool" where
  "stopped_stream r s \<longleftrightarrow> active_ref s = None \<and> reclaim_ref s = Some r \<and> reclaimed s \<and> usecount s = pins s \<and>
     stream_nodes s = [] \<and> registry s = [r] \<and> \<not> collected s \<and> \<not> playing s \<and>
     buffer_pc s \<in> {B_Run, B_Pinned, B_Last, B_Due, B_Queue} \<and> main_pc s \<in> {M_Unref_Count, M_Run, M_Queue, M_Clean} \<and>
     (buffer_pc s = B_Pinned \<longrightarrow> reclaim_nodes s = []) \<and>
     (main_pc s \<in> {M_Queue, M_Clean} \<longrightarrow> \<not> main_pinned s \<and> buffer_pc s \<noteq> B_Pinned) \<and>
     (reclaim_nodes s = [] \<longrightarrow> pins s \<noteq> 0 \<or> buffer_pc s \<noteq> B_Run \<or> main_pc s \<noteq> M_Run)"

definition released_stream :: "stream \<Rightarrow> bool" where
  "released_stream s \<longleftrightarrow> active_ref s = None \<and> reclaim_ref s = None \<and> reclaimed s \<and> usecount s = 0 \<and>
     stream_nodes s = [] \<and> registry s = [] \<and> \<not> main_pinned s \<and> \<not> playing s \<and>
     buffer_pc s \<in> {B_Run, B_Last, B_Due, B_Queue} \<and> main_pc s \<in> {M_Run, M_Clean}"

definition stream_inv :: "stream \<Rightarrow> bool" where
  "stream_inv s \<longleftrightarrow> fresh_stream s \<or> (\<exists>r. listed_stream r s) \<or> (\<exists>r. stopping_stream r s) \<or>
     (\<exists>r. stopped_stream r s) \<or> released_stream s"

text \<open>The steps of each place.\<close>

lemma main_next_at:
  "main_pc s = M_Run \<Longrightarrow> main_next s = None"
  "main_pc s = M_Queue \<Longrightarrow>
    main_next s = (if inner_free s then Some ((queue_node s) \<lparr> main_pc := M_Run \<rparr>) else None)"
  "main_pc s = M_Unref_List \<Longrightarrow> main_next s =
    (if inner_free s
     then Some (s \<lparr> stream_nodes := (if active_ref s \<noteq> None then remove1 (active_ref s) (stream_nodes s)
                                    else stream_nodes s), main_pc := M_Unref_Mark \<rparr>)
     else None)"
  "main_pc s = M_Unref_Mark \<Longrightarrow> main_next s = Some (s \<lparr> reclaimed := True, main_pc := M_Unref_Move \<rparr>)"
  "main_pc s = M_Unref_Move \<Longrightarrow> active_ref s = Some r \<Longrightarrow> main_next s =
    Some (s \<lparr> reclaim_ref := Some r, active_ref := None, playing := False, main_pc := M_Unref_Count \<rparr>)"
  "main_pc s = M_Unref_Count \<Longrightarrow> main_next s =
    Some (s \<lparr> main_pc := (if usecount s = 0 \<and> reclaim_ref s \<noteq> None then M_Queue else M_Run) \<rparr>)"
  "main_pc s = M_Clean \<Longrightarrow> reclaim_ref s = None \<Longrightarrow> main_next s = Some (s \<lparr> main_pc := M_Run \<rparr>)"
  "main_pc s = M_Clean \<Longrightarrow> reclaim_ref s = Some r \<Longrightarrow> main_next s =
    Some (s \<lparr> registry := remove1 r (registry s), reclaim_ref := None, main_pc := M_Run \<rparr>)"
  "main_pc s = M_Ref_Reclaimed \<Longrightarrow> \<not> reclaimed s \<Longrightarrow> main_next s = Some (s \<lparr> main_pc := M_Ref_List \<rparr>)"
  "main_pc s = M_Ref_List \<Longrightarrow> active_ref s = None \<Longrightarrow> main_next s =
    (if inner_free s
     then Some (s \<lparr> active_ref := Some (next_ref s), registry := next_ref s # registry s,
                   next_ref := next_ref s + 1, stream_nodes := Some (next_ref s) # stream_nodes s,
                   main_pc := M_Run \<rparr>)
     else None)"
  by (simp_all add: main_next_def audio_transmission_reference_def audio_transmission_unreference_def
      sound_clean_reclaimed_def)

lemma buffer_next_at:
  "buffer_pc s = B_Run \<Longrightarrow> buffer_next s =
    (if stream_nodes s \<noteq> [] then Some (s \<lparr> buffer_pc := B_Look \<rparr>) else None)"
  "buffer_pc s = B_Look \<Longrightarrow> \<not> reclaimed s \<Longrightarrow>
    buffer_next s = Some (s \<lparr> usecount := usecount s + 1, buffer_pc := B_Added \<rparr>)"
  "buffer_pc s = B_Added \<Longrightarrow> \<not> reclaimed s \<Longrightarrow> buffer_next s = Some (s \<lparr> buffer_pc := B_Pinned \<rparr>)"
  "buffer_pc s = B_Pinned \<Longrightarrow> buffer_next s =
    Some (s \<lparr> usecount := usecount s - 1, buffer_pc := (if usecount s = 1 then B_Last else B_Run) \<rparr>)"
  "buffer_pc s = B_Last \<Longrightarrow> buffer_next s = Some (s \<lparr> buffer_pc := (if reclaimed s then B_Due else B_Run) \<rparr>)"
  "buffer_pc s = B_Due \<Longrightarrow>
    buffer_next s = Some (s \<lparr> buffer_pc := (if reclaim_ref s \<noteq> None then B_Queue else B_Run) \<rparr>)"
  "buffer_pc s = B_Queue \<Longrightarrow> buffer_next s = Some ((queue_node s) \<lparr> buffer_pc := B_Run \<rparr>)"
  by (simp_all add: buffer_next_def)

lemmas stream_steps =
  queue_node_def main_pin_def main_unpin_def inner_free_def pins_def sound_clean_reclaimed_def

lemma stream_inv_new: "stream_inv new_stream"
  by (simp add: stream_inv_def fresh_stream_def new_stream_def)

lemma all_some_cases [simp]: "all_some P None" "all_some P (Some x) = P x"
  by (simp_all add: all_some_def)

lemma fresh_step:
  assumes "fresh_stream s"
  shows "all_some (\<lambda>s'. fresh_stream s' \<or> (\<exists>r. listed_stream r s')) (stream_step a s)"
proof (cases "a = Main \<or> a = Buffer")
  case True
  then show ?thesis
  proof
    assume "a = Main"
    with assms show ?thesis
      by (cases "main_pc s") (auto simp: fresh_stream_def listed_stream_def main_next_at stream_steps)
  next
    assume "a = Buffer"
    with assms show ?thesis
      by (cases "buffer_pc s") (auto simp: fresh_stream_def listed_stream_def buffer_next_at stream_steps)
  qed
next
  case False
  with assms show ?thesis
    by (cases a) (auto simp: fresh_stream_def listed_stream_def stream_steps split: list.split)
qed

lemma listed_step:
  assumes "listed_stream r s"
  shows "all_some (\<lambda>s'. listed_stream r s' \<or> stopping_stream r s') (stream_step a s)"
proof (cases "a = Main \<or> a = Buffer")
  case True
  then show ?thesis
  proof
    assume "a = Main"
    with assms show ?thesis
      by (cases "main_pc s") (auto simp: listed_stream_def stopping_stream_def main_next_at stream_steps)
  next
    assume "a = Buffer"
    with assms show ?thesis
      by (cases "buffer_pc s") (auto simp: listed_stream_def stopping_stream_def buffer_next_at stream_steps)
  qed
next
  case False
  with assms show ?thesis
    by (cases a) (auto simp: listed_stream_def stopping_stream_def stream_steps split: list.split)
qed

lemma stopping_step:
  assumes "stopping_stream r s"
  shows "all_some (\<lambda>s'. stopping_stream r s' \<or> stopped_stream r s') (stream_step a s)"
proof (cases "a = Main \<or> a = Buffer")
  case True
  then show ?thesis
  proof
    assume "a = Main"
    with assms show ?thesis
      by (cases "main_pc s") (auto simp: stopping_stream_def stopped_stream_def main_next_at stream_steps)
  next
    assume "a = Buffer"
    with assms show ?thesis
      by (cases "buffer_pc s") (auto simp: stopping_stream_def stopped_stream_def buffer_next_at stream_steps)
  qed
next
  case False
  with assms show ?thesis
    by (cases a) (auto simp: stopping_stream_def stopped_stream_def stream_steps split: list.split)
qed

lemma stopped_step:
  assumes "stopped_stream r s" "a \<noteq> Play"
  shows "all_some (\<lambda>s'. stopped_stream r s' \<or> released_stream s') (stream_step a s)"
proof (cases "a = Main \<or> a = Buffer")
  case True
  then show ?thesis
  proof
    assume "a = Main"
    with assms show ?thesis
      by (cases "main_pc s") (auto simp: stopped_stream_def released_stream_def main_next_at stream_steps)
  next
    assume "a = Buffer"
    with assms show ?thesis
      by (cases "buffer_pc s") (auto simp: stopped_stream_def released_stream_def buffer_next_at stream_steps)
  qed
next
  case False
  with assms show ?thesis
    by (cases a) (auto simp: stopped_stream_def released_stream_def stream_steps split: list.split)
qed

lemma released_step:
  assumes "released_stream s" "a \<noteq> Play"
  shows "all_some (\<lambda>s'. released_stream s') (stream_step a s)"
proof (cases "a = Main \<or> a = Buffer")
  case True
  then show ?thesis
  proof
    assume "a = Main"
    with assms show ?thesis
      by (cases "main_pc s") (auto simp: released_stream_def main_next_at stream_steps)
  next
    assume "a = Buffer"
    with assms show ?thesis
      by (cases "buffer_pc s") (auto simp: released_stream_def buffer_next_at stream_steps)
  qed
next
  case False
  with assms show ?thesis
    by (cases a) (auto simp: released_stream_def stream_steps split: list.split)
qed

lemma stream_reachable_inv: "stream_reachable False s \<Longrightarrow> stream_inv s"
proof (induction rule: stream_reachable.induct)
  case start
  show ?case by (rule stream_inv_new)
next
  case (step s a s')
  have play: "a \<noteq> Play" if "stopped_stream r s \<or> released_stream s" for r
    using step.hyps(2) that by (auto simp: stopped_stream_def released_stream_def)
  from step.IH consider "fresh_stream s" | r where "listed_stream r s" | r where "stopping_stream r s"
    | r where "stopped_stream r s" | "released_stream s"
    by (auto simp: stream_inv_def)
  then show ?case
  proof cases
    case 1
    from all_someD [OF fresh_step [OF this] step.hyps(3)] show ?thesis by (auto simp: stream_inv_def)
  next
    case 2
    from all_someD [OF listed_step [OF this] step.hyps(3)] show ?thesis by (auto simp: stream_inv_def)
  next
    case 3
    from all_someD [OF stopping_step [OF this] step.hyps(3)] show ?thesis by (auto simp: stream_inv_def)
  next
    case 4
    with play have "a \<noteq> Play" by blast
    from all_someD [OF stopped_step [OF 4 this] step.hyps(3)] show ?thesis by (auto simp: stream_inv_def)
  next
    case 5
    with play have "a \<noteq> Play" by blast
    from all_someD [OF released_step [OF 5 this] step.hyps(3)] show ?thesis by (auto simp: stream_inv_def)
  qed
qed

lemma stream_run_reachable:
  "stream_reachable again s \<Longrightarrow> again \<or> Play \<notin> set as \<Longrightarrow> stream_run as s = Some s' \<Longrightarrow>
   stream_reachable again s'"
proof (induction as arbitrary: s)
  case (Cons a as)
  then obtain s1 where "stream_step a s = Some s1" "stream_run as s1 = Some s'"
    by (auto simp: bind_eq_Some_conv)
  moreover have "stream_reachable again s1"
    by (rule stream_reachable.step [OF Cons.prems(1) _ calculation(1)]) (use Cons.prems(2) in auto)
  ultimately show ?case using Cons.IH [of s1] Cons.prems(2) by auto
qed simp

section \<open>Properties\<close>

text \<open>
  C12. Under every interleaving of the two threads, a stream that is not played again after its stop
  is alive while a thread has it pinned: Lua's registry holds it, so it is not collected. The use
  count is the number of pins, and a stopped stream that nobody works on is in the reclaim list, so
  its reference is not forgotten.
\<close>

theorem stream_kept_alive:
  assumes "stream_reachable False s"
  shows "(buffer_pc s \<in> {B_Look, B_Added, B_Pinned} \<or> main_pinned s \<longrightarrow> registry s \<noteq> [] \<and> \<not> collected s) \<and>
    usecount s = pins s \<and>
    (reclaimed s \<and> reclaim_ref s \<noteq> None \<and> main_pc s = M_Run \<and> \<not> main_pinned s \<and> buffer_pc s = B_Run \<longrightarrow>
      reclaim_nodes s \<noteq> [])"
  using stream_reachable_inv [OF assms] unfolding stream_inv_def
proof (elim disjE exE)
  assume "fresh_stream s"
  then show ?thesis by (simp add: fresh_stream_def pins_def)
next
  fix r assume "listed_stream r s"
  then show ?thesis by (simp add: listed_stream_def)
next
  fix r assume "stopping_stream r s"
  then show ?thesis by (simp add: stopping_stream_def)
next
  fix r assume "stopped_stream r s"
  then show ?thesis by (auto simp: stopped_stream_def pins_def)
next
  assume "released_stream s"
  then show ?thesis by (auto simp: released_stream_def pins_def)
qed

lemma stream_run_Cons: "stream_step a s = Some s1 \<Longrightarrow> stream_run (a # as) s = stream_run as s1"
  by simp

declare stream_run.simps(2) [simp del]

lemmas stream_evaluation =
  stream_run_Cons new_stream_def main_next_def audio_transmission_reference_def audio_transmission_unreference_def
  buffer_next_def stream_steps

lemma stream_kept_alive_witness:
  "\<exists>s. stream_run [Play, Main, Main, Buffer, Buffer, Buffer, Stop, Main, Main] new_stream = Some s \<and>
     buffer_pc s = B_Pinned \<and> reclaimed s \<and> registry s \<noteq> [] \<and> \<not> collected s"
proof -
  let ?as = "[Main, Main, Buffer, Buffer, Buffer, Stop, Main, Main]"
  obtain s0 where s0: "stream_step Play new_stream = Some s0" by (simp add: new_stream_def)
  have reach: "stream_reachable False s0"
    using stream_reachable.step [OF stream_reachable.start _ s0] by (simp add: new_stream_def)
  have "case stream_run (Play # ?as) new_stream of None \<Rightarrow> False | Some s \<Rightarrow> buffer_pc s = B_Pinned \<and> reclaimed s"
    by (simp add: stream_evaluation)
  then obtain s where s: "stream_run (Play # ?as) new_stream = Some s" "buffer_pc s = B_Pinned" "reclaimed s"
    by (auto split: option.splits)
  then have "stream_reachable False s"
    using stream_run_reachable [OF reach, of ?as s] s0 by (simp add: stream_run_Cons)
  from stream_kept_alive [OF this] s show ?thesis by auto
qed

definition stopped_at_last_pin :: "action list" where
  "stopped_at_last_pin =
     [Main, Main, Stop, Buffer, Buffer, Buffer, Main, Main, Main, Buffer, Main, Main,
      Clean, Main, Forget, Collect]"

definition played_again :: "action list" where
  "played_again =
     [Play, Main, Main, Stop, Buffer, Buffer, Buffer, Main, Main, Main, Main, Play, Buffer,
      Buffer, Main, Buffer, Main, Main, Main, Stop, Buffer, Buffer, Buffer, Buffer, Main,
      Main, Main, Main, Clean, Main, Forget, Collect]"

text \<open>
  C36. But the thread reads the stream after it dropped its last pin, when the main thread may have
  released it: there is a schedule in which Lua has freed the stream the buffer thread reads next.
  And when a stream is played again, the node that the thread queues late stays in the reclaim
  list and releases the stream after its next stop, while the thread has it pinned.
\<close>

theorem stream_freed_in_use:
  "(\<exists>s. stream_reachable False s \<and> collected s \<and> buffer_pc s = B_Last) \<and>
   (\<exists>s. stream_reachable True s \<and> collected s \<and> buffer_pc s = B_Pinned)"
proof
  have "case stream_run (Play # stopped_at_last_pin) new_stream of None \<Rightarrow> False
      | Some s \<Rightarrow> collected s \<and> buffer_pc s = B_Last"
    by (simp add: stopped_at_last_pin_def stream_evaluation)
  then obtain s0 s where s: "stream_step Play new_stream = Some s0" "stream_run stopped_at_last_pin s0 = Some s"
      "collected s \<and> buffer_pc s = B_Last"
    by (auto simp: stream_run.simps split: option.splits bind_splits)
  have "stream_reachable False s0"
    using stream_reachable.step [OF stream_reachable.start _ s(1), of False] by (simp add: new_stream_def)
  from stream_run_reachable [OF this _ s(2)] s(3)
  show "\<exists>s. stream_reachable False s \<and> collected s \<and> buffer_pc s = B_Last"
    by (auto simp: stopped_at_last_pin_def)
  have "case stream_run played_again new_stream of None \<Rightarrow> False
      | Some s \<Rightarrow> collected s \<and> buffer_pc s = B_Pinned"
    by (simp add: played_again_def stream_evaluation)
  then obtain s where "stream_run played_again new_stream = Some s" "collected s \<and> buffer_pc s = B_Pinned"
    by (auto split: option.splits)
  with stream_run_reachable [OF stream_reachable.start, of True]
  show "\<exists>s. stream_reachable True s \<and> collected s \<and> buffer_pc s = B_Pinned" by blast
qed

end
