(* ===== verification/Streams.thy ===== *)
theory Streams
  imports Bindings Ring
begin

text \<open>
  Audio streams (\<open>mumble/audiostream.c\<close>, \<open>openAudio\<close> of \<open>mumble/client.c\<close>, the playback state of
  \<open>mumble/audio.c\<close>) as the main thread sees them. A file of libsndfile, a resampler of
  libsamplerate and the arithmetic of floats are parameters; a sample and a volume are the bits of
  a float, as in \<open>Ring\<close>. How long a stream lives is the subject of \<open>Reclaim\<close>.
\<close>

section \<open>Libraries and state\<close>

record SF_INFO =
  sf_frames :: int
  sf_samplerate :: int
  sf_channels :: int
  sf_format :: int
  sf_sections :: int
  sf_seekable :: int

datatype whence = SEEK_SET | SEEK_CUR | SEEK_END

text \<open>
  \<open>sf_read\<close> is the number of frames and the interleaved samples it stores; \<open>src_process\<close> the frames it
  generates, given the room for them, or an error.
\<close>

record ('f, 's) audio_lib =
  f_add :: "u32 \<Rightarrow> u32 \<Rightarrow> u32"
  f_sub :: "u32 \<Rightarrow> u32 \<Rightarrow> u32"
  f_mul :: "u32 \<Rightarrow> u32 \<Rightarrow> u32"
  f_div :: "u32 \<Rightarrow> u32 \<Rightarrow> u32"
  f_of_int :: "int \<Rightarrow> u32"
  d_of_int :: "int \<Rightarrow> u64"
  d_ceil :: "u64 \<Rightarrow> u64"
  sf_open :: "cstr \<Rightarrow> ('f \<times> SF_INFO) option"
  sf_seek :: "'f \<Rightarrow> int \<Rightarrow> whence \<Rightarrow> int \<times> 'f"
  sf_read :: "'f \<Rightarrow> int \<Rightarrow> int \<times> u32 list \<times> 'f"
  sf_string :: "'f \<Rightarrow> string \<Rightarrow> cstr option"
  src_new :: "string \<Rightarrow> 's option"
  src_process :: "'s \<Rightarrow> u32 list \<Rightarrow> int \<Rightarrow> int \<Rightarrow> u64 \<Rightarrow> bool \<Rightarrow> (int \<times> u32 list) option \<times> 's"
  src_reset :: "'s \<Rightarrow> bool \<times> 's"

text \<open>
  \<open>as_listed\<close> says that the stream is referenced and in the list of the client, \<open>as_end\<close> that the
  file is read to its end; a float that is not set by \<open>openAudio\<close> is a parameter of it.
\<close>

record ('f, 's) AudioStream =
  as_file :: 'f
  as_info :: SF_INFO
  as_src :: 's
  as_playing :: bool
  as_end :: bool
  as_volume :: u32
  as_loop_count :: int
  as_looping :: bool
  as_fade_stop :: bool
  as_fade_frames :: int
  as_fade_frames_left :: int
  as_fade_volume :: u32
  as_fade_from_volume :: u32
  as_fade_to_volume :: u32
  as_ring :: ring
  as_listed :: bool

abbreviation f_one :: u32 where "f_one \<equiv> 0x3F800000"

definition client_openAudio ::
  "('f, 's) audio_lib \<Rightarrow> world \<Rightarrow> u32 list \<Rightarrow> u32 \<times> u32 \<Rightarrow> lval list \<Rightarrow>
   (lval list + ('f, 's) AudioStream) lua_result" where
  "client_openAudio L W fresh junk_fade args =
     bind_result (check_string args 2) (\<lambda>filepath.
     bind_result (check_option args 3 (Some ''medium'') [''best'', ''medium'', ''fastest'', ''zero'', ''linear''])
       (\<lambda>quality.
       case sf_open L filepath of
         None \<Rightarrow> Inr (Inl [LNil, LStr (bytes_of ''failed to open audio file: '' @ filepath)])
       | Some (file, info) \<Rightarrow>
           if \<not> memory W then Inr (Inl [LNil, LStr (bytes_of ''failed creating audio buffer: '')])
           else (case src_new L quality of
               None \<Rightarrow> Inr (Inl [LNil, LStr (bytes_of ''failed creating audio resampler: '')])
             | Some src \<Rightarrow>
                 Inr (Inr \<lparr> as_file = file, as_info = info, as_src = src, as_playing = False,
                        as_end = False, as_volume = f_one, as_loop_count = 0, as_looping = False,
                        as_fade_stop = False, as_fade_frames = 0, as_fade_frames_left = 0,
                        as_fade_volume = f_one, as_fade_from_volume = fst junk_fade,
                        as_fade_to_volume = snd junk_fade,
                        as_ring = \<lparr> rg_buffer = take 48000 (fresh @ replicate 48000 0), rg_used = 0,
                                     rg_head = 0, rg_tail = 0 \<rparr>,
                        as_listed = False \<rparr>))))"

text \<open>A reset that fails only logs.\<close>

definition audiostream_reset_playback_state ::
  "('f, 's) audio_lib \<Rightarrow> ('f, 's) AudioStream \<Rightarrow> ('f, 's) AudioStream" where
  "audiostream_reset_playback_state L s =
     s \<lparr> as_playing := False, as_end := False, as_fade_volume := f_one, as_fade_frames := 0,
         as_fade_frames_left := 0, as_fade_stop := False,
         as_ring := (as_ring s) \<lparr> rg_used := 0, rg_head := 0, rg_tail := 0 \<rparr>,
         as_src := snd (src_reset L (as_src s)),
         as_file := snd (sf_seek L (as_file s) 0 SEEK_SET) \<rparr>"

section \<open>Methods\<close>

type_synonym ('f, 's) stream_method =
  "env \<Rightarrow> ('f, 's) audio_lib \<Rightarrow> lval list \<Rightarrow> ('f, 's) AudioStream \<Rightarrow> ('f, 's) AudioStream object_result"

definition itself :: "lval list \<Rightarrow> lval" where
  "itself args = (case arg args 1 of None \<Rightarrow> LNil | Some v \<Rightarrow> v)"

definition audiostream_isPlaying :: "('f, 's) stream_method" where
  "audiostream_isPlaying E L args s = gives [LBool (as_playing s)] s"

definition audiostream_setVolume :: "('f, 's) stream_method" where
  "audiostream_setVolume E L args s =
     checked s (check_number args 2) (\<lambda>v. gives [itself args] (s \<lparr> as_volume := float_of_d E v \<rparr>))"

definition audiostream_getVolume :: "('f, 's) stream_method" where
  "audiostream_getVolume E L args s = gives [LNum (d_of_float E (as_volume s))] s"

definition audiostream_pause :: "('f, 's) stream_method" where
  "audiostream_pause E L args s = gives [] (s \<lparr> as_playing := False \<rparr>)"

definition audiostream_play :: "('f, 's) stream_method" where
  "audiostream_play E L args s =
     gives [] ((audiostream_reset_playback_state L s) \<lparr> as_playing := True, as_listed := True \<rparr>)"

text \<open>What \<open>audio_transmission_unreference\<close> makes of the stream. A stream that is paused is not stopped.\<close>

definition unreferenced :: "('f, 's) audio_lib \<Rightarrow> ('f, 's) AudioStream \<Rightarrow> ('f, 's) AudioStream" where
  "unreferenced L s = audiostream_reset_playback_state L (s \<lparr> as_listed := False \<rparr>)"

definition audiostream_stop :: "('f, 's) stream_method" where
  "audiostream_stop E L args s = gives [] (if as_playing s then unreferenced L s else s)"

definition audiostream_seek :: "('f, 's) stream_method" where
  "audiostream_seek E L args s =
     checked s (check_option args 2 (Some ''cur'') [''set'', ''cur'', ''end'']) (\<lambda>option.
     checked s (opt_integer args 3 0) (\<lambda>offset.
       case sf_seek L (as_file s) offset
              (if option = ''set'' then SEEK_SET else if option = ''cur'' then SEEK_CUR else SEEK_END) of
         (position, file) \<Rightarrow> gives [LInt position] (s \<lparr> as_file := file \<rparr>)))"

definition audiostream_getLength :: "('f, 's) stream_method" where
  "audiostream_getLength E L args s =
     checked s (check_option args 2 None [''samples'', ''frames'', ''seconds'']) (\<lambda>option.
       if option = ''samples'' then gives [LInt (sf_frames (as_info s) * sf_channels (as_info s))] s
       else if option = ''frames'' then gives [LInt (sf_frames (as_info s))] s
       else gives [LNum (d_div E (d_of_int L (sf_frames (as_info s)))
                             (d_of_int L (sf_samplerate (as_info s))))] s)"

definition audiostream_getInfo :: "('f, 's) stream_method" where
  "audiostream_getInfo E L args s =
     gives [new_table
       (field ''frames'' (LInt (sf_frames (as_info s))) @
        field ''samplerate'' (LInt (sf_samplerate (as_info s))) @
        field ''channels'' (LInt (sf_channels (as_info s))) @
        field ''format'' (LInt (sf_format (as_info s))) @
        field ''sections'' (LInt (sf_sections (as_info s))) @
        field ''seekable'' (LInt (sf_seekable (as_info s))))] s"

definition audiostream_getTitle :: "('f, 's) stream_method" where
  "audiostream_getTitle E L args s = gives [vstr (sf_string L (as_file s) ''SF_STR_TITLE'')] s"

definition audiostream_getArtist :: "('f, 's) stream_method" where
  "audiostream_getArtist E L args s = gives [vstr (sf_string L (as_file s) ''SF_STR_ARTIST'')] s"

definition audiostream_getCopyright :: "('f, 's) stream_method" where
  "audiostream_getCopyright E L args s = gives [vstr (sf_string L (as_file s) ''SF_STR_COPYRIGHT'')] s"

definition audiostream_getSoftware :: "('f, 's) stream_method" where
  "audiostream_getSoftware E L args s = gives [vstr (sf_string L (as_file s) ''SF_STR_SOFTWARE'')] s"

definition audiostream_getComments :: "('f, 's) stream_method" where
  "audiostream_getComments E L args s = gives [vstr (sf_string L (as_file s) ''SF_STR_COMMENT'')] s"

definition audiostream_setLooping :: "('f, 's) stream_method" where
  "audiostream_setLooping E L args s =
     (case arg args 2 of
        Some (LInt n) \<Rightarrow>
          gives [itself args] (s \<lparr> as_looping := False, as_loop_count := sint (of_int n :: u32) \<rparr>)
      | Some (LNum d) \<Rightarrow> do {
          n \<leftarrow> int_of_d E d;
          gives [itself args] (s \<lparr> as_looping := False, as_loop_count := sint (of_int n :: u32) \<rparr>)
        }
      | Some (LBool b) \<Rightarrow> gives [itself args] (s \<lparr> as_looping := b, as_loop_count := 0 \<rparr>)
      | _ \<Rightarrow> fails (BadArgument 2 ''number or boolean expected'') s)"

definition audiostream_isLooping :: "('f, 's) stream_method" where
  "audiostream_isLooping E L args s = gives [LBool (as_looping s \<or> as_loop_count s > 0)] s"

definition audiostream_getLoopCount :: "('f, 's) stream_method" where
  "audiostream_getLoopCount E L args s =
     gives [if as_looping s then LNum 0x7FF0000000000000 else LInt (as_loop_count s)] s"

text \<open>\<open>AUDIO_SAMPLE_RATE * time\<close> is a float; it becomes a number of frames.\<close>

definition fade_duration :: "env \<Rightarrow> ('f, 's) audio_lib \<Rightarrow> u64 \<Rightarrow> int option" where
  "fade_duration E L t = integer_of_float E (f_mul L (f_of_int L 48000) (float_of_d E t))"

abbreviation d_one :: u64 where "d_one \<equiv> 0x3FF0000000000000"

definition audiostream_fadeTo :: "('f, 's) stream_method" where
  "audiostream_fadeTo E L args s =
     checked s (check_number args 2) (\<lambda>volume.
     checked s (opt_number args 3 d_one) (\<lambda>t. do {
       n \<leftarrow> fade_duration E L t;
       gives [] (s \<lparr> as_fade_frames := n, as_fade_frames_left := n,
                     as_fade_from_volume := as_fade_volume s,
                     as_fade_to_volume := float_of_d E volume \<rparr>)
     }))"

definition audiostream_fadeOut :: "('f, 's) stream_method" where
  "audiostream_fadeOut E L args s =
     checked s (opt_number args 2 d_one) (\<lambda>t. do {
       n \<leftarrow> fade_duration E L t;
       gives [] (s \<lparr> as_fade_frames := n, as_fade_frames_left := n,
                     as_fade_from_volume := as_fade_volume s, as_fade_to_volume := 0,
                     as_fade_stop := True \<rparr>)
     })"

text \<open>The file, the ring and the resampler are freed; no method can be called any more.\<close>

definition audiostream_gc :: "('f, 's) stream_method" where
  "audiostream_gc E L args s = gives [] s"

definition audiostream_tostring :: "env \<Rightarrow> nat \<Rightarrow> cstr" where
  "audiostream_tostring E n =
     address_text ''mumble.audiostream'' (pointer_text E (LObject ''mumble.audiostream'' n))"

definition mumble_audiostream :: "(string \<times> ('f, 's) stream_method) list" where
  "mumble_audiostream =
     [(''isPlaying'', audiostream_isPlaying), (''setVolume'', audiostream_setVolume),
      (''getVolume'', audiostream_getVolume), (''pause'', audiostream_pause), (''play'', audiostream_play),
      (''stop'', audiostream_stop), (''seek'', audiostream_seek), (''getLength'', audiostream_getLength),
      (''getDuration'', audiostream_getLength), (''getInfo'', audiostream_getInfo),
      (''getTitle'', audiostream_getTitle), (''getArtist'', audiostream_getArtist),
      (''getCopyright'', audiostream_getCopyright), (''getSoftware'', audiostream_getSoftware),
      (''getComments'', audiostream_getComments), (''setLooping'', audiostream_setLooping),
      (''isLooping'', audiostream_isLooping), (''getLoopCount'', audiostream_getLoopCount),
      (''fadeTo'', audiostream_fadeTo), (''fadeOut'', audiostream_fadeOut), (''__gc'', audiostream_gc)]"

section \<open>Fading\<close>

text \<open>The step of a fade for one frame that is played.\<close>

definition fade_step :: "('f, 's) audio_lib \<Rightarrow> ('f, 's) AudioStream \<Rightarrow> ('f, 's) AudioStream" where
  "fade_step L s =
     (if as_fade_frames_left s > 0 then
        let left = as_fade_frames_left s - 1
        in s \<lparr> as_fade_frames_left := left,
               as_fade_volume := f_add L (as_fade_to_volume s)
                 (f_mul L (f_sub L (as_fade_from_volume s) (as_fade_to_volume s))
                   (f_div L (f_of_int L left) (f_of_int L (as_fade_frames s)))) \<rparr>
      else if as_fade_stop s then s \<lparr> as_fade_volume := 0, as_end := True \<rparr>
      else s)"

end
