(* ===== verification/Mixing.thy ===== *)
theory Mixing
  imports Streams Buffer Client
begin

text \<open>
  From files and pipes to the frames that are encoded (\<open>mumble/audio.c\<close>): the change of channels and
  of the sampling rate, what the buffer thread reads ahead, what of it the main thread mixes into
  \<open>audio_output\<close>. Blocks of floats are lists with checked access; of a block just allocated no
  cell is read before it is written, so that its first contents are taken to be zero.
\<close>

section \<open>Channels\<close>

text \<open>A loop over some indices.\<close>

fun for_each :: "('i \<Rightarrow> 'a \<Rightarrow> 'a option) \<Rightarrow> 'i list \<Rightarrow> 'a \<Rightarrow> 'a option" where
  "for_each f [] a = Some a"
| "for_each f (i # is) a = do { a \<leftarrow> f i a; for_each f is a }"

text \<open>The outer option is undefined behaviour, the inner one a refused allocation.\<close>

definition floats :: "mem_env \<Rightarrow> nat \<Rightarrow> u32 list option" where
  "floats M n = (if can_alloc M (of_nat n * 4) then Some (replicate n 0) else None)"

definition convert_mono_to_multi :: "mem_env \<Rightarrow> u32 list \<Rightarrow> nat \<Rightarrow> nat \<Rightarrow> u32 list option option" where
  "convert_mono_to_multi M input_buffer frames_read chans =
     (case floats M (frames_read * chans) of
        None \<Rightarrow> Some None
      | Some multi_buffer \<Rightarrow> map_option Some
          (for_each (\<lambda>i. for_each (\<lambda>ch multi_buffer. do {
               x \<leftarrow> peek input_buffer i;
               poke multi_buffer (i * chans + ch) [x]
             }) [0..<chans]) [0..<frames_read] multi_buffer))"

text \<open>The sums of the even and of the odd channels of a frame, then the division of both.\<close>

definition sum_channels :: "('f, 's) audio_lib \<Rightarrow> u32 list \<Rightarrow> nat \<Rightarrow> nat \<Rightarrow> (u32 \<times> u32) option" where
  "sum_channels L input_buffer input_channels i =
     for_each (\<lambda>ch (left, right). do {
         x \<leftarrow> peek input_buffer (i * input_channels + ch);
         Some (if ch mod 2 = 0 then (f_add L left x, right) else (left, f_add L right x))
       }) [0..<input_channels] (0, 0)"

abbreviation f_two :: u32 where "f_two \<equiv> 0x40000000"

definition downmix_to_stereo ::
  "mem_env \<Rightarrow> ('f, 's) audio_lib \<Rightarrow> u32 list \<Rightarrow> nat \<Rightarrow> nat \<Rightarrow> u32 list option option" where
  "downmix_to_stereo M L input_buffer frames_read input_channels =
     (case floats M (frames_read * 2) of
        None \<Rightarrow> Some None
      | Some stereo_buffer \<Rightarrow> map_option Some
          (for_each (\<lambda>i stereo_buffer. do {
               (left, right) \<leftarrow> sum_channels L input_buffer input_channels i;
               let half = f_div L (f_of_int L (int input_channels)) f_two;
               stereo_buffer \<leftarrow> poke stereo_buffer (i * 2) [f_div L left half];
               poke stereo_buffer (i * 2 + 1) [f_div L right half]
             }) [0..<frames_read] stereo_buffer))"

text \<open>
  The conversion to stereo that \<open>process_audio\<close> and \<open>audio_encode_event\<close> share. The input of two
  channels is left as it is.
\<close>

definition to_stereo :: "mem_env \<Rightarrow> ('f, 's) audio_lib \<Rightarrow> u32 list \<Rightarrow> nat \<Rightarrow> int \<Rightarrow> u32 list option option" where
  "to_stereo M L input_buffer frames chans =
     (if chans = 1 then convert_mono_to_multi M input_buffer frames 2
      else if chans > 2 then downmix_to_stereo M L input_buffer frames (nat chans)
      else Some (Some input_buffer))"

section \<open>The sampling rate\<close>

text \<open>
  \<open>src_process\<close> is given the frames and the room for those it generates; \<open>src_reset\<close> tells whether it
  failed. The result is the new block, \<open>None\<close> for NULL, the number of frames and the resampler.
\<close>

definition resample_audio ::
  "mem_env \<Rightarrow> ('f, 's) audio_lib \<Rightarrow> 's \<Rightarrow> u32 list \<Rightarrow> nat \<Rightarrow> nat \<Rightarrow> u64 \<Rightarrow> bool \<Rightarrow>
   (u32 list option \<times> int \<times> 's) option" where
  "resample_audio M L src input_buffer input_frames output_frames ratio end_of_input =
     (case floats M (output_frames * 2) of
        None \<Rightarrow> Some (None, -1, src)
      | Some out \<Rightarrow>
          if ratio = d_one then do {
            data \<leftarrow> slice input_buffer 0 (input_frames * 2);
            out \<leftarrow> poke out 0 data;
            Some (Some out, int input_frames, src)
          }
          else do {
            data \<leftarrow> slice input_buffer 0 (input_frames * 2);
            (case src_process L src data (int input_frames) (int output_frames) ratio end_of_input of
               (None, src) \<Rightarrow> Some (None, -1, src)
             | (Some (n, samples), src) \<Rightarrow> do {
                 out \<leftarrow> poke out 0 samples;
                 if end_of_input then
                   (case src_reset L src of (failed, src) \<Rightarrow>
                      if failed then Some (None, -1, src) else Some (Some out, n, src))
                 else Some (Some out, n, src)
               })
          })"

definition resample_ratio :: "env \<Rightarrow> ('f, 's) audio_lib \<Rightarrow> int \<Rightarrow> u64" where
  "resample_ratio E L rate = d_div E (d_of_int L 48000) (d_of_int L rate)"

definition resampled_size :: "env \<Rightarrow> ('f, 's) audio_lib \<Rightarrow> nat \<Rightarrow> u64 \<Rightarrow> int option" where
  "resampled_size E L frames ratio = int_of_d E (d_ceil L (d_mul E (d_of_int L (int frames)) ratio))"

section \<open>Reading ahead\<close>

text \<open>
  \<open>process_audio\<close>: the result, the output, the frames in it, whether the file ended, the stream.
  \<open>sf_read\<close> tells how many frames it stored and their samples, which fill no more than the block.
\<close>

definition process_audio ::
  "env \<Rightarrow> mem_env \<Rightarrow> ('f, 's) audio_lib \<Rightarrow> nat \<Rightarrow> ('f, 's) AudioStream \<Rightarrow>
   (int \<times> u32 list option \<times> nat \<times> bool \<times> ('f, 's) AudioStream) option" where
  "process_audio E M L available_space s = do {
     let chans = sf_channels (as_info s);
     let ratio = resample_ratio E L (sf_samplerate (as_info s));
     let available_output_frames = available_space div 8;
     input_frames \<leftarrow> int_of_d E (d_div E (d_of_int L (int available_output_frames)) ratio);
     (case floats M (nat (input_frames * chans)) of
        None \<Rightarrow> Some (-1, None, 0, False, s)
      | Some input_buffer \<Rightarrow>
          (case sf_read L (as_file s) input_frames of (frames_read, samples, file) \<Rightarrow> do {
             input_buffer \<leftarrow> poke input_buffer 0 samples;
             let s = s \<lparr> as_file := file \<rparr>;
             let frames = nat frames_read;
             if frames_read \<le> 0 then Some (0, None, 0, True, s)
             else do {
               stereo \<leftarrow> to_stereo M L input_buffer frames chans;
               (case stereo of
                  None \<Rightarrow> Some (-1, None, 0, False, s)
                | Some input_buffer \<Rightarrow> do {
                    actual_output_frames \<leftarrow> resampled_size E L frames ratio;
                    (output, n, src) \<leftarrow> resample_audio M L (as_src s) input_buffer frames
                       (nat actual_output_frames) ratio (frames_read < input_frames);
                    let s = s \<lparr> as_src := src \<rparr>;
                    if output = None \<or> n < 0 then Some (-1, output, 0, False, s)
                    else Some (0, output, nat n, frames_read < input_frames, s)
                  })
             }
           }))
   }"

text \<open>The body of \<open>mumble_audio_buffer_thread\<close> for one stream it has pinned.\<close>

definition buffer_fill ::
  "env \<Rightarrow> mem_env \<Rightarrow> ('f, 's) audio_lib \<Rightarrow> ('f, 's) AudioStream \<Rightarrow> ('f, 's) AudioStream option" where
  "buffer_fill E M L s =
     (if as_playing s \<and> \<not> as_end s then do {
        let used_samples = ring_count (as_ring s);
        let space_samples = ring_space (as_ring s);
        if used_samples < buffer_size (as_ring s) div 2 then do {
          (rc, output_audio, frames_read, eof, s) \<leftarrow> process_audio E M L (space_samples * 4) s;
          s \<leftarrow> (case output_audio of
             Some output \<Rightarrow>
               if rc = 0 \<and> frames_read > 0 then do {
                 (n, r) \<leftarrow> ring_write output (frames_read * 2) (as_ring s);
                 Some (s \<lparr> as_ring := r \<rparr>)
               } else Some s
           | None \<Rightarrow> Some s);
          Some (if eof then s \<lparr> as_end := True \<rparr> else s)
        } else Some s
      } else Some s)"

section \<open>Mixing a stream\<close>

type_synonym frame = "u32 \<times> u32"

text \<open>
  One frame of the input is scaled and added to one of the output. \<open>client->volume\<close> is a double, so
  that the product of the volumes is one of doubles.
\<close>

definition add_frame ::
  "('f, 's) audio_lib \<Rightarrow> u32 list \<Rightarrow> u32 \<Rightarrow> nat \<Rightarrow> frame list \<Rightarrow> frame list option" where
  "add_frame L input_buffer volume i audio_output = do {
     (l, r) \<leftarrow> peek audio_output i;
     x \<leftarrow> peek input_buffer (i * 2);
     y \<leftarrow> peek input_buffer (i * 2 + 1);
     poke audio_output i [(f_add L l (f_mul L x volume), f_add L r (f_mul L y volume))]
   }"

definition faded_volume :: "env \<Rightarrow> u64 \<Rightarrow> ('f, 's) AudioStream \<Rightarrow> u32" where
  "faded_volume E vol s =
     float_of_d E (d_mul E (d_mul E (d_of_float E (as_volume s)) vol) (d_of_float E (as_fade_volume s)))"

definition plain_volume :: "env \<Rightarrow> u64 \<Rightarrow> ('f, 's) AudioStream \<Rightarrow> u32" where
  "plain_volume E vol s = float_of_d E (d_mul E (d_of_float E (as_volume s)) vol)"

definition mix_stream ::
  "env \<Rightarrow> ('f, 's) audio_lib \<Rightarrow> u64 \<Rightarrow> u32 list \<Rightarrow> nat \<Rightarrow> ('f, 's) AudioStream \<Rightarrow> frame list \<Rightarrow>
   (('f, 's) AudioStream \<times> frame list) option" where
  "mix_stream E L vol input_buffer n s audio_output =
     (if as_fade_frames s > 0 then
        for_each (\<lambda>i (s, audio_output).
            let s = fade_step L s
            in map_option (Pair s) (add_frame L input_buffer (faded_volume E vol s) i audio_output))
          [0..<n] (s, audio_output)
      else
        map_option (Pair s)
          (for_each (add_frame L input_buffer (plain_volume E vol s)) [0..<n] audio_output))"

text \<open>
  \<open>handle_audio_stream_end\<close> behind the rewinding: the stream loops, or the hook is called and the
  stream is no longer referenced. The result tells which.
\<close>

definition handle_audio_stream_end ::
  "('f, 's) audio_lib \<Rightarrow> ('f, 's) AudioStream \<Rightarrow> bool \<times> ('f, 's) AudioStream" where
  "handle_audio_stream_end L s =
     (let s = s \<lparr> as_file := snd (sf_seek L (as_file s) 0 SEEK_SET), as_end := False \<rparr>
      in if as_looping s then (True, s)
         else if as_loop_count s > 0 then (True, s \<lparr> as_loop_count := as_loop_count s - 1 \<rparr>)
         else (False, unreferenced L s))"

text \<open>
  What \<open>process_audio_file\<close> does to the stream and the output: \<open>mx_ended\<close> says that the stream
  ended and \<open>mx_looped\<close> that it begins again. A stream that is reclaimed is not listed.
\<close>

record ('f, 's) mixed =
  mx_stream :: "('f, 's) AudioStream"
  mx_output :: "frame list"
  mx_read :: nat
  mx_looped :: bool
  mx_ended :: bool

definition process_audio_file ::
  "env \<Rightarrow> ('f, 's) audio_lib \<Rightarrow> u64 \<Rightarrow> nat \<Rightarrow> ('f, 's) AudioStream \<Rightarrow> frame list \<Rightarrow> ('f, 's) mixed option" where
  "process_audio_file E L vol sample_size s audio_output =
     (if \<not> as_listed s \<or> sample_size > 5760 then Some \<lparr> mx_stream = s, mx_output = audio_output, mx_read = 0,
         mx_looped = False, mx_ended = False \<rparr>
      else do {
        let frames_available = ring_count (as_ring s) div 2;
        let frames_to_read = (if frames_available < sample_size then frames_available else sample_size);
        (input_buffer, s) \<leftarrow>
          (if frames_to_read > 0 then do {
             (got, r) \<leftarrow> ring_read (min (frames_to_read * 2) 5760) (as_ring s);
             Some (got, s \<lparr> as_ring := r \<rparr>)
           } else Some ([], s));
        let read = length input_buffer div 2;
        (s, audio_output) \<leftarrow> mix_stream E L vol input_buffer read s audio_output;
        let (looped, s') = handle_audio_stream_end L s;
        if as_end s \<and> read < sample_size
        then Some \<lparr> mx_stream = s', mx_output = audio_output, mx_read = read,
                    mx_looped = looped, mx_ended = \<not> looped \<rparr>
        else Some \<lparr> mx_stream = s, mx_output = audio_output, mx_read = read,
                    mx_looped = False, mx_ended = False \<rparr>
      })"

section \<open>Loops\<close>

lemma for_each_append: "for_each f (xs @ ys) a = do { a \<leftarrow> for_each f xs a; for_each f ys a }"
  by (induction xs arbitrary: a) (simp_all split: bind_splits)

lemma for_each_cong [fundef_cong]:
  "xs = ys \<Longrightarrow> a = b \<Longrightarrow> (\<And>x c. x \<in> set ys \<Longrightarrow> f x c = g x c) \<Longrightarrow> for_each f xs a = for_each g ys b"
  by (induction xs arbitrary: a b ys) (auto split: bind_splits)

text \<open>A loop that fills a block from its start, a chunk of \<open>k\<close> cells at a time.\<close>

lemma for_each_fills:
  assumes "\<And>i b. i < n \<Longrightarrow> length b = n * k \<Longrightarrow> f i b = poke b (i * k) (chunk i)"
    and "\<And>i. i < n \<Longrightarrow> length (chunk i) = k" and "length b = n * k"
  shows "for_each f [0..<n] b = Some (concat (map chunk [0..<n]))"
proof -
  have "for_each f [0..<m] b = Some (concat (map chunk [0..<m]) @ drop (m * k) b)" if "m \<le> n" for m
    using that
  proof (induction m)
    case (Suc m)
    let ?done = "concat (map chunk [0..<m])"
    have len: "length ?done = m * k"
      using Suc.prems assms(2) by (induction m) (simp_all add: add.commute)
    have room: "m * k + k \<le> n * k" using Suc.prems by (metis Suc_le_eq add.commute mult_Suc mult_le_mono1 Suc_leD le_refl)
    have "f m (?done @ drop (m * k) b) = Some (?done @ chunk m @ drop (m * k + k) b)"
      using assms(1) [of m "?done @ drop (m * k) b"] assms(2) [of m] assms(3) Suc.prems room len
      by (simp add: poke_def add.commute)
    then show ?case using Suc by (simp add: for_each_append add.commute)
  qed simp
  from this [of n] assms(3) show ?thesis by simp
qed

lemma concat_pairs_nth:
  "i < n \<Longrightarrow> concat (map (\<lambda>i. [f i, g i]) [0..<n]) ! (2 * i) = f i \<and>
    concat (map (\<lambda>i. [f i, g i]) [0..<n]) ! Suc (2 * i) = g i"
proof (induction n)
  case (Suc n)
  have "length (concat (map (\<lambda>i. [f i, g i]) [0..<n])) = 2 * n" by (induction n) simp_all
  with Suc show ?case by (cases "i = n") (auto simp: nth_append)
qed simp

section \<open>Channels\<close>

lemma floats_Some [simp]: "floats M n = Some b \<longleftrightarrow> can_alloc M (of_nat n * 4) \<and> b = replicate n 0"
  by (auto simp: floats_def)

text \<open>The frame \<open>i\<close> of interleaved samples, and the sum of every other sample of a frame.\<close>

definition frame_at :: "nat \<Rightarrow> u32 list \<Rightarrow> nat \<Rightarrow> u32 list" where
  "frame_at chans samples i = take chans (drop (i * chans) samples)"

definition side_sum :: "('f, 's) audio_lib \<Rightarrow> bool \<Rightarrow> u32 list \<Rightarrow> u32" where
  "side_sum L is_left frame = foldl (f_add L) 0 (nths frame {k. even k = is_left})"

lemma sum_channels_eq:
  assumes "i * chans + chans \<le> length samples"
  shows "sum_channels L samples chans i =
    Some (side_sum L True (frame_at chans samples i), side_sum L False (frame_at chans samples i))"
proof -
  let ?body = "\<lambda>ch (left, right). do {
         x \<leftarrow> peek samples (i * chans + ch);
         Some (if ch mod 2 = 0 then (f_add L left x, right) else (left, f_add L right x))
       }"
  have "for_each ?body [0..<m] (0, 0) =
     Some (side_sum L True (take m (drop (i * chans) samples)), side_sum L False (take m (drop (i * chans) samples)))"
    if "m \<le> chans" for m
    using that
  proof (induction m)
    case (Suc m)
    have x: "i * chans + m < length samples" "m < length (drop (i * chans) samples)"
      using assms Suc.prems by simp_all
    have "take (Suc m) (drop (i * chans) samples) = take m (drop (i * chans) samples) @ [samples ! (i * chans + m)]"
      using x by (simp add: take_Suc_conv_app_nth)
    moreover have "length (take m (drop (i * chans) samples)) = m" using x(2) by simp
    ultimately have "side_sum L b (take (Suc m) (drop (i * chans) samples)) =
        (if even m = b then f_add L (side_sum L b (take m (drop (i * chans) samples))) (samples ! (i * chans + m))
         else side_sum L b (take m (drop (i * chans) samples)))" for b
      by (simp add: side_sum_def nths_append)
    with Suc x(1) show ?case
      by (simp add: for_each_append peek_in even_iff_mod_2_eq_zero)
  qed (simp add: side_sum_def)
  from this [of chans] show ?thesis by (simp add: sum_channels_def frame_at_def)
qed

definition stereo_of :: "('f, 's) audio_lib \<Rightarrow> int \<Rightarrow> u32 list \<Rightarrow> nat \<Rightarrow> u32 \<times> u32" where
  "stereo_of L chans samples i =
     (if chans = 1 then (samples ! i, samples ! i)
      else if chans = 2 then (samples ! (2 * i), samples ! (2 * i + 1))
      else let half = f_div L (f_of_int L chans) f_two; frame = frame_at (nat chans) samples i
        in (f_div L (side_sum L True frame) half, f_div L (side_sum L False frame) half))"

lemma mono_to_stereo_eq:
  assumes "can_alloc M (of_nat (n * 2) * 4)" "n \<le> length samples"
  shows "convert_mono_to_multi M samples n 2 = Some (Some (concat (map (\<lambda>i. [samples ! i, samples ! i]) [0..<n])))"
proof -
  have upt2: "[0..<2] = [0, 1 :: nat]" by (simp add: upt_rec)
  have body: "for_each (\<lambda>ch b. do { x \<leftarrow> peek samples i; poke b (i * 2 + ch) [x] }) [0..<2] b =
      poke b (i * 2) [samples ! i, samples ! i]" if "i < n" "length b = n * 2" for i and b :: "u32 list"
    using that assms(2) by (simp add: upt2 mem_simps poke_def take_Cons drop_Cons)
  show ?thesis
    using for_each_fills [of n 2 "\<lambda>i. for_each (\<lambda>ch b. do { x \<leftarrow> peek samples i; poke b (i * 2 + ch) [x] }) [0..<2]"
        "\<lambda>i. [samples ! i, samples ! i]" "replicate (n * 2) 0"] body assms(1)
    by (simp add: convert_mono_to_multi_def floats_def)
qed

lemma downmix_eq:
  assumes "can_alloc M (of_nat (n * 2) * 4)" "n * chans \<le> length samples"
  shows "downmix_to_stereo M L samples n chans = Some (Some (concat (map (\<lambda>i.
    let half = f_div L (f_of_int L (int chans)) f_two; frame = frame_at chans samples i
    in [f_div L (side_sum L True frame) half, f_div L (side_sum L False frame) half]) [0..<n])))"
proof -
  let ?chunk = "\<lambda>i. let half = f_div L (f_of_int L (int chans)) f_two; frame = frame_at chans samples i
    in [f_div L (side_sum L True frame) half, f_div L (side_sum L False frame) half]"
  let ?f = "\<lambda>i b. do {
               (left, right) \<leftarrow> sum_channels L samples chans i;
               let half = f_div L (f_of_int L (int chans)) f_two;
               b \<leftarrow> poke b (i * 2) [f_div L left half];
               poke b (i * 2 + 1) [f_div L right half]
             }"
  have body: "?f i b = poke b (i * 2) (?chunk i)" if i: "i < n" "length b = n * 2" for i b
  proof -
    have "i * chans + chans \<le> n * chans" using i(1)
      by (metis Suc_le_eq add.commute mult_Suc mult_le_mono1)
    then show ?thesis
      using i assms(2) by (simp add: sum_channels_eq Let_def poke_def take_Cons drop_Cons)
  qed
  show ?thesis
    using for_each_fills [of n 2 ?f ?chunk "replicate (n * 2) 0"] body assms(1)
    by (simp add: downmix_to_stereo_def floats_def Let_def)
qed

lemma to_stereo_frames:
  assumes "chans \<ge> 1" "n * nat chans \<le> length samples" "can_alloc M (of_nat (n * 2) * 4)"
  shows "\<exists>out. to_stereo M L samples n chans = Some (Some out) \<and> n * 2 \<le> length out \<and>
    (\<forall>i < n. (out ! (2 * i), out ! (2 * i + 1)) = stereo_of L chans samples i)"
proof -
  have len: "length (concat (map (\<lambda>i. [f i, g i]) [0..<n])) = n * 2" for f g :: "nat \<Rightarrow> u32"
    by (induction n) simp_all
  consider "chans = 1" | "chans = 2" | "chans > 2" using assms(1) by linarith
  then show ?thesis
  proof cases
    case 1
    then show ?thesis using assms mono_to_stereo_eq [of M n samples]
      by (simp add: to_stereo_def stereo_of_def len concat_pairs_nth)
  next
    case 2
    then show ?thesis using assms by (simp add: to_stereo_def stereo_of_def)
  next
    case 3
    then show ?thesis using assms downmix_eq [of M n "nat chans" samples L]
      by (simp add: to_stereo_def stereo_of_def Let_def len concat_pairs_nth)
  qed
qed

text \<open>
  Whatever the number of channels of a source, 1, 2 or more, the conversion to stereo is defined
  when the source holds the frames it is asked for and the block is granted: the left sample of
  every frame is the only channel of a mono source, the first of a stereo source and else the sum of
  the channels 0, 2, 4 and so on divided by half the number of channels, and the right sample
  likewise.
\<close>

theorem stereo_conversion:
  assumes "chans \<ge> 1" "n * nat chans \<le> length samples" "can_alloc M (of_nat (n * 2) * 4)"
  shows "\<exists>out. to_stereo M L samples n chans = Some (Some out) \<and> n * 2 \<le> length out \<and>
    (\<forall>i < n. (out ! (2 * i), out ! (2 * i + 1)) = stereo_of L chans samples i)"
  by (rule to_stereo_frames [OF assms])

section \<open>The ring of one thread\<close>

definition queued :: "ring \<Rightarrow> u32 list" where
  "queued r = map (\<lambda>j. rg_buffer r ! ((rg_tail r + j) mod buffer_size r)) [0..<rg_used r]"

definition ring_ok :: "ring \<Rightarrow> bool" where
  "ring_ok r \<longleftrightarrow> rg_used r \<le> buffer_size r \<and> rg_tail r < buffer_size r \<and>
     rg_head r = (rg_tail r + rg_used r) mod buffer_size r"

lemma length_queued [simp]: "length (queued r) = rg_used r"
  by (simp add: queued_def)

lemma ring_write_queued:
  assumes ok: "ring_ok r" and count: "count \<le> length src"
  shows "\<exists>r'. ring_write src count r = Some (min count (ring_space r), r') \<and> ring_ok r' \<and>
    buffer_size r' = buffer_size r \<and> queued r' = queued r @ take (min count (ring_space r)) src"
proof -
  let ?N = "buffer_size r" and ?n = "min count (ring_space r)" and ?u = "rg_used r" and ?t = "rg_tail r"
  have n: "?u + ?n \<le> ?N" "?n \<le> length src" and N: "0 < ?N" "?t < ?N"
    using ok count by (auto simp: ring_ok_def ring_space_def ring_count_def Let_def)
  have h: "rg_head r = (?t + ?u) mod ?N" "rg_head r < ?N" using ok N by (simp_all add: ring_ok_def)
  obtain b where b: "copy_in (take ?n src) ?n (rg_head r) (rg_buffer r) = Some b" "length b = ?N"
    "\<And>j. j < ?n \<Longrightarrow> b ! ((rg_head r + j) mod ?N) = src ! j"
    "\<And>k. k < ?N \<Longrightarrow> (\<And>j. j < ?n \<Longrightarrow> k \<noteq> (rg_head r + j) mod ?N) \<Longrightarrow> b ! k = rg_buffer r ! k"
    using copy_in_cells [of "rg_head r" "rg_buffer r" "take ?n src"] h n by (auto simp: min_absorb2)
  have kept: "b ! ((?t + i) mod ?N) = rg_buffer r ! ((?t + i) mod ?N)" if "i < ?u" for i
  proof (rule b(4))
    fix j assume "j < ?n"
    with that n(1) have "?t + i < ?t + ?u + j" "?t + ?u + j < ?t + i + ?N" by linarith+
    from distinct_cells [OF this] show "(?t + i) mod ?N \<noteq> (rg_head r + j) mod ?N"
      using h(1) by (simp add: mod_add_left_eq)
  qed (use N in simp)
  show ?thesis
  proof (cases "?n = 0")
    case True
    with ok show ?thesis
      by (intro exI [of _ r]) (simp add: ring_write_def Let_def min_def split: if_splits)
  next
    case False
    let ?r = "r \<lparr> rg_buffer := b, rg_head := (rg_head r + ?n) mod ?N, rg_used := ?u + ?n \<rparr>"
    have w: "ring_write src count r = Some (?n, ?r)"
      using False b(1) copy_in_take [OF n(2)] by (simp add: ring_write_def Let_def min_def split: if_splits)
    have "queued ?r = queued r @ take ?n src"
    proof (rule nth_equalityI)
      show "length (queued ?r) = length (queued r @ take ?n src)" using n by simp
      fix k assume "k < length (queued ?r)"
      then have k: "k < ?u + ?n" by simp
      show "queued ?r ! k = (queued r @ take ?n src) ! k"
      proof (cases "k < ?u")
        case True
        with k b(2) kept show ?thesis by (simp add: queued_def nth_append)
      next
        case False
        then have j: "k - ?u < ?n" "?t + k = (?t + ?u) + (k - ?u)" using k False by linarith+
        have "b ! ((?t + k) mod ?N) = src ! (k - ?u)"
          by (metis b(3) [OF j(1)] h(1) j(2) mod_add_left_eq)
        with False k b(2) j(1) show ?thesis by (simp add: queued_def nth_append)
      qed
    qed
    moreover have "ring_ok ?r" using n N h b(2) by (simp add: ring_ok_def mod_add_left_eq add.assoc)
    ultimately show ?thesis using w b(2) by (intro exI [of _ ?r]) simp
  qed
qed

lemma ring_read_queued:
  assumes ok: "ring_ok r"
  shows "\<exists>r'. ring_read count r = Some (take count (queued r), r') \<and> ring_ok r' \<and>
    buffer_size r' = buffer_size r \<and> queued r' = drop count (queued r)"
proof -
  let ?N = "buffer_size r" and ?n = "min count (rg_used r)" and ?u = "rg_used r" and ?t = "rg_tail r"
  have N: "0 < ?N" "?t < ?N" "?n \<le> ?N" "?u \<le> ?N" "rg_head r = (?t + ?u) mod ?N"
    using ok by (auto simp: ring_ok_def)
  show ?thesis
  proof (cases "?n = 0")
    case True
    with ok show ?thesis
      by (intro exI [of _ r]) (auto simp: ring_read_def ring_count_def Let_def min_def queued_def split: if_splits)
  next
    case False
    let ?r = "r \<lparr> rg_tail := (?t + ?n) mod ?N, rg_used := ?u - ?n \<rparr>"
    have "copy_out ?n ?t (rg_buffer r) = Some (take count (queued r))"
      using copy_out_cells [OF N(2,3)] by (simp add: queued_def take_map min_def take_upt)
    then have "ring_read count r = Some (take count (queued r), ?r)"
      using False by (simp add: ring_read_def ring_count_def Let_def min_def split: if_splits)
    moreover have "queued ?r = drop count (queued r)"
    proof (rule nth_equalityI)
      show "length (queued ?r) = length (drop count (queued r))" by (simp add: min_def)
      fix k assume "k < length (queued ?r)"
      then have k: "k < ?u - ?n" by simp
      then have "?n = count" by (simp add: min_def split: if_splits)
      with k show "queued ?r ! k = drop count (queued r) ! k"
        by (simp add: queued_def mod_add_left_eq add.assoc)
    qed
    moreover have "((?t + ?n) mod ?N + (?u - ?n)) mod ?N = (?t + ?u) mod ?N"
      using min.cobounded2 [of count ?u] by (simp only: mod_add_left_eq add.assoc le_add_diff_inverse)
    then have "ring_ok ?r"
      using N by (simp add: ring_ok_def)
    ultimately show ?thesis by (intro exI [of _ ?r]) simp
  qed
qed

section \<open>Mixing\<close>

definition mixed_frames ::
  "('f, 's) audio_lib \<Rightarrow> (nat \<Rightarrow> u32) \<Rightarrow> u32 list \<Rightarrow> nat \<Rightarrow> frame list \<Rightarrow> frame list" where
  "mixed_frames L volume samples n out = map (\<lambda>i.
     if i < n then (f_add L (fst (out ! i)) (f_mul L (samples ! (2 * i)) (volume i)),
                    f_add L (snd (out ! i)) (f_mul L (samples ! Suc (2 * i)) (volume i)))
     else out ! i) [0..<length out]"

lemma length_mixed_frames [simp]: "length (mixed_frames L volume samples n out) = length out"
  by (simp add: mixed_frames_def)

lemma mixed_frames_0 [simp]: "mixed_frames L volume samples 0 out = out"
  by (simp add: mixed_frames_def map_nth)

lemma add_frame_mixed:
  assumes "n < length out" "2 * n + 2 \<le> length samples"
  shows "add_frame L samples (volume n) n (mixed_frames L volume samples n out) =
    Some (mixed_frames L volume samples (Suc n) out)"
proof -
  let ?m = "mixed_frames L volume samples n out"
  have n: "n < length ?m" "?m ! n = out ! n" using assms(1) by (simp_all add: mixed_frames_def)
  have "add_frame L samples (volume n) n ?m = Some (?m [n :=
      (f_add L (fst (out ! n)) (f_mul L (samples ! (2 * n)) (volume n)),
       f_add L (snd (out ! n)) (f_mul L (samples ! Suc (2 * n)) (volume n)))])"
    using n assms(2) by (simp add: add_frame_def mem_simps mult.commute upd_conv_take_nth_drop split: prod.split)
  also have "?m [n := (f_add L (fst (out ! n)) (f_mul L (samples ! (2 * n)) (volume n)),
       f_add L (snd (out ! n)) (f_mul L (samples ! Suc (2 * n)) (volume n)))] =
     mixed_frames L volume samples (Suc n) out"
    using assms(1) by (intro nth_equalityI) (auto simp: mixed_frames_def nth_list_update less_Suc_eq)
  finally show ?thesis .
qed

lemma add_frames:
  assumes "n \<le> length out" "2 * n \<le> length samples"
  shows "for_each (add_frame L samples v) [0..<n] out = Some (mixed_frames L (\<lambda>_. v) samples n out)"
  using assms
proof (induction n)
  case (Suc n)
  then show ?case using add_frame_mixed [of n out samples L "\<lambda>_. v"] by (simp add: for_each_append)
qed simp

lemma add_faded_frames:
  assumes "n \<le> length out" "2 * n \<le> length samples"
  shows "for_each (\<lambda>i (s, out).
            let s = fade_step L s
            in map_option (Pair s) (add_frame L samples (faded_volume E vol s) i out)) [0..<n] (s, out) =
    Some ((fade_step L ^^ n) s, mixed_frames L (\<lambda>i. faded_volume E vol ((fade_step L ^^ Suc i) s)) samples n out)"
  using assms
proof (induction n)
  case (Suc n)
  then show ?case
    using add_frame_mixed [of n out samples L "\<lambda>i. faded_volume E vol ((fade_step L ^^ Suc i) s)"]
    by (simp add: for_each_append Let_def)
qed simp

text \<open>The volume of the frame \<open>i\<close>, and the stream after \<open>n\<close> frames.\<close>

definition volume_at :: "env \<Rightarrow> ('f, 's) audio_lib \<Rightarrow> u64 \<Rightarrow> ('f, 's) AudioStream \<Rightarrow> nat \<Rightarrow> u32" where
  "volume_at E L vol s i =
     (if as_fade_frames s > 0 then faded_volume E vol ((fade_step L ^^ Suc i) s) else plain_volume E vol s)"

definition after_frames :: "('f, 's) audio_lib \<Rightarrow> ('f, 's) AudioStream \<Rightarrow> nat \<Rightarrow> ('f, 's) AudioStream" where
  "after_frames L s n = (if as_fade_frames s > 0 then (fade_step L ^^ n) s else s)"

lemma mix_stream_eq:
  assumes "n \<le> length out" "2 * n \<le> length samples"
  shows "mix_stream E L vol samples n s out =
    Some (after_frames L s n, mixed_frames L (volume_at E L vol s) samples n out)"
proof -
  have "volume_at E L vol s = (if as_fade_frames s > 0
      then (\<lambda>i. faded_volume E vol ((fade_step L ^^ Suc i) s)) else (\<lambda>_. plain_volume E vol s))"
    by (auto simp: volume_at_def simp del: funpow.simps)
  then show ?thesis
    by (simp only: mix_stream_def after_frames_def add_frames [OF assms] add_faded_frames [OF assms]
        option.map split: if_split) simp
qed

lemma mixed_frames_take: "mixed_frames L v (take (2 * n) samples) n out = mixed_frames L v samples n out"
  by (auto simp: mixed_frames_def)

lemma fade_step_keeps [simp]:
  "as_ring (fade_step L s) = as_ring s" "as_listed (fade_step L s) = as_listed s"
  "as_looping (fade_step L s) = as_looping s" "as_loop_count (fade_step L s) = as_loop_count s"
  "as_playing (fade_step L s) = as_playing s"
  by (simp_all add: fade_step_def Let_def)

lemma after_frames_keeps [simp]:
  "as_ring (after_frames L s n) = as_ring s" "as_listed (after_frames L s n) = as_listed s"
  "as_looping (after_frames L s n) = as_looping s" "as_loop_count (after_frames L s n) = as_loop_count s"
  "as_playing (after_frames L s n) = as_playing s"
proof -
  have "as_ring ((fade_step L ^^ n) s) = as_ring s \<and> as_listed ((fade_step L ^^ n) s) = as_listed s \<and>
      as_looping ((fade_step L ^^ n) s) = as_looping s \<and> as_loop_count ((fade_step L ^^ n) s) = as_loop_count s \<and>
      as_playing ((fade_step L ^^ n) s) = as_playing s"
    by (induction n) simp_all
  then show "as_ring (after_frames L s n) = as_ring s" "as_listed (after_frames L s n) = as_listed s"
    "as_looping (after_frames L s n) = as_looping s" "as_loop_count (after_frames L s n) = as_loop_count s"
    "as_playing (after_frames L s n) = as_playing s"
    by (simp_all add: after_frames_def)
qed

text \<open>A ring that holds whole frames.\<close>

definition frames_ok :: "ring \<Rightarrow> bool" where
  "frames_ok r \<longleftrightarrow> ring_ok r \<and> even (rg_used r) \<and> even (buffer_size r)"

lemma process_audio_file_frames:
  assumes "frames_ok (as_ring s)" "length out = 2880" "as_listed s" "sample_size \<le> 5760"
  shows "\<exists>m. process_audio_file E L vol sample_size s out = Some m \<and>
    (let queue = queued (as_ring s); n = min (length queue div 2) (min sample_size 2880);
         finished = (as_end (after_frames L s n) \<and> n < sample_size)
     in mx_read m = n \<and> mx_output m = mixed_frames L (volume_at E L vol s) queue n out \<and>
       frames_ok (as_ring (mx_stream m)) \<and>
       (\<not> mx_ended m \<longrightarrow> queued (as_ring (mx_stream m)) = drop (2 * n) queue) \<and>
       mx_looped m = (finished \<and> (as_looping s \<or> as_loop_count s > 0)) \<and>
       mx_ended m = (finished \<and> \<not> (as_looping s \<or> as_loop_count s > 0)) \<and>
       as_listed (mx_stream m) = (\<not> mx_ended m) \<and>
       (\<not> finished \<longrightarrow> mx_stream m = (after_frames L s n) \<lparr> as_ring := as_ring (mx_stream m) \<rparr>))"
proof -
  let ?q = "queued (as_ring s)" and ?avail = "rg_used (as_ring s) div 2"
  let ?ask = "if ?avail < sample_size then ?avail else sample_size"
  define n where "n = min (length ?q div 2) (min sample_size 2880)"
  have "?ask = min ?avail sample_size" by simp
  then have asked: "min (?ask * 2) 5760 = 2 * n" "?ask = 0 \<Longrightarrow> n = 0"
    by (simp_all only: n_def length_queued) linarith+
  have room: "2 * n \<le> length ?q" "n \<le> 2880" "even (rg_used (as_ring s))"
    using assms(1) by (simp_all add: n_def frames_ok_def)
  obtain r where r: "ring_read (2 * n) (as_ring s) = Some (take (2 * n) ?q, r)" "ring_ok r"
    "buffer_size r = buffer_size (as_ring s)" "queued r = drop (2 * n) ?q"
    using ring_read_queued [of "as_ring s" "2 * n"] assms(1) by (auto simp: frames_ok_def)
  have "rg_used r = rg_used (as_ring s) - 2 * n" using arg_cong [OF r(4), of length] by simp
  then have r_ok: "frames_ok r" using r assms(1) room by (auto simp: frames_ok_def)
  let ?s = "s \<lparr> as_ring := r \<rparr>"
  have got: "(if ?ask > 0 then do {
             (got, r) \<leftarrow> ring_read (min (?ask * 2) 5760) (as_ring s);
             Some (got, s \<lparr> as_ring := r \<rparr>)
           } else Some ([], s)) = Some (take (2 * n) ?q, ?s)"
  proof (cases "?ask > 0")
    case True
    then show ?thesis using r(1) by (simp only: asked(1) if_True Option.bind.simps prod.case)
  next
    case False
    then have "n = 0" by (intro asked(2)) simp
    with r False show ?thesis by (auto simp: ring_read_def Let_def)
  qed
  have frames: "length (take (2 * n) ?q) div 2 = n" using room(1) by (simp only: length_take min_absorb2)
  have after: "after_frames L ?s k = (after_frames L s k) \<lparr> as_ring := r \<rparr>" for k
  proof -
    have "fade_step L (t \<lparr> as_ring := r \<rparr>) = (fade_step L t) \<lparr> as_ring := r \<rparr>" for t
      by (simp add: fade_step_def Let_def)
    then have "(fade_step L ^^ k) ?s = ((fade_step L ^^ k) s) \<lparr> as_ring := r \<rparr>" by (induction k) simp_all
    then show ?thesis by (simp add: after_frames_def)
  qed
  have volumes: "volume_at E L vol ?s = volume_at E L vol s"
    using after by (auto simp: volume_at_def after_frames_def faded_volume_def plain_volume_def fun_eq_iff
        simp del: funpow.simps)
  have mix: "mix_stream E L vol (take (2 * n) ?q) n ?s out =
      Some ((after_frames L s n) \<lparr> as_ring := r \<rparr>, mixed_frames L (volume_at E L vol s) ?q n out)"
    using mix_stream_eq [of n out "take (2 * n) ?q" E L vol ?s] assms(2) room
    by (simp add: after volumes mixed_frames_take)
  let ?after = "(after_frames L s n) \<lparr> as_ring := r \<rparr>" and ?out = "mixed_frames L (volume_at E L vol s) ?q n out"
  obtain looped s' where e: "handle_audio_stream_end L ?after = (looped, s')" by fastforce
  have ended: "looped = (as_looping s \<or> as_loop_count s > 0)" "as_listed s' = looped"
    "looped \<Longrightarrow> as_ring s' = r" "frames_ok (as_ring s')"
    using e r_ok assms(1,3) after_frames_keeps [of L s n]
    by (auto simp: handle_audio_stream_end_def Let_def unreferenced_def audiostream_reset_playback_state_def
        frames_ok_def ring_ok_def split: if_splits)
  have run: "process_audio_file E L vol sample_size s out = Some
     (if as_end (after_frames L s n) \<and> n < sample_size
      then \<lparr> mx_stream = s', mx_output = ?out, mx_read = n, mx_looped = looped, mx_ended = \<not> looped \<rparr>
      else \<lparr> mx_stream = ?after, mx_output = ?out, mx_read = n, mx_looped = False, mx_ended = False \<rparr>)"
    using assms(3,4) got frames mix e
    by (simp only: process_audio_file_def ring_count_def Let_def Option.bind.simps prod.case simp_thms
        if_False not_less AudioStream.simps if_distrib [of Some]) simp
  have folded: "min (length (queued (as_ring s)) div 2) (min sample_size 2880) = n" by (simp only: n_def)
  show ?thesis
  proof (cases "as_end (after_frames L s n) \<and> n < sample_size")
    case True
    with ended r(4) show ?thesis by (simp add: run folded Let_def del: length_queued)
  next
    case False
    with r_ok r(4) assms(3) show ?thesis by (auto simp add: run folded Let_def simp del: length_queued)
  qed
qed

text \<open>
  C23. Mixing a stream is defined whatever the requested number of frames: it takes as many whole frames
  from the front of the ring as are there, at most those requested and those that fit in the output, adds
  them with the volume of the stream at that frame, fades included, to the first frames of the output
  and changes no other; what stays in the ring is the rest, again whole frames. The stream ends when it
  is at its end, fewer frames than requested are left and no repetition is due, and then it has left
  the list.
\<close>

theorem mix_takes_frames:
  assumes "frames_ok (as_ring s)" "length out = 2880" "as_listed s" "sample_size \<le> 5760"
  shows "\<exists>m. process_audio_file E L vol sample_size s out = Some m \<and>
    (let queue = queued (as_ring s); n = min (length queue div 2) (min sample_size 2880);
         finished = (as_end (after_frames L s n) \<and> n < sample_size)
     in mx_read m = n \<and> mx_output m = mixed_frames L (volume_at E L vol s) queue n out \<and>
       frames_ok (as_ring (mx_stream m)) \<and>
       (\<not> mx_ended m \<longrightarrow> queued (as_ring (mx_stream m)) = drop (2 * n) queue) \<and>
       mx_looped m = (finished \<and> (as_looping s \<or> as_loop_count s > 0)) \<and>
       mx_ended m = (finished \<and> \<not> (as_looping s \<or> as_loop_count s > 0)) \<and>
       as_listed (mx_stream m) = (\<not> mx_ended m) \<and>
       (\<not> finished \<longrightarrow> mx_stream m = (after_frames L s n) \<lparr> as_ring := as_ring (mx_stream m) \<rparr>))"
  by (rule process_audio_file_frames [OF assms])

section \<open>Reading ahead\<close>

text \<open>
  What the libraries document, for a file of \<open>chans\<close> channels and a ratio of rates: libsndfile stores
  no more frames than asked for, libsamplerate generates no more than there is room for, and the
  frames counted with doubles are counts; the ratio 1 leaves a count as it is.
\<close>

definition library_ok :: "env \<Rightarrow> ('f, 's) audio_lib \<Rightarrow> nat \<Rightarrow> u64 \<Rightarrow> bool" where
  "library_ok E L chans ratio \<longleftrightarrow>
     (\<forall>f n k xs f'. sf_read L f n = (k, xs, f') \<longrightarrow> k \<le> max n 0 \<and> length xs = nat k * chans) \<and>
     (\<forall>s xs n m b k ys s'. src_process L s xs n m ratio b = (Some (k, ys), s') \<longrightarrow>
        0 \<le> k \<and> k \<le> m \<and> length ys = 2 * nat k) \<and>
     (\<forall>n \<le> 24000. \<exists>m. int_of_d E (d_div E (d_of_int L (int n)) ratio) = Some m \<and> 0 \<le> m \<and> m < 2 ^ 40) \<and>
     (\<forall>n < 2 ^ 40. \<exists>m. resampled_size E L n ratio = Some m \<and> 0 \<le> m \<and> (ratio = d_one \<longrightarrow> m = int n))"

lemma library_okD:
  assumes "library_ok E L chans ratio"
  shows "sf_read L f n = (k, xs, f') \<Longrightarrow> k \<le> max n 0 \<and> length xs = nat k * chans"
    "src_process L s ys m r ratio b = (Some (j, zs), s') \<Longrightarrow> 0 \<le> j \<and> j \<le> r \<and> length zs = 2 * nat j"
    "i \<le> 24000 \<Longrightarrow> \<exists>m. int_of_d E (d_div E (d_of_int L (int i)) ratio) = Some m \<and> 0 \<le> m \<and> m < 2 ^ 40"
    "l < 2 ^ 40 \<Longrightarrow> \<exists>m. resampled_size E L l ratio = Some m \<and> 0 \<le> m \<and> (ratio = d_one \<longrightarrow> m = int l)"
  using assms unfolding library_ok_def by blast+

lemma poke_short: "length xs \<le> length b \<Longrightarrow> poke b 0 xs = Some (xs @ drop (length xs) b)"
  by (simp add: poke_def)

lemma resample_frames:
  assumes "library_ok E L chans ratio" "2 * n \<le> length samples" "resampled_size E L n ratio = Some m"
    "0 \<le> m" "ratio = d_one \<longrightarrow> m = int n"
  shows "\<exists>out k src'. resample_audio M L src samples n (nat m) ratio b = Some (out, k, src') \<and>
    (\<forall>o'. out = Some o' \<longrightarrow> 0 \<le> k \<and> 2 * nat k \<le> length o')"
proof (cases "ratio = d_one")
  case True
  then show ?thesis
    using assms(2,5) by (auto simp: resample_audio_def floats_def mem_simps poke_short mult.commute)
next
  case False
  obtain r src1 where p: "src_process L src (take (n * 2) samples) (int n) m ratio b = (r, src1)" by fastforce
  show ?thesis
  proof (cases r)
    case None
    with False p assms show ?thesis
      by (simp add: resample_audio_def floats_def mem_simps mult.commute)
  next
    case (Some kz)
    obtain k zs where r: "r = Some (k, zs)" using Some by (cases kz) blast
    have k: "0 \<le> k" "k \<le> m" "length zs = 2 * nat k" using library_okD(2) [OF assms(1)] p r by blast+
    then have room: "length zs \<le> 2 * nat m" by simp
    obtain failed src2 where reset: "src_reset L src1 = (failed, src2)" by fastforce
    show ?thesis
      using False p r k room assms(2,4) reset
      by (simp add: resample_audio_def floats_def mem_simps poke_short mult.commute)
  qed
qed

lemma poke_Some_length: "length xs \<le> length b \<Longrightarrow> \<exists>b'. poke b 0 xs = Some b' \<and> length b' = length b"
  by (simp add: poke_def)

lemma process_audio_frames:
  fixes s :: "('f, 's) AudioStream"
  assumes lib: "library_ok E L (nat chans) (resample_ratio E L (sf_samplerate (as_info s)))"
    and chans: "sf_channels (as_info s) = chans" "chans \<ge> 1" and space: "space div 8 \<le> 24000"
  shows "\<exists>rc out n eof f src. process_audio E M L space s =
      Some (rc, out, n, eof, s \<lparr> as_file := f, as_src := src \<rparr>) \<and>
    (\<forall>o'. out = Some o' \<and> rc = 0 \<longrightarrow> 2 * n \<le> length o')"
proof -
  let ?ratio = "resample_ratio E L (sf_samplerate (as_info s))"
  obtain m where m: "int_of_d E (d_div E (d_of_int L (int (space div 8))) ?ratio) = Some m" "0 \<le> m" "m < 2 ^ 40"
    using library_okD(3) [OF lib space] by blast
  obtain k xs f where read: "sf_read L (as_file s) m = (k, xs, f)" using prod_cases3 by blast
  have k: "k \<le> m" "length xs = nat k * nat chans" using library_okD(1) [OF lib read] m(2) by auto
  have size: "nat (m * chans) = nat m * nat chans" using m(2) by (simp add: nat_mult_distrib)
  have fits: "length xs \<le> nat (m * chans)" unfolding size k(2) using k(1) by (intro mult_le_mono1 nat_mono)
  obtain block where block: "poke (replicate (nat (m * chans)) 0) 0 xs = Some block" "length block = nat (m * chans)"
    using poke_Some_length [of xs "replicate (nat (m * chans)) 0"] fits by auto
  let ?self = "s \<lparr> as_file := as_file s, as_src := as_src s \<rparr>" and ?read = "s \<lparr> as_file := f, as_src := as_src s \<rparr>"
  have start: "process_audio E M L space s =
      (if \<not> can_alloc M (of_nat (nat (m * chans)) * 4) then Some (-1, None, 0, False, ?self)
       else if k \<le> 0 then Some (0, None, 0, True, ?read)
       else do {
               stereo \<leftarrow> to_stereo M L block (nat k) chans;
               (case stereo of
                  None \<Rightarrow> Some (-1, None, 0, False, ?read)
                | Some input_buffer \<Rightarrow> do {
                    size \<leftarrow> resampled_size E L (nat k) ?ratio;
                    (output, n, src) \<leftarrow> resample_audio M L (as_src s) input_buffer (nat k) (nat size) ?ratio (k < m);
                    let s = ?read \<lparr> as_src := src \<rparr>;
                    if output = None \<or> n < 0 then Some (-1, output, 0, False, s)
                    else Some (0, output, nat n, k < m, s)
                  })
             })"
    using m(1) read block(1) chans(1) by (simp add: process_audio_def floats_def Let_def)
  have whole: "\<exists>f src. s = s \<lparr> as_file := f, as_src := src \<rparr>"
    by (intro exI [of _ "as_file s"] exI [of _ "as_src s"]) simp
  show ?thesis
  proof (cases "can_alloc M (of_nat (nat (m * chans)) * 4) \<and> \<not> k \<le> 0")
    case False
    then show ?thesis using start whole by (auto intro!: exI [of _ "as_src s"] split: if_splits)
  next
    case True
    have enough: "nat k * nat chans \<le> length block" using k(1) by (simp only: block(2) size mult_le_mono1 nat_mono)
    obtain size where sz: "resampled_size E L (nat k) ?ratio = Some size" "0 \<le> size"
      "?ratio = d_one \<longrightarrow> size = int (nat k)"
    proof -
      have "nat k < 2 ^ 40" using True k(1) m(3) by (simp add: nat_less_iff)
      with library_okD(4) [OF lib] that show thesis by blast
    qed
    have two: "can_alloc M (of_nat (nat k * 2) * 4) \<or> (chans \<noteq> 2 \<and> to_stereo M L block (nat k) chans = Some None) \<or> chans = 2"
      using chans(2) by (auto simp: to_stereo_def convert_mono_to_multi_def downmix_to_stereo_def floats_def)
    have "to_stereo M L block (nat k) chans = Some None \<or>
        (\<exists>samples. to_stereo M L block (nat k) chans = Some (Some samples) \<and> nat k * 2 \<le> length samples)"
    proof (cases "chans = 2")
      case True
      then show ?thesis using enough by (simp add: to_stereo_def)
    next
      case False
      with two show ?thesis using to_stereo_frames [OF chans(2) enough] by blast
    qed
    then show ?thesis
    proof
      assume "to_stereo M L block (nat k) chans = Some None"
      with True start show ?thesis by (auto intro!: exI [of _ "as_src s"])
    next
      assume "\<exists>samples. to_stereo M L block (nat k) chans = Some (Some samples) \<and> nat k * 2 \<le> length samples"
      then obtain samples where st: "to_stereo M L block (nat k) chans = Some (Some samples)" "2 * nat k \<le> length samples"
        by auto
      obtain out j src where r: "resample_audio M L (as_src s) samples (nat k) (nat size) ?ratio (k < m) = Some (out, j, src)"
        "\<forall>o'. out = Some o' \<longrightarrow> 0 \<le> j \<and> 2 * nat j \<le> length o'"
        using resample_frames [OF lib st(2) sz] by blast
      from True start st(1) sz(1) r show ?thesis
        by (auto intro!: exI [of _ f] exI [of _ src] simp: Let_def)
    qed
  qed
qed

text \<open>
  C22. A step of the buffer thread on a stream whose ring holds whole frames, with the documented
  behaviour of libsndfile and libsamplerate and whatever allocations are refused, is defined: it only
  appends whole frames behind those already in the ring, never more than there is room for, and only
  to a stream that plays, is not at its end and has less than half a ring; nothing but the file, the
  resampler and the mark of the end changes with it.
\<close>

theorem fill_appends_frames:
  fixes s :: "('f, 's) AudioStream"
  assumes "library_ok E L (nat (sf_channels (as_info s))) (resample_ratio E L (sf_samplerate (as_info s)))"
    and "sf_channels (as_info s) \<ge> 1" "frames_ok (as_ring s)" "buffer_size (as_ring s) = 48000"
  shows "\<exists>s' frames. buffer_fill E M L s = Some s' \<and> frames_ok (as_ring s') \<and> buffer_size (as_ring s') = 48000 \<and>
    queued (as_ring s') = queued (as_ring s) @ frames \<and> even (length frames) \<and>
    s' = s \<lparr> as_file := as_file s', as_src := as_src s', as_ring := as_ring s', as_end := as_end s' \<rparr> \<and>
    (as_end s \<longrightarrow> as_end s') \<and>
    (\<not> as_playing s \<or> as_end s \<or> 24000 \<le> length (queued (as_ring s)) \<longrightarrow> s' = s)"
proof (cases "as_playing s \<and> \<not> as_end s \<and> rg_used (as_ring s) < 24000")
  case False
  then have "buffer_fill E M L s = Some s" using assms(4) by (auto simp: buffer_fill_def ring_count_def Let_def)
  with assms show ?thesis by (intro exI [of _ s] exI [of _ "[]"]) simp
next
  case True
  let ?r = "as_ring s" and ?space = "ring_space (as_ring s)"
  have space: "?space * 4 div 8 \<le> 24000" "even ?space"
    using assms(3,4) by (auto simp: ring_space_def ring_count_def frames_ok_def ring_ok_def Let_def)
  obtain rc out n eof f src where p: "process_audio E M L (?space * 4) s =
      Some (rc, out, n, eof, s \<lparr> as_file := f, as_src := src \<rparr>)"
    "\<forall>o'. out = Some o' \<and> rc = 0 \<longrightarrow> 2 * n \<le> length o'"
    using process_audio_frames [OF assms(1) refl assms(2) space(1)] by blast
  define appended where "appended = (case out of Some o' \<Rightarrow>
      if rc = 0 \<and> n > 0 then take (min (n * 2) ?space) o' else [] | None \<Rightarrow> [])"
  obtain r' where r': "frames_ok r'" "buffer_size r' = 48000" "queued r' = queued ?r @ appended"
    "(case out of Some output \<Rightarrow>
               if rc = 0 \<and> n > 0 then do {
                 (k, r) \<leftarrow> ring_write output (n * 2) (as_ring (s \<lparr> as_file := f, as_src := src \<rparr>));
                 Some (s \<lparr> as_file := f, as_src := src, as_ring := r \<rparr>)
               } else Some (s \<lparr> as_file := f, as_src := src \<rparr>)
           | None \<Rightarrow> Some (s \<lparr> as_file := f, as_src := src \<rparr>)) =
     Some (s \<lparr> as_file := f, as_src := src, as_ring := r' \<rparr>)"
    and even: "even (length appended)"
  proof (cases "\<exists>o'. out = Some o' \<and> rc = 0 \<and> n > 0")
    case True
    then obtain o' where o': "out = Some o'" "rc = 0" "n > 0" by blast
    then have len: "n * 2 \<le> length o'" using p(2) by simp
    obtain r' where w: "ring_write o' (n * 2) ?r = Some (min (n * 2) ?space, r')" "ring_ok r'"
      "buffer_size r' = buffer_size ?r" "queued r' = queued ?r @ take (min (n * 2) ?space) o'"
      using ring_write_queued [OF _ len] assms(3) by (auto simp: frames_ok_def)
    have app: "appended = take (min (n * 2) ?space) o'" using o' by (simp add: appended_def)
    moreover have "even (min (n * 2) ?space)" using space(2) by (simp add: min_def)
    ultimately have ev: "even (length appended)" using len by (simp add: min_absorb2)
    moreover have "rg_used r' = rg_used ?r + length appended" using arg_cong [OF w(4), of length] app by simp
    ultimately have "frames_ok r'" using w assms(3) by (simp add: frames_ok_def)
    then show ?thesis by (rule that) (use w o' app ev assms(4) in simp_all)
  next
    case False
    then have "appended = []" by (auto simp: appended_def split: option.splits)
    with False assms(3,4) that [of ?r] show ?thesis by (auto split: option.splits)
  qed
  let ?s = "s \<lparr> as_file := f, as_src := src, as_ring := r' \<rparr>"
  have "buffer_fill E M L s = Some (if eof then ?s \<lparr> as_end := True \<rparr> else ?s)"
    using True assms(4) p(1) r'(4)
    by (simp only: buffer_fill_def ring_count_def Let_def Option.bind.simps prod.case AudioStream.simps) simp
  then have "buffer_fill E M L s = Some (?s \<lparr> as_end := eof \<rparr>)" using True by (cases eof) simp_all
  with True r'(1,2,3) even assms(4) show ?thesis
    by (intro exI [of _ "?s \<lparr> as_end := eof \<rparr>"] exI [of _ appended] conjI) simp_all
qed

section \<open>A sample library\<close>

text \<open>A file is the list of its samples; the resampler hands on the frames there is room for.\<close>

definition sample_audio :: "(u32 list, unit) audio_lib" where
  "sample_audio =
     \<lparr> f_add = (+), f_sub = (-), f_mul = (*), f_div = (\<lambda>x y. x div y), f_of_int = of_int, d_of_int = of_int,
       d_ceil = (\<lambda>x. x), sf_open = (\<lambda>name. None), sf_seek = (\<lambda>f n w. (0, f)),
       sf_read = (\<lambda>f n. let k = min (length f) (nat n) in (int k, take k f, drop k f)),
       sf_string = (\<lambda>f s. None), src_new = (\<lambda>q. Some ()),
       src_process = (\<lambda>s xs n m ratio b.
          if m < 0 then (None, ())
          else let k = min (length xs div 2) (nat m) in (Some (int k, take (2 * k) xs), ())),
       src_reset = (\<lambda>s. (False, ())) \<rparr>"

definition sample_stream :: "u32 list \<Rightarrow> u32 list \<Rightarrow> (u32 list, unit) AudioStream" where
  "sample_stream file samples =
     \<lparr> as_file = file, as_info = \<lparr> sf_frames = int (length file), sf_samplerate = 48000, sf_channels = 1,
         sf_format = 0, sf_sections = 1, sf_seekable = 1 \<rparr>,
       as_src = (), as_playing = True, as_end = False, as_volume = 1, as_loop_count = 0, as_looping = False,
       as_fade_stop = False, as_fade_frames = 0, as_fade_frames_left = 0, as_fade_volume = 1,
       as_fade_from_volume = 1, as_fade_to_volume = 1,
       as_ring = \<lparr> rg_buffer = samples @ replicate (48000 - length samples) 0, rg_used = length samples,
         rg_head = length samples mod 48000, rg_tail = 0 \<rparr>,
       as_listed = True \<rparr>"

lemma sample_stream_ok:
  assumes "even (length samples)" "length samples \<le> 48000"
  shows "frames_ok (as_ring (sample_stream file samples))" "buffer_size (as_ring (sample_stream file samples)) = 48000"
    "queued (as_ring (sample_stream file samples)) = samples"
  using assms by (auto simp: frames_ok_def ring_ok_def sample_stream_def queued_def nth_append intro!: nth_equalityI)

lemma sample_library_ok:
  "library_ok sample_env sample_audio 1 (resample_ratio sample_env sample_audio 48000)"
proof -
  have small: "uint (word_of_nat n :: u64) = int n" if "n < 2 ^ 40" for n
    using that by (simp add: uint_nat unat_of_nat)
  have ratio: "resample_ratio sample_env sample_audio 48000 = 1"
    by (simp add: resample_ratio_def sample_env_def sample_audio_def)
  show ?thesis
    unfolding library_ok_def ratio resampled_size_def
    by (intro conjI) (auto simp: sample_env_def sample_audio_def small Let_def split: if_splits)
qed

theorem stereo_conversion_witness:
  "\<exists>out. to_stereo mem0 sample_audio [1, 2, 3, 4, 5, 6] 2 3 = Some (Some out) \<and>
     stereo_of sample_audio 3 [1, 2, 3, 4, 5, 6] 1 = (out ! 2, out ! 3)"
proof -
  obtain out where out: "to_stereo mem0 sample_audio [1, 2, 3, 4, 5, 6] 2 3 = Some (Some out)"
    "\<And>i. i < 2 \<Longrightarrow> (out ! (2 * i), out ! (2 * i + 1)) = stereo_of sample_audio 3 [1, 2, 3, 4, 5, 6] i"
    using stereo_conversion [of 3 2 "[1, 2, 3, 4, 5, 6]" mem0 sample_audio] by (auto simp: mem0_def)
  from out(1) out(2) [of 1] show ?thesis by (intro exI [of _ out]) simp
qed

theorem mix_takes_frames_witness:
  "\<exists>m. process_audio_file sample_env sample_audio 1 960 (sample_stream [] [1, 2, 3, 4]) (replicate 2880 (0, 0)) = Some m \<and>
     mx_read m = 2 \<and> frames_ok (as_ring (mx_stream m))"
  using mix_takes_frames [of "sample_stream [] [1, 2, 3, 4]" "replicate 2880 (0, 0)" 960 sample_env sample_audio 1]
    sample_stream_ok [of "[1, 2, 3, 4]" "[]"]
  by (auto simp: Let_def sample_stream_def)

theorem fill_appends_frames_witness:
  "\<exists>s' frames. buffer_fill sample_env mem0 sample_audio (sample_stream [5, 6, 7] [1, 2]) = Some s' \<and>
     queued (as_ring s') = [1, 2] @ frames \<and> even (length frames)"
  using fill_appends_frames [of sample_env sample_audio "sample_stream [5, 6, 7] [1, 2]" mem0]
    sample_stream_ok [of "[1, 2]" "[5, 6, 7]"] sample_library_ok
  by (auto simp: sample_stream_def)

end
