(* ===== verification/Pipes.thy ===== *)
theory Pipes
  imports Mixing
begin

text \<open>
  Pipes: buffers the script writes samples into and the main thread mixes into \<open>audio_output\<close>
  (\<open>createAudioBuffer\<close> of \<open>mumble/client.c\<close>, the loop over \<open>audio_pipes\<close> in \<open>audio_encode_event\<close> of
  \<open>mumble/audio.c\<close>).
\<close>

section \<open>Operations\<close>

record 's AudioContext =
  cx_samplerate :: int
  cx_src :: 's
  cx_channels :: int
  cx_playing :: bool

record 's pipe =
  pp_buffer :: ByteBuffer
  pp_context :: "'s AudioContext option"

text \<open>\<open>createAudioBuffer\<close>: the errors name no cause here, where the code appends \<open>strerror\<close>.\<close>

definition client_createAudioBuffer ::
  "mem_env \<Rightarrow> ('f, 's) audio_lib \<Rightarrow> lval list \<Rightarrow> 's pipe lua_result" where
  "client_createAudioBuffer M L args =
     bind_result (opt_integer args 2 48000) (\<lambda>samplerate.
     bind_result (opt_integer args 3 2) (\<lambda>chans.
       case buffer_init M (5760 * 4) of (ok, b) \<Rightarrow>
       if \<not> ok then Inl (LuaError ''error creating buffer: '')
       else if \<not> can_alloc M 32 then Inl (LuaError ''error creating buffer context: '')
       else (case src_new L ''fastest'' of
           None \<Rightarrow> Inl (LuaError ''error creating resampler state: '')
         | Some src \<Rightarrow> Inr \<lparr> pp_buffer = b, pp_context = Some
             \<lparr> cx_samplerate = sint (of_int samplerate :: u32), cx_src = src,
               cx_channels = sint (of_int chans :: u32), cx_playing = True \<rparr> \<rparr>)))"

text \<open>
  The body of the loop over the pipes in \<open>audio_encode_event\<close>: the samples of a pipe are read from
  the buffer into a block whose size in bytes is computed in \<open>size_t\<close>.
\<close>

definition pipe_samples ::
  "env \<Rightarrow> u64 \<Rightarrow> int \<Rightarrow> nat \<Rightarrow> u32 list \<Rightarrow> ByteBuffer \<Rightarrow> (u32 list \<times> ByteBuffer) option" where
  "pipe_samples E vol chans frames block b =
     for_each (\<lambda>i. for_each (\<lambda>j (block, b). do {
         (n, sample, b) \<leftarrow> buffer_readFloat b;
         x \<leftarrow> sample;
         block \<leftarrow> poke block (i * nat chans + j) [float_of_d E (d_mul E (d_of_float E x) vol)];
         Some (block, b)
       }) [0..<nat chans]) [0..<frames] (block, b)"

definition pipe_block_bytes :: "u32 \<Rightarrow> int \<Rightarrow> int \<Rightarrow> u64" where
  "pipe_block_bytes frames samplerate chans =
     4 * ucast frames * of_int samplerate div 1000 * of_int chans"

text \<open>
  \<open>length / sizeof(float) / context->channels\<close> divides by the channels, converted to \<open>size_t\<close>; the
  smaller of two counts is chosen by an unsigned comparison.
\<close>

definition pipe_frames :: "env \<Rightarrow> ('f, 's) audio_lib \<Rightarrow> u32 \<Rightarrow> int \<Rightarrow> int \<Rightarrow> u64 \<Rightarrow> int option" where
  "pipe_frames E L frames samplerate chans len = do {
     input_frame_size \<leftarrow> int_of_d E (d_div E
       (d_of_float E (f_mul L (f_of_int L (uint frames)) (f_of_int L samplerate))) (d_of_int L 1000));
     if (of_int chans :: u64) = 0 then None
     else let actual = len div 4 div of_int chans
       in Some (sint (if actual < of_int input_frame_size then actual else of_int input_frame_size))
   }"

definition mix_pipe ::
  "('f, 's) audio_lib \<Rightarrow> u32 list \<Rightarrow> nat \<Rightarrow> frame list \<Rightarrow> frame list option" where
  "mix_pipe L resampled_audio n audio_output =
     for_each (\<lambda>i audio_output. do {
         (l, r) \<leftarrow> peek audio_output i;
         x \<leftarrow> peek resampled_audio (i * 2);
         y \<leftarrow> peek resampled_audio (i * 2 + 1);
         poke audio_output i [(f_add L l x, f_add L r y)]
       }) [0..<n] audio_output"

text \<open>The result: the frames of the pipe, the pipe and the output.\<close>

definition play_pipe ::
  "env \<Rightarrow> mem_env \<Rightarrow> ('f, 's) audio_lib \<Rightarrow> u64 \<Rightarrow> u32 \<Rightarrow> 's pipe \<Rightarrow> frame list \<Rightarrow>
   (int \<times> 's pipe \<times> frame list) option" where
  "play_pipe E M L vol frames p audio_output =
     (case pp_context p of
        None \<Rightarrow> Some (0, p, audio_output)
      | Some cx \<Rightarrow>
          let b = buffer_flip (pp_buffer p);
              len = buffer_length b
          in if len = 0 then
               Some (0, p \<lparr> pp_buffer := b, pp_context := Some (cx \<lparr> cx_src := snd (src_reset L (cx_src cx)) \<rparr>) \<rparr>,
                     audio_output)
             else let bytes = pipe_block_bytes frames (cx_samplerate cx) (cx_channels cx)
             in if \<not> can_alloc M bytes then Some (0, p \<lparr> pp_buffer := b \<rparr>, audio_output)
             else do {
               input_frames \<leftarrow> pipe_frames E L frames (cx_samplerate cx) (cx_channels cx) len;
               let ratio = resample_ratio E L (cx_samplerate cx);
               (block, b) \<leftarrow> pipe_samples E vol (cx_channels cx) (nat input_frames)
                  (replicate (unat bytes div 4) 0) b;
               stereo \<leftarrow> to_stereo M L block (nat input_frames) (cx_channels cx);
               (case stereo of
                  None \<Rightarrow> Some (0, p \<lparr> pp_buffer := b \<rparr>, audio_output)
                | Some input_buffer \<Rightarrow> do {
                    size \<leftarrow> resampled_size E L (nat input_frames) ratio;
                    (resampled, n, src) \<leftarrow> resample_audio M L (cx_src cx) input_buffer (nat input_frames)
                       (nat size) ratio False;
                    audio_output \<leftarrow> (case resampled of
                        Some block \<Rightarrow> if n > 0 then mix_pipe L block (nat n) audio_output else Some audio_output
                      | None \<Rightarrow> Some audio_output);
                    b \<leftarrow> buffer_pack b;
                    Some (n, p \<lparr> pp_buffer := b, pp_context := Some (cx \<lparr> cx_src := src \<rparr>) \<rparr>, audio_output)
                  })
             })"

section \<open>The samples of a pipe\<close>

lemma for_each_Suc: "for_each f [0..<Suc n] a = Option.bind (for_each f [0..<n] a) (f n)"
  by (cases "for_each f [0..<n] a") (simp_all add: for_each_append split: bind_splits)

definition float_at :: "u8 list \<Rightarrow> nat \<Rightarrow> u32" where
  "float_at bytes i = from_le (take 4 (drop (4 * i) bytes))"

text \<open>The first \<open>n\<close> samples of a pipe, at the volume of the client.\<close>

definition scaled_samples :: "env \<Rightarrow> u64 \<Rightarrow> u8 list \<Rightarrow> nat \<Rightarrow> u32 list" where
  "scaled_samples E vol bytes n =
     map (\<lambda>i. float_of_d E (d_mul E (d_of_float E (float_at bytes i)) vol)) [0..<n]"

lemma length_scaled_samples [simp]: "length (scaled_samples E vol bytes n) = n"
  by (simp add: scaled_samples_def)

lemma readFloat_at:
  assumes "buf_ok b" "4 * i + 4 \<le> length (unread b)"
  shows "buffer_readFloat (advance b (4 * i)) = Some (4, Some (float_at (unread b) i), advance b (4 * Suc i))"
proof -
  have ok: "buf_ok (advance b (4 * i))" "unread (advance b (4 * i)) = drop (4 * i) (unread b)"
    using advance_unread [OF assms(1), of "4 * i"] assms(2) by simp_all
  have four: "unat (4 :: u64) = 4" by simp
  have next_head: "(advance b (4 * i)) \<lparr> read_head := read_head (advance b (4 * i)) + 4 \<rparr> = advance b (4 * Suc i)"
    by (simp add: advance_def algebra_simps)
  have "buffer_read 4 (advance b (4 * i)) =
      Some (4, take 4 (drop (4 * i) (unread b)), advance b (4 * Suc i))"
    using buffer_read_enough [OF ok(1), of 4] ok(2) assms(2)
    unfolding four next_head by simp
  then show ?thesis by (simp add: buffer_readFloat_def float_at_def)
qed

lemma read_samples:
  assumes "buf_ok b" "4 * (k + m) \<le> length (unread b)" "k + m \<le> length block"
  shows "for_each (\<lambda>j (block, b). do {
         (n, sample, b) \<leftarrow> buffer_readFloat b;
         x \<leftarrow> sample;
         block \<leftarrow> poke block (k + j) [float_of_d E (d_mul E (d_of_float E x) vol)];
         Some (block, b)
       }) [0..<m] (scaled_samples E vol (unread b) k @ drop k block, advance b (4 * k)) =
    Some (scaled_samples E vol (unread b) (k + m) @ drop (k + m) block, advance b (4 * (k + m)))"
  using assms(2,3)
proof (induction m)
  case (Suc m)
  have read: "buffer_readFloat (advance b (4 * (k + m))) =
      Some (4, Some (float_at (unread b) (k + m)), advance b (4 * Suc (k + m)))"
    using Suc.prems by (intro readFloat_at [OF assms(1)]) simp
  have "poke (scaled_samples E vol (unread b) (k + m) @ drop (k + m) block) (k + m) [y] =
      Some (scaled_samples E vol (unread b) (k + m) @ y # drop (Suc (k + m)) block)" for y
    using Suc.prems by (simp add: poke_def)
  with Suc read show ?case by (simp add: for_each_append scaled_samples_def)
qed simp

lemma pipe_samples_eq:
  assumes "buf_ok b" "chans \<ge> 1" "4 * (n * nat chans) \<le> length (unread b)" "n * nat chans \<le> length block"
  shows "pipe_samples E vol chans n block b =
    Some (scaled_samples E vol (unread b) (n * nat chans) @ drop (n * nat chans) block, advance b (4 * (n * nat chans)))"
proof -
  define c where "c = nat chans"
  have enough: "4 * (n * c) \<le> length (unread b)" "n * c \<le> length block" using assms(3,4) by (simp_all add: c_def)
  have "pipe_samples E vol chans m block b =
    Some (scaled_samples E vol (unread b) (m * c) @ drop (m * c) block, advance b (4 * (m * c)))" if "m \<le> n" for m
    using that
  proof (induction m)
    case (Suc m)
    have "m * c + c \<le> n * c" using Suc.prems by (metis Suc_leD Suc_le_eq add.commute mult_Suc mult_le_mono1)
    then have "4 * (m * c + c) \<le> 4 * (n * c)" "m * c + c \<le> n * c" by (simp_all only: mult_le_mono2)
    then have room: "4 * (m * c + c) \<le> length (unread b)" "m * c + c \<le> length block"
      using enough by (blast intro: le_trans)+
    show ?case
      using Suc read_samples [OF assms(1) room, of E vol]
      by (simp add: pipe_samples_def c_def [symmetric] for_each_append add.commute [of c])
  qed (simp add: pipe_samples_def scaled_samples_def)
  then show ?thesis by (simp add: c_def)
qed

definition added_frames :: "('f, 's) audio_lib \<Rightarrow> u32 list \<Rightarrow> nat \<Rightarrow> frame list \<Rightarrow> frame list" where
  "added_frames L samples n out = map (\<lambda>i.
     if i < n then (f_add L (fst (out ! i)) (samples ! (2 * i)), f_add L (snd (out ! i)) (samples ! Suc (2 * i)))
     else out ! i) [0..<length out]"

lemma mix_pipe_eq:
  assumes "2 * n \<le> length samples"
  shows "mix_pipe L samples n out = (if n \<le> length out then Some (added_frames L samples n out) else None)"
proof -
  let ?f = "\<lambda>i out. do {
         (l, r) \<leftarrow> peek out i;
         x \<leftarrow> peek samples (i * 2);
         y \<leftarrow> peek samples (i * 2 + 1);
         poke out i [(f_add L l x, f_add L r y)]
       }"
  have step: "?f m (added_frames L samples m out) = (if m < length out then Some (added_frames L samples (Suc m) out) else None)"
    if "m < n" for m
  proof (cases "m < length out")
    case True
    have "(added_frames L samples m out) [m := (f_add L (fst (out ! m)) (samples ! (2 * m)),
        f_add L (snd (out ! m)) (samples ! Suc (2 * m)))] = added_frames L samples (Suc m) out"
      using True by (intro nth_equalityI) (auto simp: added_frames_def nth_list_update less_Suc_eq)
    moreover obtain l r where "out ! m = (l, r)" by fastforce
    moreover have "m < length (added_frames L samples m out)" "added_frames L samples m out ! m = out ! m"
      using True by (simp_all add: added_frames_def)
    ultimately show ?thesis
      using True that assms by (simp add: mem_simps mult.commute upd_conv_take_nth_drop)
  next
    case False
    then show ?thesis by (simp add: peek_def added_frames_def)
  qed
  have "for_each ?f [0..<m] out = (if m \<le> length out then Some (added_frames L samples m out) else None)"
    if "m \<le> n" for m
    using that
  proof (induction m)
    case 0
    then show ?case by (simp add: added_frames_def map_nth)
  next
    case (Suc m)
    then have ih: "for_each ?f [0..<m] out = (if m \<le> length out then Some (added_frames L samples m out) else None)"
      by simp
    have "for_each ?f [0..<Suc m] out = Option.bind (for_each ?f [0..<m] out) (?f m)"
      by (rule for_each_Suc)
    also have "\<dots> = (if Suc m \<le> length out then Some (added_frames L samples (Suc m) out) else None)"
      unfolding ih using step [of m] Suc.prems by (simp del: upt_Suc)
    finally show ?case .
  qed
  from this [of n] show ?thesis by (simp add: mix_pipe_def)
qed

definition stereo_samples :: "('f, 's) audio_lib \<Rightarrow> int \<Rightarrow> u32 list \<Rightarrow> nat \<Rightarrow> u32 list" where
  "stereo_samples L chans samples n =
     concat (map (\<lambda>i. [fst (stereo_of L chans samples i), snd (stereo_of L chans samples i)]) [0..<n])"

lemma length_stereo_samples [simp]: "length (stereo_samples L chans samples n) = 2 * n"
  unfolding stereo_samples_def by (induction n) simp_all

lemma to_stereo_samples:
  assumes "chans \<ge> 1" "n * nat chans \<le> length samples" "can_alloc M (of_nat (n * 2) * 4)"
  shows "\<exists>out. to_stereo M L samples n chans = Some (Some out) \<and>
    slice out 0 (n * 2) = Some (stereo_samples L chans samples n)"
proof -
  obtain out where out: "to_stereo M L samples n chans = Some (Some out)" "n * 2 \<le> length out"
    "\<And>i. i < n \<Longrightarrow> (out ! (2 * i), out ! (2 * i + 1)) = stereo_of L chans samples i"
    using to_stereo_frames [OF assms] by blast
  have "take (n * 2) out = stereo_samples L chans samples n"
  proof (rule nth_equalityI)
    fix k assume k: "k < length (take (n * 2) out)"
    then have "k < 2 * n" by simp
    then have i: "k div 2 < n" by linarith
    note cells = out(3) [OF i] concat_pairs_nth [OF i, of "\<lambda>i. fst (stereo_of L chans samples i)"
        "\<lambda>i. snd (stereo_of L chans samples i)"]
    show "take (n * 2) out ! k = stereo_samples L chans samples n ! k"
    proof (cases "even k")
      case True
      with k cells show ?thesis by (simp add: stereo_samples_def prod_eq_iff)
    next
      case False
      with k cells show ?thesis by (simp add: stereo_samples_def prod_eq_iff odd_two_times_div_two_succ)
    qed
  qed (use out(2) in simp)
  with out(1,2) show ?thesis by (auto simp: slice_def)
qed

lemma to_stereo_cong:
  assumes "chans \<ge> 1" "n * nat chans \<le> length samples"
  shows "stereo_samples L chans (samples @ rest) n = stereo_samples L chans samples n"
proof -
  have "stereo_of L chans (samples @ rest) i = stereo_of L chans samples i" if "i < n" for i
  proof -
    have "i * nat chans + nat chans \<le> n * nat chans" using that by (metis Suc_le_eq add.commute mult_Suc mult_le_mono1)
    with assms(2) have le: "i * nat chans + nat chans \<le> length samples" by simp
    then have "frame_at (nat chans) (samples @ rest) i = frame_at (nat chans) samples i"
      by (simp add: frame_at_def)
    with le assms(1) show ?thesis by (auto simp: stereo_of_def nth_append Let_def)
  qed
  then show ?thesis by (auto simp: stereo_samples_def intro!: arg_cong [of _ _ concat] map_cong)
qed

lemma unat_of_int_64: "0 \<le> i \<Longrightarrow> i < 2 ^ 40 \<Longrightarrow> unat (of_int i :: u64) = nat i"
  by (cases i rule: int_cases) (simp_all add: unat_of_nat)

lemma unat_ucast_64: "unat (ucast (x :: u32) :: u64) = unat x"
  by transfer simp

lemma sint_small_64: "unat (w :: u64) < 2 ^ 40 \<Longrightarrow> sint w = int (unat w)"
proof -
  assume "unat w < 2 ^ 40"
  then have "int (unat w) < int (2 ^ 40)" by (simp only: of_nat_less_iff)
  then have "uint w < 2 ^ 63" by simp
  then have "signed_take_bit 63 (uint w) = uint w" 
    using uint_ge_0 [of w] by (intro signed_take_bit_int_eq_self) linarith+
  then show ?thesis by (simp add: sint_uint)
qed

lemma pipe_block_size:
  assumes "0 \<le> rate" "rate < 2 ^ 20" "0 \<le> chans" "chans < 2 ^ 8" "frames \<le> 60"
  shows "unat (pipe_block_bytes frames rate chans) = 4 * unat frames * nat rate div 1000 * nat chans"
proof -
  have f: "unat frames \<le> 60" using assms(5) by (simp add: word_le_nat_alt)
  have r: "nat rate \<le> 2 ^ 20" and c: "nat chans \<le> 2 ^ 8" using assms by (simp_all add: nat_le_iff)
  let ?r = "of_int rate :: u64" and ?c = "of_int chans :: u64" and ?f = "ucast frames :: u64"
  have "unat ?r = nat rate" "unat ?c = nat chans" "unat ?f = unat frames"
    using assms(1-4) by (simp_all only: unat_ucast_64) (auto intro!: unat_of_int_64)
  moreover have fr: "4 * unat frames * nat rate \<le> 240 * 2 ^ 20" using mult_mono [OF f r] by (simp add: mult.commute)
  then have d: "4 * unat frames * nat rate div 1000 \<le> 240 * 2 ^ 20" using div_le_dividend le_trans by blast
  have dc: "4 * unat frames * nat rate div 1000 * nat chans \<le> 240 * 2 ^ 20 * 2 ^ 8" using mult_mono [OF d c] by simp
  ultimately show ?thesis
    using f fr dc
    by (simp add: pipe_block_bytes_def unat_word_ariths unat_div)
qed

lemma pipe_frames_eq:
  assumes size: "int_of_d E (d_div E (d_of_float E (f_mul L (f_of_int L (uint frames)) (f_of_int L rate))) (d_of_int L 1000)) =
      Some (int m)"
    and bounds: "1 \<le> chans" "chans < 2 ^ 8" "m < 2 ^ 40"
  shows "pipe_frames E L frames rate chans len = Some (int (min (unat len div 4 div nat chans) m))"
proof -
  let ?c = "of_int chans :: u64" and ?a = "len div 4 div of_int chans"
  have c: "unat ?c = nat chans" using bounds by (intro unat_of_int_64) simp_all
  then have "?c \<noteq> 0" using bounds(1) by (metis nat_0_iff not_one_le_zero unat_eq_zero verit_comp_simplify1(3) zero_less_nat_eq int_one_le_iff_zero_less)
  have a: "unat ?a = unat len div 4 div nat chans" by (simp add: unat_div c)
  have m: "unat (of_int (int m) :: u64) = m" using bounds(3) by (simp add: unat_of_nat)
  let ?w = "if ?a < of_int (int m) then ?a else of_int (int m)"
  have w: "unat ?w = min (unat len div 4 div nat chans) m"
    using a m by (simp only: word_less_nat_alt min_def split: if_split) auto
  then have "unat ?w < 2 ^ 40" using bounds(3) by (simp only: w min_less_iff_disj) simp
  from sint_small_64 [OF this] w
  have "sint ?w = int (min (unat len div 4 div nat chans) m)" by (simp only: w)
  then show ?thesis using size \<open>?c \<noteq> 0\<close> by (simp add: pipe_frames_def Let_def)
qed

lemma added_frames_append: "2 * n \<le> length ys \<Longrightarrow> added_frames L (ys @ zs) n out = added_frames L ys n out"
  by (auto simp: added_frames_def nth_append)

lemma flip_ok: "buf_ok b \<Longrightarrow> buf_ok (buffer_flip b)"
  by (cases "buf_data b") (simp_all add: buf_ok_def buffer_flip_def)

text \<open>
  C25. A pipe with data is mixed in one event as follows, at a sampling rate other than 48000 and for any
  number of channels: of
  the bytes from the start of its buffer, as many whole frames are taken as there are, at most those of
  one packet at the rate of the pipe; they are read with the volume of the client, converted to
  stereo and resampled, and what the resampler generated is added to the output. What was not taken
  moves to the front of the buffer and waits for the next event. But nothing compares the generated
  frames with the 2880 of the output: with more of them, the code writes behind it.
\<close>

theorem pipe_mixed:
  assumes pipe: "pp_context p = Some cx" "buf_ok (pp_buffer p)"
      "unread (buffer_flip (pp_buffer p)) = bytes" "bytes \<noteq> []"
    and format: "1 \<le> cx_channels cx" "cx_channels cx < 2 ^ 8" "0 \<le> cx_samplerate cx" "cx_samplerate cx < 2 ^ 20"
    and frames: "frames \<le> 60" "packet = unat frames * nat (cx_samplerate cx) div 1000"
      "int_of_d E (d_div E (d_of_float E (f_mul L (f_of_int L (uint frames)) (f_of_int L (cx_samplerate cx))))
         (d_of_int L 1000)) = Some (int packet)"
      "taken = min (length bytes div 4 div nat (cx_channels cx)) packet"
    and memory: "\<And>n. can_alloc M n"
    and rate: "ratio = resample_ratio E L (cx_samplerate cx)" "ratio \<noteq> d_one"
      "resampled_size E L taken ratio = Some room" "0 \<le> room"
    and generated: "src_process L (cx_src cx)
        (stereo_samples L (cx_channels cx) (scaled_samples E vol bytes (taken * nat (cx_channels cx))) taken)
        (int taken) room ratio False = (Some (n, ys), src)"
      "0 \<le> n" "n \<le> room" "length ys = 2 * nat n"
  shows "if nat n \<le> length out
    then \<exists>rest. play_pipe E M L vol frames p out =
        Some (n, p \<lparr> pp_buffer := rest, pp_context := Some (cx \<lparr> cx_src := src \<rparr>) \<rparr>, added_frames L ys (nat n) out) \<and>
      buf_ok rest \<and> read_head rest = 0 \<and> unread rest = drop (4 * (taken * nat (cx_channels cx))) bytes
    else play_pipe E M L vol frames p out = None"
proof -
  let ?b = "buffer_flip (pp_buffer p)" and ?chans = "cx_channels cx" and ?rate = "cx_samplerate cx"
  define c where "c = nat ?chans"
  define bs where "bs = pipe_block_bytes frames ?rate ?chans"
  have ok: "buf_ok ?b" using pipe(2) by (rule flip_ok)
  have len: "unat (buffer_length ?b) = length bytes" "buffer_length ?b \<noteq> 0"
    using buffer_length_unread [OF ok] pipe(3,4) by auto
  have b: "unat bs = 4 * unat frames * nat ?rate div 1000 * c"
    using pipe_block_size [OF format(3,4) _ format(2) frames(1)] format(1) by (simp add: bs_def c_def)
  have "unat frames \<le> 60" "nat ?rate \<le> 2 ^ 20"
    using frames(1) format(3,4) by (simp_all add: word_le_nat_alt nat_le_iff)
  then have "unat frames * nat ?rate \<le> 60 * 2 ^ 20" by (rule mult_mono) simp_all
  then have "packet < 2 ^ 40" using frames(2) by simp
  from pipe_frames_eq [OF frames(3) format(1,2) this, of "buffer_length ?b"]
  have taken: "pipe_frames E L frames ?rate ?chans (buffer_length ?b) = Some (int taken)"
    using len(1) frames(4) by simp
  have "taken * c \<le> length bytes div 4"
    using frames(4) by (simp add: c_def min_def) (meson div_times_less_eq_dividend le_trans mult_le_mono1 nat_le_linear)
  then have enough: "4 * (taken * c) \<le> length bytes" by linarith
  have "4 * (x div 1000) \<le> 4 * x div 1000" for x :: nat by linarith
  from this [of "unat frames * nat ?rate"] have "4 * packet \<le> 4 * unat frames * nat ?rate div 1000"
    by (simp only: frames(2) mult.assoc)
  moreover have "4 * taken \<le> 4 * packet" by (simp add: frames(4))
  ultimately have "4 * taken * c \<le> unat bs" unfolding b by (meson le_trans mult_le_mono1)
  then have fits: "taken * c \<le> unat bs div 4" by simp
  have samples: "pipe_samples E vol ?chans taken (replicate (unat bs div 4) 0) ?b =
      Some (scaled_samples E vol bytes (taken * c) @ drop (taken * c) (replicate (unat bs div 4) 0),
            advance ?b (4 * (taken * c)))"
    using pipe_samples_eq [OF ok format(1), of taken "replicate (unat bs div 4) 0" E vol] enough fits pipe(3)
    by (simp add: c_def)
  let ?block = "scaled_samples E vol bytes (taken * c) @ drop (taken * c) (replicate (unat bs div 4) 0)"
    and ?stereo = "stereo_samples L ?chans (scaled_samples E vol bytes (taken * c)) taken"
  have same: "stereo_samples L ?chans ?block taken = ?stereo"
    by (rule to_stereo_cong [OF format(1)]) (simp add: c_def)
  have "taken * nat ?chans \<le> length ?block" by (simp add: c_def)
  from to_stereo_samples [OF format(1) this memory, of L] obtain st
    where st: "to_stereo M L ?block taken ?chans = Some (Some st)" "slice st 0 (taken * 2) = Some ?stereo"
    unfolding same by blast
  have "length ys \<le> 2 * nat room" using generated(2,3,4) by simp
  then have resampled: "resample_audio M L (cx_src cx) st taken (nat room) ratio False =
      Some (Some (ys @ drop (length ys) (replicate (nat room * 2) 0)), n, src)"
    using memory rate(2,4) st(2) generated(1) by (simp add: resample_audio_def floats_def poke_short c_def)
  have adv: "buf_ok (advance ?b (4 * (taken * c)))" "unread (advance ?b (4 * (taken * c))) = drop (4 * (taken * c)) bytes"
    using advance_unread [OF ok, of "4 * (taken * c)"] enough pipe(3) by simp_all
  obtain rest where rest: "buffer_pack (advance ?b (4 * (taken * c))) = Some rest" "buf_ok rest" "read_head rest = 0"
    "unread rest = drop (4 * (taken * c)) bytes"
    using buffer_pack_keeps [OF adv(1)] adv(2) by auto
  let ?res = "ys @ drop (length ys) (replicate (nat room * 2) 0)"
  have mix: "(if n > 0 then mix_pipe L ?res (nat n) out else Some out) =
      (if nat n \<le> length out then Some (added_frames L ys (nat n) out) else None)"
  proof (cases "n > 0")
    case True
    then show ?thesis using generated(4) by (simp add: mix_pipe_eq added_frames_append)
  next
    case False
    with generated(2) show ?thesis by (simp add: added_frames_def map_nth)
  qed
  have run: "play_pipe E M L vol frames p out =
     Option.bind (if n > 0 then mix_pipe L ?res (nat n) out else Some out) (\<lambda>out. do {
       b \<leftarrow> buffer_pack (advance ?b (4 * (taken * c)));
       Some (n, p \<lparr> pp_buffer := b, pp_context := Some (cx \<lparr> cx_src := src \<rparr>) \<rparr>, out)
     })"
    using pipe(1) len(2) memory taken samples st(1) rate(1,3) resampled
    by (simp add: play_pipe_def Let_def bs_def [symmetric])
  show ?thesis
    unfolding run mix using rest by (auto intro!: exI [of _ rest] simp: c_def)
qed

text \<open>
  The witness: 60 milliseconds at 44100 Hz are 2646 frames, which are 2880 of the output; but the
  quotient of the rates is rounded, here upwards by an arithmetic with 20 fractional bits as it is by
  that of doubles, and there is room for 2881.
\<close>

definition fixed_env :: env where
  "fixed_env = sample_env \<lparr> d_of_float := (\<lambda>x. ucast x * 2 ^ 20), d_div := (\<lambda>x y. (x * 2 ^ 20 + y - 1) div y),
     d_mul := (\<lambda>x y. x * y div 2 ^ 20), int_of_d := (\<lambda>x. Some (uint (x div 2 ^ 20))) \<rparr>"

definition fixed_audio :: "(u32 list, unit) audio_lib" where
  "fixed_audio = sample_audio \<lparr> d_of_int := (\<lambda>n. of_int n * 2 ^ 20),
     d_ceil := (\<lambda>x. (x + (2 ^ 20 - 1)) div 2 ^ 20 * 2 ^ 20),
     src_process := (\<lambda>s xs n m ratio b. (Some (m, replicate (2 * nat m) 0), ())) \<rparr>"

definition full_context :: "unit AudioContext" where
  "full_context = \<lparr> cx_samplerate = 44100, cx_src = (), cx_channels = 2, cx_playing = True \<rparr>"

definition full_pipe :: "unit pipe" where
  "full_pipe = \<lparr> pp_buffer = \<lparr> original_capacity = 23040, capacity = 23040, read_head = 0, write_head = 21168,
       buf_data = Some (replicate 23040 0) \<rparr>, pp_context = Some full_context \<rparr>"

theorem pipe_mixed_witness:
  "play_pipe fixed_env mem0 fixed_audio d_one 60 full_pipe (replicate 2880 (0, 0)) = None"
proof -
  let ?ratio = "resample_ratio fixed_env fixed_audio 44100" and ?bytes = "replicate 21168 0 :: u8 list"
  have cx: "pp_context full_pipe = Some full_context" "1 \<le> cx_channels full_context"
    "cx_channels full_context < 2 ^ 8" "0 \<le> cx_samplerate full_context" "cx_samplerate full_context < 2 ^ 20"
    by (simp_all add: full_pipe_def full_context_def)
  have bytes: "buf_ok (pp_buffer full_pipe)" "unread (buffer_flip (pp_buffer full_pipe)) = ?bytes" "?bytes \<noteq> []"
    by (simp_all add: full_pipe_def buffer_flip_def unread_def buf_ok_def)
  have counts: "(60 :: u32) \<le> 60" "2646 = unat (60 :: u32) * nat (cx_samplerate full_context) div 1000"
    "int_of_d fixed_env (d_div fixed_env (d_of_float fixed_env (f_mul fixed_audio (f_of_int fixed_audio (uint (60 :: u32)))
       (f_of_int fixed_audio (cx_samplerate full_context)))) (d_of_int fixed_audio 1000)) = Some (int 2646)"
    "2646 = min (length ?bytes div 4 div nat (cx_channels full_context)) 2646"
    by (simp_all add: full_context_def fixed_env_def fixed_audio_def sample_audio_def)
  have ratio: "?ratio = resample_ratio fixed_env fixed_audio (cx_samplerate full_context)" "?ratio \<noteq> d_one"
    "resampled_size fixed_env fixed_audio 2646 ?ratio = Some 2881" "0 \<le> (2881 :: int)"
    by (simp_all add: full_context_def resample_ratio_def resampled_size_def fixed_env_def fixed_audio_def)
  have generated: "src_process fixed_audio (cx_src full_context) xs (int 2646) 2881 ?ratio False =
      (Some (2881, replicate (2 * nat 2881) 0), ())" for xs
    by (simp add: fixed_audio_def)
  have room: "can_alloc mem0 n" for n by (simp add: mem0_def)
  show ?thesis
    using pipe_mixed [OF cx(1) bytes cx(2-5) counts room ratio generated, of "replicate 2880 (0, 0)" d_one]
    by simp
qed

end
