(* ===== verification/Playback.thy ===== *)
theory Playback
  imports Pipes Voice "HOL-Library.Sublist"
begin

text \<open>
  The threads that play audio (\<open>mumble/audio.c\<close>): every packet time the playback thread wakes the main
  thread, which mixes a packet of frames and queues it for the encode thread
  (\<open>audio_encode_event\<close>, \<open>encode_audio\<close>), and sends one packet that was encoded before
  (\<open>audio_send_event\<close>); the buffer thread reads files ahead. The work queues are lists here, as
  \<open>Links\<close> shows of them; streams in the list of the client are referenced, as \<open>Reclaim\<close> has it.
\<close>

section \<open>State\<close>

record audio_work =
  wk_frame_size :: nat
  wk_end_frame :: bool
  wk_sequence :: u32
  wk_pcm :: "frame list"

text \<open>
  The members of the client that play audio. A stream is listed under its reference. \<open>pb_working\<close> is the
  work the encode thread has taken and \<open>pb_encoder\<close> the state of Opus; a work that is encoded is paired
  with what Opus returned, \<open>None\<close> for an error. \<open>pb_sent\<close> records the works handed to the network,
  \<open>pb_lost\<close> counts those for which no node of a queue could be allocated, and \<open>pb_transmitted\<close> the packets
  the script sent itself (\<open>client:transmit\<close>), which are numbered with the same counter.
\<close>

type_synonym encoded = "audio_work \<times> u8 list option"

record ('f, 's, 'e) playback =
  pb_client :: client
  pb_streams :: "(nat \<times> ('f, 's) AudioStream) list"
  pb_pipes :: "'s pipe list"
  pb_output :: "frame list"
  pb_active :: bool
  pb_pending :: bool
  pb_encode_queue :: "audio_work list"
  pb_working :: "audio_work option"
  pb_send_queue :: "encoded list"
  pb_encoder :: 'e
  pb_sent :: "encoded list"
  pb_lost :: nat
  pb_transmitted :: nat

section \<open>Mixing a packet\<close>

text \<open>
  The loop over the streams; a stream that ended has left the list. The state is the client, the
  output, the greatest number of frames a stream had and whether one began again.
\<close>

fun mix_streams ::
  "env \<Rightarrow> ('f, 's) audio_lib \<Rightarrow> nat \<Rightarrow> (nat \<times> ('f, 's) AudioStream) list \<Rightarrow> client \<times> frame list \<times> nat \<times> bool \<Rightarrow>
   ((nat \<times> ('f, 's) AudioStream) list \<times> client \<times> frame list \<times> nat \<times> bool) option" where
  "mix_streams E L sample_size [] st = Some ([], st)"
| "mix_streams E L sample_size ((i, s) # streams) (c, out, biggest_read, didLoop) =
     (if \<not> as_playing s then do {
        (streams, st) \<leftarrow> mix_streams E L sample_size streams (c, out, biggest_read, didLoop);
        Some ((i, s) # streams, st)
      }
      else do {
        m \<leftarrow> process_audio_file E L (cl_volume c) sample_size s out;
        let c = (if mx_ended m
                 then mumble_hook_call ''OnAudioStreamEnd'' [LObject ''mumble.audiostream'' i] c else c);
        (streams, st) \<leftarrow> mix_streams E L sample_size streams
           (c, mx_output m, max biggest_read (mx_read m), didLoop \<or> mx_looped m);
        Some (if mx_ended m then streams else (i, mx_stream m) # streams, st)
      })"

fun mix_pipes ::
  "env \<Rightarrow> mem_env \<Rightarrow> ('f, 's) audio_lib \<Rightarrow> u64 \<Rightarrow> u32 \<Rightarrow> 's pipe list \<Rightarrow> frame list \<times> int \<times> bool \<Rightarrow>
   ('s pipe list \<times> frame list \<times> int \<times> bool) option" where
  "mix_pipes E M L vol frames [] st = Some ([], st)"
| "mix_pipes E M L vol frames (p # pipes) (out, biggest_read, streamed_audio) = do {
     (n, p, out) \<leftarrow> play_pipe E M L vol frames p out;
     (pipes, st) \<leftarrow> mix_pipes E M L vol frames pipes
        (out, if n > biggest_read then n else biggest_read, streamed_audio \<or> n > 0);
     Some (p # pipes, st)
   }"

text \<open>Two allocations, of the work and of the node of the queue, may be refused.\<close>

definition encode_audio ::
  "bool \<Rightarrow> bool \<Rightarrow> nat \<Rightarrow> bool \<Rightarrow> ('f, 's, 'e) playback \<Rightarrow> ('f, 's, 'e) playback" where
  "encode_audio work_memory node_memory frame_size end_frame p =
     (if frame_size > 2880 \<or> \<not> work_memory then p
      else let work = \<lparr> wk_frame_size = frame_size, wk_end_frame = end_frame,
                        wk_sequence = audio_sequence (pb_client p), wk_pcm = take frame_size (pb_output p) \<rparr>;
               p = p \<lparr> pb_client := (pb_client p) \<lparr> audio_sequence := audio_sequence (pb_client p) + 1 \<rparr> \<rparr>
           in if node_memory then p \<lparr> pb_encode_queue := pb_encode_queue p @ [work] \<rparr>
              else p \<lparr> pb_lost := pb_lost p + 1 \<rparr>)"

text \<open>
  The callbacks of \<open>OnAudioStreamEnd\<close> and \<open>OnAudioStream\<close> run before the packet is numbered: \<open>feed\<close> is what they
  write into the pipes, \<open>transmits\<close> how many packets they send themselves, each of which takes a number.
\<close>

definition audio_encode_event ::
  "env \<Rightarrow> mem_env \<Rightarrow> ('f, 's) audio_lib \<Rightarrow> ('s pipe list \<Rightarrow> 's pipe list) \<Rightarrow> nat \<Rightarrow> bool \<Rightarrow> bool \<Rightarrow>
   ('f, 's, 'e) playback \<Rightarrow> ('f, 's, 'e) playback option" where
  "audio_encode_event E M L feed transmits work_memory node_memory p = do {
     let frames = audio_frames (pb_client p);
     let output_frames = unat (frames * 48000 div 1000);
     (streams, c, out, files_read, didLoop) \<leftarrow>
        mix_streams E L output_frames (pb_streams p) (pb_client p, replicate 2880 (0, 0), 0, False);
     let c = mumble_hook_call ''OnAudioStream'' [LInt 48000, LInt 2, LInt (int output_frames)] c;
     let c = c \<lparr> audio_sequence := audio_sequence c + of_nat transmits \<rparr>;
     (pipes, out, biggest_read, streamed_audio) \<leftarrow>
        mix_pipes E M L (cl_volume c) frames (feed (pb_pipes p)) (out, int files_read, False);
     let stream_ended = (pb_active p \<and> \<not> streamed_audio);
     let end_frame = (\<not> didLoop \<and> biggest_read < int output_frames \<and> stream_ended);
     let p = p \<lparr> pb_client := c, pb_streams := streams, pb_pipes := pipes, pb_output := out,
                   pb_transmitted := pb_transmitted p + transmits \<rparr>;
     let p = (if biggest_read > 0 \<or> end_frame
              then encode_audio work_memory node_memory output_frames end_frame p else p);
     Some (p \<lparr> pb_active := streamed_audio \<rparr>)
   }"

section \<open>Sending\<close>

text \<open>A packet that is too long stops all streams (\<open>audio_transmission_bitrate_warning\<close>).\<close>

definition audio_transmission_bitrate_warning :: "('f, 's, 'e) playback \<Rightarrow> ('f, 's, 'e) playback" where
  "audio_transmission_bitrate_warning p = p \<lparr> pb_streams := [] \<rparr>"

definition audio_send_event ::
  "env \<Rightarrow> world \<Rightarrow> ('f, 's, 'e) playback \<Rightarrow> ('f, 's, 'e) playback option" where
  "audio_send_event E W p =
     (case pb_send_queue p of
        [] \<Rightarrow> Some p
      | (work, encoded) # rest \<Rightarrow> do {
          let c = pb_client p;
          (too_long, c) \<leftarrow>
            (if legacy c then send_legacy_audio E W encoded (wk_end_frame work) (wk_sequence work) c
             else send_protobuf_audio E W encoded (wk_end_frame work) (wk_sequence work) c);
          let p = p \<lparr> pb_client := c, pb_send_queue := rest, pb_sent := pb_sent p @ [(work, encoded)] \<rparr>;
          Some (if too_long then audio_transmission_bitrate_warning p else p)
        })"

text \<open>The cleaning of reclaimed streams that comes first is in \<open>Reclaim\<close>.\<close>

definition mumble_audio_playback_async ::
  "env \<Rightarrow> world \<Rightarrow> mem_env \<Rightarrow> ('f, 's) audio_lib \<Rightarrow> ('s pipe list \<Rightarrow> 's pipe list) \<Rightarrow> nat \<Rightarrow> bool \<Rightarrow> bool \<Rightarrow>
   ('f, 's, 'e) playback \<Rightarrow> ('f, 's, 'e) playback option" where
  "mumble_audio_playback_async E W M L feed transmits work_memory node_memory p =
     (if \<not> pb_pending p then Some p
      else let p = p \<lparr> pb_pending := False \<rparr>
        in if \<not> connected (pb_client p) then Some p
           else do {
             p \<leftarrow> audio_encode_event E M L feed transmits work_memory node_memory p;
             audio_send_event E W p
           })"

section \<open>The encode thread\<close>

text \<open>
  A turn of \<open>mumble_audio_encode_thread\<close> in two steps: it takes a work from the queue; it encodes it and
  queues it for sending.
\<close>

definition encode_take :: "('f, 's, 'e) playback \<Rightarrow> ('f, 's, 'e) playback" where
  "encode_take p =
     (case (pb_working p, pb_encode_queue p) of
        (None, work # rest) \<Rightarrow> p \<lparr> pb_working := Some work, pb_encode_queue := rest \<rparr>
      | _ \<Rightarrow> p)"

definition encode_finish ::
  "('e \<Rightarrow> frame list \<Rightarrow> u8 list option \<times> 'e) \<Rightarrow> bool \<Rightarrow> ('f, 's, 'e) playback \<Rightarrow> ('f, 's, 'e) playback" where
  "encode_finish opus node_memory p =
     (case pb_working p of
        None \<Rightarrow> p
      | Some work \<Rightarrow>
          let (encoded, e) = opus (pb_encoder p) (wk_pcm work);
              p = p \<lparr> pb_working := None, pb_encoder := e \<rparr>
          in if node_memory then p \<lparr> pb_send_queue := pb_send_queue p @ [(work, encoded)] \<rparr>
             else p \<lparr> pb_lost := pb_lost p + 1 \<rparr>)"

text \<open>The thread ends after the work it holds; what is left in the queues is freed.\<close>

definition mumble_audio_queue_shutdown :: "('f, 's, 'e) playback \<Rightarrow> ('f, 's, 'e) playback" where
  "mumble_audio_queue_shutdown p = p \<lparr> pb_working := None, pb_encode_queue := [], pb_send_queue := [] \<rparr>"

section \<open>The playback thread\<close>

text \<open>
  \<open>audio_playback_next\<close> is advanced by the interval until it lies ahead, which may take forever when
  the sum wraps around or the interval is 0. A turn of \<open>mumble_audio_playback_thread\<close> tells whether
  the main thread is woken.
\<close>

partial_function (option) advance_past :: "u64 \<Rightarrow> u64 \<Rightarrow> u64 \<Rightarrow> u64 option" where
  "advance_past time interval upcoming =
     (if time \<ge> upcoming then advance_past time interval (upcoming + interval) else Some upcoming)"

record playback_clock =
  ck_next :: u64
  ck_last :: u64

definition playback_turn :: "u64 \<Rightarrow> client \<Rightarrow> playback_clock \<Rightarrow> (bool \<times> playback_clock) option" where
  "playback_turn time c k =
     (if time \<ge> ck_next k then do {
        let frame_interval_ns = (ucast (audio_frames c * 1000000) :: u64);
        upcoming \<leftarrow> advance_past time frame_interval_ns (ck_next k);
        Some (connected c, k \<lparr> ck_last := time, ck_next := upcoming \<rparr>)
      } else Some (False, k))"

section \<open>All threads\<close>

text \<open>
  The steps of the threads and of everything else: the event of the main thread, the signal of the
  playback thread, a turn of the buffer thread on one stream, the encode thread, and what handlers
  and the script do: it plays and stops streams, makes pipes and changes the client, and by \<open>client:transmit\<close>,
  the one call that takes a number, sends a packet of its own. What the callbacks of the hooks of sending do
  is steps after the event. \<open>allowed\<close> restricts the pipes there may be.
\<close>

inductive playback_step ::
  "env \<Rightarrow> ('f, 's) audio_lib \<Rightarrow> ('e \<Rightarrow> frame list \<Rightarrow> u8 list option \<times> 'e) \<Rightarrow> ('s pipe list \<Rightarrow> bool) \<Rightarrow>
   ('f, 's, 'e) playback \<Rightarrow> ('f, 's, 'e) playback \<Rightarrow> bool" for E L opus allowed where
  tick: "allowed (feed (pb_pipes p)) \<Longrightarrow>
    mumble_audio_playback_async E W M L feed transmits work_memory node_memory p = Some p' \<Longrightarrow>
    playback_step E L opus allowed p p'"
| wake: "playback_step E L opus allowed p (p \<lparr> pb_pending := True \<rparr>)"
| fill: "n < length (pb_streams p) \<Longrightarrow> pb_streams p ! n = (i, s) \<Longrightarrow> buffer_fill E M L s = Some s' \<Longrightarrow>
    playback_step E L opus allowed p (p \<lparr> pb_streams := (pb_streams p)[n := (i, s')] \<rparr>)"
| take: "playback_step E L opus allowed p (encode_take p)"
| finish: "playback_step E L opus allowed p (encode_finish opus node_memory p)"
| script: "audio_sequence c = audio_sequence (pb_client p) \<Longrightarrow> allowed pipes \<Longrightarrow>
    playback_step E L opus allowed p (p \<lparr> pb_client := c, pb_streams := streams, pb_pipes := pipes \<rparr>)"
| transmit: "transmit_voice E W codec data speaking (pb_client p) = Some c \<Longrightarrow>
    playback_step E L opus allowed p (p \<lparr> pb_client := c, pb_transmitted := pb_transmitted p + 1 \<rparr>)"

inductive playback_reachable ::
  "env \<Rightarrow> ('f, 's) audio_lib \<Rightarrow> ('e \<Rightarrow> frame list \<Rightarrow> u8 list option \<times> 'e) \<Rightarrow> ('s pipe list \<Rightarrow> bool) \<Rightarrow>
   ('f, 's, 'e) playback \<Rightarrow> ('f, 's, 'e) playback \<Rightarrow> bool" for E L opus allowed p0 where
  start: "playback_reachable E L opus allowed p0 p0"
| step: "playback_reachable E L opus allowed p0 p \<Longrightarrow> playback_step E L opus allowed p p' \<Longrightarrow>
    playback_reachable E L opus allowed p0 p'"

section \<open>The sequence number\<close>

lemma hook_call_sequence [simp]: "audio_sequence (mumble_hook_call h args c) = audio_sequence c"
  by (simp add: mumble_hook_call_def)

lemma mumble_user_get_sequence: "audio_sequence (snd (mumble_user_get s c)) = audio_sequence c"
  by (simp add: mumble_user_get_def Let_def split: option.split)

lemma put_user_sequence [simp]: "audio_sequence (put_user s u c) = audio_sequence c"
  by (simp add: put_user_def)

abbreviation same_sequence :: "client \<Rightarrow> client \<Rightarrow> bool" where
  "same_sequence c c' \<equiv> audio_sequence c' = audio_sequence c"

lemma sendudp_sequence: "all_some (same_sequence c) (packet_sendudp E W m c)"
  unfolding packet_sendudp_def
  by (auto simp: all_some_def Let_def split: option.splits prod.splits)

lemma send_voice_sequence: "all_some (same_sequence c) (send_voice E W m c)"
  using sendudp_sequence by (auto simp: send_voice_def all_some_def)

lemma speaking_sequence: "all_some (same_sequence c) (speaking_hooks E W s speaking payload speak c)"
proof (cases "mumble_user_get s c")
  case (Pair u c')
  then have "audio_sequence c' = audio_sequence c" using mumble_user_get_sequence [of s c] by simp
  with Pair show ?thesis
    unfolding speaking_hooks_def
    by (auto simp: all_some_def Let_def split: option.splits bind_splits if_splits)
qed

lemma hooks_protobuf_sequence:
  "all_some (same_sequence c) (mumble_handle_speaking_hooks_protobuf E W a s c)"
  using speaking_sequence by (auto simp: mumble_handle_speaking_hooks_protobuf_def Let_def all_some_def)

lemma hooks_legacy_sequence:
  "all_some (same_sequence c) (mumble_handle_speaking_hooks_legacy E W b codec target s c)"
  unfolding mumble_handle_speaking_hooks_legacy_def
  by (intro wp speaking_sequence | simp add: all_some_def)+

lemma legacy_audio_sequence: "all_some (\<lambda>r. same_sequence c (snd r)) (send_legacy_audio E W encoded t n c)"
  unfolding send_legacy_audio_def
  by (intro wp) (auto simp: Let_def dest!: all_someD [OF send_voice_sequence] all_someD [OF hooks_legacy_sequence]
      intro!: wp)

lemma protobuf_audio_sequence: "all_some (\<lambda>r. same_sequence c (snd r)) (send_protobuf_audio E W encoded t n c)"
  unfolding send_protobuf_audio_def
  by (intro wp) (auto simp: Let_def dest!: all_someD [OF send_voice_sequence] all_someD [OF hooks_protobuf_sequence]
      intro!: wp)

lemma bind_sequence:
  "all_some (same_sequence c) m \<Longrightarrow> (\<And>c'. same_sequence c c' \<Longrightarrow> all_some P (f c')) \<Longrightarrow> all_some P (Option.bind m f)"
  by (cases m) (simp_all add: all_some_def)

lemma transmit_takes_number:
  "all_some (\<lambda>c'. audio_sequence c' = audio_sequence c + 1) (transmit_voice E W codec data speaking c)"
  unfolding transmit_voice_def Let_def
  by (rule bind_sequence [of c])
    (auto simp: all_some_def split: if_splits bind_splits prod.splits
      dest!: all_someD [OF hooks_legacy_sequence] all_someD [OF hooks_protobuf_sequence] all_someD [OF send_voice_sequence])

section \<open>The order of the works\<close>

fun run_opus :: "('e \<Rightarrow> frame list \<Rightarrow> u8 list option \<times> 'e) \<Rightarrow> 'e \<Rightarrow> frame list list \<Rightarrow> u8 list option list \<times> 'e" where
  "run_opus opus e [] = ([], e)"
| "run_opus opus e (x # xs) = (case opus e x of (d, e) \<Rightarrow> case run_opus opus e xs of (ds, e) \<Rightarrow> (d # ds, e))"

lemma run_opus_snoc:
  "run_opus opus e (xs @ [x]) =
     (case run_opus opus e xs of (ds, e) \<Rightarrow> case opus e x of (d, e) \<Rightarrow> (ds @ [d], e))"
  by (induction xs arbitrary: e) (simp_all split: prod.split)

text \<open>All works there are, the oldest first, and the numbers the client gave.\<close>

definition encoded_works :: "('f, 's, 'e) playback \<Rightarrow> encoded list" where
  "encoded_works p = pb_sent p @ pb_send_queue p"

definition all_works :: "('f, 's, 'e) playback \<Rightarrow> audio_work list" where
  "all_works p = map fst (encoded_works p) @
     (case pb_working p of None \<Rightarrow> [] | Some w \<Rightarrow> [w]) @ pb_encode_queue p"

definition numbers_from :: "u32 \<Rightarrow> nat \<Rightarrow> u32 list" where
  "numbers_from start n = map (\<lambda>i. start + of_nat i) [0..<n]"

definition in_order :: "('e \<Rightarrow> frame list \<Rightarrow> u8 list option \<times> 'e) \<Rightarrow> u32 \<Rightarrow> 'e \<Rightarrow> ('f, 's, 'e) playback \<Rightarrow> bool" where
  "in_order opus start e0 p \<longleftrightarrow> (\<exists>n.
     audio_sequence (pb_client p) = start + of_nat n \<and>
     subseq (map wk_sequence (all_works p)) (numbers_from start n) \<and>
     length (all_works p) + pb_lost p + pb_transmitted p = n) \<and>
     (\<forall>w\<in>set (all_works p). wk_frame_size w \<le> 2880) \<and>
     (pb_lost p = 0 \<longrightarrow>
       run_opus opus e0 (map (wk_pcm \<circ> fst) (encoded_works p)) = (map snd (encoded_works p), pb_encoder p))"

lemma mix_streams_sequence:
  "mix_streams E L n streams st = Some (streams', st') \<Longrightarrow> audio_sequence (fst st') = audio_sequence (fst st)"
proof (induction E L n streams st arbitrary: streams' st' rule: mix_streams.induct)
  case (2 E L n i s streams c out b l)
  show ?case
  proof (cases "as_playing s")
    case False
    with 2 show ?thesis by (auto split: bind_splits)
  next
    case True
    with 2(3) obtain m ss where m: "process_audio_file E L (cl_volume c) n s out = Some m"
      "mix_streams E L n streams (if mx_ended m
         then mumble_hook_call ''OnAudioStreamEnd'' [LObject ''mumble.audiostream'' i] c else c,
         mx_output m, max b (mx_read m), l \<or> mx_looped m) = Some (ss, st')"
      by (auto split: bind_splits)
    from 2(2) [OF _ m(1) refl m(2)] True show ?thesis by simp
  qed
qed simp

text \<open>What an event makes of the queues.\<close>

definition queues_kept :: "('f, 's, 'e) playback \<Rightarrow> ('f, 's, 'e) playback \<Rightarrow> bool" where
  "queues_kept p p' \<longleftrightarrow> pb_sent p' = pb_sent p \<and> pb_send_queue p' = pb_send_queue p \<and>
     pb_working p' = pb_working p \<and> pb_encoder p' = pb_encoder p"

lemma encode_eventE:
  assumes "audio_encode_event E M L feed k mw mn p = Some p'"
  obtains n c ss ps out0 files out biggest loops streamed e where
    "audio_sequence c = audio_sequence (pb_client p) + of_nat k"
    "mix_pipes E M L (cl_volume c) (audio_frames (pb_client p)) (feed (pb_pipes p)) (out0, files, False) =
       Some (ps, out, biggest, streamed)"
    "e = (\<not> loops \<and> biggest < int n \<and> pb_active p \<and> \<not> streamed)"
    "p' = (let q = p \<lparr> pb_client := c, pb_streams := ss, pb_pipes := ps, pb_output := out,
               pb_transmitted := pb_transmitted p + k \<rparr>
           in if biggest > 0 \<or> e then encode_audio mw mn n e q else q) \<lparr> pb_active := streamed \<rparr>"
proof -
  define n where "n = unat (audio_frames (pb_client p) * 48000 div 1000)"
  note ev = assms [unfolded audio_encode_event_def Let_def n_def [symmetric]]
  obtain ss c out files loops where m: "mix_streams E L n (pb_streams p) (pb_client p, replicate 2880 (0, 0), 0, False) =
      Some (ss, c, out, files, loops)"
    using ev by (cases "mix_streams E L n (pb_streams p) (pb_client p, replicate 2880 (0, 0), 0, False)") auto
  define h where "h = mumble_hook_call ''OnAudioStream'' [LInt 48000, LInt 2, LInt (int n)] c"
  define c' where "c' = h \<lparr> audio_sequence := audio_sequence h + of_nat k \<rparr>"
  note ev = ev [unfolded m Option.bind.simps prod.case h_def [symmetric] c'_def [symmetric]]
  obtain ps out' biggest streamed where ps: "mix_pipes E M L (cl_volume c') (audio_frames (pb_client p)) (feed (pb_pipes p))
      (out, int files, False) = Some (ps, out', biggest, streamed)"
    using ev by (cases "mix_pipes E M L (cl_volume c') (audio_frames (pb_client p)) (feed (pb_pipes p)) (out, int files, False)")
      auto
  note ev = ev [unfolded ps Option.bind.simps prod.case option.inject]
  have "audio_sequence c' = audio_sequence (pb_client p) + of_nat k"
    using mix_streams_sequence [OF m] by (simp add: c'_def h_def)
  then show ?thesis by (rule that [OF _ ps refl]) (simp only: ev [symmetric] Let_def)
qed

lemma encode_event_queues:
  assumes "audio_encode_event E M L feed k mw mn p = Some p'"
  shows "queues_kept p p' \<and> pb_transmitted p' = pb_transmitted p + k \<and>
    (audio_sequence (pb_client p') = audio_sequence (pb_client p) + of_nat k \<and> pb_encode_queue p' = pb_encode_queue p \<and>
       pb_lost p' = pb_lost p \<or>
     audio_sequence (pb_client p') = audio_sequence (pb_client p) + of_nat k + 1 \<and>
       ((\<exists>w. pb_encode_queue p' = pb_encode_queue p @ [w] \<and>
           wk_sequence w = audio_sequence (pb_client p) + of_nat k \<and>
           wk_frame_size w \<le> 2880) \<and> pb_lost p' = pb_lost p \<or>
        pb_encode_queue p' = pb_encode_queue p \<and> pb_lost p' = pb_lost p + 1))"
  using assms
  by (rule encode_eventE) (auto simp: queues_kept_def encode_audio_def Let_def split: if_splits)

lemma send_event_queues:
  assumes "audio_send_event E W p = Some p'"
  shows "audio_sequence (pb_client p') = audio_sequence (pb_client p) \<and> encoded_works p' = encoded_works p \<and>
    pb_working p' = pb_working p \<and> pb_encoder p' = pb_encoder p \<and> pb_encode_queue p' = pb_encode_queue p \<and>
    pb_lost p' = pb_lost p \<and> pb_transmitted p' = pb_transmitted p \<and> pb_active p' = pb_active p \<and>
    pb_pipes p' = pb_pipes p"
proof (cases "pb_send_queue p")
  case Nil
  with assms show ?thesis by (simp add: audio_send_event_def)
next
  case (Cons we rest)
  obtain w e where we: "we = (w, e)" by fastforce
  let ?send = "if legacy (pb_client p) then send_legacy_audio E W e (wk_end_frame w) (wk_sequence w) (pb_client p)
    else send_protobuf_audio E W e (wk_end_frame w) (wk_sequence w) (pb_client p)"
  obtain long c where sent: "?send = Some (long, c)"
    using assms Cons we by (cases ?send) (auto simp: audio_send_event_def)
  have "audio_sequence c = audio_sequence (pb_client p)"
    using all_someD [OF legacy_audio_sequence] all_someD [OF protobuf_audio_sequence] sent
    by (fastforce split: if_splits)
  with assms Cons we sent show ?thesis
    by (cases long) (auto simp: audio_send_event_def audio_transmission_bitrate_warning_def encoded_works_def Let_def)
qed

lemma send_event_sent:
  assumes "audio_send_event E W p = Some p'" "pb_send_queue p = (w, e) # rest"
  shows "pb_sent p' = pb_sent p @ [(w, e)]"
  using assms
  by (auto simp: audio_send_event_def audio_transmission_bitrate_warning_def Let_def
      split: bind_splits prod.splits if_splits)

lemma numbers_from_Suc: "numbers_from start (Suc n) = numbers_from start n @ [start + of_nat n]"
  by (simp add: numbers_from_def)

lemma in_order_new:
  assumes "in_order opus start e0 p" "queues_kept p p'" "pb_transmitted p' = pb_transmitted p"
    "audio_sequence (pb_client p') = audio_sequence (pb_client p) + 1"
    "(\<exists>w. pb_encode_queue p' = pb_encode_queue p @ [w] \<and> wk_sequence w = audio_sequence (pb_client p) \<and>
           wk_frame_size w \<le> 2880) \<and> pb_lost p' = pb_lost p \<or>
     pb_encode_queue p' = pb_encode_queue p \<and> pb_lost p' = pb_lost p + 1"
  shows "in_order opus start e0 p'"
proof -
  obtain n where n: "audio_sequence (pb_client p) = start + of_nat n"
    "subseq (map wk_sequence (all_works p)) (numbers_from start n)" "length (all_works p) + pb_lost p + pb_transmitted p = n"
    using assms(1) unfolding in_order_def by blast
  have kept: "encoded_works p' = encoded_works p" "pb_encoder p' = pb_encoder p"
    using assms(2) by (simp_all add: queues_kept_def encoded_works_def)
  have next_seq: "audio_sequence (pb_client p') = start + of_nat (Suc n)" using n(1) assms(4) by simp
  from assms(5) show ?thesis
  proof
    assume "(\<exists>w. pb_encode_queue p' = pb_encode_queue p @ [w] \<and> wk_sequence w = audio_sequence (pb_client p) \<and>
           wk_frame_size w \<le> 2880) \<and> pb_lost p' = pb_lost p"
    then obtain w where w: "pb_encode_queue p' = pb_encode_queue p @ [w]" "wk_sequence w = start + of_nat n"
      "wk_frame_size w \<le> 2880" "pb_lost p' = pb_lost p" using n(1) by auto
    then have works: "all_works p' = all_works p @ [w]"
      using assms(2) kept(1) by (simp add: all_works_def queues_kept_def)
    have "subseq (map wk_sequence (all_works p')) (numbers_from start (Suc n))"
      unfolding works numbers_from_Suc using n(2) w(2) by (auto intro!: list_emb_append_mono)
    moreover have "length (all_works p') + pb_lost p' + pb_transmitted p' = Suc n" using n(3) assms(3) w(4) works by simp
    ultimately show ?thesis
      using assms(1) next_seq kept w(3,4) works unfolding in_order_def by (auto intro!: exI [of _ "Suc n"])
  next
    assume lost: "pb_encode_queue p' = pb_encode_queue p \<and> pb_lost p' = pb_lost p + 1"
    then have works: "all_works p' = all_works p"
      using assms(2) kept(1) by (simp add: all_works_def queues_kept_def)
    have "subseq (map wk_sequence (all_works p')) (numbers_from start (Suc n))"
      unfolding works numbers_from_Suc using n(2) by (rule list_emb_prefix)
    moreover have "length (all_works p') + pb_lost p' + pb_transmitted p' = Suc n" using n(3) assms(3) lost works by simp
    ultimately show ?thesis
      using assms(1) next_seq lost works unfolding in_order_def by (auto intro!: exI [of _ "Suc n"])
  qed
qed

text \<open>Numbers that packets of the script take.\<close>

lemma numbers_from_mono: "subseq (numbers_from start n) (numbers_from start (n + k))"
  by (induction k) (simp_all add: numbers_from_Suc list_emb_prefix)

lemma in_order_transmitted:
  assumes "in_order opus start e0 p" "audio_sequence (pb_client p') = audio_sequence (pb_client p) + of_nat k"
    "all_works p' = all_works p" "pb_lost p' = pb_lost p" "pb_transmitted p' = pb_transmitted p + k"
    "encoded_works p' = encoded_works p" "pb_encoder p' = pb_encoder p"
  shows "in_order opus start e0 p'"
proof -
  obtain n where n: "audio_sequence (pb_client p) = start + of_nat n"
    "subseq (map wk_sequence (all_works p)) (numbers_from start n)"
    "length (all_works p) + pb_lost p + pb_transmitted p = n"
    using assms(1) unfolding in_order_def by blast
  have "audio_sequence (pb_client p') = start + of_nat (n + k)" using n(1) assms(2) by simp
  moreover have "subseq (map wk_sequence (all_works p')) (numbers_from start (n + k))"
    using subseq_order.trans [OF n(2) numbers_from_mono] assms(3) by simp
  moreover have "length (all_works p') + pb_lost p' + pb_transmitted p' = n + k" using n(3) assms(3-5) by simp
  ultimately have "\<exists>n. audio_sequence (pb_client p') = start + of_nat n \<and>
     subseq (map wk_sequence (all_works p')) (numbers_from start n) \<and>
     length (all_works p') + pb_lost p' + pb_transmitted p' = n" by blast
  then show ?thesis using assms(1,3,4,6,7) unfolding in_order_def by metis
qed

text \<open>A step that neither numbers nor drops a work.\<close>

lemma in_order_same:
  assumes "in_order opus start e0 p" "audio_sequence (pb_client p') = audio_sequence (pb_client p)"
    "all_works p' = all_works p" "pb_lost p' = pb_lost p" "pb_transmitted p' = pb_transmitted p"
    "encoded_works p' = encoded_works p" "pb_encoder p' = pb_encoder p"
  shows "in_order opus start e0 p'"
  using assms by (simp add: in_order_def)

lemma in_order_finish:
  assumes "in_order opus start e0 p"
  shows "in_order opus start e0 (encode_finish opus mem p)"
proof (cases "pb_working p")
  case None
  with assms show ?thesis by (simp add: encode_finish_def)
next
  case (Some w)
  obtain d e where o': "opus (pb_encoder p) (wk_pcm w) = (d, e)" by fastforce
  show ?thesis
  proof (cases mem)
    case True
    let ?p = "encode_finish opus mem p"
    have "all_works ?p = all_works p" "encoded_works ?p = encoded_works p @ [(w, d)]" "pb_lost ?p = pb_lost p"
      "pb_encoder ?p = e" "pb_transmitted ?p = pb_transmitted p" "audio_sequence (pb_client ?p) = audio_sequence (pb_client p)"
      using Some o' True by (simp_all add: encode_finish_def all_works_def encoded_works_def)
    with assms o' show ?thesis by (auto simp: in_order_def run_opus_snoc)
  next
    case False
    let ?p = "encode_finish opus mem p"
    have works: "all_works p = map fst (encoded_works p) @ w # pb_encode_queue p"
      "all_works ?p = map fst (encoded_works p) @ pb_encode_queue p" "pb_lost ?p = pb_lost p + 1"
      "pb_transmitted ?p = pb_transmitted p" "audio_sequence (pb_client ?p) = audio_sequence (pb_client p)"
      using Some o' False by (simp_all add: encode_finish_def all_works_def encoded_works_def)
    have fewer: "subseq (map wk_sequence (all_works ?p)) (map wk_sequence (all_works p))"
      unfolding works(1,2) by (auto intro!: list_emb_append_mono)
    show ?thesis
      using assms works fewer subseq_order.trans [OF fewer] unfolding in_order_def by (auto simp: works)
  qed
qed

lemma in_order_playback_step:
  assumes "playback_step E L opus allowed p p'" "in_order opus start e0 p"
  shows "in_order opus start e0 p'"
  using assms(1)
proof cases
  case (tick feed W M transmits work_memory node_memory)
  show ?thesis
  proof (cases "pb_pending p \<and> connected (pb_client p)")
    case False
    have "p' = p \<or> p' = p \<lparr> pb_pending := False \<rparr>"
      using tick(2) False by (auto simp: mumble_audio_playback_async_def Let_def split: if_splits)
    with assms(2) show ?thesis by (auto intro!: in_order_same [OF assms(2)] simp: all_works_def encoded_works_def)
  next
    case True
    let ?p = "p \<lparr> pb_pending := False \<rparr>"
    obtain q where q: "audio_encode_event E M L feed transmits work_memory node_memory ?p = Some q" "audio_send_event E W q = Some p'"
      using tick(2) True by (auto simp: mumble_audio_playback_async_def Let_def split: bind_splits)
    let ?t = "?p \<lparr> pb_client := (pb_client ?p) \<lparr> audio_sequence := audio_sequence (pb_client ?p) + of_nat transmits \<rparr>,
      pb_transmitted := pb_transmitted ?p + transmits \<rparr>"
    have "in_order opus start e0 ?t"
      by (rule in_order_transmitted [OF assms(2), where k = transmits]) (simp_all add: all_works_def encoded_works_def)
    then have "in_order opus start e0 q"
      using encode_event_queues [OF q(1)] in_order_new [of opus start e0 ?t q] in_order_same [of opus start e0 ?t q]
      by (auto simp: queues_kept_def all_works_def encoded_works_def)
    then show ?thesis
      using send_event_queues [OF q(2)] by (auto intro!: in_order_same [of opus start e0 q] simp: all_works_def)
  qed
next
  case wake
  then show ?thesis by (auto intro!: in_order_same [OF assms(2)] simp: all_works_def encoded_works_def)
next
  case (fill n i s s')
  then show ?thesis by (auto intro!: in_order_same [OF assms(2)] simp: all_works_def encoded_works_def)
next
  case take
  then show ?thesis
    by (auto intro!: in_order_same [OF assms(2)] simp: all_works_def encoded_works_def encode_take_def
        split: option.splits list.splits)
next
  case (finish node_memory)
  then show ?thesis using in_order_finish [OF assms(2)] by simp
next
  case (script c pipes streams)
  then show ?thesis by (auto intro!: in_order_same [OF assms(2)] simp: all_works_def encoded_works_def)
next
  case (transmit W codec data speaking c)
  then show ?thesis using all_someD [OF transmit_takes_number]
    by (auto intro!: in_order_transmitted [OF assms(2), where k = 1] simp: all_works_def encoded_works_def)
qed

definition idle :: "('f, 's, 'e) playback \<Rightarrow> bool" where
  "idle p \<longleftrightarrow> pb_encode_queue p = [] \<and> pb_working p = None \<and> pb_send_queue p = [] \<and> pb_sent p = [] \<and>
     pb_lost p = 0 \<and> pb_transmitted p = 0"

lemma in_order_reachable:
  assumes "playback_reachable E L opus allowed p0 p" "idle p0"
  shows "in_order opus (audio_sequence (pb_client p0)) (pb_encoder p0) p"
  using assms(1)
proof induction
  case start
  then show ?case
    using assms(2) by (simp add: in_order_def idle_def all_works_def encoded_works_def numbers_from_def)
next
  case (step p p')
  from in_order_playback_step [OF step(2) step.IH] show ?case .
qed

section \<open>Terminators\<close>

text \<open>Without pipes no work ends a transmission.\<close>

definition unterminated :: "('f, 's, 'e) playback \<Rightarrow> bool" where
  "unterminated p \<longleftrightarrow> \<not> pb_active p \<and> pb_pipes p = [] \<and> (\<forall>w\<in>set (all_works p). \<not> wk_end_frame w)"

lemma unterminated_encode_event:
  assumes "audio_encode_event E M L feed k mw mn p = Some p'" "feed (pb_pipes p) = []" "unterminated p"
  shows "unterminated p'"
  using assms(1)
proof (rule encode_eventE)
  fix n c ss ps out0 files out biggest loops streamed e
  assume *: "mix_pipes E M L (cl_volume c) (audio_frames (pb_client p)) (feed (pb_pipes p)) (out0, files, False) =
       Some (ps, out, biggest, streamed)"
    "e = (\<not> loops \<and> biggest < int n \<and> pb_active p \<and> \<not> streamed)"
    "p' = (let q = p \<lparr> pb_client := c, pb_streams := ss, pb_pipes := ps, pb_output := out,
               pb_transmitted := pb_transmitted p + k \<rparr>
           in if biggest > 0 \<or> e then encode_audio mw mn n e q else q) \<lparr> pb_active := streamed \<rparr>"
  have "\<not> e" "ps = []" "\<not> streamed" using * assms(2,3) by (auto simp: unterminated_def)
  then show ?thesis
    using *(3) assms(3)
    by (auto simp: unterminated_def encode_audio_def all_works_def encoded_works_def Let_def split: if_splits)
qed

lemma unterminated_same:
  "unterminated p \<Longrightarrow> pb_active p' = pb_active p \<Longrightarrow> pb_pipes p' = [] \<Longrightarrow> all_works p' = all_works p \<Longrightarrow>
   unterminated p'"
  by (simp add: unterminated_def)

lemma unterminated_step:
  assumes "playback_step E L opus (\<lambda>pipes. pipes = []) p p'" "unterminated p"
  shows "unterminated p'"
  using assms(1)
proof cases
  case (tick feed W M transmits work_memory node_memory)
  show ?thesis
  proof (cases "pb_pending p \<and> connected (pb_client p)")
    case False
    have "p' = p \<or> p' = p \<lparr> pb_pending := False \<rparr>"
      using tick(2) False by (auto simp: mumble_audio_playback_async_def Let_def split: if_splits)
    then have "pb_active p' = pb_active p" "pb_pipes p' = pb_pipes p" "all_works p' = all_works p"
      by (auto simp: all_works_def encoded_works_def)
    with assms(2) show ?thesis by (simp add: unterminated_def)
  next
    case True
    let ?p = "p \<lparr> pb_pending := False \<rparr>"
    obtain q where q: "audio_encode_event E M L feed transmits work_memory node_memory ?p = Some q" "audio_send_event E W q = Some p'"
      using tick(2) True by (auto simp: mumble_audio_playback_async_def Let_def split: bind_splits)
    have "unterminated ?p"
      using assms(2) by (intro unterminated_same [OF assms(2)]) (simp_all add: all_works_def encoded_works_def unterminated_def)
    from unterminated_encode_event [OF q(1) _ this] tick(1) have "unterminated q" by simp
    with send_event_queues [OF q(2)] show ?thesis by (simp add: unterminated_def all_works_def)
  qed
next
  case take
  with assms(2) show ?thesis
    by (intro unterminated_same [OF assms(2)])
      (auto simp: unterminated_def all_works_def encoded_works_def encode_take_def split: option.splits list.splits)
next
  case (finish node_memory)
  with assms(2) show ?thesis
    by (auto simp: unterminated_def all_works_def encoded_works_def encode_finish_def Let_def
        split: option.splits list.splits prod.splits if_splits)
next
  case wake
  with assms(2) show ?thesis
    by (intro unterminated_same [OF assms(2)]) (simp_all add: all_works_def encoded_works_def unterminated_def)
next
  case (fill n i s s')
  with assms(2) show ?thesis
    by (intro unterminated_same [OF assms(2)]) (simp_all add: all_works_def encoded_works_def unterminated_def)
next
  case (script c pipes streams)
  with assms(2) show ?thesis
    by (intro unterminated_same [OF assms(2)]) (simp_all add: all_works_def encoded_works_def unterminated_def)
next
  case (transmit W codec data speaking c)
  with assms(2) show ?thesis
    by (intro unterminated_same [OF assms(2)]) (simp_all add: all_works_def encoded_works_def unterminated_def)
qed

section \<open>The clock\<close>

lemma advance_past_reaches:
  assumes "unat interval > 0" "unat time + unat interval < 2 ^ 64" "upcoming \<le> time"
  shows "\<exists>k>0. advance_past time interval upcoming = Some (upcoming + of_nat k * interval) \<and>
    unat (upcoming + of_nat k * interval) = unat upcoming + k * unat interval \<and>
    unat time < unat upcoming + k * unat interval \<and> unat upcoming + k * unat interval \<le> unat time + unat interval"
  using assms(3)
proof (induction "unat time - unat upcoming" arbitrary: upcoming rule: less_induct)
  case less
  have le: "unat upcoming \<le> unat time" using less.prems by (simp add: word_le_nat_alt)
  have sum: "unat (upcoming + interval) = unat upcoming + unat interval"
    using le assms(2) by (intro unat_add_small) simp
  have unfold: "advance_past time interval upcoming = advance_past time interval (upcoming + interval)"
    using less.prems by (simp add: advance_past.simps [of time interval upcoming])
  show ?case
  proof (cases "upcoming + interval \<le> time")
    case True
    have "unat time - unat (upcoming + interval) < unat time - unat upcoming"
      using True sum le assms(1) by (simp add: word_le_nat_alt)
    from less.hyps [OF this True] obtain k where k: "k > 0"
      "advance_past time interval (upcoming + interval) = Some (upcoming + interval + of_nat k * interval)"
      "unat (upcoming + interval + of_nat k * interval) = unat (upcoming + interval) + k * unat interval"
      "unat time < unat (upcoming + interval) + k * unat interval"
      "unat (upcoming + interval) + k * unat interval \<le> unat time + unat interval" by blast
    have step: "upcoming + interval + of_nat k * interval = upcoming + of_nat (Suc k) * interval"
      by (simp add: algebra_simps)
    show ?thesis
      using k unfolding unfold step sum by (intro exI [of _ "Suc k"]) simp
  next
    case False
    then have "unat time < unat upcoming + unat interval" using sum by (simp add: word_le_nat_alt)
    then show ?thesis
      using False sum le unfold by (intro exI [of _ 1]) (simp add: advance_past.simps [of time interval "upcoming + interval"])
  qed
qed

section \<open>A sample\<close>

definition sample_playback :: "(u32 list, unit, unit) playback" where
  "sample_playback =
     \<lparr> pb_client = (mumble_client_new 1 5 735 0 0) \<lparr> self := 1, connected := True \<rparr>,
       pb_streams = [(1, sample_stream [] [1, 2, 3, 4])], pb_pipes = [], pb_output = [], pb_active = False,
       pb_pending = True, pb_encode_queue = [], pb_working = None, pb_send_queue = [], pb_encoder = (),
       pb_sent = [], pb_lost = 0, pb_transmitted = 0 \<rparr>"

abbreviation sample_opus :: "unit \<Rightarrow> frame list \<Rightarrow> u8 list option \<times> unit" where
  "sample_opus \<equiv> (\<lambda>e pcm. (Some [1], ()))"

lemma sample_sends:
  assumes "tcp_udp_tunnel c" "\<And>s. users c s = None" "data \<noteq> []"
  shows "\<exists>long c'. send_protobuf_audio sample_env sample_world (Some data) t n c = Some (long, c')"
proof -
  have "\<exists>c'. speaking_hooks sample_env sample_world s sp pl sk c = Some c'"
    if "\<And>s. users c s = None" for s sp pl sk c
    using that by (auto simp: speaking_hooks_def mumble_user_get_def new_user_def mumble_handle_record_silence_def Let_def)
  then have "\<exists>c'. mumble_handle_speaking_hooks_protobuf sample_env sample_world (own_audio tg n data t) s c = Some c'"
    if "\<And>s. users c s = None" for s c tg
    using that assms(3) by (simp add: mumble_handle_speaking_hooks_protobuf_def own_audio_def Let_def)
  from this [of "c \<lparr> trace := trace c @ [Tunnelled [0, 8]] \<rparr>" "audio_target c" "session c"]
  show ?thesis
    using assms by (auto simp: send_protobuf_audio_def send_voice_def sample_env_def poke_def Let_def)
qed

lemma sample_playback_event:
  "\<exists>p. playback_reachable sample_env sample_audio sample_opus (\<lambda>pipes. pipes = []) sample_playback p \<and>
     length (all_works p) = 1 \<and> pb_lost p = 0 \<and> pb_transmitted p = k \<and> length (pb_sent p) = 1"
proof -
  let ?p = "sample_playback \<lparr> pb_pending := False \<rparr>"
  let ?s = "sample_stream [] [1, 2, 3, 4]"
  have frames: "unat (audio_frames (pb_client ?p) * 48000 div 1000) = 960"
    by (simp add: sample_playback_def mumble_client_new_def)
  obtain m where m: "process_audio_file sample_env sample_audio (cl_volume (pb_client ?p)) 960 ?s
      (replicate 2880 (0, 0)) = Some m" "mx_read m = 2"
    using process_audio_file_frames [of ?s "replicate 2880 (0, 0)" 960 sample_env sample_audio "cl_volume (pb_client ?p)"]
      sample_stream_ok [of "[1, 2, 3, 4]" "[]"]
    by (auto simp: Let_def sample_stream_def)
  have playing: "as_playing ?s" by (simp add: sample_stream_def)
  obtain ss c out loops where mixed: "mix_streams sample_env sample_audio 960 (pb_streams ?p)
      (pb_client ?p, replicate 2880 (0, 0), 0, False) = Some (ss, c, out, 2, loops)" "self c = 1"
    using m playing by (auto simp: sample_playback_def mumble_hook_call_def Let_def)
  obtain q where q: "audio_encode_event sample_env mem0 sample_audio (\<lambda>pipes. pipes) k True True ?p = Some q"
    "length (pb_encode_queue q) = 1" "queues_kept ?p q" "pb_lost q = 0" "pb_active q = False" "pb_transmitted q = k"
    using mixed(1) unfolding audio_encode_event_def Let_def frames
    by (auto simp: sample_playback_def encode_audio_def queues_kept_def Let_def)
  have "audio_send_event sample_env sample_world q = Some q"
    using q(3) by (simp add: audio_send_event_def queues_kept_def sample_playback_def)
  then have "mumble_audio_playback_async sample_env sample_world mem0 sample_audio (\<lambda>pipes. pipes) k True True sample_playback = Some q"
    using q(1) by (simp add: mumble_audio_playback_async_def sample_playback_def)
  then have "playback_step sample_env sample_audio sample_opus (\<lambda>pipes. pipes = []) sample_playback q"
    by (intro playback_step.tick) (simp_all add: sample_playback_def)
  then have reached: "playback_reachable sample_env sample_audio sample_opus (\<lambda>pipes. pipes = []) sample_playback q"
    by (blast intro: playback_reachable.intros)
  obtain w where w: "pb_encode_queue q = [w]" using q(2) by (cases "pb_encode_queue q") auto
  let ?c = "(mumble_client_new 1 5 735 0 0) \<lparr> self := 1, connected := True, tcp_udp_tunnel := True,
    audio_sequence := audio_sequence (pb_client q) \<rparr>"
  let ?q1 = "encode_take q"
  let ?q2 = "encode_finish sample_opus True ?q1"
  let ?q3 = "?q2 \<lparr> pb_client := ?c, pb_streams := [], pb_pipes := [] \<rparr>"
  let ?q4 = "?q3 \<lparr> pb_pending := True \<rparr>"
  have seq: "audio_sequence ?c = audio_sequence (pb_client ?q2)"
    using w q(3) by (simp add: encode_take_def encode_finish_def queues_kept_def sample_playback_def)
  have "playback_reachable sample_env sample_audio sample_opus (\<lambda>pipes. pipes = []) sample_playback ?q3"
    using playback_step.script [OF seq, where allowed = "\<lambda>pipes. pipes = []"]
    by (intro playback_reachable.step [OF playback_reachable.step [OF playback_reachable.step [OF reached
          playback_step.take] playback_step.finish [where node_memory = True]]]) simp
  then have reached: "playback_reachable sample_env sample_audio sample_opus (\<lambda>pipes. pipes = []) sample_playback ?q4"
    by (rule playback_reachable.step [OF _ playback_step.wake])
  have q4: "pb_send_queue ?q4 = [(w, Some [1])]" "pb_sent ?q4 = []" "pb_encode_queue ?q4 = []" "pb_working ?q4 = None"
    "pb_lost ?q4 = 0" "pb_active ?q4 = False" "pb_transmitted ?q4 = k"
    using w q(3,4,5,6) by (simp_all add: encode_take_def encode_finish_def queues_kept_def sample_playback_def)
  obtain r where r: "audio_encode_event sample_env mem0 sample_audio (\<lambda>pipes. pipes) 0 True True
      (?q4 \<lparr> pb_pending := False \<rparr>) = Some r" "queues_kept ?q4 r" "pb_encode_queue r = []" "pb_lost r = 0" "pb_transmitted r = k"
    "pb_client r = mumble_hook_call ''OnAudioStream'' [LInt 48000, LInt 2, LInt (int 960)] ?c"
    using q4 by (simp add: audio_encode_event_def queues_kept_def mumble_client_new_def)
  obtain u where u: "audio_send_event sample_env sample_world r = Some u"
    using r(2,6) q4(1) sample_sends [of "pb_client r" "[1]" "wk_end_frame w" "wk_sequence w"]
    by (auto simp: audio_send_event_def queues_kept_def mumble_hook_call_def mumble_client_new_def Let_def)
  then have sent: "pb_sent u = [(w, Some [1])]"
    using send_event_sent [OF u] r(2) q4(1,2) by (simp add: queues_kept_def)
  have "all_works u = [w]" "pb_lost u = 0" "pb_transmitted u = k"
    using send_event_queues [OF u(1)] r(2,3,4,5) q4 by (simp_all add: all_works_def encoded_works_def queues_kept_def)
  moreover have "mumble_audio_playback_async sample_env sample_world mem0 sample_audio (\<lambda>pipes. pipes) 0 True True ?q4 = Some u"
    using r(1) u(1) by (simp add: mumble_audio_playback_async_def)
  then have "playback_step sample_env sample_audio sample_opus (\<lambda>pipes. pipes = []) ?q4 u"
    by (intro playback_step.tick) simp_all
  ultimately show ?thesis
    using sent playback_reachable.step [OF reached] by (intro exI [of _ u]) simp
qed

section \<open>Properties\<close>

text \<open>
  C6. Voice leaves in the order it was mixed, under every interleaving of the threads, the script sending packets
  of its own at any time: the works that were sent, then those that wait to be sent, that Opus holds and that wait
  for Opus, are the packets of the client in order, with ascending sequence numbers. A number is missing for each work
  for which no memory was granted and for each packet the script sent, and for nothing else; when there is none of
  them, the numbers have no gap. When no work is lost, what goes out is what Opus made of the mixed packets, fed to
  it one after the other.
\<close>

theorem voice_in_order:
  assumes "playback_reachable E L opus allowed p0 p" "idle p0"
  shows "\<exists>n rest. audio_sequence (pb_client p) = audio_sequence (pb_client p0) + of_nat n \<and>
    all_works p = map fst (pb_sent p) @ rest \<and>
    subseq (map wk_sequence (all_works p)) (numbers_from (audio_sequence (pb_client p0)) n) \<and>
    length (all_works p) + pb_lost p + pb_transmitted p = n \<and>
    (pb_lost p = 0 \<and> pb_transmitted p = 0 \<longrightarrow>
      map wk_sequence (all_works p) = numbers_from (audio_sequence (pb_client p0)) n) \<and>
    (pb_lost p = 0 \<longrightarrow>
      map snd (encoded_works p) = fst (run_opus opus (pb_encoder p0) (map (wk_pcm \<circ> fst) (encoded_works p))))"
proof -
  let ?start = "audio_sequence (pb_client p0)"
  obtain n where n: "audio_sequence (pb_client p) = ?start + of_nat n"
    "subseq (map wk_sequence (all_works p)) (numbers_from ?start n)"
    "length (all_works p) + pb_lost p + pb_transmitted p = n"
    "pb_lost p = 0 \<longrightarrow> run_opus opus (pb_encoder p0) (map (wk_pcm \<circ> fst) (encoded_works p)) =
       (map snd (encoded_works p), pb_encoder p)"
    using in_order_reachable [OF assms] unfolding in_order_def by (elim exE conjE) (rule that)
  have "map wk_sequence (all_works p) = numbers_from ?start n" if "pb_lost p = 0" "pb_transmitted p = 0"
    using subseq_same_length [OF n(2)] n(3) that by (simp add: numbers_from_def)
  moreover have "\<exists>rest. all_works p = map fst (pb_sent p) @ rest" by (simp add: all_works_def encoded_works_def)
  ultimately show ?thesis using n by auto
qed

theorem voice_in_order_witness:
  "(\<exists>p. playback_reachable sample_env sample_audio sample_opus (\<lambda>pipes. pipes = []) sample_playback p \<and>
     pb_lost p = 0 \<and> pb_transmitted p = 0 \<and> map wk_sequence (all_works p) = [0] \<and> audio_sequence (pb_client p) = 1) \<and>
   (\<exists>p. playback_reachable sample_env sample_audio sample_opus (\<lambda>pipes. pipes = []) sample_playback p \<and>
     pb_lost p = 0 \<and> pb_transmitted p = 1 \<and> length (all_works p) = 1 \<and> audio_sequence (pb_client p) = 2)"
proof -
  have start: "idle sample_playback" "audio_sequence (pb_client sample_playback) = 0"
    by (simp_all add: idle_def sample_playback_def mumble_client_new_def)
  have "\<exists>p. playback_reachable sample_env sample_audio sample_opus (\<lambda>pipes. pipes = []) sample_playback p \<and>
     pb_lost p = 0 \<and> pb_transmitted p = k \<and> length (all_works p) = 1 \<and>
     audio_sequence (pb_client p) = of_nat (Suc k) \<and> (k = 0 \<longrightarrow> map wk_sequence (all_works p) = [0])" for k
  proof -
    obtain p where p: "playback_reachable sample_env sample_audio sample_opus (\<lambda>pipes. pipes = []) sample_playback p"
      "length (all_works p) = 1" "pb_lost p = 0" "pb_transmitted p = k"
      using sample_playback_event by blast
    with voice_in_order [OF p(1) start(1)] start(2) show ?thesis
      by (intro exI [of _ p]) (auto simp: numbers_from_def)
  qed
  from this [of 0] this [of 1] show ?thesis by auto
qed

text \<open>
  A transmission that consists of audio files never ends: as long as there are no pipes, no packet
  that is sent, whatever streams play, stop, loop and come to their ends, is marked as the last one, which
  the comment of \<open>end_frame\<close> promises when reading a file stops.
\<close>

theorem files_never_terminated:
  assumes "playback_reachable E L opus (\<lambda>pipes. pipes = []) p0 p" "idle p0" "pb_pipes p0 = []" "\<not> pb_active p0"
  shows "\<forall>(work, encoded) \<in> set (pb_sent p). \<not> wk_end_frame work"
proof -
  have "unterminated p"
    using assms(1)
  proof induction
    case start
    then show ?case
      using assms(2-4) by (simp add: unterminated_def idle_def all_works_def encoded_works_def)
  next
    case (step p p')
    from unterminated_step [OF step(2) step.IH] show ?case .
  qed
  moreover have "fst ` set (pb_sent p) \<subseteq> set (all_works p)" by (auto simp: all_works_def encoded_works_def)
  ultimately show ?thesis by (force simp: unterminated_def)
qed

text \<open>
  A turn of the playback thread that is due ends, unless the clock is about to wrap around: the next
  time is the first one after now that lies a whole number of packets after the last, so that late
  wake-ups do not shift the packets; the main thread is woken once, and only for a connected client.
\<close>

theorem playback_turn_catches_up:
  assumes "ck_next k \<le> time" "audio_frames c \<in> {10, 20, 40, 60}" "unat time + 60000000 < 2 ^ 64"
  shows "\<exists>upcoming. playback_turn time c k = Some (connected c, \<lparr> ck_next = upcoming, ck_last = time \<rparr>) \<and>
    time < upcoming \<and> unat upcoming \<le> unat time + unat (audio_frames c) * 1000000 \<and>
    (unat upcoming - unat (ck_next k)) mod (unat (audio_frames c) * 1000000) = 0"
proof -
  let ?i = "ucast (audio_frames c * 1000000) :: u64"
  have i: "unat ?i = unat (audio_frames c) * 1000000" using assms(2) by auto
  then have "unat ?i > 0" "unat time + unat ?i < 2 ^ 64" using assms(2,3) by auto
  from advance_past_reaches [OF this assms(1)] obtain n
    where "advance_past time ?i (ck_next k) = Some (ck_next k + of_nat n * ?i)"
      "unat (ck_next k + of_nat n * ?i) = unat (ck_next k) + n * unat ?i"
      "unat time < unat (ck_next k) + n * unat ?i" "unat (ck_next k) + n * unat ?i \<le> unat time + unat ?i"
    by blast
  with assms(1) i show ?thesis
    by (intro exI [of _ "ck_next k + of_nat n * ?i"]) (cases k, simp add: playback_turn_def word_less_nat_alt)
qed

theorem files_never_terminated_witness:
  "\<exists>p. playback_reachable sample_env sample_audio sample_opus (\<lambda>pipes. pipes = []) sample_playback p \<and>
     length (pb_sent p) = 1 \<and> (\<forall>(work, encoded) \<in> set (pb_sent p). \<not> wk_end_frame work)"
proof -
  obtain p where p: "playback_reachable sample_env sample_audio sample_opus (\<lambda>pipes. pipes = []) sample_playback p"
    "length (pb_sent p) = 1"
    using sample_playback_event by blast
  have "idle sample_playback" "pb_pipes sample_playback = []" "\<not> pb_active sample_playback"
    by (simp_all add: idle_def sample_playback_def)
  from files_never_terminated [OF p(1) this] p show ?thesis by blast
qed

theorem playback_turn_catches_up_witness:
  "\<exists>upcoming. playback_turn 50000000 ((mumble_client_new 1 5 735 0 0) \<lparr> connected := True \<rparr>) \<lparr> ck_next = 5000000, ck_last = 0 \<rparr> =
     Some (True, \<lparr> ck_next = upcoming, ck_last = 50000000 \<rparr>) \<and> 50000000 < upcoming \<and> unat upcoming \<le> 70000000"
  using playback_turn_catches_up [of "\<lparr> ck_next = 5000000, ck_last = 0 \<rparr>" 50000000 "(mumble_client_new 1 5 735 0 0) \<lparr> connected := True \<rparr>"]
  by (auto simp: mumble_client_new_def)

end
