(* ===== verification/Registry.thy ===== *)
theory Registry
  imports Hooks Bindings
begin

text \<open>
  The registries of references (the end of \<open>mumble/mumble.c\<close>): objects of Lua that C code keeps, by a
  number that \<open>luaL_ref\<close> gave, in tables of its own. The root table is in Lua's registry under the
  number \<open>MUMBLE_REGISTRY\<close>, and holds the tables for clients, timers, threads, pipes and data. The
  functions work on the Lua stack, bottom first; a table is the value \<open>LObject ''table'' n\<close>.
\<close>

section \<open>The contract of a store of references\<close>

text \<open>
  A variable of C holds the reference of a value, or none. \<open>Keep\<close> is what the bindings do: they drop
  what the variable refers to and then keep the new value. \<open>Look\<close> pushes the value.
\<close>

datatype 'v ref_op = Keep nat 'v | Drop nat | Look nat

fun run_refs ::
  "('v \<Rightarrow> 's \<Rightarrow> (int \<times> 's) option) \<Rightarrow> (int \<Rightarrow> 's \<Rightarrow> 'v option) \<Rightarrow> (int \<Rightarrow> 's \<Rightarrow> (int \<times> 's) option) \<Rightarrow>
   'v ref_op list \<Rightarrow> (nat \<Rightarrow> int) \<Rightarrow> 's \<Rightarrow> ('v list \<times> (nat \<Rightarrow> int) \<times> 's) option" where
  "run_refs keep get forget [] h s = Some ([], h, s)"
| "run_refs keep get forget (Keep x v # ops) h s =
     do { (_, s) \<leftarrow> forget (h x) s; (r, s) \<leftarrow> keep v s; run_refs keep get forget ops (h(x := r)) s }"
| "run_refs keep get forget (Drop x # ops) h s =
     do { (r, s) \<leftarrow> forget (h x) s; run_refs keep get forget ops (h(x := r)) s }"
| "run_refs keep get forget (Look x # ops) h s =
     do { v \<leftarrow> get (h x) s; (vs, h, s) \<leftarrow> run_refs keep get forget ops h s; Some (v # vs, h, s) }"

fun spec_refs :: "'v \<Rightarrow> 'v ref_op list \<Rightarrow> (nat \<Rightarrow> 'v option) \<Rightarrow> 'v list \<times> (nat \<Rightarrow> 'v option)" where
  "spec_refs nil [] m = ([], m)"
| "spec_refs nil (Keep x v # ops) m = spec_refs nil ops (m(x \<mapsto> v))"
| "spec_refs nil (Drop x # ops) m = spec_refs nil ops (m(x := None))"
| "spec_refs nil (Look x # ops) m =
     (let (vs, m') = spec_refs nil ops m in ((case m x of None \<Rightarrow> nil | Some v \<Rightarrow> v) # vs, m'))"

locale reference_store =
  fixes ok :: "'s \<Rightarrow> bool"
    and refs :: "'s \<Rightarrow> int \<Rightarrow> 'v option"
    and noref :: int
    and nil :: 'v
    and keep :: "'v \<Rightarrow> 's \<Rightarrow> (int \<times> 's) option"
    and get :: "int \<Rightarrow> 's \<Rightarrow> 'v option"
    and forget :: "int \<Rightarrow> 's \<Rightarrow> (int \<times> 's) option"
  assumes keep_law: "ok s \<Longrightarrow> v \<noteq> nil \<Longrightarrow>
      \<exists>r s'. keep v s = Some (r, s') \<and> ok s' \<and> r \<noteq> noref \<and> refs s r = None \<and> refs s' = (refs s)(r \<mapsto> v)"
    and get_law: "ok s \<Longrightarrow> refs s r = Some v \<Longrightarrow> get r s = Some v"
    and get_noref: "ok s \<Longrightarrow> get noref s = Some nil"
    and forget_law: "ok s \<Longrightarrow> refs s r = Some v \<Longrightarrow>
      \<exists>s'. forget r s = Some (noref, s') \<and> ok s' \<and> refs s' = (refs s)(r := None)"
    and forget_noref: "forget noref s = Some (noref, s)"
begin

definition holding :: "(nat \<Rightarrow> int) \<Rightarrow> (nat \<Rightarrow> 'v option) \<Rightarrow> 's \<Rightarrow> bool" where
  "holding h m s \<longleftrightarrow>
     (\<forall>x. m x = None \<longrightarrow> h x = noref) \<and>
     (\<forall>x v. m x = Some v \<longrightarrow> h x \<noteq> noref \<and> refs s (h x) = Some v) \<and>
     (\<forall>x y. x \<noteq> y \<longrightarrow> m x \<noteq> None \<longrightarrow> m y \<noteq> None \<longrightarrow> h x \<noteq> h y)"

lemma holdingD:
  "holding h m s \<Longrightarrow> m x = None \<Longrightarrow> h x = noref"
  "holding h m s \<Longrightarrow> m x = Some v \<Longrightarrow> refs s (h x) = Some v"
  by (simp_all add: holding_def)

lemma forget_holding:
  assumes "ok s" "holding h m s"
  shows "\<exists>s'. forget (h x) s = Some (noref, s') \<and> ok s' \<and> holding (h(x := noref)) (m(x := None)) s' \<and>
    (\<forall>r. refs s r = None \<longrightarrow> refs s' r = None)"
proof (cases "m x")
  case None
  then have "h x = noref" using holdingD(1) [OF assms(2)] by simp
  moreover have "holding (h(x := noref)) (m(x := None)) s" using assms(2) None by (auto simp: holding_def)
  ultimately show ?thesis using forget_noref assms(1) by auto
next
  case (Some v)
  then have h: "refs s (h x) = Some v" using holdingD(2) [OF assms(2)] by simp
  then obtain s' where s': "forget (h x) s = Some (noref, s')" "ok s'" "refs s' = (refs s)(h x := None)"
    using forget_law [OF assms(1)] by blast
  have "y \<noteq> x \<Longrightarrow> m y \<noteq> None \<Longrightarrow> h y \<noteq> h x" for y using assms(2) Some by (auto simp: holding_def)
  then have "holding (h(x := noref)) (m(x := None)) s'"
    using assms(2) s'(3) by (auto simp: holding_def split: option.splits)
  with s' show ?thesis by auto
qed

lemma keep_holding:
  assumes "ok s" "holding h m s" "m x = None" "v \<noteq> nil"
  shows "\<exists>r s'. keep v s = Some (r, s') \<and> ok s' \<and> holding (h(x := r)) (m(x \<mapsto> v)) s'"
proof -
  obtain r s' where s': "keep v s = Some (r, s')" "ok s'" "r \<noteq> noref" "refs s r = None"
      "refs s' = (refs s)(r \<mapsto> v)"
    using keep_law [OF assms(1,4)] by blast
  have "m y \<noteq> None \<Longrightarrow> h y \<noteq> r" for y
    using holdingD(2) [OF assms(2)] s'(4) by fastforce
  then have "holding (h(x := r)) (m(x \<mapsto> v)) s'"
    using assms(2) s'(3,5) by (auto simp: holding_def split: option.splits)
  with s' show ?thesis by auto
qed

lemma run_refs_refines:
  "ok s \<Longrightarrow> holding h m s \<Longrightarrow> \<forall>x v. Keep x v \<in> set ops \<longrightarrow> v \<noteq> nil \<Longrightarrow>
   \<exists>h' s'. run_refs keep get forget ops h s = Some (fst (spec_refs nil ops m), h', s') \<and> ok s' \<and>
     holding h' (snd (spec_refs nil ops m)) s'"
proof (induction ops arbitrary: h m s)
  case Nil
  then show ?case by simp
next
  case (Cons op ops)
  note IH = Cons.IH and ops = Cons.prems(3)
  show ?case
  proof (cases op)
    case (Keep x v)
    obtain s1 where s1: "forget (h x) s = Some (noref, s1)" "ok s1" "holding (h(x := noref)) (m(x := None)) s1"
      using forget_holding [OF Cons.prems(1,2)] by blast
    have v: "v \<noteq> nil" using ops Keep by auto
    obtain r s2 where s2: "keep v s1 = Some (r, s2)" "ok s2" "holding (h(x := r)) (m(x \<mapsto> v)) s2"
      using keep_holding [OF s1(2,3) _ v, of x] by auto
    show ?thesis using IH [OF s2(2,3)] ops Keep s1(1) s2(1) by (auto simp del: fun_upd_apply)
  next
    case (Drop x)
    obtain s1 where s1: "forget (h x) s = Some (noref, s1)" "ok s1" "holding (h(x := noref)) (m(x := None)) s1"
      using forget_holding [OF Cons.prems(1,2)] by blast
    show ?thesis using IH [OF s1(2,3)] ops Drop s1(1) by (auto simp del: fun_upd_apply)
  next
    case (Look x)
    have "get (h x) s = Some (case m x of None \<Rightarrow> nil | Some v \<Rightarrow> v)"
    proof (cases "m x")
      case None
      then have "h x = noref" using holdingD(1) [OF Cons.prems(2)] by simp
      with None show ?thesis using get_noref [OF Cons.prems(1)] by simp
    next
      case (Some v)
      then have "refs s (h x) = Some v" using holdingD(2) [OF Cons.prems(2)] by simp
      with Some show ?thesis using get_law [OF Cons.prems(1)] by simp
    qed
    then show ?thesis using IH [OF Cons.prems(1,2)] ops Look by (auto split: prod.splits)
  qed
qed

end

section \<open>Tables of references\<close>

text \<open>
  \<open>luaL_ref\<close> takes the first number of the free list, or one more than the table has; \<open>luaL_unref\<close> puts
  the number back and stores the number of the next free entry in its place. The value nil is not
  stored, it has the number \<open>LUA_REFNIL\<close>.
\<close>

record ref_table =
  rt_values :: "int \<Rightarrow> lval option"
  rt_free :: "int list"
  rt_size :: int

definition LUA_NOREF :: int where "LUA_NOREF = -2"
definition LUA_REFNIL :: int where "LUA_REFNIL = -1"

definition no_refs :: ref_table where
  "no_refs = \<lparr> rt_values = Map.empty, rt_free = [], rt_size = 0 \<rparr>"

definition luaL_ref :: "lval \<Rightarrow> ref_table \<Rightarrow> int \<times> ref_table" where
  "luaL_ref v t =
     (if v = LNil then (LUA_REFNIL, t)
      else case rt_free t of
        r # rs \<Rightarrow> (r, t \<lparr> rt_values := (rt_values t)(r \<mapsto> v), rt_free := rs \<rparr>)
      | [] \<Rightarrow>
          (rt_size t + 1, t \<lparr> rt_values := (rt_values t)(rt_size t + 1 \<mapsto> v), rt_size := rt_size t + 1 \<rparr>))"

definition luaL_unref :: "int \<Rightarrow> ref_table \<Rightarrow> ref_table" where
  "luaL_unref r t =
     (if 0 \<le> r
      then t \<lparr> rt_values := (rt_values t)(r \<mapsto> LInt (case rt_free t of [] \<Rightarrow> 0 | f # _ \<Rightarrow> f)),
               rt_free := r # rt_free t \<rparr>
      else t)"

definition raw_get :: "ref_table \<Rightarrow> int \<Rightarrow> lval" where
  "raw_get t r = (case rt_values t r of None \<Rightarrow> LNil | Some v \<Rightarrow> v)"

section \<open>The stack\<close>

text \<open>Table 0 is Lua's own registry. Using what is no table as one raises an error nobody catches.\<close>

record lua_state =
  lua_stack :: lstack
  lua_tables :: "nat \<Rightarrow> ref_table"
  lua_made :: nat

definition push :: "lval \<Rightarrow> lua_state \<Rightarrow> lua_state" where
  "push v l = l \<lparr> lua_stack := lua_stack l @ [v] \<rparr>"

definition on_stack :: "(lstack \<Rightarrow> lstack option) \<Rightarrow> lua_state \<Rightarrow> lua_state option" where
  "on_stack f l = do { s \<leftarrow> f (lua_stack l); Some (l \<lparr> lua_stack := s \<rparr>) }"

fun table_number :: "lval \<Rightarrow> nat option" where
  "table_number (LObject metatable n) = (if metatable = ''table'' then Some n else None)"
| "table_number _ = None"

definition lua_newtable :: "lua_state \<Rightarrow> lua_state" where
  "lua_newtable l =
     push (LObject ''table'' (lua_made l))
       (l \<lparr> lua_tables := (lua_tables l)(lua_made l := no_refs), lua_made := lua_made l + 1 \<rparr>)"

definition table_at :: "int \<Rightarrow> lua_state \<Rightarrow> nat option" where
  "table_at i l = Option.bind (lua_at (lua_stack l) i) table_number"

definition lua_rawgeti :: "int \<Rightarrow> int \<Rightarrow> lua_state \<Rightarrow> lua_state option" where
  "lua_rawgeti i n l = do { t \<leftarrow> table_at i l; Some (push (raw_get (lua_tables l t) n) l) }"

definition registry_rawgeti :: "int \<Rightarrow> lua_state \<Rightarrow> lua_state" where
  "registry_rawgeti n l = push (raw_get (lua_tables l 0) n) l"

text \<open>\<open>luaL_ref\<close> takes the value from the top of the stack.\<close>

definition ref_top :: "nat \<Rightarrow> lua_state \<Rightarrow> (int \<times> lua_state) option" where
  "ref_top t l = do {
     v \<leftarrow> lua_at (lua_stack l) (-1);
     let (r, tab) = luaL_ref v (lua_tables l t);
     Some (r, l \<lparr> lua_stack := butlast (lua_stack l), lua_tables := (lua_tables l)(t := tab) \<rparr>)
   }"

definition unref_at :: "nat \<Rightarrow> int \<Rightarrow> lua_state \<Rightarrow> lua_state" where
  "unref_at t r l = l \<lparr> lua_tables := (lua_tables l)(t := luaL_unref r (lua_tables l t)) \<rparr>"

section \<open>The registries\<close>

text \<open>The variables are those of the process, whatever the number of Lua states in it.\<close>

record registries =
  MUMBLE_REGISTRY :: int
  MUMBLE_CLIENTS :: int
  MUMBLE_TIMER_REG :: int
  MUMBLE_THREAD_REG :: int
  MUMBLE_PIPE_REG :: int
  MUMBLE_DATA_REG :: int

definition mumble_ref :: "registries \<Rightarrow> lua_state \<Rightarrow> (int \<times> lua_state) option" where
  "mumble_ref g l = do {
     l \<leftarrow> on_stack (lua_pushvalue (-2)) (registry_rawgeti (MUMBLE_REGISTRY g) l);
     t \<leftarrow> table_at (-2) l;
     (ref, l) \<leftarrow> ref_top t l;
     l \<leftarrow> on_stack (lua_pop 2) l;
     Some (ref, l)
   }"

definition mumble_pushref :: "registries \<Rightarrow> int \<Rightarrow> lua_state \<Rightarrow> lua_state option" where
  "mumble_pushref g ref l = do {
     l \<leftarrow> lua_rawgeti (-1) ref (registry_rawgeti (MUMBLE_REGISTRY g) l);
     on_stack (lua_remove (-2)) l
   }"

definition mumble_unref :: "registries \<Rightarrow> int \<Rightarrow> lua_state \<Rightarrow> (int \<times> lua_state) option" where
  "mumble_unref g ref l =
     (if ref = LUA_NOREF then Some (ref, l)
      else do {
        let l = registry_rawgeti (MUMBLE_REGISTRY g) l;
        t \<leftarrow> table_at (-1) l;
        l \<leftarrow> on_stack (lua_pop 1) (unref_at t ref l);
        Some (LUA_NOREF, l)
      })"

definition mumble_registry_ref :: "registries \<Rightarrow> int \<Rightarrow> lua_state \<Rightarrow> (int \<times> lua_state) option" where
  "mumble_registry_ref g t l = do {
     l \<leftarrow> mumble_pushref g t l;
     l \<leftarrow> on_stack (lua_pushvalue (-2)) l;
     n \<leftarrow> table_at (-2) l;
     (ref, l) \<leftarrow> ref_top n l;
     l \<leftarrow> on_stack (lua_pop 2) l;
     Some (ref, l)
   }"

definition mumble_registry_pushref :: "registries \<Rightarrow> int \<Rightarrow> int \<Rightarrow> lua_state \<Rightarrow> lua_state option" where
  "mumble_registry_pushref g t ref l = do {
     l \<leftarrow> mumble_pushref g t l;
     l \<leftarrow> lua_rawgeti (-1) ref l;
     on_stack (lua_remove (-2)) l
   }"

definition mumble_registry_unref :: "registries \<Rightarrow> int \<Rightarrow> int \<Rightarrow> lua_state \<Rightarrow> (int \<times> lua_state) option" where
  "mumble_registry_unref g t ref l =
     (if ref = LUA_NOREF then Some (ref, l)
      else do {
        l \<leftarrow> mumble_pushref g t l;
        n \<leftarrow> table_at (-1) l;
        l \<leftarrow> on_stack (lua_pop 1) (unref_at n ref l);
        Some (LUA_NOREF, l)
      })"

text \<open>The start of \<open>luaopen_mumble\<close>. \<open>l\<close> is any state of Lua; \<open>g\<close> holds what the variables held before.\<close>

definition open_table :: "registries \<Rightarrow> lua_state \<Rightarrow> (int \<times> lua_state) option" where
  "open_table g l = mumble_ref g (lua_newtable l)"

definition open_registries :: "registries \<Rightarrow> lua_state \<Rightarrow> (registries \<times> lua_state) option" where
  "open_registries g l = do {
     (r, l) \<leftarrow> ref_top 0 (lua_newtable l);
     let g = g \<lparr> MUMBLE_REGISTRY := r \<rparr>;
     (r, l) \<leftarrow> open_table g l;
     let g = g \<lparr> MUMBLE_CLIENTS := r \<rparr>;
     (r, l) \<leftarrow> open_table g l;
     let g = g \<lparr> MUMBLE_TIMER_REG := r \<rparr>;
     (r, l) \<leftarrow> open_table g l;
     let g = g \<lparr> MUMBLE_THREAD_REG := r \<rparr>;
     (r, l) \<leftarrow> open_table g l;
     let g = g \<lparr> MUMBLE_PIPE_REG := r \<rparr>;
     (r, l) \<leftarrow> open_table g l;
     Some (g \<lparr> MUMBLE_DATA_REG := r \<rparr>, l)
   }"

section \<open>Calling functions of the script\<close>

text \<open>
  \<open>lua_pcall\<close> of a function whose arguments are above it, with the handler at an index of the stack,
  where a function must be: \<open>pcall_frame\<close> takes the function and its arguments off the stack,
  \<open>pcall_done\<close> leaves no result, or the message of an error, which the handler made.
\<close>

definition pcall_frame :: "nat \<Rightarrow> int \<Rightarrow> lua_state \<Rightarrow> (lval \<times> lval list \<times> lua_state) option" where
  "pcall_frame nargs errfunc l = do {
     h \<leftarrow> lua_at (lua_stack l) errfunc;
     let base = length (lua_stack l) - (nargs + 1);
     if length (lua_stack l) < nargs + 1 \<or> \<not> is_function h then None
     else Some (lua_stack l ! base, drop (base + 1) (lua_stack l), l \<lparr> lua_stack := take base (lua_stack l) \<rparr>)
   }"

definition pcall_done :: "bool \<Rightarrow> lua_state \<Rightarrow> lua_state" where
  "pcall_done ok l = (if ok then l else push (LMethod ''message'') l)"

text \<open>The values that are full userdata.\<close>

fun is_userdata :: "lval \<Rightarrow> bool" where
  "is_userdata (LUser s) = True"
| "is_userdata (LChan i) = True"
| "is_userdata (LClient i) = True"
| "is_userdata (LTarget t) = True"
| "is_userdata (LObject metatable n) = (metatable \<noteq> ''table'')"
| "is_userdata _ = False"

text \<open>\<open>luaL_checkfunction\<close>, and \<open>luaL_checktype\<close> for a function.\<close>

definition check_function :: "lval list \<Rightarrow> nat \<Rightarrow> lval lua_result" where
  "check_function args n =
     (case arg args n of
        Some f \<Rightarrow> if is_function f then Inr f else Inl (BadArgument n ''function expected'')
      | None \<Rightarrow> Inl (BadArgument n ''function expected''))"

lemma check_function_is: "check_function args n = Inr f \<Longrightarrow> is_function f"
  by (auto simp: check_function_def split: option.splits if_splits)

section \<open>Facts of tables\<close>

text \<open>What a table holds: the entries that are not free.\<close>

definition held :: "ref_table \<Rightarrow> int \<Rightarrow> lval option" where
  "held t r = (if r \<in> set (rt_free t) then None else rt_values t r)"

definition ref_table_ok :: "ref_table \<Rightarrow> bool" where
  "ref_table_ok t \<longleftrightarrow> distinct (rt_free t) \<and> 0 \<le> rt_size t \<and> set (rt_free t) \<subseteq> {1 .. rt_size t} \<and>
     (\<forall>r. rt_values t r \<noteq> None \<longleftrightarrow> r \<in> {1 .. rt_size t}) \<and> (\<forall>r. held t r \<noteq> Some LNil) \<and>
     (\<forall>r \<in> set (rt_free t). \<exists>i. rt_values t r = Some (LInt i))"

lemma no_refs_ok [simp]: "ref_table_ok no_refs" "held no_refs = Map.empty"
  by (auto simp: ref_table_ok_def no_refs_def held_def)

lemma luaL_ref_correct:
  assumes "ref_table_ok t" "v \<noteq> LNil" "luaL_ref v t = (r, t')"
  shows "ref_table_ok t' \<and> 0 < r \<and> held t r = None \<and> held t' = (held t)(r \<mapsto> v)"
proof (cases "rt_free t")
  case Nil
  then have new: "r = rt_size t + 1"
    "t' = t \<lparr> rt_values := (rt_values t)(r \<mapsto> v), rt_size := rt_size t + 1 \<rparr>"
    using assms(2,3) by (auto simp: luaL_ref_def)
  have "rt_values t r \<noteq> None \<longleftrightarrow> r \<in> {1 .. rt_size t}" using assms(1) by (simp add: ref_table_ok_def)
  then have fresh: "rt_values t r = None" using new(1) by simp
  have h: "held t' = (held t)(r \<mapsto> v)" using Nil new(2) by (auto simp: held_def)
  have d: "\<forall>x. rt_values t' x \<noteq> None \<longleftrightarrow> x \<in> {1 .. rt_size t'}"
    using assms(1) new by (auto simp: ref_table_ok_def)
  have i: "\<forall>x \<in> set (rt_free t'). \<exists>i. rt_values t' x = Some (LInt i)" using Nil new(2) by simp
  show ?thesis using assms(1,2) Nil new fresh h d i by (auto simp: ref_table_ok_def held_def)
next
  case (Cons f fs)
  then have new: "r = f" "t' = t \<lparr> rt_values := (rt_values t)(r \<mapsto> v), rt_free := fs \<rparr>"
    using assms(2,3) by (auto simp: luaL_ref_def)
  have r: "r \<in> {1 .. rt_size t}" "r \<notin> set fs" "held t r = None"
    using assms(1) Cons new(1) by (auto simp: ref_table_ok_def held_def)
  have h: "held t' = (held t)(r \<mapsto> v)" using Cons new r(2) by (auto simp: held_def fun_eq_iff)
  have d: "\<forall>x. rt_values t' x \<noteq> None \<longleftrightarrow> x \<in> {1 .. rt_size t'}"
    using assms(1) new(2) r(1) by (auto simp: ref_table_ok_def)
  have i: "\<forall>x \<in> set (rt_free t'). \<exists>i. rt_values t' x = Some (LInt i)"
    using assms(1) Cons new r(2) by (auto simp: ref_table_ok_def)
  show ?thesis using assms(1,2) Cons new r h d i by (auto simp: ref_table_ok_def)
qed

lemma luaL_unref_correct:
  assumes "ref_table_ok t" "held t r \<noteq> None"
  shows "ref_table_ok (luaL_unref r t) \<and> held (luaL_unref r t) = (held t)(r := None)"
proof -
  have r: "r \<in> {1 .. rt_size t}" "r \<notin> set (rt_free t)"
    using assms by (auto simp: ref_table_ok_def held_def split: if_splits)
  have h: "held (luaL_unref r t) = (held t)(r := None)"
    using r by (auto simp: luaL_unref_def held_def fun_eq_iff)
  have d: "\<forall>x. rt_values (luaL_unref r t) x \<noteq> None \<longleftrightarrow> x \<in> {1 .. rt_size (luaL_unref r t)}"
    using assms(1) r(1) by (auto simp: ref_table_ok_def luaL_unref_def)
  have i: "\<forall>x \<in> set (rt_free (luaL_unref r t)). \<exists>i. rt_values (luaL_unref r t) x = Some (LInt i)"
    using assms(1) r by (auto simp: ref_table_ok_def luaL_unref_def)
  show ?thesis using assms(1) r h d i by (auto simp: ref_table_ok_def luaL_unref_def)
qed

lemma held_raw_get: "held t r = Some v \<Longrightarrow> raw_get t r = v"
  by (auto simp: held_def raw_get_def split: if_splits)

text \<open>What a free entry gives is a number.\<close>

lemma raw_get_held:
  assumes "ref_table_ok t" "raw_get t r = v" "v \<noteq> LNil" "\<forall>i. v \<noteq> LInt i"
  shows "held t r = Some v"
  using assms by (fastforce simp: raw_get_def held_def ref_table_ok_def split: option.splits)

section \<open>Facts of the registries\<close>

text \<open>The registry with the number \<open>t\<close> is there, as the table \<open>n\<close>.\<close>

definition registry_ready :: "registries \<Rightarrow> int \<Rightarrow> nat \<Rightarrow> lua_state \<Rightarrow> bool" where
  "registry_ready g t n l \<longleftrightarrow>
     (\<exists>m. raw_get (lua_tables l 0) (MUMBLE_REGISTRY g) = LObject ''table'' m \<and>
        raw_get (lua_tables l m) t = LObject ''table'' n \<and> n \<noteq> 0 \<and> n \<noteq> m) \<and>
     ref_table_ok (lua_tables l n)"

abbreviation refs_at :: "nat \<Rightarrow> lua_state \<Rightarrow> int \<Rightarrow> lval option" where
  "refs_at n l \<equiv> held (lua_tables l n)"

lemma push_simps [simp]:
  "lua_stack (push v l) = lua_stack l @ [v]" "lua_tables (push v l) = lua_tables l"
  by (simp_all add: push_def)

lemma push_ready [simp]: "registry_ready g t n (push v l) = registry_ready g t n l"
  by (simp add: registry_ready_def)

lemma lua_at_last [simp]: "lua_at (s @ [v]) (-1) = Some v"
  by (rule lua_at_top)

lemma lua_at_last2 [simp]: "lua_at (s @ [u, v]) (-1) = Some v"
  using lua_at_top(1) [of "s @ [u]" v] by simp

lemma lua_remove_two: "lua_remove (-2) (s @ [u, v]) = Some (s @ [v])"
  by (rule lua_remove_below)

lemma mumble_pushref_ready:
  assumes "registry_ready g t n l"
  shows "mumble_pushref g t l = Some (push (LObject ''table'' n) l)"
  using assms
  by (auto simp: mumble_pushref_def registry_rawgeti_def lua_rawgeti_def table_at_def on_stack_def
      registry_ready_def push_def lua_remove_two)

lemma mumble_registry_ref_correct:
  assumes "registry_ready g t n l" "v \<noteq> LNil"
  shows "\<exists>r l'. mumble_registry_ref g t (push v l) = Some (r, l') \<and> lua_stack l' = lua_stack l \<and>
    registry_ready g t n l' \<and> 0 < r \<and> refs_at n l r = None \<and> refs_at n l' = (refs_at n l)(r \<mapsto> v) \<and>
    (\<forall>k. k \<noteq> n \<longrightarrow> lua_tables l' k = lua_tables l k)"
proof -
  obtain r tab where r: "luaL_ref v (lua_tables l n) = (r, tab)" by fastforce
  have tab: "ref_table_ok tab" "0 < r" "refs_at n l r = None" "held tab = (refs_at n l)(r \<mapsto> v)"
    using luaL_ref_correct [OF _ assms(2) r] assms(1) by (simp_all add: registry_ready_def)
  have p: "mumble_pushref g t (push v l) = Some (push (LObject ''table'' n) (push v l))"
    using mumble_pushref_ready [of g t n "push v l"] assms(1) by simp
  let ?l = "l \<lparr> lua_tables := (lua_tables l)(n := tab) \<rparr>"
  have "mumble_registry_ref g t (push v l) = Some (r, ?l)"
    using r unfolding mumble_registry_ref_def p
    by (simp add: on_stack_def lua_pushvalue_def table_at_def lua_at_def lua_index_def nth_append ref_top_def push_def lua_pop_def)
  moreover have "registry_ready g t n ?l" using assms(1) tab(1) by (auto simp: registry_ready_def)
  ultimately show ?thesis using tab by auto
qed

lemma mumble_registry_pushref_correct:
  assumes "registry_ready g t n l"
  shows "mumble_registry_pushref g t r l = Some (push (raw_get (lua_tables l n) r) l)"
  using assms
  unfolding mumble_registry_pushref_def mumble_pushref_ready [OF assms]
  by (simp add: on_stack_def lua_rawgeti_def table_at_def
      push_def lua_remove_two)

lemma mumble_registry_unref_correct:
  assumes "registry_ready g t n l" "refs_at n l r \<noteq> None" "r \<noteq> LUA_NOREF"
  shows "\<exists>l'. mumble_registry_unref g t r l = Some (LUA_NOREF, l') \<and> lua_stack l' = lua_stack l \<and>
    registry_ready g t n l' \<and> refs_at n l' = (refs_at n l)(r := None) \<and>
    (\<forall>k. k \<noteq> n \<longrightarrow> lua_tables l' k = lua_tables l k)"
proof -
  let ?l = "l \<lparr> lua_tables := (lua_tables l)(n := luaL_unref r (lua_tables l n)) \<rparr>"
  have ok: "ref_table_ok (luaL_unref r (lua_tables l n))" "refs_at n ?l = (refs_at n l)(r := None)"
    using luaL_unref_correct [of "lua_tables l n" r] assms(1,2) by (simp_all add: registry_ready_def)
  have "mumble_registry_unref g t r l = Some (LUA_NOREF, ?l)"
    using assms(3) unfolding mumble_registry_unref_def mumble_pushref_ready [OF assms(1)]
    by (simp add: on_stack_def table_at_def unref_at_def push_def lua_pop_def)
  moreover have "registry_ready g t n ?l" using assms(1) ok(1) by (auto simp: registry_ready_def)
  ultimately show ?thesis using ok(2) by auto
qed

lemma unref_noref [simp]: "mumble_registry_unref g t LUA_NOREF l = Some (LUA_NOREF, l)"
  by (simp add: mumble_registry_unref_def)

section \<open>The registries are stores of references\<close>

definition keep_ref :: "registries \<Rightarrow> int \<Rightarrow> lval \<Rightarrow> lua_state \<Rightarrow> (int \<times> lua_state) option" where
  "keep_ref g t v l = mumble_registry_ref g t (push v l)"

definition look_ref :: "registries \<Rightarrow> int \<Rightarrow> int \<Rightarrow> lua_state \<Rightarrow> lval option" where
  "look_ref g t r l = do { l \<leftarrow> mumble_registry_pushref g t r l; lua_at (lua_stack l) (-1) }"

lemma ref_in_table: "ref_table_ok t \<Longrightarrow> rt_values t r \<noteq> None \<Longrightarrow> 1 \<le> r"
  unfolding ref_table_ok_def by (metis atLeastAtMost_iff)

lemma held_positive: "ref_table_ok t \<Longrightarrow> held t r = Some v \<Longrightarrow> 0 < r"
  using ref_in_table [of t r] by (force simp: held_def split: if_splits)

lemma look_noref:
  assumes "registry_ready g t n l"
  shows "look_ref g t LUA_NOREF l = Some LNil"
proof -
  have "rt_values (lua_tables l n) LUA_NOREF = None"
    using ref_in_table [of "lua_tables l n" LUA_NOREF] assms
    by (cases "rt_values (lua_tables l n) LUA_NOREF") (auto simp: registry_ready_def LUA_NOREF_def)
  then show ?thesis by (simp add: look_ref_def mumble_registry_pushref_correct [OF assms] raw_get_def)
qed

lemma look_ref_ready: "registry_ready g t n l \<Longrightarrow> look_ref g t r l = Some (raw_get (lua_tables l n) r)"
  by (simp add: look_ref_def mumble_registry_pushref_correct [of g t n l])

text \<open>A run uses only its own registry: the stack and the other tables are as they were in \<open>l0\<close>.\<close>

definition registry_frame :: "registries \<Rightarrow> int \<Rightarrow> nat \<Rightarrow> lua_state \<Rightarrow> lua_state \<Rightarrow> bool" where
  "registry_frame g t n l0 l \<longleftrightarrow> registry_ready g t n l \<and> lua_stack l = lua_stack l0 \<and>
     (\<forall>k. k \<noteq> n \<longrightarrow> lua_tables l k = lua_tables l0 k)"

interpretation refs: reference_store "registry_frame g t n l0" "refs_at n" LUA_NOREF LNil "keep_ref g t"
  "look_ref g t" "mumble_registry_unref g t" for g t n l0
proof
  fix l :: lua_state and v :: lval and r :: int
  show "v \<noteq> LNil \<Longrightarrow> registry_frame g t n l0 l \<Longrightarrow>
    \<exists>r l'. keep_ref g t v l = Some (r, l') \<and> registry_frame g t n l0 l' \<and> r \<noteq> LUA_NOREF \<and>
      refs_at n l r = None \<and> refs_at n l' = (refs_at n l)(r \<mapsto> v)"
    using mumble_registry_ref_correct [of g t n l v]
    by (fastforce simp: keep_ref_def LUA_NOREF_def registry_frame_def)
  show "registry_frame g t n l0 l \<Longrightarrow> refs_at n l r = Some v \<Longrightarrow> look_ref g t r l = Some v"
    using look_ref_ready [of g t n l r] by (simp add: held_raw_get registry_frame_def)
  show "registry_frame g t n l0 l \<Longrightarrow> look_ref g t LUA_NOREF l = Some LNil"
    using look_noref [of g t n l] by (simp add: registry_frame_def)
  show "registry_frame g t n l0 l \<Longrightarrow> refs_at n l r = Some v \<Longrightarrow>
    \<exists>l'. mumble_registry_unref g t r l = Some (LUA_NOREF, l') \<and> registry_frame g t n l0 l' \<and>
      refs_at n l' = (refs_at n l)(r := None)"
    using mumble_registry_unref_correct [of g t n l r] held_positive [of "lua_tables l n" r v]
    by (fastforce simp: registry_ready_def LUA_NOREF_def registry_frame_def)
qed simp

section \<open>Opening\<close>

text \<open>A Lua state as \<open>luaL_newstate\<close> makes it, or one in which other libraries have kept references.\<close>

definition lua_ok :: "lua_state \<Rightarrow> bool" where
  "lua_ok l \<longleftrightarrow> 0 < lua_made l \<and> ref_table_ok (lua_tables l 0)"

definition new_state :: lua_state where
  "new_state = \<lparr> lua_stack = [], lua_tables = (\<lambda>_. no_refs), lua_made = 1 \<rparr>"

definition root_at :: "registries \<Rightarrow> nat \<Rightarrow> int \<Rightarrow> lua_state \<Rightarrow> bool" where
  "root_at g m k l \<longleftrightarrow> raw_get (lua_tables l 0) (MUMBLE_REGISTRY g) = LObject ''table'' m \<and> 0 < m \<and>
     m < lua_made l \<and> rt_free (lua_tables l m) = [] \<and> rt_size (lua_tables l m) = k"

definition with_table :: "nat \<Rightarrow> int \<Rightarrow> lua_state \<Rightarrow> lua_state" where
  "with_table m r l =
     l \<lparr> lua_tables := (lua_tables l)(lua_made l := no_refs,
           m := (lua_tables l m) \<lparr> rt_values := (rt_values (lua_tables l m))(r \<mapsto> LObject ''table'' (lua_made l)),
                                  rt_size := r \<rparr>),
         lua_made := lua_made l + 1 \<rparr>"

lemma open_table_made:
  assumes "root_at g m k l"
  shows "open_table g l = Some (k + 1, with_table m (k + 1) l)"
  using assms
  by (cases l)
    (simp add: root_at_def open_table_def mumble_ref_def lua_newtable_def registry_rawgeti_def on_stack_def
      lua_pushvalue_def lua_at_def lua_index_def nth_append table_at_def ref_top_def luaL_ref_def push_def
      lua_pop_def with_table_def raw_get_def fun_upd_twist butlast_append)

lemma with_table_root:
  "root_at g m k l \<Longrightarrow> MUMBLE_REGISTRY g' = MUMBLE_REGISTRY g \<Longrightarrow> root_at g' m (k + 1) (with_table m (k + 1) l)"
  by (simp add: root_at_def with_table_def)

text \<open>The table of the number \<open>k + 1\<close> stays where it is when further tables are made.\<close>

definition registry_in :: "nat \<Rightarrow> int \<Rightarrow> nat \<Rightarrow> lua_state \<Rightarrow> bool" where
  "registry_in m t n l \<longleftrightarrow> rt_values (lua_tables l m) t = Some (LObject ''table'' n) \<and> m < n \<and> n < lua_made l \<and>
     lua_tables l n = no_refs"

lemma registry_in_new: "root_at g m k l \<Longrightarrow> registry_in m (k + 1) (lua_made l) (with_table m (k + 1) l)"
  by (simp add: registry_in_def root_at_def with_table_def)

lemma registry_in_kept:
  "root_at g m k l \<Longrightarrow> registry_in m t n l \<Longrightarrow> t \<noteq> k + 1 \<Longrightarrow> registry_in m t n (with_table m (k + 1) l)"
  by (simp add: registry_in_def root_at_def with_table_def)

lemma registry_in_ready:
  "root_at g m k l \<Longrightarrow> registry_in m t n l \<Longrightarrow> registry_ready g t n l"
  by (auto simp: registry_in_def root_at_def registry_ready_def raw_get_def)

text \<open>The first tables of the root, in their order.\<close>

definition tables_from :: "nat \<Rightarrow> nat \<Rightarrow> lua_state \<Rightarrow> lua_state" where
  "tables_from m n l = fold (\<lambda>i. with_table m (int i + 1)) [0 ..< n] l"

lemma tables_from_simps [simp]:
  "tables_from m 0 l = l" "tables_from m (Suc n) l = with_table m (int n + 1) (tables_from m n l)"
  by (simp_all add: tables_from_def)

lemma root_tables_from: "root_at g m 0 l \<Longrightarrow> root_at g m (int n) (tables_from m n l)"
proof (induction n)
  case (Suc n)
  then show ?case using with_table_root [OF Suc.IH refl] by (simp add: add.commute)
qed simp

lemma tables_from_kept:
  "lua_stack (tables_from m n l) = lua_stack l" "lua_made (tables_from m n l) = lua_made l + n"
  by (induction n) (simp_all add: with_table_def)

lemma tables_from_root:
  "0 < m \<Longrightarrow> 0 < lua_made l \<Longrightarrow> lua_tables (tables_from m n l) 0 = lua_tables l 0"
  by (induction n) (simp_all add: with_table_def tables_from_kept)

lemma registry_tables_from:
  assumes "root_at g m 0 l" "i < n"
  shows "registry_in m (int i + 1) (lua_made l + i) (tables_from m n l)"
  using assms(2)
proof (induction n)
  case (Suc n)
  note root = root_tables_from [OF assms(1), of n]
  show ?case
  proof (cases "i = n")
    case True
    then show ?thesis using registry_in_new [OF root] by (simp add: tables_from_kept)
  next
    case False
    then show ?thesis using registry_in_kept [OF root] Suc by simp
  qed
qed simp

lemma open_next:
  "root_at g m 0 l \<Longrightarrow> open_table g (tables_from m n l) = Some (int (Suc n), tables_from m (Suc n) l)"
  using open_table_made [OF root_tables_from] by (simp add: add.commute)

text \<open>What opening makes: the root in Lua's registry, the five tables in it, and the variables.\<close>

lemma open_registries_made:
  assumes "lua_ok l" "luaL_ref (LObject ''table'' (lua_made l)) (lua_tables l 0) = (r, tab)"
  shows "\<exists>l0. open_registries g0 l = Some
      (\<lparr> MUMBLE_REGISTRY = r, MUMBLE_CLIENTS = 1, MUMBLE_TIMER_REG = 2, MUMBLE_THREAD_REG = 3,
         MUMBLE_PIPE_REG = 4, MUMBLE_DATA_REG = 5 \<rparr>, tables_from (lua_made l) 5 l0) \<and>
    (\<forall>g. MUMBLE_REGISTRY g = r \<longrightarrow> root_at g (lua_made l) 0 l0) \<and> lua_made l0 = lua_made l + 1 \<and>
    lua_stack l0 = lua_stack l \<and> lua_tables l0 0 = tab"
proof -
  let ?m = "lua_made l"
  define l0 where "l0 = l \<lparr> lua_tables := (lua_tables l)(?m := no_refs, 0 := tab), lua_made := ?m + 1 \<rparr>"
  have tab: "held tab r = Some (LObject ''table'' ?m)"
    using luaL_ref_correct [OF _ _ assms(2)] assms(1) by (auto simp: lua_ok_def)
  have first: "ref_top 0 (lua_newtable l) = Some (r, l0)"
    using assms by (cases l) (simp add: ref_top_def lua_newtable_def lua_ok_def l0_def push_def)
  have root: "MUMBLE_REGISTRY g = r \<Longrightarrow> root_at g ?m 0 l0" for g
    using assms(1) held_raw_get [OF tab] by (simp add: root_at_def l0_def lua_ok_def no_refs_def)
  note next_table = open_next [OF root, of _ 0] open_next [OF root, of _ 1] open_next [OF root, of _ 2]
    open_next [OF root, of _ 3] open_next [OF root, of _ 4]
  have "open_registries g0 l = Some
      (\<lparr> MUMBLE_REGISTRY = r, MUMBLE_CLIENTS = 1, MUMBLE_TIMER_REG = 2, MUMBLE_THREAD_REG = 3,
         MUMBLE_PIPE_REG = 4, MUMBLE_DATA_REG = 5 \<rparr>, tables_from ?m 5 l0)"
    using next_table by (cases g0) (simp add: open_registries_def first numeral_eq_Suc del: tables_from_simps(2))
  then show ?thesis using root assms(1) by (auto simp: l0_def lua_ok_def)
qed

definition registry_numbers :: "registries \<Rightarrow> int set" where
  "registry_numbers g = {MUMBLE_CLIENTS g, MUMBLE_TIMER_REG g, MUMBLE_THREAD_REG g, MUMBLE_PIPE_REG g, MUMBLE_DATA_REG g}"

lemma opened_ready:
  assumes "lua_ok l" "open_registries g0 l = Some (g, l')" "t \<in> registry_numbers g"
  shows "\<exists>n. registry_ready g t n l' \<and> refs_at n l' = Map.empty"
proof -
  obtain r tab where r: "luaL_ref (LObject ''table'' (lua_made l)) (lua_tables l 0) = (r, tab)" by fastforce
  let ?m = "lua_made l"
  obtain l0 where l0: "g = \<lparr> MUMBLE_REGISTRY = r, MUMBLE_CLIENTS = 1, MUMBLE_TIMER_REG = 2, MUMBLE_THREAD_REG = 3,
      MUMBLE_PIPE_REG = 4, MUMBLE_DATA_REG = 5 \<rparr>" "l' = tables_from ?m 5 l0" "root_at g ?m 0 l0" "lua_made l0 = ?m + 1"
    using open_registries_made [OF assms(1) r, of g0] assms(2) by auto
  have "t \<in> {1, 2, 3, 4, 5}" using assms(3) l0(1) by (auto simp: registry_numbers_def)
  then have "nat (t - 1) < 5" "t = int (nat (t - 1)) + 1" by auto
  then have "registry_in ?m t (lua_made l0 + nat (t - 1)) l'"
    using registry_tables_from [OF l0(3), of "nat (t - 1)" 5] l0(2) by simp
  moreover have "root_at g ?m 5 l'" using root_tables_from [OF l0(3), of 5] l0(2) by simp
  ultimately have "registry_ready g t (lua_made l0 + nat (t - 1)) l'" "lua_tables l' (lua_made l0 + nat (t - 1)) = no_refs"
    using registry_in_ready by (auto simp: registry_in_def)
  then show ?thesis by auto
qed

lemma fresh_holding: "refs_at n l = Map.empty \<Longrightarrow> refs.holding n (\<lambda>_. LUA_NOREF) Map.empty l"
  by (simp add: refs.holding_def)

section \<open>Properties\<close>

text \<open>
  C18. When the library has been opened, each of its five registries is a store of references: under
  any sequence of keeping values in variables, dropping them and looking them up, every lookup
  pushes the value the variable was given last, or nil when it was dropped, no matter which numbers
  Lua hands out again; afterwards the Lua stack and every other table are as before.
\<close>

theorem references_kept:
  assumes "lua_ok l" "open_registries g0 l = Some (g, l1)" "t \<in> registry_numbers g"
    and "\<forall>x v. Keep x v \<in> set ops \<longrightarrow> v \<noteq> LNil"
  shows "\<exists>h l2 n. run_refs (keep_ref g t) (look_ref g t) (mumble_registry_unref g t) ops (\<lambda>_. LUA_NOREF) l1 =
      Some (fst (spec_refs LNil ops Map.empty), h, l2) \<and>
    lua_stack l2 = lua_stack l1 \<and> (\<forall>k. k \<noteq> n \<longrightarrow> lua_tables l2 k = lua_tables l1 k)"
proof -
  obtain n where n: "registry_ready g t n l1" "refs_at n l1 = Map.empty"
    using opened_ready [OF assms(1-3)] by blast
  have "registry_frame g t n l1 l1" using n(1) by (simp add: registry_frame_def)
  from refs.run_refs_refines [OF this fresh_holding [OF n(2)] assms(4)]
  show ?thesis by (auto simp: registry_frame_def)
qed

text \<open>Two callbacks kept, the first dropped, a third kept in its place: a state that held one reference before.\<close>

definition sample_state :: lua_state where
  "sample_state = new_state \<lparr> lua_tables := (\<lambda>_. no_refs)(0 := snd (luaL_ref (LFunction 7) no_refs)) \<rparr>"

definition sample_registries :: registries where
  "sample_registries = \<lparr> MUMBLE_REGISTRY = 2, MUMBLE_CLIENTS = 1, MUMBLE_TIMER_REG = 2, MUMBLE_THREAD_REG = 3,
     MUMBLE_PIPE_REG = 4, MUMBLE_DATA_REG = 5 \<rparr>"

lemma sample_state_ok: "lua_ok sample_state" "lua_ok new_state"
  using luaL_ref_correct [of no_refs "LFunction 7"]
  by (auto simp: lua_ok_def sample_state_def new_state_def prod_eq_iff)

lemma sample_opens:
  "\<exists>l. open_registries g sample_state = Some (sample_registries, l)"
  "\<exists>l. open_registries g new_state = Some (sample_registries \<lparr> MUMBLE_REGISTRY := 1 \<rparr>, l)"
  using open_registries_made [OF sample_state_ok(1), of 2 _ g] open_registries_made [OF sample_state_ok(2), of 1 _ g]
  by (auto simp: sample_state_def new_state_def no_refs_def luaL_ref_def sample_registries_def)

theorem references_kept_witness:
  "\<exists>l1 h l2. open_registries sample_registries sample_state = Some (sample_registries, l1) \<and>
     run_refs (keep_ref sample_registries 2) (look_ref sample_registries 2) (mumble_registry_unref sample_registries 2)
       [Keep 0 (LFunction 1), Keep 1 (LFunction 2), Drop 0, Keep 2 (LFunction 3), Look 0, Look 1, Look 2]
       (\<lambda>_. LUA_NOREF) l1 = Some ([LNil, LFunction 2, LFunction 3], h, l2)"
proof -
  let ?ops = "[Keep 0 (LFunction 1), Keep 1 (LFunction 2), Drop 0, Keep 2 (LFunction 3), Look 0, Look 1, Look 2]"
  obtain l1 where l1: "open_registries sample_registries sample_state = Some (sample_registries, l1)"
    using sample_opens(1) by blast
  have "2 \<in> registry_numbers sample_registries" by (simp add: registry_numbers_def sample_registries_def)
  from references_kept [OF sample_state_ok(1) l1 this, of ?ops] l1 show ?thesis by auto
qed

text \<open>
  C37. The variables for the registries belong to the process, while a thread opens the library once
  more in a Lua state of its own. The numbers of the five registries come out the same, but the
  number of the root does so only if both states had kept as many references before: when it
  differs and the first state has no table there, every use of a registry in the first state,
  by a timer, a pipe, a user or a client, is undefined from then on.
\<close>

theorem second_state_breaks:
  assumes "lua_ok l1" "open_registries g0 l1 = Some (g1, l1')" "lua_ok l2" "open_registries g1 l2 = Some (g2, l2')"
  shows "(MUMBLE_REGISTRY g2 = MUMBLE_REGISTRY g1 \<longrightarrow> g2 = g1) \<and>
    (MUMBLE_REGISTRY g2 \<noteq> MUMBLE_REGISTRY g1 \<and> table_number (raw_get (lua_tables l1 0) (MUMBLE_REGISTRY g2)) = None \<longrightarrow>
      (\<forall>t v r. mumble_registry_ref g2 t (push v l1') = None \<and> mumble_registry_pushref g2 t r l1' = None))"
proof -
  obtain r1 tab1 where r1: "luaL_ref (LObject ''table'' (lua_made l1)) (lua_tables l1 0) = (r1, tab1)" by fastforce
  obtain r2 tab2 where r2: "luaL_ref (LObject ''table'' (lua_made l2)) (lua_tables l2 0) = (r2, tab2)" by fastforce
  obtain k where k: "l1' = tables_from (lua_made l1) 5 k" "lua_tables k 0 = tab1" "lua_made k = lua_made l1 + 1"
    "MUMBLE_REGISTRY g1 = r1"
    using open_registries_made [OF assms(1) r1, of g0] assms(2) by auto
  have root: "lua_tables l1' 0 = tab1"
    using tables_from_root [of "lua_made l1" k 5] k assms(1) by (simp add: lua_ok_def)
  have other: "raw_get tab1 r = raw_get (lua_tables l1 0) r" if "r \<noteq> r1" for r
    using r1 that by (auto simp: luaL_ref_def raw_get_def split: list.splits)
  have same: "MUMBLE_REGISTRY g2 = MUMBLE_REGISTRY g1 \<longrightarrow> g2 = g1"
    using open_registries_made [OF assms(1) r1, of g0] open_registries_made [OF assms(3) r2, of g1] assms(2,4) by auto
  have "mumble_pushref g2 t (push v l1') = None \<and> mumble_pushref g2 t l1' = None"
    if "MUMBLE_REGISTRY g2 \<noteq> MUMBLE_REGISTRY g1" "table_number (raw_get (lua_tables l1 0) (MUMBLE_REGISTRY g2)) = None" for t v
    using that other [of "MUMBLE_REGISTRY g2"] k(4) root
    by (simp add: mumble_pushref_def registry_rawgeti_def lua_rawgeti_def table_at_def)
  with same show ?thesis by (auto simp: mumble_registry_ref_def mumble_registry_pushref_def)
qed

theorem second_state_breaks_witness:
  "\<exists>g2 l1 l2. open_registries sample_registries sample_state = Some (sample_registries, l1) \<and>
     open_registries sample_registries new_state = Some (g2, l2) \<and> mumble_registry_pushref g2 2 1 l1 = None"
proof -
  obtain l1 where l1: "open_registries sample_registries sample_state = Some (sample_registries, l1)"
    using sample_opens(1) by blast
  obtain l2 where l2: "open_registries sample_registries new_state =
      Some (sample_registries \<lparr> MUMBLE_REGISTRY := 1 \<rparr>, l2)"
    using sample_opens(2) by blast
  have "raw_get (lua_tables sample_state 0) 1 = LFunction 7"
    by (simp add: sample_state_def luaL_ref_def no_refs_def raw_get_def)
  with second_state_breaks [OF sample_state_ok(1) l1 sample_state_ok(2) l2] l1 l2
  show ?thesis by (auto simp: sample_registries_def)
qed

end
