(* ===== verification/Timers.thy ===== *)
theory Timers
  imports Registry
begin

text \<open>
  Timer objects (\<open>mumble/timer.c\<close>): the methods, the callback of libuv when a timer is due, the closing
  of a handle and the collection of the object by Lua. libuv is a parameter: the record \<open>uv_timers\<close>
  holds its functions on a handle of any type; \<open>uv_timers_ok\<close> is what its documentation says of them.
  Timers are numbered, the timer \<open>n\<close> is the value \<open>LObject ''mumble.timer'' n\<close>.
\<close>

section \<open>Timers of libuv\<close>

text \<open>
  \<open>uv_due\<close> is what the loop does to a handle whose time has come, before it calls the callback.
  \<open>uv_started\<close> tells whether the handle has ever been started; the code does not ask for it.
\<close>

record 'h uv_timers =
  uv_timer_init :: 'h
  uv_timer_start :: "u64 \<Rightarrow> u64 \<Rightarrow> 'h \<Rightarrow> 'h"
  uv_timer_stop :: "'h \<Rightarrow> 'h"
  uv_timer_again :: "'h \<Rightarrow> bool \<times> 'h"
  uv_timer_set_repeat :: "u64 \<Rightarrow> 'h \<Rightarrow> 'h"
  uv_timer_get_repeat :: "'h \<Rightarrow> u64"
  uv_timer_get_due_in :: "'h \<Rightarrow> u64"
  uv_is_active :: "'h \<Rightarrow> bool"
  uv_is_closing :: "'h \<Rightarrow> bool"
  uv_close :: "'h \<Rightarrow> 'h"
  uv_due :: "'h \<Rightarrow> 'h"
  uv_started :: "'h \<Rightarrow> bool"

text \<open>
  A stopped or closed handle is not active and stays so while only its repeat value is set; a timer
  without a repeat value is not active any more when it was due; \<open>uv_timer_again\<close> fails, with no
  effect, on a handle that was never started. Of starting a handle that is closing nothing is said.
\<close>

definition uv_timers_ok :: "'h uv_timers \<Rightarrow> bool" where
  "uv_timers_ok U \<longleftrightarrow>
     \<not> uv_is_active U (uv_timer_init U) \<and> \<not> uv_is_closing U (uv_timer_init U) \<and> \<not> uv_started U (uv_timer_init U) \<and>
     (\<forall>h. \<not> uv_is_active U (uv_timer_stop U h) \<and> uv_is_closing U (uv_timer_stop U h) = uv_is_closing U h \<and>
        uv_started U (uv_timer_stop U h) = uv_started U h) \<and>
     (\<forall>a r h. \<not> uv_is_closing U h \<longrightarrow>
        uv_started U (uv_timer_start U a r h) \<and> \<not> uv_is_closing U (uv_timer_start U a r h) \<and>
        uv_timer_get_repeat U (uv_timer_start U a r h) = r) \<and>
     (\<forall>h. uv_started U (snd (uv_timer_again U h)) = uv_started U h \<and>
        uv_is_closing U (snd (uv_timer_again U h)) = uv_is_closing U h \<and>
        (\<not> uv_started U h \<longrightarrow> fst (uv_timer_again U h)) \<and>
        (fst (uv_timer_again U h) \<longrightarrow> snd (uv_timer_again U h) = h)) \<and>
     (\<forall>r h. uv_is_active U (uv_timer_set_repeat U r h) = uv_is_active U h \<and>
        uv_is_closing U (uv_timer_set_repeat U r h) = uv_is_closing U h \<and>
        uv_started U (uv_timer_set_repeat U r h) = uv_started U h \<and>
        uv_timer_get_repeat U (uv_timer_set_repeat U r h) = r) \<and>
     (\<forall>h. \<not> uv_is_active U (uv_close U h) \<and> uv_is_closing U (uv_close U h) \<and>
        uv_started U (uv_close U h) = uv_started U h) \<and>
     (\<forall>h. uv_is_closing U (uv_due U h) = uv_is_closing U h \<and> uv_started U (uv_due U h) = uv_started U h \<and>
        (uv_is_active U (uv_due U h) \<longrightarrow> uv_timer_get_repeat U h \<noteq> 0) \<and>
        uv_timer_get_repeat U (uv_due U h) = uv_timer_get_repeat U h)"

section \<open>The state\<close>

record 'h timer =
  tm_handle :: 'h
  tm_closed :: bool
  tm_paused :: bool
  tm_count :: u32
  tm_self :: int
  tm_callback :: int
  tm_after :: u64

text \<open>
  \<open>timers\<close> holds the objects whose memory Lua has, \<open>made\<close> counts those ever made, \<open>closing\<close> lists the
  handles whose closing libuv has yet to finish. \<open>script\<close> is the set of timers the script can
  reach, \<open>timer_calls\<close> the calls of callbacks so far.
\<close>

record 'h timing =
  timers :: "nat \<Rightarrow> 'h timer option"
  timers_made :: nat
  closing :: "nat list"
  script :: "nat set"
  timer_lua :: lua_state
  timer_calls :: "(lval \<times> lval list) list"

definition timer_value :: "nat \<Rightarrow> lval" where
  "timer_value n = LObject ''mumble.timer'' n"

definition put_timer :: "nat \<Rightarrow> 'h timer \<Rightarrow> 'h timing \<Rightarrow> 'h timing" where
  "put_timer n t s = s \<lparr> timers := (timers s)(n \<mapsto> t) \<rparr>"

type_synonym 'h timer_method =
  "'h uv_timers \<Rightarrow> env \<Rightarrow> world \<Rightarrow> registries \<Rightarrow> lval list \<Rightarrow> 'h timing \<Rightarrow> 'h timing object_result"

section \<open>Arguments\<close>

definition with_timer ::
  "lval list \<Rightarrow> 'h timing \<Rightarrow> (nat \<Rightarrow> 'h timer \<Rightarrow> 'h timing object_result) \<Rightarrow> 'h timing object_result" where
  "with_timer args s f =
     (case arg args 1 of
        Some (LObject metatable n) \<Rightarrow>
          (if metatable = ''mumble.timer'' then do { t \<leftarrow> timers s n; f n t }
           else fails (BadArgument 1 ''mumble.timer expected'') s)
      | _ \<Rightarrow> fails (BadArgument 1 ''mumble.timer expected'') s)"

definition mumble_active_timer ::
  "world \<Rightarrow> lval list \<Rightarrow> 'h timing \<Rightarrow> (nat \<Rightarrow> 'h timer \<Rightarrow> 'h timing object_result) \<Rightarrow> 'h timing object_result" where
  "mumble_active_timer W args s f = with_timer args s (\<lambda>n t.
     if tm_closed t then fails (LuaError (''attempt to call '' @ called W @ '' on stopped mumble.timer'')) s
     else f n t)"

text \<open>A double as a \<open>uint64_t\<close>; one that does not fit is undefined. 1000 is the double of that value.\<close>

definition u64_of_d :: "env \<Rightarrow> u64 \<Rightarrow> u64 option" where
  "u64_of_d E d = do { i \<leftarrow> int_of_d E d; if 0 \<le> i \<and> i < 2 ^ 64 then Some (of_int i) else None }"

definition d_thousand :: u64 where "d_thousand = 0x408F400000000000"

definition milliseconds :: "env \<Rightarrow> u64 \<Rightarrow> u64 option" where
  "milliseconds E d = u64_of_d E (d_mul E d d_thousand)"

definition seconds :: "env \<Rightarrow> u64 \<Rightarrow> u64" where
  "seconds E ms = d_div E (d_of_u64 E ms) d_thousand"

section \<open>Closing\<close>

definition mumble_timer_close :: "'h uv_timers \<Rightarrow> nat \<Rightarrow> 'h timer \<Rightarrow> 'h timing \<Rightarrow> 'h timing" where
  "mumble_timer_close U n t s =
     (if tm_closed t then s
      else
        let h = uv_timer_stop U (tm_handle t);
            t = t \<lparr> tm_closed := True, tm_handle := h \<rparr>
        in if uv_is_closing U h then put_timer n t s
           else put_timer n (t \<lparr> tm_handle := uv_close U h \<rparr>) s \<lparr> closing := closing s @ [n] \<rparr>)"

text \<open>The memory of a collected object is gone: reading it is undefined.\<close>

definition mumble_timer_on_close :: "registries \<Rightarrow> nat \<Rightarrow> 'h timing \<Rightarrow> 'h timing option" where
  "mumble_timer_on_close g n s = do {
     t \<leftarrow> timers s n;
     (callback, l) \<leftarrow> (if LUA_REFNIL < tm_callback t
        then mumble_registry_unref g (MUMBLE_TIMER_REG g) (tm_callback t) (timer_lua s)
        else Some (tm_callback t, timer_lua s));
     (self, l) \<leftarrow> (if LUA_REFNIL < tm_self t
        then mumble_registry_unref g (MUMBLE_TIMER_REG g) (tm_self t) l
        else Some (tm_self t, l));
     Some (put_timer n (t \<lparr> tm_callback := callback, tm_self := self \<rparr>) s
       \<lparr> timer_lua := l, closing := remove1 n (closing s) \<rparr>)
   }"

section \<open>Methods\<close>

definition mumble_timer_new :: "'h timer_method" where
  "mumble_timer_new U E W g args s =
     (let t = \<lparr> tm_handle = uv_timer_init U, tm_closed = False, tm_paused = False, tm_count = 0,
                tm_self = LUA_NOREF, tm_callback = LUA_NOREF, tm_after = 0 \<rparr>
      in gives [timer_value (timers_made s)]
           (put_timer (timers_made s) t s
             \<lparr> timers_made := timers_made s + 1, script := insert (timers_made s) (script s) \<rparr>))"

text \<open>The timer is referenced until it is closed, a callback of an earlier start is given up.\<close>

definition reference_timer ::
  "registries \<Rightarrow> nat \<Rightarrow> lval \<Rightarrow> 'h timer \<Rightarrow> lua_state \<Rightarrow> (int \<times> int \<times> lua_state) option" where
  "reference_timer g n f t l = do {
     (self, l) \<leftarrow> (if tm_self t \<le> LUA_NOREF
        then keep_ref g (MUMBLE_TIMER_REG g) (timer_value n) l
        else Some (tm_self t, l));
     (_, l) \<leftarrow> (if LUA_REFNIL < tm_callback t
        then mumble_registry_unref g (MUMBLE_TIMER_REG g) (tm_callback t) l
        else Some (tm_callback t, l));
     (callback, l) \<leftarrow> keep_ref g (MUMBLE_TIMER_REG g) f l;
     Some (self, callback, l)
   }"

definition timer_start :: "'h timer_method" where
  "timer_start U E W g args s = mumble_active_timer W args s (\<lambda>n t.
     checked s (check_function args 2) (\<lambda>f.
     checked s (opt_number args 3 0) (\<lambda>a. do {
       after \<leftarrow> milliseconds E a;
       checked s (opt_number args 4 0) (\<lambda>r. do {
         repeat \<leftarrow> milliseconds E r;
         let h = (if uv_is_active U (tm_handle t) then uv_timer_stop U (tm_handle t) else tm_handle t);
         (self, callback, l) \<leftarrow> reference_timer g n f t (timer_lua s);
         gives [timer_value n]
           (put_timer n
              (t \<lparr> tm_after := after, tm_self := self, tm_callback := callback,
                   tm_handle := uv_timer_start U after repeat h, tm_count := 0, tm_paused := False \<rparr>)
              (s \<lparr> timer_lua := l \<rparr>))
       })
     })))"

definition timer_stop :: "'h timer_method" where
  "timer_stop U E W g args s = with_timer args s (\<lambda>n t. gives [] (mumble_timer_close U n t s))"

definition quoted :: "string \<Rightarrow> string" where
  "quoted name = CHR 0x27 # name @ [CHR 0x27]"

definition timer_error :: "string \<Rightarrow> string \<Rightarrow> lua_error" where
  "timer_error name kind = LuaError (''attempt to call '' @ quoted name @ '' on '' @ kind @ '' mumble.timer'')"

definition timer_pause :: "'h timer_method" where
  "timer_pause U E W g args s = with_timer args s (\<lambda>n t.
     if uv_timer_get_repeat U (tm_handle t) = 0 then fails (timer_error ''pause'' ''non-repeating'') s
     else
       let (einval, h) = uv_timer_again U (tm_handle t)
       in if einval
          then fails (timer_error ''pause'' ''unstarted'') (put_timer n (t \<lparr> tm_handle := h \<rparr>) s)
          else gives [timer_value n]
                 (put_timer n (t \<lparr> tm_handle := uv_timer_stop U h, tm_paused := True \<rparr>) s))"

definition timer_again :: "'h timer_method" where
  "timer_again U E W g args s = mumble_active_timer W args s (\<lambda>n t.
     if uv_timer_get_repeat U (tm_handle t) = 0 then fails (timer_error ''again'' ''non-repeating'') s
     else
       let (einval, h) = uv_timer_again U (tm_handle t)
       in if einval
          then fails (timer_error ''again'' ''unstarted'') (put_timer n (t \<lparr> tm_handle := h \<rparr>) s)
          else gives [timer_value n]
                 (put_timer n (t \<lparr> tm_handle := h, tm_count := 0, tm_paused := False \<rparr>) s))"

definition timer_resume :: "'h timer_method" where
  "timer_resume U E W g args s = mumble_active_timer W args s (\<lambda>n t.
     if uv_timer_get_repeat U (tm_handle t) = 0 then fails (timer_error ''resume'' ''non-repeating'') s
     else
       let (einval, h) = uv_timer_again U (tm_handle t)
       in if einval
          then fails (timer_error ''resume'' ''unstarted'') (put_timer n (t \<lparr> tm_handle := h \<rparr>) s)
          else gives [timer_value n] (put_timer n (t \<lparr> tm_handle := h, tm_paused := False \<rparr>) s))"

definition set_repeat :: "'h uv_timers \<Rightarrow> u64 \<Rightarrow> 'h timer \<Rightarrow> 'h timer" where
  "set_repeat U ms t = t \<lparr> tm_handle := uv_timer_set_repeat U ms (tm_handle t) \<rparr>"

definition timer_set :: "'h timer_method" where
  "timer_set U E W g args s = with_timer args s (\<lambda>n t.
     checked s (check_number args 2) (\<lambda>a.
     checked s (opt_number args 3 0) (\<lambda>r. do {
       after \<leftarrow> u64_of_d E a;
       ms \<leftarrow> milliseconds E r;
       gives [timer_value n] (put_timer n (set_repeat U ms (t \<lparr> tm_after := after \<rparr>)) s)
     })))"

definition timer_get :: "'h timer_method" where
  "timer_get U E W g args s = with_timer args s (\<lambda>n t.
     gives [LNum (d_of_u64 E (tm_after t)), LNum (seconds E (uv_timer_get_repeat U (tm_handle t)))] s)"

definition timer_setDuration :: "'h timer_method" where
  "timer_setDuration U E W g args s = with_timer args s (\<lambda>n t.
     checked s (check_number args 2) (\<lambda>a. do {
       ms \<leftarrow> milliseconds E a;
       gives [timer_value n] (put_timer n (t \<lparr> tm_after := ms \<rparr>) s)
     }))"

definition timer_getDuration :: "'h timer_method" where
  "timer_getDuration U E W g args s = with_timer args s (\<lambda>n t. gives [LNum (seconds E (tm_after t))] s)"

definition timer_setRepeat :: "'h timer_method" where
  "timer_setRepeat U E W g args s = with_timer args s (\<lambda>n t.
     checked s (check_number args 2) (\<lambda>r. do {
       ms \<leftarrow> milliseconds E r;
       gives [timer_value n] (put_timer n (set_repeat U ms t) s)
     }))"

definition timer_getRepeat :: "'h timer_method" where
  "timer_getRepeat U E W g args s = with_timer args s (\<lambda>n t.
     gives [LNum (seconds E (uv_timer_get_repeat U (tm_handle t)))] s)"

definition timer_getCount :: "'h timer_method" where
  "timer_getCount U E W g args s = with_timer args s (\<lambda>n t. gives [vint (tm_count t)] s)"

definition timer_getRemain :: "'h timer_method" where
  "timer_getRemain U E W g args s = with_timer args s (\<lambda>n t. do {
     i \<leftarrow> int_of_d E (seconds E (uv_timer_get_due_in U (tm_handle t)));
     gives [LInt i] s
   })"

definition timer_isActive :: "'h timer_method" where
  "timer_isActive U E W g args s = with_timer args s (\<lambda>n t. gives [LBool (uv_is_active U (tm_handle t))] s)"

definition timer_isPaused :: "'h timer_method" where
  "timer_isPaused U E W g args s = with_timer args s (\<lambda>n t. gives [LBool (tm_paused t)] s)"

definition timer_tostring :: "'h timer_method" where
  "timer_tostring U E W g args s = do {
     v \<leftarrow> arg args 1;
     gives [LStr (address_text ''mumble.timer'' (pointer_text E v))] s
   }"

definition timer_gc :: "'h timer_method" where
  "timer_gc U E W g args s = with_timer args s (\<lambda>n t. gives [] (mumble_timer_close U n t s))"

definition timer_methods :: "'h timer_method list" where
  "timer_methods = [timer_start, timer_stop, timer_pause, timer_again, timer_resume, timer_set, timer_get,
     timer_setDuration, timer_getDuration, timer_setRepeat, timer_getRepeat, timer_getCount, timer_getRemain,
     timer_isActive, timer_isPaused, timer_tostring]"

section \<open>Events\<close>

text \<open>
  The callback of libuv. \<open>run\<close> is what the script does in its callback, and whether it returned without an
  error; it reaches the timer it is given.
\<close>

definition call_script ::
  "(lval \<Rightarrow> lval list \<Rightarrow> 'h timing \<Rightarrow> (bool \<times> 'h timing) option) \<Rightarrow> lval \<Rightarrow> lval list \<Rightarrow> 'h timing \<Rightarrow>
   (bool \<times> 'h timing) option" where
  "call_script run f args s =
     (if is_function f
      then run f args
        (s \<lparr> timer_calls := timer_calls s @ [(f, args)], script := script s \<union> {n. timer_value n \<in> set args} \<rparr>)
      else Some (False, s))"

text \<open>What follows the call: the message of an error and the handler are popped.\<close>

definition timer_returned :: "'h uv_timers \<Rightarrow> nat \<Rightarrow> bool \<Rightarrow> 'h timing \<Rightarrow> 'h timing option" where
  "timer_returned U n ok s = do {
     let l = pcall_done ok (timer_lua s);
     l \<leftarrow> (if ok then Some l else on_stack (lua_pop 1) l);
     l \<leftarrow> on_stack (lua_pop 1) l;
     let s = s \<lparr> timer_lua := l \<rparr>;
     t \<leftarrow> timers s n;
     Some (if \<not> uv_is_active U (tm_handle t) \<and> \<not> tm_paused t then mumble_timer_close U n t s else s)
   }"

definition mumble_lua_timer ::
  "'h uv_timers \<Rightarrow> registries \<Rightarrow> (lval \<Rightarrow> lval list \<Rightarrow> 'h timing \<Rightarrow> (bool \<times> 'h timing) option) \<Rightarrow> nat \<Rightarrow>
   'h timing \<Rightarrow> 'h timing option" where
  "mumble_lua_timer U g run n s = do {
     t \<leftarrow> timers s n;
     if uv_is_closing U (tm_handle t) then Some s
     else do {
       let s = put_timer n (t \<lparr> tm_count := tm_count t + 1 \<rparr>) s;
       let l = push (LMethod ''traceback'') (timer_lua s);
       l \<leftarrow> mumble_registry_pushref g (MUMBLE_TIMER_REG g) (tm_callback t) l;
       l \<leftarrow> mumble_registry_pushref g (MUMBLE_TIMER_REG g) (tm_self t) l;
       (f, args, l) \<leftarrow> pcall_frame 1 (-3) l;
       (ok, s) \<leftarrow> call_script run f args (s \<lparr> timer_lua := l \<rparr>);
       timer_returned U n ok s
     }
   }"

text \<open>libuv finds an active timer whose time has come.\<close>

definition timer_due ::
  "'h uv_timers \<Rightarrow> registries \<Rightarrow> (lval \<Rightarrow> lval list \<Rightarrow> 'h timing \<Rightarrow> (bool \<times> 'h timing) option) \<Rightarrow> nat \<Rightarrow>
   'h timer \<Rightarrow> 'h timing \<Rightarrow> 'h timing option" where
  "timer_due U g run n t s =
     mumble_lua_timer U g run n (put_timer n (t \<lparr> tm_handle := uv_due U (tm_handle t) \<rparr>) s)"

text \<open>
  Lua collects an object neither the script nor the registry refers to: it calls \<open>timer_gc\<close> and gives
  the memory back.
\<close>

definition timer_unreferenced :: "registries \<Rightarrow> nat \<Rightarrow> 'h timing \<Rightarrow> bool" where
  "timer_unreferenced g n s \<longleftrightarrow>
     n \<notin> script s \<and> (\<forall>r. look_ref g (MUMBLE_TIMER_REG g) r (timer_lua s) \<noteq> Some (timer_value n))"

definition collect_timer :: "'h uv_timers \<Rightarrow> nat \<Rightarrow> 'h timer \<Rightarrow> 'h timing \<Rightarrow> 'h timing" where
  "collect_timer U n t s =
     (let s = mumble_timer_close U n t s in s \<lparr> timers := (timers s)(n := None) \<rparr>)"

section \<open>All timers\<close>

inductive script_step :: "'h uv_timers \<Rightarrow> env \<Rightarrow> registries \<Rightarrow> 'h timing \<Rightarrow> 'h timing \<Rightarrow> bool" for U E g where
  new: "mumble_timer_new U E W g args s = Some (r, s') \<Longrightarrow> script_step U E g s s'"
| call: "m \<in> set timer_methods \<Longrightarrow> \<forall>n. timer_value n \<in> set args \<longrightarrow> n \<in> script s \<Longrightarrow>
    m U E W g args s = Some (r, s') \<Longrightarrow> script_step U E g s s'"
| forget: "script_step U E g s (s \<lparr> script := script s - {n} \<rparr>)"
| collect: "timers s n = Some t \<Longrightarrow> timer_unreferenced g n s \<Longrightarrow> script_step U E g s (collect_timer U n t s)"

inductive timer_step :: "'h uv_timers \<Rightarrow> env \<Rightarrow> registries \<Rightarrow> 'h timing \<Rightarrow> 'h timing \<Rightarrow> bool" for U E g where
  script: "script_step U E g s s' \<Longrightarrow> timer_step U E g s s'"
| due: "timers s n = Some t \<Longrightarrow> uv_is_active U (tm_handle t) \<Longrightarrow>
    \<forall>f args s0 ok s1. run f args s0 = Some (ok, s1) \<longrightarrow> (script_step U E g)\<^sup>*\<^sup>* s0 s1 \<Longrightarrow>
    timer_due U g run n t s = Some s' \<Longrightarrow> timer_step U E g s s'"
| closed: "n \<in> set (closing s) \<Longrightarrow> mumble_timer_on_close g n s = Some s' \<Longrightarrow> timer_step U E g s s'"

inductive timer_reachable :: "'h uv_timers \<Rightarrow> env \<Rightarrow> registries \<Rightarrow> 'h timing \<Rightarrow> 'h timing \<Rightarrow> bool" for U E g s0 where
  start: "timer_reachable U E g s0 s0"
| step: "timer_reachable U E g s0 s \<Longrightarrow> timer_step U E g s s' \<Longrightarrow> timer_reachable U E g s0 s'"

definition no_timers :: "lua_state \<Rightarrow> 'h timing" where
  "no_timers l = \<lparr> timers = Map.empty, timers_made = 0, closing = [], script = {}, timer_lua = l, timer_calls = [] \<rparr>"

section \<open>The invariant\<close>

text \<open>
  A timer is referenced, with its callback, from its first start until its closing is finished. Its
  handle is active only in between.
\<close>

definition timer_ok :: "'h uv_timers \<Rightarrow> (int \<Rightarrow> lval option) \<Rightarrow> nat list \<Rightarrow> nat \<Rightarrow> 'h timer \<Rightarrow> bool" where
  "timer_ok U refs cl n t \<longleftrightarrow>
     (if tm_self t = LUA_NOREF then tm_callback t = LUA_NOREF
      else refs (tm_self t) = Some (timer_value n) \<and> (\<exists>f. is_function f \<and> refs (tm_callback t) = Some f)) \<and>
     (uv_is_active U (tm_handle t) \<longrightarrow> tm_self t \<noteq> LUA_NOREF \<and> \<not> tm_closed t) \<and>
     (uv_started U (tm_handle t) \<longrightarrow> tm_self t \<noteq> LUA_NOREF \<or> tm_closed t) \<and>
     (uv_is_closing U (tm_handle t) \<longrightarrow> tm_closed t) \<and>
     (n \<in> set cl \<longrightarrow> tm_closed t \<and> (uv_started U (tm_handle t) \<longrightarrow> tm_self t \<noteq> LUA_NOREF))"

definition all_owned :: "(int \<Rightarrow> lval option) \<Rightarrow> (nat \<Rightarrow> 'h timer option) \<Rightarrow> bool" where
  "all_owned refs ts \<longleftrightarrow>
     (\<forall>r. refs r \<noteq> None \<longrightarrow> (\<exists>n t. ts n = Some t \<and> (r = tm_self t \<or> r = tm_callback t)))"

definition timing_ok :: "'h uv_timers \<Rightarrow> registries \<Rightarrow> nat \<Rightarrow> lua_state \<Rightarrow> 'h timing \<Rightarrow> bool" where
  "timing_ok U g k l0 s \<longleftrightarrow>
     registry_frame g (MUMBLE_TIMER_REG g) k l0 (timer_lua s) \<and>
     (\<forall>n t. timers s n = Some t \<longrightarrow> n < timers_made s \<and> timer_ok U (refs_at k (timer_lua s)) (closing s) n t) \<and>
     (\<forall>n t n' t'. timers s n = Some t \<longrightarrow> timers s n' = Some t' \<longrightarrow> n \<noteq> n' \<longrightarrow>
        tm_callback t \<noteq> LUA_NOREF \<longrightarrow> tm_callback t \<noteq> tm_callback t') \<and>
     all_owned (refs_at k (timer_lua s)) (timers s) \<and> script s \<subseteq> dom (timers s) \<and> distinct (closing s) \<and> (\<forall>n\<in>set (closing s). n < timers_made s)"

section \<open>Changes of one timer\<close>

lemma timing_okD:
  assumes "timing_ok U g k l0 s"
  shows "registry_frame g (MUMBLE_TIMER_REG g) k l0 (timer_lua s)" "script s \<subseteq> dom (timers s)" "distinct (closing s)"
    "timers s n = Some t \<Longrightarrow> timer_ok U (refs_at k (timer_lua s)) (closing s) n t"
    "timers s n = Some t \<Longrightarrow> n < timers_made s" "n \<in> set (closing s) \<Longrightarrow> n < timers_made s"
    "timers s n = Some t \<Longrightarrow> timers s n' = Some t' \<Longrightarrow> n \<noteq> n' \<Longrightarrow> tm_callback t \<noteq> LUA_NOREF \<Longrightarrow>
       tm_callback t \<noteq> tm_callback t'"
    "all_owned (refs_at k (timer_lua s)) (timers s)"
  using assms unfolding timing_ok_def by blast+

lemma owned_put:
  assumes "all_owned refs ts" "ts n = Some t" "tm_self t' = tm_self t" "tm_callback t' = tm_callback t"
  shows "all_owned refs (ts(n \<mapsto> t'))"
  using assms unfolding all_owned_def by (metis fun_upd_apply option.inject)

lemma owned_new: "all_owned refs ts \<Longrightarrow> ts n = None \<Longrightarrow> all_owned refs (ts(n \<mapsto> t))"
  unfolding all_owned_def by (metis fun_upd_other option.distinct(1))

lemma owned_remove:
  "all_owned refs ts \<Longrightarrow> ts n = Some t \<Longrightarrow> refs (tm_self t) = None \<Longrightarrow> refs (tm_callback t) = None \<Longrightarrow>
   all_owned refs (ts(n := None))"
  unfolding all_owned_def by (metis fun_upd_other option.inject)

lemma owned_swap:
  assumes "all_owned refs ts" "ts n = Some t"
    and "\<forall>r. refs' r \<noteq> None \<longrightarrow> r \<noteq> tm_self t' \<longrightarrow> r \<noteq> tm_callback t' \<longrightarrow>
      refs r \<noteq> None \<and> r \<noteq> tm_self t \<and> r \<noteq> tm_callback t"
  shows "all_owned refs' (ts(n \<mapsto> t'))"
  using assms unfolding all_owned_def by (metis fun_upd_apply option.inject)

lemma put_timer_simps [simp]:
  "timers (put_timer n t s) = (timers s)(n \<mapsto> t)" "timers_made (put_timer n t s) = timers_made s"
  "closing (put_timer n t s) = closing s" "script (put_timer n t s) = script s"
  "timer_lua (put_timer n t s) = timer_lua s" "timer_calls (put_timer n t s) = timer_calls s"
  by (simp_all add: put_timer_def)

lemma timing_ok_put:
  assumes "timing_ok U g k l0 s" "timers s n = Some t" "timer_ok U (refs_at k (timer_lua s)) (closing s) n t'"
    "tm_self t' = tm_self t" "tm_callback t' = tm_callback t"
  shows "timing_ok U g k l0 (put_timer n t' s)"
  using assms owned_put [OF timing_okD(8) [OF assms(1)] assms(2,4,5)]
  unfolding timing_ok_def by (auto split: if_splits)

lemma timer_ok_other: "timer_ok U refs cl m t \<Longrightarrow> m \<noteq> n \<Longrightarrow> timer_ok U refs (cl @ [n]) m t"
  by (simp add: timer_ok_def)

lemma uv_timers_okD:
  assumes "uv_timers_ok U"
  shows "\<not> uv_is_active U (uv_timer_init U)" "\<not> uv_is_closing U (uv_timer_init U)" "\<not> uv_started U (uv_timer_init U)"
    "\<not> uv_is_active U (uv_timer_stop U h)" "uv_is_closing U (uv_timer_stop U h) = uv_is_closing U h"
    "uv_started U (uv_timer_stop U h) = uv_started U h"
    "\<not> uv_is_closing U h \<Longrightarrow> uv_started U (uv_timer_start U a r h)"
    "\<not> uv_is_closing U h \<Longrightarrow> \<not> uv_is_closing U (uv_timer_start U a r h)"
    "\<not> uv_is_closing U h \<Longrightarrow> uv_timer_get_repeat U (uv_timer_start U a r h) = r"
    "uv_started U (snd (uv_timer_again U h)) = uv_started U h"
    "uv_is_closing U (snd (uv_timer_again U h)) = uv_is_closing U h"
    "fst (uv_timer_again U h) \<Longrightarrow> snd (uv_timer_again U h) = h" "\<not> fst (uv_timer_again U h) \<Longrightarrow> uv_started U h"
    "uv_is_active U (uv_timer_set_repeat U r h) = uv_is_active U h"
    "uv_is_closing U (uv_timer_set_repeat U r h) = uv_is_closing U h"
    "uv_started U (uv_timer_set_repeat U r h) = uv_started U h"
    "\<not> uv_is_active U (uv_close U h)" "uv_is_closing U (uv_close U h)"
    "uv_started U (uv_close U h) = uv_started U h"
    "uv_is_closing U (uv_due U h) = uv_is_closing U h" "uv_started U (uv_due U h) = uv_started U h"
    "uv_is_active U (uv_due U h) \<Longrightarrow> uv_timer_get_repeat U h \<noteq> 0"
  using assms unfolding uv_timers_ok_def by metis+

text \<open>Closing keeps the references, and the handle is not active any more.\<close>

lemma timing_ok_close:
  assumes U: "uv_timers_ok U" and s: "timing_ok U g k l0 s" and t: "timers s n = Some t"
  shows "timing_ok U g k l0 (mumble_timer_close U n t s)"
proof (cases "tm_closed t")
  case True
  then show ?thesis using s by (simp add: mumble_timer_close_def)
next
  case False
  note ok = timing_okD(4) [OF s t] and laws = uv_timers_okD [OF U]
  have open_handle: "\<not> uv_is_closing U (tm_handle t)" "n \<notin> set (closing s)"
    using ok False by (auto simp: timer_ok_def)
  let ?t = "t \<lparr> tm_closed := True, tm_handle := uv_close U (uv_timer_stop U (tm_handle t)) \<rparr>"
  have t': "timer_ok U (refs_at k (timer_lua s)) (closing s @ [n]) n ?t"
    using ok False open_handle laws by (auto simp: timer_ok_def)
  have "timing_ok U g k l0 (put_timer n ?t s \<lparr> closing := closing s @ [n] \<rparr>)"
    using s t t' timing_okD(5) [OF s t] open_handle(2) owned_put [OF timing_okD(8) [OF s] t, of ?t]
    unfolding timing_ok_def by (auto split: if_splits intro!: timer_ok_other)
  then show ?thesis using False open_handle(1) laws by (simp add: mumble_timer_close_def Let_def)
qed

text \<open>References given up and taken for one timer leave those of the others alone.\<close>

lemma timer_value_eq [simp]: "timer_value n = timer_value m \<longleftrightarrow> n = m"
  by (simp add: timer_value_def)

lemma timer_value_function [simp]: "\<not> is_function (timer_value n)"
  by (simp add: timer_value_def)

lemma others_kept:
  assumes "timer_ok U refs cl n t" "timer_ok U refs cl' m t'" "m \<noteq> n"
    and "tm_callback t' \<noteq> LUA_NOREF \<longrightarrow> tm_callback t' \<noteq> tm_callback t" "refs LUA_NOREF = None"
    and "\<forall>r v. refs r = Some v \<longrightarrow> r \<noteq> tm_self t \<longrightarrow> r \<noteq> tm_callback t \<longrightarrow> refs' r = Some v \<and> r \<noteq> cb"
  shows "timer_ok U refs' cl' m t' \<and> (tm_callback t' \<noteq> LUA_NOREF \<longrightarrow> tm_callback t' \<noteq> cb)"
proof (cases "tm_self t' = LUA_NOREF")
  case True
  then show ?thesis using assms(2) by (simp add: timer_ok_def)
next
  case False
  then obtain f where f: "refs (tm_self t') = Some (timer_value m)" "is_function f" "refs (tm_callback t') = Some f"
    using assms(2) by (auto simp: timer_ok_def)
  have "tm_self t' \<noteq> tm_self t \<and> tm_self t' \<noteq> tm_callback t \<and> tm_callback t' \<noteq> tm_self t"
    using f assms(1,3,5) by (auto simp: timer_ok_def split: if_splits)
  moreover have "tm_callback t' \<noteq> tm_callback t" using assms(4,5) f(3) by auto
  ultimately show ?thesis using assms(2,6) f False by (auto simp: timer_ok_def)
qed

lemma timing_ok_rereference:
  assumes s: "timing_ok U g k l0 s" and t: "timers s n = Some t"
    and l: "registry_frame g (MUMBLE_TIMER_REG g) k l0 l"
    and kept: "\<forall>r v. refs_at k (timer_lua s) r = Some v \<longrightarrow> r \<noteq> tm_self t \<longrightarrow> r \<noteq> tm_callback t \<longrightarrow>
      refs_at k l r = Some v \<and> r \<noteq> tm_callback t'"
    and owned: "\<forall>r. refs_at k l r \<noteq> None \<longrightarrow> r \<noteq> tm_self t' \<longrightarrow> r \<noteq> tm_callback t' \<longrightarrow>
      refs_at k (timer_lua s) r \<noteq> None \<and> r \<noteq> tm_self t \<and> r \<noteq> tm_callback t"
    and t': "timer_ok U (refs_at k l) (closing s) n t'"
  shows "timing_ok U g k l0 (put_timer n t' (s \<lparr> timer_lua := l \<rparr>))"
proof -
  have noref: "refs_at k (timer_lua s) LUA_NOREF = None"
    using timing_okD(1) [OF s] held_positive [of "lua_tables (timer_lua s) k" LUA_NOREF]
    by (cases "refs_at k (timer_lua s) LUA_NOREF")
      (auto simp: registry_frame_def registry_ready_def LUA_NOREF_def)
  have others: "timer_ok U (refs_at k l) (closing s) m u \<and> (tm_callback u \<noteq> LUA_NOREF \<longrightarrow> tm_callback u \<noteq> tm_callback t')"
    if "timers s m = Some u" "m \<noteq> n" for m u
    using others_kept [OF timing_okD(4) [OF s t] timing_okD(4) [OF s that(1)] that(2) _ noref kept]
      timing_okD(7) [OF s that(1) t that(2)] by blast
  have "all_owned (refs_at k l) ((timers s)(n \<mapsto> t'))" by (rule owned_swap [OF timing_okD(8) [OF s] t owned])
  then show ?thesis using s t l t' others unfolding timing_ok_def by (auto split: if_splits) (metis others)
qed

lemma frame_positive:
  "registry_frame g t k l0 l \<Longrightarrow> refs_at k l r = Some v \<Longrightarrow> 0 < r"
  using held_positive [of "lua_tables l k" r v] by (simp add: registry_frame_def registry_ready_def)

lemma frame_noref:
  assumes "registry_frame g t k l0 l"
  shows "refs_at k l LUA_NOREF = None"
  using frame_positive [OF assms, of LUA_NOREF] by (cases "refs_at k l LUA_NOREF") (auto simp: LUA_NOREF_def)

lemma reference_timer_correct:
  assumes s: "timing_ok U g k l0 s" and t: "timers s n = Some t" and f: "is_function f"
  shows "\<exists>self cb l. reference_timer g n f t (timer_lua s) = Some (self, cb, l) \<and>
    registry_frame g (MUMBLE_TIMER_REG g) k l0 l \<and> self \<noteq> LUA_NOREF \<and>
    refs_at k l self = Some (timer_value n) \<and> refs_at k l cb = Some f \<and>
    (\<forall>r v. refs_at k (timer_lua s) r = Some v \<longrightarrow> r \<noteq> tm_self t \<longrightarrow> r \<noteq> tm_callback t \<longrightarrow>
       refs_at k l r = Some v \<and> r \<noteq> cb) \<and>
    (\<forall>r. refs_at k l r \<noteq> None \<longrightarrow> r \<noteq> self \<longrightarrow> r \<noteq> cb \<longrightarrow>
       refs_at k (timer_lua s) r \<noteq> None \<and> r \<noteq> tm_self t \<and> r \<noteq> tm_callback t)"
proof -
  let ?t = "MUMBLE_TIMER_REG g" and ?l = "timer_lua s"
  note frame = timing_okD(1) [OF s] and ok = timing_okD(4) [OF s t]
  have nonnil: "timer_value n \<noteq> LNil" "f \<noteq> LNil" using f by (auto simp: timer_value_def)
  show ?thesis
  proof (cases "tm_self t = LUA_NOREF")
    case True
    then have cb: "tm_callback t = LUA_NOREF" using ok by (simp add: timer_ok_def)
    obtain r1 l1 where l1: "keep_ref g ?t (timer_value n) ?l = Some (r1, l1)" "registry_frame g ?t k l0 l1"
        "r1 \<noteq> LUA_NOREF" "refs_at k ?l r1 = None" "refs_at k l1 = (refs_at k ?l)(r1 \<mapsto> timer_value n)"
      using refs.keep_law [OF frame nonnil(1)] by blast
    obtain r2 l2 where l2: "keep_ref g ?t f l1 = Some (r2, l2)" "registry_frame g ?t k l0 l2"
        "refs_at k l1 r2 = None" "refs_at k l2 = (refs_at k l1)(r2 \<mapsto> f)"
      using refs.keep_law [OF l1(2) nonnil(2)] by blast
    have "reference_timer g n f t ?l = Some (r1, r2, l2)"
      using True cb l1(1) l2(1) by (simp add: reference_timer_def LUA_NOREF_def LUA_REFNIL_def)
    moreover note frame_noref [OF frame]
    ultimately show ?thesis using True cb l1 l2 by (fastforce split: if_splits)
  next
    case False
    then obtain f0 where cb: "refs_at k ?l (tm_self t) = Some (timer_value n)" "is_function f0"
        "refs_at k ?l (tm_callback t) = Some f0"
      using ok by (auto simp: timer_ok_def)
    then have pos: "\<not> tm_self t \<le> LUA_NOREF" "LUA_REFNIL < tm_callback t" "tm_self t \<noteq> tm_callback t"
      using frame_positive [OF frame] by (force simp: LUA_NOREF_def LUA_REFNIL_def)+
    obtain l1 where l1: "mumble_registry_unref g ?t (tm_callback t) ?l = Some (LUA_NOREF, l1)"
        "registry_frame g ?t k l0 l1" "refs_at k l1 = (refs_at k ?l)(tm_callback t := None)"
      using refs.forget_law [OF frame cb(3)] by blast
    obtain r2 l2 where l2: "keep_ref g ?t f l1 = Some (r2, l2)" "registry_frame g ?t k l0 l2"
        "refs_at k l1 r2 = None" "refs_at k l2 = (refs_at k l1)(r2 \<mapsto> f)"
      using refs.keep_law [OF l1(2) nonnil(2)] by blast
    have "reference_timer g n f t ?l = Some (tm_self t, r2, l2)"
      using pos l1(1) l2(1) by (simp add: reference_timer_def)
    then show ?thesis using False pos cb l1 l2 by (fastforce split: if_splits)
  qed
qed

section \<open>Every step keeps the invariant\<close>

abbreviation keeps_timing :: "'h uv_timers \<Rightarrow> registries \<Rightarrow> nat \<Rightarrow> lua_state \<Rightarrow> 'h timing object_result \<Rightarrow> bool" where
  "keeps_timing U g k l0 r \<equiv> all_some (\<lambda>(x, s). timing_ok U g k l0 s) r"

lemma keeps_gives: "timing_ok U g k l0 s \<Longrightarrow> keeps_timing U g k l0 (Some (r, s))"
  by (simp add: all_some_Some)

lemma keeps_with_timer:
  "timing_ok U g k l0 s \<Longrightarrow> (\<And>n t. timers s n = Some t \<Longrightarrow> keeps_timing U g k l0 (f n t)) \<Longrightarrow>
   keeps_timing U g k l0 (with_timer args s f)"
  by (auto simp: with_timer_def all_some_def split: option.splits lval.splits bind_splits)

lemma keeps_active_timer:
  "timing_ok U g k l0 s \<Longrightarrow>
   (\<And>n t. timers s n = Some t \<Longrightarrow> \<not> tm_closed t \<Longrightarrow> keeps_timing U g k l0 (f n t)) \<Longrightarrow>
   keeps_timing U g k l0 (mumble_active_timer W args s f)"
  unfolding mumble_active_timer_def by (rule keeps_with_timer) (simp_all add: keeps_gives)

lemma keeps_checked:
  "timing_ok U g k l0 s \<Longrightarrow> (\<And>x. r = Inr x \<Longrightarrow> keeps_timing U g k l0 (f x)) \<Longrightarrow>
   keeps_timing U g k l0 (checked s r f)"
  by (cases r) (simp_all add: keeps_gives)

lemmas keeps = keeps_with_timer keeps_active_timer keeps_checked all_some_bind_any all_some_prod

lemma keeps_start:
  assumes "uv_timers_ok U" "timing_ok U g k l0 s"
  shows "keeps_timing U g k l0 (timer_start U E W g args s)"
  unfolding timer_start_def Let_def
proof (intro keeps assms(2))
  fix n t f a after r repeat x self y cb l
  assume t: "timers s n = Some t" "\<not> tm_closed t" and f: "check_function args 2 = Inr f"
    and refs: "reference_timer g n f t (timer_lua s) = Some x" "x = (self, y)" "y = (cb, l)"
  let ?h = "if uv_is_active U (tm_handle t) then uv_timer_stop U (tm_handle t) else tm_handle t"
  let ?t = "t \<lparr> tm_after := after, tm_self := self, tm_callback := cb, tm_handle := uv_timer_start U after repeat ?h,
    tm_count := 0, tm_paused := False \<rparr>"
  note r = reference_timer_correct [OF assms(2) t(1) check_function_is [OF f]]
  have "timer_ok U (refs_at k l) (closing s) n ?t"
    using r refs check_function_is [OF f] timing_okD(4) [OF assms(2) t(1)] t(2) uv_timers_okD [OF assms(1)]
    by (auto simp: timer_ok_def)
  then have "timing_ok U g k l0 (put_timer n ?t (s \<lparr> timer_lua := l \<rparr>))"
    using r refs by (intro timing_ok_rereference [OF assms(2) t(1)]) auto
  then show "keeps_timing U g k l0 (gives [timer_value n] (put_timer n ?t (s \<lparr> timer_lua := l \<rparr>)))"
    by (rule keeps_gives)
qed

text \<open>The other methods change a handle that keeps its references.\<close>

lemma keeps_put:
  assumes "timing_ok U g k l0 s" "timers s n = Some t" "tm_self t' = tm_self t" "tm_callback t' = tm_callback t"
    "tm_closed t' = tm_closed t" "uv_started U (tm_handle t') = uv_started U (tm_handle t)"
    "uv_is_closing U (tm_handle t') = uv_is_closing U (tm_handle t)"
    "uv_is_active U (tm_handle t') \<Longrightarrow> uv_is_active U (tm_handle t) \<or> uv_started U (tm_handle t) \<and> \<not> tm_closed t"
  shows "timing_ok U g k l0 (put_timer n t' s)"
  using timing_okD(4) [OF assms(1,2)] assms
  by (intro timing_ok_put [OF assms(1,2)]) (auto simp: timer_ok_def)

lemma keeps_again:
  assumes "uv_timers_ok U" "timing_ok U g k l0 s" "timers s n = Some t" "\<not> tm_closed t"
    "uv_timer_again U (tm_handle t) = (einval, h)"
    "tm_self t' = tm_self t" "tm_callback t' = tm_callback t" "tm_closed t' = tm_closed t" "tm_handle t' = h"
  shows "timing_ok U g k l0 (put_timer n t' s)"
proof -
  note laws = uv_timers_okD(10,11) [OF assms(1), of "tm_handle t"]
  have "uv_is_active U h \<Longrightarrow> uv_is_active U (tm_handle t) \<or> uv_started U (tm_handle t)"
    using uv_timers_okD(12,13) [OF assms(1), of "tm_handle t"] assms(5) by (cases einval) auto
  with laws assms(4-9) show ?thesis by (intro keeps_put [OF assms(2,3)]) auto
qed

lemma keeps_restart:
  assumes "uv_timers_ok U" "timing_ok U g k l0 s"
  shows "keeps_timing U g k l0 (timer_again U E W g args s)" "keeps_timing U g k l0 (timer_resume U E W g args s)"
  using keeps_again [OF assms]
  by (auto simp: timer_again_def timer_resume_def Let_def assms all_some_Some
      intro!: keeps_active_timer split: prod.split)

lemma keeps_pause:
  assumes "uv_timers_ok U" "timing_ok U g k l0 s"
  shows "keeps_timing U g k l0 (timer_pause U E W g args s)"
proof -
  note laws = uv_timers_okD [OF assms(1)]
  have "timing_ok U g k l0 (put_timer n (t \<lparr> tm_handle := h \<rparr>) s)"
    if "timers s n = Some t" "uv_timer_again U (tm_handle t) = (True, h)" for n t h
    using laws(12) [of "tm_handle t"] that(2) by (intro keeps_put [OF assms(2) that(1)]) auto
  moreover have "timing_ok U g k l0 (put_timer n (t \<lparr> tm_handle := uv_timer_stop U h, tm_paused := True \<rparr>) s)"
    if "timers s n = Some t" "uv_timer_again U (tm_handle t) = (False, h)" for n t h
    using laws(4,5,6) laws(10,11) [of "tm_handle t"] that(2) by (intro keeps_put [OF assms(2) that(1)]) auto
  ultimately show ?thesis
    by (auto simp: timer_pause_def Let_def assms(2) all_some_Some intro!: keeps_with_timer split: prod.split)
qed

lemma keeps_setters:
  assumes "uv_timers_ok U" "timing_ok U g k l0 s"
  shows "keeps_timing U g k l0 (timer_set U E W g args s)" "keeps_timing U g k l0 (timer_setRepeat U E W g args s)"
    "keeps_timing U g k l0 (timer_setDuration U E W g args s)"
proof -
  note laws = uv_timers_okD [OF assms(1)]
  have "timing_ok U g k l0 (put_timer n (set_repeat U ms (t \<lparr> tm_after := a \<rparr>)) s)"
    "timing_ok U g k l0 (put_timer n (set_repeat U ms t) s)"
    "timing_ok U g k l0 (put_timer n (t \<lparr> tm_after := a \<rparr>) s)" if "timers s n = Some t" for n t ms a
    using laws by (auto simp: set_repeat_def intro: keeps_put [OF assms(2) that])
  then show "keeps_timing U g k l0 (timer_set U E W g args s)" "keeps_timing U g k l0 (timer_setRepeat U E W g args s)"
    "keeps_timing U g k l0 (timer_setDuration U E W g args s)"
    unfolding timer_set_def timer_setRepeat_def timer_setDuration_def
    by (auto intro!: keeps assms(2) keeps_gives)
qed

lemma keeps_getters:
  assumes "timing_ok U g k l0 s"
  shows "m \<in> {timer_get, timer_getDuration, timer_getRepeat, timer_getCount, timer_getRemain, timer_isActive,
      timer_isPaused, timer_tostring} \<Longrightarrow> keeps_timing U g k l0 (m U E W g args s)"
  by (auto simp: timer_get_def timer_getDuration_def timer_getRepeat_def timer_getCount_def timer_getRemain_def
      timer_isActive_def timer_isPaused_def timer_tostring_def all_some_Some assms
      intro!: keeps_with_timer all_some_bind_any)

lemma keeps_stop:
  "uv_timers_ok U \<Longrightarrow> timing_ok U g k l0 s \<Longrightarrow> keeps_timing U g k l0 (timer_stop U E W g args s)"
  unfolding timer_stop_def by (intro keeps_with_timer keeps_gives timing_ok_close)

lemma keeps_methods:
  assumes "uv_timers_ok U" "timing_ok U g k l0 s" "m \<in> set timer_methods"
  shows "keeps_timing U g k l0 (m U E W g args s)"
  using assms(3) keeps_start [OF assms(1,2)] keeps_stop [OF assms(1,2)] keeps_pause [OF assms(1,2)]
    keeps_restart [OF assms(1,2)] keeps_setters [OF assms(1,2)] keeps_getters [OF assms(2)]
  unfolding timer_methods_def by auto

lemma timing_ok_new:
  assumes "uv_timers_ok U" "timing_ok U g k l0 s"
  shows "keeps_timing U g k l0 (mumble_timer_new U E W g args s)"
proof -
  note laws = uv_timers_okD [OF assms(1)]
  have "timers s (timers_made s) = None"
    using timing_okD(5) [OF assms(2)] by (cases "timers s (timers_made s)") auto
  moreover have "timers_made s \<notin> set (closing s)" using timing_okD(6) [OF assms(2)] by blast
  moreover define t where "t = \<lparr> tm_handle = uv_timer_init U, tm_closed = False, tm_paused = False, tm_count = 0,
    tm_self = LUA_NOREF, tm_callback = LUA_NOREF, tm_after = 0 \<rparr>"
  moreover have "timer_ok U (refs_at k (timer_lua s)) (closing s) (timers_made s) t"
    using calculation laws(1-3) by (simp add: timer_ok_def t_def)
  ultimately have "timing_ok U g k l0 (put_timer (timers_made s) t s
      \<lparr> timers_made := timers_made s + 1, script := insert (timers_made s) (script s) \<rparr>)"
    using assms(2) unfolding timing_ok_def by (auto simp: less_Suc_eq intro: owned_new split: if_splits)
  then show ?thesis unfolding mumble_timer_new_def Let_def t_def by (rule keeps_gives)
qed

text \<open>A referenced timer is not collected.\<close>

lemma referenced_not_collected:
  assumes "timing_ok U g k l0 s" "timers s n = Some t" "timer_unreferenced g n s"
  shows "tm_self t = LUA_NOREF"
proof (rule ccontr)
  assume "tm_self t \<noteq> LUA_NOREF"
  then have "refs_at k (timer_lua s) (tm_self t) = Some (timer_value n)"
    using timing_okD(4) [OF assms(1,2)] by (simp add: timer_ok_def)
  then have "look_ref g (MUMBLE_TIMER_REG g) (tm_self t) (timer_lua s) = Some (timer_value n)"
    using refs.get_law [OF timing_okD(1) [OF assms(1)]] by blast
  with assms(3) show False by (auto simp: timer_unreferenced_def)
qed

lemma close_timer:
  assumes "timers s n = Some t"
  shows "\<exists>t'. timers (mumble_timer_close U n t s) n = Some t' \<and> tm_self t' = tm_self t \<and>
    tm_callback t' = tm_callback t \<and> tm_closed t' \<and> tm_count t' = tm_count t"
  by (cases "tm_closed t"; cases "uv_is_closing U (uv_timer_stop U (tm_handle t))")
    (simp_all add: mumble_timer_close_def assms)

lemma timing_ok_collect:
  assumes "uv_timers_ok U" "timing_ok U g k l0 s" "timers s n = Some t" "timer_unreferenced g n s"
  shows "timing_ok U g k l0 (collect_timer U n t s)"
proof -
  let ?s = "mumble_timer_close U n t s"
  have ok: "timing_ok U g k l0 ?s" by (rule timing_ok_close [OF assms(1-3)])
  have n: "n \<notin> script ?s" using assms(4) by (simp add: mumble_timer_close_def timer_unreferenced_def Let_def)
  have "tm_self t = LUA_NOREF" using referenced_not_collected [OF assms(2-4)] .
  moreover from this have "tm_callback t = LUA_NOREF" using timing_okD(4) [OF assms(2,3)] by (simp add: timer_ok_def)
  moreover obtain t' where t': "timers ?s n = Some t'" "tm_self t' = tm_self t" "tm_callback t' = tm_callback t"
    using close_timer [OF assms(3)] by blast
  ultimately have "all_owned (refs_at k (timer_lua ?s)) ((timers ?s)(n := None))"
    using frame_noref [OF timing_okD(1) [OF ok]] by (intro owned_remove [OF timing_okD(8) [OF ok] t'(1)]) simp_all
  then show ?thesis using ok n unfolding collect_timer_def timing_ok_def by (auto simp: Let_def split: if_splits)
qed

lemma timing_ok_script:
  assumes "script_step U E g s s'" "uv_timers_ok U" "timing_ok U g k l0 s"
  shows "timing_ok U g k l0 s'"
  using assms(1)
proof cases
  case (new W args r)
  then show ?thesis using timing_ok_new [OF assms(2,3), of E W args] by (simp add: all_some_def)
next
  case (call m args W r)
  then show ?thesis using keeps_methods [OF assms(2,3) call(1), of E W args] by (simp add: all_some_def)
next
  case (forget n)
  then show ?thesis using assms(3) by (auto simp: timing_ok_def)
next
  case (collect n t)
  then show ?thesis using timing_ok_collect [OF assms(2,3)] by simp
qed

lemma timing_ok_scripts:
  "(script_step U E g)\<^sup>*\<^sup>* s s' \<Longrightarrow> uv_timers_ok U \<Longrightarrow> timing_ok U g k l0 s \<Longrightarrow> timing_ok U g k l0 s'"
  by (induction rule: rtranclp_induct) (auto intro: timing_ok_script)

section \<open>What becomes of a timer\<close>

text \<open>
  A method leaves a timer its reference, and a closed timer closed with the references it has, without further
  calls. What it closes is waiting for the end of its closing, and nothing else is.
\<close>

definition later :: "'h timer \<Rightarrow> 'h timer \<Rightarrow> bool" where
  "later t t' \<longleftrightarrow> (tm_self t \<noteq> LUA_NOREF \<longrightarrow> tm_self t' \<noteq> LUA_NOREF) \<and> (tm_closed t \<longrightarrow> tm_closed t' \<and> tm_self t' = tm_self t \<and> tm_callback t' = tm_callback t)"

definition closes :: "'h timing \<Rightarrow> 'h timing \<Rightarrow> bool" where
  "closes s s' \<longleftrightarrow> set (closing s) \<subseteq> set (closing s') \<and>
     (\<forall>n t'. timers s' n = Some t' \<longrightarrow> tm_closed t' \<longrightarrow>
        n \<in> set (closing s') \<or> (\<exists>t. timers s n = Some t \<and> tm_closed t)) \<and>
     (\<forall>n. n \<in> set (closing s') \<longrightarrow> n \<notin> set (closing s) \<longrightarrow>
        timers_made s \<le> n \<or> (\<exists>t. timers s n = Some t \<and> \<not> tm_closed t))"

definition evolves :: "'h timing \<Rightarrow> 'h timing \<Rightarrow> bool" where
  "evolves s s' \<longleftrightarrow> timers_made s \<le> timers_made s' \<and> timer_calls s' = timer_calls s \<and>
     (\<forall>n t. timers s n = Some t \<longrightarrow> n < timers_made s \<longrightarrow>
        (case timers s' n of None \<Rightarrow> tm_self t = LUA_NOREF | Some t' \<Rightarrow> later t t')) \<and>
     (\<forall>n. timers s n = None \<longrightarrow> n < timers_made s \<longrightarrow> timers s' n = None) \<and> closes s s'"

lemma later_refl [simp]: "later t t"
  by (simp add: later_def)

lemma closes_same: "closing s' = closing s \<Longrightarrow>
    (\<And>n t'. timers s' n = Some t' \<Longrightarrow> tm_closed t' \<Longrightarrow> \<exists>t. timers s n = Some t \<and> tm_closed t) \<Longrightarrow> closes s s'"
  by (auto simp: closes_def)

lemma evolves_refl [simp]: "evolves s s"
  by (simp add: evolves_def closes_same)

lemma evolves_trans:
  assumes "evolves s s1" "evolves s1 s2"
  shows "evolves s s2"
proof -
  have "case timers s2 n of None \<Rightarrow> tm_self t = LUA_NOREF | Some t' \<Rightarrow> later t t'"
    if t: "timers s n = Some t" "n < timers_made s" for n t
  proof (cases "timers s1 n")
    case None
    with t have "tm_self t = LUA_NOREF" "timers s2 n = None" using assms by (force simp: evolves_def)+
    then show ?thesis by simp
  next
    case (Some t1)
    with t have "later t t1" "n < timers_made s1" using assms(1) by (force simp: evolves_def)+
    moreover have "case timers s2 n of None \<Rightarrow> tm_self t1 = LUA_NOREF | Some t' \<Rightarrow> later t1 t'"
      using assms(2) Some calculation(2) by (auto simp: evolves_def)
    ultimately show ?thesis by (auto simp: later_def split: option.splits)
  qed
  moreover have "closes s s2"
  proof -
    have c: "closes s s1" "closes s1 s2" using assms by (simp_all add: evolves_def)
    have "n \<in> set (closing s2) \<or> (\<exists>t. timers s n = Some t \<and> tm_closed t)"
      if "timers s2 n = Some t'" "tm_closed t'" for n t'
      using c that unfolding closes_def by (meson subsetD)
    moreover have "\<exists>t. timers s n = Some t \<and> \<not> tm_closed t"
      if n: "n \<in> set (closing s2)" "n \<notin> set (closing s)" "\<not> timers_made s \<le> n" for n
    proof (cases "n \<in> set (closing s1)")
      case True
      then show ?thesis using c(1) n(2,3) by (auto simp: closes_def)
    next
      case False
      have "timers_made s \<le> timers_made s1" using assms(1) by (simp add: evolves_def)
      then obtain t1 where t1: "timers s1 n = Some t1" "\<not> tm_closed t1"
        using False c(2) n(1,3) unfolding closes_def by (meson order_trans)
      then obtain t where t: "timers s n = Some t"
        using assms(1) n(3) by (cases "timers s n") (auto simp: evolves_def not_le)
      then have "later t t1" using assms(1) n(3) t1(1) by (force simp: evolves_def not_le)
      then show ?thesis using t t1(2) by (auto simp: later_def)
    qed
    ultimately show ?thesis using c unfolding closes_def by blast
  qed
  ultimately show ?thesis using assms by (auto simp: evolves_def)
qed

lemma evolves_put:
  "timers s n = Some t \<Longrightarrow> later t t' \<Longrightarrow> tm_closed t' = tm_closed t \<Longrightarrow> evolves s (put_timer n t' s)"
  "timers s n = Some t \<Longrightarrow> later t t' \<Longrightarrow> tm_closed t' = tm_closed t \<Longrightarrow> evolves s (put_timer n t' (s \<lparr> timer_lua := l \<rparr>))"
  by (auto simp: evolves_def intro!: closes_same split: if_splits)

lemma evolves_close:
  assumes "uv_timers_ok U" "timing_ok U g k l0 s" "timers s n = Some t"
  shows "evolves s (mumble_timer_close U n t s)"
proof (cases "tm_closed t")
  case False
  then have "\<not> uv_is_closing U (uv_timer_stop U (tm_handle t))"
    using timing_okD(4) [OF assms(2,3)] uv_timers_okD(5) [OF assms(1)] by (auto simp: timer_ok_def)
  with False assms(3) show ?thesis
    by (auto simp: mumble_timer_close_def Let_def evolves_def later_def closes_def split: if_splits)
qed (simp add: mumble_timer_close_def)

lemma evolves_with_timer:
  "(\<And>n t. timers s n = Some t \<Longrightarrow> all_some (\<lambda>(r, s'). evolves s s') (f n t)) \<Longrightarrow>
   all_some (\<lambda>(r, s'). evolves s s') (with_timer args s f)"
  by (auto simp: with_timer_def all_some_def split: option.splits lval.splits bind_splits)

lemma evolves_active_timer:
  "(\<And>n t. timers s n = Some t \<Longrightarrow> \<not> tm_closed t \<Longrightarrow> all_some (\<lambda>(r, s'). evolves s s') (f n t)) \<Longrightarrow>
   all_some (\<lambda>(r, s'). evolves s s') (mumble_active_timer W args s f)"
  unfolding mumble_active_timer_def by (rule evolves_with_timer) (simp add: all_some_Some)

lemma evolves_start:
  assumes "timing_ok U g k l0 s"
  shows "all_some (\<lambda>(r, s'). evolves s s') (timer_start U E W g args s)"
  unfolding timer_start_def Let_def
proof (intro evolves_active_timer wp, goal_cases)
  case (4 n t f a after r repeat x self y cb l)
  then have "self \<noteq> LUA_NOREF"
    using reference_timer_correct [OF assms 4(1) check_function_is [OF 4(3)]] by auto
  with 4 show ?case by (simp add: evolves_put later_def)
qed simp_all

lemma evolves_methods:
  assumes "timing_ok U g k l0 s" "m \<in> set timer_methods" "uv_timers_ok U"
  shows "all_some (\<lambda>(r, s'). evolves s s') (m U E W g args s)"
proof -
  have stop: "all_some (\<lambda>(r, s'). evolves s s') (timer_stop U E W g args s)"
    unfolding timer_stop_def by (intro evolves_with_timer wp) (simp add: evolves_close [OF assms(3,1)])
  have "all_some (\<lambda>(r, s'). evolves s s') (m U E W g args s)"
    if "m \<in> {timer_pause, timer_again, timer_resume, timer_set, timer_setRepeat, timer_setDuration}"
    using that unfolding timer_pause_def timer_again_def timer_resume_def timer_set_def timer_setRepeat_def
      timer_setDuration_def Let_def
    by (auto intro!: evolves_with_timer evolves_active_timer wp simp: evolves_put later_def set_repeat_def)
  moreover have "all_some (\<lambda>(r, s'). evolves s s') (m U E W g args s)"
    if "m \<in> {timer_get, timer_getDuration, timer_getRepeat, timer_getCount, timer_getRemain, timer_isActive,
      timer_isPaused, timer_tostring}"
    using that unfolding timer_get_def timer_getDuration_def timer_getRepeat_def timer_getCount_def
      timer_getRemain_def timer_isActive_def timer_isPaused_def timer_tostring_def
    by (auto intro!: evolves_with_timer wp)
  ultimately show ?thesis
    using assms(2) stop evolves_start [OF assms(1)] unfolding timer_methods_def by auto
qed

lemma evolves_script:
  assumes "script_step U E g s s'" "timing_ok U g k l0 s" "uv_timers_ok U"
  shows "evolves s s'"
  using assms(1)
proof cases
  case (new W args r)
  have "timers s (timers_made s) = None"
    using timing_okD(5) [OF assms(2)] by (cases "timers s (timers_made s)") auto
  with new show ?thesis
    by (auto simp: mumble_timer_new_def Let_def evolves_def intro!: closes_same split: if_splits)
next
  case (call m args W r)
  then show ?thesis using evolves_methods [OF assms(2) call(1) assms(3), of E W args] by (simp add: all_some_def)
next
  case (forget n)
  then show ?thesis by (auto simp: evolves_def intro: closes_same)
next
  case (collect n t)
  then have "tm_self t = LUA_NOREF" using referenced_not_collected [OF assms(2)] by blast
  moreover have "evolves s (mumble_timer_close U n t s)" using evolves_close [OF assms(3,2) collect(2)] .
  ultimately show ?thesis using collect
    by (auto simp: collect_timer_def Let_def evolves_def closes_def split: option.splits if_splits)
qed

lemma evolves_scripts:
  assumes "(script_step U E g)\<^sup>*\<^sup>* s s'" "uv_timers_ok U" "timing_ok U g k l0 s"
  shows "evolves s s' \<and> timing_ok U g k l0 s'"
  using assms(1)
proof (induction rule: rtranclp_induct)
  case (step s1 s2)
  then show ?case using evolves_script [OF _ _ assms(2)] evolves_trans timing_ok_script [OF step(2) assms(2)] by blast
qed (use assms(3) in simp)

section \<open>The events of libuv\<close>

text \<open>The end of closing gives up both references, if the object is still there.\<close>

lemma on_close_done:
  assumes s: "timing_ok U g k l0 s" and t: "timers s n = Some t" and n: "n \<in> set (closing s)"
  shows "\<exists>l. mumble_timer_on_close g n s = Some (put_timer n (t \<lparr> tm_callback := LUA_NOREF, tm_self := LUA_NOREF \<rparr>) s
      \<lparr> timer_lua := l, closing := remove1 n (closing s) \<rparr>) \<and>
    registry_frame g (MUMBLE_TIMER_REG g) k l0 l \<and>
    refs_at k l = (\<lambda>r. if r = tm_self t \<or> r = tm_callback t then None else refs_at k (timer_lua s) r)"
proof (cases "tm_self t = LUA_NOREF")
  case True
  then have cb: "tm_callback t = LUA_NOREF" using timing_okD(4) [OF s t] by (simp add: timer_ok_def)
  have "refs_at k (timer_lua s) LUA_NOREF = None" by (rule frame_noref [OF timing_okD(1) [OF s]])
  then show ?thesis
    using True cb t timing_okD(1) [OF s]
    by (auto simp: mumble_timer_on_close_def LUA_NOREF_def LUA_REFNIL_def fun_eq_iff)
next
  case False
  note frame = timing_okD(1) [OF s]
  obtain f where f: "refs_at k (timer_lua s) (tm_self t) = Some (timer_value n)" "is_function f"
      "refs_at k (timer_lua s) (tm_callback t) = Some f"
    using timing_okD(4) [OF s t] False by (auto simp: timer_ok_def)
  then have pos: "LUA_REFNIL < tm_self t" "LUA_REFNIL < tm_callback t" "tm_self t \<noteq> tm_callback t"
    using frame_positive [OF frame] by (force simp: LUA_NOREF_def LUA_REFNIL_def)+
  obtain l1 where l1: "mumble_registry_unref g (MUMBLE_TIMER_REG g) (tm_callback t) (timer_lua s) = Some (LUA_NOREF, l1)"
      "registry_frame g (MUMBLE_TIMER_REG g) k l0 l1" "refs_at k l1 = (refs_at k (timer_lua s))(tm_callback t := None)"
    using refs.forget_law [OF frame f(3)] by blast
  then have "refs_at k l1 (tm_self t) = Some (timer_value n)" using pos f by simp
  then obtain l2 where l2: "mumble_registry_unref g (MUMBLE_TIMER_REG g) (tm_self t) l1 = Some (LUA_NOREF, l2)"
      "registry_frame g (MUMBLE_TIMER_REG g) k l0 l2" "refs_at k l2 = (refs_at k l1)(tm_self t := None)"
    using refs.forget_law [OF l1(2)] by blast
  show ?thesis using pos t l1 l2 by (auto simp: mumble_timer_on_close_def fun_eq_iff)
qed

lemma timing_ok_closing:
  "timing_ok U g k l0 s \<Longrightarrow> timing_ok U g k l0 (s \<lparr> closing := remove1 n (closing s) \<rparr>)"
  using notin_set_remove1 unfolding timing_ok_def timer_ok_def by auto

lemma timing_ok_on_close:
  assumes s: "timing_ok U g k l0 s" and t: "timers s n = Some t" and n: "n \<in> set (closing s)"
    and closed: "mumble_timer_on_close g n s = Some s'"
  shows "timing_ok U g k l0 s'"
proof -
  let ?t = "t \<lparr> tm_callback := LUA_NOREF, tm_self := LUA_NOREF \<rparr>" and ?s = "s \<lparr> closing := remove1 n (closing s) \<rparr>"
  obtain l where l: "s' = put_timer n ?t s \<lparr> timer_lua := l, closing := remove1 n (closing s) \<rparr>"
      "registry_frame g (MUMBLE_TIMER_REG g) k l0 l"
      "refs_at k l = (\<lambda>r. if r = tm_self t \<or> r = tm_callback t then None else refs_at k (timer_lua s) r)"
    using on_close_done [OF s t n] closed by auto
  have "timer_ok U (refs_at k l) (closing ?s) n ?t"
    using timing_okD(3,4) [OF s] t n by (auto simp: timer_ok_def)
  moreover have "refs_at k (timer_lua s) r = Some v \<Longrightarrow> r \<noteq> LUA_NOREF" for r v
    using frame_positive [OF timing_okD(1) [OF s]] by (force simp: LUA_NOREF_def)
  ultimately have "timing_ok U g k l0 (put_timer n ?t (?s \<lparr> timer_lua := l \<rparr>))"
    using t l(2,3) by (intro timing_ok_rereference [OF timing_ok_closing [OF s]]) auto
  then show ?thesis by (cases s) (simp add: l(1) put_timer_def)
qed

text \<open>The stack below is that of whoever runs the loop.\<close>

lemma timing_ok_stack:
  "timing_ok U g k l0 s \<Longrightarrow>
   timing_ok U g k (l0 \<lparr> lua_stack := S \<rparr>) (s \<lparr> timer_lua := (timer_lua s) \<lparr> lua_stack := S \<rparr> \<rparr>)"
  by (simp add: timing_ok_def registry_frame_def registry_ready_def)

lemma timing_ok_called:
  assumes "timing_ok U g k l0 s" "timers s n \<noteq> None"
  shows "timing_ok U g k l0 (s \<lparr> timer_calls := cs, script := script s \<union> {m. timer_value m \<in> set [timer_value n]} \<rparr>)"
  using assms by (auto simp: timing_ok_def)

text \<open>
  What happens when an active timer is due: its function is called with the timer, on a stack with the handler;
  afterwards the timer is closed when it is neither active nor paused.
\<close>

definition called_state :: "'h uv_timers \<Rightarrow> nat \<Rightarrow> 'h timer \<Rightarrow> lval \<Rightarrow> 'h timing \<Rightarrow> 'h timing" where
  "called_state U n t f s =
     put_timer n (t \<lparr> tm_handle := uv_due U (tm_handle t), tm_count := tm_count t + 1 \<rparr>) s
       \<lparr> timer_lua := push (LMethod ''traceback'') (timer_lua s),
         timer_calls := timer_calls s @ [(f, [timer_value n])], script := insert n (script s) \<rparr>"

lemma pcall_frame_three:
  "pcall_frame (Suc 0) (-3) (push v (push f (push (LMethod h) l))) = Some (f, [v], push (LMethod h) l)"
  by (cases l) (simp add: pcall_frame_def push_def lua_at_def lua_index_def nth_append)

lemma timer_due_calls:
  assumes U: "uv_timers_ok U" and s: "timing_ok U g k l0 s" and t: "timers s n = Some t"
    and active: "uv_is_active U (tm_handle t)"
  shows "\<exists>f. is_function f \<and> refs_at k (timer_lua s) (tm_callback t) = Some f \<and>
    timer_due U g run n t s =
      Option.bind (run f [timer_value n] (called_state U n t f s)) (\<lambda>(ok, s). timer_returned U n ok s)"
proof -
  note laws = uv_timers_okD [OF U] and ok = timing_okD(4) [OF s t]
  have self: "tm_self t \<noteq> LUA_NOREF" "\<not> uv_is_closing U (uv_due U (tm_handle t))"
    using ok active laws by (auto simp: timer_ok_def)
  then obtain f where f: "is_function f" "refs_at k (timer_lua s) (tm_self t) = Some (timer_value n)"
      "refs_at k (timer_lua s) (tm_callback t) = Some f"
    using ok by (auto simp: timer_ok_def)
  have ready: "registry_ready g (MUMBLE_TIMER_REG g) k (timer_lua s)"
    using timing_okD(1) [OF s] by (simp add: registry_frame_def)
  let ?l = "push (LMethod ''traceback'') (timer_lua s)"
  have p1: "mumble_registry_pushref g (MUMBLE_TIMER_REG g) (tm_callback t) ?l = Some (push f ?l)"
    using mumble_registry_pushref_correct [of g _ k ?l] ready held_raw_get [OF f(3)] by simp
  have p2: "mumble_registry_pushref g (MUMBLE_TIMER_REG g) (tm_self t) (push f ?l) = Some (push (timer_value n) (push f ?l))"
    using mumble_registry_pushref_correct [of g _ k "push f ?l"] ready held_raw_get [OF f(2)] by simp
  have "script s \<union> {m. timer_value m \<in> set [timer_value n]} = insert n (script s)" by auto
  then have "timer_due U g run n t s =
      Option.bind (run f [timer_value n] (called_state U n t f s)) (\<lambda>(ok, s). timer_returned U n ok s)"
    using self(2) f(1) unfolding timer_due_def mumble_lua_timer_def
    by (simp add: p1 p2 pcall_frame_three call_script_def called_state_def put_timer_def Let_def)
  with f show ?thesis by blast
qed

lemma timer_returned_done:
  assumes "lua_stack (timer_lua s) = S @ [h]" "timers s n = Some t"
  shows "timer_returned U n ok s = Some (
    let s = s \<lparr> timer_lua := (timer_lua s) \<lparr> lua_stack := S \<rparr> \<rparr>
    in if \<not> uv_is_active U (tm_handle t) \<and> \<not> tm_paused t then mumble_timer_close U n t s else s)"
  using assms by (simp add: timer_returned_def pcall_done_def on_stack_def push_def lua_pop_def Let_def)

section \<open>Every reachable state\<close>

lemma called_state_ok:
  assumes "uv_timers_ok U" "timing_ok U g k l0 s" "timers s n = Some t" "uv_is_active U (tm_handle t)"
  shows "timing_ok U g k (push (LMethod ''traceback'') l0) (called_state U n t f s)"
proof -
  note laws = uv_timers_okD [OF assms(1)]
  let ?t = "t \<lparr> tm_handle := uv_due U (tm_handle t), tm_count := tm_count t + 1 \<rparr>"
  have "timing_ok U g k l0 (put_timer n ?t s)"
    using laws assms(4) by (intro keeps_put [OF assms(2,3)]) auto
  then have "timing_ok U g k (push (LMethod ''traceback'') l0)
      (put_timer n ?t s \<lparr> timer_lua := push (LMethod ''traceback'') (timer_lua s) \<rparr>)"
    by (simp add: timing_ok_def registry_frame_def)
  then show ?thesis unfolding called_state_def timing_ok_def by (auto split: if_splits)
qed

lemma timing_ok_pop:
  assumes "timing_ok U g k (push h l0) s"
  shows "lua_stack (timer_lua s) = lua_stack l0 @ [h]"
    "timing_ok U g k l0 (s \<lparr> timer_lua := (timer_lua s) \<lparr> lua_stack := lua_stack l0 \<rparr> \<rparr>)"
  using assms by (simp_all add: timing_ok_def registry_frame_def registry_ready_def)

text \<open>A due timer is still there when its callback returns, and its call is the only one.\<close>

lemma due_done:
  assumes U: "uv_timers_ok U" and s: "timing_ok U g k l0 s" and t: "timers s n = Some t"
    and active: "uv_is_active U (tm_handle t)"
    and steps: "(script_step U E g)\<^sup>*\<^sup>* (called_state U n t f s) s1"
  shows "\<exists>t1 s'. timers s1 n = Some t1 \<and> timer_returned U n ok s1 = Some s' \<and> timing_ok U g k l0 s' \<and>
    evolves s1 s' \<and> evolves (called_state U n t f s) s1"
proof -
  let ?c = "called_state U n t f s" and ?l = "push (LMethod ''traceback'') l0"
  note ok = called_state_ok [OF U s t active, of f]
  have e: "evolves ?c s1" "timing_ok U g k ?l s1" using evolves_scripts [OF steps U ok] by auto
  have self: "tm_self t \<noteq> LUA_NOREF" using timing_okD(4) [OF s t] active by (auto simp: timer_ok_def)
  have "timers ?c n = Some (t \<lparr> tm_handle := uv_due U (tm_handle t), tm_count := tm_count t + 1 \<rparr>)"
    "n < timers_made ?c" using timing_okD(5) [OF s t] by (simp_all add: called_state_def)
  then obtain t1 where t1: "timers s1 n = Some t1"
    using e(1) self unfolding evolves_def by (fastforce split: option.splits)
  let ?s1 = "s1 \<lparr> timer_lua := (timer_lua s1) \<lparr> lua_stack := lua_stack l0 \<rparr> \<rparr>"
  have s1: "timing_ok U g k l0 ?s1" "timers ?s1 n = Some t1" using timing_ok_pop [OF e(2)] t1 by simp_all
  define s' where "s' = (if \<not> uv_is_active U (tm_handle t1) \<and> \<not> tm_paused t1 then mumble_timer_close U n t1 ?s1 else ?s1)"
  have "timer_returned U n ok s1 = Some s'"
    using timer_returned_done [OF timing_ok_pop(1) [OF e(2)] t1] by (simp add: s'_def)
  moreover have "timing_ok U g k l0 s'" using timing_ok_close [OF U s1] s1(1) by (simp add: s'_def)
  moreover have "evolves s1 s'"
  proof -
    have "evolves s1 ?s1" by (auto simp: evolves_def intro: closes_same)
    then show ?thesis using evolves_close [OF U s1] evolves_trans by (auto simp: s'_def)
  qed
  ultimately show ?thesis using t1 e(1) by blast
qed

text \<open>A timer is gone when it is closed or collected.\<close>

definition gone :: "nat \<Rightarrow> 'h timing \<Rightarrow> bool" where
  "gone n s \<longleftrightarrow> n < timers_made s \<and> (case timers s n of None \<Rightarrow> True | Some t \<Rightarrow> tm_closed t)"

definition callbacks_of :: "nat \<Rightarrow> 'h timing \<Rightarrow> (lval \<times> lval list) list" where
  "callbacks_of n s = filter (\<lambda>c. snd c = [timer_value n]) (timer_calls s)"

lemma evolves_gone: "evolves s s' \<Longrightarrow> gone n s \<Longrightarrow> gone n s' \<and> callbacks_of n s' = callbacks_of n s"
proof -
  assume e: "evolves s s'" and n: "gone n s"
  have "gone n s'"
  proof (cases "timers s n")
    case None
    with e n have "n < timers_made s'" "timers s' n = None" by (auto simp: evolves_def gone_def)
    then show ?thesis by (simp add: gone_def)
  next
    case (Some t)
    with e n have "n < timers_made s'" "case timers s' n of None \<Rightarrow> tm_self t = LUA_NOREF | Some t' \<Rightarrow> later t t'" "tm_closed t"
      by (auto simp: evolves_def gone_def)
    then show ?thesis by (auto simp: gone_def later_def split: option.splits)
  qed
  with e show ?thesis by (simp add: evolves_def callbacks_of_def)
qed

lemma timer_step_ok:
  assumes step: "timer_step U E g s s'" and U: "uv_timers_ok U" and s: "timing_ok U g k l0 s"
  shows "timing_ok U g k l0 s' \<and> (gone m s \<longrightarrow> gone m s' \<and> callbacks_of m s' = callbacks_of m s)"
  using step
proof cases
  case script
  then show ?thesis using timing_ok_script [OF _ U s] evolves_script [OF _ s U] evolves_gone by blast
next
  case (due n t run)
  obtain f where f: "timer_due U g run n t s =
      Option.bind (run f [timer_value n] (called_state U n t f s)) (\<lambda>(ok, s). timer_returned U n ok s)"
    using timer_due_calls [OF U s due(1,2), of run] by blast
  obtain ok s1 where s1: "run f [timer_value n] (called_state U n t f s) = Some (ok, s1)"
      "timer_returned U n ok s1 = Some s'"
    using f due(4) by (auto split: bind_splits)
  have returned: "timing_ok U g k l0 s'" "evolves (called_state U n t f s) s'"
    using due_done [OF U s due(1,2), of E f s1 ok] due(3) s1 evolves_trans by (auto, blast)
  have "gone m s \<Longrightarrow> m \<noteq> n"
    using due(1,2) timing_okD(4) [OF s due(1)] by (auto simp: gone_def timer_ok_def)
  then have "gone m s \<Longrightarrow> gone m (called_state U n t f s) \<and> callbacks_of m (called_state U n t f s) = callbacks_of m s"
    by (auto simp: gone_def callbacks_of_def called_state_def)
  with returned evolves_gone show ?thesis by fastforce
next
  case (closed n)
  then obtain t where t: "timers s n = Some t" by (auto simp: mumble_timer_on_close_def split: bind_splits)
  have "tm_closed t" using timing_okD(4) [OF s t] closed(1) by (simp add: timer_ok_def)
  then have "gone m s \<longrightarrow> gone m s' \<and> callbacks_of m s' = callbacks_of m s"
    using on_close_done [OF s t closed(1)] closed(2) by (auto simp: gone_def callbacks_of_def)
  then show ?thesis using timing_ok_on_close [OF s t closed] by blast
qed

lemma timer_reachable_ok:
  assumes "timer_reachable U E g s0 s" "uv_timers_ok U" "timing_ok U g k l0 s0"
  shows "timing_ok U g k l0 s \<and> (gone m s0 \<longrightarrow> gone m s \<and> callbacks_of m s = callbacks_of m s0)"
  using assms(1)
proof (induction rule: timer_reachable.induct)
  case (step s s')
  then show ?case using timer_step_ok [OF step(2) assms(2), of k l0 m] by simp
qed (use assms(3) in simp)

lemma no_timers_ok:
  "registry_ready g (MUMBLE_TIMER_REG g) k l \<Longrightarrow> refs_at k l = Map.empty \<Longrightarrow> timing_ok U g k l (no_timers l)"
  by (simp add: timing_ok_def no_timers_def registry_frame_def all_owned_def)

lemma reachable_ok:
  assumes "uv_timers_ok U" "lua_ok l0" "open_registries g0 l0 = Some (g, l)"
    "timer_reachable U E g (no_timers l) s"
  shows "\<exists>k. timing_ok U g k l s"
proof -
  have "MUMBLE_TIMER_REG g \<in> registry_numbers g" by (simp add: registry_numbers_def)
  then obtain k where "registry_ready g (MUMBLE_TIMER_REG g) k l" "refs_at k l = Map.empty"
    using opened_ready [OF assms(2,3)] by blast
  then have "timing_ok U g k l (no_timers l)" by (rule no_timers_ok)
  then show ?thesis using timer_reachable_ok [OF assms(4,1)] by blast
qed

lemma timer_reachable_trans:
  "timer_reachable U E g s1 s2 \<Longrightarrow> timer_reachable U E g s0 s1 \<Longrightarrow> timer_reachable U E g s0 s2"
  by (induction rule: timer_reachable.induct) (auto intro: timer_reachable.intros)

section \<open>What is released\<close>

text \<open>The three ways a step changes the timers.\<close>

lemma timer_step_shape:
  assumes step: "timer_step U E g s s'" and U: "uv_timers_ok U" and s: "timing_ok U g k l0 s"
  obtains "evolves s s'"
  | m u f where "timers s m = Some u" "uv_is_active U (tm_handle u)" "evolves (called_state U m u f s) s'"
  | m u l where "m \<in> set (closing s)" "timers s m = Some u"
      "s' = put_timer m (u \<lparr> tm_callback := LUA_NOREF, tm_self := LUA_NOREF \<rparr>) s \<lparr> timer_lua := l, closing := remove1 m (closing s) \<rparr>"
  using step
proof cases
  case script
  then show ?thesis using evolves_script [OF _ s U] that(1) by blast
next
  case (due m u run)
  obtain f where f: "timer_due U g run m u s =
      Option.bind (run f [timer_value m] (called_state U m u f s)) (\<lambda>(ok, s). timer_returned U m ok s)"
    using timer_due_calls [OF U s due(1,2), of run] by blast
  obtain ok s1 where s1: "run f [timer_value m] (called_state U m u f s) = Some (ok, s1)"
      "timer_returned U m ok s1 = Some s'"
    using f due(4) by (auto split: bind_splits)
  have "(script_step U E g)\<^sup>*\<^sup>* (called_state U m u f s) s1" using due(3) s1(1) by blast
  then have "evolves (called_state U m u f s) s'"
    using due_done [OF U s due(1,2), of E f s1 ok] s1(2) evolves_trans by fastforce
  then show ?thesis using that(2) [OF due(1,2)] by blast
next
  case (closed m)
  then obtain u where u: "timers s m = Some u" by (auto simp: mumble_timer_on_close_def split: bind_splits)
  then show ?thesis using on_close_done [OF s u closed(1)] closed that(3) by auto
qed

text \<open>
  A closed timer that is referenced waits for the end of its closing, and keeps its references until then.
\<close>

definition waits :: "'h timing \<Rightarrow> bool" where
  "waits s \<longleftrightarrow> (\<forall>n t. timers s n = Some t \<longrightarrow> tm_closed t \<longrightarrow> tm_self t \<noteq> LUA_NOREF \<longrightarrow> n \<in> set (closing s))"

definition waiting_with :: "nat \<Rightarrow> int \<Rightarrow> int \<Rightarrow> 'h timing \<Rightarrow> bool" where
  "waiting_with n a b s \<longleftrightarrow> (n \<in> set (closing s) \<longrightarrow>
     (\<exists>t. timers s n = Some t \<and> tm_closed t \<and> tm_self t = a \<and> tm_callback t = b))"

lemma waits_evolves:
  assumes "evolves s s'" "waits s" "\<And>n t. timers s n = Some t \<Longrightarrow> n < timers_made s"
  shows "waits s'"
  unfolding waits_def
proof (intro allI impI)
  fix n t' assume t': "timers s' n = Some t'" "tm_closed t'" "tm_self t' \<noteq> LUA_NOREF"
  show "n \<in> set (closing s')"
  proof (rule ccontr)
    assume "n \<notin> set (closing s')"
    then obtain t where t: "timers s n = Some t" "tm_closed t" "n \<notin> set (closing s)"
      using assms(1) t' unfolding evolves_def closes_def by blast
    then have "later t t'" using assms(1) t'(1) assms(3) [OF t(1)] by (force simp: evolves_def)
    then show False using t t'(3) assms(2) by (auto simp: later_def waits_def)
  qed
qed

lemma waiting_evolves:
  assumes "evolves s s'" "waiting_with n a b s" "gone n s" "a \<noteq> LUA_NOREF"
  shows "waiting_with n a b s'"
  unfolding waiting_with_def
proof
  assume n': "n \<in> set (closing s')"
  have "n \<in> set (closing s)"
  proof (rule ccontr)
    assume "n \<notin> set (closing s)"
    then show False using assms(1,3) n' unfolding evolves_def closes_def gone_def by (auto split: option.splits)
  qed
  then obtain t where t: "timers s n = Some t" "tm_closed t" "tm_self t = a" "tm_callback t = b"
    using assms(2) by (auto simp: waiting_with_def)
  have "case timers s' n of None \<Rightarrow> tm_self t = LUA_NOREF | Some t' \<Rightarrow> later t t'"
    using assms(1,3) t(1) by (simp add: evolves_def gone_def)
  then show "\<exists>t. timers s' n = Some t \<and> tm_closed t \<and> tm_self t = a \<and> tm_callback t = b"
    using t assms(4) by (auto simp: later_def split: option.splits)
qed

lemma timer_step_waits:
  assumes step: "timer_step U E g s s'" and U: "uv_timers_ok U" and s: "timing_ok U g k l0 s" and w: "waits s"
  shows "waits s'" "waiting_with n a b s \<Longrightarrow> gone n s \<Longrightarrow> a \<noteq> LUA_NOREF \<Longrightarrow> waiting_with n a b s'"
proof -
  note made = timing_okD(5) [OF s]
  show "waits s'"
    using step U s
  proof (cases rule: timer_step_shape)
    case 1
    then show ?thesis using waits_evolves w made by blast
  next
    case (2 m u f)
    have "waits (called_state U m u f s)" using w 2(1) by (auto simp: waits_def called_state_def)
    moreover have "i < timers_made (called_state U m u f s)" if "timers (called_state U m u f s) i = Some t" for i t
      using that made 2(1) by (auto simp: called_state_def split: if_splits)
    ultimately show ?thesis using waits_evolves [OF 2(3)] by blast
  next
    case (3 m u l)
    then show ?thesis using w by (auto simp: waits_def in_set_remove1 split: if_splits)
  qed
  assume n: "waiting_with n a b s" "gone n s" "a \<noteq> LUA_NOREF"
  show "waiting_with n a b s'"
    using step U s
  proof (cases rule: timer_step_shape)
    case 1
    then show ?thesis using waiting_evolves n by blast
  next
    case (2 m u f)
    then have "m \<noteq> n" using n(2) timing_okD(4) [OF s 2(1)] by (auto simp: gone_def timer_ok_def)
    then have "waiting_with n a b (called_state U m u f s)" "gone n (called_state U m u f s)"
      using n(1,2) by (auto simp: waiting_with_def gone_def called_state_def)
    then show ?thesis using waiting_evolves [OF 2(3)] n(3) by blast
  next
    case (3 m u l)
    then show ?thesis using n(1) timing_okD(3) [OF s] by (auto simp: waiting_with_def split: if_splits)
  qed
qed

lemma timer_reachable_waits:
  assumes "timer_reachable U E g s0 s" "uv_timers_ok U" "timing_ok U g k l0 s0" "waits s0"
  shows "waits s \<and> (waiting_with n a b s0 \<longrightarrow> gone n s0 \<longrightarrow> a \<noteq> LUA_NOREF \<longrightarrow> waiting_with n a b s)"
  using assms(1)
proof (induction rule: timer_reachable.induct)
  case (step s s')
  have "timing_ok U g k l0 s" "gone n s0 \<longrightarrow> gone n s"
    using timer_reachable_ok [OF step(1) assms(2,3)] by blast+
  then show ?case using timer_step_waits [OF step(2) assms(2)] step(3) by blast
qed (use assms(4) in simp)

text \<open>Only its self reference gives a timer.\<close>

lemma look_timer:
  assumes "timing_ok U g k l0 s" "look_ref g (MUMBLE_TIMER_REG g) r (timer_lua s) = Some (timer_value n)"
  shows "\<exists>t. timers s n = Some t \<and> r = tm_self t \<and> tm_self t \<noteq> LUA_NOREF"
proof -
  have ready: "registry_ready g (MUMBLE_TIMER_REG g) k (timer_lua s)"
    using timing_okD(1) [OF assms(1)] by (simp add: registry_frame_def)
  then have r: "refs_at k (timer_lua s) r = Some (timer_value n)"
    using assms(2) raw_get_held [of "lua_tables (timer_lua s) k" r "timer_value n"]
    by (simp add: look_ref_ready [OF ready] registry_ready_def timer_value_def)
  then obtain m u where u: "timers s m = Some u" "r = tm_self u \<or> r = tm_callback u"
    using timing_okD(8) [OF assms(1)] by (auto simp: all_owned_def)
  have noref: "refs_at k (timer_lua s) LUA_NOREF = None" by (rule frame_noref [OF timing_okD(1) [OF assms(1)]])
  have "tm_self u \<noteq> LUA_NOREF" "r = tm_self u" "m = n"
    using timing_okD(4) [OF assms(1) u(1)] u(2) r noref by (auto simp: timer_ok_def split: if_splits)
  with u show ?thesis by auto
qed

section \<open>A sample\<close>

text \<open>A handle of four members: started, active, closing, the repeat value.\<close>

definition sample_timers :: "(bool \<times> bool \<times> bool \<times> u64) uv_timers" where
  "sample_timers =
     \<lparr> uv_timer_init = (False, False, False, 0),
       uv_timer_start = (\<lambda>a r (st, ac, cl, rp). (True, \<not> cl, cl, r)),
       uv_timer_stop = (\<lambda>(st, ac, cl, rp). (st, False, cl, rp)),
       uv_timer_again = (\<lambda>(st, ac, cl, rp). if st then (False, (st, rp \<noteq> 0 \<and> \<not> cl, cl, rp)) else (True, (st, ac, cl, rp))),
       uv_timer_set_repeat = (\<lambda>r (st, ac, cl, rp). (st, ac, cl, r)),
       uv_timer_get_repeat = (\<lambda>(st, ac, cl, rp). rp), uv_timer_get_due_in = (\<lambda>_. 0),
       uv_is_active = (\<lambda>(st, ac, cl, rp). ac), uv_is_closing = (\<lambda>(st, ac, cl, rp). cl),
       uv_close = (\<lambda>(st, ac, cl, rp). (st, False, True, rp)),
       uv_due = (\<lambda>(st, ac, cl, rp). (st, rp \<noteq> 0, cl, rp)), uv_started = (\<lambda>(st, ac, cl, rp). st) \<rparr>"

lemma sample_timers_ok: "uv_timers_ok sample_timers"
  by (auto simp: uv_timers_ok_def sample_timers_def)

definition sample_opened :: lua_state where
  "sample_opened = snd (the (open_registries sample_registries sample_state))"

lemma sample_opened: "open_registries sample_registries sample_state = Some (sample_registries, sample_opened)"
  using sample_opens(1) [of sample_registries] by (auto simp: sample_opened_def)

definition sample_new :: "(bool \<times> bool \<times> bool \<times> u64) timing" where
  "sample_new = snd (the (mumble_timer_new sample_timers sample_env sample_world sample_registries []
     (no_timers sample_opened)))"

definition fresh_timer :: "(bool \<times> bool \<times> bool \<times> u64) timer" where
  "fresh_timer = \<lparr> tm_handle = (False, False, False, 0), tm_closed = False, tm_paused = False, tm_count = 0,
     tm_self = LUA_NOREF, tm_callback = LUA_NOREF, tm_after = 0 \<rparr>"

lemma sample_new:
  "timer_reachable sample_timers sample_env sample_registries (no_timers sample_opened) sample_new"
  "timers sample_new 0 = Some fresh_timer" "script sample_new = {0}" "closing sample_new = []"
proof -
  have n: "mumble_timer_new sample_timers sample_env sample_world sample_registries [] (no_timers sample_opened) =
      gives [timer_value 0] sample_new"
    by (simp add: sample_new_def mumble_timer_new_def Let_def no_timers_def)
  show "timer_reachable sample_timers sample_env sample_registries (no_timers sample_opened) sample_new"
    using n by (blast intro: timer_reachable.intros timer_step.script script_step.new)
qed (simp_all add: sample_new_def mumble_timer_new_def Let_def no_timers_def sample_timers_def fresh_timer_def)

lemmas sample_reachable_ok = reachable_ok [OF sample_timers_ok sample_state_ok(1) sample_opened]

text \<open>Started with a callback: it is reachable and active.\<close>

lemma sample_started:
  "\<exists>s t. timer_reachable sample_timers sample_env sample_registries (no_timers sample_opened) s \<and>
     timers s 0 = Some t \<and> tm_handle t = (True, True, False, 0) \<and> \<not> tm_paused t \<and> script s = {0} \<and> closing s = []"
proof -
  obtain k where k: "timing_ok sample_timers sample_registries k sample_opened sample_new"
    using sample_reachable_ok [OF sample_new(1)] by blast
  have f: "is_function (LFunction 1)" by simp
  obtain self cb l where r: "reference_timer sample_registries 0 (LFunction 1) fresh_timer (timer_lua sample_new) = Some (self, cb, l)"
    using reference_timer_correct [OF k sample_new(2) f] by blast
  define t where "t = fresh_timer \<lparr> tm_after := 0, tm_self := self, tm_callback := cb, tm_handle := (True, True, False, 0) \<rparr>"
  have "milliseconds sample_env 0 = Some 0" by (simp add: milliseconds_def u64_of_d_def sample_env_def)
  then have "timer_start sample_timers sample_env sample_world sample_registries [timer_value 0, LFunction 1] sample_new =
      gives [timer_value 0] (put_timer 0 t (sample_new \<lparr> timer_lua := l \<rparr>))"
    using r sample_new(2)
    by (simp add: timer_start_def mumble_active_timer_def with_timer_def arg_def timer_value_def check_function_def
        opt_number_def absent_def fresh_timer_def sample_timers_def t_def)
  moreover have "timer_start \<in> set timer_methods" by (simp add: timer_methods_def)
  ultimately have "script_step sample_timers sample_env sample_registries sample_new
      (put_timer 0 t (sample_new \<lparr> timer_lua := l \<rparr>))"
    using sample_new(3)
    by (intro script_step.call [of timer_start "[timer_value 0, LFunction 1]"]) (auto simp: timer_value_def)
  then have "timer_reachable sample_timers sample_env sample_registries (no_timers sample_opened)
      (put_timer 0 t (sample_new \<lparr> timer_lua := l \<rparr>))"
    using sample_new(1) by (blast intro: timer_reachable.intros timer_step.script)
  then show ?thesis
    using sample_new(3,4)
    by (intro exI [of _ "put_timer 0 t (sample_new \<lparr> timer_lua := l \<rparr>)"] exI [of _ t])
      (simp add: t_def fresh_timer_def)
qed

section \<open>Properties\<close>

text \<open>A callback is a run of the script, which returns.\<close>

definition script_runs ::
  "'h uv_timers \<Rightarrow> env \<Rightarrow> registries \<Rightarrow> (lval \<Rightarrow> lval list \<Rightarrow> 'h timing \<Rightarrow> (bool \<times> 'h timing) option) \<Rightarrow> bool" where
  "script_runs U E g run \<longleftrightarrow>
     (\<forall>f args s. \<exists>ok s'. run f args s = Some (ok, s') \<and> (script_step U E g)\<^sup>*\<^sup>* s s')"

lemma script_runsD: "script_runs U E g run \<Longrightarrow> run f args s = Some (ok, s') \<Longrightarrow> (script_step U E g)\<^sup>*\<^sup>* s s'"
  unfolding script_runs_def by (metis option.inject prod.inject)

lemma script_runs_nothing: "script_runs U E g (\<lambda>f args s. Some (ok, s))"
  by (auto simp: script_runs_def)

lemma due_defined:
  assumes U: "uv_timers_ok U" and s: "timing_ok U g k l0 s" and t: "timers s n = Some t"
    and active: "uv_is_active U (tm_handle t)" and run: "script_runs U E g run"
  shows "\<exists>f s1 t1 s'. is_function f \<and> refs_at k (timer_lua s) (tm_callback t) = Some f \<and>
    (\<exists>ok. run f [timer_value n] (called_state U n t f s) = Some (ok, s1) \<and> timer_returned U n ok s1 = Some s') \<and>
    timers s1 n = Some t1 \<and> timer_due U g run n t s = Some s' \<and> timing_ok U g k l0 s' \<and>
    callbacks_of n s' = callbacks_of n s @ [(f, [timer_value n])]"
proof -
  obtain f where f: "is_function f" "refs_at k (timer_lua s) (tm_callback t) = Some f"
    "timer_due U g run n t s = Option.bind (run f [timer_value n] (called_state U n t f s)) (\<lambda>(ok, s). timer_returned U n ok s)"
    using timer_due_calls [OF U s t active, of run] by blast
  obtain ok s1 where s1: "run f [timer_value n] (called_state U n t f s) = Some (ok, s1)"
    "(script_step U E g)\<^sup>*\<^sup>* (called_state U n t f s) s1"
    using run unfolding script_runs_def by blast
  obtain t1 s' where s': "timers s1 n = Some t1" "timer_returned U n ok s1 = Some s'" "timing_ok U g k l0 s'"
    "evolves s1 s'" "evolves (called_state U n t f s) s1"
    using due_done [OF U s t active s1(2)] by blast
  have "timer_calls s' = timer_calls s @ [(f, [timer_value n])]"
    using s'(4,5) by (simp add: evolves_def called_state_def)
  then have "callbacks_of n s' = callbacks_of n s @ [(f, [timer_value n])]" by (simp add: callbacks_of_def)
  then show ?thesis using f s1 s' by auto
qed

text \<open>
  C10. In every state the script and libuv can reach, in whatever order objects are made, started,
  paused, stopped, collected and found due, also from inside callbacks: a timer whose handle is
  active is not closed and not collected by Lua, for the registry holds it, and a function of the script is
  held for it; so when it is due, that function is called with it, and whatever the callback does
  to timers, the handler ends, in a state that is reachable as well.
\<close>

theorem running_timer_kept:
  assumes "uv_timers_ok U" "lua_ok l0" "open_registries g0 l0 = Some (g, l)"
    and "timer_reachable U E g (no_timers l) s" "timers s n = Some t" "uv_is_active U (tm_handle t)"
  shows "\<not> tm_closed t \<and> \<not> timer_unreferenced g n s \<and>
    (\<forall>run. script_runs U E g run \<longrightarrow>
      (\<exists>f s'. is_function f \<and> look_ref g (MUMBLE_TIMER_REG g) (tm_callback t) (timer_lua s) = Some f \<and>
        timer_due U g run n t s = Some s' \<and> timer_reachable U E g (no_timers l) s' \<and>
        callbacks_of n s' = callbacks_of n s @ [(f, [timer_value n])]))"
proof (intro conjI allI impI)
  obtain k where ok: "timing_ok U g k l s" using reachable_ok [OF assms(1-4)] by blast
  note t = timing_okD(4) [OF ok assms(5)]
  show "\<not> tm_closed t" "\<not> timer_unreferenced g n s"
    using t assms(6) referenced_not_collected [OF ok assms(5)] by (auto simp: timer_ok_def)
  fix run assume run: "script_runs U E g run"
  obtain f s' where f: "is_function f" "refs_at k (timer_lua s) (tm_callback t) = Some f"
    "timer_due U g run n t s = Some s'" "callbacks_of n s' = callbacks_of n s @ [(f, [timer_value n])]"
    using due_defined [OF assms(1) ok assms(5,6) run] by blast
  have "timer_step U E g s s'"
    using script_runsD [OF run] f(3) by (intro timer_step.due [OF assms(5,6), of run]) auto
  then have "timer_reachable U E g (no_timers l) s'" using assms(4) by (blast intro: timer_reachable.step)
  moreover have "look_ref g (MUMBLE_TIMER_REG g) (tm_callback t) (timer_lua s) = Some f"
    using refs.get_law [OF timing_okD(1) [OF ok] f(2)] .
  ultimately show "\<exists>f s'. is_function f \<and> look_ref g (MUMBLE_TIMER_REG g) (tm_callback t) (timer_lua s) = Some f \<and>
      timer_due U g run n t s = Some s' \<and> timer_reachable U E g (no_timers l) s' \<and>
      callbacks_of n s' = callbacks_of n s @ [(f, [timer_value n])]"
    using f by blast
qed

text \<open>The sample timer, with a callback that does nothing.\<close>

theorem running_timer_kept_witness:
  "\<exists>s t s'. timers s 0 = Some t \<and> \<not> timer_unreferenced sample_registries 0 s \<and>
     timer_due sample_timers sample_registries (\<lambda>f args s. Some (True, s)) 0 t s = Some s' \<and>
     timer_reachable sample_timers sample_env sample_registries (no_timers sample_opened) s'"
proof -
  obtain s t where s: "timer_reachable sample_timers sample_env sample_registries (no_timers sample_opened) s"
      "timers s 0 = Some t" "tm_handle t = (True, True, False, 0)"
    using sample_started by blast
  have "uv_is_active sample_timers (tm_handle t)" by (simp add: s(3) sample_timers_def)
  from running_timer_kept [OF sample_timers_ok sample_state_ok(1) sample_opened s(1,2) this]
  show ?thesis using s(2) script_runs_nothing by blast
qed

text \<open>
  C28. Once a timer is closed, its callback is never called again, whatever the script does with it
  or other timers afterwards.
\<close>

theorem stopped_never_called:
  assumes "uv_timers_ok U" "lua_ok l0" "open_registries g0 l0 = Some (g, l)"
    and "timer_reachable U E g (no_timers l) s" "timers s n = Some t" "tm_closed t"
    and "timer_reachable U E g s s'"
  shows "callbacks_of n s' = callbacks_of n s \<and> (\<forall>t'. timers s' n = Some t' \<longrightarrow> tm_closed t')"
proof -
  obtain k where ok: "timing_ok U g k l s" using reachable_ok [OF assms(1-4)] by blast
  have "gone n s" using timing_okD(5) [OF ok assms(5)] assms(5,6) by (simp add: gone_def)
  then have "gone n s'" "callbacks_of n s' = callbacks_of n s"
    using timer_reachable_ok [OF assms(7,1) ok, of n] by blast+
  then show ?thesis by (auto simp: gone_def)
qed

text \<open>A number the registry gives nothing for: what it gave before has been given back.\<close>

definition given_back :: "registries \<Rightarrow> int \<Rightarrow> 'h timing \<Rightarrow> bool" where
  "given_back g r s \<longleftrightarrow>
     (\<forall>v. look_ref g (MUMBLE_TIMER_REG g) r (timer_lua s) = Some v \<longrightarrow> \<not> is_function v \<and> (\<forall>m. v \<noteq> timer_value m))"

lemma given_back_held:
  assumes "timing_ok U g k l0 s" "refs_at k (timer_lua s) r = None"
  shows "given_back g r s"
proof -
  have ready: "registry_ready g (MUMBLE_TIMER_REG g) k (timer_lua s)"
    using timing_okD(1) [OF assms(1)] by (simp add: registry_frame_def)
  have "v = LNil \<or> (\<exists>i. v = LInt i)" if "look_ref g (MUMBLE_TIMER_REG g) r (timer_lua s) = Some v" for v
    using that assms(2) raw_get_held [of "lua_tables (timer_lua s) k" r v] ready
    by (auto simp: look_ref_ready [OF ready] registry_ready_def)
  then show ?thesis unfolding given_back_def by (fastforce simp: timer_value_def)
qed

lemma closing_releases:
  assumes U: "uv_timers_ok U" and s1: "timing_ok U g k l0 s1" "waits s1" and t1: "timers s1 n = Some t1" "tm_closed t1"
    and self: "tm_self t1 \<noteq> LUA_NOREF" and s2: "timer_reachable U E g s1 s2" "n \<in> set (closing s2)"
  shows "\<exists>s3 t3. mumble_timer_on_close g n s2 = Some s3 \<and> n \<notin> set (closing s3) \<and> timers s3 n = Some t3 \<and>
    tm_closed t3 \<and> tm_self t3 = LUA_NOREF \<and> tm_callback t3 = LUA_NOREF \<and>
    given_back g (tm_self t1) s3 \<and> given_back g (tm_callback t1) s3 \<and>
    (\<forall>r. look_ref g (MUMBLE_TIMER_REG g) r (timer_lua s3) \<noteq> Some (timer_value n))"
proof -
  have "waiting_with n (tm_self t1) (tm_callback t1) s1" "gone n s1"
    using t1 timing_okD(5) [OF s1(1) t1(1)] by (simp_all add: waiting_with_def gone_def)
  then have "waiting_with n (tm_self t1) (tm_callback t1) s2"
    using timer_reachable_waits [OF s2(1) U s1] self by blast
  then obtain t2 where t2: "timers s2 n = Some t2" "tm_closed t2" "tm_self t2 = tm_self t1" "tm_callback t2 = tm_callback t1"
    using s2(2) by (auto simp: waiting_with_def)
  have k2: "timing_ok U g k l0 s2" using timer_reachable_ok [OF s2(1) U s1(1)] by blast
  let ?t3 = "t2 \<lparr> tm_callback := LUA_NOREF, tm_self := LUA_NOREF \<rparr>"
  obtain l where l: "mumble_timer_on_close g n s2 = Some (put_timer n ?t3 s2 \<lparr> timer_lua := l, closing := remove1 n (closing s2) \<rparr>)"
      (is "_ = Some ?s3")
      "refs_at k l = (\<lambda>r. if r = tm_self t2 \<or> r = tm_callback t2 then None else refs_at k (timer_lua s2) r)"
    using on_close_done [OF k2 t2(1) s2(2)] by blast
  have k3: "timing_ok U g k l0 ?s3" by (rule timing_ok_on_close [OF k2 t2(1) s2(2) l(1)])
  have "given_back g (tm_self t1) ?s3" "given_back g (tm_callback t1) ?s3"
    using l(2) t2(3,4) by (auto intro!: given_back_held [OF k3])
  moreover have "look_ref g (MUMBLE_TIMER_REG g) r (timer_lua ?s3) \<noteq> Some (timer_value n)" for r
    using look_timer [OF k3, of r n] by auto
  moreover have "n \<notin> set (closing ?s3)" using timing_okD(3) [OF k2] by simp
  ultimately show ?thesis
    using l(1) t2(2) by (intro exI [of _ ?s3] exI [of _ ?t3]) simp
qed

text \<open>
  C29. When a timer that is not repeating is due and its callback, any run of the script, has returned, the
  timer is active again or paused, because the callback made it so, or it is closed; it is closed when the
  callback left it alone. The closing of a closed one is pending then, and the registry still holds the timer and its
  callback. Whatever happens before libuv has finished the closing, the registry then gives neither the timer
  nor the callback for the two numbers, the timer has forgotten both, and no closing is pending: so Lua may
  collect it as soon as the script has forgotten it.
\<close>

theorem one_shot_released:
  assumes "uv_timers_ok U" "lua_ok l0" "open_registries g0 l0 = Some (g, l)"
    and "timer_reachable U E g (no_timers l) s" "timers s n = Some t" "uv_is_active U (tm_handle t)"
    and "uv_timer_get_repeat U (tm_handle t) = 0" "script_runs U E g run"
  shows "\<exists>s1 t1. timer_due U g run n t s = Some s1 \<and> timers s1 n = Some t1 \<and>
    (uv_is_active U (tm_handle t1) \<or> tm_paused t1 \<or> tm_closed t1) \<and>
    (\<not> tm_paused t \<and> (\<forall>f args c ok c'. run f args c = Some (ok, c') \<longrightarrow> timers c' n = timers c n) \<longrightarrow> tm_closed t1) \<and>
    (tm_closed t1 \<longrightarrow> n \<in> set (closing s1) \<and>
      look_ref g (MUMBLE_TIMER_REG g) (tm_self t1) (timer_lua s1) = Some (timer_value n) \<and>
      (\<exists>f. is_function f \<and> look_ref g (MUMBLE_TIMER_REG g) (tm_callback t1) (timer_lua s1) = Some f) \<and>
      (\<forall>s2. timer_reachable U E g s1 s2 \<and> n \<in> set (closing s2) \<longrightarrow>
        (\<exists>s3 t3. mumble_timer_on_close g n s2 = Some s3 \<and> n \<notin> set (closing s3) \<and> timers s3 n = Some t3 \<and>
          tm_closed t3 \<and> tm_self t3 = LUA_NOREF \<and> tm_callback t3 = LUA_NOREF \<and>
          given_back g (tm_self t1) s3 \<and> given_back g (tm_callback t1) s3 \<and>
          (\<forall>r. look_ref g (MUMBLE_TIMER_REG g) r (timer_lua s3) \<noteq> Some (timer_value n)))))"
proof -
  obtain k where k: "timing_ok U g k l s" using reachable_ok [OF assms(1-4)] by blast
  note laws = uv_timers_okD [OF assms(1)] and tok = timing_okD(4) [OF k assms(5)]
  obtain f sr tr s1 ok where f: "is_function f" "timers sr n = Some tr" "timer_due U g run n t s = Some s1"
      "run f [timer_value n] (called_state U n t f s) = Some (ok, sr)" "timer_returned U n ok sr = Some s1"
      "timing_ok U g k l s1"
    using due_defined [OF assms(1) k assms(5,6,8)] by blast
  let ?c = "called_state U n t f s"
  have steps: "(script_step U E g)\<^sup>*\<^sup>* ?c sr" using script_runsD [OF assms(8) f(4)] .
  have er: "evolves ?c sr" "timing_ok U g k (push (LMethod ''traceback'') l) sr"
    using evolves_scripts [OF steps assms(1) called_state_ok [OF assms(1) k assms(5,6)]] by auto
  have c: "timers ?c n = Some (t \<lparr> tm_handle := uv_due U (tm_handle t), tm_count := tm_count t + 1 \<rparr>)" "n < timers_made ?c"
    using timing_okD(5) [OF k assms(5)] by (simp_all add: called_state_def)
  have self: "tm_self tr \<noteq> LUA_NOREF"
    using er(1) c f(2) tok assms(6) unfolding evolves_def by (fastforce simp: later_def timer_ok_def)
  let ?sr = "sr \<lparr> timer_lua := (timer_lua sr) \<lparr> lua_stack := lua_stack l \<rparr> \<rparr>"
  have s1: "s1 = (if \<not> uv_is_active U (tm_handle tr) \<and> \<not> tm_paused tr then mumble_timer_close U n tr ?sr else ?sr)"
    using f(5) unfolding timer_returned_done [OF timing_ok_pop(1) [OF er(2)] f(2)] Let_def by (simp only: option.inject)
  have tsr: "timers ?sr n = Some tr" using f(2) by simp
  obtain t1 where t1: "timers s1 n = Some t1" "tm_self t1 = tm_self tr"
      "\<not> uv_is_active U (tm_handle tr) \<and> \<not> tm_paused tr \<longrightarrow> tm_closed t1"
      "uv_is_active U (tm_handle tr) \<or> tm_paused tr \<longrightarrow> t1 = tr"
  proof (cases "\<not> uv_is_active U (tm_handle tr) \<and> \<not> tm_paused tr")
    case True
    then show ?thesis using that close_timer [OF tsr, of U] unfolding s1 if_P [OF True] by blast
  next
    case False
    then show ?thesis using that [of tr] tsr unfolding s1 if_not_P [OF False] by blast
  qed
  have "timer_step U E g s s1"
    using script_runsD [OF assms(8)] f(3) by (intro timer_step.due [OF assms(5,6), of run]) auto
  then have "timer_reachable U E g (no_timers l) s1" using assms(4) by (blast intro: timer_reachable.step)
  moreover obtain k0 where "timing_ok U g k0 l (no_timers l)"
    using reachable_ok [OF assms(1-3) timer_reachable.start] by blast
  moreover have "waits (no_timers l :: 'a timing)" by (simp add: waits_def no_timers_def)
  ultimately have w: "waits s1" using timer_reachable_waits assms(1) by blast
  have alone: "tm_closed t1"
    if "\<not> tm_paused t" "\<forall>f args c ok c'. run f args c = Some (ok, c') \<longrightarrow> timers c' n = timers c n"
  proof -
    have "tr = t \<lparr> tm_handle := uv_due U (tm_handle t), tm_count := tm_count t + 1 \<rparr>"
      using that(2) [rule_format, OF f(4)] f(2) c(1) by simp
    then show ?thesis using t1(3) that(1) assms(7) laws(22) [of "tm_handle t"] by auto
  qed
  note k1 = timing_okD(1,4) [OF f(6)]
  have held: "look_ref g (MUMBLE_TIMER_REG g) (tm_self t1) (timer_lua s1) = Some (timer_value n)"
    "\<exists>f. is_function f \<and> look_ref g (MUMBLE_TIMER_REG g) (tm_callback t1) (timer_lua s1) = Some f"
    using k1(2) [OF t1(1)] self t1(2) refs.get_law [OF k1(1)] by (auto simp: timer_ok_def)
  have pending: "n \<in> set (closing s1)" if "tm_closed t1" using w t1(1,2) self that by (simp add: waits_def)
  show ?thesis
    using f(3) t1 alone held pending self closing_releases [OF assms(1) f(6) w t1(1)]
    by (intro exI [of _ s1] exI [of _ t1]) auto
qed

text \<open>The sample timer is due once, is closed and gives its references back; its callback was called once.\<close>

theorem one_shot_released_witness:
  "\<exists>s t s1 t1 s2. timers s 0 = Some t \<and>
     timer_due sample_timers sample_registries (\<lambda>f args s. Some (False, s)) 0 t s = Some s1 \<and> timers s1 0 = Some t1 \<and>
     mumble_timer_on_close sample_registries 0 s1 = Some s2 \<and> 0 \<notin> set (closing s2) \<and>
     given_back sample_registries (tm_self t1) s2 \<and> given_back sample_registries (tm_callback t1) s2"
proof -
  obtain s t where s: "timer_reachable sample_timers sample_env sample_registries (no_timers sample_opened) s"
      "timers s 0 = Some t" "tm_handle t = (True, True, False, 0)" "\<not> tm_paused t" "closing s = []"
    using sample_started by blast
  have h: "uv_is_active sample_timers (tm_handle t)" "uv_timer_get_repeat sample_timers (tm_handle t) = 0"
    by (simp_all add: s(3) sample_timers_def)
  let ?run = "\<lambda>f args (s :: (bool \<times> bool \<times> bool \<times> u64) timing). Some (False, s)"
  obtain s1 t1 where s1: "timer_due sample_timers sample_registries ?run 0 t s = Some s1" "timers s1 0 = Some t1"
      "tm_closed t1"
      "tm_closed t1 \<longrightarrow> 0 \<in> set (closing s1) \<and> (\<forall>s2. timer_reachable sample_timers sample_env sample_registries s1 s2 \<and>
        0 \<in> set (closing s2) \<longrightarrow> (\<exists>s3. mumble_timer_on_close sample_registries 0 s2 = Some s3 \<and> 0 \<notin> set (closing s3) \<and>
          given_back sample_registries (tm_self t1) s3 \<and> given_back sample_registries (tm_callback t1) s3))"
    using one_shot_released [OF sample_timers_ok sample_state_ok(1) sample_opened s(1,2) h
        script_runs_nothing [of sample_timers sample_env sample_registries False]] s(4) by fastforce
  with s(2) timer_reachable.start [of sample_timers sample_env sample_registries s1] show ?thesis by blast
qed

text \<open>
  C40. What closing takes from a collected timer. When Lua collects a timer that was started, no
  closing is pending for it, since its references were given back before; but when it collects one
  that is not closed, which was then never started, the collection starts closing its
  handle, and when libuv finishes that, the callback reads the object whose memory is gone.
\<close>

theorem early_collection_overruns:
  assumes "uv_timers_ok U" "lua_ok l0" "open_registries g0 l0 = Some (g, l)"
    and "timer_reachable U E g (no_timers l) s" "timers s n = Some t" "timer_unreferenced g n s"
  shows "(uv_started U (tm_handle t) \<longrightarrow> n \<notin> set (closing (collect_timer U n t s))) \<and>
    (\<not> tm_closed t \<longrightarrow> n \<in> set (closing (collect_timer U n t s)) \<and> \<not> uv_started U (tm_handle t) \<and>
       timer_step U E g s (collect_timer U n t s) \<and> mumble_timer_on_close g n (collect_timer U n t s) = None)"
proof -
  obtain k where k: "timing_ok U g k l s" using reachable_ok [OF assms(1-4)] by blast
  note t = timing_okD(4) [OF k assms(5)] and laws = uv_timers_okD [OF assms(1)]
  have self: "tm_self t = LUA_NOREF" using referenced_not_collected [OF k assms(5,6)] .
  then have started: "uv_started U (tm_handle t) \<longrightarrow> tm_closed t \<and> n \<notin> set (closing s)"
    using t by (auto simp: timer_ok_def)
  moreover have "tm_closed t \<longrightarrow> closing (collect_timer U n t s) = closing s"
    by (simp add: collect_timer_def mumble_timer_close_def)
  moreover have "\<not> tm_closed t \<longrightarrow> n \<in> set (closing (collect_timer U n t s))"
    using t laws by (auto simp: collect_timer_def mumble_timer_close_def Let_def timer_ok_def)
  moreover have "mumble_timer_on_close g n (collect_timer U n t s) = None"
    by (simp add: mumble_timer_on_close_def collect_timer_def Let_def)
  moreover have "timer_step U E g s (collect_timer U n t s)"
    by (intro timer_step.script script_step.collect assms(5,6))
  ultimately show ?thesis by auto
qed

text \<open>A timer made and forgotten before it was started.\<close>

theorem early_collection_overruns_witness:
  "\<exists>s s' t. timer_reachable sample_timers sample_env sample_registries (no_timers sample_opened) s \<and>
     timers s 0 = Some t \<and> timer_step sample_timers sample_env sample_registries s s' \<and> 0 \<in> set (closing s') \<and>
     mumble_timer_on_close sample_registries 0 s' = None"
proof -
  let ?s = "sample_new \<lparr> script := script sample_new - {0} \<rparr>"
  have r: "timer_reachable sample_timers sample_env sample_registries (no_timers sample_opened) ?s"
    using sample_new(1) by (blast intro: timer_reachable.step timer_step.script script_step.forget)
  have t: "timers ?s 0 = Some fresh_timer" "\<not> tm_closed fresh_timer" by (simp_all add: sample_new(2) fresh_timer_def)
  obtain k where k: "timing_ok sample_timers sample_registries k sample_opened ?s"
    using sample_reachable_ok [OF r] by blast
  have "timer_unreferenced sample_registries 0 ?s"
    using look_timer [OF k, of _ 0] t(1) by (auto simp: timer_unreferenced_def fresh_timer_def)
  from early_collection_overruns [OF sample_timers_ok sample_state_ok(1) sample_opened r t(1) this] t r
  show ?thesis by blast
qed

text \<open>The sample timer stopped by the script.\<close>

theorem stopped_never_called_witness:
  "\<exists>s t. timer_reachable sample_timers sample_env sample_registries (no_timers sample_opened) s \<and>
     timers s 0 = Some t \<and> tm_closed t \<and>
     (\<forall>s'. timer_reachable sample_timers sample_env sample_registries s s' \<longrightarrow> callbacks_of 0 s' = callbacks_of 0 s)"
proof -
  let ?s = "mumble_timer_close sample_timers 0 fresh_timer sample_new"
  obtain t where t: "timers ?s 0 = Some t" "tm_closed t"
    using close_timer [OF sample_new(2), of sample_timers] by blast
  have "timer_stop sample_timers sample_env sample_world sample_registries [timer_value 0] sample_new = gives [] ?s"
    using sample_new(2) by (simp add: timer_stop_def with_timer_def arg_def timer_value_def)
  moreover have "timer_stop \<in> set timer_methods" by (simp add: timer_methods_def)
  ultimately have "script_step sample_timers sample_env sample_registries sample_new ?s"
    using sample_new(3) by (intro script_step.call [of timer_stop "[timer_value 0]"]) auto
  then have r: "timer_reachable sample_timers sample_env sample_registries (no_timers sample_opened) ?s"
    using sample_new(1) by (blast intro: timer_reachable.step timer_step.script)
  from stopped_never_called [OF sample_timers_ok sample_state_ok(1) sample_opened r t] r t show ?thesis by blast
qed

end
