(* ===== verification/Threads.thy ===== *)
theory Threads
  imports Registry Buffer "HOL-Library.Sublist"
begin

text \<open>
  Threads (\<open>mumble/thread.c\<close>): a controller object of the main thread and the worker it starts, which
  has a Lua state and an event loop of its own. They share the controller and the worker structure under
  mutexes, and send each other messages through two queues and \<open>uv_async_send\<close>. One step is what a
  thread does between two points where the other can see or change the shared state: a section under
  a mutex, one call of \<open>uv_async_send\<close>, one callback of the script. The queues are those of \<open>Links\<close>, which
  refine lists; a reference is the function it stands for (\<open>Registry\<close>).
\<close>

section \<open>Messages\<close>

text \<open>
  \<open>strndup\<close> stops at the first zero byte, while the length of the data is kept beside the copy;
  \<open>lua_pushlstring\<close> reads as many bytes as that length says.
\<close>

type_synonym message = "u8 list \<times> nat"

definition strndup :: "u8 list \<Rightarrow> nat \<Rightarrow> u8 list" where
  "strndup data n = takeWhile (\<lambda>b. b \<noteq> 0) (take n data) @ [0]"

definition new_message :: "u8 list \<Rightarrow> message" where
  "new_message data = (strndup data (length data), length data)"

definition message_text :: "message \<Rightarrow> u8 list option" where
  "message_text m = slice (fst m) 0 (snd m)"

text \<open>The unread bytes of a buffer, where heads outside the block are undefined.\<close>

definition buffer_bytes :: "ByteBuffer \<Rightarrow> u8 list option" where
  "buffer_bytes b =
     (if buffer_length b = 0 then Some []
      else do { d \<leftarrow> buf_data b; slice d (unat (read_head b)) (unat (buffer_length b)) })"

definition message_data :: "(nat \<Rightarrow> ByteBuffer option) \<Rightarrow> lval list \<Rightarrow> u8 list lua_result option" where
  "message_data B args =
     (case arg args 2 of
        Some (LStr s) \<Rightarrow> Some (Inr s)
      | Some (LObject metatable n) \<Rightarrow>
          (if metatable = ''mumble.buffer'' then do { b \<leftarrow> B n; map_option Inr (buffer_bytes b) }
           else if metatable = ''table'' then Some (Inl (BadArgument 1 ''string or mumble.buffer expected''))
           else Some (Inl (BadArgument 2 ''mumble.buffer expected'')))
      | Some v \<Rightarrow>
          Some (Inl (if is_userdata v then BadArgument 2 ''mumble.buffer expected''
                     else BadArgument 1 ''string or mumble.buffer expected''))
      | None \<Rightarrow> Some (Inl (BadArgument 1 ''string or mumble.buffer expected'')))"

section \<open>The state\<close>

text \<open>
  A member that refers to a callback: none, a function, or, in memory that was never written, a number
  that stands for nothing.
\<close>

datatype callback = No_Callback | Callback lval | Garbage

text \<open>Where the thread of the worker is, in the order of \<open>mumble_thread_worker_start\<close>.\<close>

datatype worker_pc =
    W_Load | W_Fail | W_Leave | W_Made | W_Run | W_Returned | W_Sent | W_Close | W_End

text \<open>
  \<open>c_\<close> are members of the controller, \<open>w_\<close> those of the worker. \<open>c_worker\<close> is the pointer to the worker:
  never set, NULL, or the worker. The signals are the asynchronous handles that were sent and not yet
  seen; \<open>c_posting\<close> and \<open>w_posting\<close> hold between the end of a section of \<open>send\<close> and its signal, \<open>c_draining\<close>
  and \<open>w_draining\<close> in the loop of the message callback; \<open>c_missed\<close> and \<open>w_missed\<close> record that this callback
  found no function to call. \<open>c_held\<close> says that the script can reach the controller. The last members
  record what was sent, taken from the queues and given to functions.
\<close>

record thread =
  w_pc :: worker_pc
  c_alive :: bool
  c_started :: bool
  c_worker :: "bool option"
  c_self :: bool
  c_finish :: "lval option"
  c_message :: callback
  c_queue :: "message list"
  c_posting :: bool
  c_draining :: bool
  c_missed :: bool
  c_held :: bool
  w_alive :: bool
  w_message :: callback
  w_queue :: "message list"
  w_finished :: bool
  w_posting :: bool
  w_draining :: bool
  w_missed :: bool
  w_looping :: bool
  w_stop :: bool
  finish_signal :: bool
  c_signal :: bool
  w_signal :: bool
  c_sent :: "u8 list list"
  w_taken :: "u8 list list"
  w_calls :: "(lval \<times> u8 list) list"
  w_sent :: "u8 list list"
  c_taken :: "u8 list list"
  c_calls :: "(lval \<times> u8 list) list"
  finish_calls :: "lval list"

type_synonym thread_method = "lval list \<Rightarrow> thread \<Rightarrow> thread object_result"

section \<open>Making a thread\<close>

text \<open>
  \<open>lua_dump\<close> hands the bytecode over in pieces; \<open>grown\<close> says which reallocations succeed, a failure
  ends the dump with an error.
\<close>

fun mumble_dump_controller :: "bool list \<Rightarrow> u8 list list \<Rightarrow> u8 list \<Rightarrow> u8 list option" where
  "mumble_dump_controller grown [] bytecode = Some bytecode"
| "mumble_dump_controller (ok # grown) (piece # pieces) bytecode =
     (if ok then mumble_dump_controller grown pieces (bytecode @ piece) else None)"
| "mumble_dump_controller [] (piece # pieces) bytecode = None"

datatype thread_source = Bytecode "u8 list" | Filename "u8 list"

definition new_thread :: thread where
  "new_thread =
     \<lparr> w_pc = W_Load, c_alive = True, c_started = False, c_worker = None, c_self = True, c_finish = None,
       c_message = No_Callback, c_queue = [], c_posting = False, c_draining = False, c_missed = False, c_held = True,
       w_alive = False, w_message = No_Callback, w_queue = [], w_finished = False, w_posting = False, w_draining = False, w_missed = False,
       w_looping = False, w_stop = False, finish_signal = False, c_signal = False, w_signal = False,
       c_sent = [], w_taken = [], w_calls = [], w_sent = [], c_taken = [], c_calls = [], finish_calls = [] \<rparr>"

definition mumble_thread_new ::
  "(nat \<Rightarrow> u8 list list) \<Rightarrow> bool list \<Rightarrow> lval list \<Rightarrow> (thread_source \<times> thread) lua_result" where
  "mumble_thread_new dump grown args =
     (case arg args 2 of
        Some (LStr name) \<Rightarrow> Inr (Filename (c_string name), new_thread)
      | Some (LFunction f) \<Rightarrow>
          (case mumble_dump_controller grown (dump f) [] of
             None \<Rightarrow> Inl (LuaError ''unable to convert worker function into bytecode'')
           | Some bytecode \<Rightarrow> Inr (Bytecode bytecode, new_thread))
      | Some (LMethod m) \<Rightarrow> Inl (LuaError ''unable to convert worker function into bytecode'')
      | _ \<Rightarrow> Inl (BadArgument 1 ''string or function expected''))"

section \<open>The thread of the worker\<close>

text \<open>
  Loading the function or the file fails, or a worker object is made; \<open>m\<close> is what its uninitialised member
  \<open>message\<close> holds. \<open>W_Fail\<close> and \<open>W_Made\<close> tell the controller under its mutex.
\<close>

definition worker_load :: "bool \<Rightarrow> callback \<Rightarrow> thread \<Rightarrow> thread" where
  "worker_load ok m t =
     (if ok
      then t \<lparr> w_pc := W_Made, w_alive := True, w_message := m, w_finished := False, w_queue := [] \<rparr>
      else t \<lparr> w_pc := W_Fail \<rparr>)"

definition worker_publish :: "thread \<Rightarrow> thread option" where
  "worker_publish t =
     (if \<not> c_alive t then None
      else if w_pc t = W_Fail then Some (t \<lparr> c_worker := Some False, c_started := True, w_pc := W_Leave \<rparr>)
      else Some (t \<lparr> c_worker := Some True, c_started := True, w_pc := W_Run \<rparr>))"

text \<open>The function of the script returns, or raises an error, which is logged.\<close>

definition worker_return :: "thread \<Rightarrow> thread" where
  "worker_return t = t \<lparr> w_pc := W_Returned \<rparr>"

definition worker_notify :: "thread \<Rightarrow> thread option" where
  "worker_notify t =
     (if \<not> c_alive t then None
      else Some (t \<lparr> finish_signal := True, w_pc := (if w_pc t = W_Leave then W_End else W_Sent) \<rparr>))"

definition worker_finished :: "thread \<Rightarrow> thread" where
  "worker_finished t = t \<lparr> w_finished := True, w_pc := W_Close \<rparr>"

text \<open>\<open>lua_close\<close> collects the worker object: its queue is freed, and so is its memory.\<close>

definition thread_worker_gc :: "thread \<Rightarrow> thread" where
  "thread_worker_gc t = t \<lparr> w_stop := True, w_signal := False, w_queue := [], w_alive := False \<rparr>"

definition worker_close :: "thread \<Rightarrow> thread" where
  "worker_close t = (thread_worker_gc t) \<lparr> w_pc := W_End \<rparr>"

section \<open>Callbacks of the event loops\<close>

definition mumble_thread_worker_finish :: "thread \<Rightarrow> thread" where
  "mumble_thread_worker_finish t =
     (let t = t \<lparr> finish_signal := False \<rparr>;
          t = (case c_finish t of
                 None \<Rightarrow> t
               | Some f \<Rightarrow>
                   t \<lparr> finish_calls := finish_calls t @ [f], c_finish := None, c_held := c_held t \<or> c_self t \<rparr>)
      in t \<lparr> c_self := False \<rparr>)"

text \<open>
  The callbacks for messages: \<open>wake\<close> is the test before the loop, \<open>next\<close> one turn of it, which takes a
  message under the mutex and calls the function. A number that stands for nothing gives nil, which cannot be
  called: the message is taken and lost.
\<close>

definition controller_wake :: "thread \<Rightarrow> thread" where
  "controller_wake t =
     t \<lparr> c_signal := False, c_draining := (c_message t \<noteq> No_Callback),
         c_missed := c_missed t \<or> c_message t = No_Callback \<rparr>"

definition controller_next :: "thread \<Rightarrow> thread option" where
  "controller_next t =
     (case (c_message t, c_queue t) of
        (No_Callback, _) \<Rightarrow> Some (t \<lparr> c_draining := False, c_missed := True \<rparr>)
      | (_, []) \<Rightarrow> Some (t \<lparr> c_draining := False \<rparr>)
      | (m, message # queue) \<Rightarrow> do {
          text \<leftarrow> message_text message;
          let t = t \<lparr> c_queue := queue, c_taken := c_taken t @ [text] \<rparr>;
          Some (case m of
              Callback f \<Rightarrow> t \<lparr> c_calls := c_calls t @ [(f, text)], c_held := c_held t \<or> c_self t \<rparr>
            | _ \<Rightarrow> t)
        })"

definition worker_wake :: "thread \<Rightarrow> thread" where
  "worker_wake t =
     t \<lparr> w_signal := False, w_draining := (w_message t \<noteq> No_Callback),
         w_missed := w_missed t \<or> w_message t = No_Callback \<rparr>"

definition worker_next :: "thread \<Rightarrow> thread option" where
  "worker_next t =
     (case (w_message t, w_queue t) of
        (No_Callback, _) \<Rightarrow> Some (t \<lparr> w_draining := False, w_missed := True \<rparr>)
      | (_, []) \<Rightarrow> Some (t \<lparr> w_draining := False \<rparr>)
      | (m, message # queue) \<Rightarrow> do {
          text \<leftarrow> message_text message;
          let t = t \<lparr> w_queue := queue, w_taken := w_taken t @ [text] \<rparr>;
          Some (case m of Callback f \<Rightarrow> t \<lparr> w_calls := w_calls t @ [(f, text)] \<rparr> | _ \<Rightarrow> t)
        })"

section \<open>Methods of the controller\<close>

text \<open>
  \<open>thread_value\<close> is the object itself. \<open>join\<close> and \<open>send\<close> wait until the worker has started, \<open>join\<close> further until
  its thread has ended: until then they do not return.
\<close>

definition controller_value :: lval where "controller_value = LObject ''mumble.thread.controller'' 0"
definition worker_value :: lval where "worker_value = LObject ''mumble.thread.worker'' 0"

definition thread_controller_join :: thread_method where
  "thread_controller_join args t =
     (if \<not> c_started t \<or> w_pc t \<noteq> W_End then None else gives [controller_value] t)"

definition thread_controller_onFinish :: thread_method where
  "thread_controller_onFinish args t =
     (let t = t \<lparr> c_finish := None \<rparr>
      in checked t (check_function args 2) (\<lambda>f. gives [controller_value] (t \<lparr> c_finish := Some f \<rparr>)))"

text \<open>A worker that has ended has no memory any more; its address stays in the controller.\<close>

definition thread_controller_send :: "(nat \<Rightarrow> ByteBuffer option) \<Rightarrow> thread_method" where
  "thread_controller_send B args t = do {
     worker \<leftarrow> c_worker t;
     if \<not> worker then fails (LuaError ''thread worker failed to start'') t
     else do {
       r \<leftarrow> message_data B args;
       checked t r (\<lambda>data.
         if \<not> w_alive t then None
         else gives [controller_value]
           (t \<lparr> w_queue := w_queue t @ [new_message data], c_posting := True, c_sent := c_sent t @ [data] \<rparr>))
     }
   }"

definition controller_post :: "thread \<Rightarrow> thread option" where
  "controller_post t = (if \<not> w_alive t then None else Some (t \<lparr> c_posting := False, w_signal := True \<rparr>))"

definition thread_controller_onMessage :: thread_method where
  "thread_controller_onMessage args t =
     (let t = t \<lparr> c_message := No_Callback \<rparr>
      in checked t (check_function args 2) (\<lambda>f. gives [controller_value] (t \<lparr> c_message := Callback f \<rparr>)))"

definition thread_controller_tostring :: "env \<Rightarrow> thread_method" where
  "thread_controller_tostring E args t =
     gives [LStr (address_text ''mumble.thread.controller'' (pointer_text E controller_value))] t"

definition thread_controller_gc :: "thread \<Rightarrow> thread" where
  "thread_controller_gc t = t \<lparr> c_signal := False, finish_signal := False, c_queue := [], c_alive := False \<rparr>"

section \<open>Methods of the worker\<close>

definition thread_worker_send :: "(nat \<Rightarrow> ByteBuffer option) \<Rightarrow> thread_method" where
  "thread_worker_send B args t = do {
     r \<leftarrow> message_data B args;
     checked t r (\<lambda>data.
       if \<not> c_alive t then None
       else gives [worker_value]
         (t \<lparr> c_queue := c_queue t @ [new_message data], w_posting := True, w_sent := w_sent t @ [data] \<rparr>))
   }"

definition worker_post :: "thread \<Rightarrow> thread option" where
  "worker_post t = (if \<not> c_alive t then None else Some (t \<lparr> w_posting := False, c_signal := True \<rparr>))"

definition thread_worker_onMessage :: thread_method where
  "thread_worker_onMessage args t =
     (let t = t \<lparr> w_message := No_Callback \<rparr>
      in checked t (check_function args 2) (\<lambda>f. gives [worker_value] (t \<lparr> w_message := Callback f \<rparr>)))"

definition thread_worker_sleep :: thread_method where
  "thread_worker_sleep args t = checked t (check_integer args 2) (\<lambda>ms. gives [worker_value] t)"

text \<open>\<open>loop\<close> runs the event loop until \<open>stop\<close>: its first step, and the one with which it returns.\<close>

definition thread_worker_loop :: "thread \<Rightarrow> thread" where
  "thread_worker_loop t = t \<lparr> w_looping := True \<rparr>"

definition worker_loop_end :: "thread \<Rightarrow> thread" where
  "worker_loop_end t = t \<lparr> w_looping := False, w_stop := False \<rparr>"

definition thread_worker_stop :: thread_method where
  "thread_worker_stop args t = gives [worker_value] (t \<lparr> w_stop := True \<rparr>)"

definition thread_worker_tostring :: "env \<Rightarrow> thread_method" where
  "thread_worker_tostring E args t =
     gives [LStr (address_text ''mumble.thread.worker'' (pointer_text E worker_value))] t"

section \<open>Both threads\<close>

text \<open>
  The steps of the main thread and of the worker, in any order; \<open>m0\<close> is what the member \<open>message\<close> of the
  worker's memory holds before it is written. Every call of \<open>send\<close> waits for its signal before
  the thread goes on. Lua collects the controller when neither the registry nor the script has it.
\<close>

inductive thread_step :: "(nat \<Rightarrow> ByteBuffer option) \<Rightarrow> callback \<Rightarrow> thread \<Rightarrow> thread \<Rightarrow> bool" for B m0 where
  load: "w_pc t = W_Load \<Longrightarrow> thread_step B m0 t (worker_load ok m0 t)"
| publish: "w_pc t \<in> {W_Fail, W_Made} \<Longrightarrow> worker_publish t = Some t' \<Longrightarrow> thread_step B m0 t t'"
| returns: "w_pc t = W_Run \<Longrightarrow> \<not> w_posting t \<Longrightarrow> \<not> w_draining t \<Longrightarrow> \<not> w_looping t \<Longrightarrow> thread_step B m0 t (worker_return t)"
| notify: "w_pc t \<in> {W_Leave, W_Returned} \<Longrightarrow> worker_notify t = Some t' \<Longrightarrow> thread_step B m0 t t'"
| finished: "w_pc t = W_Sent \<Longrightarrow> thread_step B m0 t (worker_finished t)"
| close: "w_pc t = W_Close \<Longrightarrow> thread_step B m0 t (worker_close t)"
| w_send: "w_pc t = W_Run \<Longrightarrow> \<not> w_posting t \<Longrightarrow> thread_worker_send B args t = Some (r, t') \<Longrightarrow> thread_step B m0 t t'"
| w_post: "w_posting t \<Longrightarrow> worker_post t = Some t' \<Longrightarrow> thread_step B m0 t t'"
| w_call: "w_pc t = W_Run \<Longrightarrow> \<not> w_posting t \<Longrightarrow>
    m \<in> {thread_worker_onMessage, thread_worker_sleep, thread_worker_stop} \<Longrightarrow> m args t = Some (r, t') \<Longrightarrow>
    thread_step B m0 t t'"
| w_loop: "w_pc t = W_Run \<Longrightarrow> \<not> w_posting t \<Longrightarrow> \<not> w_looping t \<Longrightarrow> thread_step B m0 t (thread_worker_loop t)"
| w_unloop: "w_looping t \<Longrightarrow> w_stop t \<Longrightarrow> \<not> w_posting t \<Longrightarrow> \<not> w_draining t \<Longrightarrow> thread_step B m0 t (worker_loop_end t)"
| w_wake: "w_looping t \<Longrightarrow> w_signal t \<Longrightarrow> \<not> w_posting t \<Longrightarrow> \<not> w_draining t \<Longrightarrow> thread_step B m0 t (worker_wake t)"
| w_next: "w_draining t \<Longrightarrow> \<not> w_posting t \<Longrightarrow> worker_next t = Some t' \<Longrightarrow> thread_step B m0 t t'"
| c_send: "c_held t \<Longrightarrow> c_started t \<Longrightarrow> \<not> c_posting t \<Longrightarrow> thread_controller_send B args t = Some (r, t') \<Longrightarrow>
    thread_step B m0 t t'"
| c_post: "c_posting t \<Longrightarrow> controller_post t = Some t' \<Longrightarrow> thread_step B m0 t t'"
| c_call: "c_held t \<Longrightarrow> \<not> c_posting t \<Longrightarrow>
    m \<in> {thread_controller_join, thread_controller_onFinish, thread_controller_onMessage} \<Longrightarrow>
    m args t = Some (r, t') \<Longrightarrow> thread_step B m0 t t'"
| c_wake: "c_alive t \<Longrightarrow> c_signal t \<Longrightarrow> \<not> c_posting t \<Longrightarrow> \<not> c_draining t \<Longrightarrow> thread_step B m0 t (controller_wake t)"
| c_next: "c_draining t \<Longrightarrow> \<not> c_posting t \<Longrightarrow> controller_next t = Some t' \<Longrightarrow> thread_step B m0 t t'"
| c_end: "c_alive t \<Longrightarrow> finish_signal t \<Longrightarrow> \<not> c_posting t \<Longrightarrow> \<not> c_draining t \<Longrightarrow>
    thread_step B m0 t (mumble_thread_worker_finish t)"
| forget: "\<not> c_posting t \<Longrightarrow> thread_step B m0 t (t \<lparr> c_held := False \<rparr>)"
| collect: "c_alive t \<Longrightarrow> \<not> c_self t \<Longrightarrow> \<not> c_held t \<Longrightarrow> \<not> c_posting t \<Longrightarrow> \<not> c_draining t \<Longrightarrow>
    thread_step B m0 t (thread_controller_gc t)"

inductive thread_reachable :: "(nat \<Rightarrow> ByteBuffer option) \<Rightarrow> callback \<Rightarrow> thread \<Rightarrow> bool" for B m0 where
  start: "thread_reachable B m0 new_thread"
| step: "thread_reachable B m0 t \<Longrightarrow> thread_step B m0 t t' \<Longrightarrow> thread_reachable B m0 t'"

section \<open>The life of both\<close>

definition life_ok :: "thread \<Rightarrow> bool" where
  "life_ok t \<longleftrightarrow>
     (c_started t \<longleftrightarrow> w_pc t \<in> {W_Leave, W_Run, W_Returned, W_Sent, W_Close, W_End}) \<and>
     (c_worker t = None \<longleftrightarrow> \<not> c_started t) \<and> (w_pc t = W_Leave \<longrightarrow> c_worker t = Some False) \<and>
     (w_pc t \<in> {W_Run, W_Returned, W_Sent, W_Close} \<longrightarrow> c_worker t = Some True) \<and>
     (w_alive t \<longleftrightarrow> w_pc t \<in> {W_Made, W_Run, W_Returned, W_Sent, W_Close}) \<and>
     (c_alive t \<or> \<not> c_self t) \<and> (c_held t \<longrightarrow> c_alive t) \<and>
     (\<not> c_self t \<longrightarrow> w_pc t \<in> {W_Sent, W_Close, W_End} \<and> \<not> finish_signal t) \<and>
     (finish_signal t \<longrightarrow> w_pc t \<in> {W_Sent, W_Close, W_End}) \<and>
     (w_pc t \<in> {W_Sent, W_Close, W_End} \<longrightarrow> finish_signal t \<or> \<not> c_self t) \<and>
     (c_self t \<longrightarrow> finish_calls t = []) \<and> length (finish_calls t) \<le> 1 \<and>
     (w_posting t \<or> w_draining t \<or> w_looping t \<longrightarrow> w_pc t = W_Run) \<and>
     (c_posting t \<or> c_draining t \<longrightarrow> c_alive t)"

lemmas thread_operations = worker_load_def worker_publish_def worker_return_def worker_notify_def
  worker_finished_def worker_close_def thread_worker_gc_def mumble_thread_worker_finish_def controller_wake_def
  worker_wake_def controller_post_def worker_post_def thread_worker_loop_def worker_loop_end_def thread_controller_gc_def

text \<open>What the methods do to a thread.\<close>

lemma message_sent:
  assumes "thread_controller_send B args t = Some (r, t')"
  shows "t' = t \<or> (\<exists>data. c_worker t = Some True \<and> w_alive t \<and>
    t' = t \<lparr> w_queue := w_queue t @ [new_message data], c_posting := True, c_sent := c_sent t @ [data] \<rparr>)"
  using assms
  by (auto simp: thread_controller_send_def checked_def split: bind_splits if_splits sum.splits)

lemma message_sent_back:
  assumes "thread_worker_send B args t = Some (r, t')"
  shows "t' = t \<or> (\<exists>data. c_alive t \<and>
    t' = t \<lparr> c_queue := c_queue t @ [new_message data], w_posting := True, w_sent := w_sent t @ [data] \<rparr>)"
  using assms by (auto simp: thread_worker_send_def checked_def split: bind_splits if_splits sum.splits)

lemma worker_called:
  assumes "m \<in> {thread_worker_onMessage, thread_worker_sleep, thread_worker_stop}" "m args t = Some (r, t')"
  shows "t' = t \<or> t' = t \<lparr> w_stop := True \<rparr> \<or> (\<exists>msg. msg \<noteq> Garbage \<and> t' = t \<lparr> w_message := msg \<rparr>)"
  using assms
  by (auto simp: thread_worker_onMessage_def thread_worker_sleep_def thread_worker_stop_def checked_def Let_def
      split: sum.splits)

lemma controller_called:
  assumes "m \<in> {thread_controller_join, thread_controller_onFinish, thread_controller_onMessage}"
    "m args t = Some (r, t')"
  shows "t' = t \<or> (\<exists>f. t' = t \<lparr> c_finish := f \<rparr>) \<or> (\<exists>msg. msg \<noteq> Garbage \<and> t' = t \<lparr> c_message := msg \<rparr>)"
  using assms
  by (auto simp: thread_controller_join_def thread_controller_onFinish_def thread_controller_onMessage_def
      checked_def Let_def split: sum.splits if_splits)

text \<open>One turn of a loop ends it, or takes the first message of the queue.\<close>

lemma worker_taken:
  assumes "worker_next t = Some t'"
  shows "t' = t \<lparr> w_draining := False, w_missed := True \<rparr> \<and> w_message t = No_Callback \<or>
    t' = t \<lparr> w_draining := False \<rparr> \<and> w_queue t = [] \<or>
    (\<exists>m queue text. w_queue t = m # queue \<and> message_text m = Some text \<and> w_message t \<noteq> No_Callback \<and>
      (w_message t = Garbage \<and> t' = t \<lparr> w_queue := queue, w_taken := w_taken t @ [text] \<rparr> \<or>
       (\<exists>f. w_message t = Callback f \<and>
          t' = t \<lparr> w_queue := queue, w_taken := w_taken t @ [text], w_calls := w_calls t @ [(f, text)] \<rparr>)))"
  using assms by (auto simp: worker_next_def Let_def split: callback.splits list.splits bind_splits)

lemma controller_taken:
  assumes "controller_next t = Some t'"
  shows "t' = t \<lparr> c_draining := False, c_missed := True \<rparr> \<and> c_message t = No_Callback \<or>
    t' = t \<lparr> c_draining := False \<rparr> \<and> c_queue t = [] \<or>
    (\<exists>m queue text. c_queue t = m # queue \<and> message_text m = Some text \<and> c_message t \<noteq> No_Callback \<and>
      (c_message t = Garbage \<and> t' = t \<lparr> c_queue := queue, c_taken := c_taken t @ [text] \<rparr> \<or>
       (\<exists>f. c_message t = Callback f \<and>
          t' = t \<lparr> c_queue := queue, c_taken := c_taken t @ [text], c_calls := c_calls t @ [(f, text)],
                    c_held := c_held t \<or> c_self t \<rparr>)))"
  using assms by (auto simp: controller_next_def Let_def split: callback.splits list.splits bind_splits)

lemma life_new: "life_ok new_thread"
  by (simp add: life_ok_def new_thread_def)

lemma life_kept [simp]:
  "life_ok (t \<lparr> w_message := x0 \<rparr>) = life_ok t"
  "life_ok (t \<lparr> w_stop := x1 \<rparr>) = life_ok t"
  "life_ok (t \<lparr> w_queue := x2 \<rparr>) = life_ok t"
  "life_ok (t \<lparr> w_finished := x3 \<rparr>) = life_ok t"
  "life_ok (t \<lparr> w_missed := x4 \<rparr>) = life_ok t"
  "life_ok (t \<lparr> w_signal := x5 \<rparr>) = life_ok t"
  "life_ok (t \<lparr> w_taken := x6 \<rparr>) = life_ok t"
  "life_ok (t \<lparr> w_calls := x7 \<rparr>) = life_ok t"
  "life_ok (t \<lparr> w_sent := x8 \<rparr>) = life_ok t"
  "life_ok (t \<lparr> c_finish := x9 \<rparr>) = life_ok t"
  "life_ok (t \<lparr> c_message := x10 \<rparr>) = life_ok t"
  "life_ok (t \<lparr> c_queue := x11 \<rparr>) = life_ok t"
  "life_ok (t \<lparr> c_missed := x12 \<rparr>) = life_ok t"
  "life_ok (t \<lparr> c_signal := x13 \<rparr>) = life_ok t"
  "life_ok (t \<lparr> c_sent := x14 \<rparr>) = life_ok t"
  "life_ok (t \<lparr> c_taken := x15 \<rparr>) = life_ok t"
  "life_ok (t \<lparr> c_calls := x16 \<rparr>) = life_ok t"
  by (simp_all add: life_ok_def)

lemma life_posting:
  "life_ok t \<Longrightarrow> w_pc t = W_Run \<Longrightarrow> life_ok (t \<lparr> w_posting := True \<rparr>)"
  "life_ok t \<Longrightarrow> c_alive t \<Longrightarrow> life_ok (t \<lparr> c_posting := True \<rparr>)"
  "life_ok t \<Longrightarrow> life_ok (t \<lparr> w_posting := False \<rparr>)"
  "life_ok t \<Longrightarrow> life_ok (t \<lparr> c_posting := False \<rparr>)"
  "life_ok t \<Longrightarrow> w_pc t = W_Run \<Longrightarrow> life_ok (t \<lparr> w_looping := b \<rparr>)"
  "life_ok t \<Longrightarrow> life_ok (t \<lparr> w_looping := False \<rparr>)"
  "life_ok t \<Longrightarrow> w_pc t = W_Run \<Longrightarrow> life_ok (t \<lparr> w_draining := b \<rparr>)"
  "life_ok t \<Longrightarrow> c_alive t \<Longrightarrow> life_ok (t \<lparr> c_draining := b \<rparr>)"
  "life_ok t \<Longrightarrow> life_ok (t \<lparr> w_draining := False \<rparr>)"
  "life_ok t \<Longrightarrow> life_ok (t \<lparr> c_draining := False \<rparr>)"
  "life_ok t \<Longrightarrow> h = (c_held t \<or> c_self t) \<Longrightarrow> life_ok (t \<lparr> c_held := h \<rparr>)"
  by (auto simp: life_ok_def)

lemma life_step:
  assumes "thread_step B m0 t t'" "life_ok t"
  shows "life_ok t'"
  using assms(1)
proof cases
  case (load ok)
  then show ?thesis using assms(2) by (cases ok) (auto simp: life_ok_def worker_load_def)
next
  case publish
  then show ?thesis using assms(2) by (auto simp: life_ok_def worker_publish_def split: if_splits)
next
  case returns
  then show ?thesis using assms(2) by (auto simp: life_ok_def worker_return_def)
next
  case notify
  then show ?thesis using assms(2) by (auto simp: life_ok_def worker_notify_def split: if_splits)
next
  case finished
  then show ?thesis using assms(2) by (auto simp: life_ok_def worker_finished_def)
next
  case close
  then show ?thesis using assms(2) by (auto simp: life_ok_def worker_close_def thread_worker_gc_def)
next
  case (w_send args r)
  then show ?thesis using message_sent_back [OF w_send(3)] assms(2) by (auto intro!: life_posting)
next
  case w_post
  then show ?thesis using assms(2) by (auto simp: worker_post_def intro: life_posting split: if_splits)
next
  case (w_call m args r)
  show ?thesis using assms(2) worker_called [OF w_call(3,4)] by auto
next
  case w_loop
  then show ?thesis using assms(2) by (auto simp: thread_worker_loop_def intro: life_posting)
next
  case w_unloop
  then show ?thesis using assms(2) by (auto simp: worker_loop_end_def intro: life_posting)
next
  case w_wake
  then have "w_pc t = W_Run" using assms(2) by (auto simp: life_ok_def)
  then show ?thesis using w_wake assms(2) by (auto simp: worker_wake_def intro: life_posting)
next
  case w_next
  then show ?thesis using assms(2) worker_taken [OF w_next(3)] by (auto intro: life_posting)
next
  case (c_send args r)
  then have "c_alive t" using assms(2) by (auto simp: life_ok_def)
  then show ?thesis using assms(2) message_sent [OF c_send(4)] by (auto intro!: life_posting)
next
  case c_post
  then show ?thesis using assms(2) by (auto simp: controller_post_def intro: life_posting split: if_splits)
next
  case (c_call m args r)
  show ?thesis using assms(2) controller_called [OF c_call(3,4)] by auto
next
  case c_wake
  then show ?thesis using assms(2) by (auto simp: controller_wake_def intro: life_posting)
next
  case c_next
  then show ?thesis using assms(2) controller_taken [OF c_next(3)] by (auto intro: life_posting)
next
  case c_end
  then show ?thesis using assms(2)
    by (auto simp: life_ok_def mumble_thread_worker_finish_def Let_def split: option.splits)
next
  case forget
  then show ?thesis using assms(2) by (auto simp: life_ok_def)
next
  case collect
  then show ?thesis using assms(2) by (auto simp: life_ok_def thread_controller_gc_def)
qed

lemma life_reachable: "thread_reachable B m0 t \<Longrightarrow> life_ok t"
  by (induction rule: thread_reachable.induct) (auto intro: life_new life_step)

section \<open>The order of messages\<close>

text \<open>A message is read back, unless it has a zero byte before its last one: then the copy is too short.\<close>

lemma message_text_new: "message_text (new_message d) = (if 0 \<in> set (butlast d) then None else Some d)"
proof (cases "0 \<in> set (butlast d)")
  case True
  then obtain i where "i < length (butlast d)" "butlast d ! i = 0" by (auto simp: in_set_conv_nth)
  then have i: "i + 1 < length d" "d ! i = 0" by (simp_all add: nth_butlast)
  then have "strndup d (length d) = binary_copy d" by (auto simp: strndup_def binary_copy_def)
  with binary_copy_short [OF i] True show ?thesis by (simp add: message_text_def new_message_def)
next
  case False
  show ?thesis
  proof (cases d rule: rev_cases)
    case (snoc xs x)
    with False have "takeWhile (\<lambda>b. b \<noteq> 0) xs = xs" by (auto simp: takeWhile_eq_all_conv)
    with snoc False show ?thesis
      by (simp add: message_text_def new_message_def strndup_def slice_def takeWhile_append takeWhile_eq_all_conv)
  qed (simp add: message_text_def new_message_def strndup_def slice_def)
qed

text \<open>What waits in a queue is what was sent and not yet taken, as long as the receiver is there.\<close>

definition in_queue :: "bool \<Rightarrow> message list \<Rightarrow> u8 list list \<Rightarrow> u8 list list \<Rightarrow> bool" where
  "in_queue alive queue sent taken \<longleftrightarrow>
     prefix taken sent \<and> (\<exists>ds. queue = map new_message ds \<and> (alive \<longrightarrow> sent = taken @ ds))"

lemma in_queue_push: "in_queue True queue sent taken \<Longrightarrow> in_queue True (queue @ [new_message d]) (sent @ [d]) taken"
  by (auto simp: in_queue_def)

lemma in_queue_pop:
  assumes "in_queue alive (m # queue) sent taken" "message_text m = Some text" "alive"
  shows "in_queue alive queue sent (taken @ [text])"
proof -
  obtain d ds where d: "m = new_message d" "queue = map new_message ds" "sent = taken @ d # ds"
    using assms(1,3) by (auto simp: in_queue_def)
  then have "text = d" using assms(2) by (auto simp: message_text_new split: if_splits)
  with d show ?thesis by (auto simp: in_queue_def)
qed

lemma in_queue_lost: "in_queue alive queue sent taken \<Longrightarrow> in_queue False [] sent taken"
  by (simp add: in_queue_def)

definition order_ok :: "callback \<Rightarrow> thread \<Rightarrow> bool" where
  "order_ok m0 t \<longleftrightarrow>
     c_message t \<noteq> Garbage \<and> map snd (c_calls t) = c_taken t \<and>
     (m0 = No_Callback \<longrightarrow> w_message t \<noteq> Garbage \<and> map snd (w_calls t) = w_taken t) \<and>
     in_queue (c_alive t) (c_queue t) (w_sent t) (c_taken t) \<and>
     in_queue (w_alive t) (w_queue t) (c_sent t) (w_taken t) \<and>
     (\<not> c_started t \<longrightarrow> c_sent t = [] \<and> w_taken t = [])"

lemma order_new: "order_ok m0 new_thread"
  by (simp add: order_ok_def new_thread_def in_queue_def)

lemma order_step:
  assumes "thread_step B m0 t t'" "life_ok t" "order_ok m0 t"
  shows "order_ok m0 t'"
  using assms(1)
proof cases
  case (load ok)
  then show ?thesis using assms(2,3) by (cases ok) (auto simp: life_ok_def order_ok_def worker_load_def in_queue_def)
next
  case publish
  then show ?thesis using assms(2,3) by (auto simp: order_ok_def worker_publish_def split: if_splits)
next
  case returns
  then show ?thesis using assms(3) by (auto simp: order_ok_def worker_return_def)
next
  case notify
  then show ?thesis using assms(3) by (auto simp: order_ok_def worker_notify_def split: if_splits)
next
  case finished
  then show ?thesis using assms(3) by (auto simp: order_ok_def worker_finished_def)
next
  case close
  then show ?thesis using assms(3) in_queue_lost
    by (auto simp: order_ok_def worker_close_def thread_worker_gc_def)
next
  case (w_send args r)
  then show ?thesis using assms(3) message_sent_back [OF w_send(3)] in_queue_push by (auto simp: order_ok_def)
next
  case w_post
  then show ?thesis using assms(3) by (auto simp: order_ok_def worker_post_def split: if_splits)
next
  case (w_call m args r)
  show ?thesis using assms(3) worker_called [OF w_call(3,4)] by (auto simp: order_ok_def)
next
  case w_loop
  then show ?thesis using assms(3) by (auto simp: order_ok_def thread_worker_loop_def)
next
  case w_unloop
  then show ?thesis using assms(3) by (auto simp: order_ok_def worker_loop_end_def)
next
  case w_wake
  then show ?thesis using assms(3) by (auto simp: order_ok_def worker_wake_def)
next
  case w_next
  then have "w_alive t" "c_started t" using assms(2) by (auto simp: life_ok_def)
  then show ?thesis using assms(3) worker_taken [OF w_next(3)] in_queue_pop by (auto simp: order_ok_def)
next
  case (c_send args r)
  then show ?thesis using assms(3) message_sent [OF c_send(4)] in_queue_push by (auto simp: order_ok_def)
next
  case c_post
  then show ?thesis using assms(3) by (auto simp: order_ok_def controller_post_def split: if_splits)
next
  case (c_call m args r)
  show ?thesis using assms(3) controller_called [OF c_call(3,4)] by (auto simp: order_ok_def)
next
  case c_wake
  then show ?thesis using assms(3) by (auto simp: order_ok_def controller_wake_def)
next
  case c_next
  then have "c_alive t" using assms(2) by (auto simp: life_ok_def)
  then show ?thesis using assms(3) controller_taken [OF c_next(3)] in_queue_pop by (auto simp: order_ok_def)
next
  case c_end
  then show ?thesis using assms(3)
    by (auto simp: order_ok_def mumble_thread_worker_finish_def Let_def split: option.splits)
next
  case forget
  then show ?thesis using assms(3) by (auto simp: order_ok_def)
next
  case collect
  then show ?thesis using assms(3) in_queue_lost by (auto simp: order_ok_def thread_controller_gc_def)
qed

lemma order_reachable: "thread_reachable B m0 t \<Longrightarrow> life_ok t \<and> order_ok m0 t"
  by (induction rule: thread_reachable.induct) (auto intro: life_new life_step order_new order_step)

section \<open>No wake-up is lost\<close>

definition signal_ok :: "thread \<Rightarrow> bool" where
  "signal_ok t \<longleftrightarrow>
     (w_alive t \<and> w_queue t \<noteq> [] \<longrightarrow> w_signal t \<or> w_draining t \<or> c_posting t \<or> w_missed t) \<and>
     (c_alive t \<and> c_queue t \<noteq> [] \<longrightarrow> c_signal t \<or> c_draining t \<or> w_posting t \<or> c_missed t)"

lemma signal_step:
  assumes "thread_step B m0 t t'" "signal_ok t"
  shows "signal_ok t'"
  using assms(1)
proof cases
  case (w_send args r)
  show ?thesis using message_sent_back [OF w_send(3)] assms(2) by (auto simp: signal_ok_def)
next
  case (c_send args r)
  show ?thesis using message_sent [OF c_send(4)] assms(2) by (auto simp: signal_ok_def)
next
  case (w_call m args r)
  show ?thesis using worker_called [OF w_call(3,4)] assms(2) by (auto simp: signal_ok_def)
next
  case (c_call m args r)
  show ?thesis using controller_called [OF c_call(3,4)] assms(2) by (auto simp: signal_ok_def)
next
  case w_next
  show ?thesis using worker_taken [OF w_next(3)] w_next(1) assms(2) by (auto simp: signal_ok_def)
next
  case c_next
  show ?thesis using controller_taken [OF c_next(3)] c_next(1) assms(2) by (auto simp: signal_ok_def)
next
  case c_end
  show ?thesis using c_end(1) assms(2)
    by (simp add: mumble_thread_worker_finish_def Let_def signal_ok_def split: option.split)
qed (use assms(2) in \<open>clarsimp simp: thread_operations split: if_splits; simp add: signal_ok_def\<close>)+

lemma signal_reachable: "thread_reachable B m0 t \<Longrightarrow> signal_ok t"
proof (induction rule: thread_reachable.induct)
  case start
  show ?case by (simp add: signal_ok_def new_thread_def)
qed (rule signal_step)

section \<open>A sample\<close>

text \<open>The worker starts, its function returns at once, and its thread ends.\<close>

abbreviation no_buffers :: "nat \<Rightarrow> ByteBuffer option" where "no_buffers \<equiv> (\<lambda>_. None)"

lemma reachable_step: "thread_step B m0 t t' \<Longrightarrow> thread_reachable B m0 t \<Longrightarrow> thread_reachable B m0 t'"
  by (rule thread_reachable.step)

definition running_thread :: "callback \<Rightarrow> thread" where
  "running_thread m0 = the (worker_publish (worker_load True m0 new_thread))"

lemma running_thread:
  "thread_reachable B m0 (running_thread m0)"
  "running_thread m0 = new_thread \<lparr> w_pc := W_Run, w_alive := True, w_message := m0, c_worker := Some True, c_started := True \<rparr>"
proof -
  have p: "worker_publish (worker_load True m0 new_thread) = Some (running_thread m0)"
    by (simp add: running_thread_def worker_publish_def worker_load_def new_thread_def)
  have l: "thread_reachable B m0 (worker_load True m0 new_thread)"
    by (rule reachable_step [OF thread_step.load thread_reachable.start]) (simp add: new_thread_def)
  show "thread_reachable B m0 (running_thread m0)"
    by (rule reachable_step [OF thread_step.publish [OF _ p] l]) (simp add: worker_load_def)
  show "running_thread m0 = new_thread \<lparr> w_pc := W_Run, w_alive := True, w_message := m0, c_worker := Some True, c_started := True \<rparr>"
    by (simp add: running_thread_def worker_publish_def worker_load_def new_thread_def)
qed

definition ended_thread :: thread where
  "ended_thread =
     worker_close (worker_finished (the (worker_notify (worker_return (running_thread No_Callback)))))"

lemma ended_thread:
  "thread_reachable B No_Callback ended_thread" "w_pc ended_thread = W_End" "c_worker ended_thread = Some True"
proof -
  let ?r = "worker_return (running_thread No_Callback)" and ?n = "the (worker_notify (worker_return (running_thread No_Callback)))"
  have n: "worker_notify ?r = Some ?n" by (simp add: worker_notify_def worker_return_def running_thread new_thread_def)
  have r: "thread_reachable B No_Callback ?r"
    by (rule reachable_step [OF thread_step.returns running_thread(1)]) (simp_all add: running_thread(2) new_thread_def)
  have s: "thread_reachable B No_Callback ?n"
    by (rule reachable_step [OF thread_step.notify [OF _ n] r]) (simp add: worker_return_def)
  have f: "thread_reachable B No_Callback (worker_finished ?n)"
    by (rule reachable_step [OF thread_step.finished s])
      (simp add: worker_notify_def worker_return_def running_thread(2) new_thread_def)
  show "thread_reachable B No_Callback ended_thread" unfolding ended_thread_def
    by (rule reachable_step [OF thread_step.close f]) (simp add: worker_finished_def)
qed (simp_all add: ended_thread_def thread_operations running_thread(2) new_thread_def)

text \<open>
  A message reaches the worker: the worker is in its event loop with \<open>m\<close> as its callback, the controller
  has sent \<open>d\<close> and its signal is taken.
\<close>

definition looping_thread :: "callback \<Rightarrow> u8 list \<Rightarrow> thread" where
  "looping_thread m0 d =
     thread_worker_loop (the (controller_post (snd (the
       (thread_controller_send no_buffers [controller_value, LStr d] (running_thread m0))))))"

lemma looping_thread:
  "thread_reachable no_buffers m0 (looping_thread m0 d)"
  "looping_thread m0 d = (running_thread m0)
     \<lparr> w_queue := [new_message d], c_sent := [d], w_signal := True, w_looping := True \<rparr>"
proof -
  let ?s = "(running_thread m0) \<lparr> w_queue := [new_message d], c_posting := True, c_sent := [d] \<rparr>"
  have p: "thread_controller_send no_buffers [controller_value, LStr d] (running_thread m0) = Some (Inr [controller_value], ?s)"
    by (simp add: thread_controller_send_def message_data_def controller_value_def running_thread(2) new_thread_def
        checked_def arg_def)
  have c: "controller_post ?s = Some (?s \<lparr> c_posting := False, w_signal := True \<rparr>)"
    by (simp add: controller_post_def running_thread(2) new_thread_def)
  have r: "thread_reachable no_buffers m0 ?s"
    by (rule reachable_step [OF thread_step.c_send [OF _ _ _ p] running_thread(1)])
      (simp_all add: running_thread(2) new_thread_def)
  have q: "thread_reachable no_buffers m0 (?s \<lparr> c_posting := False, w_signal := True \<rparr>)"
    by (rule reachable_step [OF thread_step.c_post [OF _ c] r]) simp
  have "thread_reachable no_buffers m0 (thread_worker_loop (?s \<lparr> c_posting := False, w_signal := True \<rparr>))"
    by (rule reachable_step [OF thread_step.w_loop q]) (simp_all add: running_thread(2) new_thread_def)
  then show "thread_reachable no_buffers m0 (looping_thread m0 d)"
    by (simp add: looping_thread_def p c)
  show "looping_thread m0 d = (running_thread m0)
     \<lparr> w_queue := [new_message d], c_sent := [d], w_signal := True, w_looping := True \<rparr>"
    by (simp add: looping_thread_def p c) (simp add: thread_worker_loop_def running_thread(2) new_thread_def)
qed

lemma woken_thread:
  "thread_reachable no_buffers m0 (worker_wake (looping_thread m0 d))"
  by (rule reachable_step [OF thread_step.w_wake looping_thread(1)])
    (simp_all add: looping_thread(2) running_thread(2) new_thread_def)

text \<open>The script of the worker gives a function for the messages.\<close>

lemma listening_thread:
  assumes "thread_reachable B m0 t" "w_pc t = W_Run" "\<not> w_posting t"
  shows "thread_reachable B m0 (t \<lparr> w_message := Callback (LFunction f) \<rparr>)"
proof -
  have p: "thread_worker_onMessage [worker_value, LFunction f] t =
      Some (Inr [worker_value], t \<lparr> w_message := Callback (LFunction f) \<rparr>)"
    by (simp add: thread_worker_onMessage_def check_function_def checked_def arg_def)
  show ?thesis
    by (rule reachable_step [OF thread_step.w_call [where m = thread_worker_onMessage, OF assms(2,3) _ p] assms(1)]) simp
qed

section \<open>Properties\<close>

text \<open>
  C7. Whatever the interleaving of the two threads, what the function of the worker was called with is a prefix
  of what the controller sent, in the same order, and the other way round; while the receiver is there, the
  rest waits in its queue. (For a worker whose member \<open>message\<close> is initialised.)
\<close>
theorem thread_messages_in_order:
  assumes "thread_reachable B No_Callback t"
  shows "prefix (map snd (w_calls t)) (c_sent t) \<and> prefix (map snd (c_calls t)) (w_sent t) \<and>
    (w_alive t \<longrightarrow> (\<exists>ds. c_sent t = map snd (w_calls t) @ ds \<and> w_queue t = map new_message ds)) \<and>
    (c_alive t \<longrightarrow> (\<exists>ds. w_sent t = map snd (c_calls t) @ ds \<and> c_queue t = map new_message ds))"
  using order_reachable [OF assms] by (auto simp: order_ok_def in_queue_def)

theorem thread_messages_in_order_witness:
  "\<exists>ds. c_sent (looping_thread No_Callback [1]) = map snd (w_calls (looping_thread No_Callback [1])) @ ds \<and>
    w_queue (looping_thread No_Callback [1]) = map new_message ds"
  using thread_messages_in_order [OF looping_thread(1) [of No_Callback "[1]"]]
  by (simp add: looping_thread(2) running_thread(2) new_thread_def)

text \<open>
  C38. The first message that waits for a worker with a function is \<open>d\<close>, and its turn has come: if \<open>d\<close> has a
  zero byte before its last one, reading it leaves the memory of its copy; else the
  function is called with \<open>d\<close>.
\<close>
theorem message_overread:
  assumes "thread_reachable B m0 t" "w_draining t" "w_message t = Callback f" "c_sent t = w_taken t @ d # ds"
  shows "worker_next t =
    (if 0 \<in> set (butlast d) then None
     else Some (t \<lparr> w_queue := map new_message ds, w_taken := w_taken t @ [d], w_calls := w_calls t @ [(f, d)] \<rparr>))"
proof -
  have o: "life_ok t" "order_ok m0 t" using order_reachable [OF assms(1)] by auto
  then have "w_alive t" using assms(2) by (auto simp: life_ok_def)
  then have "w_queue t = new_message d # map new_message ds"
    using o(2) assms(4) by (auto simp: order_ok_def in_queue_def)
  then show ?thesis using assms(3) by (simp add: worker_next_def message_text_new)
qed

definition reading_thread :: "u8 list \<Rightarrow> thread" where
  "reading_thread d = worker_wake ((looping_thread No_Callback d) \<lparr> w_message := Callback (LFunction 1) \<rparr>)"

lemma reading_thread:
  "thread_reachable no_buffers No_Callback (reading_thread d)" "w_draining (reading_thread d)"
  "w_message (reading_thread d) = Callback (LFunction 1)"
  "c_sent (reading_thread d) = w_taken (reading_thread d) @ [d]"
proof -
  have "thread_reachable no_buffers No_Callback ((looping_thread No_Callback d) \<lparr> w_message := Callback (LFunction 1) \<rparr>)"
    by (rule listening_thread [OF looping_thread(1)]) (simp_all add: looping_thread(2) running_thread(2) new_thread_def)
  then show "thread_reachable no_buffers No_Callback (reading_thread d)" unfolding reading_thread_def
    by (rule reachable_step [OF thread_step.w_wake, rotated -1])
      (simp_all add: looping_thread(2) running_thread(2) new_thread_def)
qed (simp_all add: reading_thread_def worker_wake_def looping_thread(2) running_thread(2) new_thread_def)

theorem message_overread_witness:
  "worker_next (reading_thread [65, 0, 66]) = None \<and> worker_next (reading_thread [65, 66]) \<noteq> None"
  using message_overread [OF reading_thread(1-4) [of "[65, 0, 66]"]] message_overread [OF reading_thread(1-4) [of "[65, 66]"]]
  by simp

text \<open>
  Once the thread of a worker that did start has ended, its memory is gone, and the controller does not know:
  sending it a message reads freed memory, and so does the signal of a message that was put into its queue before.
\<close>
theorem send_after_end:
  assumes "thread_reachable B m0 t" "w_pc t = W_End" "c_worker t = Some True" "message_data B args = Some (Inr data)"
  shows "thread_controller_send B args t = None \<and> controller_post t = None"
  using life_reachable [OF assms(1)] assms(2-4)
  by (auto simp: life_ok_def thread_controller_send_def controller_post_def checked_def)

theorem send_after_end_witness:
  "thread_controller_send no_buffers [controller_value, LStr [65]] ended_thread = None"
  using send_after_end [OF ended_thread(1) [of no_buffers] ended_thread(2,3), of "[controller_value, LStr [65]]" "[65]"]
  by (simp add: message_data_def controller_value_def arg_def)

text \<open>
  C16. The controller outlives every use its worker makes of it: telling it that the worker has started, or has
  finished, and sending it messages are always defined, also when the script has forgotten it; the
  function for the end is called at most once, and only when the function of the worker has returned.
\<close>
theorem controller_kept:
  assumes "thread_reachable B m0 t"
  shows "(w_pc t \<in> {W_Fail, W_Made} \<longrightarrow> worker_publish t \<noteq> None) \<and>
    (w_pc t \<in> {W_Leave, W_Returned} \<longrightarrow> worker_notify t \<noteq> None) \<and>
    (w_pc t = W_Run \<and> message_data B args \<noteq> None \<longrightarrow> thread_worker_send B args t \<noteq> None) \<and>
    (w_posting t \<longrightarrow> worker_post t \<noteq> None) \<and>
    length (finish_calls t) \<le> 1 \<and> (finish_calls t \<noteq> [] \<longrightarrow> w_pc t \<in> {W_Sent, W_Close, W_End})"
proof -
  have l: "life_ok t" by (rule life_reachable [OF assms])
  then have "w_pc t \<notin> {W_Sent, W_Close, W_End} \<longrightarrow> c_alive t" by (auto simp: life_ok_def)
  moreover have "finish_calls t \<noteq> [] \<longrightarrow> w_pc t \<in> {W_Sent, W_Close, W_End}" using l by (auto simp: life_ok_def)
  moreover have "w_posting t \<longrightarrow> w_pc t = W_Run" "length (finish_calls t) \<le> 1" using l by (auto simp: life_ok_def)
  ultimately show ?thesis
    by (auto simp: worker_publish_def worker_notify_def worker_post_def thread_worker_send_def checked_def
        split: sum.splits)
qed

theorem controller_kept_witness: "length (finish_calls ended_thread) \<le> 1"
  using controller_kept [OF ended_thread(1) [of no_buffers]] by blast

text \<open>
  C30. A message in the queue of a live worker has not been overlooked: a signal is on its way or the loop that takes
  the messages runs, unless the worker found no function when it was woken.
\<close>
theorem no_wakeup_lost:
  assumes "thread_reachable B m0 t" "w_alive t" "w_queue t \<noteq> []"
  shows "w_signal t \<or> w_draining t \<or> c_posting t \<or> w_missed t"
  using signal_reachable [OF assms(1)] assms(2,3) by (simp add: signal_ok_def)

theorem no_wakeup_lost_witness: "w_signal (looping_thread No_Callback [1])"
  using no_wakeup_lost [OF looping_thread(1) [of No_Callback "[1]"]]
  by (simp add: looping_thread(2) running_thread(2) new_thread_def)

text \<open>
  A message that comes before the worker has a function for it: where the member \<open>message\<close>, which is never
  initialised, holds a positive number, it is taken and lost; where it holds a negative one, it stays in the
  queue, with a function set afterwards and nothing that would call it.
\<close>
theorem early_messages_lost:
  "(\<exists>t. thread_reachable no_buffers Garbage t \<and> c_sent t = [[65]] \<and> w_queue t = [] \<and> w_calls t = []) \<and>
   (\<exists>t. thread_reachable no_buffers No_Callback t \<and> w_message t = Callback (LFunction 1) \<and> w_looping t \<and>
     w_queue t = [new_message [65]] \<and> \<not> w_signal t \<and> \<not> w_draining t \<and> \<not> c_posting t)"
proof (intro conjI)
  let ?g = "worker_wake (looping_thread Garbage [65])" and ?w = "worker_wake (looping_thread No_Callback [65])"
  have n: "worker_next ?g = Some (?g \<lparr> w_queue := [], w_taken := [[65]] \<rparr>)"
    by (simp add: worker_next_def worker_wake_def looping_thread(2) running_thread(2) new_thread_def message_text_new)
  have "thread_reachable no_buffers Garbage (?g \<lparr> w_queue := [], w_taken := [[65]] \<rparr>)"
    by (rule reachable_step [OF thread_step.w_next [OF _ _ n] woken_thread])
      (simp_all add: worker_wake_def looping_thread(2) running_thread(2) new_thread_def)
  then show "\<exists>t. thread_reachable no_buffers Garbage t \<and> c_sent t = [[65]] \<and> w_queue t = [] \<and> w_calls t = []"
    by (rule exI [of _ "?g \<lparr> w_queue := [], w_taken := [[65]] \<rparr>", OF conjI])
      (simp add: worker_wake_def looping_thread(2) running_thread(2) new_thread_def)
  have "thread_reachable no_buffers No_Callback (?w \<lparr> w_message := Callback (LFunction 1) \<rparr>)"
    by (rule listening_thread [OF woken_thread])
      (simp_all add: worker_wake_def looping_thread(2) running_thread(2) new_thread_def)
  then show "\<exists>t. thread_reachable no_buffers No_Callback t \<and> w_message t = Callback (LFunction 1) \<and> w_looping t \<and>
     w_queue t = [new_message [65]] \<and> \<not> w_signal t \<and> \<not> w_draining t \<and> \<not> c_posting t"
    by (rule exI [of _ "?w \<lparr> w_message := Callback (LFunction 1) \<rparr>", OF conjI])
      (simp add: worker_wake_def looping_thread(2) running_thread(2) new_thread_def)
qed

end
