(* ===== verification/PipeObjects.thy ===== *)
theory PipeObjects
  imports Registry
begin

text \<open>
  Pipe objects (\<open>mumble/pipe.c\<close>): a named pipe that is read in the event loop, its bytes given to a function of
  the script. libuv closes a handle later, by a callback, until which its memory must stay; when
  the last writer has gone, the callback opens the pipe again. The handles are memory: a number without one is
  freed, and using it is undefined. A reference is the value it stands for (\<open>Registry\<close>).
\<close>

section \<open>The state\<close>

datatype close_callback = Close_Free | Close_Reopen

text \<open>A handle of libuv: it reads; \<open>uv_close\<close> was called; the callback that will come.\<close>

record pipe_handle =
  h_reading :: bool
  h_closing :: bool
  h_after :: "close_callback option"

text \<open>
  The object: its memory is there, the script has it, its members. \<open>pipe_leaks\<close> are handles whose
  memory was freed while the event loop still has them; \<open>pipe_calls\<close> records the calls of the function.
\<close>

record pipe_object =
  pipe_alive :: bool
  pipe_held :: bool
  pipe_path :: cstr
  pipe_uv :: nat
  pipe_self :: bool
  pipe_callback :: "lval option"
  pipe_handles :: "nat \<Rightarrow> pipe_handle option"
  pipe_leaks :: "nat set"
  pipe_calls :: "(lval \<times> u8 list) list"

definition pipe_value :: lval where "pipe_value = LObject ''mumble.pipe'' 0"

abbreviation set_handle :: "nat \<Rightarrow> pipe_handle option \<Rightarrow> pipe_object \<Rightarrow> pipe_object" where
  "set_handle i h s \<equiv> s \<lparr> pipe_handles := (pipe_handles s)(i := h) \<rparr>"

definition reading_handle :: pipe_handle where
  "reading_handle = \<lparr> h_reading = True, h_closing = False, h_after = None \<rparr>"

section \<open>Closing\<close>

text \<open>\<open>uv_read_stop\<close> and \<open>uv_close\<close> on memory that is there; a handle is closed once only.\<close>

definition uv_read_stop :: "nat \<Rightarrow> pipe_object \<Rightarrow> pipe_object option" where
  "uv_read_stop i s = do {
     h \<leftarrow> pipe_handles s i;
     Some (set_handle i (Some (h \<lparr> h_reading := False \<rparr>)) s)
   }"

definition uv_close :: "nat \<Rightarrow> close_callback \<Rightarrow> pipe_object \<Rightarrow> pipe_object option" where
  "uv_close i after s = do {
     h \<leftarrow> pipe_handles s i;
     if h_closing h then None
     else Some (set_handle i (Some (h \<lparr> h_closing := True, h_after := Some after, h_reading := False \<rparr>)) s)
   }"

definition mumble_pipe_close_cb :: "pipe_object \<Rightarrow> pipe_object option" where
  "mumble_pipe_close_cb s =
     (if \<not> pipe_alive s \<or> pipe_handles s (pipe_uv s) = None then None
      else Some (set_handle (pipe_uv s) None s))"

definition mumble_pipe_close :: "pipe_object \<Rightarrow> pipe_object option" where
  "mumble_pipe_close s = do {
     s \<leftarrow> uv_read_stop (pipe_uv s) s;
     h \<leftarrow> pipe_handles s (pipe_uv s);
     s \<leftarrow> (if h_closing h then Some s else uv_close (pipe_uv s) Close_Free s);
     Some (s \<lparr> pipe_callback := None, pipe_self := False \<rparr>)
   }"

section \<open>Opening again\<close>

text \<open>How far opening the pipe again comes: \<open>i\<close> is the memory of the new handle.\<close>

datatype reopening = No_Pipe_Memory | Open_Refused | Associate_Refused | Read_Refused | Reopened

definition mumble_pipe_reopen :: "reopening \<Rightarrow> nat \<Rightarrow> pipe_object \<Rightarrow> pipe_object option" where
  "mumble_pipe_reopen r i s =
     (if \<not> pipe_alive s then None
      else case r of
        No_Pipe_Memory \<Rightarrow> mumble_pipe_close s
      | Open_Refused \<Rightarrow> mumble_pipe_close (s \<lparr> pipe_leaks := insert i (pipe_leaks s) \<rparr>)
      | Associate_Refused \<Rightarrow> mumble_pipe_close (s \<lparr> pipe_leaks := insert i (pipe_leaks s) \<rparr>)
      | Read_Refused \<Rightarrow>
          mumble_pipe_close (set_handle i (Some (reading_handle \<lparr> h_reading := False \<rparr>)) s)
      | Reopened \<Rightarrow>
          (if pipe_handles s (pipe_uv s) = None then None
           else Some ((set_handle i (Some reading_handle) (set_handle (pipe_uv s) None s)) \<lparr> pipe_uv := i \<rparr>)))"

section \<open>Reading\<close>

text \<open>
  What the loop reports: the end, an error, or bytes. The function is called with the bytes alone;
  the index of the error handler is one too low, and names what is below it on the stack. \<open>below\<close> is the
  stack of the function that runs the loop.
\<close>

datatype reading = Read_End | Read_Error | Read_Bytes "u8 list"

definition call_callback :: "lval list \<Rightarrow> u8 list \<Rightarrow> pipe_object \<Rightarrow> pipe_object option" where
  "call_callback below data s = do {
     (f, args, l) \<leftarrow> pcall_frame 1 (-4)
       (push (LStr data) (push (case pipe_callback s of None \<Rightarrow> LNil | Some f \<Rightarrow> f)
         (push (LMethod ''mumble_traceback'') \<lparr> lua_stack = below, lua_tables = (\<lambda>_. no_refs), lua_made = 0 \<rparr>)));
     Some (s \<lparr> pipe_calls := pipe_calls s @ [(f, data)] \<rparr>)
   }"

definition mumble_pipe_on_read :: "lval list \<Rightarrow> reading \<Rightarrow> pipe_object \<Rightarrow> pipe_object option" where
  "mumble_pipe_on_read below r s =
     (if \<not> pipe_alive s then None
      else case r of
        Read_End \<Rightarrow> uv_close (pipe_uv s) Close_Reopen s
      | Read_Error \<Rightarrow> mumble_pipe_close s
      | Read_Bytes data \<Rightarrow>
          (if data = [] then Some s
           else call_callback below data s))"

section \<open>Making a pipe\<close>

text \<open>
  What the system says, as numbers of errors, 0 for none. The callback is the third value of the stack. After a
  refused \<open>uv_pipe_open\<close> the memory of a handle the loop has is freed: the result says so.
\<close>

record pipe_system =
  sys_mkfifo :: nat
  sys_open :: nat
  sys_is_fifo :: bool
  sys_malloc :: nat
  sys_init :: nat
  sys_associate :: nat
  sys_strerror :: "nat \<Rightarrow> cstr"
  sys_uv_strerror :: "nat \<Rightarrow> cstr"

definition EEXIST :: nat where "EEXIST = 17"

definition pipe_failed :: "string \<Rightarrow> cstr \<Rightarrow> lval list" where
  "pipe_failed text error = [LNil, LStr (bytes_of text @ error)]"

definition new_pipe :: "cstr \<Rightarrow> lval \<Rightarrow> nat \<Rightarrow> pipe_object" where
  "new_pipe filepath f i =
     \<lparr> pipe_alive = True, pipe_held = True, pipe_path = filepath, pipe_uv = i, pipe_self = True,
       pipe_callback = Some f, pipe_handles = [i \<mapsto> reading_handle], pipe_leaks = {},
       pipe_calls = [] \<rparr>"

definition mumble_pipe_new ::
  "pipe_system \<Rightarrow> nat \<Rightarrow> lval list \<Rightarrow> (lval list \<times> nat set \<times> pipe_object option) lua_result" where
  "mumble_pipe_new S i args = bind_result (check_string (drop 1 args) 1) (\<lambda>filepath.
     bind_result (check_function (drop 1 args) 2) (\<lambda>f.
       if sys_mkfifo S \<noteq> 0 \<and> sys_mkfifo S \<noteq> EEXIST
       then Inr (pipe_failed ''failed to mkfifo pipe: '' (sys_strerror S (sys_mkfifo S)), {}, None)
       else if sys_open S \<noteq> 0
       then Inr (pipe_failed ''failed to open pipe: '' (sys_strerror S (sys_open S)), {}, None)
       else if \<not> sys_is_fifo S
       then Inr (pipe_failed ''failed to open pipe: file is not an FIFO file'' [], {}, None)
       else if sys_malloc S \<noteq> 0
       then Inr (pipe_failed ''failed to allocate memory for pipe: '' (sys_strerror S (sys_malloc S)), {}, None)
       else if sys_init S \<noteq> 0
       then Inr (pipe_failed ''failed to initialize pipe: '' (sys_uv_strerror S (sys_init S)), {}, None)
       else if sys_associate S \<noteq> 0
       then Inr (pipe_failed ''failed to open pipe: '' (sys_uv_strerror S (sys_associate S)), {i}, None)
       else let stack = drop 1 args @ [pipe_value]
            in Inr ([pipe_value], {}, Some (new_pipe filepath (stack ! 2) i))))"

section \<open>Methods\<close>

definition pipe_close :: "lval list \<Rightarrow> pipe_object \<Rightarrow> (lval list \<times> pipe_object) option" where
  "pipe_close args s = do { s \<leftarrow> mumble_pipe_close s; Some ([last args], s) }"

definition pipe_gc :: "pipe_object \<Rightarrow> pipe_object" where
  "pipe_gc s = s \<lparr> pipe_path := [], pipe_alive := False \<rparr>"

definition pipe_tostring :: "env \<Rightarrow> cstr" where
  "pipe_tostring E = address_text ''mumble.pipe'' (pointer_text E pipe_value)"

section \<open>The loop and the script\<close>

text \<open>
  A step, or None where it is undefined: the loop reads, or runs the callback of a closed handle; the script closes
  the pipe or forgets it; Lua collects it when neither the registry nor the script has it.
\<close>

inductive pipe_step :: "lval list \<Rightarrow> pipe_object \<Rightarrow> pipe_object option \<Rightarrow> bool" for below where
  read: "pipe_handles s i = Some h \<Longrightarrow> h_reading h \<Longrightarrow> pipe_step below s (mumble_pipe_on_read below r s)"
| closed: "pipe_handles s i = Some h \<Longrightarrow> h_after h = Some Close_Free \<Longrightarrow>
    pipe_step below s (mumble_pipe_close_cb (set_handle i (Some (h \<lparr> h_after := None \<rparr>)) s))"
| reopen: "pipe_handles s i = Some h \<Longrightarrow> h_after h = Some Close_Reopen \<Longrightarrow> pipe_handles s j = None \<Longrightarrow>
    pipe_step below s (mumble_pipe_reopen r j (set_handle i (Some (h \<lparr> h_after := None \<rparr>)) s))"
| close: "pipe_held s \<Longrightarrow> pipe_step below s (map_option snd (pipe_close [pipe_value] s))"
| forget: "pipe_step below s (Some (s \<lparr> pipe_held := False \<rparr>))"
| collect: "pipe_alive s \<Longrightarrow> \<not> pipe_held s \<Longrightarrow> \<not> pipe_self s \<Longrightarrow> pipe_callback s \<noteq> Some pipe_value \<Longrightarrow>
    pipe_step below s (Some (pipe_gc s))"

inductive pipe_reachable :: "lval list \<Rightarrow> pipe_system \<Rightarrow> lval list \<Rightarrow> pipe_object \<Rightarrow> bool" for below S args where
  start: "mumble_pipe_new S i args = Inr (rs, leaks, Some s) \<Longrightarrow> pipe_reachable below S args s"
| step: "pipe_reachable below S args s \<Longrightarrow> pipe_step below s (Some s') \<Longrightarrow> pipe_reachable below S args s'"

section \<open>While the pipe is open\<close>


lemmas pipe_operations = mumble_pipe_close_def uv_read_stop_def uv_close_def



text \<open>A function lies where the error handler is looked for: on top of the stack below.\<close>

definition handler_below :: "lval list \<Rightarrow> bool" where
  "handler_below below \<longleftrightarrow> below \<noteq> [] \<and> is_function (last below)"

lemma call_eq:
  "call_callback below data s =
     (if handler_below below
      then Some (s \<lparr> pipe_calls := pipe_calls s @ [(case pipe_callback s of None \<Rightarrow> LNil | Some f \<Rightarrow> f, data)] \<rparr>) else None)"
  by (cases below rule: rev_cases)
    (auto simp: call_callback_def handler_below_def pcall_frame_def push_def lua_at_def lua_index_def Let_def nth_append)

lemma bytes_called:
  assumes "call_callback below data s = Some s'"
  shows "s' = s \<lparr> pipe_calls := pipe_calls s @ [(case pipe_callback s of None \<Rightarrow> LNil | Some f \<Rightarrow> f, data)] \<rparr>"
  using assms by (simp add: call_eq split: if_splits)




text \<open>The value that is registered as the callback: the third of the stack.\<close>

definition registered :: "lval list \<Rightarrow> lval" where
  "registered args = (drop 1 args @ [pipe_value]) ! 2"

lemma pipe_made:
  assumes "mumble_pipe_new S i args = Inr (rs, leaks, Some s)"
  obtains filepath where "s = new_pipe filepath (registered args) i"
  using assms by (auto simp: mumble_pipe_new_def registered_def Let_def bind_result_Inr split: if_splits)


text \<open>What is called: the registered value, or nil once the pipe is closed.\<close>

definition calls_ok :: "lval \<Rightarrow> pipe_object \<Rightarrow> bool" where
  "calls_ok f s \<longleftrightarrow> pipe_callback s \<in> {None, Some f} \<and> (\<forall>c\<in>set (pipe_calls s). fst c \<in> {f, LNil})"

lemma closed_calls: "mumble_pipe_close s = Some s' \<Longrightarrow> calls_ok f s \<Longrightarrow> calls_ok f s'"
  by (auto simp: pipe_operations calls_ok_def split: bind_splits if_splits)

lemma calls_kept [simp]:
  "calls_ok f (s \<lparr> pipe_handles := x \<rparr>) = calls_ok f s" "calls_ok f (s \<lparr> pipe_leaks := l \<rparr>) = calls_ok f s"
  "calls_ok f (s \<lparr> pipe_uv := i \<rparr>) = calls_ok f s"
  by (simp_all add: calls_ok_def)

lemma calls_reopened:
  assumes "mumble_pipe_reopen r j s = Some s'" "calls_ok f s"
  shows "calls_ok f s'"
proof (cases r)
  case Reopened
  with assms show ?thesis by (auto simp: mumble_pipe_reopen_def split: if_splits)
qed (use assms in \<open>auto simp: mumble_pipe_reopen_def split: if_splits elim!: closed_calls\<close>)

lemma calls_step:
  assumes "pipe_step below s r" "r = Some s'" "calls_ok f s"
  shows "calls_ok f s'"
  using assms(1)
proof cases
  case (read i h r)
  show ?thesis
  proof (cases r)
    case Read_Error
    with read assms(2,3) show ?thesis by (auto simp: mumble_pipe_on_read_def split: if_splits intro: closed_calls)
  next
    case (Read_Bytes data)
    with read assms(2) have "s' = s \<or> call_callback below data s = Some s'"
      by (auto simp: mumble_pipe_on_read_def split: if_splits)
    with assms(3) show ?thesis by (auto simp: calls_ok_def dest!: bytes_called)
  qed (use read assms(2,3) in \<open>auto simp: mumble_pipe_on_read_def uv_close_def calls_ok_def split: if_splits bind_splits\<close>)
next
  case (closed i h)
  then show ?thesis using assms(2,3) by (auto simp: mumble_pipe_close_cb_def calls_ok_def split: if_splits)
next
  case (reopen i h j r)
  then show ?thesis using assms(2,3) by (auto intro: calls_reopened)
next
  case close
  then show ?thesis using assms(2,3) closed_calls by (auto simp: pipe_close_def split: bind_splits)
qed (use assms(2,3) in \<open>auto simp: calls_ok_def pipe_gc_def\<close>)

lemma calls_reachable: "pipe_reachable below S args s \<Longrightarrow> calls_ok (registered args) s"
proof (induction rule: pipe_reachable.induct)
  case (start i rs leaks s)
  then show ?case by (auto simp: calls_ok_def new_pipe_def elim: pipe_made)
qed (auto intro: calls_step)






section \<open>A sample\<close>

definition sample_system :: pipe_system where
  "sample_system =
     \<lparr> sys_mkfifo = 0, sys_open = 0, sys_is_fifo = True, sys_malloc = 0, sys_init = 0, sys_associate = 0,
       sys_strerror = (\<lambda>n. []), sys_uv_strerror = (\<lambda>n. []) \<rparr>"

definition pipe_args :: "lval list" where
  "pipe_args = [LTable [], LStr [112], LFunction 1]"

definition sample_pipe :: pipe_object where
  "sample_pipe = new_pipe [112] pipe_value 0"

abbreviation pipe_reaches :: "pipe_object \<Rightarrow> bool" where
  "pipe_reaches \<equiv> pipe_reachable [LFunction 7] sample_system pipe_args"

lemmas pipe_sample = sample_pipe_def new_pipe_def reading_handle_def pipe_operations

lemma sample_made: "mumble_pipe_new sample_system 0 pipe_args = Inr ([pipe_value], {}, Some sample_pipe)"
  by (simp add: mumble_pipe_new_def sample_system_def pipe_args_def sample_pipe_def check_string_def check_lstring_def
      check_function_def arg_def c_string_def)

lemma sample_start: "pipe_reaches sample_pipe"
  by (rule pipe_reachable.start [OF sample_made])

lemma pipe_next: "pipe_reaches s \<Longrightarrow> pipe_step [LFunction 7] s r \<Longrightarrow> r = Some s' \<Longrightarrow> pipe_reaches s'"
  by (auto intro: pipe_reachable.step)

text \<open>Closed by the script; and closed while it waits to be opened again.\<close>

definition shut :: "close_callback \<Rightarrow> pipe_object" where
  "shut after = sample_pipe
     \<lparr> pipe_handles := [0 \<mapsto> \<lparr> h_reading = False, h_closing = True, h_after = Some after \<rparr>],
       pipe_callback := None, pipe_self := False \<rparr>"

definition ended :: pipe_object where
  "ended = sample_pipe \<lparr> pipe_handles := [0 \<mapsto> \<lparr> h_reading = False, h_closing = True, h_after = Some Close_Reopen \<rparr>] \<rparr>"

lemma sample_ended: "pipe_reaches ended"
  by (rule pipe_next [OF sample_start pipe_step.read [where i = 0 and r = Read_End]])
    (auto simp: pipe_sample mumble_pipe_on_read_def ended_def)

lemma sample_shut: "pipe_reaches (shut Close_Free)" "pipe_reaches (shut Close_Reopen)"
proof -
  show "pipe_reaches (shut Close_Free)"
    by (rule pipe_next [OF sample_start pipe_step.close]) (auto simp: pipe_sample pipe_close_def shut_def)
  show "pipe_reaches (shut Close_Reopen)"
    by (rule pipe_next [OF sample_ended pipe_step.close]) (auto simp: pipe_sample pipe_close_def shut_def ended_def)
qed

section \<open>Properties\<close>

text \<open>
  C39. The function given to \<open>mumble.pipe\<close> is never called: what is registered is the third value of the stack, the new
  pipe itself; the calls are of that, or of nil, which are errors.
\<close>
theorem pipe_function_never_called:
  assumes "pipe_reachable below S [class, file, f] s" "(g, data) \<in> set (pipe_calls s)"
  shows "\<not> is_function g"
proof -
  have "g \<in> {pipe_value, LNil}"
    using calls_reachable [OF assms(1)] assms(2) by (force simp: calls_ok_def registered_def)
  then show ?thesis by (auto simp: pipe_value_def)
qed

definition called_pipe :: pipe_object where
  "called_pipe = sample_pipe \<lparr> pipe_calls := [(pipe_value, [65])] \<rparr>"

lemma sample_called: "pipe_reaches called_pipe"
  by (rule pipe_next [OF sample_start pipe_step.read [where i = 0 and r = "Read_Bytes [65]"]])
    (auto simp: pipe_sample mumble_pipe_on_read_def called_pipe_def call_callback_def pcall_frame_def push_def
      lua_at_def lua_index_def Let_def)

theorem pipe_function_never_called_witness:
  "\<exists>g. (g, [65]) \<in> set (pipe_calls called_pipe) \<and> \<not> is_function g"
  using pipe_function_never_called [OF sample_called [unfolded pipe_args_def], of pipe_value "[65]"]
  by (auto simp: called_pipe_def)



text \<open>
  What a closed pipe can come to: closed a second time, it uses its freed handle; collected before libuv has
  closed the handle, it is used by the callback; closed between the end of its data and the callback that
  opens it again, it reads on without an object that is kept; and where opening it again fails, the memory of a
  handle of the event loop is freed.
\<close>
theorem closed_pipe_hazards:
  "(\<exists>s. pipe_reaches s \<and> pipe_held s \<and> pipe_close [pipe_value] s = None) \<and>
   (\<exists>s. pipe_reaches s \<and> \<not> pipe_alive s \<and> pipe_step [LFunction 7] s None) \<and>
   (\<exists>s h. pipe_reaches s \<and> \<not> pipe_self s \<and> pipe_callback s = None \<and> pipe_handles s (pipe_uv s) = Some h \<and> h_reading h) \<and>
   (\<exists>s. pipe_reaches s \<and> pipe_leaks s \<noteq> {})"
proof (intro conjI)
  let ?c = "(shut Close_Free) \<lparr> pipe_handles := Map.empty \<rparr>"
  have "pipe_reaches ?c"
    by (rule pipe_next [OF sample_shut(1) pipe_step.closed [where i = 0]])
      (auto simp: shut_def pipe_sample mumble_pipe_close_cb_def)
  then show "\<exists>s. pipe_reaches s \<and> pipe_held s \<and> pipe_close [pipe_value] s = None"
    by (intro exI [of _ ?c]) (simp add: shut_def pipe_sample pipe_close_def)
  let ?g = "pipe_gc ((shut Close_Free) \<lparr> pipe_held := False \<rparr>)"
  have "pipe_reaches ((shut Close_Free) \<lparr> pipe_held := False \<rparr>)"
    by (rule pipe_next [OF sample_shut(1) pipe_step.forget]) simp
  then have "pipe_reaches ?g"
    by (rule pipe_next [OF _ pipe_step.collect]) (simp_all add: shut_def pipe_sample)
  moreover have "pipe_step [LFunction 7] ?g (mumble_pipe_close_cb (set_handle 0 (Some (\<lparr> h_reading = False, h_closing = True, h_after = Some Close_Free \<rparr> \<lparr> h_after := None \<rparr>)) ?g))"
    by (rule pipe_step.closed) (simp_all add: pipe_gc_def shut_def)
  ultimately show "\<exists>s. pipe_reaches s \<and> \<not> pipe_alive s \<and> pipe_step [LFunction 7] s None"
    by (intro exI [of _ ?g]) (simp add: pipe_gc_def mumble_pipe_close_cb_def)
  let ?r = "(shut Close_Reopen) \<lparr> pipe_handles := [1 \<mapsto> reading_handle], pipe_uv := 1 \<rparr>"
  have "pipe_reaches ?r"
    by (rule pipe_next [OF sample_shut(2) pipe_step.reopen [where i = 0 and j = 1 and r = Reopened]])
      (auto simp: shut_def pipe_sample mumble_pipe_reopen_def)
  then show "\<exists>s h. pipe_reaches s \<and> \<not> pipe_self s \<and> pipe_callback s = None \<and> pipe_handles s (pipe_uv s) = Some h \<and> h_reading h"
    by (intro exI [of _ ?r]) (simp add: shut_def reading_handle_def)
  let ?l = "(shut Close_Free) \<lparr> pipe_handles := [0 \<mapsto> \<lparr> h_reading = False, h_closing = True, h_after = None \<rparr>], pipe_leaks := {1} \<rparr>"
  have "pipe_reaches ?l"
    by (rule pipe_next [OF sample_ended pipe_step.reopen [where i = 0 and j = 1 and r = Open_Refused]])
      (auto simp: shut_def ended_def pipe_sample mumble_pipe_reopen_def)
  then show "\<exists>s. pipe_reaches s \<and> pipe_leaks s \<noteq> {}"
    by (intro exI [of _ ?l]) simp
qed

end
