(* ===== verification/Log.thy ===== *)
theory Log
  imports Registry
begin

text \<open>
  The log (\<open>mumble/log.c\<close>) and the diagnostics of \<open>mumble/util.c\<close>: the filter by level, the lines
  on the terminal and in the log file, the functions \<open>mumble.log\<close> gives to scripts; the dump of a Lua
  stack, type errors and the trace of a call stack.
\<close>

section \<open>Levels and lines\<close>

definition LOG_INFO :: int where "LOG_INFO = 1"
definition LOG_WARN :: int where "LOG_WARN = 2"
definition LOG_ERROR :: int where "LOG_ERROR = 3"
definition LOG_DEBUG :: int where "LOG_DEBUG = 4"
definition LOG_TRACE :: int where "LOG_TRACE = 5"
definition LOG_CODE :: int where "LOG_CODE = 6"

text \<open>The level of a build, with \<open>DEBUG\<close> or without.\<close>

definition LOG_LEVEL :: "bool \<Rightarrow> int" where
  "LOG_LEVEL debug = (if debug then LOG_DEBUG else LOG_ERROR)"

definition escape_seq :: "string \<Rightarrow> cstr" where
  "escape_seq code = [0x1b] @ bytes_of ''['' @ bytes_of code @ bytes_of ''m''"

definition get_log_level_info :: "int \<Rightarrow> cstr \<times> cstr" where
  "get_log_level_info level =
     (if level = LOG_CODE then (escape_seq ''34;1'', bytes_of ''CODE'')
      else if level = LOG_TRACE then (escape_seq ''36;1'', bytes_of ''TRACE'')
      else if level = LOG_DEBUG then (escape_seq ''35;1'', bytes_of ''DEBUG'')
      else if level = LOG_INFO then (escape_seq ''32;1'', bytes_of ''INFO'')
      else if level = LOG_WARN then (escape_seq ''33;1'', bytes_of ''WARN'')
      else if level = LOG_ERROR then (escape_seq ''31;1'', bytes_of ''ERROR'')
      else (escape_seq ''0'', bytes_of ''UNKWN''))"

definition padded :: "nat \<Rightarrow> u8 \<Rightarrow> cstr \<Rightarrow> cstr" where
  "padded n fill text = replicate (n - length text) fill @ text"

text \<open>The time is the text \<open>strftime\<close> makes and the microseconds.\<close>

type_synonym log_time = "cstr \<times> nat"

definition log_millis :: "log_time \<Rightarrow> cstr" where
  "log_millis t = padded 3 0x30 (decimal (snd t div 1000))"

definition terminal_head :: "log_time \<Rightarrow> int \<Rightarrow> cstr" where
  "terminal_head t level =
     (case get_log_level_info level of (lcolor, llevel) \<Rightarrow>
        bytes_of ''['' @ escape_seq ''1'' @ fst t @ bytes_of ''.'' @ log_millis t @ escape_seq ''0'' @ bytes_of '' '' @
        escape_seq ''34;1'' @ bytes_of ''MUMBLE'' @ escape_seq ''0'' @ bytes_of '' - '' @ lcolor @
        padded 5 0x20 llevel @ escape_seq ''0'' @ bytes_of ''] '')"

definition file_head :: "log_time \<Rightarrow> int \<Rightarrow> cstr" where
  "file_head t level =
     bytes_of ''['' @ fst t @ bytes_of ''.'' @ log_millis t @ bytes_of '' MUMBLE - '' @
     padded 5 0x20 (snd (get_log_level_info level)) @ bytes_of ''] ''"

text \<open>
  \<open>LOG_FILE\<close> is a file of the script, or NULL; the open files, those of them that may be written, what was
  written to each, and to the terminal. \<open>LEVEL\<close> never changes: it is an argument.
\<close>

record logging =
  LOG_FILE :: "nat option"
  files_open :: "nat set"
  files_writable :: "nat set"
  file_text :: "nat \<Rightarrow> cstr"
  log_stdout :: cstr
  log_stderr :: cstr

section \<open>Printing a message\<close>

text \<open>
  A message is printed by three calls of \<open>fprintf\<close> to the terminal, the test of \<open>LOG_FILE\<close>, and three more to the
  file, whose results nobody looks at. \<open>fprintf\<close> locks its stream for one call; nothing holds it for a line.
  A closed file is memory that was freed; to one opened for reading nothing is written.
\<close>

datatype log_stream = Stdout | Stderr | Log_File

datatype log_call = Fprintf log_stream cstr | If_Log_File

definition fprintf :: "log_stream \<Rightarrow> cstr \<Rightarrow> logging \<Rightarrow> logging option" where
  "fprintf out text s =
     (case out of
        Stdout \<Rightarrow> Some (s \<lparr> log_stdout := log_stdout s @ text \<rparr>)
      | Stderr \<Rightarrow> Some (s \<lparr> log_stderr := log_stderr s @ text \<rparr>)
      | Log_File \<Rightarrow>
          (case LOG_FILE s of
             None \<Rightarrow> None
           | Some f \<Rightarrow>
               if f \<notin> files_open s then None
               else if f \<notin> files_writable s then Some s
               else Some (s \<lparr> file_text := (file_text s)(f := file_text s f @ text) \<rparr>)))"

text \<open>The next of the calls a thread has before it, and all of them with no other thread between.\<close>

fun log_act :: "log_call list \<Rightarrow> logging \<Rightarrow> (log_call list \<times> logging) option" where
  "log_act [] s = Some ([], s)"
| "log_act (Fprintf out text # calls) s = map_option (Pair calls) (fprintf out text s)"
| "log_act (If_Log_File # calls) s = Some (if LOG_FILE s = None then [] else calls, s)"

fun log_acts :: "log_call list \<Rightarrow> logging \<Rightarrow> logging option" where
  "log_acts [] s = Some s"
| "log_acts (Fprintf out text # calls) s = do { s \<leftarrow> fprintf out text s; log_acts calls s }"
| "log_acts (If_Log_File # calls) s = (if LOG_FILE s = None then Some s else log_acts calls s)"

definition print_calls :: "int \<Rightarrow> log_time \<Rightarrow> int \<Rightarrow> cstr \<Rightarrow> log_call list" where
  "print_calls LEVEL t level text =
     (if level > LEVEL then []
      else let out = (if level = LOG_ERROR then Stderr else Stdout)
           in [Fprintf out (terminal_head t level), Fprintf out text, Fprintf out [10],
               If_Log_File,
               Fprintf Log_File (file_head t level), Fprintf Log_File text, Fprintf Log_File [10]])"

text \<open>\<open>mumble_printf\<close> has its text from the caller's format, \<open>mumble_print\<close> has the text itself.\<close>

definition mumble_printf :: "int \<Rightarrow> log_time \<Rightarrow> int \<Rightarrow> cstr \<Rightarrow> logging \<Rightarrow> logging option" where
  "mumble_printf LEVEL t level text s = log_acts (print_calls LEVEL t level text) s"

definition mumble_print :: "int \<Rightarrow> log_time \<Rightarrow> int \<Rightarrow> u8 list \<Rightarrow> logging \<Rightarrow> logging option" where
  "mumble_print LEVEL t level message s = log_acts (print_calls LEVEL t level (c_string message)) s"

definition mumble_log :: "int \<Rightarrow> log_time \<Rightarrow> int \<Rightarrow> cstr \<Rightarrow> logging \<Rightarrow> logging option" where
  "mumble_log LEVEL t level text s = (if level > LEVEL then Some s else mumble_printf LEVEL t level text s)"

section \<open>Functions of the script\<close>

text \<open>
  \<open>string.format\<close>, which a script may replace, is a parameter: a text, or the message of an error. That
  message is then the format of \<open>luaL_error\<close>, which has no further argument: after \<open>%%\<close> any
  other directive reads one that is not there.
\<close>

fun format_alone :: "u8 list \<Rightarrow> cstr option" where
  "format_alone [] = Some []"
| "format_alone (c # fmt) =
     (if c = 0x25
      then (case fmt of
          [] \<Rightarrow> None
        | d # rest \<Rightarrow> if d = 0x25 then map_option ((#) 0x25) (format_alone rest) else None)
      else map_option ((#) c) (format_alone fmt))"

datatype log_result = Log_Argument nat | Log_Error cstr | Logged

definition lua_format_string ::
  "(lval list \<Rightarrow> u8 list + u8 list) \<Rightarrow> lval list \<Rightarrow> (log_result + u8 list) option" where
  "lua_format_string string_format args =
     (case arg args 1 of
        Some (LStr fmt) \<Rightarrow>
          (case string_format args of
             Inr message \<Rightarrow> Some (Inr message)
           | Inl error \<Rightarrow> map_option (Inl \<circ> Log_Error) (format_alone (c_string error)))
      | _ \<Rightarrow> Some (Inl (Log_Argument 1)))"

definition log_function ::
  "int \<Rightarrow> (lval list \<Rightarrow> u8 list + u8 list) \<Rightarrow> log_time \<Rightarrow> int \<Rightarrow> lval list \<Rightarrow> logging \<Rightarrow> (log_result \<times> logging) option" where
  "log_function LEVEL string_format t level args s = do {
     r \<leftarrow> lua_format_string string_format args;
     case r of
       Inl e \<Rightarrow> Some (e, s)
     | Inr message \<Rightarrow> do { s \<leftarrow> mumble_print LEVEL t level message s; Some (Logged, s) }
   }"

definition log_trace where "log_trace LEVEL F t = log_function LEVEL F t LOG_TRACE"
definition log_debug where "log_debug LEVEL F t = log_function LEVEL F t LOG_DEBUG"
definition log_info where "log_info LEVEL F t = log_function LEVEL F t LOG_INFO"
definition log_warn where "log_warn LEVEL F t = log_function LEVEL F t LOG_WARN"
definition log_error where "log_error LEVEL F t = log_function LEVEL F t LOG_ERROR"

text \<open>A closed file of Lua has a NULL pointer.\<close>

definition log_setLogFile :: "lval list \<Rightarrow> logging \<Rightarrow> log_result \<times> logging" where
  "log_setLogFile args s =
     (case arg args 1 of
        Some (LObject metatable n) \<Rightarrow>
          (if metatable \<noteq> ''FILE*'' then (Log_Argument 1, s)
           else if n \<notin> files_open s then (Log_Error (bytes_of ''attempted to set an invalid log file.''), s)
           else (Logged, s \<lparr> LOG_FILE := Some n \<rparr>))
      | _ \<Rightarrow> (Log_Argument 1, s))"

definition mumble_setLogFile :: "nat option \<Rightarrow> logging \<Rightarrow> logging" where
  "mumble_setLogFile file s = s \<lparr> LOG_FILE := file \<rparr>"

text \<open>The script closes a file, or Lua collects it.\<close>

definition file_closed :: "nat \<Rightarrow> logging \<Rightarrow> logging" where
  "file_closed n s = s \<lparr> files_open := files_open s - {n} \<rparr>"

section \<open>Diagnostics\<close>

text \<open>\<open>%03o\<close> of a \<open>char\<close>, which is signed, as an \<open>unsigned int\<close>.\<close>

fun octal :: "nat \<Rightarrow> cstr" where
  "octal n = (if n < 8 then [of_nat (48 + n)] else octal (n div 8) @ [of_nat (48 + n mod 8)])"

declare octal.simps [simp del]

definition printable :: "u8 \<Rightarrow> bool" where
  "printable c \<longleftrightarrow> 0x20 \<le> c \<and> c \<le> 0x7e"

definition named_escapes :: "(u8 \<times> char) list" where
  "named_escapes =
     [(0, CHR ''0''), (7, CHR ''a''), (8, CHR ''b''), (12, CHR ''f''), (10, CHR ''n''), (13, CHR ''r''), (9, CHR ''t''),
      (11, CHR ''v''), (0x5c, CHR 0x5c), (0x3f, CHR ''?''), (0x27, CHR 0x27), (0x22, CHR 0x22)]"

definition escaped :: "u8 \<Rightarrow> cstr" where
  "escaped c =
     (case map_of named_escapes c of
        Some d \<Rightarrow> [0x5c, of_char d]
      | None \<Rightarrow> if printable c then [c] else 0x5c # padded 3 0x30 (octal (unat (scast c :: u32))))"

definition print_unescaped :: "u8 list option \<Rightarrow> nat \<Rightarrow> cstr" where
  "print_unescaped ptr len = (case ptr of None \<Rightarrow> [] | Some text \<Rightarrow> concat (map escaped (take len text)))"

fun lua_typename :: "lval \<Rightarrow> string" where
  "lua_typename LNil = ''nil''"
| "lua_typename (LBool b) = ''boolean''"
| "lua_typename (LInt i) = ''number''"
| "lua_typename (LNum d) = ''number''"
| "lua_typename (LStr s) = ''string''"
| "lua_typename (LFunction f) = ''function''"
| "lua_typename (LMethod m) = ''function''"
| "lua_typename (LTable t) = ''table''"
| "lua_typename v = (if is_userdata v then ''userdata'' else ''table'')"

text \<open>
  \<open>luaL_debugstack\<close>: a line for each value of the stack, a short string twice. The texts of \<open>%g\<close> and \<open>%p\<close>
  are parameters.
\<close>

definition debug_line :: "(lval \<Rightarrow> cstr) \<Rightarrow> (lval \<Rightarrow> cstr) \<Rightarrow> nat \<Rightarrow> lval \<Rightarrow> cstr" where
  "debug_line number pointer i v =
     (let start = [9] @ decimal i @ bytes_of '' - '' @ bytes_of (lua_typename v) @ bytes_of ''['' in
      case v of
        LStr s \<Rightarrow>
          (if length s < 64
           then start @ [0x22] @ print_unescaped (Some s) (length s) @ [0x22, 0x5d, 10] @
                print_unescaped (Some s) (length s) @ [0x22, 0x5d, 10]
           else start @ decimal (length s) @ [0x5d, 10])
      | LBool b \<Rightarrow> start @ bytes_of (if b then ''true'' else ''false'') @ [0x5d, 10]
      | LInt n \<Rightarrow> start @ number v @ [0x5d, 10]
      | LNum n \<Rightarrow> start @ number v @ [0x5d, 10]
      | _ \<Rightarrow> start @ pointer v @ [0x5d, 10])"

definition luaL_debugstack ::
  "int \<Rightarrow> log_time \<Rightarrow> (lval \<Rightarrow> cstr) \<Rightarrow> (lval \<Rightarrow> cstr) \<Rightarrow> lstack \<Rightarrow> cstr \<Rightarrow> logging \<Rightarrow> logging option" where
  "luaL_debugstack LEVEL t number pointer l text s = do {
     s \<leftarrow> mumble_log LEVEL t LOG_DEBUG (text @ bytes_of '' stack dump'') s;
     Some (s \<lparr> log_stdout := log_stdout s @
       concat (map (\<lambda>i. debug_line number pointer i (l ! (i - 1))) [1 ..< Suc (length l)]) \<rparr>)
   }"

definition luaL_typerror :: "nat \<Rightarrow> string \<Rightarrow> lval list \<Rightarrow> lua_error" where
  "luaL_typerror narg tname args =
     BadArgument narg (tname @ '' expected, got '' @
       (case arg args narg of None \<Rightarrow> ''no value'' | Some v \<Rightarrow> lua_typename v))"

definition luaL_typerror_table :: "nat \<Rightarrow> string \<Rightarrow> lval \<Rightarrow> string \<Rightarrow> lua_error" where
  "luaL_typerror_table narg key v tname =
     BadArgument narg (''bad table entry '' @ [CHR 0x27] @ key @ [CHR 0x27] @ '' ('' @ tname @ '' expected, got '' @ lua_typename v @ '')'')"

text \<open>The registered metatable of a value.\<close>

fun metatable_of :: "lval \<Rightarrow> string option" where
  "metatable_of (LUser s) = Some ''mumble.user''"
| "metatable_of (LChan i) = Some ''mumble.channel''"
| "metatable_of (LClient i) = Some ''mumble.client''"
| "metatable_of (LTarget t) = Some ''mumble.voicetarget''"
| "metatable_of (LObject metatable n) = Some metatable"
| "metatable_of _ = None"

definition luaL_isudata :: "lval list \<Rightarrow> nat \<Rightarrow> string \<Rightarrow> bool" where
  "luaL_isudata args ud tname =
     (case arg args ud of
        None \<Rightarrow> False
      | Some v \<Rightarrow> is_userdata v \<and> metatable_of v = Some tname)"

definition luaL_testudata :: "lval list \<Rightarrow> nat \<Rightarrow> string \<Rightarrow> lval option" where
  "luaL_testudata args index tname =
     (case arg args index of
        None \<Rightarrow> None
      | Some v \<Rightarrow>
          if \<not> is_userdata v then None
          else if metatable_of v \<noteq> Some tname then None
          else Some v)"

text \<open>What \<open>lua_getinfo\<close> tells of a call.\<close>

record call_info =
  short_src :: cstr
  currentline :: int
  namewhat :: cstr
  call_name :: "cstr option"
  call_what :: u8
  linedefined :: int
  call_pointer :: cstr

definition int_decimal :: "int \<Rightarrow> cstr" where
  "int_decimal i = (if i < 0 then 0x2d # decimal (nat (- i)) else decimal (nat i))"

definition trace_line :: "call_info \<Rightarrow> cstr" where
  "trace_line ar =
     [9] @
     (if currentline ar > 0 then short_src ar @ bytes_of '':'' @ int_decimal (currentline ar) else bytes_of ''[C]'') @
     (if namewhat ar \<noteq> []
      then bytes_of '': in function '' @ [0x27] @ (case call_name ar of None \<Rightarrow> bytes_of ''?'' | Some n \<Rightarrow> n) @ [0x27]
      else if call_what ar = 0x6d then bytes_of '': in main chunk''
      else if call_what ar = 0x43 then bytes_of '': at '' @ call_pointer ar
      else bytes_of '': in function <'' @ short_src ar @ bytes_of '':'' @ int_decimal (linedefined ar) @ bytes_of ''>'') @ [10]"

definition luaL_traceback :: "call_info list \<Rightarrow> cstr option \<Rightarrow> nat \<Rightarrow> cstr" where
  "luaL_traceback calls msg level =
     (case msg of None \<Rightarrow> [] | Some m \<Rightarrow> m @ [10]) @ bytes_of ''stack traceback:'' @ [10] @
     concat (map trace_line (drop level calls))"

definition mumble_traceback :: "(lval \<Rightarrow> cstr) \<Rightarrow> call_info list \<Rightarrow> lval list \<Rightarrow> cstr" where
  "mumble_traceback number calls args =
     luaL_traceback calls
       (case arg args 1 of
          Some (LStr s) \<Rightarrow> Some (c_string s)
        | Some (LInt i) \<Rightarrow> Some (number (LInt i))
        | Some (LNum d) \<Rightarrow> Some (number (LNum d))
        | _ \<Rightarrow> None) 1"

section \<open>Facts of diagnostics\<close>

text \<open>Both tests for an object of a class agree.\<close>

lemma testudata_isudata: "luaL_testudata args i t \<noteq> None \<longleftrightarrow> luaL_isudata args i t"
  by (auto simp: luaL_testudata_def luaL_isudata_def split: option.splits)

lemma of_nat_u8_bounds: "a \<le> n \<Longrightarrow> n \<le> b \<Longrightarrow> b < 256 \<Longrightarrow> (of_nat a :: u8) \<le> of_nat n \<and> (of_nat n :: u8) \<le> of_nat b"
  by (simp add: word_le_nat_alt unat_of_nat)

lemma octal_digit: "n < 8 \<Longrightarrow> printable (of_nat (48 + n))"
  using of_nat_u8_bounds [of 32 "48 + n" 126] by (simp add: printable_def)

lemma octal_printable: "c \<in> set (octal n) \<Longrightarrow> printable c"
proof (induction n rule: octal.induct)
  case (1 n)
  show ?case
  proof (cases "n < 8")
    case True
    with 1(2) octal_digit [of n] show ?thesis by (subst (asm) octal.simps) simp
  next
    case False
    with 1(2) have "c \<in> set (octal (n div 8)) \<or> c = of_nat (48 + n mod 8)"
      by (subst (asm) octal.simps) auto
    with 1(1) [OF False] octal_digit [of "n mod 8"] show ?thesis by auto
  qed
qed

lemma escaped_printable: "x \<in> set (escaped c) \<Longrightarrow> printable x"
proof (cases "map_of named_escapes c")
  case None
  moreover assume "x \<in> set (escaped c)"
  ultimately show ?thesis
    using octal_printable [of x "unat (scast c :: u32)"]
    by (auto simp: escaped_def padded_def printable_def split: if_splits)
next
  case (Some d)
  then have "(c, d) \<in> set named_escapes" by (rule map_of_SomeD)
  moreover assume "x \<in> set (escaped c)"
  ultimately show ?thesis using Some
    by (simp add: escaped_def named_escapes_def printable_def) (elim disjE; simp)
qed

section \<open>The threads that log\<close>

text \<open>
  The calls each thread has before it. A thread that has none begins a message, or one is made; the main thread
  opens a file, sets the log file, or closes one. A step that is undefined has no state after it.
\<close>

datatype log_event =
  Begins nat log_time int cstr | Runs nat | Opens nat bool | Sets nat | Closes nat

type_synonym log_state = "(nat \<Rightarrow> log_call list) \<times> logging"

inductive log_step :: "int \<Rightarrow> log_state \<Rightarrow> log_event \<Rightarrow> log_state option \<Rightarrow> bool" for LEVEL where
  begins: "threads i = [] \<Longrightarrow>
    log_step LEVEL (threads, s) (Begins i t level text) (Some (threads(i := print_calls LEVEL t level text), s))"
| runs: "threads i \<noteq> [] \<Longrightarrow>
    log_step LEVEL (threads, s) (Runs i)
      (map_option (\<lambda>(calls, s). (threads(i := calls), s)) (log_act (threads i) s))"
| opens: "n \<notin> files_open s \<Longrightarrow>
    log_step LEVEL (threads, s) (Opens n writable)
      (Some (threads, s \<lparr> files_open := insert n (files_open s), file_text := (file_text s)(n := []),
         files_writable := (if writable then insert n else (\<lambda>files. files - {n})) (files_writable s) \<rparr>))"
| sets: "log_step LEVEL (threads, s) (Sets n) (Some (threads, snd (log_setLogFile [LObject ''FILE*'' n] s)))"
| closes: "log_step LEVEL (threads, s) (Closes n) (Some (threads, file_closed n s))"

inductive log_reachable :: "int \<Rightarrow> log_state \<Rightarrow> log_event list \<Rightarrow> log_state \<Rightarrow> bool" for LEVEL st0 where
  start: "log_reachable LEVEL st0 [] st0"
| step: "log_reachable LEVEL st0 es st \<Longrightarrow> log_step LEVEL st e (Some st') \<Longrightarrow> log_reachable LEVEL st0 (es @ [e]) st'"

text \<open>
  The lines of a thread's messages, as they are to be: the time with three digits of milliseconds, the level in a column of
  five, the text, and the end of the line.
\<close>

definition level_column :: "int \<Rightarrow> string" where
  "level_column level =
     (if 1 \<le> level \<and> level \<le> 6 then ['' INFO'', '' WARN'', ''ERROR'', ''DEBUG'', ''TRACE'', '' CODE''] ! nat (level - 1)
      else ''UNKWN'')"

definition three_digits :: "nat \<Rightarrow> cstr" where
  "three_digits n = map (\<lambda>d. of_nat (48 + d)) [n div 100, n div 10 mod 10, n mod 10]"

fun line_pieces :: "log_time \<times> int \<times> cstr \<Rightarrow> cstr list" where
  "line_pieces ((time, usec), level, text) =
     [[0x5b] @ time @ [0x2e] @ three_digits (usec div 1000) @ bytes_of '' MUMBLE - '' @ bytes_of (level_column level) @
        [0x5d, 0x20],
      text, [10]]"

fun messages :: "int \<Rightarrow> nat \<Rightarrow> log_event list \<Rightarrow> (log_time \<times> int \<times> cstr) list" where
  "messages LEVEL i (Begins j t level text # es) =
     (if j = i \<and> level \<le> LEVEL then [(t, level, text)] else []) @ messages LEVEL i es"
| "messages LEVEL i (e # es) = messages LEVEL i es"
| "messages LEVEL i [] = []"

text \<open>The log file is never closed nor changed for another; the clock counts microseconds.\<close>

definition keeps_file :: "nat \<Rightarrow> log_event list \<Rightarrow> bool" where
  "keeps_file n es \<longleftrightarrow> (\<forall>e\<in>set es. case e of
     Begins i t level text \<Rightarrow> snd t < 1000000 | Sets m \<Rightarrow> m = n | Closes m \<Rightarrow> m \<noteq> n | _ \<Rightarrow> True)"

section \<open>Whole lines\<close>

lemma decimal_millis:
  assumes "n < 1000"
  shows "padded 3 0x30 (decimal n) = three_digits n"
proof -
  have two: "replicate 2 (0x30 :: u8) = [0x30, 0x30]" by (simp add: numeral_2_eq_2)
  consider "n < 10" | "10 \<le> n" "n < 100" | "100 \<le> n" by linarith
  then show ?thesis
  proof cases
    case 1
    then show ?thesis by (simp add: padded_def three_digits_def decimal.simps [of n] two)
  next
    case 2
    then have "n div 10 < 10" "n div 100 = 0" "n div 10 mod 10 = n div 10" by simp_all
    with 2 show ?thesis
      by (simp add: padded_def three_digits_def decimal.simps [of n] decimal.simps [of "n div 10"])
  next
    case 3
    then have "\<not> n < 10" "\<not> n div 10 < 10" "n div 10 div 10 = n div 100" "n div 100 < 10"
      using assms by (simp_all add: div_mult2_eq [symmetric])
    then show ?thesis
      by (simp add: padded_def three_digits_def decimal.simps [of n] decimal.simps [of "n div 10"]
          decimal.simps [of "n div 100"])
  qed
qed

lemma level_names:
  "snd (get_log_level_info level) =
     bytes_of (if 1 \<le> level \<and> level \<le> 6 then [''INFO'', ''WARN'', ''ERROR'', ''DEBUG'', ''TRACE'', ''CODE''] ! nat (level - 1)
               else ''UNKWN'')"
proof -
  consider "level < 1 \<or> 6 < level" | "level = 1" | "level = 2" | "level = 3" | "level = 4" | "level = 5" | "level = 6"
    by linarith
  then show ?thesis
    by cases (auto simp: get_log_level_info_def LOG_INFO_def LOG_WARN_def LOG_ERROR_def LOG_DEBUG_def LOG_TRACE_def LOG_CODE_def)
qed

lemma padded_level: "padded 5 0x20 (snd (get_log_level_info level)) = bytes_of (level_column level)"
proof -
  have blank: "bytes_of (CHR 0x20 # w) = 0x20 # bytes_of w" for w by (simp add: bytes_of_def of_char_def)
  have pad: "padded 5 0x20 (bytes_of w) = replicate (5 - length w) 0x20 @ bytes_of w" for w
    by (simp add: padded_def bytes_of_def)
  consider "level < 1 \<or> 6 < level" | "level = 1" | "level = 2" | "level = 3" | "level = 4" | "level = 5" | "level = 6"
    by linarith
  then show ?thesis
    by cases (auto simp: level_names level_column_def pad blank)
qed

lemma line_pieces_eq:
  assumes "snd t < 1000000"
  shows "line_pieces (t, level, text) = [file_head t level, text, [10]]"
proof -
  have "snd t div 1000 < 1000" using assms by simp
  from decimal_millis [OF this] show ?thesis
    by (cases t) (simp add: file_head_def log_millis_def padded_level bytes_of_def)
qed

lemma length_line_pieces [simp]: "length (line_pieces m) = 3"
  by (cases m rule: line_pieces.cases) simp

section \<open>What a thread has yet to write\<close>

fun to_file :: "log_call list \<Rightarrow> cstr list" where
  "to_file (Fprintf Log_File text # calls) = text # to_file calls"
| "to_file (call # calls) = to_file calls"
| "to_file [] = []"

lemma to_file_print:
  "snd t < 1000000 \<Longrightarrow>
   to_file (print_calls LEVEL t level text) = (if level \<le> LEVEL then line_pieces (t, level, text) else [])"
  by (simp add: print_calls_def line_pieces_eq Let_def)

lemma messages_append [simp]: "messages LEVEL i (es @ es') = messages LEVEL i es @ messages LEVEL i es'"
  by (induction LEVEL i es rule: messages.induct) simp_all

definition written_by :: "nat \<Rightarrow> (nat \<times> cstr) list \<Rightarrow> cstr list" where
  "written_by i W = map snd (filter (\<lambda>w. fst w = i) W)"

lemma written_by_simps [simp]:
  "written_by i [] = []"
  "written_by i (W @ [(j, text)]) = written_by i W @ (if j = i then [text] else [])"
  by (simp_all add: written_by_def)

definition log_kept :: "int \<Rightarrow> nat \<Rightarrow> logging \<Rightarrow> log_event list \<Rightarrow> (nat \<times> cstr) list \<Rightarrow> log_state \<Rightarrow> bool" where
  "log_kept LEVEL n s es W st \<longleftrightarrow>
     LOG_FILE (snd st) = Some n \<and> n \<in> files_open (snd st) \<and>
     (n \<in> files_writable (snd st) \<longleftrightarrow> n \<in> files_writable s) \<and>
     file_text (snd st) n = file_text s n @ (if n \<in> files_writable s then concat (map snd W) else []) \<and>
     (\<forall>i. length (to_file (fst st i)) \<le> 3 \<and>
        written_by i W @ to_file (fst st i) = concat (map line_pieces (messages LEVEL i es)))"

lemma set_file:
  "snd (log_setLogFile [LObject ''FILE*'' n] s) = (if n \<in> files_open s then s \<lparr> LOG_FILE := Some n \<rparr> else s)"
  by (simp add: log_setLogFile_def arg_def)

lemma log_act_kept:
  assumes "log_act calls s = Some (calls', s')" "calls \<noteq> []" "LOG_FILE s = Some n" "n \<in> files_open s"
  shows "LOG_FILE s' = Some n \<and> files_open s' = files_open s \<and> files_writable s' = files_writable s \<and>
    (to_file calls' = to_file calls \<and> file_text s' = file_text s \<or>
     (\<exists>text. to_file calls = text # to_file calls' \<and>
        file_text s' n = file_text s n @ (if n \<in> files_writable s then text else [])))"
proof (cases calls)
  case (Cons call rest)
  show ?thesis
  proof (cases call)
    case (Fprintf out piece)
    with Cons assms show ?thesis by (cases out) (auto simp: fprintf_def split: if_splits)
  qed (use Cons assms in auto)
qed (use assms in simp)

lemma log_act_defined: "LOG_FILE s = Some n \<Longrightarrow> n \<in> files_open s \<Longrightarrow> log_act calls s \<noteq> None"
  by (induction calls s rule: log_act.induct) (auto simp: fprintf_def split: log_stream.split)

lemma log_step_kept:
  assumes "log_step LEVEL st e (Some st')" "log_kept LEVEL n s es W st" "keeps_file n [e]"
  shows "\<exists>W. log_kept LEVEL n s (es @ [e]) W st'"
  using assms(1)
proof cases
  case (begins threads i s1 t level msg)
  have "written_by i W @ to_file (threads i) = concat (map line_pieces (messages LEVEL i es))"
    using assms(2) begins(1) by (simp add: log_kept_def)
  with begins have "log_kept LEVEL n s (es @ [e]) W st'"
    using assms(2,3) by (auto simp: log_kept_def keeps_file_def to_file_print)
  then show ?thesis ..
next
  case (runs threads i s1)
  then obtain calls s2 where act: "log_act (threads i) s1 = Some (calls, s2)" "st' = (threads(i := calls), s2)"
    by (cases "log_act (threads i) s1") auto
  have ok: "log_kept LEVEL n s es W (threads, s1)" using assms(2) runs(1) by simp
  from log_act_kept [OF act(1) runs(4)] ok consider
      (same) "LOG_FILE s2 = Some n" "files_open s2 = files_open s1" "files_writable s2 = files_writable s1"
        "to_file calls = to_file (threads i)" "file_text s2 = file_text s1"
    | (more) piece where "LOG_FILE s2 = Some n" "files_open s2 = files_open s1" "files_writable s2 = files_writable s1"
        "to_file (threads i) = piece # to_file calls"
        "file_text s2 n = file_text s1 n @ (if n \<in> files_writable s1 then piece else [])"
    by (auto simp: log_kept_def)
  then show ?thesis
  proof cases
    case same
    then have "log_kept LEVEL n s (es @ [e]) W st'"
      using ok act(2) runs(2) by (simp add: log_kept_def)
    then show ?thesis ..
  next
    case more
    have at_i: "written_by i W @ to_file (threads i) = concat (map line_pieces (messages LEVEL i es))"
      "length (to_file (threads i)) \<le> 3" using ok by (simp_all add: log_kept_def)
    have "log_kept LEVEL n s (es @ [e]) (W @ [(i, piece)]) st'"
      using ok act(2) runs(2) more at_i by (simp add: log_kept_def)
    then show ?thesis ..
  qed
next
  case (opens m s1 threads writable)
  then have "log_kept LEVEL n s (es @ [e]) W st'" using assms(2) by (auto simp: log_kept_def)
  then show ?thesis ..
next
  case (sets threads s1 m)
  then have "log_kept LEVEL n s (es @ [e]) W st'" using assms(2,3) by (auto simp: log_kept_def keeps_file_def set_file)
  then show ?thesis ..
next
  case (closes threads s1 m)
  then have "log_kept LEVEL n s (es @ [e]) W st'"
    using assms(2,3) by (auto simp: log_kept_def keeps_file_def file_closed_def)
  then show ?thesis ..
qed

lemma log_reachable_kept:
  assumes "log_reachable LEVEL ((\<lambda>i. []), s) es st" "keeps_file n es" "LOG_FILE s = Some n" "n \<in> files_open s"
  shows "\<exists>W. log_kept LEVEL n s es W st"
  using assms(1,2)
proof induction
  case start
  show ?case using assms(3,4) by (intro exI [of _ "[]"]) (simp add: log_kept_def)
next
  case (step es st e st')
  then have "keeps_file n es" "keeps_file n [e]" by (simp_all add: keeps_file_def)
  with step log_step_kept show ?case by metis
qed

inductive_cases log_runsE: "log_step LEVEL (threads, s) (Runs i) r"

text \<open>A thread goes on alone.\<close>

fun log_act_n :: "nat \<Rightarrow> log_call list \<Rightarrow> logging \<Rightarrow> (log_call list \<times> logging) option" where
  "log_act_n 0 calls s = Some (calls, s)"
| "log_act_n (Suc k) calls s =
     (if calls = [] then None else do { (calls, s) \<leftarrow> log_act calls s; log_act_n k calls s })"

lemma log_alone:
  assumes "log_reachable LEVEL st0 es (threads, s)" "log_act_n k (threads i) s = Some (calls, s')"
  shows "log_reachable LEVEL st0 (es @ replicate k (Runs i)) (threads(i := calls), s')"
  using assms
proof (induction k arbitrary: es threads s)
  case 0
  then have "threads(i := calls) = threads" "s' = s" by auto
  with 0 show ?case by simp
next
  case (Suc k)
  then obtain calls1 s1 where act: "threads i \<noteq> []" "log_act (threads i) s = Some (calls1, s1)"
    "log_act_n k calls1 s1 = Some (calls, s')"
    by (auto split: if_splits bind_splits)
  have "log_step LEVEL (threads, s) (Runs i) (Some (threads(i := calls1), s1))"
    using log_step.runs [of threads i LEVEL s] act(1,2) by simp
  note after = log_reachable.step [OF Suc.prems(1) this]
  have "log_reachable LEVEL st0 ((es @ [Runs i]) @ replicate k (Runs i)) ((threads(i := calls1))(i := calls), s')"
    by (rule Suc.IH [OF after]) (simp add: act(3))
  then show ?case by (simp only: fun_upd_upd append.assoc append.simps replicate_Suc)
qed

section \<open>Properties\<close>

text \<open>
  C34. While the log file stays open and is not changed for another, printing is always defined. To a file that may not
  be written nothing is added. Else what each thread writes is, in order, the lines of its messages up to the
  level of the build, each made of its head, its text and its end, without the pieces of a line it has begun but not
  finished; the pieces of several threads are interleaved, lines are not kept whole.
\<close>
theorem log_file_lines:
  assumes "log_reachable LEVEL ((\<lambda>i. []), s) es (threads, s')" "keeps_file n es" "LOG_FILE s = Some n"
    "n \<in> files_open s"
  shows "(\<forall>i r. log_step LEVEL (threads, s') (Runs i) r \<longrightarrow> r \<noteq> None) \<and>
    (\<exists>W. file_text s' n = file_text s n @ (if n \<in> files_writable s then concat (map snd W) else []) \<and>
      (\<forall>i. \<exists>rest. written_by i W @ rest = concat (map line_pieces (messages LEVEL i es)) \<and> length rest \<le> 3 \<and>
        (threads i = [] \<longrightarrow> rest = [])))"
proof -
  obtain W where ok: "log_kept LEVEL n s es W (threads, s')" using log_reachable_kept [OF assms] by blast
  then have "LOG_FILE s' = Some n" "n \<in> files_open s'" by (simp_all add: log_kept_def)
  then have "log_act (threads i) s' \<noteq> None" for i by (rule log_act_defined)
  then have "\<forall>i r. log_step LEVEL (threads, s') (Runs i) r \<longrightarrow> r \<noteq> None"
    by (metis (no_types, lifting) log_event.inject(2) log_runsE option.map_disc_iff prod.inject)
  moreover have "\<exists>rest. written_by i W @ rest = concat (map line_pieces (messages LEVEL i es)) \<and> length rest \<le> 3 \<and>
      (threads i = [] \<longrightarrow> rest = [])" for i
    using ok by (intro exI [of _ "to_file (threads i)"]) (simp add: log_kept_def)
  ultimately show ?thesis using ok by (intro conjI exI [of _ W]) (auto simp: log_kept_def)
qed

definition sample_log :: logging where
  "sample_log = \<lparr> LOG_FILE = Some 1, files_open = {1}, files_writable = {1}, file_text = (\<lambda>n. []), log_stdout = [],
     log_stderr = [] \<rparr>"

definition sample_line :: "cstr \<Rightarrow> cstr list" where
  "sample_line text = line_pieces (([], 7000), LOG_WARN, text)"

text \<open>Two threads, each at the last piece but one of its line: both heads come first, then both texts.\<close>

definition mixed_events :: "log_event list" where
  "mixed_events = [Begins 0 ([], 7000) LOG_WARN [65], Begins 1 ([], 7000) LOG_WARN [66]] @
     replicate 5 (Runs 0) @ replicate 7 (Runs 1) @ replicate 2 (Runs 0)"

lemma sample_mixed:
  "\<exists>s'. log_reachable 3 ((\<lambda>i. []), sample_log) mixed_events ((\<lambda>i. []), s') \<and>
     file_text s' 1 = sample_line [65] ! 0 @ concat (sample_line [66]) @ [65] @ [10]"
proof -
  let ?t = "([], 7000) :: log_time"
  let ?A = "print_calls 3 ?t LOG_WARN [65]"
  let ?B = "print_calls 3 ?t LOG_WARN [66]"
  let ?H = "terminal_head ?t LOG_WARN"
  let ?F = "file_head ?t LOG_WARN"
  let ?log = "\<lambda>out texts. sample_log \<lparr> log_stdout := out, file_text := (file_text sample_log)(1 := texts) \<rparr>"
  let ?th = "(\<lambda>i. [])(0 := ?A, 1 := ?B) :: nat \<Rightarrow> log_call list"
  note act = print_calls_def fprintf_def sample_log_def LOG_WARN_def LOG_ERROR_def Let_def
  let ?k5 = "Suc (Suc (Suc (Suc (Suc 0))))"
  let ?a = "[Fprintf Log_File [65], Fprintf Log_File [10]]"
  let ?o = "?H @ [65, 10]"
  have A: "log_act_n ?k5 (?th 0) sample_log = Some (?a, ?log ?o ?F)"
    by (simp add: act)
  have B: "log_act_n (Suc (Suc ?k5)) ((?th(0 := ?a)) 1) (?log ?o ?F) = Some ([], ?log (?o @ ?H @ [66, 10]) (?F @ ?F @ [66, 10]))"
    by (simp add: act)
  have C: "log_act_n (Suc (Suc 0)) ((?th(0 := ?a, 1 := [])) 0) (?log (?o @ ?H @ [66, 10]) (?F @ ?F @ [66, 10])) =
      Some ([], ?log (?o @ ?H @ [66, 10]) (?F @ ?F @ [66, 10, 65, 10]))"
    by (simp add: act)
  have reached: "log_reachable 3 ((\<lambda>i. []), sample_log) (([] @ [Begins 0 ?t LOG_WARN [65]]) @ [Begins 1 ?t LOG_WARN [66]]) (?th, sample_log)"
    by (rule log_reachable.step [OF log_reachable.step [OF log_reachable.start log_step.begins] log_step.begins]) simp_all
  have times: "replicate 2 x = replicate (Suc (Suc 0)) x" "replicate 5 x = replicate ?k5 x"
    "replicate 7 x = replicate (Suc (Suc ?k5)) x" for x :: log_event by (simp_all add: eval_nat_numeral)
  from log_alone [OF log_alone [OF log_alone [OF reached A] B] C]
  have "log_reachable 3 ((\<lambda>i. []), sample_log) mixed_events
      ((?th(0 := ?a, 1 := [], 0 := [])), ?log (?o @ ?H @ [66, 10]) (?F @ ?F @ [66, 10, 65, 10]))"
    by (simp only: mixed_events_def times append.simps append.assoc)
  moreover have "?th(0 := ?a, 1 := [], 0 := []) = (\<lambda>i. [])" by auto
  moreover have "sample_line [65] ! 0 @ concat (sample_line [66]) @ [65] @ [10] = ?F @ ?F @ [66, 10, 65, 10]"
    unfolding sample_line_def by (simp add: line_pieces_eq del: line_pieces.simps)
  ultimately show ?thesis by (intro exI conjI) auto
qed

theorem log_file_lines_witness:
  "\<exists>W. written_by 0 W = sample_line [65] \<and> written_by 1 W = sample_line [66] \<and>
     concat (map snd W) = sample_line [65] ! 0 @ concat (sample_line [66]) @ [65] @ [10]"
proof -
  obtain s' where s': "log_reachable 3 ((\<lambda>i. []), sample_log) mixed_events ((\<lambda>i. []), s')"
    "file_text s' 1 = sample_line [65] ! 0 @ concat (sample_line [66]) @ [65] @ [10]"
    using sample_mixed by blast
  have lines: "messages 3 0 mixed_events = [(([], 7000), LOG_WARN, [65])]" "messages 3 1 mixed_events = [(([], 7000), LOG_WARN, [66])]"
    by (simp_all add: mixed_events_def LOG_WARN_def numeral_eq_Suc)
  have "keeps_file 1 mixed_events" by (simp add: keeps_file_def mixed_events_def)
  from log_file_lines [OF s'(1) this] obtain W where
    "file_text s' 1 = concat (map snd W)"
    "\<forall>i. written_by i W = concat (map line_pieces (messages 3 i mixed_events))"
    by (auto simp: sample_log_def)
  with s'(2) lines show ?thesis by (intro exI [of _ W]) (simp add: sample_line_def)
qed

text \<open>
  Nothing keeps the log file: once the script has closed it, or Lua has collected it, the next message
  that the level lets through writes to a freed file.
\<close>
theorem closed_log_file:
  assumes "LOG_FILE s = Some n" "level \<le> LEVEL"
  shows "mumble_log LEVEL t level msg (file_closed n s) = None"
  using assms
  by (simp add: mumble_log_def mumble_printf_def print_calls_def file_closed_def fprintf_def Let_def split: if_splits)

theorem closed_log_file_witness: "mumble_log (LOG_LEVEL False) ([], 0) LOG_ERROR [65] (file_closed 1 sample_log) = None"
  using closed_log_file [of sample_log 1 LOG_ERROR "LOG_LEVEL False" "([], 0)" "[65]"]
  by (simp add: sample_log_def LOG_LEVEL_def)

text \<open>
  When \<open>string.format\<close> refuses the arguments of a log function, its message is used as a format: without a percent
  sign it is the error raised; with a directive in it, \<open>luaL_error\<close> reads an argument it was not given.
\<close>
theorem format_error_overread:
  assumes "arg args 1 = Some (LStr fmt)" "string_format args = Inl error"
  shows "(0x25 \<notin> set (c_string error) \<longrightarrow>
      log_function LEVEL string_format t level args s = Some (Log_Error (c_string error), s)) \<and>
    (c_string error = before @ 0x25 # d # after \<and> 0x25 \<notin> set before \<and> d \<noteq> 0x25 \<longrightarrow>
      log_function LEVEL string_format t level args s = None)"
proof (intro conjI impI)
  have same: "0x25 \<notin> set msg \<Longrightarrow> format_alone msg = Some msg" for msg by (induction msg) auto
  have stuck: "0x25 \<notin> set msg \<Longrightarrow> d \<noteq> 0x25 \<Longrightarrow> format_alone (msg @ 0x25 # d # after) = None" for msg
    by (induction msg) auto
  show "log_function LEVEL string_format t level args s = Some (Log_Error (c_string error), s)" if "0x25 \<notin> set (c_string error)"
    using assms same [OF that] by (simp add: log_function_def lua_format_string_def)
  show "log_function LEVEL string_format t level args s = None"
    if "c_string error = before @ 0x25 # d # after \<and> 0x25 \<notin> set before \<and> d \<noteq> 0x25"
    using assms that stuck [of before] by (simp add: log_function_def lua_format_string_def)
qed

theorem format_error_overread_witness:
  "log_function 3 (\<lambda>args. Inl [0x69, 0x25, 0x70]) ([], 0) 1 [LStr [0x25, 0x70]] sample_log = None"
  using format_error_overread [of "[LStr [0x25, 0x70]]" "[0x25, 0x70]" "\<lambda>args. Inl [0x69, 0x25, 0x70]" "[0x69, 0x25, 0x70]"
      3 "([], 0)" 1 sample_log "[0x69]" "0x70" "[]"]
  by (simp add: arg_def c_string_def)

text \<open>
  Whatever the bytes, \<open>print_unescaped\<close> prints only the characters from the blank to the tilde.\<close>
theorem unescaped_printable:
  assumes "x \<in> set (print_unescaped ptr len)"
  shows "0x20 \<le> x \<and> x \<le> 0x7e"
  using assms escaped_printable by (auto simp: print_unescaped_def printable_def split: option.splits)

theorem unescaped_printable_witness: "(0x37 :: u8) \<le> 0x7e"
  using unescaped_printable [of "0x37" "Some [0xff]" 1] by simp

end
