(* ===== verification/Module.thy ===== *)
theory Module
  imports Log "HOL-Library.Char_ord" "HOL-Library.List_Lexorder" "HOL-Library.Multiset"
begin

text \<open>
  The module that \<open>luaopen_mumble\<close> builds (\<open>mumble/mumble.c\<close>): its functions, the tables of constants and of the
  names of the protocol's enumerations, and the classes of its objects with their constructors. A C function is
  the value \<open>LMethod\<close> with its name. The references it opens are in \<open>Registry\<close>.
\<close>

section \<open>The functions of each class\<close>

text \<open>The arrays of \<open>luaL_Reg\<close>: the name for scripts and the C function.\<close>

definition mumble_functions :: "(string \<times> string) list" where
  "mumble_functions =
     [(''loop'', ''mumble_loop''), (''stop'', ''mumble_stop''), (''time'', ''mumble_getTime''),
      (''gettime'', ''mumble_getTime''), (''getTime'', ''mumble_getTime''),
      (''getConnections'', ''mumble_getConnections''), (''getClients'', ''mumble_getConnections'')]"

definition mumble_log_reg :: "(string \<times> string) list" where
  "mumble_log_reg =
     [(''trace'', ''log_trace''), (''debug'', ''log_debug''), (''info'', ''log_info''),
      (''warn'', ''log_warn''), (''error'', ''log_error''), (''setLogFile'', ''log_setLogFile'')]"

definition client_functions :: "(string \<times> string) list" where
  "client_functions =
     [(''auth'', ''client_auth''), (''setTokens'', ''client_setTokens''),
      (''connect'', ''mumble_client_connect''), (''disconnect'', ''client_disconnect''),
      (''isConnected'', ''client_isConnected''), (''isSynced'', ''client_isSynced''),
      (''isSynched'', ''client_isSynced''), (''requestBanList'', ''client_requestBanList''),
      (''requestUserList'', ''client_requestUserList''), (''sendPluginData'', ''client_sendPluginData''),
      (''transmit'', ''client_transmit''), (''openAudio'', ''client_openAudio''),
      (''getAudioStreams'', ''client_getAudioStreams''),
      (''setAudioPacketSize'', ''client_setAudioPacketSize''),
      (''getAudioPacketSize'', ''client_getAudioPacketSize''), (''setComment'', ''client_setComment''),
      (''setVolume'', ''client_setVolume''), (''getVolume'', ''client_getVolume''),
      (''hook'', ''client_hook''), (''unhook'', ''client_unhook''), (''call'', ''client_call''),
      (''getHooks'', ''client_getHooks''), (''getUsers'', ''client_getUsers''),
      (''getChannels'', ''client_getChannels''), (''getChannel'', ''client_getChannel''),
      (''registerVoiceTarget'', ''client_registerVoiceTarget''),
      (''setVoiceTarget'', ''client_setVoiceTarget''), (''getVoiceTarget'', ''client_getVoiceTarget''),
      (''getEncoder'', ''client_getEncoder''), (''getPing'', ''client_getPing''),
      (''getUpTime'', ''client_getUpTime''), (''getHost'', ''client_getHost''),
      (''getAddress'', ''client_getAddress''), (''getPort'', ''client_getPort''),
      (''requestTextureBlob'', ''client_requestTextureBlob''),
      (''requestCommentBlob'', ''client_requestCommentBlob''),
      (''requestDescriptionBlob'', ''client_requestDescriptionBlob''),
      (''createChannel'', ''client_createChannel''), (''createAudioBuffer'', ''client_createAudioBuffer''),
      (''getMe'', ''client_getMe''), (''getSelf'', ''client_getMe''),
      (''isTunnelingUDP'', ''client_isTunnelingUDP''), (''isLegacy'', ''client_isLegacy''),
      (''__gc'', ''client_gc''), (''__tostring'', ''client_tostring''), (''__index'', ''client_index'')]"

definition user_functions :: "(string \<times> string) list" where
  "user_functions =
     [(''message'', ''user_message''), (''kick'', ''user_kick''), (''ban'', ''user_ban''),
      (''move'', ''user_move''), (''setMuted'', ''user_setMuted''), (''setDeaf'', ''user_setDeaf''),
      (''register'', ''user_register''), (''requestStats'', ''user_request_stats''),
      (''getClient'', ''user_getClient''), (''getSession'', ''user_getSession''),
      (''getName'', ''user_getName''), (''getChannel'', ''user_getChannel''), (''getId'', ''user_getId''),
      (''getID'', ''user_getId''), (''isRegistered'', ''user_isRegistered''),
      (''isMute'', ''user_isMute''), (''isMuted'', ''user_isMute''), (''isDeaf'', ''user_isDeaf''),
      (''isDeafened'', ''user_isDeaf''), (''isSelfMute'', ''user_isSelfMute''),
      (''isSelfMuted'', ''user_isSelfMute''), (''isSelfDeaf'', ''user_isSelfDeaf''),
      (''isSelfDeafened'', ''user_isSelfDeaf''), (''isSuppressed'', ''user_isSuppressed''),
      (''getComment'', ''user_getComment''), (''getCommentHash'', ''user_getCommentHash''),
      (''isSpeaking'', ''user_isSpeaking''), (''isRecording'', ''user_isRecording''),
      (''isPrioritySpeaker'', ''user_isPrioritySpeaker''), (''getTexture'', ''user_getTexture''),
      (''getTextureHash'', ''user_getTextureHash''), (''getHash'', ''user_getHash''),
      (''setTexture'', ''user_setTexture''), (''listen'', ''user_listen''),
      (''unlisten'', ''user_unlisten''), (''isListening'', ''user_isListening''),
      (''getListens'', ''user_getListens''), (''getListening'', ''user_getListens''),
      (''sendPluginData'', ''user_sendPluginData''), (''requestTextureBlob'', ''user_requestTextureBlob''),
      (''requestCommentBlob'', ''user_requestCommentBlob''), (''startRecord'', ''user_startRecord''),
      (''startRecording'', ''user_startRecord''), (''stopRecord'', ''user_stopRecord''),
      (''stopRecording'', ''user_stopRecord''), (''isBeingRecorded'', ''user_isBeingRecorded''),
      (''contextAction'', ''user_contextAction''), (''__gc'', ''user_gc''),
      (''__tostring'', ''user_tostring''), (''__newindex'', ''user_newindex''),
      (''__index'', ''user_index'')]"

definition channel_functions :: "(string \<times> string) list" where
  "channel_functions =
     [(''message'', ''channel_message''), (''setDescription'', ''channel_setDescription''),
      (''remove'', ''channel_remove''), (''getClient'', ''channel_getClient''),
      (''getName'', ''channel_getName''), (''getId'', ''channel_getId''), (''getID'', ''channel_getId''),
      (''getParent'', ''channel_getParent''), (''getChildren'', ''channel_getChildren''),
      (''getUsers'', ''channel_getUsers''), (''getDescription'', ''channel_getDescription''),
      (''getDescriptionHash'', ''channel_getDescriptionHash''), (''isTemporary'', ''channel_isTemporary''),
      (''getPosition'', ''channel_getPosition''), (''getMaxUsers'', ''channel_getMaxUsers''),
      (''link'', ''channel_link''), (''unlink'', ''channel_unlink''), (''getLinks'', ''channel_getLinks''),
      (''isEnterRestricted'', ''channel_isEnterRestricted''), (''canEnter'', ''channel_canEnter''),
      (''requestACL'', ''channel_requestACL''), (''requestPermissions'', ''channel_requestPermissions''),
      (''getPermissions'', ''channel_getPermissions''), (''hasPermission'', ''channel_hasPermission''),
      (''hasPermissions'', ''channel_hasPermission''),
      (''setListeningVolumeAdjustment'', ''channel_setListeningVolumeAdjustment''),
      (''getListeningVolumeAdjustment'', ''channel_getListeningVolumeAdjustment''),
      (''requestDescriptionBlob'', ''channel_requestDescriptionBlob''), (''create'', ''channel_create''),
      (''contextAction'', ''channel_contextAction''), (''__call'', ''channel_call''),
      (''__gc'', ''channel_gc''), (''__tostring'', ''channel_tostring''),
      (''__newindex'', ''channel_newindex''), (''__index'', ''channel_index'')]"

definition encoder_functions :: "(string \<times> string) list" where
  "encoder_functions =
     [(''reset'', ''encoder_resetState''), (''resetState'', ''encoder_resetState''),
      (''getFinalRange'', ''encoder_getFinalRange''), (''getPitch'', ''encoder_getPitch''),
      (''getBandwidth'', ''encoder_getBandwidth''), (''getSampleRate'', ''encoder_getSampleRate''),
      (''getPhaseInversionDisabled'', ''encoder_getPhaseInversionDisabled''),
      (''setPhaseInversionDisabled'', ''encoder_setPhaseInversionDisabled''),
      (''getInDTX'', ''encoder_getInDTX''), (''getComplexity'', ''encoder_getComplexity''),
      (''setComplexity'', ''encoder_setComplexity''), (''getBitRate'', ''encoder_getBitRate''),
      (''setBitRate'', ''encoder_setBitRate''), (''getBitrate'', ''encoder_getBitRate''),
      (''setBitrate'', ''encoder_setBitRate''), (''getVBR'', ''encoder_getVBR''),
      (''setVBR'', ''encoder_setVBR''), (''getVBRConstraint'', ''encoder_getVBRConstraint''),
      (''setVBRConstraint'', ''encoder_setVBRConstraint''),
      (''getForceChannels'', ''encoder_getForceChannels''),
      (''setForceChannels'', ''encoder_setForceChannels''),
      (''getMaxBandwidth'', ''encoder_getMaxBandwidth''),
      (''setMaxBandwidth'', ''encoder_setMaxBandwidth''), (''setBandwidth'', ''encoder_setBandwidth''),
      (''getSignal'', ''encoder_getSignal''), (''setSignal'', ''encoder_setSignal''),
      (''getApplication'', ''encoder_getApplication''), (''setApplication'', ''encoder_setApplication''),
      (''getLookahead'', ''encoder_getLookahead''), (''getInbandFEC'', ''encoder_getInbandFEC''),
      (''setInbandFEC'', ''encoder_setInbandFEC''), (''getPacketLossPerc'', ''encoder_getPacketLossPerc''),
      (''setPacketLossPerc'', ''encoder_setPacketLossPerc''), (''getDTX'', ''encoder_getDTX''),
      (''setDTX'', ''encoder_setDTX''), (''encode'', ''encoder_encode''),
      (''encodeFloat'', ''encoder_encode_float''), (''encode_float'', ''encoder_encode_float''),
      (''__tostring'', ''encoder_tostring''), (''__gc'', ''encoder_gc'')]"

definition decoder_functions :: "(string \<times> string) list" where
  "decoder_functions =
     [(''reset'', ''decoder_resetState''), (''resetState'', ''decoder_resetState''),
      (''getFinalRange'', ''decoder_getFinalRange''), (''getPitch'', ''decoder_getPitch''),
      (''getBandwidth'', ''decoder_getBandwidth''), (''getSampleRate'', ''decoder_getSampleRate''),
      (''getPhaseInversionDisabled'', ''decoder_getPhaseInversionDisabled''),
      (''setPhaseInversionDisabled'', ''decoder_setPhaseInversionDisabled''),
      (''getInDTX'', ''decoder_getInDTX''), (''decode'', ''decoder_decode''),
      (''decodeFloat'', ''decoder_decode_float''), (''decode_float'', ''decoder_decode_float''),
      (''getNumSamples'', ''decoder_getNumSamples''), (''getChannels'', ''decoder_getChannels''),
      (''__tostring'', ''decoder_tostring''), (''__gc'', ''decoder_gc'')]"

definition banentry_functions :: "(string \<times> string) list" where
  "banentry_functions =
     [(''setAddress'', ''banentry_setAddress''), (''getAddress'', ''banentry_getAddress''),
      (''setMask'', ''banentry_setMask''), (''getMask'', ''banentry_getMask''),
      (''setName'', ''banentry_setName''), (''getName'', ''banentry_getName''),
      (''setHash'', ''banentry_setHash''), (''getHash'', ''banentry_getHash''),
      (''setReason'', ''banentry_setReason''), (''getReason'', ''banentry_getReason''),
      (''setStart'', ''banentry_setStart''), (''getStart'', ''banentry_getStart''),
      (''setDuration'', ''banentry_setDuration''), (''getDuration'', ''banentry_getDuration''),
      (''__tostring'', ''banentry_tostring'')]"

definition target_functions :: "(string \<times> string) list" where
  "target_functions =
     [(''addUser'', ''target_addUser''), (''getUsers'', ''target_getUsers''),
      (''setChannel'', ''target_setChannel''), (''getChannel'', ''target_getChannel''),
      (''setGroup'', ''target_setGroup''), (''getGroup'', ''target_getGroup''),
      (''setLinks'', ''target_setLinks''), (''getLinks'', ''target_getLinks''),
      (''setChildren'', ''target_setChildren''), (''getChildren'', ''target_getChildren''),
      (''__tostring'', ''target_tostring''), (''__gc'', ''target_gc'')]"

definition timer_functions :: "(string \<times> string) list" where
  "timer_functions =
     [(''start'', ''timer_start''), (''stop'', ''timer_stop''), (''pause'', ''timer_pause''),
      (''again'', ''timer_again''), (''resume'', ''timer_resume''), (''set'', ''timer_set''),
      (''get'', ''timer_get''), (''setDuration'', ''timer_setDuration''),
      (''getDuration'', ''timer_getDuration''), (''setRepeat'', ''timer_setRepeat''),
      (''getRepeat'', ''timer_getRepeat''), (''getCount'', ''timer_getCount''),
      (''getRemain'', ''timer_getRemain''), (''isActive'', ''timer_isActive''),
      (''isPaused'', ''timer_isPaused''), (''__tostring'', ''timer_tostring''), (''__gc'', ''timer_gc'')]"

definition worker_functions :: "(string \<times> string) list" where
  "worker_functions =
     [(''send'', ''thread_worker_send''), (''onMessage'', ''thread_worker_onMessage''),
      (''sleep'', ''thread_worker_sleep''), (''loop'', ''thread_worker_loop''),
      (''stop'', ''thread_worker_stop''), (''buffer'', ''thread_worker_buffer''),
      (''__tostring'', ''thread_worker_tostring''), (''__gc'', ''thread_worker_gc'')]"

definition controller_functions :: "(string \<times> string) list" where
  "controller_functions =
     [(''join'', ''thread_controller_join''), (''onFinish'', ''thread_controller_onFinish''),
      (''send'', ''thread_controller_send''), (''onMessage'', ''thread_controller_onMessage''),
      (''__tostring'', ''thread_controller_tostring''), (''__gc'', ''thread_controller_gc'')]"

definition audiostream_functions :: "(string \<times> string) list" where
  "audiostream_functions =
     [(''isPlaying'', ''audiostream_isPlaying''), (''setVolume'', ''audiostream_setVolume''),
      (''getVolume'', ''audiostream_getVolume''), (''pause'', ''audiostream_pause''),
      (''play'', ''audiostream_play''), (''stop'', ''audiostream_stop''), (''seek'', ''audiostream_seek''),
      (''getLength'', ''audiostream_getLength''), (''getDuration'', ''audiostream_getLength''),
      (''getInfo'', ''audiostream_getInfo''), (''getTitle'', ''audiostream_getTitle''),
      (''getArtist'', ''audiostream_getArtist''), (''getCopyright'', ''audiostream_getCopyright''),
      (''getSoftware'', ''audiostream_getSoftware''), (''getComments'', ''audiostream_getComments''),
      (''setLooping'', ''audiostream_setLooping''), (''isLooping'', ''audiostream_isLooping''),
      (''getLoopCount'', ''audiostream_getLoopCount''), (''fadeTo'', ''audiostream_fadeTo''),
      (''fadeOut'', ''audiostream_fadeOut''), (''__gc'', ''audiostream_gc''),
      (''__tostring'', ''audiostream_tostring'')]"

definition buffer_functions :: "(string \<times> string) list" where
  "buffer_functions =
     [(''pack'', ''luabuffer_pack''), (''reset'', ''luabuffer_reset''), (''flip'', ''luabuffer_flip''),
      (''write'', ''luabuffer_write''), (''read'', ''luabuffer_read''),
      (''writeByte'', ''luabuffer_writeByte''), (''readByte'', ''luabuffer_readByte''),
      (''writeShort'', ''luabuffer_writeShort''), (''readShort'', ''luabuffer_readShort''),
      (''writeInt'', ''luabuffer_writeInt''), (''readInt'', ''luabuffer_readInt''),
      (''writeVarInt'', ''luabuffer_writeVarInt''), (''readVarInt'', ''luabuffer_readVarInt''),
      (''writeFloat'', ''luabuffer_writeFloat''), (''readFloat'', ''luabuffer_readFloat''),
      (''writeDouble'', ''luabuffer_writeDouble''), (''readDouble'', ''luabuffer_readDouble''),
      (''writeString'', ''luabuffer_writeString''), (''readString'', ''luabuffer_readString''),
      (''writeBool'', ''luabuffer_writeBool''), (''readBool'', ''luabuffer_readBool''),
      (''writeBoolean'', ''luabuffer_writeBool''), (''readBoolean'', ''luabuffer_readBool''),
      (''isEmpty'', ''luabuffer_isEmpty''), (''seek'', ''luabuffer_seek''), (''__len'', ''luabuffer_len''),
      (''__index'', ''luabuffer_index''), (''__tostring'', ''luabuffer_tostring''),
      (''__gc'', ''luabuffer_gc'')]"

definition pipe_functions :: "(string \<times> string) list" where
  "pipe_functions =
     [(''close'', ''pipe_close''), (''__tostring'', ''pipe_tostring''), (''__gc'', ''pipe_gc'')]"

definition crypt_functions :: "(string \<times> string) list" where
  "crypt_functions =
     [(''isValid'', ''ocb_aes128_isValid''), (''genKey'', ''ocb_aes128_genKey''),
      (''setKey'', ''ocb_aes128_setKey''), (''setRawKey'', ''ocb_aes128_setRawKey''),
      (''setEncryptIV'', ''ocb_aes128_setEncryptIV''), (''setDecryptIV'', ''ocb_aes128_setDecryptIV''),
      (''getRawKey'', ''ocb_aes128_getRawKey''), (''getEncryptIV'', ''ocb_aes128_getEncryptIV''),
      (''getDecryptIV'', ''ocb_aes128_getDecryptIV''), (''getGood'', ''ocb_aes128_getGood''),
      (''getLate'', ''ocb_aes128_getLate''), (''getLost'', ''ocb_aes128_getLost''),
      (''encrypt'', ''ocb_aes128_encrypt''), (''decrypt'', ''ocb_aes128_decrypt''),
      (''__tostring'', ''ocb_aes128_tostring''), (''__gc'', ''ocb_aes128_gc'')]"

section \<open>Constants\<close>

text \<open>The permissions of \<open>mumble/acl.h\<close>.\<close>

definition ACL_NONE :: u32 where "ACL_NONE = 0x0"
definition ACL_WRITE :: u32 where "ACL_WRITE = 0x1"
definition ACL_TRAVERSE :: u32 where "ACL_TRAVERSE = 0x2"
definition ACL_ENTER :: u32 where "ACL_ENTER = 0x4"
definition ACL_SPEAK :: u32 where "ACL_SPEAK = 0x8"
definition ACL_MUTE_DEAFEN :: u32 where "ACL_MUTE_DEAFEN = 0x10"
definition ACL_MOVE :: u32 where "ACL_MOVE = 0x20"
definition ACL_MAKE_CHANNEL :: u32 where "ACL_MAKE_CHANNEL = 0x40"
definition ACL_LINK_CHANNEL :: u32 where "ACL_LINK_CHANNEL = 0x80"
definition ACL_WHISPER :: u32 where "ACL_WHISPER = 0x100"
definition ACL_TEXT_MESSAGE :: u32 where "ACL_TEXT_MESSAGE = 0x200"
definition ACL_MAKE_TEMP_CHANNEL :: u32 where "ACL_MAKE_TEMP_CHANNEL = 0x400"
definition ACL_LISTEN :: u32 where "ACL_LISTEN = 0x800"
definition ACL_KICK :: u32 where "ACL_KICK = 0x10000"
definition ACL_BAN :: u32 where "ACL_BAN = 0x20000"
definition ACL_REGISTER :: u32 where "ACL_REGISTER = 0x40000"
definition ACL_SELF_REGISTER :: u32 where "ACL_SELF_REGISTER = 0x80000"
definition ACL_RESET_USER_CONTENT :: u32 where "ACL_RESET_USER_CONTENT = 0x100000"
definition ACL_CACHED :: u32 where "ACL_CACHED = 0x8000000"

text \<open>The names in \<open>mumble.acl\<close> of the permissions that are one bit; \<open>ACL_ALL\<close> is their sum.\<close>

lemmas acl_defs = ACL_WRITE_def ACL_TRAVERSE_def ACL_ENTER_def ACL_SPEAK_def ACL_MUTE_DEAFEN_def ACL_MOVE_def
  ACL_MAKE_CHANNEL_def ACL_LINK_CHANNEL_def ACL_WHISPER_def ACL_TEXT_MESSAGE_def ACL_MAKE_TEMP_CHANNEL_def ACL_LISTEN_def
  ACL_KICK_def ACL_BAN_def ACL_REGISTER_def ACL_SELF_REGISTER_def ACL_RESET_USER_CONTENT_def

definition acl_flags :: "(string \<times> u32) list" where
  "acl_flags =
     [(''WRITE'', ACL_WRITE), (''TRAVERSE'', ACL_TRAVERSE), (''ENTER'', ACL_ENTER), (''SPEAK'', ACL_SPEAK),
      (''MUTE_DEAFEN'', ACL_MUTE_DEAFEN), (''MOVE'', ACL_MOVE), (''MAKE_CHANNEL'', ACL_MAKE_CHANNEL),
      (''LINK_CHANNEL'', ACL_LINK_CHANNEL), (''WHISPER'', ACL_WHISPER), (''TEXT_MESSAGE'', ACL_TEXT_MESSAGE),
      (''MAKE_TEMP_CHANNEL'', ACL_MAKE_TEMP_CHANNEL), (''LISTEN'', ACL_LISTEN), (''KICK'', ACL_KICK), (''BAN'', ACL_BAN),
      (''REGISTER'', ACL_REGISTER), (''SELF_REGISTER'', ACL_SELF_REGISTER), (''RESET_USER_CONTENT'', ACL_RESET_USER_CONTENT)]"

definition ACL_ALL :: u32 where
  "ACL_ALL = ACL_WRITE + ACL_TRAVERSE + ACL_ENTER + ACL_SPEAK + ACL_MUTE_DEAFEN + ACL_MOVE +
     ACL_MAKE_CHANNEL + ACL_LINK_CHANNEL + ACL_WHISPER + ACL_TEXT_MESSAGE + ACL_MAKE_TEMP_CHANNEL + ACL_LISTEN +
     ACL_KICK + ACL_BAN + ACL_REGISTER + ACL_SELF_REGISTER + ACL_RESET_USER_CONTENT"

definition int_table :: "(string \<times> int) list \<Rightarrow> ltable" where
  "int_table es = fold (\<lambda>e. set_field (KName (fst e)) (LInt (snd e))) es []"

definition acl_table :: ltable where
  "acl_table = int_table
     ((''NONE'', uint ACL_NONE) # map (\<lambda>e. (fst e, uint (snd e))) acl_flags @
      [(''CACHED'', uint ACL_CACHED), (''ALL'', uint ACL_ALL)])"

definition audio_table :: ltable where
  "audio_table = int_table [(''TINY'', 1), (''SMALL'', 2), (''MEDIUM'', 3), (''LARGE'', 4)]"

definition log_levels :: "(string \<times> int) list" where
  "log_levels = [(''INFO'', LOG_INFO), (''WARN'', LOG_WARN), (''ERROR'', LOG_ERROR), (''DEBUG'', LOG_DEBUG), (''TRACE'', LOG_TRACE)]"

definition functions_into :: "(string \<times> string) list \<Rightarrow> ltable \<Rightarrow> ltable" where
  "functions_into fs t = fold (\<lambda>e. set_field (KName (fst e)) (LMethod (snd e))) fs t"

definition log_table :: ltable where
  "log_table = functions_into mumble_log_reg (int_table log_levels)"

definition codec_table :: ltable where
  "codec_table = int_table [(''OPUS'', 4), (''SPEEX'', 2), (''CELT_ALPHA'', 0), (''UCELT_BETA'', 3)]"

section \<open>Names of enumerations\<close>

text \<open>The values of an enumeration, from 0 on, as the protocol has them.\<close>

definition reject_types :: "string list" where
  "reject_types =
     [''None'', ''WrongVersion'', ''InvalidUsername'', ''WrongUserPW'', ''WrongServerPW'', ''UsernameInUse'', ''ServerFull'',
      ''NoCertificate'', ''AuthenticatorFail'']"

definition deny_types :: "string list" where
  "deny_types =
     [''Text'', ''Permission'', ''SuperUser'', ''ChannelName'', ''TextTooLong'', ''H9K'', ''TemporaryChannel'',
      ''MissingCertificate'', ''UserName'', ''ChannelFull'', ''NestingLimit'', ''ChannelCountLimit'', ''ChannelListenerLimit'',
      ''UserListenerLimit'']"

text \<open>
  The descriptor of protobuf-c lists the names in their order with the index of each in the list of values; the loop
  over it makes a table from indices to names.
\<close>

definition values_by_name :: "string list \<Rightarrow> (string \<times> nat) list" where
  "values_by_name enum = sort_key fst (zip enum [0 ..< length enum])"

definition enum_table :: "string list \<Rightarrow> ltable" where
  "enum_table enum =
     fold (\<lambda>e. set_field (KInt (int (snd e))) (LStr (bytes_of (fst e)))) (values_by_name enum) []"

section \<open>Classes\<close>

text \<open>
  The table of a class, which is the metatable of its objects: \<open>__index\<close> is the table itself unless the functions have
  one, and, for most, a function that makes an object when the table is called.
\<close>

datatype class_value = This_Table | Class_Function string

definition class_table :: "(string \<times> string) list \<Rightarrow> string \<Rightarrow> class_value option" where
  "class_table fs = fold (\<lambda>e t. t(fst e \<mapsto> Class_Function (snd e))) fs [''__index'' \<mapsto> This_Table]"

record lua_class =
  class_metatable :: string
  class_functions :: "(string \<times> string) list"
  class_call :: "string option"

datatype module_value =
    Module_Function string
  | Module_Table ltable
  | Module_Class lua_class
  | Module_Threads lua_class lua_class string
  | Module_Registry

definition classes :: "(string \<times> lua_class) list" where
  "classes =
     [(''client'', \<lparr> class_metatable = ''mumble.client'', class_functions = client_functions, class_call = Some ''mumble_client_new'' \<rparr>),
      (''user'', \<lparr> class_metatable = ''mumble.user'', class_functions = user_functions, class_call = None \<rparr>),
      (''channel'', \<lparr> class_metatable = ''mumble.channel'', class_functions = channel_functions, class_call = None \<rparr>),
      (''encoder'', \<lparr> class_metatable = ''mumble.encoder'', class_functions = encoder_functions, class_call = Some ''mumble_encoder_new'' \<rparr>),
      (''decoder'', \<lparr> class_metatable = ''mumble.decoder'', class_functions = decoder_functions, class_call = Some ''mumble_decoder_new'' \<rparr>),
      (''banentry'', \<lparr> class_metatable = ''mumble.banentry'', class_functions = banentry_functions, class_call = Some ''mumble_banentry_new'' \<rparr>),
      (''voicetarget'', \<lparr> class_metatable = ''mumble.voicetarget'', class_functions = target_functions, class_call = Some ''mumble_target_new'' \<rparr>),
      (''timer'', \<lparr> class_metatable = ''mumble.timer'', class_functions = timer_functions, class_call = Some ''mumble_timer_new'' \<rparr>)]"

definition more_classes :: "(string \<times> lua_class) list" where
  "more_classes =
     [(''audiostream'', \<lparr> class_metatable = ''mumble.audiostream'', class_functions = audiostream_functions, class_call = None \<rparr>),
      (''buffer'', \<lparr> class_metatable = ''mumble.buffer'', class_functions = buffer_functions, class_call = Some ''mumble_buffer_new'' \<rparr>),
      (''pipe'', \<lparr> class_metatable = ''mumble.pipe'', class_functions = pipe_functions, class_call = Some ''mumble_pipe_new'' \<rparr>),
      (''crypt'', \<lparr> class_metatable = ''mumble.crypt'', class_functions = crypt_functions, class_call = Some ''mumble_crypt_new'' \<rparr>)]"

definition worker_class :: lua_class where
  "worker_class = \<lparr> class_metatable = ''mumble.thread.worker'', class_functions = worker_functions, class_call = None \<rparr>"

definition controller_class :: lua_class where
  "controller_class = \<lparr> class_metatable = ''mumble.thread.controller'', class_functions = controller_functions, class_call = None \<rparr>"

text \<open>The module, in the order \<open>luaopen_mumble\<close> makes it.\<close>

definition luaopen_mumble :: "(string \<times> module_value) list" where
  "luaopen_mumble =
     map (\<lambda>e. (fst e, Module_Function (snd e))) mumble_functions @
     [(''reject'', Module_Table (enum_table reject_types)), (''deny'', Module_Table (enum_table deny_types)),
      (''acl'', Module_Table acl_table), (''audio'', Module_Table audio_table), (''log'', Module_Table log_table),
      (''codec'', Module_Table codec_table)] @
     map (\<lambda>e. (fst e, Module_Class (snd e))) classes @
     [(''thread'', Module_Threads worker_class controller_class ''mumble_thread_new'')] @
     map (\<lambda>e. (fst e, Module_Class (snd e))) more_classes @ [(''registry'', Module_Registry)]"

section \<open>Lemmas\<close>

lemma set_field_map [simp]: "v \<noteq> LNil \<Longrightarrow> map_of (set_field k v t) = (map_of t)(k \<mapsto> v)"
proof -
  have "map_of (filter (\<lambda>e. fst e \<noteq> k) t) = (map_of t)(k := None)"
    by (induction t) (auto simp: fun_eq_iff)
  then show "v \<noteq> LNil \<Longrightarrow> ?thesis" by (auto simp: set_field_def map_add_def fun_eq_iff split: option.split)
qed

lemma fold_fields:
  "(\<And>e. e \<in> set es \<Longrightarrow> g e \<noteq> LNil) \<Longrightarrow> distinct (map f es) \<Longrightarrow> e \<in> set es \<Longrightarrow>
   map_of (fold (\<lambda>e. set_field (f e) (g e)) es t) (f e) = Some (g e)"
proof (induction es arbitrary: t)
  case (Cons a es)
  have keep: "(\<And>e. e \<in> set xs \<Longrightarrow> g e \<noteq> LNil) \<Longrightarrow> k \<notin> f ` set xs \<Longrightarrow>
      map_of (fold (\<lambda>e. set_field (f e) (g e)) xs t) k = map_of t k" for xs t k
    by (induction xs arbitrary: t) auto
  show ?case
  proof (cases "e = a")
    case True
    with Cons.prems keep [of es "f a"] show ?thesis by simp
  next
    case False
    with Cons show ?thesis by simp
  qed
qed simp

lemma enum_name:
  assumes "i < length enum"
  shows "map_of (enum_table enum) (KInt (int i)) = Some (LStr (bytes_of (enum ! i)))"
proof -
  let ?es = "values_by_name enum"
  have p: "mset ?es = mset (zip enum [0 ..< length enum])" by (simp add: values_by_name_def)
  then have "mset (map snd ?es) = mset (map snd (zip enum [0 ..< length enum]))" by (simp only: mset_map)
  then have "distinct (map snd ?es)" by (metis distinct_upt map_snd_zip length_upt minus_nat.diff_0 mset_eq_imp_distinct_iff)
  then have "distinct (map (\<lambda>e. KInt (int (snd e))) ?es)" by (auto simp: distinct_map inj_on_def)
  moreover have "(enum ! i, i) \<in> set ?es"
    using assms p by (auto simp: values_by_name_def set_zip)
  ultimately show ?thesis unfolding enum_table_def
    using fold_fields [of ?es "\<lambda>e. LStr (bytes_of (fst e))" "\<lambda>e. KInt (int (snd e))" "(enum ! i, i)" "[]"] by simp
qed

lemma class_found:
  assumes "distinct (map fst fs)" "(name, f) \<in> set fs"
  shows "class_table fs name = Some (Class_Function f)"
proof -
  have "name \<notin> fst ` set xs \<Longrightarrow> (fold (\<lambda>e t. t(fst e \<mapsto> Class_Function (snd e))) xs t) name = t name" for xs t
    by (induction xs arbitrary: t) (auto simp: image_iff)
  then have "(fold (\<lambda>e t. t(fst e \<mapsto> Class_Function (snd e))) fs t) name = Some (Class_Function f)" for t
    using assms by (induction fs arbitrary: t) force+
  then show ?thesis by (simp add: class_table_def)
qed

lemma class_index: "''__index'' \<notin> fst ` set fs \<Longrightarrow> class_table fs ''__index'' = Some This_Table"
proof -
  have "name \<notin> fst ` set xs \<Longrightarrow> (fold (\<lambda>e t. t(fst e \<mapsto> Class_Function (snd e))) xs t) name = t name" for xs t name
    by (induction xs arbitrary: t) (auto simp: image_iff)
  from this [of "''__index''" fs "[''__index'' \<mapsto> This_Table]"]
  show "''__index'' \<notin> fst ` set fs \<Longrightarrow> ?thesis" by (simp add: class_table_def)
qed

definition all_classes :: "lua_class list" where
  "all_classes = map snd classes @ [worker_class, controller_class] @ map snd more_classes"

lemmas function_lists = client_functions_def user_functions_def channel_functions_def encoder_functions_def
  decoder_functions_def banentry_functions_def target_functions_def timer_functions_def worker_functions_def
  controller_functions_def audiostream_functions_def buffer_functions_def pipe_functions_def crypt_functions_def

lemma names_distinct: "list_all (\<lambda>c. distinct (map fst (class_functions c))) all_classes"
  by (simp add: all_classes_def classes_def more_classes_def worker_class_def controller_class_def function_lists)

section \<open>Properties\<close>

text \<open>
  Every class finds each of its functions under its name, and where it has no \<open>__index\<close> of its own, its objects
  look their methods up in it; and \<open>mumble.reject\<close> and \<open>mumble.deny\<close> give each value of the protocol its name, whatever the order
  in which the names are listed.
\<close>
theorem module_tables:
  shows "(c \<in> set all_classes \<and> (name, f) \<in> set (class_functions c) \<longrightarrow>
      class_table (class_functions c) name = Some (Class_Function f)) \<and>
    (''__index'' \<notin> fst ` set (class_functions c) \<longrightarrow> class_table (class_functions c) ''__index'' = Some This_Table) \<and>
    (i < length reject_types \<longrightarrow> get_field (KInt (int i)) (LTable (enum_table reject_types)) = LStr (bytes_of (reject_types ! i))) \<and>
    (j < length deny_types \<longrightarrow> get_field (KInt (int j)) (LTable (enum_table deny_types)) = LStr (bytes_of (deny_types ! j)))"
  using class_found [of "class_functions c" name f] class_index [of "class_functions c"] names_distinct
    enum_name [of i reject_types] enum_name [of j deny_types]
  by (auto simp: list_all_iff)

theorem module_tables_witness:
  "class_table timer_functions ''start'' = Some (Class_Function ''timer_start'') \<and>
   get_field (KInt 1) (LTable (enum_table deny_types)) = LStr (bytes_of ''Permission'')"
  using module_tables [of "snd (classes ! 7)" "''start''" "''timer_start''" 0 1]
  by (simp add: all_classes_def classes_def timer_functions_def deny_types_def)

text \<open>
  The permissions of \<open>mumble.acl\<close> that a channel can have are single bits, no two the same, so that each can be tested with AND,
  and \<open>ACL_ALL\<close> is the union of them all.
\<close>
theorem acl_bits:
  "map snd acl_flags = map (\<lambda>n. push_bit n 1) [0, 1, 2, 3, 4, 5, 6, 7, 8, 9, 10, 11, 16, 17, 18, 19, 20] \<and>
   ACL_ALL = fold (\<lambda>e w. w OR snd e) acl_flags 0"
  by (simp add: acl_flags_def ACL_ALL_def acl_defs)
end
