(* ===== verification/Spec2Isabelle.thy ===== *)
theory Spec2Isabelle
  imports Buffer Links Ocb Crypt Bandwidth Udp Packets Users Channels Transport Voice Ring Targets Hooks Api
    Connect Session BufferApi CryptApi Coders Reclaim Playback Registry Timers Threads PipeObjects
    Log Module
begin

text \<open>
  A model of lua-mumble, a client library for the Mumble voice chat that C code under
  \<open>src/mumble\<close> gives to Lua scripts, and the properties that make it correct.

  The program. A script makes a client (\<open>mumble_client_new\<close>), sets hooks on it and connects it. From
  then on everything is driven by the event loop of libuv: the TLS handshake and the control packets
  on a TCP socket, encrypted voice and pings on a UDP socket, a timer that sends pings. The handlers
  of control packets (\<open>packet.c\<close>) keep the users and channels of the client; handlers tell the script
  by calling hooks with tables; the script answers with the methods of the client, user and channel
  objects (\<open>client.c\<close>, \<open>user.c\<close>, \<open>channel.c\<close>), most of which send a control packet. Voice is sent and
  received in packets of a legacy or a protobuf format (\<open>audio.c\<close>, \<open>mumble.c\<close>), encrypted in the mode
  OCB-AES128 with a vector that both sides count (\<open>ocb.c\<close>), or tunnelled through TCP. Audio files and
  pipes of samples are mixed, encoded and sent by the threads of a client (\<open>audio.c\<close>): one reads files ahead into rings,
  one counts the time of the packets, one encodes; the loop mixes and sends. Beside the client a script has buffers,
  coders, crypt states, timers, threads with a Lua state of their own, named pipes and the log.

  The theories, in the order of their imports:

  \<^item> \<open>Prelude\<close>: words and bits, blocks of memory as lists of bytes with checked access (\<open>peek\<close>, \<open>poke\<close>,
    \<open>slice\<close>), the predicate \<open>all_some\<close> on results with its rules \<open>wp\<close>. \<open>Interfaces\<close>: the locales, a codec of
    a stream, a queue and a keyed store with its list of keys; the components interpret them.
  \<^item> \<open>Varint\<close> (\<open>util_set_varint\<close>, \<open>util_get_varint\<close>), \<open>Buffer\<close> (\<open>buffer.c\<close>: growth, heads, raw, typed and
    varint access), \<open>Links\<close> (lists and queues of \<open>util.c\<close> on a heap of cells, the work queues of
    \<open>audio.c\<close>), \<open>Ocb\<close> and \<open>Crypt\<close> (\<open>ocb.c\<close>: the mode, the vectors and the replay history).
  \<^item> \<open>Lua\<close> (values, tables, argument checks, errors), \<open>Client\<close> (the structures of \<open>types.h\<close>; the tables of
    users and channels, recording, cleaning up and disconnecting of \<open>mumble.c\<close>), \<open>Bandwidth\<close> (the choice
    of the bitrate), \<open>Udp\<close> (datagrams, pings, voice received), \<open>Packets\<close> (\<open>packet.c\<close>: every handler),
    \<open>Transport\<close> (frames of control packets on the stream), \<open>Voice\<close> (voice sent), \<open>Ring\<close> (the ring of
    samples between two threads, as interleaved atomic steps).
  \<^item> \<open>Bindings\<close> (what methods share), \<open>Users\<close>, \<open>Channels\<close>, \<open>Targets\<close>, \<open>Api\<close>: the methods of the objects and
    their tables. \<open>Hooks\<close>: the call of the callbacks on an explicit Lua stack.
  \<^item> \<open>Connect\<close> (connecting and the handshake), \<open>Session\<close> (all events and calls as one transition relation).
  \<^item> \<open>BufferApi\<close>, \<open>CryptApi\<close>, \<open>Coders\<close>: the objects with a state of their own: buffers, crypt states and bans, the encoder
    and decoder (a control request to Opus is its name and value).
  \<^item> \<open>Reclaim\<close> (pins and references of one stream as atomic steps of all threads), \<open>Streams\<close> (methods of
    \<open>audiostream.c\<close>, opening a file), \<open>Mixing\<close> (reading ahead, conversion, resampling, fading and mixing, on checked
    blocks), \<open>Pipes\<close> (the pipes of \<open>createAudioBuffer\<close>), \<open>Playback\<close> (the turns of the threads and the
    events of the loop, as interleaved steps).
  \<^item> \<open>Registry\<close> (the references C code keeps, on the Lua stack; the locale \<open>reference_store\<close>), \<open>Timers\<close> (\<open>timer.c\<close>, on the
    handles of libuv as a parameter), \<open>Threads\<close> (\<open>thread.c\<close>: controller and worker as interleaved
    steps), \<open>PipeObjects\<close> (\<open>pipe.c\<close>, the handles as memory), \<open>Log\<close> (\<open>log.c\<close>, the printers of \<open>util.c\<close>), \<open>Module\<close> (what
    \<open>luaopen_mumble\<close> registers).

  State and results. A record has the members of the C structure of its name; \<open>client\<close> holds the tables
  of users and channels as maps with the lists of their keys, and a \<open>trace\<close> of what the client did
  to the outside: hooks called, packets and datagrams sent, in order. A fallible operation returns an
  option, where \<open>None\<close> is undefined behaviour of C (a read or write outside a block, a NULL pointer, a
  conversion that does not fit); errors a method raises are values of \<open>lua_error\<close>. Integers have
  their width; doubles and floats are their bits, with the arithmetic a parameter. The record \<open>env\<close>
  holds the functions of libraries (IEEE arithmetic, AES, Opus, the generated packers), \<open>world\<close> what the
  outside answers during one event, \<open>decoders\<close> the generated unpackers.

  What is shown. Codings round trip (varints, buffers, OCB, frames) and the readers agree; lists,
  queues, buffers and the ring refine their abstract containers, the ring under every interleaving; the
  receiver of datagrams recovers vectors inside its window, refuses replays and is unchanged by what
  it refuses; the handlers merge exactly the members a packet has; voice goes by UDP exactly while the
  history of pings and replies says so; hooks come in pairs and in order; the methods keep the invariant \<open>client_ok\<close>
  and hand out only objects the client has; a path leads where its components, read by a relation of their own
  (\<open>leads_to\<close>), lead; the session keeps its invariant in every reachable state, whenever the script connects, and
  becomes synchronized. Under every interleaving a stream is alive while a thread has it pinned and the packets of
  voice are sent in the order they were mixed, with ascending numbers, also when the script transmits packets of its
  own between them; reading ahead and mixing stay in their blocks, a
  turn of the playback thread ends at the next time that lies ahead. References behave as a map from numbers; a
  running timer is kept, a stopped one never called, and one without a repeat is closed and gives both of its
  references back; the messages between two threads come in order and no wake-up is lost; a pipe that is open stays
  alive and hands on what it reads, where there is an error handler; each thread's lines are written to the log file
  in order, though not kept whole. Theorems about errors state what the
  code does where it goes wrong: short blocks, strings with zero bytes, partial reads, callbacks that return
  values, objects collected while libuv or another thread still uses them.

  Bounds and fuel. The loops over lists, tables and bytes are structural. \<open>channel_walk\<close> ends because
  \<open>strtok\<close> advances, \<open>lower_bitrate\<close> because the bitrate falls. \<open>hook_loop\<close> has fuel for one step more
  than the table has entries, which is enough by the theorem on the calls of a hook. \<open>advance_past\<close>, which adds
  an interval until a time is passed, is a partial function that is proved to return for a positive one. Steps
  of relations are the sections between two points where another thread can see the state.

  Not modelled. What the libraries do (OpenSSL, Opus, libsndfile, libsamplerate, the generated packers, the Lua
  library) is a parameter; what is assumed of one (that AES decrypts what it encrypted, \<open>uv_timers_ok\<close>) is a hypothesis of the
  theorems that need it, and a sample satisfies it.
  The handles of a client and its mutexes are left out: a section under a mutex is one step, and a deadlock cannot be
  stated. Signals, the check for LuaJIT and the weak tables that nothing uses are not modelled. The
  functions of hooks are part of the script: what they do is a further call of the methods, after the event that
  called them; where they change a number in the middle of one, as \<open>client:transmit\<close> does, \<open>Playback\<close> has it as a
  parameter of the event. Objects that outlive their user or channel are outside the model. A client may be connected
  at any time and again, as the code allows; the pointers \<open>mumble_client_new\<close> does not set are marked by \<open>cl_unset\<close>,
  and freeing them is undefined; \<open>tcp_read_packet\<close>, which nothing sets, is an arbitrary argument of the events. Freeing
  a client ends its threads and destroys its mutexes and its coders; that a second connecting or a second freeing meets
  those is not modelled. The buffer \<open>localtime\<close> shares between threads, errors of writing the log other than that its file
  is read-only, and what a script itself writes to that file are not modelled. Threads, timers and pipes
  are modelled one Lua state at a time, apart from the theorem on a second state.
\<close>

section \<open>Properties of the whole client\<close>


text \<open>
  C2. A new client whose connecting succeeds gets connected, however often its handshake has to wait,
  and says so to its hooks once; and when the packets that then arrive, one by an event, hold a
  server sync that can be decoded, and their handlers are defined and do not disconnect, then the
  client has become synchronized and its timer runs. The packet the client was made with has no header.
\<close>

theorem session_established:
  assumes "mumble_client_connect A W args (mumble_client_new major minor patch jb jr) = Some (Inr (vs, c1))"
    and "connect_succeeds A" "\<forall>H\<in>set Hs. waiting H" "finishing F"
    and "\<forall>(ty, b)\<in>set ps. b \<noteq> [] \<and> length b < 2 ^ 32"
    and "(PACKET_SERVERSYNC, sync) \<in> set ps" "un_server_sync D sync \<noteq> None" "pk_header p = None"
  shows "vs = [LBool True] \<and> connecting c1 \<and>
    (\<exists>c2. handshake_events (Hs @ [F]) c1 = Some c2 \<and> connected c2 \<and> trace c2 = [Hook ''OnConnect'' []] \<and>
      (\<forall>c3. handle_all E D W' ps c2 = Some c3 \<and> connected c3 \<longrightarrow>
        tcp_events E D W' p (map (\<lambda>(ty, b). whole_frame (packet_frame ty b)) ps) c2 = Some c3 \<and>
        synced c3 \<and> ping_timer c3))"
proof -
  let ?c = "mumble_client_new major minor patch jb jr"
  have c1: "vs = [LBool True]" "connecting c1" "\<not> connected c1" "cl_address c1 \<noteq> None" "self c1 \<ge> 0" "trace c1 = []"
    using connect_cases [OF assms(1)] assms(2) by (auto simp: mumble_client_new_def)
  have ok: "session_ok (refused False (Inr (vs, c1))) c1"
    using session_ok_connect [OF session_ok_new assms(1)] by (simp add: left_by_def)
  let ?c2 = "mumble_hook_call ''OnConnect'' [] (c1 \<lparr> connected := True \<rparr>)"
  have finished: "handshake_events (Hs @ [F]) c1 = Some ?c2"
    using handshake_events_done [OF assms(3,4) c1(3,4)] .
  have ok2: "client_ok ?c2" "referenced ?c2" "connected ?c2"
    using session_okD [OF ok] by (simp_all add: referenced_def)
  have "tcp_events E D W' p (map (\<lambda>(ty, b). whole_frame (packet_frame ty b)) ps) ?c2 = Some c3 \<and>
      synced c3 \<and> ping_timer c3"
    if "handle_all E D W' ps ?c2 = Some c3" "connected c3" for c3
    using handle_all_connected [OF that(1) ok2 that(2)] assms(6,7) whole_frames [OF assms(5,8), of E D W' ?c2] that(1)
    by simp
  with c1 finished ok2(3) show ?thesis by auto
qed

section \<open>A sample session\<close>

definition sample_answers :: connect_answers where
  "sample_answers =
     \<lparr> ca_context = None, ca_certificate = None, ca_tcp_host = Inr (bytes_of ''127.0.0.1''),
       ca_crypt_memory = True, ca_udp_host = None, ca_ssl = None, ca_encoder = None, ca_decoder = None,
       ca_tcp_connect = None, ca_fileno = None, ca_ssl_fd = None, ca_udp_connect = None, ca_reference = 1 \<rparr>"

definition sample_args :: "lval list" where
  "sample_args = [LClient (-2), LStr (bytes_of ''localhost''), LInt 64738, LStr (bytes_of ''bot.crt''),
     LStr (bytes_of ''bot.key'')]"

definition sample_handshake :: "handshake_answer \<Rightarrow> handshake_event" where
  "sample_handshake answer = \<lparr> he_error = None, he_writable = True, he_answer = answer \<rparr>"

definition sync_decoders :: decoders where
  "sync_decoders = sample_decoders \<lparr> un_server_sync := (\<lambda>b. Some
     \<lparr> sy_session = Some 7, sy_max_bandwidth = None, sy_welcome_text = None, sy_permissions = None \<rparr>) \<rparr>"

lemma sample_connects:
  "connect_succeeds sample_answers"
  "\<exists>vs c. mumble_client_connect sample_answers W sample_args (mumble_client_new 1 5 735 0 0) = Some (Inr (vs, c))"
  by (simp add: connect_succeeds_def sample_answers_def)
    (simp add: mumble_client_connect_def connect_sockets_def sample_answers_def sample_args_def arg_def
      check_string_def check_lstring_def check_integer_def check_then_def or_fail_def Let_def)

lemma sample_reaches:
  assumes "mumble_client_connect sample_answers W sample_args c = Some (Inr (vs, c'))"
    "session_reachable E D p c0 failed c"
  shows "session_reachable E D p c0 False c'"
proof -
  have "refused failed (Inr (vs, c')) = False"
    using connect_cases [OF assms(1)] sample_connects(1) by (auto simp: refused_def)
  then show ?thesis using session_reachable.connect [OF assms(2,1)] by (simp add: left_by_def)
qed

theorem session_established_witness:
  "\<exists>c2 c3. tcp_events sample_env sync_decoders sample_world no_packet
     [whole_frame (packet_frame PACKET_SERVERSYNC [1])] c2 = Some c3 \<and> synced c3 \<and> session c3 = 7 \<and>
   session_reachable sample_env sync_decoders no_packet (mumble_client_new 1 5 735 0 0) False c2"
proof -
  let ?c = "mumble_client_new 1 5 735 0 0" and ?Hs = "[sample_handshake Handshake_Retry]"
    and ?F = "sample_handshake Handshake_Done"
  obtain vs c1 where c1: "mumble_client_connect sample_answers sample_world sample_args ?c = Some (Inr (vs, c1))"
    using sample_connects(2) by blast
  have hs: "\<forall>H\<in>set ?Hs. waiting H" "finishing ?F"
    by (simp_all add: waiting_def finishing_def sample_handshake_def)
  obtain c2 where c2: "connecting c1" "handshake_events (?Hs @ [?F]) c1 = Some c2" "connected c2"
    "\<forall>c3. handle_all sample_env sync_decoders sample_world [(PACKET_SERVERSYNC, [1])] c2 = Some c3 \<and> connected c3 \<longrightarrow>
      tcp_events sample_env sync_decoders sample_world no_packet
        (map (\<lambda>(ty, b). whole_frame (packet_frame ty b)) [(PACKET_SERVERSYNC, [1])]) c2 = Some c3 \<and>
      synced c3 \<and> ping_timer c3"
    using session_established [OF c1 sample_connects(1) hs, of "[(PACKET_SERVERSYNC, [1])]" "[1]" sync_decoders
        no_packet sample_env sample_world]
    by (auto simp: sync_decoders_def no_packet_def)
  obtain c3 where c3: "handle_all sample_env sync_decoders sample_world [(PACKET_SERVERSYNC, [1])] c2 = Some c3"
    "connected c3" "session c3 = 7"
    using c2(3) by (simp add: with_message_def sync_decoders_def packet_server_sync_def Let_def)
  have "session_step sample_env sync_decoders no_packet c1 c2"
    using session_step.handshake [OF c2(1), of ?F c2] c2(2)
    by (cases "connected c1") (auto simp: socket_write_event_tcp_def sample_handshake_def bind_eq_Some_conv)
  with sample_reaches [OF c1 session_reachable.start]
  have "session_reachable sample_env sync_decoders no_packet ?c False c2"
    by (rule session_reachable.step)
  with c2(4) c3 show ?thesis by auto
qed


end
